(* ===== verification/Prelude.thy ===== *)
theory Prelude
  imports Main "HOL-Library.AList" "HOL-Library.Sublist"
begin

text \<open>
  Shared vocabulary of the development: JavaScript strings as lists of UTF-16 code units with
  the \<^verbatim>\<open>String.prototype\<close> operations the sources call, insertion-ordered \<^verbatim>\<open>Map\<close> and \<^verbatim>\<open>Set\<close>
  objects as association and duplicate-free lists, and the interfaces (locales) that several
  components implement: left-to-right scanners that emit source ranges, and reducers whose
  one-step invariants lift to whole runs.
\<close>

section \<open>Strings\<close>

text \<open>
  A JavaScript string is a sequence of UTF-16 code units; all offsets in the sources count code
  units. A literal is written \<open>js ''...''\<close>.
\<close>

type_synonym jsstring = "nat list"

definition js :: "string \<Rightarrow> jsstring" where
  "js s = map of_char s"

named_theorems js_str \<open>evaluation of string literals and string predicates\<close>

lemma js_Nil [simp]: "js [] = []"
  by (simp add: js_def)

lemma js_Cons [js_str]: "js (c # s) = of_char c # js s"
  by (simp add: js_def)

lemma js_append: "js (s @ t) = js s @ js t"
  by (simp add: js_def)

lemma length_js [simp]: "length (js s) = length s"
  by (simp add: js_def)

lemma js_inj [simp]: "js s = js t \<longleftrightarrow> s = t"
proof -
  have "inj (of_char :: char \<Rightarrow> nat)" by (rule injI) (simp add: of_char_eq_iff)
  then show ?thesis by (simp add: js_def inj_map_eq_map)
qed

lemma js_eq_Nil [simp]: "js s = [] \<longleftrightarrow> s = []"
  by (simp add: js_def)

text \<open>\<^verbatim>\<open>s.slice(from, to)\<close> for non-negative bounds; an inverted pair gives the empty string.\<close>

definition slice :: "jsstring \<Rightarrow> nat \<Rightarrow> nat \<Rightarrow> jsstring" where
  "slice s from to = take (to - from) (drop from s)"

lemma length_slice: "length (slice s i j) = min (length s) j - i"
  by (simp add: slice_def)

lemma slice_whole [simp]: "slice s 0 (length s) = s"
  by (simp add: slice_def)

lemma slice_self [simp]: "slice s i i = []"
  by (simp add: slice_def)

lemma slice_append_slice:
  assumes "i \<le> j" and "j \<le> k"
  shows "slice s i j @ slice s j k = slice s i k"
proof -
  have "drop j s = drop (j - i) (drop i s)" and "k - i = (j - i) + (k - j)"
    using assms by simp_all
  then show ?thesis by (simp only: slice_def take_add)
qed

lemma prefix_append_drop:
  "prefix (a @ b) (drop k s) \<longleftrightarrow> prefix a (drop k s) \<and> prefix b (drop (k + length a) s)"
proof -
  have "prefix (a @ b) t \<longleftrightarrow> prefix a t \<and> prefix b (drop (length a) t)" for t
    by (auto simp: prefix_def)
  from this [of "drop k s"] show ?thesis by (simp add: add.commute)
qed

definition starts_with :: "jsstring \<Rightarrow> jsstring \<Rightarrow> bool" where
  "starts_with s p \<longleftrightarrow> take (length p) s = p"

definition starts_with_at :: "jsstring \<Rightarrow> jsstring \<Rightarrow> nat \<Rightarrow> bool" where
  "starts_with_at s p i \<longleftrightarrow> starts_with (drop i s) p"

definition ends_with :: "jsstring \<Rightarrow> jsstring \<Rightarrow> bool" where
  "ends_with s p \<longleftrightarrow> length p \<le> length s \<and> drop (length s - length p) s = p"

lemma starts_with_prefix: "starts_with s p \<longleftrightarrow> prefix p s"
  by (metis starts_with_def append_eq_conv_conj prefix_def)

lemma starts_with_append [simp]: "starts_with (p @ s) p"
  by (simp add: starts_with_def)

lemma starts_with_Nil [simp]: "starts_with s []"
  by (simp add: starts_with_def)

lemma starts_with_Cons [js_str]:
  "starts_with (d # s) (c # p) \<longleftrightarrow> d = c \<and> starts_with s p"
  "\<not> starts_with [] (c # p)"
  by (auto simp: starts_with_def)

lemma starts_with_at_bound:
  "starts_with_at s p i \<Longrightarrow> p \<noteq> [] \<Longrightarrow> i + length p \<le> length s"
  by (auto simp: starts_with_at_def starts_with_prefix dest!: prefix_length_le)
     (metis Nat.le_diff_conv2 add.commute le0 length_0_conv nat_le_linear diff_is_0_eq' le_zero_eq)

text \<open>\<^verbatim>\<open>s.includes(p)\<close> and \<^verbatim>\<open>s.indexOf(p)\<close> (\<open>None\<close> for \<open>-1\<close>).\<close>

fun js_includes :: "jsstring \<Rightarrow> jsstring \<Rightarrow> bool" where
  "js_includes [] p = (p = [])"
| "js_includes (c # s) p = (starts_with (c # s) p \<or> js_includes s p)"

fun index_of :: "jsstring \<Rightarrow> jsstring \<Rightarrow> nat option" where
  "index_of [] p = (if p = [] then Some 0 else None)"
| "index_of (c # s) p = (if starts_with (c # s) p then Some 0 else map_option Suc (index_of s p))"

lemma index_of_js_includes: "js_includes s p \<longleftrightarrow> index_of s p \<noteq> None"
  by (induction s) auto

lemma js_includes_sublist: "js_includes s p \<longleftrightarrow> sublist p s"
proof (induction s)
  case (Cons c s)
  then show ?case by (auto simp: starts_with_prefix sublist_Cons_right)
qed simp

text \<open>\<^verbatim>\<open>s.split(sep)\<close> for a separator of one code unit, and \<^verbatim>\<open>parts.join(sep)\<close>.\<close>

fun split_on :: "nat \<Rightarrow> jsstring \<Rightarrow> jsstring list" where
  "split_on sep [] = [[]]"
| "split_on sep (c # s) =
     (if c = sep then [] # split_on sep s
      else (case split_on sep s of [] \<Rightarrow> [[c]] | w # ws \<Rightarrow> (c # w) # ws))"

fun join_with :: "jsstring \<Rightarrow> jsstring list \<Rightarrow> jsstring" where
  "join_with sep [] = []"
| "join_with sep [w] = w"
| "join_with sep (w # v # ws) = w @ sep @ join_with sep (v # ws)"

lemma split_on_neq_Nil [simp]: "split_on sep s \<noteq> []"
  by (induction s) (auto split: list.splits)

lemma split_on_no_sep: "w \<in> set (split_on sep s) \<Longrightarrow> sep \<notin> set w"
proof (induction s arbitrary: w)
  case (Cons c s)
  then show ?case by (auto split: if_splits list.splits)
qed simp

lemma join_with_Cons: "ws \<noteq> [] \<Longrightarrow> join_with sep (w # ws) = w @ sep @ join_with sep ws"
  by (cases ws) auto

lemma join_split_on: "join_with [sep] (split_on sep s) = s"
proof (induction s)
  case (Cons c s)
  obtain w ws where sp: "split_on sep s = w # ws"
    by (cases "split_on sep s") auto
  show ?case
  proof (cases "c = sep")
    case True
    with Cons sp show ?thesis by simp
  next
    case False
    with Cons sp show ?thesis by (cases ws) auto
  qed
qed simp

lemma split_on_notin: "sep \<notin> set s \<Longrightarrow> split_on sep s = [s]"
  by (induction s) auto

lemma split_on_append_sep:
  "sep \<notin> set w \<Longrightarrow> split_on sep (w @ sep # s) = w # split_on sep s"
  by (induction w) auto

lemma split_join_on:
  "ws \<noteq> [] \<Longrightarrow> \<forall>w \<in> set ws. sep \<notin> set w \<Longrightarrow> split_on sep (join_with [sep] ws) = ws"
proof (induction ws)
  case (Cons w ws)
  then show ?case
    by (cases "ws = []") (auto simp: split_on_notin join_with_Cons split_on_append_sep)
qed simp

text \<open>\<^verbatim>\<open>trim\<close>: the ECMAScript white space and line terminator code units.\<close>

definition is_js_space :: "nat \<Rightarrow> bool" where
  "is_js_space c \<longleftrightarrow>
     (9 \<le> c \<and> c \<le> 13) \<or> c = 32 \<or> c = 160 \<or> c = 0x1680 \<or> (0x2000 \<le> c \<and> c \<le> 0x200a) \<or>
     c = 0x2028 \<or> c = 0x2029 \<or> c = 0x202f \<or> c = 0x205f \<or> c = 0x3000 \<or> c = 0xfeff"

definition trim_start :: "jsstring \<Rightarrow> jsstring" where
  "trim_start s = dropWhile is_js_space s"

definition trim_end :: "jsstring \<Rightarrow> jsstring" where
  "trim_end s = rev (dropWhile is_js_space (rev s))"

definition trim :: "jsstring \<Rightarrow> jsstring" where
  "trim s = trim_end (trim_start s)"

lemma trim_end_eq_Nil: "trim_end s = [] \<longleftrightarrow> (\<forall>c \<in> set s. is_js_space c)"
  by (simp add: trim_end_def)

lemma trim_eq_Nil: "trim s = [] \<longleftrightarrow> (\<forall>c \<in> set s. is_js_space c)"
  unfolding trim_def trim_end_eq_Nil trim_start_def
  by (metis dropWhile_eq_Nil_conv empty_iff hd_dropWhile list.set(1) list.set_sel(1) set_dropWhileD)

section \<open>Code points\<close>

definition is_high_surrogate :: "nat \<Rightarrow> bool" where
  "is_high_surrogate c \<longleftrightarrow> 0xd800 \<le> c \<and> c \<le> 0xdbff"

definition is_low_surrogate :: "nat \<Rightarrow> bool" where
  "is_low_surrogate c \<longleftrightarrow> 0xdc00 \<le> c \<and> c \<le> 0xdfff"

text \<open>\<^verbatim>\<open>s.codePointAt(i)\<close>; \<open>None\<close> is \<^verbatim>\<open>undefined\<close>.\<close>

definition code_point_at :: "jsstring \<Rightarrow> nat \<Rightarrow> nat option" where
  "code_point_at s i =
     (if i < length s
      then Some (if is_high_surrogate (s ! i) \<and> i + 1 < length s \<and> is_low_surrogate (s ! (i + 1))
                 then 0x10000 + (s ! i - 0xd800) * 0x400 + (s ! (i + 1) - 0xdc00)
                 else s ! i)
      else None)"

text \<open>\<^verbatim>\<open>String.fromCodePoint(p)\<close>.\<close>

definition from_code_point :: "nat \<Rightarrow> jsstring" where
  "from_code_point p =
     (if p > 0xffff then [0xd800 + (p - 0x10000) div 0x400, 0xdc00 + (p - 0x10000) mod 0x400] else [p])"

text \<open>A Unicode scalar value: a code point that is not a surrogate.\<close>

definition is_scalar :: "nat \<Rightarrow> bool" where
  "is_scalar p \<longleftrightarrow> p \<le> 0x10ffff \<and> \<not> (0xd800 \<le> p \<and> p \<le> 0xdfff)"

definition encode :: "nat list \<Rightarrow> jsstring" where
  "encode ps = concat (map from_code_point ps)"

lemma from_code_point_neq_Nil [simp]: "from_code_point p \<noteq> []"
  by (simp add: from_code_point_def)

lemma length_from_code_point: "length (from_code_point p) = (if p > 0xffff then 2 else 1)"
  by (simp add: from_code_point_def)

lemma code_units_le: "set s \<subseteq> {..0xffff} \<Longrightarrow> i < length s \<Longrightarrow> s ! i \<le> 0xffff"
  using nth_mem by fastforce

text \<open>Reading a scalar that was written at an offset gives it back.\<close>

lemma code_point_at_encode:
  assumes "prefix (from_code_point p) (drop i s)" and "is_scalar p"
  shows "code_point_at s i = Some p"
proof (cases "p > 0xffff")
  case False
  with assms(1) have "i < length s" "s ! i = p"
    by (auto simp: from_code_point_def prefix_def)
       (metis drop_eq_Nil list.distinct(1) not_less, metis nth_via_drop)
  with False assms(2) show ?thesis
    by (auto simp: code_point_at_def is_scalar_def is_high_surrogate_def)
next
  case True
  let ?h = "0xd800 + (p - 0x10000) div 0x400" and ?l = "0xdc00 + (p - 0x10000) mod 0x400"
  from True assms(1) obtain t where t: "drop i s = ?h # ?l # t"
    by (auto simp: from_code_point_def prefix_def)
  then have "length (drop i s) = Suc (Suc (length t))" by simp
  then have len: "i + 1 < length s" by simp
  have "s ! i = drop i s ! 0" and "s ! (i + 1) = drop i s ! 1"
    using len by simp_all
  then have hl: "s ! i = ?h" "s ! (i + 1) = ?l"
    by (simp_all add: t)
  from assms(2) have "p \<le> 0x10ffff" by (simp add: is_scalar_def)
  then have dv: "(p - 0x10000) div 0x400 < 0x400" by simp
  have md: "(p - 0x10000) mod 0x400 < 0x400" by simp
  have "0x10000 + (p - 0x10000) div 0x400 * 0x400 + (p - 0x10000) mod 0x400 = p"
    using True by simp
  with hl len dv md show ?thesis
    by (simp add: code_point_at_def is_high_surrogate_def is_low_surrogate_def)
qed

section \<open>Character classes\<close>

definition is_digit :: "nat \<Rightarrow> bool" where
  "is_digit c \<longleftrightarrow> 0x30 \<le> c \<and> c \<le> 0x39"

definition is_upper :: "nat \<Rightarrow> bool" where
  "is_upper c \<longleftrightarrow> 0x41 \<le> c \<and> c \<le> 0x5a"

definition is_lower :: "nat \<Rightarrow> bool" where
  "is_lower c \<longleftrightarrow> 0x61 \<le> c \<and> c \<le> 0x7a"

definition is_alpha :: "nat \<Rightarrow> bool" where
  "is_alpha c \<longleftrightarrow> is_upper c \<or> is_lower c"

definition is_alnum :: "nat \<Rightarrow> bool" where
  "is_alnum c \<longleftrightarrow> is_alpha c \<or> is_digit c"

lemmas char_class_defs = is_digit_def is_upper_def is_lower_def is_alpha_def is_alnum_def

section \<open>Numbers as text\<close>

text \<open>\<^verbatim>\<open>String(n)\<close> for an integer.\<close>

fun nat_digits :: "nat \<Rightarrow> jsstring" where
  "nat_digits n = (if n < 10 then [0x30 + n] else nat_digits (n div 10) @ [0x30 + n mod 10])"

declare nat_digits.simps [simp del]

definition int_text :: "int \<Rightarrow> jsstring" where
  "int_text z = (if z < 0 then 0x2d # nat_digits (nat (- z)) else nat_digits (nat z))"

definition digits_value :: "jsstring \<Rightarrow> nat" where
  "digits_value ds = foldl (\<lambda>n d. 10 * n + (d - 0x30)) 0 ds"

lemma digits_value_nat_digits: "digits_value (nat_digits n) = n"
proof (induction n rule: less_induct)
  case (less n)
  show ?case
  proof (cases "n < 10")
    case True
    then show ?thesis by (simp add: nat_digits.simps digits_value_def)
  next
    case False
    with less [of "n div 10"] have "digits_value (nat_digits (n div 10)) = n div 10" by simp
    then show ?thesis
      using False by (subst nat_digits.simps) (simp add: digits_value_def)
  qed
qed

lemma nat_digits_inj [simp]: "nat_digits m = nat_digits n \<longleftrightarrow> m = n"
  by (metis digits_value_nat_digits)

lemma nat_digits_digit: "c \<in> set (nat_digits n) \<Longrightarrow> is_digit c"
proof (induction n arbitrary: c rule: less_induct)
  case (less n)
  show ?case
  proof (cases "n < 10")
    case True
    with less.prems show ?thesis by (simp add: nat_digits.simps is_digit_def)
  next
    case False
    with less.prems have "c \<in> set (nat_digits (n div 10)) \<or> c = 0x30 + n mod 10"
      by (subst (asm) nat_digits.simps) auto
    moreover have "n mod 10 < 10" by simp
    ultimately show ?thesis using less.IH [of "n div 10" c] False by (auto simp: is_digit_def simp del: mod_less_divisor)
  qed
qed

lemma nat_digits_neq_Nil [simp]: "nat_digits n \<noteq> []"
  by (subst nat_digits.simps) simp

lemma nat_digits_hd: "hd (nat_digits n) = 0x30 \<longleftrightarrow> n = 0"
proof (induction n rule: less_induct)
  case (less n)
  show ?case
  proof (cases "n < 10")
    case False
    with less [of "n div 10"] have "hd (nat_digits (n div 10)) \<noteq> 0x30" by simp
    with False show ?thesis by (subst nat_digits.simps) simp
  qed (simp add: nat_digits.simps)
qed

section \<open>Insertion-ordered maps and sets\<close>

text \<open>
  A JavaScript \<^verbatim>\<open>Map\<close> keeps the order in which its keys were first inserted: \<open>AList.update\<close>
  overwrites in place or appends, \<open>AList.delete\<close> removes. A \<^verbatim>\<open>Set\<close> is a list without repeats.
\<close>

lemma update_fresh: "k \<notin> fst ` set as \<Longrightarrow> AList.update k v as = as @ [(k, v)]"
  by (induction as) auto

definition set_add :: "'a \<Rightarrow> 'a list \<Rightarrow> 'a list" where
  "set_add x xs = (if x \<in> set xs then xs else xs @ [x])"

lemma set_set_add [simp]: "set (set_add x xs) = insert x (set xs)"
  by (auto simp: set_add_def)

lemma distinct_set_add [simp]: "distinct (set_add x xs) = distinct xs"
  by (simp add: set_add_def)

section \<open>Scanners\<close>

text \<open>
  The text components share one shape: walk an index through a source up to a limit, ask a
  recognizer for a match that starts there, emit it and continue at its end, otherwise move on.
  \<open>spaced lo hi rs\<close> says that the emitted ranges lie in \<open>[lo, hi]\<close>, are non-empty, and follow one
  another without overlap.
\<close>

fun spaced :: "nat \<Rightarrow> nat \<Rightarrow> (nat \<times> nat \<times> 'v) list \<Rightarrow> bool" where
  "spaced lo hi [] = True"
| "spaced lo hi ((a, b, v) # rs) = (lo \<le> a \<and> a < b \<and> b \<le> hi \<and> spaced b hi rs)"

lemma spaced_weaken: "spaced lo hi rs \<Longrightarrow> lo' \<le> lo \<Longrightarrow> spaced lo' hi rs"
  by (cases rs) auto

lemma spaced_bounds: "spaced lo hi rs \<Longrightarrow> (a, b, v) \<in> set rs \<Longrightarrow> lo \<le> a \<and> a < b \<and> b \<le> hi"
proof (induction lo hi rs rule: spaced.induct)
  case (2 lo hi a' b' v' rs)
  then show ?case by fastforce
qed simp

lemma spaced_disjoint:
  "spaced lo hi rs \<Longrightarrow> i < j \<Longrightarrow> j < length rs \<Longrightarrow> fst (snd (rs ! i)) \<le> fst (rs ! j)"
proof (induction lo hi rs arbitrary: i j rule: spaced.induct)
  case (2 lo hi a b v rs)
  show ?case
  proof (cases i)
    case 0
    with 2 obtain j' where "j = Suc j'" "j' < length rs" by (cases j) auto
    moreover obtain a' b' v' where "rs ! j' = (a', b', v')" by (cases "rs ! j'")
    ultimately show ?thesis
      using 0 2 spaced_bounds [of b hi rs a' b' v'] nth_mem [of j' rs] by auto
  next
    case (Suc i')
    with 2 show ?thesis by (cases j) auto
  qed
qed simp

locale range_scanner =
  fixes ok :: "'s \<Rightarrow> nat \<Rightarrow> bool"
    and scan :: "'s \<Rightarrow> nat \<Rightarrow> nat \<Rightarrow> (nat \<times> 'v) option"
    and advance :: "'s \<Rightarrow> nat \<Rightarrow> nat \<Rightarrow> nat"
    and find_all :: "'s \<Rightarrow> nat \<Rightarrow> nat \<Rightarrow> (nat \<times> nat \<times> 'v) list"
  assumes scan_progress: "ok s lim \<Longrightarrow> i < lim \<Longrightarrow> scan s i lim = Some (j, v) \<Longrightarrow> i < j \<and> j \<le> lim"
    and advance_progress: "ok s lim \<Longrightarrow> i < lim \<Longrightarrow> scan s i lim = None \<Longrightarrow> i < advance s i lim"
    and find_stop: "ok s lim \<Longrightarrow> \<not> i < lim \<Longrightarrow> find_all s i lim = []"
    and find_hit: "ok s lim \<Longrightarrow> i < lim \<Longrightarrow> scan s i lim = Some (j, v) \<Longrightarrow>
      find_all s i lim = (i, j, v) # find_all s j lim"
    and find_miss: "ok s lim \<Longrightarrow> i < lim \<Longrightarrow> scan s i lim = None \<Longrightarrow>
      find_all s i lim = find_all s (advance s i lim) lim"
begin

lemma find_all_cases [consumes 1, case_names stop hit miss]:
  assumes ok: "ok s lim"
    and stop: "\<not> i < lim \<Longrightarrow> find_all s i lim = [] \<Longrightarrow> P"
    and hit: "\<And>j v. i < lim \<Longrightarrow> scan s i lim = Some (j, v) \<Longrightarrow> i < j \<Longrightarrow> j \<le> lim \<Longrightarrow>
      find_all s i lim = (i, j, v) # find_all s j lim \<Longrightarrow> P"
    and miss: "i < lim \<Longrightarrow> scan s i lim = None \<Longrightarrow> i < advance s i lim \<Longrightarrow>
      find_all s i lim = find_all s (advance s i lim) lim \<Longrightarrow> P"
  shows P
proof (cases "i < lim")
  case False
  with stop ok show ?thesis by (blast intro: find_stop)
next
  case True
  show ?thesis
  proof (cases "scan s i lim")
    case None
    with True ok show ?thesis by (blast intro: miss advance_progress find_miss)
  next
    case (Some p)
    obtain j v where "scan s i lim = Some (j, v)" using Some by (cases p) auto
    with True ok show ?thesis using scan_progress find_hit hit by blast
  qed
qed

lemma find_all_spaced: "ok s lim \<Longrightarrow> spaced i lim (find_all s i lim)"
proof (induction "lim - i" arbitrary: i rule: less_induct)
  case less
  from less.prems show ?case
  proof (cases rule: find_all_cases [where i = i])
    case (hit j v)
    with less show ?thesis by auto
  next
    case miss
    then have "spaced (advance s i lim) lim (find_all s (advance s i lim) lim)"
      using less by simp
    with miss show ?thesis by (auto intro: spaced_weaken)
  qed simp
qed

lemma find_all_sound:
  "ok s lim \<Longrightarrow> (a, b, v) \<in> set (find_all s i lim) \<Longrightarrow> scan s a lim = Some (b, v)"
proof (induction "lim - i" arbitrary: i rule: less_induct)
  case less
  have smaller: "lim - j < lim - i" if "i < j" "i < lim" for j
    using that by (simp add: diff_less_mono2)
  from less.prems(1) show ?case
  proof (cases rule: find_all_cases [where i = i])
    case (hit j w)
    with less smaller [of j] show ?thesis by auto
  next
    case miss
    with less.hyps [OF smaller less.prems(1)] less.prems(2) show ?thesis by simp
  qed (use less.prems in simp)
qed

text \<open>
  When nothing that the scanner steps over is a recognizable start, no start is missed: every
  start is emitted or lies inside an emitted range.
\<close>

lemma find_all_complete:
  assumes "ok s lim"
    and skip: "\<And>i j. i < lim \<Longrightarrow> scan s i lim = None \<Longrightarrow> i < j \<Longrightarrow> j < advance s i lim \<Longrightarrow> j < lim \<Longrightarrow>
      scan s j lim = None"
    and "i \<le> a" "a < lim" "scan s a lim \<noteq> None"
  shows "\<exists>b c v. (b, c, v) \<in> set (find_all s i lim) \<and> b \<le> a \<and> a < c"
  using assms(3)
proof (induction "lim - i" arbitrary: i rule: less_induct)
  case less
  have later: ?case if "i < j" "i < lim" "j \<le> a" "set (find_all s j lim) \<subseteq> set (find_all s i lim)" for j
  proof -
    have "lim - j < lim - i" using that by (simp add: diff_less_mono2)
    with less.hyps that(3) obtain b c w where "(b, c, w) \<in> set (find_all s j lim)" "b \<le> a" "a < c"
      by blast
    with that(4) show ?thesis by blast
  qed
  from assms(1) show ?case
  proof (cases rule: find_all_cases [where i = i])
    case stop
    with less.prems assms(4) show ?thesis by simp
  next
    case (hit j v)
    then show ?thesis
    proof (cases "a < j")
      case True
      with hit less.prems show ?thesis by auto
    next
      case False
      with hit show ?thesis by (intro later [of j]) auto
    qed
  next
    case miss
    have "advance s i lim \<le> a"
    proof (rule ccontr)
      assume "\<not> advance s i lim \<le> a"
      with skip [of i a] miss less.prems assms(4,5) show False
        by (cases "i = a") auto
    qed
    with miss show ?thesis by (intro later [of "advance s i lim"]) auto
  qed
qed

end

section \<open>Reducers\<close>

text \<open>
  A component whose state changes only through a step function keeps an invariant through any
  sequence of legal steps when each single legal step keeps it. A step is legal in a state when its
  guard holds there; \<open>legal_run\<close> says that every step of a sequence is.
\<close>

fun legal_run :: "('s \<Rightarrow> 'a \<Rightarrow> 's) \<Rightarrow> ('s \<Rightarrow> 'a \<Rightarrow> bool) \<Rightarrow> 's \<Rightarrow> 'a list \<Rightarrow> bool" where
  "legal_run step guard s [] = True"
| "legal_run step guard s (a # as) = (guard s a \<and> legal_run step guard (step s a) as)"

locale reducer =
  fixes step :: "'s \<Rightarrow> 'a \<Rightarrow> 's" and guard :: "'s \<Rightarrow> 'a \<Rightarrow> bool" and inv :: "'s \<Rightarrow> bool"
  assumes step_inv: "inv s \<Longrightarrow> guard s a \<Longrightarrow> inv (step s a)"
begin

lemma run_inv: "inv s \<Longrightarrow> legal_run step guard s as \<Longrightarrow> inv (foldl step s as)"
  by (induction as arbitrary: s) (auto intro: step_inv)

lemma run_prefix_inv:
  "inv s \<Longrightarrow> legal_run step guard s (as @ bs) \<Longrightarrow> inv (foldl step s as)"
  by (induction as arbitrary: s) (auto intro: step_inv)

end

end
