(* ===== verification/TagGrammar.thy ===== *)
theory TagGrammar
  imports Prelude
begin

text \<open>
  The tag recognizer (\<^verbatim>\<open>web/src/utils/tag-grammar.ts\<close>): the binary search over Unicode range
  tables, the trie of fully-qualified emoji and its longest match, the scanner of one tag segment,
  of one tag and of all tags of a source run. The generated tables of
  \<^verbatim>\<open>tag-unicode-data.ts\<close> are the record \<open>tag_tables\<close>; every definition takes it as its first
  argument, and the theorems hold for any table, or for any table that is \<open>tables_ok\<close>.
\<close>

section \<open>Tables\<close>

record tag_tables =
  DEFAULT_IGNORABLE_RANGES :: "nat list"
  XID_CONTINUE_RANGES :: "nat list"
  COMBINING_MARK_RANGES :: "nat list"
  \<comment> \<open>each entry as the code points a \<^verbatim>\<open>for\<close> loop over the string yields\<close>
  FULLY_QUALIFIED_EMOJI :: "nat list list"

text \<open>A recognized \<^verbatim>\<open>#tag\<close> source span and the identifier emitted from it.\<close>

record TagMatch =
  tm_from :: nat
  tm_to :: nat
  tm_source :: jsstring
  tm_value :: jsstring

section \<open>Range tables\<close>

text \<open>
  A table is a flat array of pairs \<open>from, to\<close>. The bounds are integers, because \<open>high\<close> is \<open>-1\<close>
  for an empty table and when the search leaves the first pair to the left.
\<close>

function isInRanges_loop :: "nat \<Rightarrow> nat list \<Rightarrow> int \<Rightarrow> int \<Rightarrow> bool" where
  "isInRanges_loop codePoint ranges low high =
     (if low \<le> high then
        let middle = (low + high) div 2;
            from = ranges ! nat (middle * 2);
            to = ranges ! nat (middle * 2 + 1)
        in if codePoint < from then isInRanges_loop codePoint ranges low (middle - 1)
           else if codePoint > to then isInRanges_loop codePoint ranges (middle + 1) high
           else True
      else False)"
  by pat_completeness auto
termination
  by (relation "measure (\<lambda>(c, rs, low, high). nat (high - low + 1))") auto

declare isInRanges_loop.simps [simp del]

definition isInRanges :: "nat \<Rightarrow> nat list \<Rightarrow> bool" where
  "isInRanges codePoint ranges =
     isInRanges_loop codePoint ranges 0 (int (length ranges div 2) - 1)"

text \<open>What the table means: some pair encloses the code point.\<close>

definition in_some_range :: "nat \<Rightarrow> nat list \<Rightarrow> bool" where
  "in_some_range c rs \<longleftrightarrow> (\<exists>k < length rs div 2. rs ! (2 * k) \<le> c \<and> c \<le> rs ! (2 * k + 1))"

text \<open>A generated table has its pairs in order: each pair is ordered and ends before the next.\<close>

definition ranges_sorted :: "nat list \<Rightarrow> bool" where
  "ranges_sorted rs \<longleftrightarrow> sorted rs \<and> even (length rs)"

lemma ranges_sorted_nth:
  "ranges_sorted rs \<Longrightarrow> i \<le> j \<Longrightarrow> j < 2 * (length rs div 2) \<Longrightarrow> rs ! i \<le> rs ! j"
  by (auto simp: ranges_sorted_def intro: sorted_nth_mono)

lemma isInRanges_loop_correct:
  assumes "ranges_sorted rs" and "0 \<le> low" and "high < int (length rs div 2)"
  shows "isInRanges_loop c rs low high \<longleftrightarrow>
      (\<exists>k. low \<le> int k \<and> int k \<le> high \<and> rs ! (2 * k) \<le> c \<and> c \<le> rs ! (2 * k + 1))"
  using assms
proof (induction c rs low high rule: isInRanges_loop.induct)
  case (1 c rs low high)
  show ?case
  proof (cases "low \<le> high")
    case False
    then show ?thesis by (subst isInRanges_loop.simps) auto
  next
    case True
    define m where "m = nat ((low + high) div 2)"
    have mid: "(low + high) div 2 = int m" using True 1(4) by (simp add: m_def)
    have mb: "low \<le> int m" "int m \<le> high" using True by (auto simp flip: mid)
    have idx: "nat (int m * 2) = 2 * m" "nat (int m * 2 + 1) = 2 * m + 1" by auto
    note unf = isInRanges_loop.simps [of c rs low high, unfolded Let_def mid idx]
    consider "c < rs ! (2 * m)" | "\<not> c < rs ! (2 * m)" "rs ! (2 * m + 1) < c"
      | "\<not> c < rs ! (2 * m)" "\<not> rs ! (2 * m + 1) < c" by blast
    then show ?thesis
    proof cases
      case 1
      have "int k \<le> int m - 1" if "int k \<le> high" "rs ! (2 * k) \<le> c" for k
      proof (rule ccontr)
        assume "\<not> int k \<le> int m - 1"
        then have "rs ! (2 * m) \<le> rs ! (2 * k)"
          using ranges_sorted_nth [OF "1.prems"(1), of "2 * m" "2 * k"] "1.prems"(3) that by auto
        with 1 that show False by simp
      qed
      moreover have "isInRanges_loop c rs low high = isInRanges_loop c rs low (int m - 1)"
        using unf True 1 by simp
      moreover have "isInRanges_loop c rs low (int m - 1) \<longleftrightarrow>
        (\<exists>k. low \<le> int k \<and> int k \<le> int m - 1 \<and> rs ! (2 * k) \<le> c \<and> c \<le> rs ! (2 * k + 1))"
        using "1.IH"(1) [OF True refl refl refl] 1 "1.prems" mb by (simp add: mid idx)
      ultimately show ?thesis using mb by (auto intro: order_trans)
    next
      case 2
      have right: "int m + 1 \<le> int k" if "c \<le> rs ! (2 * k + 1)" for k
      proof (rule ccontr)
        assume "\<not> int m + 1 \<le> int k"
        then have "rs ! (2 * k + 1) \<le> rs ! (2 * m + 1)"
          using ranges_sorted_nth [OF "1.prems"(1), of "2 * k + 1" "2 * m + 1"] "1.prems"(3) mb by auto
        with 2 that show False by simp
      qed
      moreover have "isInRanges_loop c rs low high = isInRanges_loop c rs (int m + 1) high"
        using unf True 2 by simp
      moreover have "isInRanges_loop c rs (int m + 1) high \<longleftrightarrow>
        (\<exists>k. int m + 1 \<le> int k \<and> int k \<le> high \<and> rs ! (2 * k) \<le> c \<and> c \<le> rs ! (2 * k + 1))"
        using "1.IH"(2) [OF True refl refl refl] 2 "1.prems" mb by (simp add: mid idx)
      moreover have "(int m + 1 \<le> int k \<and> int k \<le> high \<and> rs ! (2 * k) \<le> c \<and> c \<le> rs ! (2 * k + 1)) \<longleftrightarrow>
        (low \<le> int k \<and> int k \<le> high \<and> rs ! (2 * k) \<le> c \<and> c \<le> rs ! (2 * k + 1))" for k
        using right [of k] mb by linarith
      ultimately show ?thesis by simp
    next
      case 3
      then have "isInRanges_loop c rs low high" using unf True by simp
      moreover from 3 mb have "\<exists>k. low \<le> int k \<and> int k \<le> high \<and> rs ! (2 * k) \<le> c \<and> c \<le> rs ! (2 * k + 1)"
        by (intro exI [of _ m]) auto
      ultimately show ?thesis by blast
    qed
  qed
qed

section \<open>The emoji trie\<close>

datatype EmojiTrieNode =
  EmojiTrieNode (children: "(nat \<times> EmojiTrieNode) list") (terminal: bool)

definition empty_node :: EmojiTrieNode where
  "empty_node = EmojiTrieNode [] False"

text \<open>One round of the module's initialization loop: insert the code points of one emoji.\<close>

fun trie_insert :: "nat list \<Rightarrow> EmojiTrieNode \<Rightarrow> EmojiTrieNode" where
  "trie_insert [] (EmojiTrieNode cs t) = EmojiTrieNode cs True"
| "trie_insert (c # w) (EmojiTrieNode cs t) =
     (let child = (case map_of cs c of None \<Rightarrow> empty_node | Some n \<Rightarrow> n)
      in EmojiTrieNode (AList.update c (trie_insert w child) cs) t)"

definition emojiTrie :: "nat list list \<Rightarrow> EmojiTrieNode" where
  "emojiTrie es = foldl (\<lambda>t e. trie_insert e t) empty_node es"

fun trie_mem :: "EmojiTrieNode \<Rightarrow> nat list \<Rightarrow> bool" where
  "trie_mem n [] = terminal n"
| "trie_mem n (c # w) = (case map_of (children n) c of None \<Rightarrow> False | Some m \<Rightarrow> trie_mem m w)"

lemma trie_mem_empty [simp]: "\<not> trie_mem empty_node w"
  by (cases w) (auto simp: empty_node_def)

lemma trie_mem_insert: "trie_mem (trie_insert w n) v \<longleftrightarrow> v = w \<or> trie_mem n v"
proof (induction w n arbitrary: v rule: trie_insert.induct)
  case (1 cs t)
  then show ?case by (cases v) auto
next
  case (2 c w cs t)
  then show ?case
    by (cases v) (auto simp: Let_def update_conv' split: option.splits)
qed

lemma trie_mem_emojiTrie: "trie_mem (emojiTrie es) w \<longleftrightarrow> w \<in> set es"
proof -
  have "trie_mem (foldl (\<lambda>t e. trie_insert e t) n es) w \<longleftrightarrow> w \<in> set es \<or> trie_mem n w" for n
    by (induction es arbitrary: n) (auto simp: trie_mem_insert)
  then show ?thesis by (simp add: emojiTrie_def)
qed

text \<open>\<^verbatim>\<open>emojiAt\<close>: walk the trie and remember the end of the last terminal node.\<close>

function emojiAt_loop ::
  "EmojiTrieNode \<Rightarrow> jsstring \<Rightarrow> nat \<Rightarrow> nat \<Rightarrow> nat option \<Rightarrow> nat option" where
  "emojiAt_loop node source cursor limit longestEnd =
     (if cursor < limit then
        (case code_point_at source cursor of
           None \<Rightarrow> longestEnd
         | Some codePoint \<Rightarrow>
             (case map_of (children node) codePoint of
                None \<Rightarrow> longestEnd
              | Some child \<Rightarrow>
                  (let cursor' = cursor + (if codePoint > 0xffff then 2 else 1) in
                   if cursor' > limit then longestEnd
                   else emojiAt_loop child source cursor' limit
                          (if terminal child then Some cursor' else longestEnd))))
      else longestEnd)"
  by pat_completeness auto
termination
  by (relation "measure (\<lambda>(n, s, cursor, limit, e). limit - cursor)") auto

declare emojiAt_loop.simps [simp del]

definition emojiAt :: "tag_tables \<Rightarrow> jsstring \<Rightarrow> nat \<Rightarrow> nat \<Rightarrow> jsstring option" where
  "emojiAt T source index limit =
     map_option (slice source index)
       (emojiAt_loop (emojiTrie (FULLY_QUALIFIED_EMOJI T)) source index limit None)"

definition valid_units :: "jsstring \<Rightarrow> bool" where
  "valid_units s \<longleftrightarrow> (\<forall>c \<in> set s. c \<le> 0xffff)"

lemma code_point_at_Some:
  assumes "valid_units s" and "code_point_at s i = Some p"
  shows "prefix (from_code_point p) (drop i s)"
proof -
  from assms(2) have i: "i < length s" by (auto simp: code_point_at_def split: if_splits)
  then have d: "drop i s = s ! i # drop (Suc i) s" by (simp add: Cons_nth_drop_Suc)
  from i assms(1) have u: "s ! i \<le> 0xffff" by (auto simp: valid_units_def)
  show ?thesis
  proof (cases "is_high_surrogate (s ! i) \<and> i + 1 < length s \<and> is_low_surrogate (s ! (i + 1))")
    case False
    with assms(2) i u d show ?thesis by (auto simp: code_point_at_def from_code_point_def)
  next
    case True
    then have p: "p = 0x10000 + (s ! i - 0xd800) * 0x400 + (s ! (i + 1) - 0xdc00)"
      using assms(2) i by (simp add: code_point_at_def)
    define h l where "h = s ! i - 0xd800" and "l = s ! (i + 1) - 0xdc00"
    have hl: "s ! i = 0xd800 + h" "s ! (i + 1) = 0xdc00 + l" "l < 0x400"
      using True by (auto simp: is_low_surrogate_def is_high_surrogate_def h_def l_def)
    with p have "p = 0x10000 + (h * 0x400 + l)" by simp
    with hl(3) have "(p - 0x10000) div 0x400 = h" "(p - 0x10000) mod 0x400 = l" "p > 0xffff"
      by simp_all
    moreover have "drop (Suc i) s = s ! (i + 1) # drop (Suc (Suc i)) s"
      using True by (simp add: Cons_nth_drop_Suc)
    ultimately show ?thesis
      using hl d by (simp add: from_code_point_def)
  qed
qed

text \<open>One turn of the loop, as a partial step to the child node and its cursor.\<close>

definition emoji_step :: "EmojiTrieNode \<Rightarrow> jsstring \<Rightarrow> nat \<Rightarrow> nat \<Rightarrow> (EmojiTrieNode \<times> nat) option" where
  "emoji_step n s k lim =
     (if k < lim then Option.bind (code_point_at s k) (\<lambda>p. Option.bind (map_of (children n) p)
        (\<lambda>m. if k + length (from_code_point p) \<le> lim then Some (m, k + length (from_code_point p)) else None))
      else None)"

lemma emoji_step_Some:
  "emoji_step n s k lim = Some (m, k') \<longleftrightarrow>
     (\<exists>p. k < lim \<and> code_point_at s k = Some p \<and> map_of (children n) p = Some m \<and>
          k' = k + length (from_code_point p) \<and> k' \<le> lim)"
  by (auto simp: emoji_step_def bind_eq_Some_conv)

lemma emojiAt_loop_step:
  "emojiAt_loop n s k lim L =
     (case emoji_step n s k lim of None \<Rightarrow> L
      | Some (m, k') \<Rightarrow> emojiAt_loop m s k' lim (if terminal m then Some k' else L))"
  by (subst emojiAt_loop.simps)
     (auto simp: emoji_step_def length_from_code_point split: option.splits)

lemma emoji_step_smaller: "emoji_step n s k lim = Some (m, k') \<Longrightarrow> k < k' \<and> lim - k' < lim - k"
  by (auto simp: emoji_step_Some length_from_code_point)

text \<open>A longer match found on the way is never lost.\<close>

lemma emojiAt_loop_mono:
  "l \<le> k \<Longrightarrow> \<exists>e. emojiAt_loop n s k lim (Some l) = Some e \<and> l \<le> e"
proof (induction "lim - k" arbitrary: n k l rule: less_induct)
  case less
  show ?case
  proof (cases "emoji_step n s k lim")
    case None
    then show ?thesis by (subst emojiAt_loop_step) simp
  next
    case (Some q)
    obtain m k' where q: "q = (m, k')" by (cases q)
    then have k': "k < k'" "lim - k' < lim - k" using Some emoji_step_smaller by auto
    let ?l = "if terminal m then k' else l"
    have "l \<le> ?l" using less.prems k' by auto
    moreover have "?l \<le> k'" using less.prems k' by simp
    then obtain e where "emojiAt_loop m s k' lim (Some ?l) = Some e" "?l \<le> e"
      using less.hyps [OF k'(2)] by blast
    ultimately show ?thesis
      by (subst emojiAt_loop_step) (auto simp: Some q split: if_splits)
  qed
qed

lemma emojiAt_loop_sound:
  assumes "valid_units s"
  shows "emojiAt_loop n s k lim L = Some e \<Longrightarrow> L = Some e \<or>
    (\<exists>ps. ps \<noteq> [] \<and> trie_mem n ps \<and> e = k + length (encode ps) \<and> e \<le> lim \<and> prefix (encode ps) (drop k s))"
proof (induction "lim - k" arbitrary: n k L rule: less_induct)
  case less
  show ?case
  proof (cases "emoji_step n s k lim")
    case None
    with less.prems show ?thesis by (simp add: emojiAt_loop_step [of n])
  next
    case (Some q)
    obtain m k' where q: "q = (m, k')" by (cases q)
    then obtain p where p: "code_point_at s k = Some p" "map_of (children n) p = Some m"
      "k' = k + length (from_code_point p)" "k' \<le> lim"
      using Some by (auto simp: emoji_step_Some)
    have pre: "prefix (from_code_point p) (drop k s)" using assms p(1) by (rule code_point_at_Some)
    then have one: "trie_mem n (p # ps)" "prefix (encode (p # ps)) (drop k s)"
      if "trie_mem m ps" "prefix (encode ps) (drop k' s)" for ps
      using that p pre by (auto simp: encode_def prefix_append_drop)
    have "emojiAt_loop m s k' lim (if terminal m then Some k' else L) = Some e"
      using less.prems Some q by (simp add: emojiAt_loop_step [of n])
    then consider "(if terminal m then Some k' else L) = Some e"
      | ps where "ps \<noteq> []" "trie_mem m ps" "e = k' + length (encode ps)" "e \<le> lim"
          "prefix (encode ps) (drop k' s)"
      using less.hyps emoji_step_smaller Some q by blast
    then show ?thesis
    proof cases
      case 1
      show ?thesis
      proof (cases "terminal m")
        case True
        with 1 have "e = k'" and "trie_mem m []" by simp_all
        with one [of "[]"] p show ?thesis by (intro disjI2 exI [of _ "[p]"]) (auto simp: encode_def)
      qed (use 1 in simp)
    next
      case 2
      then show ?thesis
        using one [of ps] p by (intro disjI2 exI [of _ "p # ps"]) (auto simp: encode_def)
    qed
  qed
qed

lemma emojiAt_loop_longest:
  "trie_mem n ps \<Longrightarrow> ps \<noteq> [] \<Longrightarrow> \<forall>p \<in> set ps. is_scalar p \<Longrightarrow> prefix (encode ps) (drop k s) \<Longrightarrow>
   k + length (encode ps) \<le> lim \<Longrightarrow>
   \<exists>e. emojiAt_loop n s k lim L = Some e \<and> k + length (encode ps) \<le> e"
proof (induction ps arbitrary: n k L)
  case (Cons p ps)
  from Cons.prems(4) have pre: "prefix (from_code_point p) (drop k s)"
    by (auto simp: encode_def prefix_def)
  then have cp: "code_point_at s k = Some p"
    using Cons.prems(3) by (intro code_point_at_encode) auto
  let ?k = "k + length (from_code_point p)"
  from Cons.prems(1) obtain m where m: "map_of (children n) p = Some m" "trie_mem m ps"
    by (auto split: option.splits)
  have len: "length (encode (p # ps)) = length (from_code_point p) + length (encode ps)"
    by (simp add: encode_def)
  have st: "emoji_step n s k lim = Some (m, ?k)"
    using cp m(1) Cons.prems(5) len by (auto simp: emoji_step_Some length_from_code_point split: if_splits)
  have rest: "prefix (encode ps) (drop ?k s)"
    using Cons.prems(4) by (simp add: encode_def prefix_append_drop)
  show ?case
  proof (cases "ps = []")
    case True
    then have "terminal m" using m(2) by simp
    then show ?thesis
      using True st emojiAt_loop_mono [of ?k ?k m s lim]
      by (subst emojiAt_loop_step) (auto simp: encode_def)
  next
    case False
    then show ?thesis
      using Cons.IH [of m ?k "if terminal m then Some ?k else L"] Cons.prems(3,5) m(2) rest len st
      by (subst emojiAt_loop_step) auto
  qed
qed simp

text \<open>The emoji spellings of the table, as code units.\<close>

definition emoji_spellings :: "tag_tables \<Rightarrow> jsstring set" where
  "emoji_spellings T = encode ` (set (FULLY_QUALIFIED_EMOJI T) - {[]})"

definition emoji_scalars :: "tag_tables \<Rightarrow> bool" where
  "emoji_scalars T \<longleftrightarrow> (\<forall>w \<in> set (FULLY_QUALIFIED_EMOJI T). \<forall>p \<in> set w. is_scalar p)"

lemma encode_eq_Nil [simp]: "encode ps = [] \<longleftrightarrow> ps = []"
  by (cases ps) (auto simp: encode_def)

lemma slice_prefix: "prefix w (drop i s) \<Longrightarrow> slice s i (i + length w) = w"
  by (auto simp: slice_def prefix_def)

lemma emojiAt_sound:
  assumes "valid_units s" and "emojiAt T s i lim = Some e"
  shows "e \<in> emoji_spellings T \<and> prefix e (drop i s) \<and> i + length e \<le> lim \<and> e \<noteq> []"
proof -
  from assms obtain ps where "ps \<noteq> []" "ps \<in> set (FULLY_QUALIFIED_EMOJI T)"
    "e = slice s i (i + length (encode ps))" "i + length (encode ps) \<le> lim" "prefix (encode ps) (drop i s)"
    by (auto simp: emojiAt_def trie_mem_emojiTrie dest!: emojiAt_loop_sound [OF assms(1)])
  then show ?thesis by (auto simp: slice_prefix emoji_spellings_def)
qed

lemma emojiAt_complete:
  assumes "emoji_scalars T" and "valid_units s" and "w \<in> emoji_spellings T" and "prefix w (drop i s)"
    and "i + length w \<le> lim"
  shows "\<exists>e. emojiAt T s i lim = Some e \<and> length w \<le> length e"
proof -
  from assms(3) obtain ps where ps: "ps \<noteq> []" "ps \<in> set (FULLY_QUALIFIED_EMOJI T)" "w = encode ps"
    by (auto simp: emoji_spellings_def)
  obtain e where e: "emojiAt_loop (emojiTrie (FULLY_QUALIFIED_EMOJI T)) s i lim None = Some e"
    "i + length w \<le> e"
    using emojiAt_loop_longest [of "emojiTrie (FULLY_QUALIFIED_EMOJI T)" ps i s lim None] ps assms
    by (auto simp: trie_mem_emojiTrie emoji_scalars_def)
  then obtain qs where "e = i + length (encode qs)" "prefix (encode qs) (drop i s)"
    using emojiAt_loop_sound [OF assms(2) e(1)] by auto
  then have "length (slice s i e) = e - i" by (simp add: slice_prefix)
  with e show ?thesis by (auto simp: emojiAt_def)
qed

section \<open>Code point classes\<close>

text \<open>The module's own \<^verbatim>\<open>codePointAt\<close>: the code point at an offset as a string, empty past the end.\<close>

definition codePointAt :: "jsstring \<Rightarrow> nat \<Rightarrow> jsstring" where
  "codePointAt source index =
     (case code_point_at source index of None \<Rightarrow> [] | Some value \<Rightarrow> from_code_point value)"

definition first_code_point :: "jsstring \<Rightarrow> nat" where
  "first_code_point value = (case code_point_at value 0 of None \<Rightarrow> 0 | Some p \<Rightarrow> p)"

definition isDefaultIgnorable :: "tag_tables \<Rightarrow> jsstring \<Rightarrow> bool" where
  "isDefaultIgnorable T value = isInRanges (first_code_point value) (DEFAULT_IGNORABLE_RANGES T)"

definition isXIDContinue :: "tag_tables \<Rightarrow> jsstring \<Rightarrow> bool" where
  "isXIDContinue T value \<longleftrightarrow>
     isInRanges (first_code_point value) (XID_CONTINUE_RANGES T) \<and> \<not> isDefaultIgnorable T value"

definition isCombiningMark :: "tag_tables \<Rightarrow> jsstring \<Rightarrow> bool" where
  "isCombiningMark T value = isInRanges (first_code_point value) (COMBINING_MARK_RANGES T)"

definition isExtensionUnit :: "jsstring \<Rightarrow> bool" where
  "isExtensionUnit value \<longleftrightarrow> value = js ''-'' \<or> value = js ''+'' \<or> value = js ''&''"

definition isApostropheJoiner :: "jsstring \<Rightarrow> bool" where
  "isApostropheJoiner value \<longleftrightarrow> value = [0x27] \<or> value = [0x2019]"

definition isTagIntroducerAt :: "tag_tables \<Rightarrow> jsstring \<Rightarrow> nat \<Rightarrow> nat \<Rightarrow> bool" where
  "isTagIntroducerAt T source index limit \<longleftrightarrow>
     index < limit \<and> index < length source \<and> source ! index = 0x23 \<and> emojiAt T source index limit = None"

definition isNonCombiningXIDContinuationAt :: "tag_tables \<Rightarrow> jsstring \<Rightarrow> nat \<Rightarrow> nat \<Rightarrow> bool" where
  "isNonCombiningXIDContinuationAt T source index limit =
     (if index \<ge> limit \<or> emojiAt T source index limit \<noteq> None then False
      else let value = codePointAt source index in
           index + length value \<le> limit \<and> isXIDContinue T value \<and> \<not> isCombiningMark T value)"

lemma codePointAt_neq_Nil: "i < length s \<Longrightarrow> codePointAt s i \<noteq> []"
  by (auto simp: codePointAt_def code_point_at_def)

lemma codePointAt_prefix: "valid_units s \<Longrightarrow> prefix (codePointAt s i) (drop i s)"
  by (auto simp: codePointAt_def split: option.splits intro: code_point_at_Some)

lemma emojiAt_loop_gt: "emojiAt_loop n s k lim L = Some e \<Longrightarrow> L = Some e \<or> (k < e \<and> e \<le> lim \<and> k < length s)"
proof (induction "lim - k" arbitrary: n k L rule: less_induct)
  case less
  show ?case
  proof (cases "emoji_step n s k lim")
    case None
    with less.prems show ?thesis by (simp add: emojiAt_loop_step [of n])
  next
    case (Some q)
    obtain m k' where q: "q = (m, k')" by (cases q)
    with Some have k': "k < k'" "lim - k' < lim - k" "k' \<le> lim" "k < length s"
      using emoji_step_smaller [of n s k lim m k']
      by (auto simp: emoji_step_Some code_point_at_def split: if_splits)
    have "emojiAt_loop m s k' lim (if terminal m then Some k' else L) = Some e"
      using less.prems Some q by (simp add: emojiAt_loop_step [of n])
    from less.hyps [OF k'(2) this] have "(if terminal m then Some k' else L) = Some e \<or> (k < e \<and> e \<le> lim)"
      using k'(1) by linarith
    with k' show ?thesis by (cases "terminal m") auto
  qed
qed

lemma emojiAt_length:
  assumes "emojiAt T s i lim = Some e"
  shows "0 < length e \<and> i + length e \<le> lim"
proof -
  from assms obtain z where z: "e = slice s i z" "i < z" "z \<le> lim" "i < length s"
    by (auto simp: emojiAt_def dest!: emojiAt_loop_gt)
  then have "length e = min (length s) z - i" by (simp add: length_slice)
  with z(2-4) show ?thesis by linarith
qed

section \<open>Segments\<close>

text \<open>
  The loops read \<^verbatim>\<open>codePointAt\<close> only inside the source: past its end the code point is the empty
  string, whose first code point counts as \<open>0\<close>, and no generated table holds \<open>0\<close>, so the code
  leaves the loop there as the model does.
\<close>

function skip_ignorable :: "tag_tables \<Rightarrow> jsstring \<Rightarrow> nat \<Rightarrow> nat \<Rightarrow> nat" where
  "skip_ignorable T source limit index =
     (if index < limit \<and> index < length source then
        let codePoint = codePointAt source index in
        if isDefaultIgnorable T codePoint \<or> (isXIDContinue T codePoint \<and> isCombiningMark T codePoint)
        then skip_ignorable T source limit (index + length codePoint)
        else index
      else index)"
  by pat_completeness auto
termination
  by (relation "measure (\<lambda>(T, s, limit, index). limit - index)")
     (auto simp: codePointAt_neq_Nil intro!: diff_less_mono2)

declare skip_ignorable.simps [simp del]

text \<open>The main loop of \<^verbatim>\<open>scanSegment\<close> over \<open>(index, value, previousWasXIDContinuation)\<close>.\<close>

function segment_loop ::
  "tag_tables \<Rightarrow> jsstring \<Rightarrow> nat \<Rightarrow> nat \<Rightarrow> jsstring \<Rightarrow> bool \<Rightarrow> nat \<times> jsstring" where
  "segment_loop T source limit index value prev =
     (if index < limit \<and> index < length source then
        (case emojiAt T source index limit of
           Some emoji \<Rightarrow> segment_loop T source limit (index + length emoji) (value @ emoji) False
         | None \<Rightarrow>
             (let codePoint = codePointAt source index; index' = index + length codePoint in
              if isDefaultIgnorable T codePoint
              then segment_loop T source limit index' value False
              else if isApostropheJoiner codePoint \<and> prev \<and>
                      isNonCombiningXIDContinuationAt T source index' limit
              then segment_loop T source limit index' (value @ codePoint) False
              else if isXIDContinue T codePoint \<or> isExtensionUnit codePoint
              then segment_loop T source limit index' (value @ codePoint) (isXIDContinue T codePoint)
              else (index, value)))
      else (index, value))"
  by pat_completeness auto
termination
  by (relation "measure (\<lambda>(T, s, limit, index, v, p). limit - index)")
     (auto dest!: emojiAt_length simp: codePointAt_neq_Nil intro!: diff_less_mono2)

declare segment_loop.simps [simp del]

definition scanSegment :: "tag_tables \<Rightarrow> jsstring \<Rightarrow> nat \<Rightarrow> nat \<Rightarrow> (nat \<times> jsstring) option" where
  "scanSegment T source from limit =
     (let index = skip_ignorable T source limit from in
      case emojiAt T source index limit of
        Some starterEmoji \<Rightarrow>
          Some (segment_loop T source limit (index + length starterEmoji) starterEmoji False)
      | None \<Rightarrow>
          (let starter = codePointAt source index in
           if starter = [] \<or>
              (\<not> (isXIDContinue T starter \<and> \<not> isCombiningMark T starter) \<and> \<not> isExtensionUnit starter)
           then None
           else Some (segment_loop T source limit (index + length starter) starter (isXIDContinue T starter))))"

section \<open>Tags\<close>

text \<open>The loop of \<^verbatim>\<open>scanTagAt\<close> over the segments after a slash.\<close>

lemma skip_ignorable_ge: "index \<le> skip_ignorable T source limit index"
proof (induction T source limit index rule: skip_ignorable.induct)
  case (1 T source limit index)
  then show ?case by (subst skip_ignorable.simps) (auto simp: Let_def intro: order_trans [rotated])
qed

text \<open>One turn of the segment loop: the next index, what is appended, and the new flag.\<close>

definition segment_step ::
  "tag_tables \<Rightarrow> jsstring \<Rightarrow> nat \<Rightarrow> nat \<Rightarrow> bool \<Rightarrow> (nat \<times> jsstring \<times> bool) option" where
  "segment_step T s lim i p =
     (if \<not> (i < lim \<and> i < length s) then None
      else case emojiAt T s i lim of
        Some e \<Rightarrow> Some (i + length e, e, False)
      | None \<Rightarrow>
          (let c = codePointAt s i; i' = i + length c in
           if isDefaultIgnorable T c then Some (i', [], False)
           else if isApostropheJoiner c \<and> p \<and> isNonCombiningXIDContinuationAt T s i' lim then Some (i', c, False)
           else if isXIDContinue T c \<or> isExtensionUnit c then Some (i', c, isXIDContinue T c)
           else None))"

lemma segment_loop_step:
  "segment_loop T s lim i v p =
     (case segment_step T s lim i p of None \<Rightarrow> (i, v)
      | Some (i', a, p') \<Rightarrow> segment_loop T s lim i' (v @ a) p')"
  by (subst segment_loop.simps) (simp add: segment_step_def Let_def split: option.split)

lemma segment_step_Some:
  assumes "segment_step T s lim i p = Some (i', a, p')"
  shows "i < i' \<and> i < lim \<and> i < length s \<and>
    ((\<exists>e. emojiAt T s i lim = Some e \<and> i' = i + length e) \<or> i' = i + length (codePointAt s i))"
  using assms codePointAt_neq_Nil [of i s]
  by (auto simp: segment_step_def Let_def split: if_splits option.splits dest: emojiAt_length)

lemma segment_loop_ge: "i \<le> fst (segment_loop T s lim i v p)"
proof (induction "lim - i" arbitrary: i v p rule: less_induct)
  case less
  show ?case
  proof (cases "segment_step T s lim i p")
    case None
    then show ?thesis by (subst segment_loop_step) simp
  next
    case (Some q)
    obtain i' a p' where q: "q = (i', a, p')" by (cases q)
    with Some have i': "i < i'" "i < lim" using segment_step_Some by auto
    then have "i' \<le> fst (segment_loop T s lim i' (v @ a) p')"
      using less.hyps diff_less_mono2 by blast
    with i' show ?thesis by (subst segment_loop_step) (simp add: Some q)
  qed
qed

lemma scanSegment_gt:
  assumes "scanSegment T source from limit = Some (to, v)"
  shows "from < to"
proof -
  define i where "i = skip_ignorable T source limit from"
  have "from \<le> i" unfolding i_def by (rule skip_ignorable_ge)
  moreover have "i < to"
  proof (cases "emojiAt T source i limit")
    case (Some e)
    have "0 < length e" using emojiAt_length [OF Some] by simp
    moreover have "segment_loop T source limit (i + length e) e False = (to, v)"
      using Some assms by (simp add: scanSegment_def Let_def flip: i_def)
    ultimately show ?thesis using segment_loop_ge [of "i + length e" T source limit e False] by (cases e) auto
  next
    case None
    let ?c = "codePointAt source i"
    from None assms have "?c \<noteq> []" "segment_loop T source limit (i + length ?c) ?c (isXIDContinue T ?c) = (to, v)"
      by (auto simp: scanSegment_def Let_def simp flip: i_def split: if_splits)
    with segment_loop_ge [of "i + length ?c" T source limit ?c "isXIDContinue T ?c"] show ?thesis
      by (cases ?c) auto
  qed
  ultimately show ?thesis by simp
qed

function tag_segments :: "tag_tables \<Rightarrow> jsstring \<Rightarrow> nat \<Rightarrow> nat \<Rightarrow> jsstring \<Rightarrow> nat \<times> jsstring" where
  "tag_segments T source limit to value =
     (if to < limit \<and> to < length source \<and> source ! to = 0x2f then
        (case scanSegment T source (to + 1) limit of
           None \<Rightarrow> (to, value)
         | Some (to', v) \<Rightarrow> tag_segments T source limit to' (value @ js ''/'' @ v))
      else (to, value))"
  by pat_completeness auto
termination
  by (relation "measure (\<lambda>(T, s, limit, to, v). limit - to)")
     (auto dest!: scanSegment_gt intro!: diff_less_mono2)

declare tag_segments.simps [simp del]

definition scanTagAt :: "tag_tables \<Rightarrow> jsstring \<Rightarrow> nat \<Rightarrow> nat \<Rightarrow> TagMatch option" where
  "scanTagAt T source from limit =
     (if \<not> isTagIntroducerAt T source from limit then None
      else case scanSegment T source (from + 1) limit of
             None \<Rightarrow> None
           | Some (to0, value0) \<Rightarrow>
               (case tag_segments T source limit to0 value0 of (to, value) \<Rightarrow>
                  Some \<lparr>tm_from = from, tm_to = to, tm_source = slice source (from + 1) to, tm_value = value\<rparr>))"

lemma tag_segments_ge: "to \<le> fst (tag_segments T source limit to v)"
proof (induction "limit - to" arbitrary: to v rule: less_induct)
  case less
  show ?case
  proof (cases "to < limit \<and> to < length source \<and> source ! to = 0x2f")
    case False
    then show ?thesis by (subst tag_segments.simps) auto
  next
    case True
    show ?thesis
    proof (cases "scanSegment T source (to + 1) limit")
      case None
      with True show ?thesis by (subst tag_segments.simps) simp
    next
      case (Some q)
      obtain to' w where q: "q = (to', w)" by (cases q)
      with Some have gt: "to < to'" by (auto dest: scanSegment_gt)
      with True have "to' \<le> fst (tag_segments T source limit to' (v @ js ''/'' @ w))"
        using less.hyps diff_less_mono2 by blast
      with True Some q gt show ?thesis by (subst tag_segments.simps) simp
    qed
  qed
qed

lemma scanTagAt_gt: "scanTagAt T source from limit = Some m \<Longrightarrow> from < tm_to m"
  by (auto simp: scanTagAt_def split: if_splits option.splits prod.splits dest!: scanSegment_gt)
     (metis Suc_lessD fst_conv order.strict_trans2 tag_segments_ge)

text \<open>
  \<^verbatim>\<open>findTagMatches\<close>. \<open>None\<close> is a run that never returns: past the end of the source the code
  point is empty and the index no longer moves.
\<close>

function find_tags_loop ::
  "tag_tables \<Rightarrow> jsstring \<Rightarrow> nat \<Rightarrow> nat \<Rightarrow> TagMatch list \<Rightarrow> TagMatch list option" where
  "find_tags_loop T source limit index matches =
     (if index < limit then
        (case emojiAt T source index limit of
           Some emoji \<Rightarrow> find_tags_loop T source limit (index + length emoji) matches
         | None \<Rightarrow>
             (case (if index < length source \<and> source ! index = 0x23
                    then scanTagAt T source index limit else None) of
                Some match \<Rightarrow> find_tags_loop T source limit (tm_to match) (matches @ [match])
              | None \<Rightarrow>
                  (let codePoint = codePointAt source index in
                   if codePoint = [] then None
                   else find_tags_loop T source limit (index + length codePoint) matches)))
      else Some matches)"
  by pat_completeness auto
termination
  by (relation "measure (\<lambda>(T, s, limit, index, ms). limit - index)")
     (auto dest!: emojiAt_length scanTagAt_gt intro!: diff_less_mono2 split: if_splits)

declare find_tags_loop.simps [simp del]

definition findTagMatches :: "tag_tables \<Rightarrow> jsstring \<Rightarrow> nat \<Rightarrow> nat \<Rightarrow> TagMatch list option" where
  "findTagMatches T source from limit = find_tags_loop T source limit from []"

section \<open>Bounds\<close>

lemma codePointAt_bound: "valid_units s \<Longrightarrow> i \<le> length s \<Longrightarrow> i + length (codePointAt s i) \<le> length s"
  using codePointAt_prefix [of s i, THEN prefix_length_le] by simp

lemma segment_step_bound:
  assumes "valid_units s" "lim \<le> length s" "segment_step T s lim i p = Some (i', a, p')"
  shows "i' \<le> length s"
  using segment_step_Some [OF assms(3)] codePointAt_bound [OF assms(1), of i] assms(2)
  by (auto dest!: emojiAt_length)

lemma segment_loop_invariant:
  assumes "valid_units s" "lim \<le> length s"
  shows "i \<le> length s \<Longrightarrow>
    fst (segment_loop T s lim i v p) \<le> length s \<and> prefix v (snd (segment_loop T s lim i v p))"
proof (induction "lim - i" arbitrary: i v p rule: less_induct)
  case less
  show ?case
  proof (cases "segment_step T s lim i p")
    case None
    with less.prems show ?thesis by (subst (1 2) segment_loop_step) simp
  next
    case (Some q)
    obtain i' a p' where q: "q = (i', a, p')" by (cases q)
    with Some have i': "i < i'" "i < lim" "i' \<le> length s"
      using segment_step_Some segment_step_bound [OF assms] by auto
    then have "fst (segment_loop T s lim i' (v @ a) p') \<le> length s \<and>
        prefix (v @ a) (snd (segment_loop T s lim i' (v @ a) p'))"
      using less.hyps diff_less_mono2 by blast
    then show ?thesis
      by (subst (1 2) segment_loop_step) (auto simp: Some q dest: append_prefixD)
  qed
qed

lemma skip_ignorable_bound:
  assumes "valid_units s" and "i \<le> length s"
  shows "skip_ignorable T s lim i \<le> length s"
  using assms
proof (induction T s lim i rule: skip_ignorable.induct)
  case (1 T s lim i)
  then show ?case
    using codePointAt_bound [OF "1.prems"]
    by (subst skip_ignorable.simps) (auto simp: Let_def)
qed

lemma scanSegment_bound:
  assumes "valid_units s" "lim \<le> length s" "from \<le> length s" "scanSegment T s from lim = Some (to, v)"
  shows "to \<le> length s \<and> v \<noteq> []"
proof -
  define i where "i = skip_ignorable T s lim from"
  have i: "i \<le> length s" unfolding i_def using assms(1,3) by (rule skip_ignorable_bound)
  obtain w b where w: "segment_loop T s lim (i + length w) w b = (to, v)" "w \<noteq> []" "i + length w \<le> length s"
  proof (cases "emojiAt T s i lim")
    case (Some e)
    with assms(2,4) emojiAt_length [OF Some] that [of e False] show ?thesis
      by (auto simp: scanSegment_def Let_def simp flip: i_def)
  next
    case None
    with assms(4) codePointAt_bound [OF assms(1) i] that [of "codePointAt s i"] show ?thesis
      by (auto simp: scanSegment_def Let_def simp flip: i_def split: if_splits)
  qed
  then show ?thesis
    using segment_loop_invariant [OF assms(1,2) w(3), of T w b] by (auto simp: w(1))
qed

lemma tag_segments_bound:
  assumes "valid_units s" "lim \<le> length s"
  shows "to \<le> length s \<Longrightarrow>
    fst (tag_segments T s lim to v) \<le> length s \<and> prefix v (snd (tag_segments T s lim to v))"
proof (induction "lim - to" arbitrary: to v rule: less_induct)
  case less
  show ?case
  proof (cases "to < lim \<and> to < length s \<and> s ! to = 0x2f")
    case False
    with less.prems show ?thesis by (subst (1 2) tag_segments.simps) auto
  next
    case True
    show ?thesis
    proof (cases "scanSegment T s (to + 1) lim")
      case None
      with True show ?thesis by (subst (1 2) tag_segments.simps) simp
    next
      case (Some q)
      obtain to' w where q: "q = (to', w)" by (cases q)
      with Some True have gt: "to < to'" "to' \<le> length s"
        using scanSegment_bound [OF assms, of "to + 1" T to' w] by (auto dest: scanSegment_gt)
      with True have "fst (tag_segments T s lim to' (v @ js ''/'' @ w)) \<le> length s \<and>
          prefix (v @ js ''/'' @ w) (snd (tag_segments T s lim to' (v @ js ''/'' @ w)))"
        using less.hyps diff_less_mono2 by blast
      with True Some q show ?thesis
        by (subst (1 2) tag_segments.simps) (auto dest: append_prefixD)
    qed
  qed
qed

lemma scanTagAt_bound:
  assumes "valid_units s" "lim \<le> length s" "scanTagAt T s i lim = Some m"
  shows "tm_from m = i \<and> i < tm_to m \<and> tm_to m \<le> length s \<and> s ! i = 0x23 \<and>
    tm_source m = slice s (i + 1) (tm_to m) \<and> tm_value m \<noteq> []"
proof -
  from assms(3) obtain to0 v0 to v where
    intro: "isTagIntroducerAt T s i lim" and
    seg: "scanSegment T s (i + 1) lim = Some (to0, v0)" and
    rest: "tag_segments T s lim to0 v0 = (to, v)" and
    m: "m = \<lparr>tm_from = i, tm_to = to, tm_source = slice s (i + 1) to, tm_value = v\<rparr>"
    by (auto simp: scanTagAt_def split: if_splits option.splits prod.splits)
  from intro have i: "i + 1 \<le> length s" "s ! i = 0x23" by (auto simp: isTagIntroducerAt_def)
  have "to0 \<le> length s" "v0 \<noteq> []" using scanSegment_bound [OF assms(1,2) i(1) seg] by auto
  then have "to \<le> length s" "v \<noteq> []"
    using tag_segments_bound [OF assms(1,2), of to0 T v0] rest by auto
  with m i scanTagAt_gt [OF assms(3)] show ?thesis by simp
qed

section \<open>All tags of a run\<close>

lemma find_tags_loop_acc:
  "find_tags_loop T s lim i ms = map_option ((@) ms) (find_tags_loop T s lim i [])"
proof (induction "lim - i" arbitrary: i ms rule: less_induct)
  case less
  note unf = find_tags_loop.simps [of T s lim i]
  show ?case
  proof (cases "i < lim")
    case False
    then show ?thesis by (simp add: unf)
  next
    case True
    note IH = less.hyps [OF diff_less_mono2 [OF _ True]]
    show ?thesis
    proof (cases "emojiAt T s i lim")
      case (Some e)
      with True IH [of "i + length e" ms] emojiAt_length [OF Some] show ?thesis by (simp add: unf)
    next
      case None
      define r where "r = (if i < length s \<and> s ! i = 0x23 then scanTagAt T s i lim else None)"
      show ?thesis
      proof (cases r)
        case (Some m)
        then have gt: "i < tm_to m" by (auto simp: r_def split: if_splits dest: scanTagAt_gt)
        show ?thesis
          using True None Some IH [OF gt, of "ms @ [m]"] IH [OF gt, of "[m]"]
          by (cases "find_tags_loop T s lim (tm_to m) []") (simp_all add: unf flip: r_def)
      next
        case rN: None
        show ?thesis
        proof (cases "codePointAt s i")
          case Nil
          with True None rN show ?thesis by (simp add: unf Let_def flip: r_def)
        next
          case (Cons c cs)
          with True None rN IH [of "i + length (codePointAt s i)" ms] show ?thesis
            by (simp add: unf Let_def flip: r_def)
        qed
      qed
    qed
  qed
qed

definition tag_advance :: "tag_tables \<times> jsstring \<Rightarrow> nat \<Rightarrow> nat \<Rightarrow> nat" where
  "tag_advance Ts i lim = (case Ts of (T, s) \<Rightarrow>
     i + length (case emojiAt T s i lim of Some e \<Rightarrow> e | None \<Rightarrow> codePointAt s i))"

definition tag_scan :: "tag_tables \<times> jsstring \<Rightarrow> nat \<Rightarrow> nat \<Rightarrow> (nat \<times> TagMatch) option" where
  "tag_scan Ts i lim = (case Ts of (T, s) \<Rightarrow> map_option (\<lambda>m. (tm_to m, m)) (scanTagAt T s i lim))"

definition tag_ranges :: "tag_tables \<times> jsstring \<Rightarrow> nat \<Rightarrow> nat \<Rightarrow> (nat \<times> nat \<times> TagMatch) list" where
  "tag_ranges Ts i lim = (case Ts of (T, s) \<Rightarrow>
     (case findTagMatches T s i lim of None \<Rightarrow> [] | Some ms \<Rightarrow> map (\<lambda>m. (tm_from m, tm_to m, m)) ms))"

definition tag_ok :: "tag_tables \<times> jsstring \<Rightarrow> nat \<Rightarrow> bool" where
  "tag_ok Ts lim \<longleftrightarrow> valid_units (snd Ts) \<and> lim = length (snd Ts)"

lemma scanTagAt_emoji: "emojiAt T s i lim = Some e \<Longrightarrow> scanTagAt T s i lim = None"
  by (simp add: scanTagAt_def isTagIntroducerAt_def)

lemma scanTagAt_hash: "scanTagAt T s i lim = Some m \<Longrightarrow> i < length s \<and> s ! i = 0x23 \<and> tm_from m = i"
  by (auto simp: scanTagAt_def isTagIntroducerAt_def split: if_splits option.splits prod.splits)

lemma findTagMatches_hit:
  "i < lim \<Longrightarrow> scanTagAt T s i lim = Some m \<Longrightarrow>
   findTagMatches T s i lim = map_option ((#) m) (findTagMatches T s (tm_to m) lim)"
  using scanTagAt_hash [of T s i lim m] scanTagAt_emoji [of T s i lim]
  by (cases "emojiAt T s i lim")
     (simp_all add: findTagMatches_def find_tags_loop.simps [of T s lim i] find_tags_loop_acc [of T s lim _ "[m]"]
        option.map_comp comp_def append_Cons [abs_def])

lemma findTagMatches_miss:
  assumes "i < lim" "lim \<le> length s" "scanTagAt T s i lim = None"
  shows "findTagMatches T s i lim = findTagMatches T s (tag_advance (T, s) i lim) lim"
  using assms codePointAt_neq_Nil [of i s]
  by (simp add: findTagMatches_def tag_advance_def find_tags_loop.simps [of T s lim i] Let_def split: option.split)

lemma tag_advance_gt: "i < lim \<Longrightarrow> lim \<le> length s \<Longrightarrow> i < tag_advance (T, s) i lim"
  using codePointAt_neq_Nil [of i s] emojiAt_length [of T s i lim]
  by (auto simp: tag_advance_def split: option.splits)

lemma findTagMatches_returns: "lim \<le> length s \<Longrightarrow> \<exists>ms. findTagMatches T s i lim = Some ms"
proof (induction "lim - i" arbitrary: i rule: less_induct)
  case less
  show ?case
  proof (cases "i < lim")
    case False
    then show ?thesis by (simp add: findTagMatches_def find_tags_loop.simps)
  next
    case True
    note IH = less.hyps [OF diff_less_mono2 [OF _ True] less.prems]
    show ?thesis
    proof (cases "scanTagAt T s i lim")
      case None
      with True less.prems IH tag_advance_gt show ?thesis by (simp add: findTagMatches_miss)
    next
      case (Some m)
      with True IH scanTagAt_gt [OF Some] show ?thesis by (auto simp: findTagMatches_hit)
    qed
  qed
qed

interpretation tags: range_scanner tag_ok tag_scan tag_advance tag_ranges
proof unfold_locales
  fix Ts :: "tag_tables \<times> jsstring" and lim i
  obtain T s where Ts: "Ts = (T, s)" by (cases Ts)
  assume ok: "tag_ok Ts lim"
  then have v: "valid_units s" and l: "lim = length s" by (simp_all add: tag_ok_def Ts)
  show "tag_ranges Ts i lim = []" if "\<not> i < lim"
    using that by (simp add: tag_ranges_def findTagMatches_def find_tags_loop.simps Ts)
  assume i: "i < lim"
  show "i < j \<and> j \<le> lim" if "tag_scan Ts i lim = Some (j, m)" for j m
    using that scanTagAt_bound [OF v _, of lim T i] l by (auto simp: tag_scan_def Ts)
  show "tag_ranges Ts i lim = (i, j, m) # tag_ranges Ts j lim" if "tag_scan Ts i lim = Some (j, m)" for j m
    using that i l findTagMatches_returns [of lim s T j] scanTagAt_hash [of T s i lim]
    by (auto simp: tag_scan_def tag_ranges_def Ts findTagMatches_hit)
  assume "tag_scan Ts i lim = None"
  then have "scanTagAt T s i lim = None" by (simp add: tag_scan_def Ts)
  with i l show "tag_ranges Ts i lim = tag_ranges Ts (tag_advance Ts i lim) lim"
    by (simp add: tag_ranges_def Ts findTagMatches_miss)
  from i l show "i < tag_advance Ts i lim" by (simp add: Ts tag_advance_gt)
qed

section \<open>Properties\<close>

text \<open>The equations that evaluate the recognizer on a concrete table and source.\<close>

lemmas tag_eval =
  isInRanges_def isInRanges_loop.simps emojiTrie_def empty_node_def emojiAt_def emojiAt_loop.simps
  code_point_at_def from_code_point_def is_high_surrogate_def is_low_surrogate_def
  codePointAt_def first_code_point_def isDefaultIgnorable_def isXIDContinue_def isCombiningMark_def
  isExtensionUnit_def isApostropheJoiner_def isTagIntroducerAt_def isNonCombiningXIDContinuationAt_def
  skip_ignorable.simps segment_loop.simps scanSegment_def tag_segments.simps scanTagAt_def
  find_tags_loop.simps findTagMatches_def slice_def

text \<open>The binary search over a sorted table of ranges decides membership in some range.\<close>

lemma isInRanges_iff:
  assumes "ranges_sorted rs"
  shows "isInRanges c rs \<longleftrightarrow> in_some_range c rs"
  unfolding isInRanges_def in_some_range_def
  using assms by (subst isInRanges_loop_correct) auto

definition sample_ranges :: "nat list" where
  "sample_ranges = [0x30, 0x39, 0x41, 0x5a, 0x61, 0x7a]"

lemma isInRanges_iff_witness:
  "isInRanges 0x62 sample_ranges \<longleftrightarrow> in_some_range 0x62 sample_ranges"
  by (rule isInRanges_iff) (simp add: ranges_sorted_def sample_ranges_def)

definition emoji_fits :: "tag_tables \<Rightarrow> jsstring \<Rightarrow> nat \<Rightarrow> nat \<Rightarrow> jsstring set" where
  "emoji_fits T s i lim = {w \<in> emoji_spellings T. prefix w (drop i s) \<and> i + length w \<le> lim}"

text \<open>
  \<^verbatim>\<open>emojiAt\<close> returns exactly the longest spelling of the emoji table that starts at the offset
  and ends within the limit.
\<close>

lemma emojiAt_is_longest:
  assumes "emoji_scalars T" and "valid_units s"
  shows "emojiAt T s i lim = Some e \<longleftrightarrow>
    e \<in> emoji_fits T s i lim \<and> (\<forall>w \<in> emoji_fits T s i lim. length w \<le> length e)"
proof
  assume e: "emojiAt T s i lim = Some e"
  then show "e \<in> emoji_fits T s i lim \<and> (\<forall>w \<in> emoji_fits T s i lim. length w \<le> length e)"
    using emojiAt_sound [OF assms(2) e] emojiAt_complete [OF assms] by (fastforce simp: emoji_fits_def)
next
  assume e: "e \<in> emoji_fits T s i lim \<and> (\<forall>w \<in> emoji_fits T s i lim. length w \<le> length e)"
  then obtain d where d: "emojiAt T s i lim = Some d" "length e \<le> length d"
    using emojiAt_complete [OF assms, of e i lim] by (auto simp: emoji_fits_def)
  then have "d \<in> emoji_fits T s i lim" using emojiAt_sound [OF assms(2)] by (auto simp: emoji_fits_def)
  with d e have "length d = length e" "prefix d (drop i s)" "prefix e (drop i s)"
    by (auto simp: emoji_fits_def intro: le_antisym)
  then have "d = e" by (auto simp: prefix_def append_eq_append_conv)
  with d show "emojiAt T s i lim = Some e" by simp
qed

text \<open>A small table: decimal digits and lower-case letters, one keycap emoji and one astral emoji.\<close>

definition sample_tables :: tag_tables where
  "sample_tables =
     \<lparr>DEFAULT_IGNORABLE_RANGES = [0x200b, 0x200f], XID_CONTINUE_RANGES = [0x30, 0x39, 0x61, 0x7a],
      COMBINING_MARK_RANGES = [0x300, 0x36f], FULLY_QUALIFIED_EMOJI = [[0x23, 0xfe0f, 0x20e3], [0x1f600]]\<rparr>"

definition sample_keycap :: jsstring where
  "sample_keycap = [0x23, 0xfe0f, 0x20e3, 0x61]"

lemma sample_tables_scalars: "emoji_scalars sample_tables"
  by (simp add: emoji_scalars_def sample_tables_def is_scalar_def)

lemma emojiAt_is_longest_witness:
  "emojiAt sample_tables sample_keycap 0 4 = Some [0x23, 0xfe0f, 0x20e3] \<longleftrightarrow>
   [0x23, 0xfe0f, 0x20e3] \<in> emoji_fits sample_tables sample_keycap 0 4 \<and>
   (\<forall>w \<in> emoji_fits sample_tables sample_keycap 0 4. length w \<le> length [0x23, 0xfe0f, 0x20e3 :: nat])"
  by (rule emojiAt_is_longest [OF sample_tables_scalars]) (simp add: valid_units_def sample_keycap_def)

lemma find_tags_spaced:
  assumes "valid_units s"
  shows "\<exists>ms. findTagMatches T s i (length s) = Some ms \<and>
    spaced i (length s) (map (\<lambda>m. (tm_from m, tm_to m, m)) ms) \<and>
    (\<forall>m \<in> set ms. s ! tm_from m = 0x23 \<and> tm_source m = slice s (tm_from m + 1) (tm_to m) \<and> tm_value m \<noteq> [])"
proof -
  have ok: "tag_ok (T, s) (length s)" using assms by (simp add: tag_ok_def)
  obtain ms where ms: "findTagMatches T s i (length s) = Some ms"
    using findTagMatches_returns by blast
  then have r: "tag_ranges (T, s) i (length s) = map (\<lambda>m. (tm_from m, tm_to m, m)) ms"
    by (simp add: tag_ranges_def)
  have "s ! tm_from m = 0x23 \<and> tm_source m = slice s (tm_from m + 1) (tm_to m) \<and> tm_value m \<noteq> []"
    if "m \<in> set ms" for m
  proof -
    have "tag_scan (T, s) (tm_from m) (length s) = Some (tm_to m, m)"
      using that by (intro tags.find_all_sound [OF ok, of _ _ _ i]) (auto simp: r)
    then have "scanTagAt T s (tm_from m) (length s) = Some m" by (auto simp: tag_scan_def)
    from scanTagAt_bound [OF assms order_refl this] show ?thesis by simp
  qed
  with ms tags.find_all_spaced [OF ok, of i] show ?thesis by (auto simp: r)
qed

text \<open>
  C1. Scanning a whole source run returns, and the tags it reports are non-empty ranges inside the
  run that follow one another without overlap; each starts at a \<^verbatim>\<open>#\<close>, carries the exact source
  spelling after it, and has a non-empty value.
\<close>

theorem findTagMatches_spans:
  assumes "valid_units s"
  shows "\<exists>ms. findTagMatches T s i (length s) = Some ms \<and>
    spaced i (length s) (map (\<lambda>m. (tm_from m, tm_to m, m)) ms) \<and>
    (\<forall>m \<in> set ms. s ! tm_from m = 0x23 \<and> tm_source m = slice s (tm_from m + 1) (tm_to m) \<and> tm_value m \<noteq> [])"
  using find_tags_spaced [OF assms] .

theorem findTagMatches_spans_witness:
  "\<exists>ms. findTagMatches sample_tables (js ''#a b'') 0 (length (js ''#a b'')) = Some ms \<and>
    spaced 0 (length (js ''#a b'')) (map (\<lambda>m. (tm_from m, tm_to m, m)) ms) \<and>
    (\<forall>m \<in> set ms. js ''#a b'' ! tm_from m = 0x23 \<and>
       tm_source m = slice (js ''#a b'') (tm_from m + 1) (tm_to m) \<and> tm_value m \<noteq> [])"
  by (rule findTagMatches_spans) (simp add: valid_units_def js_str)

lemma find_tags_covers:
  assumes "valid_units s" and "\<forall>w \<in> emoji_spellings T. 0x23 \<notin> set (tl w)"
    and "findTagMatches T s i (length s) = Some ms"
    and "i \<le> a" "a < length s" "scanTagAt T s a (length s) \<noteq> None"
  shows "\<exists>m \<in> set ms. tm_from m \<le> a \<and> a < tm_to m"
proof -
  have ok: "tag_ok (T, s) (length s)" using assms(1) by (simp add: tag_ok_def)
  have skip: "tag_scan (T, s) k (length s) = None"
    if "j < k" "k < tag_advance (T, s) j (length s)" "k < length s" "j < length s" for j k
  proof (rule ccontr)
    assume "tag_scan (T, s) k (length s) \<noteq> None"
    then have hash: "s ! k = 0x23" by (auto simp: tag_scan_def dest: scanTagAt_hash)
    define c where "c = (case emojiAt T s j (length s) of Some e \<Rightarrow> e | None \<Rightarrow> codePointAt s j)"
    have pre: "prefix c (drop j s)"
      using emojiAt_sound [OF assms(1)] codePointAt_prefix [OF assms(1)]
      by (auto simp: c_def split: option.splits)
    have k: "k - j < length c" "k - j \<noteq> 0" using that by (auto simp: tag_advance_def c_def)
    from pre obtain z where z: "drop j s = c @ z" by (auto simp: prefix_def)
    then have "(c @ z) ! (k - j) = s ! (j + (k - j))" using that by (simp flip: z)
    with k(1) that(1) have "c ! (k - j) = s ! k" by (simp add: nth_append)
    moreover obtain n where n: "k - j = Suc n" using k(2) by (cases "k - j") auto
    ultimately have "tl c ! n = 0x23" "n < length (tl c)" using k(1) hash by (simp_all add: nth_tl)
    then have mem: "0x23 \<in> set (tl c)" by (metis nth_mem)
    show False
    proof (cases "emojiAt T s j (length s)")
      case (Some e)
      with emojiAt_sound [OF assms(1) Some] mem assms(2) show False by (auto simp: c_def)
    next
      case None
      with mem show False
        by (auto simp: c_def codePointAt_def code_point_at_def from_code_point_def split: if_splits)
    qed
  qed
  have "\<exists>b c v. (b, c, v) \<in> set (tag_ranges (T, s) i (length s)) \<and> b \<le> a \<and> a < c"
    using ok _ assms(4,5)
  proof (rule tags.find_all_complete)
    show "tag_scan (T, s) a (length s) \<noteq> None" using assms(6) by (simp add: tag_scan_def)
  qed (use skip in blast)
  then show ?thesis using assms(3) by (auto simp: tag_ranges_def)
qed

text \<open>
  C2. No tag is missed: every offset where a tag scans lies in a reported tag, provided a
  \<^verbatim>\<open>#\<close> occurs in an emoji spelling only as its first code point (as in the keycap emoji).
\<close>

theorem findTagMatches_complete:
  assumes "valid_units s" and "\<forall>w \<in> emoji_spellings T. 0x23 \<notin> set (tl w)"
    and "findTagMatches T s i (length s) = Some ms"
    and "i \<le> a" "a < length s" "scanTagAt T s a (length s) \<noteq> None"
  shows "\<exists>m \<in> set ms. tm_from m \<le> a \<and> a < tm_to m"
  using find_tags_covers [OF assms] .

theorem findTagMatches_complete_witness:
  "\<exists>m \<in> set (the (findTagMatches sample_tables (js ''b#a'') 0 3)). tm_from m \<le> 1 \<and> 1 < tm_to m"
proof -
  have s: "js ''b#a'' = [0x62, 0x23, 0x61]" by (simp add: js_str)
  have "findTagMatches sample_tables [0x62, 0x23, 0x61] 0 3 =
    Some [\<lparr>tm_from = 1, tm_to = 3, tm_source = [0x61], tm_value = [0x61]\<rparr>]"
    by (simp add: tag_eval sample_tables_def)
  moreover have "scanTagAt sample_tables [0x62, 0x23, 0x61] 1 3 \<noteq> None"
    by (simp add: tag_eval sample_tables_def)
  ultimately show ?thesis
    using findTagMatches_complete [of "js ''b#a''" sample_tables 0 _ 1] unfolding s
    by (auto simp: valid_units_def emoji_spellings_def sample_tables_def encode_def from_code_point_def)
qed

text \<open>
  The \<^verbatim>\<open>limit\<close> argument does not bound a match: the first code point of a segment is read
  without a check against it, so scanning \<^verbatim>\<open>#a\<close> with limit 1 reports a tag that ends at 2.
\<close>

lemma scanTagAt_overruns_limit:
  "scanTagAt sample_tables (js ''#a'') 0 1 =
     Some \<lparr>tm_from = 0, tm_to = 2, tm_source = js ''a'', tm_value = js ''a''\<rparr>"
  by (simp add: tag_eval sample_tables_def js_str)

end
