(* ===== verification/DailyQuestion.thy ===== *)
theory DailyQuestion
  imports Prelude "HOL-Library.Word" "HOL-Library.Multiset"
begin

text \<open>
  The daily question (\<^verbatim>\<open>web/src/utils/daily-question.ts\<close>): the FNV-1a hash of a string, the
  mulberry32 generator, the yearly Fisher--Yates order and the question of a date, with the local
  calendar day the code reads. 32-bit values are words; \<^verbatim>\<open>Math.imul\<close>, \<open>^\<close>, \<open>|\<close> and \<open>>>>\<close> act on
  them as the code's operators act on JavaScript numbers. The quotient \<^verbatim>\<open>random() * n\<close> of the code is
  exact in a double for \<open>n < 2 ^ 21\<close>; the lists of questions hold at most 2000.
\<close>

unbundle bit_operations_syntax

section \<open>UTF-8\<close>

text \<open>The scalar values of a string, as \<^verbatim>\<open>TextEncoder\<close> reads them: a lone surrogate becomes U+FFFD.\<close>

fun scalar_values :: "jsstring \<Rightarrow> nat list" where
  "scalar_values [] = []"
| "scalar_values [c] = [if is_high_surrogate c \<or> is_low_surrogate c then 0xfffd else c]"
| "scalar_values (c # d # s) =
     (if is_high_surrogate c then
        if is_low_surrogate d
        then (0x10000 + (c - 0xd800) * 0x400 + (d - 0xdc00)) # scalar_values s
        else 0xfffd # scalar_values (d # s)
      else if is_low_surrogate c then 0xfffd # scalar_values (d # s)
      else c # scalar_values (d # s))"

definition utf8_bytes :: "nat \<Rightarrow> nat list" where
  "utf8_bytes p =
     (if p < 0x80 then [p]
      else if p < 0x800 then [0xc0 + p div 0x40, 0x80 + p mod 0x40]
      else if p < 0x10000 then [0xe0 + p div 0x1000, 0x80 + p div 0x40 mod 0x40, 0x80 + p mod 0x40]
      else [0xf0 + p div 0x40000, 0x80 + p div 0x1000 mod 0x40, 0x80 + p div 0x40 mod 0x40, 0x80 + p mod 0x40])"

definition text_encode :: "jsstring \<Rightarrow> nat list" where
  "text_encode s = concat (map utf8_bytes (scalar_values s))"

section \<open>Hash and generator\<close>

definition hashText :: "jsstring \<Rightarrow> 32 word" where
  "hashText text =
     foldl (\<lambda>hash byte. (hash XOR word_of_nat byte) * 0x01000193) 0x811c9dc5 (text_encode text)"

text \<open>
  One call of the generator \<^verbatim>\<open>seededRandom(seed)\<close> returns: the numerator of the fraction over
  \<open>2 ^ 32\<close>, and the next state.
\<close>

definition random_next :: "32 word \<Rightarrow> 32 word \<times> 32 word" where
  "random_next state0 =
     (let state = state0 + 0x6d2b79f5;
          t1 = (state XOR drop_bit 15 state) * (1 OR state);
          t2 = (t1 + (t1 XOR drop_bit 7 t1) * (61 OR t1)) XOR t1
      in (t2 XOR drop_bit 14 t2, state))"

text \<open>\<^verbatim>\<open>Math.floor(random() * n)\<close>.\<close>

definition draw :: "32 word \<Rightarrow> nat \<Rightarrow> nat \<times> 32 word" where
  "draw state n = (case random_next state of (u, state') \<Rightarrow> (unat u * n div 2 ^ 32, state'))"

section \<open>Shuffling\<close>

text \<open>The loop of \<^verbatim>\<open>yearOrder\<close> from index \<open>i\<close> down to 1, over any source of indices.\<close>

fun shuffle :: "('s \<Rightarrow> nat \<Rightarrow> nat \<times> 's) \<Rightarrow> nat \<Rightarrow> 's \<Rightarrow> 'a list \<Rightarrow> 'a list" where
  "shuffle random 0 s order = order"
| "shuffle random (Suc i) s order =
     (case random s (Suc (Suc i)) of
        (j, s') \<Rightarrow> shuffle random i s' (order[Suc i := order ! j, j := order ! Suc i]))"

text \<open>
  The contract of a source of random indices, which the shuffle and the sampling of Spaces rely
  on: a draw below \<open>n\<close> is below \<open>n\<close>.
\<close>

locale bounded_source =
  fixes random :: "'s \<Rightarrow> nat \<Rightarrow> nat \<times> 's"
  assumes draw_less: "0 < n \<Longrightarrow> fst (random s n) < n"
begin

lemma shuffle_mset: "i < length xs \<Longrightarrow> mset (shuffle random i s xs) = mset xs"
proof (induction i arbitrary: s xs)
  case (Suc i)
  obtain j s' where r: "random s (Suc (Suc i)) = (j, s')" by (cases "random s (Suc (Suc i))")
  with draw_less [of "Suc (Suc i)" s] have j: "j < Suc (Suc i)" by simp
  with Suc.prems have "mset (xs[Suc i := xs ! j, j := xs ! Suc i]) = mset xs"
    by (intro mset_swap) auto
  with Suc r show ?case by simp
qed simp

lemma shuffle_length: "i < length xs \<Longrightarrow> length (shuffle random i s xs) = length xs"
  using shuffle_mset [of i xs s] by (metis size_mset)

end

lemma draw_bound:
  assumes "0 < n" shows "fst (draw s n) < n"
proof -
  obtain u s' where r: "random_next s = (u, s')" by (cases "random_next s")
  have "unat u < 2 ^ 32" using unsigned_less [of u] by simp
  then have "unat u * n < 2 ^ 32 * n" using assms by (simp only: mult_less_cancel2)
  then have "unat u * n div 2 ^ 32 < n" by (intro less_mult_imp_div_less) (simp add: mult.commute)
  with r show ?thesis by (simp add: draw_def)
qed

interpretation mulberry: bounded_source draw
  by unfold_locales (rule draw_bound)

section \<open>The order of a year\<close>

definition yearOrder :: "nat \<Rightarrow> int \<Rightarrow> jsstring \<Rightarrow> nat \<Rightarrow> nat list" where
  "yearOrder n year seed round =
     (let text = (if round = 0 then int_text year @ js '':'' @ seed
                  else int_text year @ js '':'' @ seed @ js '':round:'' @ int_text (int round))
      in shuffle draw (n - 1) (hashText text) [0..<n])"

section \<open>Dates\<close>

text \<open>The local calendar fields of a \<^verbatim>\<open>Date\<close>: \<^verbatim>\<open>getFullYear\<close>, \<^verbatim>\<open>getMonth\<close> (from 0), \<^verbatim>\<open>getDate\<close>.\<close>

record local_date =
  full_year :: int
  month0 :: nat
  day_of_month :: nat

definition is_leap :: "int \<Rightarrow> bool" where
  "is_leap y \<longleftrightarrow> 4 dvd y \<and> (\<not> 100 dvd y \<or> 400 dvd y)"

definition month_length :: "int \<Rightarrow> nat \<Rightarrow> nat" where
  "month_length y m =
     (if m = 1 then (if is_leap y then 29 else 28)
      else if m = 3 \<or> m = 5 \<or> m = 8 \<or> m = 10 then 30 else 31)"

definition valid_date :: "local_date \<Rightarrow> bool" where
  "valid_date d \<longleftrightarrow> month0 d < 12 \<and> 1 \<le> day_of_month d \<and> day_of_month d \<le> month_length (full_year d) (month0 d)"

text \<open>
  \<^verbatim>\<open>Date.UTC(y, m, d)\<close> in days: the ECMAScript \<^verbatim>\<open>DayFromYear\<close> plus the days of the months before.
  A year from 0 to 99 means one of the twentieth century.
\<close>

definition day_from_year :: "int \<Rightarrow> int" where
  "day_from_year y = 365 * (y - 1970) + (y - 1969) div 4 - (y - 1901) div 100 + (y - 1601) div 400"

definition utc_year :: "int \<Rightarrow> int" where
  "utc_year y = (if 0 \<le> y \<and> y \<le> 99 then 1900 + y else y)"

definition utc_days :: "int \<Rightarrow> nat \<Rightarrow> nat \<Rightarrow> int" where
  "utc_days y m d =
     day_from_year (utc_year y) + int (\<Sum>k < m. month_length (utc_year y) k) + int d - 1"

definition dayOfYear :: "local_date \<Rightarrow> int" where
  "dayOfYear date =
     utc_days (full_year date) (month0 date) (day_of_month date) - utc_days (full_year date) 0 1 + 1"

section \<open>The question of a date\<close>

definition questionIndexFor :: "local_date \<Rightarrow> nat \<Rightarrow> jsstring \<Rightarrow> nat option" where
  "questionIndexFor date n seed =
     (if n = 0 then None
      else
        let year = full_year date;
            day = nat (dayOfYear date);
            round = (if day \<le> 365 then (day - 1) div n else 0);
            order = yearOrder n year seed round
        in if day \<le> 365 then Some (order ! ((day - 1) mod n))
           else Some (order ! fst (draw (hashText (int_text year @ js '':'' @ seed @ js '':366'')) n)))"

section \<open>Languages\<close>

text \<open>\<^verbatim>\<open>locale-codes.json\<close>.\<close>

definition BUILTIN_QUESTION_LANGUAGES :: "jsstring list" where
  "BUILTIN_QUESTION_LANGUAGES = map js
     [''ar'', ''bg'', ''ca'', ''cs'', ''da'', ''de'', ''el'', ''en'', ''en-GB'', ''es'', ''et'', ''fa'', ''fi'',
      ''fr'', ''gl'', ''he'', ''hi'', ''hr'', ''hu'', ''id'', ''it'', ''ja'', ''ka-GE'', ''ko'', ''lt'', ''lv'',
      ''mr'', ''nb'', ''nl'', ''pl'', ''pt-PT'', ''pt-BR'', ''ro'', ''ru'', ''sk'', ''sl'', ''sr'', ''sv'',
      ''th'', ''tr'', ''uk'', ''vi'', ''zh-Hans'', ''zh-Hant'']"

text \<open>\<^verbatim>\<open>toLowerCase\<close> and \<^verbatim>\<open>replaceAll("_", "-")\<close> on a language code, which is ASCII.\<close>

definition to_lower :: "jsstring \<Rightarrow> jsstring" where
  "to_lower = map (\<lambda>c. if 0x41 \<le> c \<and> c \<le> 0x5a then c + 0x20 else c)"

definition dashed :: "jsstring \<Rightarrow> jsstring" where
  "dashed = map (\<lambda>c. if c = 0x5f then 0x2d else c)"

definition bankLanguageFor :: "jsstring \<Rightarrow> jsstring" where
  "bankLanguageFor language =
     (let lower = to_lower (dashed language) in
      case find (\<lambda>locale. to_lower locale = lower) BUILTIN_QUESTION_LANGUAGES of
        Some exact \<Rightarrow> exact
      | None \<Rightarrow>
          if \<exists>v \<in> {''hant'', ''tw'', ''hk'', ''mo''}. starts_with lower (js ''zh-'' @ js v) then js ''zh-Hant''
          else if starts_with lower (js ''zh'') then js ''zh-Hans''
          else
            let parent = split_on 0x2d lower ! 0 in
            if parent = js ''no'' then js ''nb''
            else case find (\<lambda>locale. to_lower locale = parent) BUILTIN_QUESTION_LANGUAGES of
              Some l \<Rightarrow> l
            | None \<Rightarrow>
                (case find (\<lambda>locale. split_on 0x2d locale ! 0 = parent) BUILTIN_QUESTION_LANGUAGES of
                   Some l \<Rightarrow> l | None \<Rightarrow> js ''en''))"

section \<open>Entries of a custom bank\<close>

definition BUILTIN_QUESTION_COUNT :: nat where
  "BUILTIN_QUESTION_COUNT = 365"

datatype DailyQuestionEntry =
    Text_entry jsstring
  | Builtin_entry nat
  | Custom_entry jsstring "jsstring option" "(jsstring \<times> jsstring) list option"

text \<open>\<^verbatim>\<open>resolveDailyQuestion\<close>: the requested language, its parent, English, then the author's text.\<close>

fun first_translation ::
    "jsstring \<Rightarrow> jsstring option \<Rightarrow> (jsstring \<times> jsstring) list option \<Rightarrow> jsstring option list \<Rightarrow> jsstring" where
  "first_translation text locale translations [] = text"
| "first_translation text locale translations (l # ls) =
     (case l of
        None \<Rightarrow> first_translation text locale translations ls
      | Some [] \<Rightarrow> first_translation text locale translations ls
      | Some code \<Rightarrow>
          (let t = (if locale = Some code then Some text
                    else case translations of None \<Rightarrow> None | Some ts \<Rightarrow> map_of ts code)
           in case t of
                None \<Rightarrow> first_translation text locale translations ls
              | Some v \<Rightarrow> if trim v \<noteq> [] then trim v else first_translation text locale translations ls))"

definition resolveDailyQuestion :: "DailyQuestionEntry \<Rightarrow> jsstring \<Rightarrow> jsstring list option \<Rightarrow> jsstring option" where
  "resolveDailyQuestion entry language builtIn =
     (case entry of
        Text_entry t \<Rightarrow> Some t
      | Builtin_entry i \<Rightarrow>
          (case builtIn of None \<Rightarrow> None | Some bank \<Rightarrow> if i < length bank then Some (bank ! i) else None)
      | Custom_entry text locale translations \<Rightarrow>
          (let normalized = to_lower (dashed language);
               requested = (if starts_with normalized (js ''zh'') then Some (bankLanguageFor normalized)
                 else find (\<lambda>locale. to_lower locale = normalized) BUILTIN_QUESTION_LANGUAGES);
               parent = split_on 0x2d normalized ! 0
           in Some (first_translation text locale translations
                (fold set_add [requested, Some parent, Some (js ''en'')] []))))"

section \<open>The draft of an answer\<close>

definition dailyQuestionTag :: "jsstring \<Rightarrow> jsstring" where
  "dailyQuestionTag dayKey = js ''daily/'' @ dayKey"

text \<open>\<^verbatim>\<open>heading.replace(/\r?\n/g, "\n> ")\<close>.\<close>

fun quote_lines :: "jsstring \<Rightarrow> jsstring" where
  "quote_lines [] = []"
| "quote_lines [c] = (if c = 0x0a then [0x0a, 0x3e, 0x20] else [c])"
| "quote_lines (c # d # s) =
     (if c = 0x0a then [0x0a, 0x3e, 0x20] @ quote_lines (d # s)
      else if c = 0x0d \<and> d = 0x0a then [0x0a, 0x3e, 0x20] @ quote_lines s
      else c # quote_lines (d # s))"

definition buildDailyAnswerDraft :: "jsstring \<Rightarrow> jsstring \<Rightarrow> jsstring \<Rightarrow> jsstring \<times> nat" where
  "buildDailyAnswerDraft content heading dayKey =
     (let before = (if trim content \<noteq> [] then trim_end content @ [0x0a, 0x0a] else []);
          opening = before @ js ''> '' @ quote_lines heading @ [0x0a, 0x0a]
      in (opening @ [0x0a, 0x0a] @ js ''#'' @ dailyQuestionTag dayKey, length opening))"

section \<open>Lemmas\<close>

lemma mset_yearOrder: "mset (yearOrder n year seed round) = mset [0..<n]"
proof (cases "n = 0")
  case True
  then show ?thesis by (simp add: yearOrder_def Let_def)
next
  case False
  then show ?thesis unfolding yearOrder_def Let_def by (intro mulberry.shuffle_mset) simp
qed

lemma length_yearOrder [simp]: "length (yearOrder n year seed round) = n"
  using mset_yearOrder [of n year seed round] by (metis length_upt diff_zero size_mset)

lemma set_yearOrder: "set (yearOrder n year seed round) = {..<n}"
  using mset_yearOrder [of n year seed round] by (metis atLeast_upt mset_eq_setD)

lemma distinct_yearOrder: "distinct (yearOrder n year seed round)"
  using mset_yearOrder [of n year seed round] by (metis distinct_upt mset_eq_imp_distinct_iff)

definition days_before :: "int \<Rightarrow> nat \<Rightarrow> nat" where
  "days_before y m = (\<Sum>k < m. month_length y k)"

lemma days_before_Suc [simp]: "days_before y (Suc m) = days_before y m + month_length y m"
  by (simp add: days_before_def)

lemma days_before_0 [simp]: "days_before y 0 = 0"
  by (simp add: days_before_def)

lemma days_before_mono: "m \<le> n \<Longrightarrow> days_before y m \<le> days_before y n"
  unfolding days_before_def by (intro sum_mono2) auto

lemma days_before_12: "days_before y 12 = (if is_leap y then 366 else 365)"
  by (simp add: days_before_def month_length_def numeral_eq_Suc)

lemma month_length_pos: "0 < month_length y m"
  by (simp add: month_length_def)

lemma month_length_utc_year: "0 < y \<Longrightarrow> month_length (utc_year y) m = month_length y m"
proof -
  assume y: "0 < y"
  have "is_leap (1900 + y) = is_leap y" if "y \<le> 99"
  proof -
    have "\<not> 100 dvd y" using that y by (auto dest: zdvd_imp_le)
    moreover have "\<not> 100 dvd (1900 + y)"
      using \<open>\<not> 100 dvd y\<close> dvd_add_right_iff [of 100 1900 y] by simp
    moreover have "4 dvd (1900 + y) \<longleftrightarrow> 4 dvd y" using dvd_add_right_iff [of 4 1900 y] by simp
    ultimately show ?thesis by (simp add: is_leap_def)
  qed
  with y show ?thesis by (simp add: utc_year_def month_length_def)
qed

lemma dayOfYear_eq:
  "0 < full_year d \<Longrightarrow> dayOfYear d = int (days_before (full_year d) (month0 d) + day_of_month d)"
  by (simp add: dayOfYear_def utc_days_def days_before_def month_length_utc_year)

lemma dayOfYear_bounds:
  assumes "valid_date d" and "0 < full_year d"
  shows "1 \<le> dayOfYear d" and "dayOfYear d \<le> (if is_leap (full_year d) then 366 else 365)"
proof -
  have "days_before (full_year d) (month0 d) + day_of_month d \<le> days_before (full_year d) (Suc (month0 d))"
    using assms(1) by (simp add: valid_date_def)
  also have "\<dots> \<le> days_before (full_year d) 12"
    using assms(1) by (intro days_before_mono) (simp add: valid_date_def)
  finally show "dayOfYear d \<le> (if is_leap (full_year d) then 366 else 365)"
    using assms(2) by (simp add: dayOfYear_eq days_before_12 split: if_splits)
  show "1 \<le> dayOfYear d" using assms by (simp add: dayOfYear_eq valid_date_def)
qed

text \<open>Later dates of a year have larger day numbers, so the day number determines the date.\<close>

lemma dayOfYear_month_less:
  assumes "valid_date d" "valid_date e" "full_year d = full_year e" "0 < full_year e" "month0 d < month0 e"
  shows "dayOfYear d < dayOfYear e"
proof -
  let ?y = "full_year e"
  have "days_before ?y (month0 d) + day_of_month d \<le> days_before ?y (Suc (month0 d))"
    using assms(1,3) by (simp add: valid_date_def)
  also have "\<dots> \<le> days_before ?y (month0 e)" using assms(5) by (intro days_before_mono) simp
  also have "\<dots> < days_before ?y (month0 e) + day_of_month e" using assms(2) by (simp add: valid_date_def)
  finally show ?thesis using assms(3,4) by (simp add: dayOfYear_eq)
qed

lemma dayOfYear_inj:
  assumes "valid_date d" "valid_date e" "full_year d = full_year e" "0 < full_year e"
    and "dayOfYear d = dayOfYear e"
  shows "d = e"
proof -
  have "month0 d = month0 e"
    using dayOfYear_month_less [of d e] dayOfYear_month_less [of e d] assms
    by (metis less_irrefl linorder_neqE_nat)
  with assms show ?thesis by (simp add: dayOfYear_eq)
qed

text \<open>Every day number of a year is the day number of one of its dates.\<close>

lemma dayOfYear_surj:
  assumes "0 < y"
  shows "1 \<le> k \<Longrightarrow> k \<le> days_before y 12 \<Longrightarrow>
    \<exists>d. valid_date d \<and> full_year d = y \<and> dayOfYear d = int k"
proof (induction k rule: nat_induct_at_least)
  case base
  show ?case
    using assms month_length_pos [of y 0]
    by (intro exI [of _ "\<lparr>full_year = y, month0 = 0, day_of_month = 1\<rparr>"])
       (simp add: valid_date_def dayOfYear_eq Suc_le_eq)
next
  case (Suc k)
  then obtain d where d: "valid_date d" "full_year d = y" "dayOfYear d = int k" by auto
  show ?case
  proof (cases "day_of_month d < month_length y (month0 d)")
    case True
    with d assms show ?thesis
      by (intro exI [of _ "d\<lparr>day_of_month := Suc (day_of_month d)\<rparr>"])
         (simp add: valid_date_def dayOfYear_eq)
  next
    case False
    with d have "day_of_month d = month_length y (month0 d)" by (simp add: valid_date_def)
    with d assms have k: "k = days_before y (Suc (month0 d))" by (simp add: dayOfYear_eq)
    have "month0 d \<noteq> 11"
    proof
      assume "month0 d = 11"
      then have "Suc (month0 d) = 12" by simp
      with k Suc.prems show False by simp
    qed
    then have "Suc (month0 d) < 12" using d(1) by (simp add: valid_date_def)
    then show ?thesis
      using assms k month_length_pos [of y "Suc (month0 d)"]
      by (intro exI [of _ "\<lparr>full_year = y, month0 = Suc (month0 d), day_of_month = 1\<rparr>"])
         (simp add: valid_date_def dayOfYear_eq Suc_le_eq)
  qed
qed

lemma questionIndexFor_day:
  assumes "0 < n" and "dayOfYear d = int day" and "day \<le> 365"
  shows "questionIndexFor d n seed =
    Some (yearOrder n (full_year d) seed ((day - 1) div n) ! ((day - 1) mod n))"
  using assms by (simp add: questionIndexFor_def Let_def)

section \<open>Properties\<close>

text \<open>
  The order of a year shows every question exactly once: it is a permutation of the indices
  \<open>0, \<dots>, n - 1\<close>, for every year, seed and round.
\<close>

lemma yearOrder_permutation: "mset (yearOrder n year seed round) = mset [0..<n]"
  by (rule mset_yearOrder)

text \<open>
  Two different dates of a year that fall in the same round never share a question (the 366th
  day aside); with at least 365 questions that is every pair of dates.
\<close>

lemma questions_differ_within_round:
  assumes "valid_date d" "valid_date e" "d \<noteq> e" "full_year d = full_year e" "0 < full_year e"
    and "dayOfYear d \<le> 365" "dayOfYear e \<le> 365" "0 < n"
    and "(dayOfYear d - 1) div int n = (dayOfYear e - 1) div int n"
  shows "questionIndexFor d n seed \<noteq> questionIndexFor e n seed"
proof -
  obtain i j where i: "dayOfYear d = int (Suc i)" and j: "dayOfYear e = int (Suc j)"
    using dayOfYear_bounds(1) [of d] dayOfYear_bounds(1) [of e] assms(1,2,4,5)
    by (metis Suc_pred nat_0_iff not_gr_zero nat_int of_nat_0_less_iff one_le_numeral
        zero_less_one order_less_le_trans zero_less_imp_eq_int)
  have "Suc i \<noteq> Suc j" using assms i j dayOfYear_inj [of d e] by auto
  have "i div n = j div n" using assms(9) by (simp add: i j zdiv_int [symmetric])
  then have "i mod n \<noteq> j mod n" using \<open>Suc i \<noteq> Suc j\<close> by (metis div_mult_mod_eq)
  moreover have "i mod n < n" "j mod n < n" using assms(8) by simp_all
  ultimately have "yearOrder n (full_year e) seed (j div n) ! (i mod n) \<noteq> yearOrder n (full_year e) seed (j div n) ! (j mod n)"
    using distinct_yearOrder [of n "full_year e" seed "j div n"] by (simp add: nth_eq_iff_index_eq)
  then show ?thesis
    using questionIndexFor_day [OF assms(8) i, of seed] questionIndexFor_day [OF assms(8) j, of seed]
      assms(4,6,7) i j \<open>i div n = j div n\<close> by simp
qed

lemma questions_differ_within_round_witness:
  "questionIndexFor \<lparr>full_year = 2026, month0 = 0, day_of_month = 1\<rparr> 3 (js ''s'') \<noteq>
   questionIndexFor \<lparr>full_year = 2026, month0 = 0, day_of_month = 3\<rparr> 3 (js ''s'')"
  by (rule questions_differ_within_round)
     (simp_all add: valid_date_def month_length_def dayOfYear_eq)

text \<open>
  A round is exhausted before the next one starts: each of the \<open>n\<close> questions comes up on one
  of the \<open>n\<close> days of every complete round of the year.
\<close>

lemma round_shows_every_question:
  assumes "0 < n" "0 < y" "q < n" "Suc r * n \<le> 365"
  shows "\<exists>d. valid_date d \<and> full_year d = y \<and> int (r * n) < dayOfYear d \<and> dayOfYear d \<le> int (Suc r * n) \<and>
    questionIndexFor d n seed = Some q"
proof -
  have "q \<in> set (yearOrder n y seed r)" using assms(3) by (simp add: set_yearOrder)
  then obtain k where k: "k < n" "yearOrder n y seed r ! k = q"
    by (auto simp: in_set_conv_nth)
  have "Suc (r * n + k) \<le> Suc r * n" using k(1) by simp
  then have le: "Suc (r * n + k) \<le> 365" using assms(4) by linarith
  then have "Suc (r * n + k) \<le> days_before y 12" by (simp add: days_before_12)
  then obtain d where d: "valid_date d" "full_year d = y" "dayOfYear d = int (Suc (r * n + k))"
    using dayOfYear_surj [OF assms(2)] by (metis le_add1 plus_1_eq_Suc)
  have "questionIndexFor d n seed = Some q"
    using questionIndexFor_day [OF assms(1) d(3) le] k d(2) by simp
  with d k(1) show ?thesis by auto
qed

lemma round_shows_every_question_witness:
  "\<exists>d. valid_date d \<and> full_year d = 2026 \<and> int (1 * 3) < dayOfYear d \<and> dayOfYear d \<le> int (Suc 1 * 3) \<and>
    questionIndexFor d 3 (js ''s'') = Some 2"
  by (rule round_shows_every_question) simp_all

text \<open>A question index always lies in the list, on the 366th day too; only an empty list has none.\<close>

lemma questionIndexFor_bound:
  "case questionIndexFor d n seed of None \<Rightarrow> n = 0 | Some q \<Rightarrow> q < n"
proof (cases "n = 0")
  case False
  have "yearOrder n y s r ! k < n" if "k < n" for y s r k
    using that nth_mem [of k "yearOrder n y s r"] by (simp add: set_yearOrder)
  with False show ?thesis by (simp add: questionIndexFor_def Let_def mulberry.draw_less)
qed (simp add: questionIndexFor_def)

text \<open>The hash step is a bijection of the state for every byte, because the prime is odd.\<close>

lemma fnv_prime_inverse: "(0x01000193 :: 32 word) * 0x359c449b = 1"
  by simp

lemma fnv_mult_inj: "(x :: 32 word) * 0x01000193 = y * 0x01000193 \<Longrightarrow> x = y"
proof -
  assume eq: "x * 0x01000193 = y * 0x01000193"
  have "x = x * 0x01000193 * 0x359c449b" by (simp only: mult.assoc fnv_prime_inverse mult_1_right)
  also have "\<dots> = y" unfolding eq by (simp only: mult.assoc fnv_prime_inverse mult_1_right)
  finally show "x = y" .
qed

lemma xor_right_inj: "(x :: 32 word) XOR z = y XOR z \<Longrightarrow> x = y"
proof -
  assume "x XOR z = y XOR z"
  then have "(x XOR z) XOR z = (y XOR z) XOR z" by (rule arg_cong)
  then show "x = y" by (simp only: xor.assoc xor_self_eq xor.right_neutral)
qed

lemma fnv_fold_inj:
  "foldl (\<lambda>h b. (h XOR word_of_nat b) * 0x01000193) x bs =
   foldl (\<lambda>h b. (h XOR word_of_nat b) * 0x01000193) (y :: 32 word) bs \<Longrightarrow> x = y"
proof (induction bs arbitrary: x y)
  case (Cons b bs)
  from Cons.prems have "(x XOR word_of_nat b) * 0x01000193 = (y XOR word_of_nat b) * 0x01000193"
    by - (rule Cons.IH, simp only: foldl.simps)
  then have "x XOR word_of_nat b = y XOR word_of_nat b" by (rule fnv_mult_inj)
  then show ?case by (rule xor_right_inj)
qed simp

text \<open>
  Texts whose UTF-8 encodings differ in exactly one byte have different hashes, so two such
  seeds never start a year's shuffle from the same generator state.
\<close>

lemma hashText_one_byte:
  assumes "text_encode s = u @ a # v" "text_encode t = u @ b # v" "a \<noteq> b" "a < 256" "b < 256"
  shows "hashText s \<noteq> hashText t"
proof
  define x :: "32 word" where "x = foldl (\<lambda>h b. (h XOR word_of_nat b) * 0x01000193) 0x811c9dc5 u"
  assume "hashText s = hashText t"
  then have "(x XOR word_of_nat a) * 0x01000193 = (x XOR word_of_nat b) * 0x01000193"
    by - (rule fnv_fold_inj [where bs = v], simp add: hashText_def assms(1,2) x_def)
  then have "x XOR word_of_nat a = x XOR word_of_nat b" by (rule fnv_mult_inj)
  then have "word_of_nat a XOR x = word_of_nat b XOR x" by (simp only: xor.commute)
  then have "(word_of_nat a :: 32 word) = word_of_nat b" by (rule xor_right_inj)
  then have "unat (word_of_nat a :: 32 word) = unat (word_of_nat b :: 32 word)" by simp
  with assms(3-5) show False by (simp add: unsigned_of_nat take_bit_nat_eq_self)
qed

lemma hashText_one_byte_witness: "hashText (js ''2026:a'') \<noteq> hashText (js ''2026:b'')"
  by (rule hashText_one_byte [where u = "[0x32, 0x30, 0x32, 0x36, 0x3a]" and a = "0x61" and v = "[]" and b = "0x62"])
     (simp_all add: js_str text_encode_def utf8_bytes_def is_high_surrogate_def is_low_surrogate_def)


text \<open>The bank of any language code is one of the built-in banks.\<close>

lemma bankLanguageFor_builtin: "bankLanguageFor language \<in> set BUILTIN_QUESTION_LANGUAGES"
proof -
  have found: "l \<in> set xs" if "find P xs = Some l" for P :: "jsstring \<Rightarrow> bool" and xs l
    using that by (induction xs) (auto split: if_splits)
  have "js ''zh-Hant'' \<in> set BUILTIN_QUESTION_LANGUAGES" "js ''zh-Hans'' \<in> set BUILTIN_QUESTION_LANGUAGES"
    "js ''nb'' \<in> set BUILTIN_QUESTION_LANGUAGES" "js ''en'' \<in> set BUILTIN_QUESTION_LANGUAGES"
    by (simp_all add: BUILTIN_QUESTION_LANGUAGES_def)
  with found show ?thesis
    unfolding bankLanguageFor_def Let_def by (auto split: option.split)
qed

lemma quote_lines_quoted:
  assumes "starts_with w (js ''> '')" "0x0a \<notin> set w"
  shows "\<forall>l \<in> set (split_on 0x0a (w @ quote_lines s)). starts_with l (js ''> '')"
  using assms
proof (induction s arbitrary: w rule: quote_lines.induct)
  case (2 c)
  then show ?case
    by (auto simp: split_on_append_sep split_on_notin js_str starts_with_prefix prefix_def)
next
  case (3 c d s)
  have nl: ?case if "quote_lines (c # d # s) = [0x0a, 0x3e, 0x20] @ quote_lines t"
    "\<And>w. starts_with w (js ''> '') \<Longrightarrow> 0x0a \<notin> set w \<Longrightarrow>
      \<forall>l \<in> set (split_on 0x0a (w @ quote_lines t)). starts_with l (js ''> '')" for t
  proof -
    have "w @ [0x0a, 0x3e, 0x20] @ quote_lines t = w @ 0x0a # ([0x3e, 0x20] @ quote_lines t)" by simp
    then have "split_on 0x0a (w @ quote_lines (c # d # s)) = w # split_on 0x0a ([0x3e, 0x20] @ quote_lines t)"
      unfolding that(1) by (simp only: split_on_append_sep [OF 3(5)])
    moreover have "\<forall>l \<in> set (split_on 0x0a ([0x3e, 0x20] @ quote_lines t)). starts_with l (js ''> '')"
      by (rule that(2)) (simp_all add: js_str starts_with_def)
    ultimately show ?thesis using 3(4) by simp
  qed
  show ?case
  proof (cases "c = 0x0a \<or> (c = 0x0d \<and> d = 0x0a)")
    case True
    then show ?thesis
    proof (cases "c = 0x0a")
      case True
      with 3(1) show ?thesis by (intro nl [of "d # s"]) auto
    next
      case False
      with True 3(2) show ?thesis by (intro nl [of s]) auto
    qed
  next
    case False
    with 3(3) [of "w @ [c]"] 3(4,5) show ?thesis
      by (auto simp: starts_with_prefix)
  qed
qed (auto simp: split_on_notin)

text \<open>
  The answer's draft keeps the old draft up to its trailing white space, quotes every line of the
  question, leaves the cursor after the quotation, and ends with the day's tag.
\<close>

lemma daily_answer_draft:
  assumes "buildDailyAnswerDraft content heading dayKey = (draft, cursor)"
  shows "\<exists>before. starts_with before (trim_end content) \<and>
    take cursor draft = before @ js ''> '' @ quote_lines heading @ [0x0a, 0x0a] \<and>
    drop cursor draft = [0x0a, 0x0a] @ js ''#daily/'' @ dayKey \<and>
    (\<forall>l \<in> set (split_on 0x0a (js ''> '' @ quote_lines heading)). starts_with l (js ''> ''))"
proof -
  have quoted: "\<forall>l \<in> set (split_on 0x0a (js ''> '' @ quote_lines heading)). starts_with l (js ''> '')"
    by (rule quote_lines_quoted) (simp_all add: js_str starts_with_def)
  define before where "before = (if trim content \<noteq> [] then trim_end content @ [0x0a, 0x0a] else [])"
  define top where "top = before @ js ''> '' @ quote_lines heading @ [0x0a, 0x0a]"
  have "trim_end content = []" if "trim content = []"
    using that by (simp add: trim_eq_Nil trim_end_eq_Nil)
  then have start: "starts_with before (trim_end content)" by (auto simp: before_def)
  have "js ''#'' @ js ''daily/'' @ dayKey = js ''#daily/'' @ dayKey" by (simp add: js_def)
  then have "draft = top @ ([0x0a, 0x0a] @ js ''#daily/'' @ dayKey)" "cursor = length top"
    using assms by (auto simp: buildDailyAnswerDraft_def before_def top_def dailyQuestionTag_def Let_def)
  then have drop: "drop cursor draft = [0x0a, 0x0a] @ js ''#daily/'' @ dayKey" and "take cursor draft = top"
    by simp_all
  then have take: "take cursor draft = before @ js ''> '' @ quote_lines heading @ [0x0a, 0x0a]"
    by (simp only: top_def)
  show ?thesis by (intro exI [of _ before] conjI start take drop quoted)
qed

lemma daily_answer_draft_witness:
  "\<exists>before. starts_with before (trim_end []) \<and>
    take (snd (buildDailyAnswerDraft [] (js ''Why?'') (js ''d''))) (fst (buildDailyAnswerDraft [] (js ''Why?'') (js ''d''))) =
      before @ js ''> '' @ quote_lines (js ''Why?'') @ [0x0a, 0x0a]"
  using daily_answer_draft [OF surjective_pairing, of "[]" "js ''Why?''" "js ''d''"] by blast

end
