(* ===== verification/Messages.thy ===== *)
theory Messages
  imports Prelude Complex_Main
begin

text \<open>
  The protocol messages the client code works on, as the generated types of
  \<^verbatim>\<open>web/src/types/proto/api/v1\<close> declare them: attachments, relations, polls and memos. An optional
  field is an \<open>option\<close>; a \<^verbatim>\<open>bigint\<close> and a \<^verbatim>\<open>number\<close> that the code only stores or adds are integers, a
  \<^verbatim>\<open>Date\<close> is its number of milliseconds. Fields carry a prefix for their message. A \<^verbatim>\<open>double\<close>
  is the rational it stands for, or none (a NaN or an infinity). Reactions, which the modelled code only passes on, are
  an abstract type.
\<close>

type_synonym date = int

record Timestamp =
  ts_seconds :: int
  ts_nanos :: int

section \<open>Attachments\<close>

datatype MotionMediaFamily = MOTION_MEDIA_FAMILY_UNSPECIFIED | APPLE_LIVE_PHOTO | ANDROID_MOTION_PHOTO

datatype MotionMediaRole = MOTION_MEDIA_ROLE_UNSPECIFIED | STILL | VIDEO | CONTAINER

record MotionMedia =
  mm_family :: MotionMediaFamily
  mm_role :: MotionMediaRole
  mm_groupId :: jsstring
  mm_presentationTimestampUs :: int
  mm_hasEmbeddedVideo :: bool

datatype double = Finite rat | Not_Finite

record MediaCaptureTime =
  ct_localDateTime :: jsstring
  ct_utcOffset :: "jsstring option"

record MediaLocation =
  ml_latitude :: "double option"
  ml_longitude :: "double option"
  ml_altitudeMeters :: "double option"

record PhotoMetadata =
  ph_captureTime :: "MediaCaptureTime option"
  ph_location :: "MediaLocation option"
  ph_sourceExifOrientation :: "int option"
  ph_cameraMake :: jsstring
  ph_cameraModel :: jsstring
  ph_lensModel :: jsstring
  ph_fNumber :: "double option"
  ph_exposureTimeSeconds :: "double option"
  ph_iso :: "int option"
  ph_focalLengthMm :: "double option"

record VideoMetadata =
  vi_durationSeconds :: "double option"

datatype media_details = no_details | photo_details PhotoMetadata | video_details VideoMetadata

record MediaMetadata =
  meta_width :: "int option"
  meta_height :: "int option"
  meta_details :: media_details

record Attachment =
  att_name :: jsstring
  att_createTime :: "Timestamp option"
  att_filename :: jsstring
  att_content :: "nat list"
  att_externalLink :: jsstring
  att_type :: jsstring
  att_size :: int
  att_memo :: "jsstring option"
  att_motionMedia :: "MotionMedia option"
  att_mediaMetadata :: "MediaMetadata option"

text \<open>\<^verbatim>\<open>create(AttachmentSchema, {})\<close>: every field at its protobuf default.\<close>

definition empty_attachment :: Attachment where
  "empty_attachment =
     \<lparr>att_name = [], att_createTime = None, att_filename = [], att_content = [], att_externalLink = [],
      att_type = [], att_size = 0, att_memo = None, att_motionMedia = None, att_mediaMetadata = None\<rparr>"

section \<open>Relations, locations and polls\<close>

datatype MemoRelation_Type = TYPE_UNSPECIFIED | REFERENCE | COMMENT

record MemoRelation_Memo =
  rm_name :: jsstring
  rm_snippet :: jsstring

record MemoRelation =
  rel_memo :: "MemoRelation_Memo option"
  rel_relatedMemo :: "MemoRelation_Memo option"
  rel_type :: MemoRelation_Type

record Location =
  loc_placeholder :: jsstring
  loc_latitude :: rat
  loc_longitude :: rat

datatype VoterType = VOTER_TYPE_UNSPECIFIED | AUTHENTICATED | ANYONE

record PollVoter =
  voter_name :: jsstring
  voter_username :: jsstring
  voter_displayName :: jsstring
  voter_avatarUrl :: jsstring
  voter_selectedOptionIds :: "jsstring list"

record PollOption =
  opt_id :: jsstring
  opt_text :: jsstring
  opt_image :: "Attachment option"
  opt_voteCount :: int

record Poll =
  poll_question :: jsstring
  poll_image :: "Attachment option"
  poll_options :: "PollOption list"
  poll_allowMultiple :: bool
  poll_maxSelections :: int
  poll_voterType :: VoterType
  poll_startTime :: "Timestamp option"
  poll_endTime :: "Timestamp option"
  poll_totalVotes :: int
  poll_selectedOptionIds :: "jsstring list"
  poll_hideResultsUntilVoted :: bool
  poll_showVotersBeforeVoting :: bool
  poll_showVotersAfterVoting :: bool
  poll_resultsHidden :: bool
  poll_voters :: "PollVoter list"
  poll_votersVisible :: bool
  poll_showVoterChoices :: bool
  poll_hasMoreVoters :: bool

section \<open>Memos\<close>

datatype Visibility = VISIBILITY_UNSPECIFIED | PRIVATE | PROTECTED | PUBLIC | SPACE

datatype State = STATE_UNSPECIFIED | NORMAL | ARCHIVED

typedecl Reaction

record Memo_Property =
  prop_hasLink :: bool
  prop_hasTaskList :: bool
  prop_hasCode :: bool
  prop_hasIncompleteTasks :: bool
  prop_title :: jsstring

record Memo =
  memo_name :: jsstring
  memo_state :: State
  memo_creator :: jsstring
  memo_createTime :: "Timestamp option"
  memo_updateTime :: "Timestamp option"
  memo_content :: jsstring
  memo_visibility :: Visibility
  memo_tags :: "jsstring list"
  memo_pinned :: bool
  memo_attachments :: "Attachment list"
  memo_relations :: "MemoRelation list"
  memo_reactions :: "Reaction list"
  memo_property :: "Memo_Property option"
  memo_parent :: "jsstring option"
  memo_snippet :: jsstring
  memo_location :: "Location option"
  memo_category :: "jsstring option"
  memo_hidden :: bool
  memo_draft :: bool
  memo_publishTime :: "Timestamp option"
  memo_quarantined :: bool
  memo_viewCount :: int
  memo_anonymous :: bool
  memo_adminScript :: jsstring
  memo_creatorIsViewer :: bool
  memo_space :: "jsstring option"
  memo_hideTime :: bool
  memo_poll :: "Poll option"
  memo_deleteTime :: "Timestamp option"
  memo_purgeTime :: "Timestamp option"

text \<open>\<^verbatim>\<open>create(MemoSchema, {})\<close>.\<close>

definition empty_memo :: Memo where
  "empty_memo =
     \<lparr>memo_name = [], memo_state = STATE_UNSPECIFIED, memo_creator = [], memo_createTime = None,
      memo_updateTime = None, memo_content = [], memo_visibility = VISIBILITY_UNSPECIFIED, memo_tags = [],
      memo_pinned = False, memo_attachments = [], memo_relations = [], memo_reactions = [],
      memo_property = None, memo_parent = None, memo_snippet = [], memo_location = None,
      memo_category = None, memo_hidden = False, memo_draft = False, memo_publishTime = None,
      memo_quarantined = False, memo_viewCount = 0, memo_anonymous = False, memo_adminScript = [],
      memo_creatorIsViewer = False, memo_space = None, memo_hideTime = False, memo_poll = None,
      memo_deleteTime = None, memo_purgeTime = None\<rparr>"

section \<open>Local files\<close>

text \<open>
  \<^verbatim>\<open>LocalFile\<close> of \<^verbatim>\<open>components/MemoEditor/types/attachment.ts\<close>. The \<^verbatim>\<open>File\<close> is its name, MIME type and
  bytes; the promise \<^verbatim>\<open>mediaMetadata\<close>, which never rejects, is the value it resolves to.
\<close>

datatype file_origin = audio_recording | upload

record js_file =
  file_name :: jsstring
  file_type :: jsstring
  file_bytes :: "nat list"

definition file_size :: "js_file \<Rightarrow> int" where
  "file_size f = int (length (file_bytes f))"

record LocalFile =
  lf_file :: js_file
  lf_previewUrl :: jsstring
  lf_origin :: "file_origin option"
  lf_audioMeta :: "rat option"
  lf_motionMedia :: "MotionMedia option"
  lf_mediaMetadata :: "MediaMetadata option"

section \<open>Truthiness\<close>

text \<open>
  JavaScript reads the empty string as false: \<open>or_undefined s\<close> is \<^verbatim>\<open>s || undefined\<close>, and
  \<open>or_empty s\<close> is \<^verbatim>\<open>s ?? ""\<close>.
\<close>

definition or_undefined :: "jsstring option \<Rightarrow> jsstring option" where
  "or_undefined s = (case s of None \<Rightarrow> None | Some t \<Rightarrow> if t = [] then None else Some t)"

definition or_empty :: "jsstring option \<Rightarrow> jsstring" where
  "or_empty s = (case s of None \<Rightarrow> [] | Some t \<Rightarrow> t)"

lemma or_undefined_None [simp]: "or_undefined None = None"
  by (simp add: or_undefined_def)

lemma or_undefined_Some [simp]: "t \<noteq> [] \<Longrightarrow> or_undefined (Some t) = Some t"
  by (simp add: or_undefined_def)

lemma or_undefined_eq_Some [simp]: "or_undefined s = Some t \<longleftrightarrow> s = Some t \<and> t \<noteq> []"
  by (auto simp: or_undefined_def split: option.splits)

lemma or_undefined_eq_None: "or_undefined s = None \<longleftrightarrow> s = None \<or> s = Some []"
  by (auto simp: or_undefined_def split: option.splits)

lemma or_empty_simps [simp]: "or_empty None = []" "or_empty (Some t) = t"
  by (simp_all add: or_empty_def)

lemma or_empty_or_undefined [simp]: "or_empty (or_undefined s) = or_empty s"
  by (auto simp: or_empty_def or_undefined_def split: option.splits)

end
