(* ===== verification/RichText.thy ===== *)
theory RichText
  imports Prelude Complex_Main
begin

text \<open>
  The rich-text markers of memo bodies (\<^verbatim>\<open>utils/memo-rich-text.ts\<close>): the normal form of colours and sizes,
  the markers around coloured, resized and aligned text, and the blank lines that set an alignment marker
  apart before the Markdown parser reads it. An alpha value is the exact decimal (the language rounds one
  with more than fifteen significant digits).
\<close>

datatype MemoTextAlignment = align_left | align_center | align_right

definition isMemoTextAlignment :: "jsstring \<Rightarrow> bool" where
  "isMemoTextAlignment value \<longleftrightarrow> value = js ''left'' \<or> value = js ''center'' \<or> value = js ''right''"

section \<open>Reading a text from the left\<close>

text \<open>\<^verbatim>\<open>\s*\<close>; a letter under the flag \<^verbatim>\<open>i\<close>; one unit; \<^verbatim>\<open>(\d{1,3})\<close> before something that is no digit.\<close>

abbreviation skip_js_space :: "jsstring \<Rightarrow> jsstring" where
  "skip_js_space \<equiv> dropWhile is_js_space"

definition same_letter :: "nat \<Rightarrow> nat \<Rightarrow> bool" where
  "same_letter lower c \<longleftrightarrow> c = lower \<or> (is_lower lower \<and> c + 0x20 = lower)"

fun read_word :: "jsstring \<Rightarrow> jsstring \<Rightarrow> jsstring option" where
  "read_word [] t = Some t"
| "read_word (w # ws) [] = None"
| "read_word (w # ws) (c # t) = (if same_letter w c then read_word ws t else None)"

definition read_unit :: "nat \<Rightarrow> jsstring \<Rightarrow> jsstring option" where
  "read_unit u t = (case t of [] \<Rightarrow> None | c # rest \<Rightarrow> if c = u then Some rest else None)"

definition read_channel :: "jsstring \<Rightarrow> (nat \<times> jsstring) option" where
  "read_channel t =
     (let digits = takeWhile is_digit t in
      if 1 \<le> length digits \<and> length digits \<le> 3 then Some (digits_value digits, drop (length digits) t) else None)"

section \<open>Colours\<close>

text \<open>\<^verbatim>\<open>(0(?:\.\d+)?|1(?:\.0+)?)\<close>: the unit before the point and the digits after it.\<close>

type_synonym alpha = "nat \<times> jsstring"

definition alpha_value :: "alpha \<Rightarrow> rat" where
  "alpha_value = (\<lambda>(unit, fraction). of_nat unit + of_nat (digits_value fraction) / 10 ^ length fraction)"

definition read_alpha :: "jsstring \<Rightarrow> (alpha \<times> jsstring) option" where
  "read_alpha t =
     (case t of
        [] \<Rightarrow> None
      | c # rest \<Rightarrow>
          let class = (if c = 0x30 then is_digit else (\<lambda>d. d = 0x30));
              fraction = (case rest of [] \<Rightarrow> [] | p # r \<Rightarrow> if p = 0x2e then takeWhile class r else [])
          in if c = 0x30 \<or> c = 0x31
             then Some ((c - 0x30, fraction), if fraction = [] then rest else drop (length fraction + 1) rest)
             else None)"

text \<open>The common part of \<^verbatim>\<open>RGBA_PATTERN\<close> and \<^verbatim>\<open>RGBA_COMPONENTS_PATTERN\<close>, up to a separator or the end.\<close>

definition read_separated :: "jsstring \<Rightarrow> jsstring option" where
  "read_separated t = map_option skip_js_space (read_unit 0x2c (skip_js_space t))"

definition read_components :: "jsstring \<Rightarrow> ((nat \<times> nat \<times> nat \<times> alpha option) \<times> jsstring) option" where
  "read_components t =
     Option.bind (read_channel (skip_js_space t)) (\<lambda>(red, t1).
     Option.bind (read_separated t1) (\<lambda>t2.
     Option.bind (read_channel t2) (\<lambda>(green, t3).
     Option.bind (read_separated t3) (\<lambda>t4.
     Option.bind (read_channel t4) (\<lambda>(blue, t5).
       case read_separated t5 of
         None \<Rightarrow> Some ((red, green, blue, None), skip_js_space t5)
       | Some t6 \<Rightarrow> map_option (\<lambda>(a, t7). ((red, green, blue, Some a), skip_js_space t7)) (read_alpha t6))))))"

definition RGBA_PATTERN :: "jsstring \<Rightarrow> (nat \<times> nat \<times> nat \<times> alpha option) option" where
  "RGBA_PATTERN input =
     Option.bind (read_word (js ''rgb'') input) (\<lambda>t.
     Option.bind (read_unit 0x28 (case read_word (js ''a'') t of Some t' \<Rightarrow> t' | None \<Rightarrow> t)) (\<lambda>t.
     Option.bind (read_components t) (\<lambda>(components, rest). if rest = [0x29] then Some components else None)))"

definition RGBA_COMPONENTS_PATTERN :: "jsstring \<Rightarrow> (nat \<times> nat \<times> nat \<times> alpha option) option" where
  "RGBA_COMPONENTS_PATTERN input =
     Option.bind (read_components input) (\<lambda>((red, green, blue, a), rest).
       if rest = [] \<and> a \<noteq> None then Some (red, green, blue, a) else None)"

text \<open>
  \<^verbatim>\<open>String(alpha)\<close> for the number an alpha text stands for: the shortest decimal, in exponent form below
  \<open>10 ^ -6\<close>.
\<close>

definition strip_zeros :: "jsstring \<Rightarrow> jsstring" where
  "strip_zeros fraction = rev (dropWhile (\<lambda>d. d = 0x30) (rev fraction))"

definition alpha_text :: "alpha \<Rightarrow> jsstring" where
  "alpha_text = (\<lambda>(unit, fraction).
     (let digits = strip_zeros fraction; zeros = length (takeWhile (\<lambda>d. d = 0x30) digits); significant = drop zeros digits in
      if digits = [] then nat_digits unit
      else if unit \<noteq> 0 \<or> zeros \<le> 5 then nat_digits unit @ [0x2e] @ digits
      else [hd significant] @ (if tl significant = [] then [] else 0x2e # tl significant) @ js ''e-'' @ nat_digits (zeros + 1)))"

definition normalizeMemoTextColor :: "jsstring option \<Rightarrow> jsstring option" where
  "normalizeMemoTextColor value =
     (let input = (case value of None \<Rightarrow> [] | Some v \<Rightarrow> trim v) in
      if input = [] then None
      else
        case (case RGBA_PATTERN input of Some components \<Rightarrow> Some components | None \<Rightarrow> RGBA_COMPONENTS_PATTERN input) of
          None \<Rightarrow> None
        | Some (red, green, blue, a) \<Rightarrow>
            let alpha = (case a of None \<Rightarrow> (1, []) | Some a \<Rightarrow> a) in
            if (\<exists>channel \<in> set [red, green, blue]. channel > 255) then None
            else if alpha_value alpha < 0 \<or> alpha_value alpha > 1 then None
            else Some (js ''rgba('' @ nat_digits red @ js '', '' @ nat_digits green @ js '', '' @ nat_digits blue @ js '', '' @
              alpha_text alpha @ js '')''))"

section \<open>Sizes and markers\<close>

definition FONT_SIZE_PATTERN :: "jsstring \<Rightarrow> jsstring option" where
  "FONT_SIZE_PATTERN t =
     (let digits = takeWhile is_digit t; rest = drop (length digits) t in
      if 1 \<le> length digits \<and> length digits \<le> 3 \<and> (rest = [] \<or> read_word (js ''px'') rest = Some [])
      then Some digits else None)"

definition normalizeMemoTextSize :: "jsstring option \<Rightarrow> jsstring option" where
  "normalizeMemoTextSize value =
     (case FONT_SIZE_PATTERN (trim (case value of None \<Rightarrow> [] | Some v \<Rightarrow> v)) of
        None \<Rightarrow> None
      | Some digits \<Rightarrow>
          let pixels = digits_value digits in if pixels < 8 \<or> pixels > 96 then None else Some (nat_digits pixels @ js ''px''))"

fun alignment_word :: "MemoTextAlignment \<Rightarrow> jsstring" where
  "alignment_word align_left = js ''left''"
| "alignment_word align_center = js ''center''"
| "alignment_word align_right = js ''right''"

definition memoAlignmentOpenMarker :: "MemoTextAlignment \<Rightarrow> jsstring" where
  "memoAlignmentOpenMarker alignment = js '':::align '' @ alignment_word alignment"

definition MEMO_ALIGNMENT_CLOSE_MARKER :: jsstring where "MEMO_ALIGNMENT_CLOSE_MARKER = js '':::''"

definition memoColorOpenMarker :: "jsstring \<Rightarrow> jsstring" where
  "memoColorOpenMarker color = js ''[color='' @ color @ js '']''"

definition MEMO_COLOR_CLOSE_MARKER :: jsstring where "MEMO_COLOR_CLOSE_MARKER = js ''[/color]''"

definition memoSizeOpenMarker :: "jsstring \<Rightarrow> jsstring" where
  "memoSizeOpenMarker pixels = js ''[size='' @ pixels @ js '']''"

definition MEMO_SIZE_CLOSE_MARKER :: jsstring where "MEMO_SIZE_CLOSE_MARKER = js ''[/size]''"

definition MEMO_SPOILER_MARKER :: jsstring where "MEMO_SPOILER_MARKER = js ''||''"

section \<open>Alignment blocks\<close>

definition is_blank_unit :: "nat \<Rightarrow> bool" where
  "is_blank_unit c \<longleftrightarrow> c = 0x20 \<or> c = 0x09"

definition ALIGNMENT_OPEN_LINE :: "jsstring \<Rightarrow> bool" where
  "ALIGNMENT_OPEN_LINE line =
     (case read_word (js '':::align'') (dropWhile is_blank_unit line) of
        None \<Rightarrow> False
      | Some t \<Rightarrow>
          t \<noteq> [] \<and> is_blank_unit (hd t) \<and>
          (case read_word (js ''center'') (dropWhile is_blank_unit t) of
             Some u \<Rightarrow> list_all is_blank_unit u
           | None \<Rightarrow>
               (case read_word (js ''right'') (dropWhile is_blank_unit t) of
                  Some u \<Rightarrow> list_all is_blank_unit u
                | None \<Rightarrow> False)))"

definition ALIGNMENT_CLOSE_LINE :: "jsstring \<Rightarrow> bool" where
  "ALIGNMENT_CLOSE_LINE line =
     (case read_word (js '':::'') (dropWhile is_blank_unit line) of None \<Rightarrow> False | Some t \<Rightarrow> list_all is_blank_unit t)"

record MarkdownFence =
  mf_character :: nat
  mf_length :: nat

text \<open>\<^verbatim>\<open>FENCE_LINE\<close>: the marker and the rest of the line after the match.\<close>

definition FENCE_LINE :: "jsstring \<Rightarrow> (jsstring \<times> jsstring) option" where
  "FENCE_LINE line =
     (let indent = length (takeWhile is_blank_unit line); t = drop indent line in
      if indent \<le> 3 \<and> t \<noteq> [] \<and> (hd t = 0x60 \<or> hd t = 0x7e)
      then let marker = takeWhile (\<lambda>c. c = hd t) t in
        if 3 \<le> length marker then Some (marker, drop (length marker) t) else None
      else None)"

definition fence_after :: "jsstring \<Rightarrow> jsstring \<Rightarrow> MarkdownFence option \<Rightarrow> MarkdownFence option" where
  "fence_after marker rest fence =
     (case fence of
        None \<Rightarrow> Some \<lparr>mf_character = hd marker, mf_length = length marker\<rparr>
      | Some f \<Rightarrow>
          if mf_character f = hd marker \<and> length marker \<ge> mf_length f \<and> list_all is_blank_unit rest then None else Some f)"

definition appendBlankBoundary :: "jsstring list \<Rightarrow> jsstring list" where
  "appendBlankBoundary output = (if output \<noteq> [] \<and> last output \<noteq> [] then output @ [[]] else output)"

fun alignment_loop :: "MarkdownFence option \<Rightarrow> bool \<Rightarrow> jsstring list \<Rightarrow> jsstring list \<Rightarrow> jsstring list" where
  "alignment_loop fence alignmentOpen output [] = output"
| "alignment_loop fence alignmentOpen output (line # lines) =
     (case FENCE_LINE line of
        Some (marker, rest) \<Rightarrow> alignment_loop (fence_after marker rest fence) alignmentOpen (output @ [line]) lines
      | None \<Rightarrow>
          if fence = None \<and> \<not> alignmentOpen \<and> ALIGNMENT_OPEN_LINE line
          then alignment_loop fence True (appendBlankBoundary output @ [line, []]) lines
          else if fence = None \<and> alignmentOpen \<and> ALIGNMENT_CLOSE_LINE line
          then alignment_loop fence False (appendBlankBoundary output @ [line, []]) lines
          else alignment_loop fence alignmentOpen (output @ [line]) lines)"

text \<open>\<^verbatim>\<open>value.replace(/\r\n?/g, "\n")\<close>\<close>

fun plain_newlines :: "jsstring \<Rightarrow> jsstring" where
  "plain_newlines [] = []"
| "plain_newlines [c] = [if c = 0x0d then 0x0a else c]"
| "plain_newlines (c # d # t) =
     (if c = 0x0d then 0x0a # plain_newlines (if d = 0x0a then t else d # t) else c # plain_newlines (d # t))"

definition normalizeMemoAlignmentBlocks :: "jsstring \<Rightarrow> jsstring" where
  "normalizeMemoAlignmentBlocks value =
     join_with [0x0a] (alignment_loop None False [] (split_on 0x0a (plain_newlines value)))"

section \<open>Excerpts\<close>

text \<open>
  \<^verbatim>\<open>value.replace(/re/g, text)\<close> for a pattern that matches no empty text, given as the length of its match at
  the start of a text.
\<close>

function replace_all :: "(jsstring \<Rightarrow> nat option) \<Rightarrow> jsstring \<Rightarrow> jsstring \<Rightarrow> jsstring" where
  "replace_all pattern new [] = []"
| "replace_all pattern new (c # t) =
     (case pattern (c # t) of
        Some (Suc n) \<Rightarrow> new @ replace_all pattern new (drop n t)
      | _ \<Rightarrow> c # replace_all pattern new t)"
  by pat_completeness auto
termination by (relation "measure (\<lambda>(_, _, t). length t)") auto

text \<open>\<^verbatim>\<open>:::align\s+(?:center|right)|:::\<close>, \<^verbatim>\<open>\[(?:color|size)=[^\]\r\n]+\]\<close> and \<^verbatim>\<open>\[\/(?:color|size)\]\<close>.\<close>

definition read_either :: "jsstring \<Rightarrow> jsstring \<Rightarrow> jsstring \<Rightarrow> jsstring option" where
  "read_either v w t = (case read_word v t of Some u \<Rightarrow> Some u | None \<Rightarrow> read_word w t)"

definition matched_length :: "jsstring \<Rightarrow> jsstring option \<Rightarrow> nat option" where
  "matched_length t rest = map_option (\<lambda>u. length t - length u) rest"

definition alignment_marker :: "jsstring \<Rightarrow> nat option" where
  "alignment_marker t =
     (case Option.bind (read_word (js '':::align'') t) (\<lambda>u.
        if u \<noteq> [] \<and> is_js_space (hd u) then read_either (js ''center'') (js ''right'') (skip_js_space u) else None) of
        Some u \<Rightarrow> matched_length t (Some u)
      | None \<Rightarrow> matched_length t (read_word (js '':::'') t))"

definition opening_marker :: "jsstring \<Rightarrow> nat option" where
  "opening_marker t =
     matched_length t (Option.bind (read_either (js ''[color='') (js ''[size='') t) (\<lambda>u.
       let content = takeWhile (\<lambda>c. c \<noteq> 0x5d \<and> c \<noteq> 0x0d \<and> c \<noteq> 0x0a) u in
       if content = [] then None else read_unit 0x5d (drop (length content) u)))"

definition closing_marker :: "jsstring \<Rightarrow> nat option" where
  "closing_marker t = matched_length t (read_either (js ''[/color]'') (js ''[/size]'') t)"

definition stripMemoRichTextMarkers :: "jsstring \<Rightarrow> jsstring" where
  "stripMemoRichTextMarkers value =
     replace_all closing_marker [] (replace_all opening_marker [] (replace_all alignment_marker [0x20] value))"

section \<open>Alignment markers are set apart\<close>

text \<open>Which lines of a text the loop takes for alignment markers.\<close>

fun marker_lines :: "MarkdownFence option \<Rightarrow> bool \<Rightarrow> jsstring list \<Rightarrow> bool list" where
  "marker_lines fence opened [] = []"
| "marker_lines fence opened (line # lines) =
     (case FENCE_LINE line of
        Some (marker, rest) \<Rightarrow> False # marker_lines (fence_after marker rest fence) opened lines
      | None \<Rightarrow>
          if fence = None \<and> (if opened then ALIGNMENT_CLOSE_LINE line else ALIGNMENT_OPEN_LINE line)
          then True # marker_lines fence (\<not> opened) lines else False # marker_lines fence opened lines)"

text \<open>What the loop appends, given whether the output so far ends at a boundary.\<close>

fun set_apart :: "bool \<Rightarrow> MarkdownFence option \<Rightarrow> bool \<Rightarrow> jsstring list \<Rightarrow> jsstring list" where
  "set_apart clear fence opened [] = []"
| "set_apart clear fence opened (line # lines) =
     (case FENCE_LINE line of
        Some (marker, rest) \<Rightarrow> line # set_apart False (fence_after marker rest fence) opened lines
      | None \<Rightarrow>
          if fence = None \<and> (if opened then ALIGNMENT_CLOSE_LINE line else ALIGNMENT_OPEN_LINE line)
          then (if clear then [] else [[]]) @ [line, []] @ set_apart True fence (\<not> opened) lines
          else line # set_apart (line = []) fence opened lines)"

lemma blank_line [simp]: "FENCE_LINE [] = None" "\<not> ALIGNMENT_OPEN_LINE []" "\<not> ALIGNMENT_CLOSE_LINE []"
  by (simp_all add: FENCE_LINE_def ALIGNMENT_OPEN_LINE_def ALIGNMENT_CLOSE_LINE_def js_str)

lemma fence_line_nonempty: "FENCE_LINE line = Some r \<Longrightarrow> line \<noteq> []"
  by auto

lemma alignment_loop_appends:
  "alignment_loop fence opened done_lines lines =
     done_lines @ set_apart (done_lines = [] \<or> last done_lines = []) fence opened lines"
  by (induction fence opened done_lines lines rule: alignment_loop.induct)
    (auto simp: appendBlankBoundary_def fence_line_nonempty split: option.splits if_splits)

lemma set_apart_lines: "filter (\<lambda>l. l \<noteq> []) (set_apart clear fence opened lines) = filter (\<lambda>l. l \<noteq> []) lines"
  by (induction clear fence opened lines rule: set_apart.induct) (auto split: option.splits if_splits)

lemma set_apart_markers:
  "map fst (filter snd (zip (set_apart clear fence opened lines) (marker_lines fence opened (set_apart clear fence opened lines)))) =
   map fst (filter snd (zip lines (marker_lines fence opened lines)))"
proof (induction clear fence opened lines rule: set_apart.induct)
  case (2 clear fence opened line lines)
  show ?case
  proof (cases "FENCE_LINE line")
    case None
    show ?thesis
    proof (cases "fence = None \<and> (if opened then ALIGNMENT_CLOSE_LINE line else ALIGNMENT_OPEN_LINE line)")
      case True
      with 2(1) [OF None True] None show ?thesis by (cases clear; cases opened) simp_all
    next
      case False
      with 2(2) [OF None False] None show ?thesis by (cases fence; cases opened) simp_all
    qed
  next
    case (Some r)
    with 2(3) [OF Some, of "fst r" "snd r"] show ?thesis by (simp add: case_prod_beta)
  qed
qed simp

lemma length_marker_lines [simp]: "length (marker_lines fence opened lines) = length lines"
  by (induction fence opened lines rule: marker_lines.induct) (auto split: option.splits)

lemma set_apart_unmarked: "True \<notin> set (marker_lines fence opened lines) \<Longrightarrow> set_apart clear fence opened lines = lines"
  by (induction clear fence opened lines rule: set_apart.induct) (auto split: option.splits if_splits)

text \<open>\<open>surrounded\<close>: the line before each marker, if there is one, and the line after it are blank.\<close>

fun surrounded :: "bool \<Rightarrow> bool list \<Rightarrow> jsstring list \<Rightarrow> bool" where
  "surrounded clear (m # ms) (line # lines) =
     ((m \<longrightarrow> clear \<and> lines \<noteq> [] \<and> hd lines = []) \<and> surrounded (line = []) ms lines)"
| "surrounded clear ms lines = True"

lemma surrounded_weaken: "surrounded False ms lines \<Longrightarrow> surrounded clear ms lines"
  by (cases ms; cases lines) auto

lemma set_apart_surrounded: "surrounded clear (marker_lines fence opened (set_apart clear fence opened lines)) (set_apart clear fence opened lines)"
  by (induction clear fence opened lines rule: set_apart.induct) (auto simp: fence_line_nonempty split: option.splits if_splits)

lemma surrounded_nth:
  "surrounded clear ms lines \<Longrightarrow> i < length lines \<Longrightarrow> length ms = length lines \<Longrightarrow> ms ! i \<Longrightarrow>
   (if i = 0 then clear else lines ! (i - 1) = []) \<and> Suc i < length lines \<and> lines ! Suc i = []"
proof (induction clear ms lines arbitrary: i rule: surrounded.induct)
  case (1 clear m ms line lines)
  show ?case
  proof (cases i)
    case 0
    with 1 show ?thesis by (auto simp: hd_conv_nth)
  next
    case (Suc j)
    with 1(1) [of j] 1(2-5) show ?thesis by (cases j) auto
  qed
qed auto

lemma set_apart_no_newline: "\<forall>w \<in> set lines. sep \<notin> set w \<Longrightarrow> \<forall>w \<in> set (set_apart clear fence opened lines). sep \<notin> set w"
  by (induction clear fence opened lines rule: set_apart.induct) (auto split: option.splits if_splits)

lemma set_apart_neq_Nil: "lines \<noteq> [] \<Longrightarrow> set_apart clear fence opened lines \<noteq> []"
  by (cases lines) (auto split: option.splits)

text \<open>
  Alignment blocks. Read line by line, the normalized text has every line of the source that is not blank,
  in order, and nothing else but blank lines; the lines taken for alignment markers are the same as in the
  source; each of them stands between blank lines (the start of the text counts as one); and a text without a
  marker outside a code fence is left as it is.
\<close>

lemma alignment_markers_are_set_apart:
  "let lines = split_on 0x0a (plain_newlines value);
       out = split_on 0x0a (normalizeMemoAlignmentBlocks value);
       marked = marker_lines None False out
   in filter (\<lambda>l. l \<noteq> []) out = filter (\<lambda>l. l \<noteq> []) lines \<and>
      map fst (filter snd (zip out marked)) = map fst (filter snd (zip lines (marker_lines None False lines))) \<and>
      (\<forall>i < length out. marked ! i \<longrightarrow>
         (i = 0 \<or> out ! (i - 1) = []) \<and> Suc i < length out \<and> out ! Suc i = []) \<and>
      (True \<notin> set (marker_lines None False lines) \<longrightarrow> normalizeMemoAlignmentBlocks value = plain_newlines value)"
proof -
  define lines where "lines = split_on 0x0a (plain_newlines value)"
  define out where "out = set_apart True None False lines"
  have loop: "alignment_loop None False [] lines = out"
    by (simp add: alignment_loop_appends out_def)
  have "\<forall>w \<in> set lines. 0x0a \<notin> set w" using split_on_no_sep by (auto simp: lines_def)
  then have "split_on 0x0a (normalizeMemoAlignmentBlocks value) = out"
    unfolding normalizeMemoAlignmentBlocks_def lines_def [symmetric] loop out_def
    by (intro split_join_on set_apart_no_newline set_apart_neq_Nil) (simp add: lines_def)
  moreover have "True \<notin> set (marker_lines None False lines) \<longrightarrow> normalizeMemoAlignmentBlocks value = plain_newlines value"
    unfolding normalizeMemoAlignmentBlocks_def lines_def [symmetric] loop out_def
    by (auto simp: set_apart_unmarked) (simp add: lines_def join_split_on)
  moreover have "(i = 0 \<or> out ! (i - 1) = []) \<and> Suc i < length out \<and> out ! Suc i = []"
    if "i < length out" "marker_lines None False out ! i" for i
    using surrounded_nth [OF set_apart_surrounded [of True None False lines, folded out_def] that(1) _ that(2)]
    by (cases "i = 0") simp_all
  ultimately show ?thesis
    unfolding Let_def lines_def [symmetric] by (simp add: out_def set_apart_lines set_apart_markers)
qed

text \<open>A marker between two lines of text.\<close>

lemma alignment_markers_are_set_apart_witness:
  "split_on 0x0a (normalizeMemoAlignmentBlocks [0x61, 0x0a, 0x3a, 0x3a, 0x3a]) = [[0x61], [0x3a, 0x3a, 0x3a]] \<and>
   filter (\<lambda>l. l \<noteq> []) (split_on 0x0a (normalizeMemoAlignmentBlocks [0x61, 0x0a, 0x3a, 0x3a, 0x3a])) = [[0x61], [0x3a, 0x3a, 0x3a]]"
proof -
  have "split_on 0x0a (plain_newlines [0x61, 0x0a, 0x3a, 0x3a, 0x3a]) = [[0x61], [0x3a, 0x3a, 0x3a]]"
    and "marker_lines None False [[0x61], [0x3a, 0x3a, 0x3a]] = [False, False]"
    by (simp_all add: FENCE_LINE_def ALIGNMENT_OPEN_LINE_def is_blank_unit_def same_letter_def js_str)
  then show ?thesis
    using alignment_markers_are_set_apart [of "[0x61, 0x0a, 0x3a, 0x3a, 0x3a]"] by (simp add: Let_def)
qed

section \<open>Normal forms are stable\<close>

lemma skip_no_space: "t = [] \<or> \<not> is_js_space (hd t) \<Longrightarrow> skip_js_space t = t"
  by (cases t) auto

lemma digits_value_less: "digits_value ds < 10 ^ length ds" if "\<forall>d \<in> set ds. is_digit d" for ds
  using that
proof (induction ds rule: rev_induct)
  case (snoc d ds)
  then have "d - 0x30 \<le> 9" "digits_value ds < 10 ^ length ds" by (auto simp: is_digit_def)
  then show ?case by (simp add: digits_value_def)
qed (simp add: digits_value_def)

lemma nat_digits_small: "n < 10 \<Longrightarrow> nat_digits n = [0x30 + n]"
  by (simp add: nat_digits.simps)

lemma length_nat_digits: "n < 1000 \<Longrightarrow> 1 \<le> length (nat_digits n) \<and> length (nat_digits n) \<le> 3"
  by (simp add: nat_digits.simps)

lemma take_nat_digits:
  "t = [] \<or> \<not> is_digit (hd t) \<Longrightarrow> takeWhile is_digit (nat_digits n @ t) = nat_digits n"
  using nat_digits_digit by (cases t) (auto simp: takeWhile_append)

lemma read_channel_digits:
  assumes "n < 1000" "t = [] \<or> \<not> is_digit (hd t)"
  shows "read_channel (nat_digits n @ t) = Some (n, t)"
  using take_nat_digits [OF assms(2)] length_nat_digits [OF assms(1)] by (simp add: read_channel_def digits_value_nat_digits)

lemma nat_digits_no_space: "\<not> is_js_space (hd (nat_digits n))"
  using nat_digits_digit [of "hd (nat_digits n)" n] by (auto simp: is_digit_def is_js_space_def)

lemma skip_nat_digits: "skip_js_space (nat_digits n @ t) = nat_digits n @ t"
  using nat_digits_no_space [of n] by (intro skip_no_space) simp

lemma read_separated_comma:
  "t = [] \<or> \<not> is_js_space (hd t) \<Longrightarrow> read_separated (0x2c # 0x20 # t) = Some t"
  by (simp add: read_separated_def read_unit_def is_js_space_def skip_no_space)

text \<open>The alpha texts the patterns accept.\<close>

definition alpha_ok :: "alpha \<Rightarrow> bool" where
  "alpha_ok = (\<lambda>(unit, fraction). (unit = 0 \<and> (\<forall>d \<in> set fraction. is_digit d)) \<or> (unit = 1 \<and> (\<forall>d \<in> set fraction. d = 0x30)))"

lemma read_alpha_ok: "read_alpha t = Some (a, rest) \<Longrightarrow> alpha_ok a"
  by (cases t) (auto simp: read_alpha_def alpha_ok_def Let_def split: list.splits if_splits dest: set_takeWhileD)

lemma strip_zeros_idem [simp]: "strip_zeros (strip_zeros f) = strip_zeros f"
  by (simp add: strip_zeros_def dropWhile_idem)

lemma strip_zeros_all: "\<forall>d \<in> set f. d = 0x30 \<Longrightarrow> strip_zeros f = []"
  by (simp add: strip_zeros_def)

lemma set_strip_zeros: "set (strip_zeros f) \<subseteq> set f"
  unfolding strip_zeros_def using set_dropWhileD by fastforce

lemma alpha_text_reads:
  assumes "alpha_ok a" "0x65 \<notin> set (alpha_text a)"
  shows "alpha_text a \<noteq> [] \<and> is_digit (hd (alpha_text a)) \<and>
    (\<exists>b. read_alpha (alpha_text a @ 0x29 # t) = Some (b, 0x29 # t) \<and> alpha_ok b \<and> alpha_text b = alpha_text a)"
proof (cases a)
  case (Pair u f)
  have digits: "\<forall>d \<in> set (strip_zeros f). is_digit d" if "u = 0"
    using assms(1) Pair set_strip_zeros that by (fastforce simp: alpha_ok_def)
  consider (whole) "strip_zeros f = []" "u = 0 \<or> u = 1" | (fraction) "strip_zeros f \<noteq> []" "u = 0"
    using assms(1) Pair strip_zeros_all by (fastforce simp: alpha_ok_def)
  then show ?thesis
  proof cases
    case whole
    then have "alpha_text a = [0x30 + u]" by (auto simp: alpha_text_def Pair nat_digits_small)
    then show ?thesis using whole(2)
      by (auto simp: read_alpha_def alpha_ok_def alpha_text_def strip_zeros_def nat_digits_small is_digit_def intro!: exI [of _ u] exI [of _ "[]"])
  next
    case fraction
    then have shape: "alpha_text a = [0x30, 0x2e] @ strip_zeros f"
      using assms(2) by (auto simp: alpha_text_def Pair Let_def nat_digits_small js_str split: if_splits)
    have "takeWhile is_digit (strip_zeros f @ 0x29 # t) = strip_zeros f"
      using digits [OF fraction(2)] by (simp add: takeWhile_append is_digit_def)
    then have "read_alpha (alpha_text a @ 0x29 # t) = Some ((0, strip_zeros f), 0x29 # t)"
      using fraction(1) by (simp add: shape read_alpha_def)
    moreover have "alpha_text (0, strip_zeros f) = alpha_text a"
      using fraction(2) by (simp add: alpha_text_def Pair)
    ultimately show ?thesis using digits [OF fraction(2)] by (auto simp: alpha_ok_def shape is_digit_def)
  qed
qed

lemma alpha_text_units:
  assumes "alpha_ok a" "0x65 \<notin> set (alpha_text a)"
  shows "\<forall>x \<in> set (alpha_text a). x = 0x2e \<or> is_digit x"
proof (cases a)
  case (Pair u f)
  have "\<forall>d \<in> set f. is_digit d" using assms(1) by (auto simp: Pair alpha_ok_def is_digit_def)
  then have "\<forall>d \<in> set (strip_zeros f). is_digit d" using set_strip_zeros by blast
  then show ?thesis
    using assms(2) nat_digits_digit by (auto simp: Pair alpha_text_def Let_def js_str split: if_splits)
qed

lemma alpha_value_bounds: "alpha_ok a \<Longrightarrow> 0 \<le> alpha_value a \<and> alpha_value a \<le> 1"
proof (cases a)
  case (Pair u f)
  assume ok: "alpha_ok a"
  consider "u = 0" "\<forall>d \<in> set f. is_digit d" | "u = 1" "\<forall>d \<in> set f. d = 0x30"
    using ok Pair by (auto simp: alpha_ok_def)
  then show ?thesis
  proof cases
    case 1
    have "rat_of_nat (digits_value f) \<le> rat_of_nat (10 ^ length f)"
      using digits_value_less [OF 1(2)] by (intro of_nat_mono) simp
    then show ?thesis by (simp add: alpha_value_def Pair 1 divide_le_eq_1)
  next
    case 2
    then have "digits_value f = 0" by (induction f rule: rev_induct) (auto simp: digits_value_def)
    then show ?thesis by (simp add: alpha_value_def Pair 2)
  qed
qed

text \<open>The parts of a colour that was accepted, and its text.\<close>

definition color_text :: "nat \<Rightarrow> nat \<Rightarrow> nat \<Rightarrow> alpha \<Rightarrow> jsstring" where
  "color_text red green blue a =
     js ''rgba('' @ nat_digits red @ js '', '' @ nat_digits green @ js '', '' @ nat_digits blue @ js '', '' @ alpha_text a @ js '')''"

lemma bind_Some: "Option.bind x f = Some y \<longleftrightarrow> (\<exists>z. x = Some z \<and> f z = Some y)"
  by (cases x) auto

lemma read_components_alpha:
  assumes "read_components t = Some ((red, green, blue, Some a), rest)"
  shows "alpha_ok a"
  using assms by (auto simp: read_components_def bind_Some split: option.splits dest: read_alpha_ok)

lemma normal_color_parts:
  assumes "normalizeMemoTextColor value = Some c"
  obtains red green blue a where "red \<le> 255" "green \<le> 255" "blue \<le> 255" "alpha_ok a" "c = color_text red green blue a"
proof -
  obtain red green blue oa where p:
      "(case RGBA_PATTERN (trim (the value)) of Some x \<Rightarrow> Some x | None \<Rightarrow> RGBA_COMPONENTS_PATTERN (trim (the value))) = Some (red, green, blue, oa)"
      "red \<le> 255" "green \<le> 255" "blue \<le> 255" "c = color_text red green blue (case oa of None \<Rightarrow> (1, []) | Some a \<Rightarrow> a)"
    using assms by (auto simp: normalizeMemoTextColor_def color_text_def Let_def split: option.splits if_splits)
  have "alpha_ok (case oa of None \<Rightarrow> (1, []) | Some a \<Rightarrow> a)"
    using p(1) by (auto simp: RGBA_PATTERN_def RGBA_COMPONENTS_PATTERN_def bind_Some alpha_ok_def
        split: option.splits if_splits dest!: read_components_alpha)
  with p show ?thesis using that by blast
qed

lemma RGBA_color_text:
  assumes "red \<le> 255" "green \<le> 255" "blue \<le> 255" "read_alpha (alpha_text a @ [0x29]) = Some (b, [0x29])"
    "alpha_text a \<noteq> []" "\<not> is_js_space (hd (alpha_text a))"
  shows "RGBA_PATTERN (color_text red green blue a) = Some (red, green, blue, Some b)"
proof -
  let ?tail = "alpha_text a @ [0x29]"
  have hd_tail: "?tail \<noteq> [] \<and> \<not> is_js_space (hd ?tail)" using assms(5,6) by simp
  have sep: "\<not> is_digit 0x2c" "\<not> is_js_space 0x29" by (simp_all add: is_digit_def is_js_space_def)
  note simps = read_channel_digits read_separated_comma sep nat_digits_no_space skip_nat_digits
  have "read_components (nat_digits red @ 0x2c # 0x20 # nat_digits green @ 0x2c # 0x20 # nat_digits blue @ 0x2c # 0x20 # ?tail) =
      Some ((red, green, blue, Some b), [0x29])"
    using assms(1-4) hd_tail by (simp add: read_components_def simps)
  moreover have "color_text red green blue a =
      [0x72, 0x67, 0x62, 0x61, 0x28] @ nat_digits red @ 0x2c # 0x20 # nat_digits green @ 0x2c # 0x20 # nat_digits blue @ 0x2c # 0x20 # ?tail"
    by (simp add: color_text_def js_str)
  ultimately show ?thesis
    by (simp add: RGBA_PATTERN_def read_unit_def same_letter_def js_str)
qed

lemma trim_closed: "\<not> is_js_space c \<Longrightarrow> \<not> is_js_space d \<Longrightarrow> trim (c # t @ [d]) = c # t @ [d]"
  by (simp add: trim_def trim_start_def trim_end_def)

lemma trim_nat_digits: "\<not> is_js_space d \<Longrightarrow> trim (nat_digits n @ t @ [d]) = nat_digits n @ t @ [d]"
  using trim_closed [of "hd (nat_digits n)" d "tl (nat_digits n) @ t"] nat_digits_no_space [of n]
  by (cases "nat_digits n") simp_all

lemma alpha_text_value: "alpha_ok a \<Longrightarrow> \<not> (alpha_value a < 0 \<or> alpha_value a > 1)"
  using alpha_value_bounds [of a] by auto

lemma normal_color_stable:
  assumes "normalizeMemoTextColor value = Some c" "0x65 \<notin> set c"
  shows "normalizeMemoTextColor (Some c) = Some c \<and> set c \<inter> {0x5d, 0x0a, 0x0d} = {} \<and> c \<noteq> []"
proof (intro conjI)
  obtain red green blue a where p: "red \<le> 255" "green \<le> 255" "blue \<le> 255" "alpha_ok a" "c = color_text red green blue a"
    using normal_color_parts [OF assms(1)] by metis
  have e': "0x65 \<notin> set (alpha_text a)" using assms(2) by (simp add: p(5) color_text_def)
  note at = alpha_text_reads [OF p(4) e', of "[]"]
  then obtain b where b: "read_alpha (alpha_text a @ [0x29]) = Some (b, [0x29])" "alpha_ok b" "alpha_text b = alpha_text a" by auto
  have start: "\<not> is_js_space (hd (alpha_text a))" using at by (auto simp: is_digit_def is_js_space_def)
  have rgba: "RGBA_PATTERN c = Some (red, green, blue, Some b)"
    unfolding p(5) using RGBA_color_text [OF p(1-3) b(1) _ start] at by simp
  show ne: "c \<noteq> []" by (simp add: p(5) color_text_def js_str)
  have "trim c = c"
    unfolding p(5) color_text_def
    using trim_closed [of "0x72" "0x29" "js ''gba('' @ nat_digits red @ js '', '' @ nat_digits green @ js '', '' @ nat_digits blue @ js '', '' @ alpha_text a"]
    by (simp add: js_str is_js_space_def)
  then show "normalizeMemoTextColor (Some c) = Some c"
    using rgba p alpha_text_value [OF b(2)] ne by (simp add: normalizeMemoTextColor_def color_text_def b(3))
  have "\<forall>x \<in> set (alpha_text a). x = 0x2e \<or> is_digit x"
    using alpha_text_units [OF p(4) e'] .
  then show "set c \<inter> {0x5d, 0x0a, 0x0d} = {}"
    using nat_digits_digit by (fastforce simp: p(5) color_text_def js_str is_digit_def)
qed

lemma normal_size_stable:
  assumes "normalizeMemoTextSize value = Some d"
  shows "normalizeMemoTextSize (Some d) = Some d \<and> (\<exists>n. 8 \<le> n \<and> n \<le> 96 \<and> d = nat_digits n @ js ''px'')"
proof -
  obtain n where n: "8 \<le> n" "n \<le> 96" "d = nat_digits n @ js ''px''"
    using assms by (auto simp: normalizeMemoTextSize_def Let_def split: option.splits if_splits)
  have digits: "takeWhile is_digit d = nat_digits n"
    using take_nat_digits [of "js ''px''" n] by (simp add: n(3) js_str is_digit_def)
  have "FONT_SIZE_PATTERN d = Some (nat_digits n)"
    using length_nat_digits [of n] n(1,2) by (simp add: FONT_SIZE_PATTERN_def digits) (simp add: n(3) same_letter_def js_str)
  moreover have "trim d = d"
    using trim_nat_digits [of "0x78" n "[0x70]"] by (simp add: n(3) js_str is_js_space_def)
  ultimately have "normalizeMemoTextSize (Some d) = Some d"
    using n by (simp add: normalizeMemoTextSize_def digits_value_nat_digits)
  then show ?thesis using n by blast
qed

text \<open>
  Normal forms are stable. A colour that was normalized and is not in exponent form is its own normal form,
  and can stand inside a marker: it has no bracket and no line break. A normalized size is its own normal form,
  from 8 to 96 pixels.
\<close>

lemma normal_forms_are_stable:
  "(normalizeMemoTextColor color = Some c \<and> 0x65 \<notin> set c \<longrightarrow>
     normalizeMemoTextColor (Some c) = Some c \<and> set c \<inter> {0x5d, 0x0a, 0x0d} = {}) \<and>
   (normalizeMemoTextSize pixels = Some d \<longrightarrow>
     normalizeMemoTextSize (Some d) = Some d \<and> (\<exists>n. 8 \<le> n \<and> n \<le> 96 \<and> d = nat_digits n @ js ''px''))"
  using normal_color_stable [of color c] normal_size_stable [of pixels d] by simp

text \<open>\<open>rgb(1,20,255)\<close>, \<open>12\<close> and what they become.\<close>

lemmas evaluate_colors = normalizeMemoTextColor_def normalizeMemoTextSize_def FONT_SIZE_PATTERN_def RGBA_PATTERN_def RGBA_COMPONENTS_PATTERN_def
  read_components_def read_channel_def read_separated_def read_unit_def read_alpha_def alpha_text_def alpha_value_def strip_zeros_def same_letter_def
  trim_def trim_start_def trim_end_def is_js_space_def is_digit_def is_lower_def digits_value_def nat_digits.simps Let_def js_str

lemma sample_color: "normalizeMemoTextColor (Some (js ''rgb(1,20,255)'')) = Some (js ''rgba(1, 20, 255, 1)'')"
  by (simp add: evaluate_colors)

lemma sample_size: "normalizeMemoTextSize (Some (js ''12'')) = Some (js ''12px'')"
  by (simp add: evaluate_colors)

lemma normal_forms_are_stable_witness:
  "normalizeMemoTextColor (Some (js ''rgba(1, 20, 255, 1)'')) = Some (js ''rgba(1, 20, 255, 1)'') \<and>
   normalizeMemoTextSize (Some (js ''12px'')) = Some (js ''12px'')"
  using normal_forms_are_stable [of "Some (js ''rgb(1,20,255)'')" "js ''rgba(1, 20, 255, 1)''" "Some (js ''12'')" "js ''12px''"] sample_color sample_size
  by (simp add: js_str)

section \<open>Nearly transparent colours\<close>

text \<open>
  An alpha below \<open>10 ^ -6\<close> is printed in exponent form, which neither pattern accepts: the marker the editor
  writes for such a colour is not read back.
\<close>

lemma tiny_alpha_is_lost:
  "normalizeMemoTextColor (Some (js ''rgba(0,0,0,0.0000001)'')) = Some (js ''rgba(0, 0, 0, 1e-7)'') \<and>
   normalizeMemoTextColor (Some (js ''rgba(0, 0, 0, 1e-7)'')) = None"
  by (simp add: evaluate_colors)

end
