(* ===== verification/EditorState.thy ===== *)
theory EditorState
  imports Messages RichText
begin

text \<open>
  The memo editor's state (\<^verbatim>\<open>components/MemoEditor/state\<close>): the state tree, the actions, the reducer,
  the save gate of \<^verbatim>\<open>services/validationService.ts\<close> and the active-command test of
  \<^verbatim>\<open>formatting/commands.ts\<close>. The reducer is an instance of the interface \<open>reducer\<close>.
\<close>

section \<open>State\<close>

datatype LoadingKey = key_saving | key_uploading | key_loading

datatype ContentSource = from_editor | from_external

record editor_metadata =
  md_visibility :: Visibility
  md_attachments :: "Attachment list"
  md_relations :: "MemoRelation list"
  md_location :: "Location option"
  md_category :: "jsstring option"
  md_hidden :: bool
  md_anonymous :: bool
  md_adminScript :: jsstring
  md_poll :: "Poll option"
  md_pollImageLocalFileURL :: "jsstring option"
  md_pollOptionImageLocalFileURLs :: "(jsstring \<times> jsstring) list option"
  md_draft :: bool
  md_publishTime :: "date option"

record loading_flags =
  is_saving :: bool
  is_uploading :: bool
  is_loading :: bool

record editor_ui =
  ui_isFocusMode :: bool
  ui_pendingInlineImageInsertions :: int
  ui_isLoading :: loading_flags

record editor_timestamps =
  tm_createTime :: "date option"
  tm_updateTime :: "date option"
  tm_hideTime :: bool

record EditorState =
  es_content :: jsstring
  es_contentSource :: ContentSource
  es_metadata :: editor_metadata
  es_ui :: editor_ui
  es_timestamps :: editor_timestamps
  es_localFiles :: "LocalFile list"
  es_recorderBusy :: bool

definition defaultState :: EditorState where
  "defaultState =
     \<lparr>es_content = [],
      es_contentSource = from_external,
      es_metadata =
        \<lparr>md_visibility = PUBLIC, md_attachments = [], md_relations = [], md_location = None,
         md_category = None, md_hidden = False, md_anonymous = False, md_adminScript = [],
         md_poll = None, md_pollImageLocalFileURL = None, md_pollOptionImageLocalFileURLs = None,
         md_draft = False, md_publishTime = None\<rparr>,
      es_ui =
        \<lparr>ui_isFocusMode = False, ui_pendingInlineImageInsertions = 0,
         ui_isLoading = \<lparr>is_saving = False, is_uploading = False, is_loading = False\<rparr>\<rparr>,
      es_timestamps = \<lparr>tm_createTime = None, tm_updateTime = None, tm_hideTime = False\<rparr>,
      es_localFiles = [],
      es_recorderBusy = False\<rparr>"

definition createInitialState :: "bool \<Rightarrow> EditorState" where
  "createInitialState initialFocusMode =
     defaultState\<lparr>es_ui := (es_ui defaultState)\<lparr>ui_isFocusMode := initialFocusMode\<rparr>\<rparr>"

section \<open>Actions\<close>

text \<open>
  A \<^verbatim>\<open>Partial\<close> payload holds, for every field, \<open>None\<close> when the key is absent; an optional field can
  also be present with the value \<^verbatim>\<open>undefined\<close> (\<open>Some None\<close>), which the spread copies.
\<close>

record metadata_patch =
  mp_visibility :: "Visibility option"
  mp_attachments :: "Attachment list option"
  mp_relations :: "MemoRelation list option"
  mp_location :: "Location option option"
  mp_category :: "jsstring option option"
  mp_hidden :: "bool option"
  mp_anonymous :: "bool option"
  mp_adminScript :: "jsstring option"
  mp_poll :: "Poll option option"
  mp_pollImageLocalFileURL :: "jsstring option option"
  mp_pollOptionImageLocalFileURLs :: "(jsstring \<times> jsstring) list option option"
  mp_draft :: "bool option"
  mp_publishTime :: "date option option"

record timestamps_patch =
  tp_createTime :: "date option option"
  tp_updateTime :: "date option option"
  tp_hideTime :: "bool option"

datatype EditorAction =
    INIT_MEMO jsstring editor_metadata editor_timestamps
  | UPDATE_CONTENT jsstring ContentSource
  | SET_METADATA metadata_patch
  | ADD_LOCAL_FILE LocalFile
  | REMOVE_LOCAL_FILE jsstring
  | SET_LOCAL_FILES "LocalFile list"
  | TOGGLE_FOCUS_MODE
  | SET_LOADING LoadingKey bool
  | SET_PENDING_INLINE_IMAGE_INSERTIONS int
  | SET_TIMESTAMPS timestamps_patch
  | SET_RECORDER_BUSY bool
  | RESET

text \<open>The action creators that fix a part of the payload.\<close>

definition updateContent :: "jsstring \<Rightarrow> EditorAction" where
  "updateContent content = UPDATE_CONTENT content from_editor"

definition setContent :: "jsstring \<Rightarrow> EditorAction" where
  "setContent content = UPDATE_CONTENT content from_external"

section \<open>Reducer\<close>

definition override :: "'a \<Rightarrow> 'a option \<Rightarrow> 'a" where
  "override old patch = (case patch of None \<Rightarrow> old | Some new \<Rightarrow> new)"

lemma override_simps [simp]: "override old None = old" "override old (Some new) = new"
  by (simp_all add: override_def)

definition spread_metadata :: "editor_metadata \<Rightarrow> metadata_patch \<Rightarrow> editor_metadata" where
  "spread_metadata m p =
     \<lparr>md_visibility = override (md_visibility m) (mp_visibility p),
      md_attachments = override (md_attachments m) (mp_attachments p),
      md_relations = override (md_relations m) (mp_relations p),
      md_location = override (md_location m) (mp_location p),
      md_category = override (md_category m) (mp_category p),
      md_hidden = override (md_hidden m) (mp_hidden p),
      md_anonymous = override (md_anonymous m) (mp_anonymous p),
      md_adminScript = override (md_adminScript m) (mp_adminScript p),
      md_poll = override (md_poll m) (mp_poll p),
      md_pollImageLocalFileURL = override (md_pollImageLocalFileURL m) (mp_pollImageLocalFileURL p),
      md_pollOptionImageLocalFileURLs =
        override (md_pollOptionImageLocalFileURLs m) (mp_pollOptionImageLocalFileURLs p),
      md_draft = override (md_draft m) (mp_draft p),
      md_publishTime = override (md_publishTime m) (mp_publishTime p)\<rparr>"

definition spread_timestamps :: "editor_timestamps \<Rightarrow> timestamps_patch \<Rightarrow> editor_timestamps" where
  "spread_timestamps t p =
     \<lparr>tm_createTime = override (tm_createTime t) (tp_createTime p),
      tm_updateTime = override (tm_updateTime t) (tp_updateTime p),
      tm_hideTime = override (tm_hideTime t) (tp_hideTime p)\<rparr>"

fun set_loading :: "LoadingKey \<Rightarrow> bool \<Rightarrow> loading_flags \<Rightarrow> loading_flags" where
  "set_loading key_saving v l = l\<lparr>is_saving := v\<rparr>"
| "set_loading key_uploading v l = l\<lparr>is_uploading := v\<rparr>"
| "set_loading key_loading v l = l\<lparr>is_loading := v\<rparr>"

fun editorReducer :: "EditorState \<Rightarrow> EditorAction \<Rightarrow> EditorState" where
  "editorReducer state (INIT_MEMO content metadata timestamps) =
     state\<lparr>es_content := content, es_contentSource := from_external, es_metadata := metadata,
           es_timestamps := timestamps\<rparr>"
| "editorReducer state (UPDATE_CONTENT content source) =
     (if es_content state = content \<and> es_contentSource state = source then state
      else state\<lparr>es_content := content, es_contentSource := source\<rparr>)"
| "editorReducer state (SET_METADATA patch) =
     state\<lparr>es_metadata := spread_metadata (es_metadata state) patch\<rparr>"
| "editorReducer state (ADD_LOCAL_FILE file) = state\<lparr>es_localFiles := es_localFiles state @ [file]\<rparr>"
| "editorReducer state (REMOVE_LOCAL_FILE url) =
     state\<lparr>es_localFiles := filter (\<lambda>f. lf_previewUrl f \<noteq> url) (es_localFiles state)\<rparr>"
| "editorReducer state (SET_LOCAL_FILES files) = state\<lparr>es_localFiles := files\<rparr>"
| "editorReducer state TOGGLE_FOCUS_MODE =
     state\<lparr>es_ui := (es_ui state)\<lparr>ui_isFocusMode := \<not> ui_isFocusMode (es_ui state)\<rparr>\<rparr>"
| "editorReducer state (SET_LOADING k v) =
     state\<lparr>es_ui := (es_ui state)\<lparr>ui_isLoading := set_loading k v (ui_isLoading (es_ui state))\<rparr>\<rparr>"
| "editorReducer state (SET_PENDING_INLINE_IMAGE_INSERTIONS n) =
     state\<lparr>es_ui := (es_ui state)\<lparr>ui_pendingInlineImageInsertions := n\<rparr>\<rparr>"
| "editorReducer state (SET_TIMESTAMPS patch) =
     state\<lparr>es_timestamps := spread_timestamps (es_timestamps state) patch\<rparr>"
| "editorReducer state (SET_RECORDER_BUSY v) = state\<lparr>es_recorderBusy := v\<rparr>"
| "editorReducer state RESET = createInitialState False"

section \<open>The save gate\<close>

datatype save_block =
    loading_content | content_required | wait_for_upload | resolve_image_uploads
  | unsupported_attachment_image_url jsstring | finish_audio_recording | save_in_progress

text \<open>
  \<^verbatim>\<open>validationService.canSave\<close>; \<open>None\<close> is \<^verbatim>\<open>{ valid: true }\<close>. The first argument is
  \<^verbatim>\<open>findInvalidManagedAttachmentReferences\<close>, which the theory \<^verbatim>\<open>ManagedAttachment\<close> models.
\<close>

definition canSave :: "(jsstring \<Rightarrow> jsstring list) \<Rightarrow> EditorState \<Rightarrow> save_block option" where
  "canSave findInvalid state =
     (let loading = ui_isLoading (es_ui state) in
      if is_loading loading then Some loading_content
      else if trim (es_content state) = [] \<and> md_attachments (es_metadata state) = [] \<and>
        es_localFiles state = [] then Some content_required
      else if is_uploading loading then Some wait_for_upload
      else if ui_pendingInlineImageInsertions (es_ui state) > 0 then Some resolve_image_uploads
      else
        case findInvalid (es_content state) of
          invalidReference # _ \<Rightarrow>
            if invalidReference \<noteq> [] then Some (unsupported_attachment_image_url invalidReference)
            else if es_recorderBusy state then Some finish_audio_recording
            else if is_saving loading then Some save_in_progress
            else None
        | [] \<Rightarrow>
            if es_recorderBusy state then Some finish_audio_recording
            else if is_saving loading then Some save_in_progress
            else None)"

section \<open>Active formatting commands\<close>

datatype ToolbarHeadingLevel = H1 | H2 | H3

definition toToolbarHeadingLevel :: "nat \<Rightarrow> ToolbarHeadingLevel option" where
  "toToolbarHeadingLevel level =
     (if level = 1 then Some H1 else if level = 2 then Some H2 else if level = 3 then Some H3 else None)"

datatype EditorCommandId =
    bold | italic | strikethrough | code | codeBlock | bulletList | orderedList | taskList
  | paragraph_command | heading1 | heading2 | heading3 | alignLeft | alignCenter | alignRight
  | textColor | fontSize | spoiler | link_command

record ActiveFormatState =
  af_bold :: bool
  af_italic :: bool
  af_strikethrough :: bool
  af_code :: bool
  af_codeBlock :: bool
  af_bulletList :: bool
  af_orderedList :: bool
  af_taskList :: bool
  af_link :: bool
  af_spoiler :: bool
  af_alignment :: MemoTextAlignment
  af_textColor :: "jsstring option"
  af_fontSize :: "jsstring option"
  af_headingLevel :: "ToolbarHeadingLevel option"

definition EMPTY_ACTIVE_FORMATS :: ActiveFormatState where
  "EMPTY_ACTIVE_FORMATS =
     \<lparr>af_bold = False, af_italic = False, af_strikethrough = False, af_code = False,
      af_codeBlock = False, af_bulletList = False, af_orderedList = False, af_taskList = False,
      af_link = False, af_spoiler = False, af_alignment = align_left, af_textColor = None,
      af_fontSize = None, af_headingLevel = None\<rparr>"

datatype EditorCommandGroup =
  group_mark | group_block | group_heading | group_alignment | group_color | group_size | group_link

text \<open>
  The catalog, as identifier, group and whether the command has an icon (label keys and icons are
  presentation).
\<close>

definition EDITOR_COMMANDS :: "(EditorCommandId \<times> EditorCommandGroup \<times> bool) list" where
  "EDITOR_COMMANDS =
     [(bold, group_mark, True), (italic, group_mark, True), (strikethrough, group_mark, True),
      (spoiler, group_mark, True), (bulletList, group_block, True), (orderedList, group_block, True),
      (taskList, group_block, True), (codeBlock, group_block, True),
      (paragraph_command, group_heading, False), (heading1, group_heading, False),
      (heading2, group_heading, False), (heading3, group_heading, False),
      (alignLeft, group_alignment, True), (alignCenter, group_alignment, True),
      (alignRight, group_alignment, True), (textColor, group_color, True),
      (fontSize, group_size, True), (link_command, group_link, True)]"

text \<open>\<^verbatim>\<open>Object.fromEntries\<close>: a later entry with the same key replaces the value of an earlier one.\<close>

definition EDITOR_COMMANDS_BY_ID :: "EditorCommandId \<Rightarrow> (EditorCommandId \<times> EditorCommandGroup \<times> bool) option" where
  "EDITOR_COMMANDS_BY_ID = map_of (rev (map (\<lambda>c. (fst c, c)) EDITOR_COMMANDS))"

fun isCommandActive :: "ActiveFormatState \<Rightarrow> EditorCommandId \<Rightarrow> bool" where
  "isCommandActive active paragraph_command = (af_headingLevel active = None)"
| "isCommandActive active heading1 = (af_headingLevel active = Some H1)"
| "isCommandActive active heading2 = (af_headingLevel active = Some H2)"
| "isCommandActive active heading3 = (af_headingLevel active = Some H3)"
| "isCommandActive active alignLeft = (af_alignment active = align_left)"
| "isCommandActive active alignCenter = (af_alignment active = align_center)"
| "isCommandActive active alignRight = (af_alignment active = align_right)"
| "isCommandActive active textColor = (af_textColor active \<noteq> None)"
| "isCommandActive active fontSize = (af_fontSize active \<noteq> None)"
| "isCommandActive active bold = af_bold active"
| "isCommandActive active italic = af_italic active"
| "isCommandActive active strikethrough = af_strikethrough active"
| "isCommandActive active code = af_code active"
| "isCommandActive active codeBlock = af_codeBlock active"
| "isCommandActive active bulletList = af_bulletList active"
| "isCommandActive active orderedList = af_orderedList active"
| "isCommandActive active taskList = af_taskList active"
| "isCommandActive active link_command = af_link active"
| "isCommandActive active spoiler = af_spoiler active"


section \<open>Well-formed editor states\<close>

text \<open>
  The guard of a dispatch: a new local file comes with a fresh object URL, a replaced list has no
  repeated URL, and the number of pending insertions is a count.
\<close>

fun dispatch_ok :: "EditorState \<Rightarrow> EditorAction \<Rightarrow> bool" where
  "dispatch_ok s (ADD_LOCAL_FILE f) = (lf_previewUrl f \<notin> lf_previewUrl ` set (es_localFiles s))"
| "dispatch_ok s (SET_LOCAL_FILES fs) = distinct (map lf_previewUrl fs)"
| "dispatch_ok s (SET_PENDING_INLINE_IMAGE_INSERTIONS n) = (0 \<le> n)"
| "dispatch_ok s a = True"

definition editor_wf :: "EditorState \<Rightarrow> bool" where
  "editor_wf s \<longleftrightarrow> distinct (map lf_previewUrl (es_localFiles s)) \<and>
     0 \<le> ui_pendingInlineImageInsertions (es_ui s)"

lemma distinct_map_filter_other: "distinct (map f xs) \<Longrightarrow> distinct (map f (filter P xs))"
  by (induction xs) auto

lemma editor_wf_step: "editor_wf s \<Longrightarrow> dispatch_ok s a \<Longrightarrow> editor_wf (editorReducer s a)"
  by (cases a) (auto simp: editor_wf_def createInitialState_def defaultState_def
      intro: distinct_map_filter_other)

interpretation wf_editor: reducer editorReducer dispatch_ok editor_wf
  by unfold_locales (rule editor_wf_step)

text \<open>
  From a fresh editor, any sequence of legal dispatches keeps the local files' preview URLs
  distinct and the pending count non-negative, so removing a file by URL removes that file only.
\<close>

lemma editor_remove_is_exact:
  assumes "legal_run editorReducer dispatch_ok (createInitialState focus) as"
    and "s = foldl editorReducer (createInitialState focus) as"
    and "es_localFiles s = xs @ f # ys"
  shows "es_localFiles (editorReducer s (REMOVE_LOCAL_FILE (lf_previewUrl f))) = xs @ ys"
proof -
  have "editor_wf (createInitialState focus)"
    by (simp add: editor_wf_def createInitialState_def defaultState_def)
  then have "editor_wf s" using assms(1,2) wf_editor.run_inv by blast
  with assms(3) have "lf_previewUrl f \<notin> lf_previewUrl ` set (xs @ ys)"
    by (auto simp: editor_wf_def)
  then have "filter (\<lambda>g. lf_previewUrl g \<noteq> lf_previewUrl f) (xs @ ys) = xs @ ys"
    by (intro filter_True) (metis image_eqI)
  then show ?thesis by (simp add: assms(3))
qed

definition sample_file :: "string \<Rightarrow> LocalFile" where
  "sample_file url =
     \<lparr>lf_file = \<lparr>file_name = js ''a.png'', file_type = js ''image/png'', file_bytes = [1, 2]\<rparr>,
      lf_previewUrl = js url, lf_origin = Some upload, lf_audioMeta = None, lf_motionMedia = None,
      lf_mediaMetadata = None\<rparr>"

lemma editor_remove_is_exact_witness:
  "es_localFiles
     (editorReducer
       (foldl editorReducer (createInitialState False)
         [ADD_LOCAL_FILE (sample_file ''blob:1''), ADD_LOCAL_FILE (sample_file ''blob:2'')])
       (REMOVE_LOCAL_FILE (lf_previewUrl (sample_file ''blob:1'')))) =
   [] @ [sample_file ''blob:2'']"
  by (rule editor_remove_is_exact
      [where focus = False and as = "[ADD_LOCAL_FILE (sample_file ''blob:1''), ADD_LOCAL_FILE (sample_file ''blob:2'')]"])
     (simp_all add: createInitialState_def defaultState_def sample_file_def js_str)

section \<open>The save gate\<close>

lemma canSave_simps:
  "is_loading (ui_isLoading (es_ui s)) \<Longrightarrow> canSave f s = Some loading_content"
  "is_saving (ui_isLoading (es_ui s)) \<Longrightarrow> canSave f s \<noteq> None"
  by (simp_all add: canSave_def Let_def split: list.splits)

text \<open>
  The gate lets a save through exactly when nothing is loading, uploading or saving, the
  recorder is idle, no inline image is pending, the memo is not empty and the content has no
  managed reference the server would reject.
\<close>

lemma canSave_iff:
  assumes "[] \<notin> set (findInvalid (es_content s))"
  shows "canSave findInvalid s = None \<longleftrightarrow>
    \<not> is_loading (ui_isLoading (es_ui s)) \<and> \<not> is_uploading (ui_isLoading (es_ui s)) \<and>
    \<not> is_saving (ui_isLoading (es_ui s)) \<and> \<not> es_recorderBusy s \<and>
    ui_pendingInlineImageInsertions (es_ui s) \<le> 0 \<and>
    ((\<exists>c \<in> set (es_content s). \<not> is_js_space c) \<or> md_attachments (es_metadata s) \<noteq> [] \<or>
      es_localFiles s \<noteq> []) \<and>
    findInvalid (es_content s) = []"
  using assms by (auto simp: canSave_def Let_def trim_eq_Nil split: list.splits)

lemma canSave_iff_witness:
  "canSave (\<lambda>_. []) ((createInitialState False)\<lparr>es_content := js ''x''\<rparr>) = None"
  by (subst canSave_iff)
     (simp_all add: createInitialState_def defaultState_def js_str is_js_space_def)

text \<open>While a save runs, only the end of that save or a reset unlocks the gate.\<close>

fun keeps_saving :: "EditorState \<Rightarrow> EditorAction \<Rightarrow> bool" where
  "keeps_saving s (SET_LOADING k v) = (k = key_saving \<longrightarrow> v)"
| "keeps_saving s RESET = False"
| "keeps_saving s a = True"

definition saving :: "EditorState \<Rightarrow> bool" where
  "saving s \<longleftrightarrow> is_saving (ui_isLoading (es_ui s))"

lemma saving_step: "saving s \<Longrightarrow> keeps_saving s a \<Longrightarrow> saving (editorReducer s a)"
proof (cases a)
  case (SET_LOADING k v)
  moreover assume "saving s" "keeps_saving s a"
  ultimately show ?thesis by (cases k) (auto simp: saving_def)
qed (auto simp: saving_def)

interpretation save_lock: reducer editorReducer keeps_saving saving
  by unfold_locales (rule saving_step)

text \<open>
  A save is not re-entrant: after saving is switched on, no sequence of actions other than
  switching it off or resetting the editor makes the gate pass again.
\<close>

lemma save_not_reentrant:
  assumes "legal_run editorReducer keeps_saving (editorReducer s (SET_LOADING key_saving True)) as"
  shows "canSave findInvalid (foldl editorReducer (editorReducer s (SET_LOADING key_saving True)) as) \<noteq> None"
proof -
  have "saving (foldl editorReducer (editorReducer s (SET_LOADING key_saving True)) as)"
    using assms by (intro save_lock.run_inv) (simp_all add: saving_def)
  then show ?thesis by (intro canSave_simps(2)) (simp add: saving_def)
qed

lemma save_not_reentrant_witness:
  "canSave (\<lambda>_. [])
     (foldl editorReducer (editorReducer (createInitialState False) (SET_LOADING key_saving True))
       [updateContent (js ''x''), SET_LOADING key_uploading False]) \<noteq> None"
  by (rule save_not_reentrant) (simp add: updateContent_def)

text \<open>
  The catalog of formatting commands has an entry for every command identifier except inline
  code, although its index is typed as a total record.
\<close>

lemma commands_by_id_misses_code: "EDITOR_COMMANDS_BY_ID i = None \<longleftrightarrow> i = code"
  by (cases i) (simp_all add: EDITOR_COMMANDS_BY_ID_def EDITOR_COMMANDS_def)

text \<open>
  With an empty snapshot the highlighted commands are the paragraph and the left alignment.
\<close>

lemma empty_formats_active:
  "isCommandActive EMPTY_ACTIVE_FORMATS i \<longleftrightarrow> i = paragraph_command \<or> i = alignLeft"
  by (cases i) (simp_all add: EMPTY_ACTIVE_FORMATS_def)

end
