(* ===== verification/Browser.thy ===== *)
theory Browser
  imports Prelude
begin

text \<open>
  The parts of the web platform the sources call that are not the language's own library, as a
  record of functions the model takes as an argument: the page's address and the URL API. A call
  that throws a \<^verbatim>\<open>TypeError\<close> is \<open>None\<close>.
\<close>

record url_parts =
  url_href :: jsstring
  url_origin :: jsstring
  url_host :: jsstring
  url_pathname :: jsstring
  url_search :: jsstring
  url_hash :: jsstring

text \<open>
  \<open>parse_url raw base\<close> is \<^verbatim>\<open>new URL(raw, base)\<close>, with \<open>None\<close> as base when the code passes none;
  \<open>search_has\<close> and \<open>search_set\<close> are \<^verbatim>\<open>url.searchParams.has\<close> and \<^verbatim>\<open>.set\<close>; \<^verbatim>\<open>url.toString()\<close> is
  \<open>url_href\<close>.
\<close>

record browser =
  location_origin :: jsstring
  parse_url :: "jsstring \<Rightarrow> jsstring option \<Rightarrow> url_parts option"
  search_has :: "url_parts \<Rightarrow> jsstring \<Rightarrow> bool"
  search_set :: "url_parts \<Rightarrow> jsstring \<Rightarrow> jsstring \<Rightarrow> url_parts"

text \<open>
  A concrete platform for evaluation: it parses root-relative paths without query, fragment or
  dot segments against the base, and nothing else.
\<close>

definition plain_path :: "jsstring \<Rightarrow> bool" where
  "plain_path p \<longleftrightarrow> starts_with p (js ''/'') \<and> \<not> starts_with p (js ''//'') \<and>
     (\<forall>c \<in> set p. c \<noteq> 0x3f \<and> c \<noteq> 0x23 \<and> c \<noteq> 0x2e \<and> c \<noteq> 0x5c \<and> 0x20 < c \<and> c < 0x7f)"

definition sample_browser :: browser where
  "sample_browser =
     \<lparr>location_origin = js ''https://h'',
      parse_url = (\<lambda>raw base. case base of None \<Rightarrow> None | Some b \<Rightarrow>
        if plain_path raw
        then Some \<lparr>url_href = b @ raw, url_origin = b, url_host = drop 8 b, url_pathname = raw,
                   url_search = [], url_hash = []\<rparr>
        else None),
      search_has = (\<lambda>_ _. False),
      search_set = (\<lambda>u _ _. u)\<rparr>"

section \<open>URL schemes\<close>

text \<open>\<^verbatim>\<open>/^[a-z][a-z0-9+.-]*:/i.test(raw)\<close>: does the string begin with a URL scheme?\<close>

definition hasScheme :: "jsstring \<Rightarrow> bool" where
  "hasScheme raw \<longleftrightarrow>
     (case raw of [] \<Rightarrow> False | c # cs \<Rightarrow>
        is_alpha c \<and>
        (case dropWhile (\<lambda>d. is_alnum d \<or> d = 0x2b \<or> d = 0x2e \<or> d = 0x2d) cs of
           [] \<Rightarrow> False | d # _ \<Rightarrow> d = 0x3a))"

end
