(* ===== verification/Attachments.thy ===== *)
theory Attachments
  imports Messages Browser "HOL-Library.Monad_Syntax"
begin

text \<open>
  Attachment helpers (\<^verbatim>\<open>web/src/utils/attachment.ts\<close>): the addresses of an attachment and its
  thumbnail and motion clip, its coarse type, and the motion-photo roles. Building a share-mode
  address parses the external link, which throws on a malformed link (\<open>None\<close>).
\<close>

section \<open>Addresses\<close>

definition attachment_path :: "browser \<Rightarrow> Attachment \<Rightarrow> jsstring" where
  "attachment_path env a =
     location_origin env @ js ''/file/'' @ att_name a @ js ''/'' @ att_filename a"

definition getAttachmentUrl :: "browser \<Rightarrow> Attachment \<Rightarrow> jsstring" where
  "getAttachmentUrl env a =
     (if att_externalLink a \<noteq> [] then att_externalLink a else attachment_path env a)"

text \<open>The inner option is the function's \<^verbatim>\<open>undefined\<close>.\<close>

definition withShareTokenParam :: "browser \<Rightarrow> jsstring \<Rightarrow> jsstring \<Rightarrow> jsstring option option" where
  "withShareTokenParam env externalLink key =
     (if externalLink = [] then Some None
      else do {
        url \<leftarrow> parse_url env externalLink (Some (location_origin env));
        if search_has env url (js ''share_token'')
        then Some (Some (url_href (search_set env url key (js ''true''))))
        else Some None
      })"

definition getAttachmentThumbnailUrl :: "browser \<Rightarrow> Attachment \<Rightarrow> jsstring option" where
  "getAttachmentThumbnailUrl env a =
     do {
       shareUrl \<leftarrow> withShareTokenParam env (att_externalLink a) (js ''thumbnail'');
       case or_undefined shareUrl of
         Some u \<Rightarrow> Some u
       | None \<Rightarrow> Some (attachment_path env a @ js ''?thumbnail=true'')
     }"

definition getAttachmentMotionClipUrl :: "browser \<Rightarrow> Attachment \<Rightarrow> jsstring option" where
  "getAttachmentMotionClipUrl env a =
     do {
       shareUrl \<leftarrow> withShareTokenParam env (att_externalLink a) (js ''motion'');
       case or_undefined shareUrl of
         Some u \<Rightarrow> Some u
       | None \<Rightarrow> Some (attachment_path env a @ js ''?motion=true'')
     }"

section \<open>Types\<close>

definition isPSD :: "jsstring \<Rightarrow> bool" where
  "isPSD t \<longleftrightarrow> t = js ''image/vnd.adobe.photoshop'' \<or> t = js ''image/x-photoshop'' \<or> t = js ''image/photoshop''"

definition isImage :: "jsstring \<Rightarrow> bool" where
  "isImage t \<longleftrightarrow> starts_with t (js ''image/'') \<and> \<not> isPSD t"

definition isMidiFile :: "jsstring \<Rightarrow> bool" where
  "isMidiFile t \<longleftrightarrow>
     t = js ''audio/midi'' \<or> t = js ''audio/mid'' \<or> t = js ''audio/x-midi'' \<or> t = js ''application/x-midi''"

definition getAttachmentType :: "Attachment \<Rightarrow> jsstring" where
  "getAttachmentType a =
     (let t = att_type a in
      if isImage t then js ''image/*''
      else if starts_with t (js ''video'') then js ''video/*''
      else if starts_with t (js ''audio'') \<and> \<not> isMidiFile t then js ''audio/*''
      else if starts_with t (js ''text'') then js ''text/*''
      else if starts_with t (js ''application/epub+zip'') then js ''application/epub+zip''
      else if starts_with t (js ''application/pdf'') then js ''application/pdf''
      else if js_includes t (js ''word'') then js ''application/msword''
      else if js_includes t (js ''excel'') then js ''application/msexcel''
      else if starts_with t (js ''application/zip'') then js ''application/zip''
      else if starts_with t (js ''application/x-java-archive'') then js ''application/x-java-archive''
      else js ''application/octet-stream'')"

section \<open>Motion photos\<close>

definition getAttachmentMotionGroupId :: "Attachment \<Rightarrow> jsstring option" where
  "getAttachmentMotionGroupId a = or_undefined (map_option mm_groupId (att_motionMedia a))"

definition motion_role :: "MotionMedia option \<Rightarrow> MotionMediaFamily \<Rightarrow> MotionMediaRole \<Rightarrow> bool" where
  "motion_role m family role \<longleftrightarrow>
     (case m of None \<Rightarrow> False | Some mm \<Rightarrow> mm_family mm = family \<and> mm_role mm = role)"

definition isAppleLivePhotoStill :: "Attachment \<Rightarrow> bool" where
  "isAppleLivePhotoStill a \<longleftrightarrow> motion_role (att_motionMedia a) APPLE_LIVE_PHOTO STILL"

definition isAppleLivePhotoVideo :: "Attachment \<Rightarrow> bool" where
  "isAppleLivePhotoVideo a \<longleftrightarrow> motion_role (att_motionMedia a) APPLE_LIVE_PHOTO VIDEO"

definition isAndroidMotionContainer :: "Attachment \<Rightarrow> bool" where
  "isAndroidMotionContainer a \<longleftrightarrow>
     motion_role (att_motionMedia a) ANDROID_MOTION_PHOTO CONTAINER \<and>
     (case att_motionMedia a of None \<Rightarrow> False | Some mm \<Rightarrow> mm_hasEmbeddedVideo mm)"

definition isMotionAttachment :: "Attachment \<Rightarrow> bool" where
  "isMotionAttachment a \<longleftrightarrow>
     isAppleLivePhotoStill a \<or> isAppleLivePhotoVideo a \<or> isAndroidMotionContainer a"

lemma motion_role_unique:
  "motion_role m family role \<Longrightarrow> motion_role m family' role' \<Longrightarrow> family = family' \<and> role = role'"
  by (cases m) (simp_all add: motion_role_def)

lemma apple_roles_exclusive:
  "isAppleLivePhotoStill a \<Longrightarrow> \<not> isAppleLivePhotoVideo a"
  "isAppleLivePhotoStill a \<Longrightarrow> \<not> isAndroidMotionContainer a"
  "isAppleLivePhotoVideo a \<Longrightarrow> \<not> isAndroidMotionContainer a"
  unfolding isAppleLivePhotoStill_def isAppleLivePhotoVideo_def isAndroidMotionContainer_def
  using motion_role_unique by blast+

lemma getAttachmentMotionGroupId_neq_Nil [simp]: "getAttachmentMotionGroupId a \<noteq> Some []"
  by (simp add: getAttachmentMotionGroupId_def)

section \<open>Grouping\<close>

text \<open>
  The loop the sources repeat to collect the members of every motion group:
  \<^verbatim>\<open>const group = groups.get(id) ?? []; group.push(x); groups.set(id, group)\<close>, skipping elements
  without an identifier.
\<close>

definition group_push :: "('a \<Rightarrow> jsstring option) \<Rightarrow> 'a \<Rightarrow> (jsstring \<times> 'a list) list \<Rightarrow> (jsstring \<times> 'a list) list" where
  "group_push key x groups =
     (case key x of
        None \<Rightarrow> groups
      | Some g \<Rightarrow> AList.update g ((case map_of groups g of None \<Rightarrow> [] | Some xs \<Rightarrow> xs) @ [x]) groups)"

definition group_all :: "('a \<Rightarrow> jsstring option) \<Rightarrow> 'a list \<Rightarrow> (jsstring \<times> 'a list) list" where
  "group_all key xs = fold (group_push key) xs []"

definition members :: "(jsstring \<times> 'a list) list \<Rightarrow> jsstring \<Rightarrow> 'a list" where
  "members groups g = (case map_of groups g of None \<Rightarrow> [] | Some xs \<Rightarrow> xs)"

lemma members_group_push:
  "members (group_push key x groups) g = members groups g @ (if key x = Some g then [x] else [])"
  by (auto simp: members_def group_push_def update_conv split: option.splits)

lemma members_group_fold:
  "members (fold (group_push key) xs groups) g = members groups g @ filter (\<lambda>x. key x = Some g) xs"
  by (induction xs arbitrary: groups) (auto simp: members_group_push)

lemma members_group_all: "members (group_all key xs) g = filter (\<lambda>x. key x = Some g) xs"
  by (simp add: group_all_def members_group_fold) (simp add: members_def)

lemma distinct_group_all: "distinct (map fst (group_all key xs))"
proof -
  have "distinct (map fst (fold (group_push key) xs groups))" if "distinct (map fst groups)" for groups
    using that
    by (induction xs arbitrary: groups) (auto simp: group_push_def distinct_update split: option.splits)
  then show ?thesis by (simp add: group_all_def)
qed

lemma group_all_entry:
  assumes "(g, ms) \<in> set (group_all key xs)"
  shows "ms = filter (\<lambda>x. key x = Some g) xs"
proof -
  have "map_of (group_all key xs) g = Some ms"
    using assms distinct_group_all by (metis map_of_eq_Some_iff)
  then show ?thesis using members_group_all [of key xs g] by (simp add: members_def)
qed

lemma keys_group_fold:
  "fst ` set (fold (group_push key) xs groups) = fst ` set groups \<union> {g. \<exists>x \<in> set xs. key x = Some g}"
proof (induction xs arbitrary: groups)
  case (Cons x xs)
  have "fst ` set (group_push key x groups) = fst ` set groups \<union> {g. key x = Some g}"
    by (cases "key x") (auto simp: group_push_def dom_update)
  with Cons show ?case by auto
qed simp

lemma keys_group_all: "fst ` set (group_all key xs) = {g. \<exists>x \<in> set xs. key x = Some g}"
  by (simp add: group_all_def keys_group_fold)

end
