(* ===== verification/ManagedAttachment.thy ===== *)
theory ManagedAttachment
  imports Attachments
begin

text \<open>
  Managed attachment references in memo bodies (\<^verbatim>\<open>web/src/utils/managed-attachment.ts\<close>): the
  classification of image destinations, the index of a Markdown source with its bounded cache, the
  Markdown a reference is written as, and the removal of references from a source. The Markdown
  parser and the identifier normalization are third-party: \<open>md_nodes\<close> gives the nodes of a source in
  the order \<^verbatim>\<open>visit\<close> reaches them, with the fields this module reads.
\<close>

section \<open>Classification\<close>

definition ATTACHMENT_NAME_PREFIX :: jsstring where
  "ATTACHMENT_NAME_PREFIX = js ''attachments/''"

definition MANAGED_ATTACHMENT_PATH_PREFIX :: jsstring where
  "MANAGED_ATTACHMENT_PATH_PREFIX = js ''/file/attachments/''"

text \<open>\<^verbatim>\<open>/^[a-zA-Z0-9](?:[a-zA-Z0-9-]{0,34}[a-zA-Z0-9])?$/\<close>.\<close>

definition UID_PATTERN :: "jsstring \<Rightarrow> bool" where
  "UID_PATTERN s \<longleftrightarrow> s \<noteq> [] \<and> length s \<le> 36 \<and> is_alnum (hd s) \<and> is_alnum (last s) \<and>
     (\<forall>c \<in> set s. is_alnum c \<or> c = 0x2d)"

definition extractAttachmentUIDFromName :: "jsstring \<Rightarrow> jsstring option" where
  "extractAttachmentUIDFromName name =
     (if \<not> starts_with name ATTACHMENT_NAME_PREFIX then None
      else let uid = drop (length ATTACHMENT_NAME_PREFIX) name in
        if UID_PATTERN uid then Some uid else None)"

datatype ManagedImageURL = url_unmanaged | url_invalid | url_managed jsstring

record instance_url =
  instanceOrigin :: "jsstring option"
  instanceHost :: "jsstring option"

definition classifyManagedAttachmentImageURL ::
    "browser \<Rightarrow> instance_url \<Rightarrow> jsstring \<Rightarrow> ManagedImageURL" where
  "classifyManagedAttachmentImageURL env inst raw =
     (if \<not> starts_with raw (js ''/'') \<and> \<not> hasScheme raw then url_unmanaged
      else case parse_url env raw (Some (location_origin env)) of
        None \<Rightarrow> url_unmanaged
      | Some parsed \<Rightarrow>
          if \<not> starts_with (url_pathname parsed) MANAGED_ATTACHMENT_PATH_PREFIX then url_unmanaged
          else if starts_with raw (js ''//'') then
            (if or_undefined (instanceHost inst) = None \<or> instanceHost inst = Some (url_host parsed)
             then url_invalid else url_unmanaged)
          else if hasScheme raw \<and> or_undefined (instanceOrigin inst) = None then url_invalid
          else if hasScheme raw \<and> instanceOrigin inst \<noteq> Some (url_origin parsed) then url_unmanaged
          else if url_search parsed \<noteq> [] \<or> url_hash parsed \<noteq> [] \<or>
            js_includes (url_pathname parsed) (js ''%'') then url_invalid
          else
            (let parts = split_on 0x2f (drop (length MANAGED_ATTACHMENT_PATH_PREFIX) (url_pathname parsed)) in
             if (length parts \<noteq> 1 \<and> length parts \<noteq> 2) \<or> \<not> UID_PATTERN (parts ! 0) \<or>
               (length parts = 2 \<and> parts ! 1 = []) then url_invalid
             else url_managed (parts ! 0)))"

definition parseManagedAttachmentImageURL ::
    "browser \<Rightarrow> instance_url \<Rightarrow> jsstring \<Rightarrow> jsstring option" where
  "parseManagedAttachmentImageURL env inst raw =
     (case classifyManagedAttachmentImageURL env inst raw of url_managed uid \<Rightarrow> Some uid | _ \<Rightarrow> None)"

section \<open>The index of a source\<close>

datatype media_kind = kind_image | kind_video

record ManagedImageNode =
  node_uid :: jsstring
  node_kind :: media_kind
  node_start :: "nat option"
  node_end :: "nat option"

record ManagedImageIndex =
  ix_nodes :: "ManagedImageNode list"
  ix_uids :: "jsstring list"
  ix_invalidReferences :: "jsstring list"

text \<open>
  A visited node: a definition (identifier, URL), raw HTML, an image, an image reference, a link or
  a link reference with its children (the value of a text child, \<open>None\<close> for any other child), or
  another node. Offsets are the start and the end of the node's position, when it has one.
\<close>

datatype md_kind =
    Definition jsstring jsstring
  | Html jsstring
  | Image jsstring
  | ImageReference jsstring
  | Link jsstring "jsstring option list"
  | LinkReference jsstring "jsstring option list"
  | OtherNode

type_synonym md_node = "md_kind \<times> nat option \<times> nat option"

record markdown =
  md_nodes :: "jsstring \<Rightarrow> md_node list"
  normalizeIdentifier :: "jsstring \<Rightarrow> jsstring"

definition link_label :: "jsstring option list \<Rightarrow> jsstring" where
  "link_label children = concat (map or_empty children)"

text \<open>The first definition of an identifier wins.\<close>

definition add_definition :: "markdown \<Rightarrow> md_node \<Rightarrow> (jsstring \<times> jsstring) list \<Rightarrow> (jsstring \<times> jsstring) list" where
  "add_definition md node defs =
     (case fst node of
        Definition identifier url \<Rightarrow>
          (let k = normalizeIdentifier md identifier in
           if map_of defs k \<noteq> None then defs else AList.update k url defs)
      | _ \<Rightarrow> defs)"

definition node_destination ::
    "markdown \<Rightarrow> (jsstring \<times> jsstring) list \<Rightarrow> md_kind \<Rightarrow> (jsstring \<times> media_kind) option" where
  "node_destination md defs k =
     (case k of
        Image url \<Rightarrow> Some (url, kind_image)
      | ImageReference i \<Rightarrow>
          map_option (\<lambda>url. (url, kind_image)) (map_of defs (normalizeIdentifier md i))
      | Link url children \<Rightarrow>
          (if starts_with (link_label children) (js ''video:'') then Some (url, kind_video) else None)
      | LinkReference i children \<Rightarrow>
          (if starts_with (link_label children) (js ''video:'')
           then map_option (\<lambda>url. (url, kind_video)) (map_of defs (normalizeIdentifier md i)) else None)
      | _ \<Rightarrow> None)"

fun visit_node ::
    "browser \<Rightarrow> instance_url \<Rightarrow> markdown \<Rightarrow> (jsstring \<times> jsstring) list \<Rightarrow> md_node \<Rightarrow>
     ManagedImageNode list \<times> jsstring list \<Rightarrow> ManagedImageNode list \<times> jsstring list" where
  "visit_node env inst md defs (Html raw, _, _) (nodes, bad) =
     (nodes, if js_includes raw MANAGED_ATTACHMENT_PATH_PREFIX then bad @ [raw] else bad)"
| "visit_node env inst md defs (k, s, e) (nodes, bad) =
     (case node_destination md defs k of
        None \<Rightarrow> (nodes, bad)
      | Some (destination, kind) \<Rightarrow>
          if destination = [] then (nodes, bad)
          else case classifyManagedAttachmentImageURL env inst destination of
            url_invalid \<Rightarrow> (nodes, if kind = kind_image then bad @ [destination] else bad)
          | url_unmanaged \<Rightarrow> (nodes, bad)
          | url_managed uid \<Rightarrow>
              (nodes @ [\<lparr>node_uid = uid, node_kind = kind, node_start = s, node_end = e\<rparr>], bad))"

definition buildManagedImageIndex ::
    "browser \<Rightarrow> instance_url \<Rightarrow> markdown \<Rightarrow> jsstring \<Rightarrow> ManagedImageIndex" where
  "buildManagedImageIndex env inst md source =
     (let tree = md_nodes md source;
          defs = fold (add_definition md) tree [];
          (nodes, bad) = fold (visit_node env inst md defs) tree ([], [])
      in \<lparr>ix_nodes = nodes, ix_uids = fold set_add (map node_uid nodes) [], ix_invalidReferences = bad\<rparr>)"

section \<open>The cache\<close>

definition EMPTY_INDEX :: ManagedImageIndex where
  "EMPTY_INDEX = \<lparr>ix_nodes = [], ix_uids = [], ix_invalidReferences = []\<rparr>"

definition INDEX_CACHE_LIMIT :: nat where
  "INDEX_CACHE_LIMIT = 128"

record managed_module =
  mod_instance :: instance_url
  indexCache :: "(jsstring \<times> ManagedImageIndex) list"

definition init_module :: managed_module where
  "init_module = \<lparr>mod_instance = \<lparr>instanceOrigin = None, instanceHost = None\<rparr>, indexCache = []\<rparr>"

definition managedImageIndex ::
    "browser \<Rightarrow> markdown \<Rightarrow> jsstring \<Rightarrow> managed_module \<Rightarrow> ManagedImageIndex \<times> managed_module" where
  "managedImageIndex env md source m =
     (if \<not> js_includes source MANAGED_ATTACHMENT_PATH_PREFIX then (EMPTY_INDEX, m)
      else case map_of (indexCache m) source of
        Some cached \<Rightarrow> (cached, m)
      | None \<Rightarrow>
          (let index = buildManagedImageIndex env (mod_instance m) md source;
               room = (if length (indexCache m) \<ge> INDEX_CACHE_LIMIT
                       then AList.delete (fst (hd (indexCache m))) (indexCache m) else indexCache m)
           in (index, m\<lparr>indexCache := AList.update source index room\<rparr>)))"

definition setManagedAttachmentInstanceUrl ::
    "browser \<Rightarrow> jsstring option \<Rightarrow> managed_module \<Rightarrow> managed_module" where
  "setManagedAttachmentInstanceUrl env instanceUrl m =
     (let t = trim (or_empty instanceUrl);
          parsed = (if t = [] then None else parse_url env t None);
          next = \<lparr>instanceOrigin = map_option url_origin parsed, instanceHost = map_option url_host parsed\<rparr>
      in if next = mod_instance m then m
         else m\<lparr>mod_instance := next, indexCache := []\<rparr>)"

text \<open>The exported readers, over the index of their source.\<close>

definition extractManagedAttachmentReferences :: "ManagedImageIndex \<Rightarrow> (jsstring \<times> media_kind \<times> nat) list" where
  "extractManagedAttachmentReferences ix =
     map (\<lambda>n. (node_uid n, node_kind n, the (node_start n))) (filter (\<lambda>n. node_start n \<noteq> None) (ix_nodes ix))"

definition findInvalidManagedAttachmentReferences :: "ManagedImageIndex \<Rightarrow> jsstring list" where
  "findInvalidManagedAttachmentReferences ix = ix_invalidReferences ix"

section \<open>Writing references\<close>

text \<open>The three global replacements escape the backslash first, then the brackets.\<close>

definition escapeMarkdownAlt :: "jsstring \<Rightarrow> jsstring" where
  "escapeMarkdownAlt v =
     concat (map (\<lambda>c. if c = 0x5d then [0x5c, 0x5d] else [c])
       (concat (map (\<lambda>c. if c = 0x5b then [0x5c, 0x5b] else [c])
         (concat (map (\<lambda>c. if c = 0x5c then [0x5c, 0x5c] else [c]) v)))))"

text \<open>\<^verbatim>\<open>replace(/[\r\n]+/g, " ")\<close>.\<close>

fun collapse_newlines :: "jsstring \<Rightarrow> jsstring" where
  "collapse_newlines [] = []"
| "collapse_newlines (c # s) =
     (if c = 0x0d \<or> c = 0x0a then
        (case s of
           d # _ \<Rightarrow> if d = 0x0d \<or> d = 0x0a then collapse_newlines s else 0x20 # collapse_newlines s
         | [] \<Rightarrow> [0x20])
      else c # collapse_newlines s)"

text \<open>\<^verbatim>\<open>s.lastIndexOf(c, from)\<close> for one code unit: the last offset at most \<open>from\<close>; \<open>None\<close> for \<open>-1\<close>.\<close>

definition last_index_of :: "jsstring \<Rightarrow> nat \<Rightarrow> nat \<Rightarrow> nat option" where
  "last_index_of s c from =
     (case filter (\<lambda>i. s ! i = c) [0..<min (length s) (from + 1)] of
        [] \<Rightarrow> None | is \<Rightarrow> Some (last is))"

definition filenameStem :: "jsstring \<Rightarrow> jsstring" where
  "filenameStem filename =
     (let normalized = trim (collapse_newlines filename);
          lastDot = last_index_of normalized 0x2e (length normalized)
      in case lastDot of
           Some i \<Rightarrow> if i > 0 then take i normalized
                     else if normalized \<noteq> [] then normalized else js ''image''
         | None \<Rightarrow> if normalized \<noteq> [] then normalized else js ''image'')"

text \<open>\<open>None\<close> is the thrown error for a name that is not an attachment's.\<close>

definition buildManagedAttachmentMarkdown :: "Attachment \<Rightarrow> jsstring option" where
  "buildManagedAttachmentMarkdown a =
     map_option (\<lambda>uid. js ''!['' @ escapeMarkdownAlt (filenameStem (att_filename a)) @ js '']('' @
         MANAGED_ATTACHMENT_PATH_PREFIX @ uid @ js '')'')
       (extractAttachmentUIDFromName (att_name a))"

definition buildManagedVideoMarkdown :: "Attachment \<Rightarrow> jsstring option" where
  "buildManagedVideoMarkdown a =
     map_option (\<lambda>uid. js ''[video:'' @ escapeMarkdownAlt (filenameStem (att_filename a)) @ js '']('' @
         MANAGED_ATTACHMENT_PATH_PREFIX @ uid @ js '')'')
       (extractAttachmentUIDFromName (att_name a))"

definition canInlineAttachment :: "Attachment \<Rightarrow> bool" where
  "canInlineAttachment a \<longleftrightarrow> isImage (att_type a) \<and> att_externalLink a = []"

definition canInlineMediaAttachment :: "Attachment \<Rightarrow> bool" where
  "canInlineMediaAttachment a \<longleftrightarrow>
     (isImage (att_type a) \<or> getAttachmentType a = js ''video/*'') \<and> att_externalLink a = []"

section \<open>Removing references\<close>

definition newline :: nat where
  "newline = 0x0a"

text \<open>One iteration of the loop: cut a range, with its line when nothing else is on it.\<close>

definition remove_range :: "nat \<times> nat \<Rightarrow> jsstring \<Rightarrow> jsstring" where
  "remove_range r result =
     (let (from, to) = r;
          lineStart = (case last_index_of result newline (from - 1) of None \<Rightarrow> 0 | Some i \<Rightarrow> i + 1);
          nextNewline = map_option (\<lambda>i. to + i) (index_of (drop to result) [newline]);
          lineEnd = (case nextNewline of None \<Rightarrow> length result | Some i \<Rightarrow> i);
          before = slice result lineStart from;
          after = slice result to lineEnd;
          removeWholeLine = (trim before = [] \<and> trim after = []);
          start = (if removeWholeLine then lineStart else from);
          end0 = (case nextNewline of
                    Some i \<Rightarrow> if removeWholeLine then i + 1 else to
                  | None \<Rightarrow> if removeWholeLine then lineEnd else to);
          end1 = (if removeWholeLine \<and> ends_with (take start result) [newline, newline] \<and>
                     starts_with_at result [newline] end0
                  then end0 + 1 else end0)
      in take start result @ drop end1 result)"

definition reference_ranges :: "jsstring list \<Rightarrow> ManagedImageIndex \<Rightarrow> (nat \<times> nat) list" where
  "reference_ranges uids ix =
     rev (sort_key fst (rev (map (\<lambda>n. (the (node_start n), the (node_end n)))
       (filter (\<lambda>n. node_uid n \<in> set uids \<and> node_start n \<noteq> None \<and> node_end n \<noteq> None) (ix_nodes ix)))))"

definition removeManagedAttachmentReferences :: "ManagedImageIndex \<Rightarrow> jsstring list \<Rightarrow> jsstring \<Rightarrow> jsstring" where
  "removeManagedAttachmentReferences ix uids source = fold remove_range (reference_ranges uids ix) source"

section \<open>Inline attachments\<close>

fun inline_marks ::
    "jsstring list \<Rightarrow> Attachment list \<Rightarrow> jsstring list \<times> jsstring list \<Rightarrow> jsstring list \<times> jsstring list" where
  "inline_marks referenced [] (groups, names) = (groups, names)"
| "inline_marks referenced (a # as) (groups, names) =
     (case extractAttachmentUIDFromName (att_name a) of
        None \<Rightarrow> inline_marks referenced as (groups, names)
      | Some uid \<Rightarrow>
          if uid \<notin> set referenced then inline_marks referenced as (groups, names)
          else inline_marks referenced as
            (case getAttachmentMotionGroupId a of None \<Rightarrow> groups | Some g \<Rightarrow> set_add g groups,
             set_add (att_name a) names))"

definition filterInlineManagedAttachments :: "ManagedImageIndex \<Rightarrow> Attachment list \<Rightarrow> Attachment list" where
  "filterInlineManagedAttachments ix as =
     (if ix_uids ix = [] then as
      else let (groups, names) = inline_marks (ix_uids ix) as ([], []) in
        filter (\<lambda>a. att_name a \<notin> set names \<and> or_empty (getAttachmentMotionGroupId a) \<notin> set groups) as)"

definition resolveManagedAttachmentImageSource ::
    "browser \<Rightarrow> instance_url \<Rightarrow> jsstring option \<Rightarrow> Attachment list \<Rightarrow> jsstring option" where
  "resolveManagedAttachmentImageSource env inst source as =
     (case or_undefined source of
        None \<Rightarrow> source
      | Some src \<Rightarrow>
          (case parseManagedAttachmentImageURL env inst src of
             None \<Rightarrow> source
           | Some uid \<Rightarrow>
               (case find (\<lambda>a. extractAttachmentUIDFromName (att_name a) = Some uid) as of
                  Some a \<Rightarrow> Some (getAttachmentUrl env a) | None \<Rightarrow> source)))"

definition resolveManagedAttachmentVideoSource ::
    "browser \<Rightarrow> instance_url \<Rightarrow> jsstring option \<Rightarrow> Attachment list \<Rightarrow> (jsstring \<times> jsstring \<times> jsstring) option" where
  "resolveManagedAttachmentVideoSource env inst source as =
     (case or_undefined source of
        None \<Rightarrow> None
      | Some src \<Rightarrow>
          (case parseManagedAttachmentImageURL env inst src of
             None \<Rightarrow> None
           | Some uid \<Rightarrow>
               map_option (\<lambda>a. (getAttachmentUrl env a, att_filename a, att_type a))
                 (find (\<lambda>a. extractAttachmentUIDFromName (att_name a) = Some uid \<and>
                    getAttachmentType a = js ''video/*'') as)))"


section \<open>The cache is bounded and transparent\<close>

datatype module_call = Read_source jsstring | Set_instance_url "jsstring option"

fun module_step :: "browser \<Rightarrow> markdown \<Rightarrow> managed_module \<Rightarrow> module_call \<Rightarrow> managed_module" where
  "module_step env md m (Read_source source) = snd (managedImageIndex env md source m)"
| "module_step env md m (Set_instance_url u) = setManagedAttachmentInstanceUrl env u m"

definition cache_ok :: "browser \<Rightarrow> markdown \<Rightarrow> managed_module \<Rightarrow> bool" where
  "cache_ok env md m \<longleftrightarrow> distinct (map fst (indexCache m)) \<and> length (indexCache m) \<le> INDEX_CACHE_LIMIT \<and>
     (\<forall>(source, ix) \<in> set (indexCache m). ix = buildManagedImageIndex env (mod_instance m) md source)"

lemma length_update_new: "k \<notin> fst ` set al \<Longrightarrow> length (AList.update k v al) = Suc (length al)"
  by (induction al) auto

lemma set_update_new: "k \<notin> fst ` set al \<Longrightarrow> set (AList.update k v al) = insert (k, v) (set al)"
  by (induction al) auto

lemma length_delete_hd:
  "distinct (map fst al) \<Longrightarrow> al \<noteq> [] \<Longrightarrow> Suc (length (AList.delete (fst (hd al)) al)) = length al"
proof (cases al)
  case (Cons x xs)
  moreover assume "distinct (map fst al)"
  ultimately have "filter (\<lambda>p. fst x \<noteq> fst p) xs = xs"
    by (intro filter_True) (metis distinct.simps(2) image_eqI list.map(2) list.set_map)
  with Cons show ?thesis by (simp add: AList.delete_eq case_prod_unfold)
qed simp

lemma cache_ok_read:
  assumes "cache_ok env md m"
  shows "cache_ok env md (snd (managedImageIndex env md source m))"
proof (cases "js_includes source MANAGED_ATTACHMENT_PATH_PREFIX \<and> map_of (indexCache m) source = None")
  case False
  with assms show ?thesis by (auto simp: managedImageIndex_def split: option.splits)
next
  case True
  define al where "al = (if length (indexCache m) \<ge> INDEX_CACHE_LIMIT
    then AList.delete (fst (hd (indexCache m))) (indexCache m) else indexCache m)"
  have old: "distinct (map fst (indexCache m))" "length (indexCache m) \<le> INDEX_CACHE_LIMIT"
    using assms by (auto simp: cache_ok_def)
  have sub: "set al \<subseteq> set (indexCache m)"
    by (auto simp: al_def AList.delete_eq)
  have dist: "distinct (map fst al)" using old(1) by (simp add: al_def distinct_delete)
  have "indexCache m \<noteq> []" if "length (indexCache m) \<ge> INDEX_CACHE_LIMIT"
    using that by (auto simp: INDEX_CACHE_LIMIT_def)
  with length_delete_hd [OF old(1)] old(2) have len: "Suc (length al) \<le> INDEX_CACHE_LIMIT"
    by (auto simp: al_def)
  from True have "source \<notin> fst ` set (indexCache m)" by (simp add: map_of_eq_None_iff)
  with sub have new: "source \<notin> fst ` set al" by blast
  have "snd (managedImageIndex env md source m) =
    m\<lparr>indexCache := AList.update source (buildManagedImageIndex env (mod_instance m) md source) al\<rparr>"
    using True by (simp add: managedImageIndex_def al_def Let_def)
  with new dist len sub assms show ?thesis
    by (auto simp: cache_ok_def distinct_update length_update_new set_update_new)
qed

lemma cache_ok_step: "cache_ok env md m \<Longrightarrow> cache_ok env md (module_step env md m c)"
proof (cases c)
  case (Set_instance_url u)
  moreover assume "cache_ok env md m"
  ultimately show ?thesis
    by (simp add: setManagedAttachmentInstanceUrl_def Let_def cache_ok_def)
qed (simp add: cache_ok_read)

interpretation index_module: reducer "module_step env md" "\<lambda>_ _. True" "cache_ok env md"
  by unfold_locales (rule cache_ok_step)

lemma legal_run_True [simp]: "legal_run step (\<lambda>_ _. True) s as"
  by (induction as arbitrary: s) simp_all

lemma cache_ok_init: "cache_ok env md init_module"
  by (simp add: cache_ok_def init_module_def)

text \<open>
  C16. After any sequence of reads and instance-URL changes the cache holds at most 128 entries, and
  a read returns what parsing afresh under the current instance URL would.
\<close>

theorem index_cache_transparent:
  assumes "m = foldl (module_step env md) init_module calls"
  shows "length (indexCache m) \<le> 128 \<and>
    fst (managedImageIndex env md source m) =
      (if js_includes source MANAGED_ATTACHMENT_PATH_PREFIX
       then buildManagedImageIndex env (mod_instance m) md source else EMPTY_INDEX)"
proof -
  have ok: "cache_ok env md m"
    unfolding assms by (rule index_module.run_inv [OF cache_ok_init]) simp
  have "ix = buildManagedImageIndex env (mod_instance m) md source"
    if "map_of (indexCache m) source = Some ix" for ix
    using ok map_of_SomeD [OF that] by (auto simp: cache_ok_def)
  with ok show ?thesis
    by (auto simp: cache_ok_def managedImageIndex_def INDEX_CACHE_LIMIT_def Let_def split: option.splits)
qed

definition empty_markdown :: markdown where
  "empty_markdown = \<lparr>md_nodes = (\<lambda>_. []), normalizeIdentifier = (\<lambda>i. i)\<rparr>"

theorem index_cache_transparent_witness:
  "length (indexCache (foldl (module_step sample_browser empty_markdown) init_module [Set_instance_url None])) \<le> 128 \<and>
   fst (managedImageIndex sample_browser empty_markdown (js ''a'')
     (foldl (module_step sample_browser empty_markdown) init_module [Set_instance_url None])) =
   (if js_includes (js ''a'') MANAGED_ATTACHMENT_PATH_PREFIX
    then buildManagedImageIndex sample_browser (mod_instance
      (foldl (module_step sample_browser empty_markdown) init_module [Set_instance_url None])) empty_markdown (js ''a'')
    else EMPTY_INDEX)"
  by (rule index_cache_transparent) (rule refl)


section \<open>References the editor writes\<close>

lemma uid_no_separator:
  "UID_PATTERN uid \<Longrightarrow> 0x2f \<notin> set uid \<and> 0x25 \<notin> set uid"
  by (auto simp: UID_PATTERN_def char_class_defs)

lemma js_includes_single: "js_includes s [c] \<longleftrightarrow> c \<in> set s"
  by (auto simp: js_includes_sublist sublist_def) (meson in_set_conv_decomp)

lemma classify_written:
  assumes "UID_PATTERN uid"
    and "parse_url env (MANAGED_ATTACHMENT_PATH_PREFIX @ uid) (Some (location_origin env)) = Some u"
    and "url_pathname u = MANAGED_ATTACHMENT_PATH_PREFIX @ uid" "url_search u = []" "url_hash u = []"
  shows "classifyManagedAttachmentImageURL env inst (MANAGED_ATTACHMENT_PATH_PREFIX @ uid) = url_managed uid"
proof -
  note uid = assms(1)
  have head: "starts_with (MANAGED_ATTACHMENT_PATH_PREFIX @ uid) (js ''/'')"
    "\<not> starts_with (MANAGED_ATTACHMENT_PATH_PREFIX @ uid) (js ''//'')"
    "\<not> hasScheme (MANAGED_ATTACHMENT_PATH_PREFIX @ uid)"
    by (simp_all add: MANAGED_ATTACHMENT_PATH_PREFIX_def js_str hasScheme_def char_class_defs)
  have percent: "\<not> js_includes (MANAGED_ATTACHMENT_PATH_PREFIX @ uid) (js ''%'')"
    using uid_no_separator [OF uid]
    by (simp add: js_Cons js_includes_single MANAGED_ATTACHMENT_PATH_PREFIX_def)
  have "split_on 0x2f uid = [uid]"
    using uid_no_separator [OF uid] by (simp add: split_on_notin)
  with head percent assms(2-5) uid show ?thesis
    by (simp add: classifyManagedAttachmentImageURL_def)
qed

text \<open>
  The destination the editor writes for an attachment is classified as a managed reference to
  that attachment, whatever instance URL is configured, when the URL API keeps a root-relative path
  without query and fragment as it is.
\<close>

lemma written_reference_is_managed:
  assumes "extractAttachmentUIDFromName name = Some uid"
    and "parse_url env (MANAGED_ATTACHMENT_PATH_PREFIX @ uid) (Some (location_origin env)) = Some u"
    and "url_pathname u = MANAGED_ATTACHMENT_PATH_PREFIX @ uid" "url_search u = []" "url_hash u = []"
  shows "classifyManagedAttachmentImageURL env inst (MANAGED_ATTACHMENT_PATH_PREFIX @ uid) = url_managed uid"
proof -
  from assms(1) have uid: "UID_PATTERN uid"
    by (auto simp: extractAttachmentUIDFromName_def Let_def split: if_splits)
  then show ?thesis using assms(2-5) by (rule classify_written)
qed

lemma written_reference_is_managed_witness:
  "classifyManagedAttachmentImageURL sample_browser \<lparr>instanceOrigin = None, instanceHost = None\<rparr>
     (MANAGED_ATTACHMENT_PATH_PREFIX @ js ''a1'') = url_managed (js ''a1'')"
  by (rule written_reference_is_managed [where name = "js ''attachments/a1''" and
        u = "the (parse_url sample_browser (js ''/file/attachments/a1'') (Some (js ''https://h'')))"])
     (simp_all add: extractAttachmentUIDFromName_def ATTACHMENT_NAME_PREFIX_def UID_PATTERN_def js_str
       starts_with_def char_class_defs sample_browser_def plain_path_def MANAGED_ATTACHMENT_PATH_PREFIX_def)

section \<open>What removal removes\<close>

definition visible :: "jsstring \<Rightarrow> jsstring" where
  "visible s = filter (\<lambda>c. \<not> is_js_space c) s"

lemma visible_append [simp]: "visible (s @ t) = visible s @ visible t"
  by (simp add: visible_def)

lemma visible_eq_Nil: "visible s = [] \<longleftrightarrow> trim s = []"
  by (simp add: visible_def trim_eq_Nil filter_empty_conv)

lemma is_js_space_newline [simp]: "is_js_space newline"
  by (simp add: is_js_space_def newline_def)

lemma last_index_of_Some: "last_index_of s c from = Some i \<Longrightarrow> i \<le> from \<and> i < length s \<and> s ! i = c"
proof -
  assume a: "last_index_of s c from = Some i"
  let ?is = "filter (\<lambda>i. s ! i = c) [0..<min (length s) (from + 1)]"
  from a have "?is \<noteq> []" "i = last ?is"
    by (auto simp: last_index_of_def split: list.splits)
  then have "i \<in> set ?is" using last_in_set by blast
  then show ?thesis by auto
qed

lemma index_of_single_take: "index_of s [c] = Some i \<Longrightarrow> i < length s \<and> s ! i = c"
proof (induction s arbitrary: i)
  case (Cons d s)
  then show ?case by (auto simp: starts_with_def split: if_splits)
qed (auto split: if_splits)

lemma drop_visible_slice: "i \<le> j \<Longrightarrow> visible (drop i s) = visible (slice s i j) @ visible (drop j s)"
proof -
  assume "i \<le> j"
  then have "drop i s = slice s i j @ drop j s"
    by (metis append_take_drop_id drop_drop le_add_diff_inverse2 slice_def)
  then show ?thesis by (metis visible_append)
qed

lemma take_visible_slice: "i \<le> j \<Longrightarrow> visible (take j s) = visible (take i s) @ visible (slice s i j)"
proof -
  assume "i \<le> j"
  then have "take j s = take i s @ slice s i j"
    by (metis le_add_diff_inverse slice_def take_add)
  then show ?thesis by simp
qed

text \<open>A cut takes at least the range, and around it only white space.\<close>

lemma remove_range_cut:
  assumes "from < to" "to \<le> length s" "\<not> is_js_space (s ! from)"
  obtains i j where "remove_range (from, to) s = take i s @ drop j s" "i \<le> from" "to \<le> j"
    "visible (slice s i from) = []" "visible (slice s to j) = []"
proof -
  define lineStart where
    "lineStart = (case last_index_of s newline (from - 1) of None \<Rightarrow> 0 | Some i \<Rightarrow> i + 1)"
  define nextNewline where "nextNewline = map_option (\<lambda>i. to + i) (index_of (drop to s) [newline])"
  define lineEnd where "lineEnd = (case nextNewline of None \<Rightarrow> length s | Some i \<Rightarrow> i)"
  define whole where "whole \<longleftrightarrow> trim (slice s lineStart from) = [] \<and> trim (slice s to lineEnd) = []"
  define end0 where "end0 = (case nextNewline of Some i \<Rightarrow> if whole then i + 1 else to
    | None \<Rightarrow> if whole then lineEnd else to)"
  define start where "start = (if whole then lineStart else from)"
  define end1 where "end1 = (if whole \<and> ends_with (take start s) [newline, newline] \<and>
    starts_with_at s [newline] end0 then end0 + 1 else end0)"
  have cut: "remove_range (from, to) s = take start s @ drop end1 s"
    by (simp only: remove_range_def Let_def prod.case end1_def end0_def start_def whole_def
        lineEnd_def nextNewline_def lineStart_def)
  have "lineStart \<le> from"
  proof (cases "last_index_of s newline (from - 1)")
    case (Some i)
    then have "i \<le> from - 1" "s ! i = newline" using last_index_of_Some by blast+
    with assms(3) have "i < from" by (cases "from = 0") auto
    with Some show ?thesis by (simp add: lineStart_def)
  qed (simp add: lineStart_def)
  moreover have nl: "i < length s \<and> to \<le> i \<and> s ! i = newline" if "nextNewline = Some i" for i
    using that index_of_single_take [of "drop to s" newline] assms(2)
    by (auto simp: nextNewline_def)
  have lineEnd: "to \<le> lineEnd" "lineEnd \<le> length s"
    using nl assms(2) by (auto simp: lineEnd_def split: option.splits)
  show thesis
  proof (cases whole)
    case False
    then show thesis using cut by (intro that [of "from" to]) (auto simp: end1_def end0_def start_def visible_def split: option.splits)
  next
    case True
    then have blank: "visible (slice s lineStart from) = []" "visible (slice s to lineEnd) = []"
      by (simp_all add: whole_def visible_eq_Nil)
    have one: "visible (slice s i (Suc i)) = []" if "starts_with_at s [newline] i" for i
      using that by (auto simp: starts_with_at_def starts_with_def slice_def visible_def)
    have grow: "visible (slice s to (Suc i)) = []"
      if "to \<le> i" "visible (slice s to i) = []" "visible (slice s i (Suc i)) = []" for i
      using slice_append_slice [of to i "Suc i" s] that by (metis append_Nil2 le_SucI le_refl visible_append)
    have "to \<le> end0 \<and> visible (slice s to end0) = []"
    proof (cases nextNewline)
      case None
      with True blank lineEnd show ?thesis by (simp add: end0_def)
    next
      case (Some i)
      then have "starts_with_at s [newline] i"
        using nl [OF Some] by (simp add: starts_with_at_def starts_with_def take_Suc_conv_app_nth hd_drop_conv_nth take_Suc)
      with Some True blank nl [OF Some] show ?thesis
        by (auto simp: end0_def lineEnd_def intro!: grow one)
    qed
    then have "to \<le> end1 \<and> visible (slice s to end1) = []"
      by (auto simp: end1_def intro!: grow one)
    with cut blank True \<open>lineStart \<le> from\<close> show thesis
      by (intro that [of start end1]) (auto simp: start_def)
  qed
qed


text \<open>
  Ranges from the last to the first: each is non-empty, begins and ends with a visible code unit, and
  ends before the one handled just before it begins.
\<close>

fun ranges_ok :: "jsstring \<Rightarrow> nat \<Rightarrow> (nat \<times> nat) list \<Rightarrow> bool" where
  "ranges_ok s hi [] = True"
| "ranges_ok s hi ((a, b) # rs) = (a < b \<and> b \<le> hi \<and> \<not> is_js_space (s ! a) \<and>
     \<not> is_js_space (s ! (b - 1)) \<and> ranges_ok s a rs)"

text \<open>The visible text outside the ranges.\<close>

fun visible_outside :: "jsstring \<Rightarrow> nat \<Rightarrow> (nat \<times> nat) list \<Rightarrow> jsstring" where
  "visible_outside s hi [] = visible (take hi s)"
| "visible_outside s hi ((a, b) # rs) = visible_outside s a rs @ visible (slice s b hi)"

lemma ranges_ok_bound:
  assumes "ranges_ok s hi rs" "visible (slice s i hi) = []" "i \<le> hi" "hi \<le> length s"
  shows "ranges_ok s i rs"
proof (cases rs)
  case (Cons r rest)
  obtain a b where r: "r = (a, b)" by (cases r)
  from assms(1) Cons r have ab: "a < b" "b \<le> hi" "\<not> is_js_space (s ! (b - 1))" by auto
  have "b \<le> i"
  proof (rule ccontr)
    assume "\<not> b \<le> i"
    then have "b - 1 < hi" "i \<le> b - 1" using ab by auto
    then have "s ! (b - 1) \<in> set (slice s i hi)"
      using assms(4) by (auto simp: slice_def in_set_conv_nth intro!: exI [of _ "b - 1 - i"] arg_cong [of _ _ "(!) s"])
    with assms(2) ab(3) show False by (auto simp: visible_def filter_empty_conv)
  qed
  with assms(1) Cons r show ?thesis by simp
qed simp

lemma ranges_ok_cong:
  "ranges_ok s hi rs \<Longrightarrow> take hi s = take hi t \<Longrightarrow> hi \<le> length s \<Longrightarrow> hi \<le> length t \<Longrightarrow> ranges_ok t hi rs"
proof (induction s hi rs rule: ranges_ok.induct)
  case (2 s hi a b rs)
  then have ab: "a < b" "b \<le> hi" by auto
  have "s ! k = t ! k" if "k < hi" for k
    using that 2(3) by (metis nth_take)
  moreover have "take a s = take a t"
    using 2(3) ab by (metis le_trans less_imp_le min.absorb1 take_take)
  ultimately show ?case using 2 ab by auto
qed simp

lemma visible_outside_cong:
  "ranges_ok s hi rs \<Longrightarrow> take hi s = take hi t \<Longrightarrow> visible_outside s hi rs = visible_outside t hi rs"
proof (induction s hi rs rule: ranges_ok.induct)
  case (2 s hi a b rs)
  then have ab: "a < b" "b \<le> hi" by auto
  have "take a s = take a t"
    using 2(3) ab by (metis le_trans less_imp_le min.absorb1 take_take)
  moreover have "slice s b hi = slice t b hi"
    using 2(3) by (simp add: slice_def flip: drop_take)
  ultimately show ?case using 2 ab by auto
qed simp

lemma visible_outside_shrink:
  assumes "ranges_ok s hi rs" "ranges_ok s i rs" "visible (slice s i hi) = []" "i \<le> hi"
  shows "visible_outside s hi rs = visible_outside s i rs"
proof (cases rs)
  case Nil
  with assms show ?thesis by (simp add: take_visible_slice [of i hi])
next
  case (Cons r rest)
  obtain a b where r: "r = (a, b)" by (cases r)
  with assms Cons have "b \<le> i" by simp
  then have "slice s b hi = slice s b i @ slice s i hi"
    using assms(4) by (simp add: slice_append_slice)
  with assms(3) Cons r show ?thesis by simp
qed

lemma remove_ranges_visible:
  "ranges_ok s hi rs \<Longrightarrow> hi \<le> length s \<Longrightarrow>
   visible (fold remove_range rs s) = visible_outside s hi rs @ visible (drop hi s)"
proof (induction rs arbitrary: s hi)
  case Nil
  then show ?case by (metis append_take_drop_id fold_simps(1) visible_append visible_outside.simps(1))
next
  case (Cons r rs)
  obtain a b where r: "r = (a, b)" by (cases r)
  with Cons.prems have ab: "a < b" "b \<le> hi" "\<not> is_js_space (s ! a)" "ranges_ok s a rs" by auto
  with Cons.prems obtain i j where ij: "remove_range r s = take i s @ drop j s" "i \<le> a" "b \<le> j"
    "visible (slice s i a) = []" "visible (slice s b j) = []"
    using remove_range_cut [of a b s] r by (metis le_trans)
  define t where "t = remove_range r s"
  from ab Cons.prems have la: "a \<le> length s" by simp
  have i: "ranges_ok s i rs" using ranges_ok_bound [OF ab(4) ij(4,2) la] .
  have t: "take i t = take i s" "i \<le> length t" "drop i t = drop j s"
    using ij(1,2) la by (simp_all add: t_def)
  then have ti: "ranges_ok t i rs"
    using ranges_ok_cong [OF i, of t] ij(2) la by simp
  have "visible (fold remove_range (r # rs) s) = visible (fold remove_range rs t)"
    by (simp add: t_def)
  also have "\<dots> = visible_outside t i rs @ visible (drop i t)"
    by (rule Cons.IH [OF ti t(2)])
  also have "visible_outside t i rs = visible_outside s i rs"
    using visible_outside_cong [OF i, of t] t(1) by simp
  also have "\<dots> = visible_outside s a rs"
    using visible_outside_shrink [OF ab(4) i ij(4,2)] by simp
  also have "visible (drop i t) = visible (drop b s)"
    using drop_visible_slice [OF ij(3), of s] ij(5) t(3) by simp
  also have "\<dots> = visible (slice s b hi) @ visible (drop hi s)"
    by (rule drop_visible_slice [OF ab(2)])
  finally show ?case using r by simp
qed

section \<open>The references of a set of attachments\<close>

definition referenced_at :: "jsstring list \<Rightarrow> ManagedImageIndex \<Rightarrow> nat \<times> nat \<Rightarrow> bool" where
  "referenced_at uids ix r \<longleftrightarrow>
     (\<exists>n \<in> set (ix_nodes ix). node_uid n \<in> set uids \<and> node_start n = Some (fst r) \<and> node_end n = Some (snd r))"

text \<open>The text left when the references are taken out of the source.\<close>

definition text_outside :: "jsstring \<Rightarrow> (nat \<times> nat \<Rightarrow> bool) \<Rightarrow> jsstring" where
  "text_outside s R = map ((!) s) (filter (\<lambda>i. \<not> (\<exists>r. R r \<and> fst r \<le> i \<and> i < snd r)) [0..<length s])"

definition disjoint_ranges :: "nat \<times> nat \<Rightarrow> nat \<times> nat \<Rightarrow> bool" where
  "disjoint_ranges r r' \<longleftrightarrow> snd r \<le> fst r' \<or> snd r' \<le> fst r"

text \<open>
  What a parser gives: a reference is a part of the source that begins and ends with a visible unit, and
  two nodes of the index that refer to the attachments do not overlap.
\<close>

definition references_apart :: "jsstring \<Rightarrow> jsstring list \<Rightarrow> ManagedImageIndex \<Rightarrow> bool" where
  "references_apart source uids ix \<longleftrightarrow>
     (\<forall>a b. referenced_at uids ix (a, b) \<longrightarrow>
        a < b \<and> b \<le> length source \<and> \<not> is_js_space (source ! a) \<and> \<not> is_js_space (source ! (b - 1))) \<and>
     sorted_wrt (\<lambda>n n'. \<forall>a b a' b'. node_uid n \<in> set uids \<and> node_uid n' \<in> set uids \<and>
        node_start n = Some a \<and> node_end n = Some b \<and> node_start n' = Some a' \<and> node_end n' = Some b' \<longrightarrow>
        b \<le> a' \<or> b' \<le> a) (ix_nodes ix)"

lemma reference_ranges_set: "set (reference_ranges uids ix) = Collect (referenced_at uids ix)"
  by (force simp: reference_ranges_def referenced_at_def)

lemma sorted_wrt_rev_sort_key: "sorted_wrt (\<lambda>x y. f y \<le> f x) (rev (sort_key f xs))"
  using sorted_sort_key [of f xs] by (simp add: sorted_wrt_rev sorted_map)

lemma reference_ranges_ok:
  assumes "references_apart source uids ix"
  shows "ranges_ok source (length source) (reference_ranges uids ix)"
proof -
  define L where "L = map (\<lambda>n. (the (node_start n), the (node_end n)))
    (filter (\<lambda>n. node_uid n \<in> set uids \<and> node_start n \<noteq> None \<and> node_end n \<noteq> None) (ix_nodes ix))"
  have rs: "reference_ranges uids ix = rev (sort_key fst (rev L))" by (simp add: reference_ranges_def L_def)
  have el: "\<forall>r \<in> set L. fst r < snd r \<and> snd r \<le> length source \<and> \<not> is_js_space (source ! fst r) \<and>
      \<not> is_js_space (source ! (snd r - 1))"
    using assms reference_ranges_set [of uids ix] unfolding rs references_apart_def by auto
  have "sorted_wrt disjoint_ranges L"
  proof -
    have "sorted_wrt (\<lambda>n n'. \<forall>a b a' b'. node_uid n \<in> set uids \<and> node_uid n' \<in> set uids \<and>
        node_start n = Some a \<and> node_end n = Some b \<and> node_start n' = Some a' \<and> node_end n' = Some b' \<longrightarrow>
        b \<le> a' \<or> b' \<le> a)
      (filter (\<lambda>n. node_uid n \<in> set uids \<and> node_start n \<noteq> None \<and> node_end n \<noteq> None) (ix_nodes ix))"
      using assms unfolding references_apart_def by (intro sorted_wrt_filter) simp
    then show ?thesis
      unfolding L_def sorted_wrt_map by (rule sorted_wrt_mono_rel [rotated]) (auto simp: disjoint_ranges_def)
  qed
  moreover have "\<not> disjoint_ranges r r" if "r \<in> set L" for r using that el by (auto simp: disjoint_ranges_def)
  ultimately have d: "distinct L" "\<forall>r \<in> set L. \<forall>r' \<in> set L. r \<noteq> r' \<longrightarrow> disjoint_ranges r r'"
    by (induction L) (auto simp: disjoint_ranges_def)
  have "ranges_ok source hi rs" if "sorted_wrt (\<lambda>x y. fst y \<le> fst x) rs" "distinct rs" "set rs \<subseteq> set L"
    "\<forall>r \<in> set rs. snd r \<le> hi" for hi rs
    using that
  proof (induction rs arbitrary: hi)
    case (Cons r rs)
    have "snd r' \<le> fst r" if "r' \<in> set rs" for r'
    proof -
      have "r \<in> set L" "r' \<in> set L" "r \<noteq> r'" "fst r' \<le> fst r" using Cons.prems that by auto
      then show ?thesis using d(2) el by (fastforce simp: disjoint_ranges_def)
    qed
    then show ?case using Cons el by (cases r) auto
  qed simp
  from this [OF sorted_wrt_rev_sort_key, of "rev L" "length source"] show ?thesis
    unfolding rs using d(1) el by auto
qed

lemma map_nth_slice: "j \<le> length s \<Longrightarrow> map ((!) s) [i..<j] = slice s i j"
  by (intro nth_equalityI) (simp_all add: slice_def)

lemma visible_outside_text:
  assumes "ranges_ok s hi rs" "hi \<le> length s"
  shows "visible_outside s hi rs =
    visible (map ((!) s) (filter (\<lambda>i. \<not> (\<exists>r \<in> set rs. fst r \<le> i \<and> i < snd r)) [0..<hi]))"
  using assms
proof (induction s hi rs rule: visible_outside.induct)
  case (1 s hi)
  then have "map ((!) s) [0..<hi] = take hi s" using map_nth_slice [of hi s 0] by (simp add: slice_def)
  then show ?case by simp
next
  case step: (2 s hi a b rs)
  have ab: "a < b" "b \<le> hi" "ranges_ok s a rs" using step.prems by auto
  have below: "snd r \<le> a" if "r \<in> set rs" for r
    using that ab(3) by (induction s a rs rule: ranges_ok.induct) fastforce+
  let ?P = "\<lambda>rs i. \<not> (\<exists>r \<in> set rs. fst r \<le> i \<and> i < snd r)"
  have "[0..<hi] = [0..<a] @ [a..<b] @ [b..<hi]" 
    using ab upt_add_eq_append [of 0 a "hi - a"] upt_add_eq_append [of a b "hi - b"] by simp
  moreover have "filter (?P ((a, b) # rs)) [0..<a] = filter (?P rs) [0..<a]" by (intro filter_cong) auto
  moreover have "filter (?P ((a, b) # rs)) [a..<b] = []" by (simp add: filter_empty_conv)
  moreover have "filter (?P ((a, b) # rs)) [b..<hi] = [b..<hi]" using below ab(1) by (intro filter_True) fastforce
  moreover have "map ((!) s) [b..<hi] = slice s b hi"
    using step.prems(2) by (rule map_nth_slice)
  ultimately show ?case using step.IH [OF ab(3)] ab(1,2) step.prems(2) by simp
qed

text \<open>
  C17. Removing the references of some attachments deletes, besides white space, exactly the text of the
  nodes that refer to them: everything else that is visible stays, in order. The nodes lie in the source,
  begin and end with a visible unit and do not overlap, in whatever order the index lists them.
\<close>

theorem removal_keeps_other_text:
  assumes "references_apart source uids ix"
  shows "visible (removeManagedAttachmentReferences ix uids source) =
    visible (text_outside source (referenced_at uids ix))"
  using remove_ranges_visible [OF reference_ranges_ok [OF assms]]
    visible_outside_text [OF reference_ranges_ok [OF assms]] reference_ranges_set [of uids ix]
  by (simp add: removeManagedAttachmentReferences_def visible_def text_outside_def Bex_def)

definition sample_index :: ManagedImageIndex where
  "sample_index =
     \<lparr>ix_nodes = [\<lparr>node_uid = js ''a'', node_kind = kind_image, node_start = Some 2, node_end = Some 6\<rparr>,
        \<lparr>node_uid = js ''b'', node_kind = kind_image, node_start = Some 7, node_end = Some 8\<rparr>],
      ix_uids = [js ''a'', js ''b''], ix_invalidReferences = []\<rparr>"

theorem removal_keeps_other_text_witness:
  "visible (removeManagedAttachmentReferences sample_index [js ''a''] (js ''x ![a] y'')) =
   visible (text_outside (js ''x ![a] y'') (referenced_at [js ''a''] sample_index))"
  by (rule removal_keeps_other_text)
     (simp add: references_apart_def referenced_at_def sample_index_def js_str is_js_space_def)

definition nested_source :: jsstring where
  "nested_source = js ''[video:![x](/file/attachments/a)](/file/attachments/a) tail of the memo''"

definition nested_url :: jsstring where
  "nested_url = js ''/file/attachments/a''"

definition nested_markdown :: markdown where
  "nested_markdown =
     \<lparr>md_nodes = (\<lambda>_. [(OtherNode, Some 0, Some 71), (OtherNode, Some 0, Some 71),
        (Link nested_url [Some (js ''video:''), None], Some 0, Some 54),
        (OtherNode, Some 1, Some 7), (Image nested_url, Some 7, Some 32),
        (OtherNode, Some 54, Some 71)]),
      normalizeIdentifier = (\<lambda>i. i)\<rparr>"

lemma last_index_of_absent: "c \<notin> set s \<Longrightarrow> last_index_of s c i = None"
  by (cases "last_index_of s c i") (auto dest: last_index_of_Some)

lemma index_of_absent: "c \<notin> set s \<Longrightarrow> index_of s [c] = None"
  by (induction s) (auto simp: starts_with_def)

text \<open>On a single line, a range with other visible text before it is cut as it is.\<close>

lemma remove_range_one_line:
  assumes "newline \<notin> set s" "trim (take a s) \<noteq> []"
  shows "remove_range (a, b) s = take a s @ drop b s"
proof -
  have "newline \<notin> set (drop b s)" using assms(1) by (metis in_set_dropD)
  with assms show ?thesis
    by (simp add: remove_range_def Let_def last_index_of_absent index_of_absent slice_def)
qed

lemma remove_range_whole_line:
  assumes "newline \<notin> set s" "trim (drop b s) = []"
  shows "remove_range (0, b) s = []"
proof -
  have lookup: "index_of (drop b s) [newline] = None" "last_index_of s newline (0 - 1) = None"
    using assms(1) by (metis in_set_dropD index_of_absent, metis last_index_of_absent)
  have "slice s b (length s) = drop b s" "trim [] = []" "\<not> ends_with [] [newline, newline]"
    by (simp_all add: slice_def trim_def trim_start_def trim_end_def ends_with_def)
  then show ?thesis
    unfolding remove_range_def Let_def prod.case lookup option.map option.case
    by (simp add: assms(2))
qed

lemma nested_destination:
  "classifyManagedAttachmentImageURL sample_browser inst nested_url = url_managed (js ''a'')"
proof -
  let ?u = "the (parse_url sample_browser (js ''/file/attachments/a'') (Some (js ''https://h'')))"
  have path: "nested_url = MANAGED_ATTACHMENT_PATH_PREFIX @ js ''a''"
    by (simp add: nested_url_def MANAGED_ATTACHMENT_PATH_PREFIX_def js_str)
  show ?thesis
    unfolding path
    by (rule classify_written [where u = ?u])
       (simp_all add: UID_PATTERN_def js_str char_class_defs sample_browser_def plain_path_def
         MANAGED_ATTACHMENT_PATH_PREFIX_def)
qed

lemma nested_ranges:
  "reference_ranges [js ''a''] (buildManagedImageIndex sample_browser inst nested_markdown s) = [(7, 32), (0, 54)]"
proof -
  have "nested_url \<noteq> []" "starts_with (js ''video:'') (js ''video:'')"
    by (simp_all add: nested_url_def starts_with_def)
  then show ?thesis
    by (simp add: buildManagedImageIndex_def nested_markdown_def add_definition_def
        node_destination_def nested_destination link_label_def reference_ranges_def Let_def)
qed

lemma nested_no_newline: "newline \<notin> set nested_source"
  by (simp add: nested_source_def js_str newline_def)

text \<open>
  With an image inside the label of a video link, both of the same attachment, the loop's second
  cut uses an end offset that the first cut has made stale: removing the attachment from
  \<^verbatim>\<open>[video:![x](/file/attachments/a)](/file/attachments/a) tail of the memo\<close> deletes the tail as well.
\<close>

lemma nested_reference_loses_text:
  "removeManagedAttachmentReferences
     (buildManagedImageIndex sample_browser \<lparr>instanceOrigin = None, instanceHost = None\<rparr> nested_markdown nested_source)
     [js ''a''] nested_source = []"
proof -
  have "trim (take 7 nested_source) \<noteq> []"
    by (simp add: trim_eq_Nil nested_source_def js_str is_js_space_def)
  then have first: "remove_range (7, 32) nested_source = take 7 nested_source @ drop 32 nested_source"
    by (rule remove_range_one_line [OF nested_no_newline])
  have "newline \<notin> set (take 7 nested_source @ drop 32 nested_source)"
    using nested_no_newline by (auto dest: in_set_takeD in_set_dropD)
  then have "remove_range (0, 54) (take 7 nested_source @ drop 32 nested_source) = []"
    by (rule remove_range_whole_line) (simp add: trim_eq_Nil nested_source_def)
  with first show ?thesis by (simp add: removeManagedAttachmentReferences_def nested_ranges)
qed

end
