(* ===== verification/MediaItems.thy ===== *)
theory MediaItems
  imports ManagedAttachment "HOL-Library.Multiset"
begin

text \<open>
  From attachments to what the viewer and the editor show (\<^verbatim>\<open>web/src/utils/media-item.ts\<close> and
  \<^verbatim>\<open>components/MemoEditor/types/attachment.ts\<close>): motion photos joined into one item, single items, the
  de-duplication by identifier, the items of local files, and the editor's list. Building an item can
  throw on a malformed external link, so the builders return an option.
\<close>

section \<open>Visual items\<close>

datatype item_kind = item_image | item_video | item_motion

datatype PreviewMediaItem =
    ImagePreview jsstring jsstring jsstring jsstring "Attachment list"
  | VideoPreview jsstring jsstring jsstring jsstring "Attachment list"
  | MotionPreview jsstring jsstring jsstring jsstring "int option" "Attachment list"

record AttachmentVisualItem =
  vi_id :: jsstring
  vi_kind :: item_kind
  vi_filename :: jsstring
  vi_posterUrl :: jsstring
  vi_sourceUrl :: jsstring
  vi_attachmentNames :: "jsstring list"
  vi_attachments :: "Attachment list"
  vi_previewItem :: PreviewMediaItem
  vi_mimeType :: jsstring

definition buildSingleAttachmentItem :: "browser \<Rightarrow> Attachment \<Rightarrow> AttachmentVisualItem option" where
  "buildSingleAttachmentItem env a =
     do {
       let attachmentType = getAttachmentType a;
       let sourceUrl = getAttachmentUrl env a;
       posterUrl \<leftarrow> (if attachmentType = js ''image/*'' then getAttachmentThumbnailUrl env a else Some sourceUrl);
       let video = (attachmentType = js ''video/*'');
       Some
         \<lparr>vi_id = att_name a,
          vi_kind = (if video then item_video else item_image),
          vi_filename = att_filename a,
          vi_posterUrl = posterUrl,
          vi_sourceUrl = sourceUrl,
          vi_attachmentNames = [att_name a],
          vi_attachments = [a],
          vi_previewItem =
            (if video then VideoPreview (att_name a) sourceUrl posterUrl (att_filename a) [a]
             else ImagePreview (att_name a) sourceUrl posterUrl (att_filename a) [a]),
          vi_mimeType = att_type a\<rparr>
     }"

definition motion_id :: "Attachment \<Rightarrow> jsstring" where
  "motion_id still = (case getAttachmentMotionGroupId still of Some g \<Rightarrow> g | None \<Rightarrow> att_name still)"

definition buildAppleMotionItem :: "browser \<Rightarrow> Attachment \<Rightarrow> Attachment \<Rightarrow> AttachmentVisualItem option" where
  "buildAppleMotionItem env still video =
     do {
       let sourceUrl = getAttachmentUrl env video;
       posterUrl \<leftarrow> getAttachmentThumbnailUrl env still;
       Some
         \<lparr>vi_id = motion_id still, vi_kind = item_motion, vi_filename = att_filename still,
          vi_posterUrl = posterUrl, vi_sourceUrl = sourceUrl,
          vi_attachmentNames = [att_name still, att_name video], vi_attachments = [still, video],
          vi_previewItem =
            MotionPreview (motion_id still) posterUrl sourceUrl (att_filename still) None [still, video],
          vi_mimeType = att_type still\<rparr>
     }"

definition buildAndroidMotionItem :: "browser \<Rightarrow> Attachment \<Rightarrow> AttachmentVisualItem option" where
  "buildAndroidMotionItem env a =
     do {
       posterUrl \<leftarrow> getAttachmentThumbnailUrl env a;
       clipUrl \<leftarrow> getAttachmentMotionClipUrl env a;
       Some
         \<lparr>vi_id = att_name a, vi_kind = item_motion, vi_filename = att_filename a,
          vi_posterUrl = posterUrl, vi_sourceUrl = clipUrl,
          vi_attachmentNames = [att_name a], vi_attachments = [a],
          vi_previewItem =
            MotionPreview (att_name a) posterUrl clipUrl (att_filename a)
              (map_option mm_presentationTimestampUs (att_motionMedia a)) [a],
          vi_mimeType = att_type a\<rparr>
     }"

text \<open>\<^verbatim>\<open>for (const member of group) if (member.name !== name) items.push(single(member))\<close>.\<close>

fun push_members ::
    "browser \<Rightarrow> jsstring \<Rightarrow> Attachment list \<Rightarrow> AttachmentVisualItem list \<Rightarrow> AttachmentVisualItem list option" where
  "push_members env skip [] items = Some items"
| "push_members env skip (a # as) items =
     (if att_name a = skip then push_members env skip as items
      else do { item \<leftarrow> buildSingleAttachmentItem env a; push_members env skip as (items @ [item]) })"

fun visual_loop ::
    "browser \<Rightarrow> (jsstring \<times> Attachment list) list \<Rightarrow> Attachment list \<Rightarrow> jsstring list \<Rightarrow>
     AttachmentVisualItem list \<Rightarrow> AttachmentVisualItem list option" where
  "visual_loop env byGroup [] consumed items = Some items"
| "visual_loop env byGroup (a # as) consumed items =
     (if isAndroidMotionContainer a then
        do { item \<leftarrow> buildAndroidMotionItem env a; visual_loop env byGroup as consumed (items @ [item]) }
      else case getAttachmentMotionGroupId a of
        None \<Rightarrow>
          do { item \<leftarrow> buildSingleAttachmentItem env a; visual_loop env byGroup as consumed (items @ [item]) }
      | Some g \<Rightarrow>
          if g \<in> set consumed then visual_loop env byGroup as consumed items
          else
            let group = members byGroup g;
                still = find isAppleLivePhotoStill group;
                video = find isAppleLivePhotoVideo group
            in case (still, video, length group = 2) of
                 (Some s, Some v, True) \<Rightarrow>
                   do { item \<leftarrow> buildAppleMotionItem env s v;
                        visual_loop env byGroup as (set_add g consumed) (items @ [item]) }
               | _ \<Rightarrow>
                   do { item \<leftarrow> buildSingleAttachmentItem env a;
                        items' \<leftarrow> push_members env (att_name a) group (items @ [item]);
                        visual_loop env byGroup as (set_add g consumed) items' })"

fun dedupe_by :: "('a \<Rightarrow> jsstring) \<Rightarrow> jsstring list \<Rightarrow> 'a list \<Rightarrow> 'a list" where
  "dedupe_by ident seen [] = []"
| "dedupe_by ident seen (x # xs) =
     (if ident x \<in> set seen then dedupe_by ident seen xs
      else x # dedupe_by ident (set_add (ident x) seen) xs)"

definition dedupeVisualItems :: "AttachmentVisualItem list \<Rightarrow> AttachmentVisualItem list" where
  "dedupeVisualItems items = dedupe_by vi_id [] items"

definition buildAttachmentVisualItems :: "browser \<Rightarrow> Attachment list \<Rightarrow> AttachmentVisualItem list option" where
  "buildAttachmentVisualItems env as =
     do { items \<leftarrow> visual_loop env (group_all getAttachmentMotionGroupId as) as [] [];
          Some (dedupeVisualItems items) }"

definition countLogicalAttachmentItems :: "browser \<Rightarrow> Attachment list \<Rightarrow> nat option" where
  "countLogicalAttachmentItems env as =
     (let visual = filter (\<lambda>a. getAttachmentType a = js ''image/*'' \<or> getAttachmentType a = js ''video/*'' \<or>
            isMotionAttachment a) as;
          visualNames = map att_name visual
      in do { items \<leftarrow> buildAttachmentVisualItems env visual;
              Some (length items + length (filter (\<lambda>a. att_name a \<notin> set visualNames) as)) })"

text \<open>The cover of a blog post: the first body reference with a bound item, else the first item.\<close>

definition cover_index :: "AttachmentVisualItem list \<Rightarrow> (jsstring \<times> AttachmentVisualItem) list" where
  "cover_index items =
     fold (\<lambda>item. fold (\<lambda>name al.
         case extractAttachmentUIDFromName name of None \<Rightarrow> al | Some uid \<Rightarrow> AList.update uid item al)
       (vi_attachmentNames item)) items []"

fun first_bound :: "(jsstring \<times> 'b) list \<Rightarrow> (jsstring \<times> 'k) list \<Rightarrow> 'b option" where
  "first_bound al [] = None"
| "first_bound al ((uid, _) # refs) = (case map_of al uid of Some x \<Rightarrow> Some x | None \<Rightarrow> first_bound al refs)"

definition selectBlogCoverMedia :: "ManagedImageIndex \<Rightarrow> AttachmentVisualItem list \<Rightarrow> AttachmentVisualItem option" where
  "selectBlogCoverMedia ix items =
     (case first_bound (cover_index items) (extractManagedAttachmentReferences ix) of
        Some item \<Rightarrow> Some item
      | None \<Rightarrow> (case items of [] \<Rightarrow> None | i # _ \<Rightarrow> Some i))"

section \<open>The editor's items\<close>

datatype FileCategory = cat_image | cat_video | cat_motion | cat_audio | cat_document

record AttachmentItem =
  it_id :: jsstring
  it_memberIds :: "jsstring list"
  it_filename :: jsstring
  it_category :: FileCategory
  it_mimeType :: jsstring
  it_thumbnailUrl :: jsstring
  it_sourceUrl :: jsstring
  it_size :: int
  it_isLocal :: bool
  it_isVoiceNote :: bool
  it_audioMeta :: "rat option"

text \<open>
  The recording names \<^verbatim>\<open>^(?:voice-(?:recording|note)|audio-recording)-(\d{8})-(\d{4,6})\<close>, without regard
  to case: the rest after the date dash when the prefix and the date match.
\<close>

definition ascii_lower :: "nat \<Rightarrow> nat" where
  "ascii_lower c = (if is_upper c then c + 32 else c)"

definition strip_prefix_ci :: "jsstring \<Rightarrow> jsstring \<Rightarrow> jsstring option" where
  "strip_prefix_ci p s = (if map ascii_lower (take (length p) s) = p then Some (drop (length p) s) else None)"

definition recording_time :: "jsstring \<Rightarrow> jsstring option" where
  "recording_time filename =
     do {
       rest \<leftarrow> (case strip_prefix_ci (js ''voice-recording'') filename of
                  Some r \<Rightarrow> Some r
                | None \<Rightarrow> (case strip_prefix_ci (js ''voice-note'') filename of
                    Some r \<Rightarrow> Some r | None \<Rightarrow> strip_prefix_ci (js ''audio-recording'') filename));
       afterDash \<leftarrow> strip_prefix_ci (js ''-'') rest;
       afterDate \<leftarrow> (if 8 \<le> length (takeWhile is_digit (take 8 afterDash)) then Some (drop 8 afterDash) else None);
       timePart \<leftarrow> strip_prefix_ci (js ''-'') afterDate;
       let digits = takeWhile is_digit (take 6 timePart);
       if 4 \<le> length digits then Some digits else None
     }"

definition isAudioRecordingFilename :: "jsstring \<Rightarrow> bool" where
  "isAudioRecordingFilename filename \<longleftrightarrow> recording_time filename \<noteq> None"

definition getAudioRecordingTimeLabel :: "jsstring \<Rightarrow> jsstring option" where
  "getAudioRecordingTimeLabel filename =
     (case recording_time filename of
        None \<Rightarrow> None
      | Some t \<Rightarrow>
          if length t = 4 then Some (slice t 0 2 @ js '':'' @ slice t 2 4)
          else if length t = 6 then Some (slice t 0 2 @ js '':'' @ slice t 2 4 @ js '':'' @ slice t 4 6)
          else None)"

definition categorizeFile :: "jsstring \<Rightarrow> MotionMedia option \<Rightarrow> FileCategory" where
  "categorizeFile mimeType motionMedia =
     (if motionMedia \<noteq> None then cat_motion
      else if starts_with mimeType (js ''image/'') then cat_image
      else if starts_with mimeType (js ''video/'') then cat_video
      else if starts_with mimeType (js ''audio/'') then cat_audio
      else cat_document)"

definition attachmentGroupToItem :: "browser \<Rightarrow> Attachment \<Rightarrow> AttachmentItem option" where
  "attachmentGroupToItem env a =
     do {
       let sourceUrl = getAttachmentUrl env a;
       thumb \<leftarrow> (if getAttachmentType a = js ''image/*'' then getAttachmentThumbnailUrl env a else Some sourceUrl);
       Some
         \<lparr>it_id = att_name a, it_memberIds = [att_name a], it_filename = att_filename a,
          it_category = categorizeFile (att_type a) None, it_mimeType = att_type a,
          it_thumbnailUrl = thumb, it_sourceUrl = sourceUrl, it_size = att_size a, it_isLocal = False,
          it_isVoiceNote = (categorizeFile (att_type a) None = cat_audio \<and> isAudioRecordingFilename (att_filename a)),
          it_audioMeta = None\<rparr>
     }"

definition visualItemToAttachmentItem :: "AttachmentVisualItem \<Rightarrow> AttachmentItem" where
  "visualItemToAttachmentItem item =
     \<lparr>it_id = vi_id item, it_memberIds = vi_attachmentNames item, it_filename = vi_filename item,
      it_category = (case vi_kind item of item_motion \<Rightarrow> cat_motion | item_image \<Rightarrow> cat_image | item_video \<Rightarrow> cat_video),
      it_mimeType = vi_mimeType item, it_thumbnailUrl = vi_posterUrl item, it_sourceUrl = vi_sourceUrl item,
      it_size = foldl (\<lambda>total a. total + att_size a) 0 (vi_attachments item), it_isLocal = False,
      it_isVoiceNote = False, it_audioMeta = None\<rparr>"

definition local_group :: "LocalFile \<Rightarrow> jsstring option" where
  "local_group f = or_undefined (map_option mm_groupId (lf_motionMedia f))"

definition fileToItem :: "LocalFile \<Rightarrow> AttachmentItem" where
  "fileToItem f =
     (let category = categorizeFile (file_type (lf_file f)) (lf_motionMedia f) in
      \<lparr>it_id = (case local_group f of Some g \<Rightarrow> g | None \<Rightarrow> lf_previewUrl f),
       it_memberIds = [lf_previewUrl f], it_filename = file_name (lf_file f), it_category = category,
       it_mimeType = file_type (lf_file f), it_thumbnailUrl = lf_previewUrl f, it_sourceUrl = lf_previewUrl f,
       it_size = file_size (lf_file f), it_isLocal = True,
       it_isVoiceNote = (category = cat_audio \<and>
         (lf_origin f = Some audio_recording \<or> isAudioRecordingFilename (file_name (lf_file f)))),
       it_audioMeta = lf_audioMeta f\<rparr>)"

definition local_group_items :: "jsstring \<times> LocalFile list \<Rightarrow> AttachmentItem list" where
  "local_group_items entry =
     (let (groupId, files) = entry;
          still = find (\<lambda>f. motion_role (lf_motionMedia f) APPLE_LIVE_PHOTO STILL) files;
          video = find (\<lambda>f. motion_role (lf_motionMedia f) APPLE_LIVE_PHOTO VIDEO) files
      in case (still, video, length files = 2) of
           (Some s, Some v, True) \<Rightarrow>
             [\<lparr>it_id = groupId, it_memberIds = [lf_previewUrl s, lf_previewUrl v],
               it_filename = file_name (lf_file s), it_category = cat_motion, it_mimeType = file_type (lf_file s),
               it_thumbnailUrl = lf_previewUrl s, it_sourceUrl = lf_previewUrl v,
               it_size = file_size (lf_file s) + file_size (lf_file v), it_isLocal = True,
               it_isVoiceNote = False, it_audioMeta = None\<rparr>]
         | _ \<Rightarrow> map fileToItem files)"

definition toLocalMotionItems :: "LocalFile list \<Rightarrow> AttachmentItem list" where
  "toLocalMotionItems localFiles =
     concat (map local_group_items (group_all local_group localFiles)) @
     map fileToItem (filter (\<lambda>f. local_group f = None) localFiles)"

fun map_throws :: "('a \<Rightarrow> 'b option) \<Rightarrow> 'a list \<Rightarrow> 'b list option" where
  "map_throws f [] = Some []"
| "map_throws f (x # xs) = do { y \<leftarrow> f x; ys \<leftarrow> map_throws f xs; Some (y # ys) }"

definition toAttachmentItems :: "browser \<Rightarrow> Attachment list \<Rightarrow> LocalFile list \<Rightarrow> AttachmentItem list option" where
  "toAttachmentItems env as localFiles =
     do {
       let visual = filter (\<lambda>a. getAttachmentType a = js ''image/*'' \<or> getAttachmentType a = js ''video/*'' \<or>
         att_motionMedia a \<noteq> None) as;
       visualItems \<leftarrow> buildAttachmentVisualItems env visual;
       let visualIds = concat (map vi_attachmentNames visualItems);
       rest \<leftarrow> map_throws (attachmentGroupToItem env) (filter (\<lambda>a. att_name a \<notin> set visualIds) as);
       Some (map visualItemToAttachmentItem visualItems @
         filter (\<lambda>i. it_category i = cat_audio \<or> it_category i = cat_document) rest @
         toLocalMotionItems localFiles)
     }"

definition filterByCategory :: "AttachmentItem list \<Rightarrow> FileCategory list \<Rightarrow> AttachmentItem list" where
  "filterByCategory items categories = filter (\<lambda>i. it_category i \<in> set categories) items"

fun separate_loop :: "AttachmentItem list \<Rightarrow> AttachmentItem list \<times> AttachmentItem list \<Rightarrow>
    AttachmentItem list \<times> AttachmentItem list" where
  "separate_loop [] (media, docs) = (media, docs)"
| "separate_loop (i # is) (media, docs) =
     (if it_category i = cat_image \<or> it_category i = cat_video \<or> it_category i = cat_motion
      then separate_loop is (media @ [i], docs) else separate_loop is (media, docs @ [i]))"

definition separateMediaAndDocs :: "AttachmentItem list \<Rightarrow> AttachmentItem list \<times> AttachmentItem list" where
  "separateMediaAndDocs items = separate_loop items ([], [])"


section \<open>De-duplication\<close>

lemma dedupe_by_ids: "ident ` set (dedupe_by ident seen xs) = ident ` set xs - set seen"
  by (induction xs arbitrary: seen) auto

lemma dedupe_by_sub: "set (dedupe_by ident seen xs) \<subseteq> set xs"
proof (induction xs arbitrary: seen)
  case (Cons x xs)
  from Cons.IH [of seen] Cons.IH [of "set_add (ident x) seen"] show ?case by auto
qed simp

lemma dedupe_by_distinct: "distinct (map ident (dedupe_by ident seen xs))"
proof (induction xs arbitrary: seen)
  case (Cons x xs)
  have "ident x \<notin> ident ` set (dedupe_by ident (set_add (ident x) seen) xs)"
    by (simp add: dedupe_by_ids)
  with Cons show ?case by simp
qed simp

section \<open>Visual items partition the attachments\<close>

text \<open>
  A motion group is joined when it has exactly two members, an Apple still and an Apple video. The
  owner of an attachment is the identifier of the item that shows it.
\<close>

definition group_of :: "Attachment list \<Rightarrow> jsstring \<Rightarrow> Attachment list" where
  "group_of as g = filter (\<lambda>a. getAttachmentMotionGroupId a = Some g) as"

definition joined :: "Attachment list \<Rightarrow> jsstring \<Rightarrow> bool" where
  "joined as g \<longleftrightarrow> length (group_of as g) = 2 \<and> find isAppleLivePhotoStill (group_of as g) \<noteq> None \<and>
     find isAppleLivePhotoVideo (group_of as g) \<noteq> None"

definition owner :: "Attachment list \<Rightarrow> Attachment \<Rightarrow> jsstring" where
  "owner as a = (case getAttachmentMotionGroupId a of None \<Rightarrow> att_name a
     | Some g \<Rightarrow> if joined as g then g else att_name a)"

definition names_ok :: "Attachment list \<Rightarrow> bool" where
  "names_ok as \<longleftrightarrow> distinct (map att_name as) \<and>
     (\<forall>a \<in> set as. \<forall>b \<in> set as. getAttachmentMotionGroupId a \<noteq> Some (att_name b))"

definition shows_owned :: "Attachment list \<Rightarrow> AttachmentVisualItem \<Rightarrow> bool" where
  "shows_owned as it \<longleftrightarrow> distinct (vi_attachments it) \<and>
     set (vi_attachments it) = {a \<in> set as. owner as a = vi_id it}"

lemma find_SomeD: "find P xs = Some x \<Longrightarrow> x \<in> set xs \<and> P x"
  by (induction xs) (auto split: if_splits)

lemma joined_members:
  assumes "joined as g"
  obtains s v where "find isAppleLivePhotoStill (group_of as g) = Some s"
    "find isAppleLivePhotoVideo (group_of as g) = Some v" "set (group_of as g) = {s, v}" "s \<noteq> v"
    "isAppleLivePhotoStill s" "isAppleLivePhotoVideo v"
proof -
  from assms obtain s v where f: "find isAppleLivePhotoStill (group_of as g) = Some s"
    "find isAppleLivePhotoVideo (group_of as g) = Some v" and len: "length (group_of as g) = 2"
    by (auto simp: joined_def)
  have sv: "s \<in> set (group_of as g)" "v \<in> set (group_of as g)" "isAppleLivePhotoStill s" "isAppleLivePhotoVideo v"
    using find_SomeD [OF f(1)] find_SomeD [OF f(2)] by auto
  then have "s \<noteq> v" using apple_roles_exclusive(1) by blast
  obtain x y where xy: "group_of as g = [x, y]"
    using len by (auto simp: length_Suc_conv numeral_2_eq_2)
  with sv \<open>s \<noteq> v\<close> have "set (group_of as g) = {s, v}" by auto
  with f sv \<open>s \<noteq> v\<close> that show thesis by blast
qed

lemma owner_single:
  assumes "names_ok as" "a \<in> set as" "owner as a = att_name a"
  shows "{b \<in> set as. owner as b = att_name a} = {a}"
proof -
  have "b = a" if "b \<in> set as" "owner as b = att_name a" for b
  proof (cases "owner as b = att_name b")
    case True
    with that assms show ?thesis by (auto simp: names_ok_def distinct_map inj_on_def)
  next
    case False
    then have "getAttachmentMotionGroupId b = Some (owner as b)"
      by (auto simp: owner_def split: option.splits if_splits)
    with that assms show ?thesis by (auto simp: names_ok_def)
  qed
  with assms show ?thesis by auto
qed

lemma owner_joined:
  assumes "names_ok as" "joined as g"
  shows "{b \<in> set as. owner as b = g} = set (group_of as g)"
proof -
  have "b \<in> set (group_of as g)" if "b \<in> set as" "owner as b = g" for b
  proof (cases "getAttachmentMotionGroupId b = Some g")
    case False
    with that have "g = att_name b" by (auto simp: owner_def split: option.splits if_splits)
    moreover obtain s where "s \<in> set (group_of as g)"
      using assms(2) joined_members by (metis insertI1)
    ultimately show ?thesis using assms(1) that by (auto simp: names_ok_def group_of_def)
  qed (use that in \<open>simp add: group_of_def\<close>)
  moreover have "b \<in> set as \<and> owner as b = g" if "b \<in> set (group_of as g)" for b
    using that assms(2) by (simp add: group_of_def owner_def)
  ultimately show ?thesis by blast
qed

lemma android_owner: "a \<in> set as \<Longrightarrow> isAndroidMotionContainer a \<Longrightarrow> owner as a = att_name a"
proof (cases "getAttachmentMotionGroupId a")
  case (Some g)
  assume a: "a \<in> set as" "isAndroidMotionContainer a"
  have "\<not> joined as g"
  proof
    assume j: "joined as g"
    obtain s v where "set (group_of as g) = {s, v}" "isAppleLivePhotoStill s" "isAppleLivePhotoVideo v"
      using joined_members [OF j] .
    moreover have "a \<in> set (group_of as g)" using a Some by (simp add: group_of_def)
    ultimately show False using a apple_roles_exclusive by auto
  qed
  with Some show ?thesis by (simp add: owner_def)
qed (simp add: owner_def)

lemma single_item:
  "buildSingleAttachmentItem env a = Some it \<Longrightarrow> vi_id it = att_name a \<and> vi_attachments it = [a]"
  by (auto simp: buildSingleAttachmentItem_def Let_def bind_eq_Some_conv)

lemma android_item:
  "buildAndroidMotionItem env a = Some it \<Longrightarrow> vi_id it = att_name a \<and> vi_attachments it = [a]"
  by (auto simp: buildAndroidMotionItem_def bind_eq_Some_conv)

lemma apple_item:
  "buildAppleMotionItem env s v = Some it \<Longrightarrow> vi_id it = motion_id s \<and> vi_attachments it = [s, v]"
  by (auto simp: buildAppleMotionItem_def Let_def bind_eq_Some_conv)

lemma single_shows_owned:
  assumes "names_ok as" "a \<in> set as" "owner as a = att_name a" "vi_id it = att_name a" "vi_attachments it = [a]"
  shows "shows_owned as it"
  using assms owner_single by (simp add: shows_owned_def)

lemma push_members_spec:
  assumes "push_members env skip ms items = Some out" "names_ok as" "set ms \<subseteq> set as"
    "\<forall>m \<in> set ms. owner as m = att_name m" "\<forall>it \<in> set items. shows_owned as it"
  shows "(\<forall>it \<in> set out. shows_owned as it) \<and> vi_id ` set items \<subseteq> vi_id ` set out \<and>
    (\<forall>m \<in> set ms. att_name m \<noteq> skip \<longrightarrow> att_name m \<in> vi_id ` set out)"
  using assms
proof (induction ms arbitrary: items)
  case (Cons m ms)
  show ?case
  proof (cases "att_name m = skip")
    case True
    with Cons show ?thesis by simp
  next
    case False
    with Cons.prems(1) obtain it where it: "buildSingleAttachmentItem env m = Some it"
      "push_members env skip ms (items @ [it]) = Some out" by (auto simp: bind_eq_Some_conv)
    have "shows_owned as it"
      using single_item [OF it(1)] Cons.prems by (intro single_shows_owned [of as m]) auto
    with Cons.IH [OF it(2)] Cons.prems single_item [OF it(1)] show ?thesis by auto
  qed
qed simp


lemma shows_owned_joined:
  assumes "names_ok as" "joined as g" "vi_id it = g" "vi_attachments it = [s, v]"
    "set (group_of as g) = {s, v}" "s \<noteq> v"
  shows "shows_owned as it"
  using assms owner_joined [OF assms(1,2)] by (simp add: shows_owned_def)

lemma owner_joined_id: "joined as g \<Longrightarrow> a \<in> set (group_of as g) \<Longrightarrow> owner as a = g"
  by (simp add: group_of_def owner_def)

lemma owner_not_joined: "\<not> joined as g \<Longrightarrow> a \<in> set (group_of as g) \<Longrightarrow> owner as a = att_name a"
  by (simp add: group_of_def owner_def)

text \<open>The loop's step on the first member of a group it has not handled.\<close>

lemma visual_loop_group:
  assumes "visual_loop env (group_all getAttachmentMotionGroupId as) (a # rest) consumed items = Some out"
    and "\<not> isAndroidMotionContainer a" "getAttachmentMotionGroupId a = Some g" "g \<notin> set consumed"
    and ok: "names_ok as" "a \<in> set as" "\<forall>it \<in> set items. shows_owned as it"
  obtains items' where
    "visual_loop env (group_all getAttachmentMotionGroupId as) rest (set_add g consumed) items' = Some out"
    "\<forall>it \<in> set items'. shows_owned as it" "vi_id ` set items \<subseteq> vi_id ` set items'"
    "\<forall>b \<in> set (group_of as g). owner as b \<in> vi_id ` set items'"
proof -
  let ?gs = "group_all getAttachmentMotionGroupId as"
  have grp: "members ?gs g = group_of as g" by (simp add: members_group_all group_of_def)
  have a: "a \<in> set (group_of as g)" using assms(3) ok(2) by (simp add: group_of_def)
  show thesis
  proof (cases "joined as g")
    case True
    obtain s v where sv: "find isAppleLivePhotoStill (group_of as g) = Some s"
      "find isAppleLivePhotoVideo (group_of as g) = Some v" "set (group_of as g) = {s, v}" "s \<noteq> v"
      by (rule joined_members [OF True])
    have "length (group_of as g) = 2" using True by (simp add: joined_def)
    with sv assms(1-4) obtain it where it: "buildAppleMotionItem env s v = Some it"
      "visual_loop env ?gs rest (set_add g consumed) (items @ [it]) = Some out"
      by (auto simp: grp Let_def bind_eq_Some_conv)
    have "getAttachmentMotionGroupId s = Some g"
      using sv(3) by (auto simp: group_of_def)
    then have "vi_id it = g" "vi_attachments it = [s, v]"
      using apple_item [OF it(1)] by (auto simp: motion_id_def)
    then show thesis
      using it(2) shows_owned_joined [OF ok(1) True _ _ sv(3,4), of it] ok(3) owner_joined_id [OF True]
      by (intro that [of "items @ [it]"]) auto
  next
    case False
    have "\<not> (\<exists>s v. find isAppleLivePhotoStill (group_of as g) = Some s \<and>
        find isAppleLivePhotoVideo (group_of as g) = Some v \<and> length (group_of as g) = 2)"
      using False by (auto simp: joined_def)
    with assms(1-4) have "do { item \<leftarrow> buildSingleAttachmentItem env a;
        items' \<leftarrow> push_members env (att_name a) (group_of as g) (items @ [item]);
        visual_loop env ?gs rest (set_add g consumed) items' } = Some out"
      by (auto simp: grp Let_def split: option.splits bool.splits)
    then obtain it items' where it: "buildSingleAttachmentItem env a = Some it"
      "push_members env (att_name a) (group_of as g) (items @ [it]) = Some items'"
      "visual_loop env ?gs rest (set_add g consumed) items' = Some out"
      by (auto simp: bind_eq_Some_conv)
    have own: "\<forall>m \<in> set (group_of as g). owner as m = att_name m"
      using owner_not_joined [OF False] by blast
    then have "shows_owned as it"
      using single_item [OF it(1)] ok(2) a by (intro single_shows_owned [OF ok(1)]) auto
    then have spec: "(\<forall>it \<in> set items'. shows_owned as it) \<and>
        vi_id ` set (items @ [it]) \<subseteq> vi_id ` set items' \<and>
        (\<forall>m \<in> set (group_of as g). att_name m \<noteq> att_name a \<longrightarrow> att_name m \<in> vi_id ` set items')"
      using ok(3) own by (intro push_members_spec [OF it(2) ok(1)]) (auto simp: group_of_def)
    moreover have "att_name a \<in> vi_id ` set items'"
      using spec single_item [OF it(1)] by auto
    ultimately show thesis
      using it(3) own by (intro that [of items']) auto
  qed
qed

lemma visual_loop_spec:
  assumes "names_ok as"
  shows "visual_loop env (group_all getAttachmentMotionGroupId as) rest consumed items = Some out \<Longrightarrow>
    set rest \<subseteq> set as \<Longrightarrow> \<forall>it \<in> set items. shows_owned as it \<Longrightarrow>
    \<forall>g \<in> set consumed. \<forall>b \<in> set (group_of as g). owner as b \<in> vi_id ` set items \<Longrightarrow>
    (\<forall>it \<in> set out. shows_owned as it) \<and> vi_id ` set items \<subseteq> vi_id ` set out \<and>
    (\<forall>a \<in> set rest. owner as a \<in> vi_id ` set out)"
proof (induction rest arbitrary: consumed items)
  case (Cons a rest)
  let ?loop = "visual_loop env (group_all getAttachmentMotionGroupId as)"
  have a: "a \<in> set as" "set rest \<subseteq> set as" using Cons.prems(2) by auto
  have one: ?case if "?loop rest consumed (items @ [it]) = Some out" "vi_id it = att_name a"
    "vi_attachments it = [a]" "owner as a = att_name a" for it
  proof -
    have "shows_owned as it" using single_shows_owned [OF assms a(1)] that by blast
    with Cons.IH [OF that(1) a(2)] Cons.prems(3,4) that show ?thesis by fastforce
  qed
  show ?case
  proof (cases "isAndroidMotionContainer a")
    case True
    with Cons.prems(1) obtain it where "buildAndroidMotionItem env a = Some it"
      "?loop rest consumed (items @ [it]) = Some out" by (auto simp: bind_eq_Some_conv)
    with True show ?thesis using android_item android_owner [OF a(1)] by (intro one) auto
  next
    case android: False
    show ?thesis
    proof (cases "getAttachmentMotionGroupId a")
      case None
      with android Cons.prems(1) obtain it where "buildSingleAttachmentItem env a = Some it"
        "?loop rest consumed (items @ [it]) = Some out" by (auto simp: bind_eq_Some_conv)
      with None show ?thesis using single_item by (intro one) (auto simp: owner_def)
    next
      case (Some g)
      have mem: "a \<in> set (group_of as g)" using a Some by (simp add: group_of_def)
      show ?thesis
      proof (cases "g \<in> set consumed")
        case True
        with Some android Cons.prems(1) have "?loop rest consumed items = Some out" by simp
        from Cons.IH [OF this a(2) Cons.prems(3,4)] True Cons.prems(4) mem show ?thesis by auto
      next
        case False
        obtain items' where i: "?loop rest (set_add g consumed) items' = Some out"
          "\<forall>it \<in> set items'. shows_owned as it" "vi_id ` set items \<subseteq> vi_id ` set items'"
          "\<forall>b \<in> set (group_of as g). owner as b \<in> vi_id ` set items'"
          using visual_loop_group [OF Cons.prems(1) android Some False assms a(1) Cons.prems(3)] .
        have "\<forall>h \<in> set (set_add g consumed). \<forall>b \<in> set (group_of as h). owner as b \<in> vi_id ` set items'"
          using i(3,4) Cons.prems(4) by auto
        from Cons.IH [OF i(1) a(2) i(2) this] have r: "\<forall>it \<in> set out. shows_owned as it"
          "vi_id ` set items' \<subseteq> vi_id ` set out" "\<forall>a \<in> set rest. owner as a \<in> vi_id ` set out"
          by blast+
        moreover have "vi_id ` set items \<subseteq> vi_id ` set out" using i(3) r(2) by (rule subset_trans)
        moreover have "owner as a \<in> vi_id ` set out" using i(4) mem r(2) by (meson subsetD)
        ultimately show ?thesis by simp
      qed
    qed
  qed
qed simp


lemma owned_items_distinct:
  "\<forall>it \<in> set items. shows_owned as it \<Longrightarrow> distinct (map vi_id items) \<Longrightarrow>
   distinct (concat (map vi_attachments items)) \<and>
   set (concat (map vi_attachments items)) = {a \<in> set as. owner as a \<in> vi_id ` set items}"
proof (induction items)
  case (Cons it items)
  let ?rest = "concat (map vi_attachments items)"
  from Cons have rest: "distinct ?rest" "set ?rest = {a \<in> set as. owner as a \<in> vi_id ` set items}"
    by auto
  from Cons.prems have it: "distinct (vi_attachments it)"
    "set (vi_attachments it) = {a \<in> set as. owner as a = vi_id it}" "vi_id it \<notin> vi_id ` set items"
    by (auto simp: shows_owned_def)
  then have "set (vi_attachments it) \<inter> set ?rest = {}"
    unfolding rest(2) it(2) by (simp only: disjoint_iff mem_Collect_eq) metis
  moreover have "set (vi_attachments it) \<union> set ?rest = {a \<in> set as. owner as a \<in> insert (vi_id it) (vi_id ` set items)}"
    unfolding rest(2) it(2) by auto
  ultimately show ?case using rest(1) it(1) by simp
qed simp

text \<open>
  C15. When the attachments have distinct names and no motion group is called like an attachment, the
  visual items partition the attachments: each attachment is shown by exactly one item, joined motion
  pairs included, and the identifiers of the items are distinct.
\<close>

theorem visual_items_partition:
  assumes "distinct (map att_name as)"
    and "\<forall>a \<in> set as. \<forall>b \<in> set as. getAttachmentMotionGroupId a \<noteq> Some (att_name b)"
    and "buildAttachmentVisualItems env as = Some items"
  shows "mset (concat (map vi_attachments items)) = mset as \<and> distinct (map vi_id items)"
proof -
  have ok: "names_ok as" using assms(1,2) by (simp add: names_ok_def)
  from assms(3) obtain out where
    loop: "visual_loop env (group_all getAttachmentMotionGroupId as) as [] [] = Some out"
    and items: "items = dedupe_by vi_id [] out"
    by (auto simp: buildAttachmentVisualItems_def dedupeVisualItems_def bind_eq_Some_conv)
  have out: "\<forall>it \<in> set out. shows_owned as it" "\<forall>a \<in> set as. owner as a \<in> vi_id ` set out"
    using visual_loop_spec [OF ok loop] by auto
  have "vi_id ` set items = vi_id ` set out" "\<forall>it \<in> set items. shows_owned as it"
    using dedupe_by_ids [of vi_id "[]" out] dedupe_by_sub [of vi_id "[]" out] out(1) items by auto
  moreover have d: "distinct (map vi_id items)" using items by (simp add: dedupe_by_distinct)
  ultimately have "distinct (concat (map vi_attachments items))"
    "set (concat (map vi_attachments items)) = set as"
    using owned_items_distinct [of items as] out(2) by auto
  moreover have "distinct as" using assms(1) by (simp add: distinct_map)
  ultimately show ?thesis using d by (metis set_eq_iff_mset_eq_distinct)
qed

definition motion_part :: "string \<Rightarrow> MotionMediaRole \<Rightarrow> Attachment" where
  "motion_part name role =
     empty_attachment\<lparr>att_name := js name, att_filename := js ''f'', att_type := js ''image/heic'',
       att_motionMedia := Some \<lparr>mm_family = APPLE_LIVE_PHOTO, mm_role = role, mm_groupId = js ''g'',
         mm_presentationTimestampUs = 0, mm_hasEmbeddedVideo = False\<rparr>\<rparr>"

lemma sample_pair:
  "buildAttachmentVisualItems sample_browser [motion_part ''a'' STILL, motion_part ''b'' VIDEO] =
   map_option (\<lambda>i. [i])
     (buildAppleMotionItem sample_browser (motion_part ''a'' STILL) (motion_part ''b'' VIDEO))"
proof -
  have "getAttachmentMotionGroupId (motion_part n r) = Some (js ''g'')"
    "\<not> isAndroidMotionContainer (motion_part n r)"
    "isAppleLivePhotoStill (motion_part n r) \<longleftrightarrow> r = STILL"
    "isAppleLivePhotoVideo (motion_part n r) \<longleftrightarrow> r = VIDEO" for n r
    by (simp_all add: motion_part_def getAttachmentMotionGroupId_def isAndroidMotionContainer_def
        isAppleLivePhotoStill_def isAppleLivePhotoVideo_def motion_role_def or_undefined_def)
  then show ?thesis
    by (cases "buildAppleMotionItem sample_browser (motion_part ''a'' STILL) (motion_part ''b'' VIDEO)")
       (simp_all add: buildAttachmentVisualItems_def members_group_all Let_def dedupeVisualItems_def)
qed

theorem visual_items_partition_witness:
  "\<exists>items. buildAttachmentVisualItems sample_browser [motion_part ''a'' STILL, motion_part ''b'' VIDEO] = Some items \<and>
     mset (concat (map vi_attachments items)) = mset [motion_part ''a'' STILL, motion_part ''b'' VIDEO]"
proof -
  have "att_externalLink (motion_part ''a'' STILL) = []"
    by (simp add: motion_part_def empty_attachment_def)
  then obtain u where "getAttachmentThumbnailUrl sample_browser (motion_part ''a'' STILL) = Some u"
    by (simp add: getAttachmentThumbnailUrl_def withShareTokenParam_def or_undefined_def)
  then obtain i where "buildAppleMotionItem sample_browser (motion_part ''a'' STILL) (motion_part ''b'' VIDEO) = Some i"
    by (simp add: buildAppleMotionItem_def Let_def)
  then have b: "buildAttachmentVisualItems sample_browser [motion_part ''a'' STILL, motion_part ''b'' VIDEO] = Some [i]"
    by (simp add: sample_pair)
  have "mset (concat (map vi_attachments [i])) = mset [motion_part ''a'' STILL, motion_part ''b'' VIDEO] \<and>
    distinct (map vi_id [i])"
    by (rule visual_items_partition [OF _ _ b])
       (simp_all add: motion_part_def empty_attachment_def getAttachmentMotionGroupId_def or_undefined_def js_str)
  with b show ?thesis by blast
qed

section \<open>The editor's list\<close>

text \<open>
  The editor lists no item for a Photoshop file: the type is not an image for the visual items,
  but still an image for the category, which the list of other items leaves out.
\<close>

lemma psd_attachment_is_dropped:
  assumes "isPSD (att_type a)" and "att_motionMedia a = None"
  shows "toAttachmentItems env [a] [] = Some []"
proof -
  have t: "getAttachmentType a = js ''application/octet-stream''"
    using assms(1) by (auto simp: isPSD_def getAttachmentType_def isImage_def js_str Let_def starts_with_def)
  have "js ''application/octet-stream'' \<noteq> js ''image/*''" "js ''application/octet-stream'' \<noteq> js ''video/*''"
    by (simp_all add: js_str)
  moreover have "categorizeFile (att_type a) None = cat_image"
    using assms(1) by (auto simp: isPSD_def categorizeFile_def js_str)
  ultimately show ?thesis
    using assms(2) unfolding toAttachmentItems_def
    by (simp add: t buildAttachmentVisualItems_def
        dedupeVisualItems_def attachmentGroupToItem_def Let_def toLocalMotionItems_def group_all_def)
qed

lemma psd_attachment_is_dropped_witness:
  "toAttachmentItems sample_browser
     [empty_attachment\<lparr>att_name := js ''attachments/1'', att_type := js ''image/vnd.adobe.photoshop''\<rparr>] [] = Some []"
  by (rule psd_attachment_is_dropped) (simp_all add: empty_attachment_def isPSD_def)

lemma mset_update_push:
  "distinct (map fst al) \<Longrightarrow>
   mset (concat (map snd (AList.update g (members al g @ [x]) al))) = mset (concat (map snd al)) + {#x#}"
proof (induction al)
  case (Cons e al)
  obtain h xs where e: "e = (h, xs)" by (cases e)
  show ?case
  proof (cases "h = g")
    case True
    with e show ?thesis by (simp add: members_def)
  next
    case False
    with e Cons show ?thesis by (simp add: members_def)
  qed
qed (simp add: members_def)

lemma mset_group_push:
  "distinct (map fst groups) \<Longrightarrow> mset (concat (map snd (group_push key x groups))) =
   mset (concat (map snd groups)) + (if key x = None then {#} else {#x#})"
  using mset_update_push [of groups _ x]
  by (auto simp: group_push_def members_def split: option.splits)

lemma distinct_group_push: "distinct (map fst groups) \<Longrightarrow> distinct (map fst (group_push key x groups))"
  by (auto simp: group_push_def distinct_update split: option.splits)

lemma mset_group_fold:
  "distinct (map fst groups) \<Longrightarrow> mset (concat (map snd (fold (group_push key) xs groups))) =
   mset (concat (map snd groups)) + mset (filter (\<lambda>x. key x \<noteq> None) xs)"
  by (induction xs arbitrary: groups) (auto simp: mset_group_push distinct_group_push)

lemma mset_group_all: "mset (concat (map snd (group_all key xs))) = mset (filter (\<lambda>x. key x \<noteq> None) xs)"
  by (simp add: group_all_def mset_group_fold)

lemma local_group_items_members:
  "mset (concat (map it_memberIds (local_group_items (g, files)))) = mset (map lf_previewUrl files)"
proof (cases "\<exists>s v. find (\<lambda>f. motion_role (lf_motionMedia f) APPLE_LIVE_PHOTO STILL) files = Some s \<and>
    find (\<lambda>f. motion_role (lf_motionMedia f) APPLE_LIVE_PHOTO VIDEO) files = Some v \<and> length files = 2")
  case True
  then obtain s v where sv: "find (\<lambda>f. motion_role (lf_motionMedia f) APPLE_LIVE_PHOTO STILL) files = Some s"
    "find (\<lambda>f. motion_role (lf_motionMedia f) APPLE_LIVE_PHOTO VIDEO) files = Some v" "length files = 2" by blast
  have roles: "motion_role (lf_motionMedia s) APPLE_LIVE_PHOTO STILL" "motion_role (lf_motionMedia v) APPLE_LIVE_PHOTO VIDEO"
    and mem: "s \<in> set files" "v \<in> set files"
    using find_SomeD [OF sv(1)] find_SomeD [OF sv(2)] by auto
  have "s \<noteq> v" using motion_role_unique [of "lf_motionMedia s"] roles by blast
  obtain x y where "files = [x, y]" using sv(3) by (auto simp: length_Suc_conv numeral_2_eq_2)
  with mem \<open>s \<noteq> v\<close> have "files = [s, v] \<or> files = [v, s]" by auto
  then have "mset (map lf_previewUrl files) = {#lf_previewUrl s, lf_previewUrl v#}" by auto
  with sv show ?thesis by (simp add: local_group_items_def)
next
  case False
  then have "local_group_items (g, files) = map fileToItem files"
    by (auto simp: local_group_items_def Let_def split: option.splits bool.splits)
  moreover have "concat (map it_memberIds (map fileToItem files)) = map lf_previewUrl files"
    by (induction files) (simp_all add: fileToItem_def Let_def)
  ultimately show ?thesis by simp
qed

text \<open>
  The editor's items of local files show every file exactly once: the members of the items are the
  preview URLs of the files, live-photo pairs included.
\<close>

lemma local_items_partition:
  "mset (concat (map it_memberIds (toLocalMotionItems files))) = mset (map lf_previewUrl files)"
proof -
  have groups: "mset (concat (map it_memberIds (concat (map local_group_items gs)))) =
    mset (map lf_previewUrl (concat (map snd gs)))" for gs
    by (induction gs) (auto simp: local_group_items_members simp del: mset_map)
  have singles: "concat (map it_memberIds (map fileToItem fs)) = map lf_previewUrl fs" for fs
    by (induction fs) (simp_all add: fileToItem_def Let_def)
  let ?in = "filter (\<lambda>f. local_group f \<noteq> None) files" and ?out = "filter (\<lambda>f. local_group f = None) files"
  have "mset (concat (map it_memberIds (toLocalMotionItems files))) =
    image_mset lf_previewUrl (mset (concat (map snd (group_all local_group files)))) +
    image_mset lf_previewUrl (mset ?out)"
    by (simp only: toLocalMotionItems_def map_append concat_append mset_append groups singles mset_map)
  also have "\<dots> = image_mset lf_previewUrl (mset ?in + mset ?out)"
    by (simp only: mset_group_all image_mset_union)
  also have "mset ?in + mset ?out = mset files"
    using multiset_partition [of "mset files" "\<lambda>f. local_group f \<noteq> None"] by simp
  finally show ?thesis by (simp only: mset_map)
qed

lemma separate_loop_filter:
  "separate_loop items (media, docs) =
   (media @ filter (\<lambda>i. it_category i \<in> {cat_image, cat_video, cat_motion}) items,
    docs @ filter (\<lambda>i. it_category i \<in> {cat_audio, cat_document}) items)"
proof (induction items arbitrary: media docs)
  case (Cons i items)
  then show ?case by (cases "it_category i") simp_all
qed simp

text \<open>Separating media from documents is the two category filters, so it loses and doubles nothing.\<close>

lemma separate_is_filter:
  "separateMediaAndDocs items =
   (filterByCategory items [cat_image, cat_video, cat_motion], filterByCategory items [cat_audio, cat_document])"
  by (simp add: separateMediaAndDocs_def separate_loop_filter filterByCategory_def)

end
