(* ===== verification/MemoPoll.thy ===== *)
theory MemoPoll
  imports Prelude
begin

text \<open>
  Poll markers in a memo body (\<^verbatim>\<open>web/src/utils/memo-poll.ts\<close>): finding the standalone \<open>[[vote]]\<close> lines,
  isolating them as paragraphs, adding one and removing them. The Markdown parser is third-party; its
  part here is \<open>text_ranges\<close>, the positions of the text children of the top-level paragraphs. The
  walk of \<^verbatim>\<open>matchAll\<close> over the lines is an instance of the scanner interface.
\<close>

definition MEMO_POLL_MARKER :: jsstring where
  "MEMO_POLL_MARKER = js ''[[vote]]''"

lemma length_marker [simp]: "length MEMO_POLL_MARKER = 8"
  by (simp add: MEMO_POLL_MARKER_def)

section \<open>The marker pattern\<close>

text \<open>\<^verbatim>\<open>/^ {0,3}\[\[vote\]\][ \t]*\r?$/gm\<close>, by hand: where a line starts and ends, and one match.\<close>

definition is_line_terminator :: "nat \<Rightarrow> bool" where
  "is_line_terminator c \<longleftrightarrow> c = 0x0a \<or> c = 0x0d \<or> c = 0x2028 \<or> c = 0x2029"

definition at_line_start :: "jsstring \<Rightarrow> nat \<Rightarrow> bool" where
  "at_line_start s i \<longleftrightarrow> i = 0 \<or> is_line_terminator (s ! (i - 1))"

definition at_line_end :: "jsstring \<Rightarrow> nat \<Rightarrow> bool" where
  "at_line_end s i \<longleftrightarrow> i \<ge> length s \<or> is_line_terminator (s ! i)"

definition run_length :: "(nat \<Rightarrow> bool) \<Rightarrow> jsstring \<Rightarrow> nat" where
  "run_length P s = length (takeWhile P s)"

lemma run_length_le: "run_length P s \<le> length s"
  by (simp add: run_length_def length_takeWhile_le)

text \<open>The end of the match that starts at \<open>i\<close>, and the offset of the marker in it.\<close>

definition marker_match :: "jsstring \<Rightarrow> nat \<Rightarrow> (nat \<times> nat) option" where
  "marker_match s i =
     (let m = i + run_length (\<lambda>c. c = 0x20) (take 3 (drop i s));
          e = m + 8 + run_length (\<lambda>c. c = 0x20 \<or> c = 0x09) (drop (m + 8) s)
      in if \<not> at_line_start s i \<or> \<not> starts_with_at s MEMO_POLL_MARKER m then None
         else if e < length s \<and> s ! e = 0x0d \<and> at_line_end s (e + 1) then Some (e + 1, m)
         else if at_line_end s e then Some (e, m)
         else None)"

definition scan_marker :: "jsstring \<Rightarrow> nat \<Rightarrow> nat \<Rightarrow> (nat \<times> nat) option" where
  "scan_marker s i lim = marker_match s i"

lemma marker_match_bounds:
  assumes "marker_match s i = Some (e, m)"
  shows "i \<le> m \<and> m + 8 \<le> e \<and> e \<le> length s \<and> starts_with_at s MEMO_POLL_MARKER m"
proof -
  define k where "k = run_length (\<lambda>c. c = 0x20) (take 3 (drop i s))"
  define r where "r = run_length (\<lambda>c. c = 0x20 \<or> c = 0x09) (drop (i + k + 8) s)"
  from assms have at: "starts_with_at s MEMO_POLL_MARKER m" "m = i + k"
    and e: "e = m + 8 + r \<or> (e = m + 8 + r + 1 \<and> m + 8 + r < length s)"
    by (auto simp: marker_match_def k_def r_def Let_def split: if_splits)
  have "m + 8 \<le> length s"
    using starts_with_at_bound [OF at(1)] by (simp add: MEMO_POLL_MARKER_def)
  moreover have "r \<le> length s - (m + 8)"
    using run_length_le [of _ "drop (m + 8) s"] by (simp add: r_def at(2))
  ultimately show ?thesis using at e by auto
qed

function marker_matches :: "jsstring \<Rightarrow> nat \<Rightarrow> nat \<Rightarrow> (nat \<times> nat \<times> nat) list" where
  "marker_matches s i lim =
     (if i < lim then
        case scan_marker s i lim of
          Some (e, m) \<Rightarrow> (if i < e then (i, e, m) # marker_matches s e lim else [])
        | None \<Rightarrow> marker_matches s (i + 1) lim
      else [])"
  by pat_completeness auto
termination by (relation "measure (\<lambda>(s, i, lim). lim - i)") auto

declare marker_matches.simps [simp del]

definition next_offset :: "jsstring \<Rightarrow> nat \<Rightarrow> nat \<Rightarrow> nat" where
  "next_offset s i lim = i + 1"

interpretation markers: range_scanner "\<lambda>s lim. lim = length s" scan_marker next_offset marker_matches
proof
  fix s :: jsstring and lim i j v
  assume "lim = length s" "i < lim" "scan_marker s i lim = Some (j, v)"
  then show p: "i < j \<and> j \<le> lim"
    using marker_match_bounds [of s i j v] by (auto simp: scan_marker_def)
  then show "marker_matches s i lim = (i, j, v) # marker_matches s j lim"
    using \<open>i < lim\<close> \<open>scan_marker s i lim = Some (j, v)\<close> by (subst marker_matches.simps) simp
next
  fix s :: jsstring and lim i
  assume "i < lim" "scan_marker s i lim = None"
  then show "i < next_offset s i lim"
    "marker_matches s i lim = marker_matches s (next_offset s i lim) lim"
    by (simp add: next_offset_def, subst marker_matches.simps) (simp add: next_offset_def)
next
  fix s :: jsstring and lim i :: nat
  assume "\<not> i < lim"
  then show "marker_matches s i lim = []" by (subst marker_matches.simps) simp
qed

section \<open>Finding, preparing, ensuring, removing\<close>

definition findMemoPollMarkers :: "(jsstring \<Rightarrow> (nat \<times> nat) list) \<Rightarrow> jsstring \<Rightarrow> (nat \<times> nat) list" where
  "findMemoPollMarkers text_ranges content =
     (if \<not> js_includes content MEMO_POLL_MARKER then []
      else map (\<lambda>(start, e, m). (start, e))
        (filter (\<lambda>(start, e, m). \<exists>(a, b) \<in> set (text_ranges content).
           m \<ge> a \<and> m + length MEMO_POLL_MARKER \<le> b) (marker_matches content 0 (length content))))"

definition NL2 :: jsstring where
  "NL2 = [0x0a, 0x0a]"

text \<open>The loop over the ranges: the output so far, the offsets of the markers in it, the cursor.\<close>

fun prepare_loop :: "jsstring \<Rightarrow> (nat \<times> nat) list \<Rightarrow> jsstring \<Rightarrow> nat list \<Rightarrow> nat \<Rightarrow> jsstring \<times> nat list" where
  "prepare_loop content [] output offsets cursor = (output @ drop cursor content, offsets)"
| "prepare_loop content ((a, b) # ranges) output offsets cursor =
     (let output1 = output @ slice content cursor a @ NL2 in
      prepare_loop content ranges (output1 @ MEMO_POLL_MARKER @ NL2) (offsets @ [length output1]) b)"

definition prepareMemoPollContent :: "(jsstring \<Rightarrow> (nat \<times> nat) list) \<Rightarrow> jsstring \<Rightarrow> jsstring \<times> nat list" where
  "prepareMemoPollContent text_ranges content =
     (let ranges = findMemoPollMarkers text_ranges content in
      if ranges = [] then (content, []) else prepare_loop content ranges [] [] 0)"

definition ensureMemoPollMarker :: "(jsstring \<Rightarrow> (nat \<times> nat) list) \<Rightarrow> jsstring \<Rightarrow> jsstring" where
  "ensureMemoPollMarker text_ranges content =
     (if findMemoPollMarkers text_ranges content \<noteq> [] then content
      else if trim content \<noteq> [] then trim_end content @ NL2 @ MEMO_POLL_MARKER else MEMO_POLL_MARKER)"

definition removeMemoPollMarkers :: "(jsstring \<Rightarrow> (nat \<times> nat) list) \<Rightarrow> jsstring \<Rightarrow> jsstring" where
  "removeMemoPollMarkers text_ranges content =
     fold (\<lambda>(a, b) output. take a output @ drop b output) (rev (findMemoPollMarkers text_ranges content)) content"

section \<open>Properties\<close>

text \<open>Ranges in order without overlap, inside \<open>[lo, hi]\<close>.\<close>

fun ordered :: "nat \<Rightarrow> nat \<Rightarrow> (nat \<times> nat) list \<Rightarrow> bool" where
  "ordered lo hi [] = (lo \<le> hi)"
| "ordered lo hi ((a, b) # rs) = (lo \<le> a \<and> a < b \<and> ordered b hi rs)"

lemma ordered_le: "ordered lo hi rs \<Longrightarrow> lo \<le> hi"
  by (induction lo hi rs rule: ordered.induct) auto

lemma ordered_weaken: "ordered lo hi rs \<Longrightarrow> lo' \<le> lo \<Longrightarrow> ordered lo' hi rs"
  by (cases rs) auto

lemma spaced_ordered:
  "spaced lo hi rs \<Longrightarrow> lo \<le> hi \<Longrightarrow> ordered lo hi (map (\<lambda>(a, b, v). (a, b)) (filter P rs))"
proof (induction lo hi rs rule: spaced.induct)
  case (2 lo hi a b v rs)
  then show ?case by (auto intro: ordered_weaken)
qed simp

lemma markers_ordered: "ordered 0 (length c) (findMemoPollMarkers t c)"
  using spaced_ordered [OF markers.find_all_spaced [OF refl, of 0 c], of "\<lambda>(start, e, m).
      \<exists>(a, b) \<in> set (t c). m \<ge> a \<and> m + length MEMO_POLL_MARKER \<le> b"]
  by (simp add: findMemoPollMarkers_def)

text \<open>The text between and around the ranges.\<close>

fun gaps :: "jsstring \<Rightarrow> nat \<Rightarrow> (nat \<times> nat) list \<Rightarrow> jsstring" where
  "gaps s cursor [] = drop cursor s"
| "gaps s cursor ((a, b) # rs) = slice s cursor a @ gaps s b rs"

lemma remove_from_last:
  assumes "ordered lo (length s) rs" "lo \<le> length s"
  shows "foldr (\<lambda>(a, b) output. take a output @ drop b output) rs s = take lo s @ gaps s lo rs"
  using assms
proof (induction rs arbitrary: lo)
  case (Cons r rs)
  obtain a b where r: "r = (a, b)" by (cases r)
  with Cons.prems have ab: "lo \<le> a" "a < b" "ordered b (length s) rs" by auto
  then have b: "b \<le> length s" using ordered_le by blast
  have "foldr (\<lambda>(a, b) output. take a output @ drop b output) rs s = take b s @ gaps s b rs"
    by (rule Cons.IH [OF ab(3) b])
  moreover have "take a (take b s @ gaps s b rs) = take a s" using ab b by simp
  moreover have "take a s = take lo s @ slice s lo a"
    using ab(1) by (metis le_add_diff_inverse slice_def take_add)
  ultimately show ?case using r b by simp
qed simp

text \<open>Removing the markers, from the last to the first, leaves exactly the text between them, unchanged and in order.\<close>

lemma remove_markers_leaves_gaps:
  "removeMemoPollMarkers text_ranges content = gaps content 0 (findMemoPollMarkers text_ranges content)"
  using remove_from_last [OF markers_ordered, of content text_ranges]
  by (simp add: removeMemoPollMarkers_def foldr_conv_fold)

definition marks :: "jsstring \<Rightarrow> nat list \<Rightarrow> bool" where
  "marks s os \<longleftrightarrow> (\<forall>o' \<in> set os. slice s o' (o' + 8) = MEMO_POLL_MARKER)"

lemma marks_append: "marks s os \<Longrightarrow> marks (s @ t) os"
proof -
  have "slice (s @ t) i (i + 8) = MEMO_POLL_MARKER" if "slice s i (i + 8) = MEMO_POLL_MARKER" for i
  proof -
    have "length (slice s i (i + 8)) = 8" using that by simp
    then have "i + 8 \<le> length s" by (simp add: length_slice)
    with that show ?thesis by (simp add: slice_def)
  qed
  then show "marks s os \<Longrightarrow> marks (s @ t) os" by (simp add: marks_def)
qed

lemma prepare_loop_marks:
  "marks output offsets \<Longrightarrow> prepare_loop content ranges output offsets cursor = (result, os) \<Longrightarrow>
   marks result os \<and> length os = length offsets + length ranges"
proof (induction content ranges "output" offsets cursor rule: prepare_loop.induct)
  case 1
  then show ?case by (auto simp: marks_append)
next
  case (2 content a b ranges out offsets cursor)
  let ?o = "out @ slice content cursor a @ NL2"
  have "marks (?o @ MEMO_POLL_MARKER @ NL2) (offsets @ [length ?o])"
    using marks_append [OF 2(2), of "slice content cursor a @ NL2 @ MEMO_POLL_MARKER @ NL2"]
    by (auto simp: marks_def slice_def)
  with 2(1) [OF refl this] 2(3) show ?case by (simp add: Let_def)
qed

text \<open>
  Preparing the content gives one offset per marker found, and each offset is where a marker
  stands in the prepared text.
\<close>

lemma prepared_offsets_point_at_markers:
  assumes "prepareMemoPollContent text_ranges content = (result, offsets)"
  shows "length offsets = length (findMemoPollMarkers text_ranges content) \<and>
    (\<forall>i \<in> set offsets. slice result i (i + 8) = MEMO_POLL_MARKER)"
proof (cases "findMemoPollMarkers text_ranges content = []")
  case False
  with assms prepare_loop_marks [of "[]" "[]" content _ 0 result offsets] show ?thesis
    by (simp add: prepareMemoPollContent_def marks_def)
qed (use assms in \<open>simp add: prepareMemoPollContent_def\<close>)

lemma marker_alone: "findMemoPollMarkers (\<lambda>_. [(0, 8)]) MEMO_POLL_MARKER = [(0, 8)]"
proof -
  have "marker_match MEMO_POLL_MARKER 0 = Some (8, 0)"
    by (simp add: marker_match_def run_length_def at_line_start_def at_line_end_def starts_with_at_def
        starts_with_def MEMO_POLL_MARKER_def js_str)
  then have "marker_matches MEMO_POLL_MARKER 0 8 = [(0, 8, 0)]"
    by (simp add: marker_matches.simps [of _ 0] marker_matches.simps [of _ 8] scan_marker_def)
  moreover have "js_includes MEMO_POLL_MARKER MEMO_POLL_MARKER"
    by (simp add: js_includes_sublist)
  ultimately show ?thesis by (simp add: findMemoPollMarkers_def)
qed

lemma prepared_offsets_point_at_markers_witness:
  "prepareMemoPollContent (\<lambda>_. [(0, 8)]) MEMO_POLL_MARKER = (NL2 @ MEMO_POLL_MARKER @ NL2, [2]) \<and>
   slice (NL2 @ MEMO_POLL_MARKER @ NL2) 2 10 = MEMO_POLL_MARKER"
proof -
  have p: "prepareMemoPollContent (\<lambda>_. [(0, 8)]) MEMO_POLL_MARKER = (NL2 @ MEMO_POLL_MARKER @ NL2, [2])"
    by (simp add: prepareMemoPollContent_def marker_alone NL2_def)
  from prepared_offsets_point_at_markers [OF p] p show ?thesis by simp
qed

text \<open>After ensuring, the text carries a marker, and it starts with the old text up to its trailing white space.\<close>

lemma ensure_adds_marker:
  "js_includes (ensureMemoPollMarker text_ranges content) MEMO_POLL_MARKER \<and>
   (trim content \<noteq> [] \<longrightarrow> starts_with (ensureMemoPollMarker text_ranges content) (trim_end content))"
proof -
  have "prefix (trim_end content) content"
    by (simp add: trim_end_def) (metis prefix_def rev_append rev_rev_ident takeWhile_dropWhile_id)
  moreover have "sublist MEMO_POLL_MARKER (t @ NL2 @ MEMO_POLL_MARKER)" for t
    by (metis append.assoc suffixI suffix_imp_sublist)
  ultimately show ?thesis
    by (auto simp: ensureMemoPollMarker_def findMemoPollMarkers_def js_includes_sublist starts_with_prefix
        split: if_splits)
qed

lemma ensure_adds_marker_witness:
  "js_includes (ensureMemoPollMarker (\<lambda>_. []) (js ''a'')) MEMO_POLL_MARKER \<and>
   starts_with (ensureMemoPollMarker (\<lambda>_. []) (js ''a'')) (trim_end (js ''a''))"
  using ensure_adds_marker [of "\<lambda>_. []" "js ''a''"]
  by (simp add: trim_eq_Nil js_str is_js_space_def)

end
