(* ===== verification/MemoService.thy ===== *)
theory MemoService
  imports EditorState MemoPoll
begin

text \<open>
  Saving a memo (\<^verbatim>\<open>components/MemoEditor/services/memoService.ts\<close>, \<^verbatim>\<open>uploadService.ts\<close>, and the relation
  helpers of \<^verbatim>\<open>components/MemoMetadata/Relation/relationHelpers.ts\<close>): the uploads, the update mask and
  the patch, the created memo, and the editor state of a loaded memo. The server is a record of calls
  over its state \<open>'s\<close>, each returning an error \<open>Inl e\<close> or a value; the conversions of the protobuf
  library are the record \<open>wkt\<close>.
\<close>

record wkt =
  timestampDate :: "Timestamp \<Rightarrow> date"
  timestampFromDate :: "date \<Rightarrow> Timestamp"

section \<open>Relations\<close>

definition isReferenceRelation :: "MemoRelation \<Rightarrow> bool" where
  "isReferenceRelation relation \<longleftrightarrow> rel_type relation = REFERENCE"

definition rel_memo_name :: "MemoRelation_Memo option \<Rightarrow> jsstring option" where
  "rel_memo_name m = map_option rm_name m"

definition getEditorReferenceRelations :: "MemoRelation list \<Rightarrow> jsstring option \<Rightarrow> MemoRelation list" where
  "getEditorReferenceRelations relations memoName =
     filter (\<lambda>r. isReferenceRelation r \<and>
       (or_undefined memoName = None \<or> or_undefined (rel_memo_name (rel_memo r)) = None \<or>
        rel_memo_name (rel_memo r) = memoName)) relations"

fun relation_buckets ::
    "jsstring option \<Rightarrow> MemoRelation list \<times> MemoRelation list \<Rightarrow> MemoRelation list \<Rightarrow>
     MemoRelation list \<times> MemoRelation list" where
  "relation_buckets current (referencing, referenced) [] = (referencing, referenced)"
| "relation_buckets current (referencing, referenced) (r # rs) =
     (if \<not> isReferenceRelation r then relation_buckets current (referencing, referenced) rs
      else if rel_memo_name (rel_memo r) = current \<and> rel_memo_name (rel_relatedMemo r) \<noteq> current
        then relation_buckets current (referencing @ [r], referenced) rs
      else if rel_memo_name (rel_memo r) \<noteq> current \<and> rel_memo_name (rel_relatedMemo r) = current
        then relation_buckets current (referencing, referenced @ [r]) rs
      else relation_buckets current (referencing, referenced) rs)"

definition getRelationBuckets :: "MemoRelation list \<Rightarrow> jsstring option \<Rightarrow> MemoRelation list \<times> MemoRelation list" where
  "getRelationBuckets relations current = relation_buckets current ([], []) relations"

datatype RelationDirection = dir_referencing | dir_referenced

definition getRelationMemo :: "MemoRelation \<Rightarrow> RelationDirection \<Rightarrow> MemoRelation_Memo option" where
  "getRelationMemo r direction = (if direction = dir_referencing then rel_relatedMemo r else rel_memo r)"

definition getRelationMemoName :: "MemoRelation \<Rightarrow> RelationDirection \<Rightarrow> jsstring" where
  "getRelationMemoName r direction = or_empty (rel_memo_name (getRelationMemo r direction))"

section \<open>The server\<close>

type_synonym ('e, 's, 'a) call = "'s \<Rightarrow> ('e + 'a) \<times> 's"

record ('e, 's) memo_api =
  createAttachment :: "Attachment \<Rightarrow> ('e, 's, Attachment) call"
  getMemo :: "jsstring \<Rightarrow> ('e, 's, Memo) call"
  updateMemo :: "Memo \<Rightarrow> jsstring list \<Rightarrow> ('e, 's, Memo) call"
  createMemo :: "Memo \<Rightarrow> ('e, 's, Memo) call"
  createMemoComment :: "jsstring \<Rightarrow> Memo \<Rightarrow> ('e, 's, Memo) call"

text \<open>\<^verbatim>\<open>await\<close>: a rejected promise ends the caller.\<close>

definition await :: "('e, 's, 'a) call \<Rightarrow> ('a \<Rightarrow> ('e, 's, 'b) call) \<Rightarrow> ('e, 's, 'b) call" where
  "await c k s = (case c s of (Inl e, s') \<Rightarrow> (Inl e, s') | (Inr x, s') \<Rightarrow> k x s')"

definition done_with :: "'a \<Rightarrow> ('e, 's, 'a) call" where
  "done_with x s = (Inr x, s)"

lemmas call_defs = await_def done_with_def

section \<open>Uploads\<close>

definition uploadFile :: "('e, 's) memo_api \<Rightarrow> LocalFile \<Rightarrow> ('e, 's, Attachment) call" where
  "uploadFile api f =
     createAttachment api (empty_attachment
       \<lparr>att_filename := file_name (lf_file f), att_size := file_size (lf_file f),
        att_type := file_type (lf_file f), att_content := file_bytes (lf_file f),
        att_motionMedia := lf_motionMedia f, att_mediaMetadata := lf_mediaMetadata f\<rparr>)"

fun uploadFiles :: "('e, 's) memo_api \<Rightarrow> LocalFile list \<Rightarrow> ('e, 's, Attachment list) call" where
  "uploadFiles api [] = done_with []"
| "uploadFiles api (f # fs) =
     await (uploadFile api f) (\<lambda>a. await (uploadFiles api fs) (\<lambda>as. done_with (a # as)))"

section \<open>The update mask\<close>

definition toAttachmentReferences :: "Attachment list \<Rightarrow> Attachment list" where
  "toAttachmentReferences as = map (\<lambda>a. empty_attachment\<lparr>att_name := att_name a\<rparr>) as"

definition editablePoll :: "Poll option \<Rightarrow> Poll option" where
  "editablePoll poll =
     map_option (\<lambda>p. p
       \<lparr>poll_totalVotes := 0, poll_selectedOptionIds := [], poll_resultsHidden := False, poll_voters := [],
        poll_votersVisible := False, poll_hasMoreVoters := False,
        poll_options := map (\<lambda>opt. opt\<lparr>opt_voteCount := 0\<rparr>) (poll_options p)\<rparr>) poll"

type_synonym mask_patch = "jsstring list \<times> Memo"

text \<open>\<^verbatim>\<open>if (changed) { mask.add(key); patch.field = value }\<close>.\<close>

definition put :: "bool \<Rightarrow> string \<Rightarrow> (Memo \<Rightarrow> Memo) \<Rightarrow> mask_patch \<Rightarrow> mask_patch" where
  "put changed key upd mp = (if changed then (set_add (js key) (fst mp), upd (snd mp)) else mp)"

definition buildUpdateMask ::
    "wkt \<Rightarrow> Memo \<Rightarrow> EditorState \<Rightarrow> Attachment list \<Rightarrow> bool \<Rightarrow> Poll option \<Rightarrow> mask_patch" where
  "buildUpdateMask w prevMemo state allAttachments canCustomizeTimestamps poll =
     (let md = es_metadata state;
          tm = es_timestamps state;
          content = es_content state;
          prevRefs = getEditorReferenceRelations (memo_relations prevMemo) (Some (memo_name prevMemo));
          nextRefs = getEditorReferenceRelations (md_relations md) (Some (memo_name prevMemo));
          prevPublishTime = map_option (timestampDate w) (memo_publishTime prevMemo);
          mp0 = ([], empty_memo\<lparr>memo_name := memo_name prevMemo, memo_content := content\<rparr>);
          mp1 = put (editablePoll poll \<noteq> editablePoll (memo_poll prevMemo)) ''poll'' (memo_poll_update (\<lambda>_. poll)) mp0;
          mp2 = put (content \<noteq> memo_content prevMemo) ''content'' (memo_content_update (\<lambda>_. content)) mp1;
          mp3 = put (md_visibility md \<noteq> memo_visibility prevMemo) ''visibility''
                  (memo_visibility_update (\<lambda>_. md_visibility md)) mp2;
          mp4 = put (allAttachments \<noteq> memo_attachments prevMemo) ''attachments''
                  (memo_attachments_update (\<lambda>_. toAttachmentReferences allAttachments)) mp3;
          mp5 = put (nextRefs \<noteq> prevRefs) ''relations'' (memo_relations_update (\<lambda>_. nextRefs)) mp4;
          mp6 = put (md_location md \<noteq> memo_location prevMemo) ''location''
                  (memo_location_update (\<lambda>_. md_location md)) mp5;
          mp7 = put (or_empty (md_category md) \<noteq> or_empty (memo_category prevMemo)) ''category''
                  (memo_category_update (\<lambda>_. Some (or_empty (md_category md)))) mp6;
          mp8 = put (md_hidden md \<noteq> memo_hidden prevMemo) ''hidden'' (memo_hidden_update (\<lambda>_. md_hidden md)) mp7;
          mp9 = put (md_anonymous md \<noteq> memo_anonymous prevMemo) ''anonymous''
                  (memo_anonymous_update (\<lambda>_. md_anonymous md)) mp8;
          mp10 = put (md_adminScript md \<noteq> memo_adminScript prevMemo) ''admin_script''
                  (memo_adminScript_update (\<lambda>_. md_adminScript md)) mp9;
          mp11 = put (md_draft md \<noteq> memo_draft prevMemo) ''draft'' (memo_draft_update (\<lambda>_. md_draft md)) mp10;
          mp12 = put (md_publishTime md \<noteq> prevPublishTime) ''publish_time''
                  (memo_publishTime_update (\<lambda>_. map_option (timestampFromDate w) (md_publishTime md))) mp11;
          mp13 = put (\<exists>key \<in> {''content'', ''attachments'', ''relations'', ''location''}. js key \<in> set (fst mp12))
                  ''update_time'' id mp12;
          mp14 = put (canCustomizeTimestamps \<and> tm_hideTime tm \<noteq> memo_hideTime prevMemo) ''hide_time''
                  (memo_hideTime_update (\<lambda>_. tm_hideTime tm)) mp13;
          mp15 = put (canCustomizeTimestamps \<and> tm_createTime tm \<noteq> None \<and>
                    tm_createTime tm \<noteq> map_option (timestampDate w) (memo_createTime prevMemo)) ''create_time''
                  (memo_createTime_update (\<lambda>_. map_option (timestampFromDate w) (tm_createTime tm))) mp14;
          mp16 = put (canCustomizeTimestamps \<and> tm_updateTime tm \<noteq> None \<and>
                    tm_updateTime tm \<noteq> map_option (timestampDate w) (memo_updateTime prevMemo)) ''update_time''
                  (memo_updateTime_update (\<lambda>_. map_option (timestampFromDate w) (tm_updateTime tm))) mp15
      in mp16)"

section \<open>Saving\<close>

record save_options =
  so_memoName :: "jsstring option"
  so_parentMemoName :: "jsstring option"
  so_canCustomizeTimestamps :: bool
  so_space :: "jsstring option"

text \<open>A \<^verbatim>\<open>Map\<close> built from a list of pairs: a later pair replaces an earlier one.\<close>

definition localAttachments :: "LocalFile list \<Rightarrow> Attachment list \<Rightarrow> jsstring \<Rightarrow> Attachment option" where
  "localAttachments files as url = map_of (rev (zip (map lf_previewUrl files) as)) url"

definition resolve_image ::
    "Attachment option \<Rightarrow> jsstring option \<Rightarrow> (jsstring \<Rightarrow> Attachment option) \<Rightarrow> Attachment option" where
  "resolve_image own localURL lookup =
     (case own of
        Some a \<Rightarrow> Some a
      | None \<Rightarrow> (case or_undefined localURL of None \<Rightarrow> None | Some url \<Rightarrow> lookup url))"

definition resolve_poll :: "editor_metadata \<Rightarrow> (jsstring \<Rightarrow> Attachment option) \<Rightarrow> Poll option" where
  "resolve_poll md lookup =
     map_option (\<lambda>p. p
       \<lparr>poll_image := resolve_image (poll_image p) (md_pollImageLocalFileURL md) lookup,
        poll_options := map (\<lambda>opt. opt
          \<lparr>opt_image := resolve_image (opt_image opt)
             (case md_pollOptionImageLocalFileURLs md of None \<Rightarrow> None | Some urls \<Rightarrow> map_of urls (opt_id opt))
             lookup\<rparr>) (poll_options p)\<rparr>) (md_poll md)"

definition new_memo :: "wkt \<Rightarrow> EditorState \<Rightarrow> save_options \<Rightarrow> Attachment list \<Rightarrow> Poll option \<Rightarrow> Memo" where
  "new_memo w state options allAttachments poll =
     (let md = es_metadata state;
          tm = es_timestamps state;
          top = (or_undefined (so_parentMemoName options) = None);
          can = so_canCustomizeTimestamps options
      in empty_memo
        \<lparr>memo_content := es_content state,
         memo_visibility := md_visibility md,
         memo_attachments := toAttachmentReferences allAttachments,
         memo_relations := md_relations md,
         memo_poll := poll,
         memo_location := md_location md,
         memo_category := (if top then md_category md else None),
         memo_hidden := (top \<and> md_hidden md),
         memo_anonymous := (top \<and> md_anonymous md),
         memo_adminScript := md_adminScript md,
         memo_draft := (top \<and> md_draft md),
         memo_publishTime := (if top then map_option (timestampFromDate w) (md_publishTime md) else None),
         memo_createTime := (if can then map_option (timestampFromDate w) (tm_createTime tm) else None),
         memo_updateTime := (if can then map_option (timestampFromDate w) (tm_updateTime tm) else None),
         memo_hideTime := (can \<and> tm_hideTime tm),
         memo_space := (if top then so_space options else None)\<rparr>)"

definition save ::
    "wkt \<Rightarrow> ('e, 's) memo_api \<Rightarrow> EditorState \<Rightarrow> save_options \<Rightarrow> ('e, 's, jsstring \<times> bool) call" where
  "save w api state options =
     await (uploadFiles api (es_localFiles state)) (\<lambda>newAttachments.
       let allAttachments = md_attachments (es_metadata state) @ newAttachments;
           poll = resolve_poll (es_metadata state) (localAttachments (es_localFiles state) newAttachments)
       in case or_undefined (so_memoName options) of
            Some name \<Rightarrow>
              await (getMemo api name) (\<lambda>prevMemo.
                let (paths, patch) = buildUpdateMask w prevMemo state allAttachments
                      (so_canCustomizeTimestamps options) poll
                in if paths = [] then done_with (memo_name prevMemo, False)
                   else await (updateMemo api patch paths) (\<lambda>memo. done_with (memo_name memo, True)))
          | None \<Rightarrow>
              (let memoData = new_memo w state options allAttachments poll in
               await (case or_undefined (so_parentMemoName options) of
                        Some parent \<Rightarrow> createMemoComment api parent memoData
                      | None \<Rightarrow> createMemo api memoData)
                 (\<lambda>memo. done_with (memo_name memo, True))))"

definition fromMemo ::
    "wkt \<Rightarrow> (jsstring \<Rightarrow> (nat \<times> nat) list) \<Rightarrow> Memo \<Rightarrow> jsstring \<times> editor_metadata \<times> editor_timestamps" where
  "fromMemo w text_ranges memo =
     (if memo_poll memo \<noteq> None then ensureMemoPollMarker text_ranges (memo_content memo) else memo_content memo,
      \<lparr>md_visibility = memo_visibility memo, md_attachments = memo_attachments memo,
       md_relations = memo_relations memo, md_location = memo_location memo,
       md_category = or_undefined (memo_category memo), md_hidden = memo_hidden memo,
       md_anonymous = memo_anonymous memo, md_adminScript = memo_adminScript memo,
       md_poll = memo_poll memo, md_pollImageLocalFileURL = None,
       md_pollOptionImageLocalFileURLs = None, md_draft = memo_draft memo,
       md_publishTime = map_option (timestampDate w) (memo_publishTime memo)\<rparr>,
      \<lparr>tm_createTime = map_option (timestampDate w) (memo_createTime memo),
       tm_updateTime = map_option (timestampDate w) (memo_updateTime memo),
       tm_hideTime = memo_hideTime memo\<rparr>)"


section \<open>The mask says what changed\<close>

lemma put_mem: "js k \<in> set (fst (put c key u mp)) \<longleftrightarrow> (c \<and> k = key) \<or> js k \<in> set (fst mp)"
  by (auto simp: put_def)

lemma put_Nil: "fst (put c key u mp) = [] \<longleftrightarrow> \<not> c \<and> fst mp = []"
  by (auto simp: put_def set_add_def)

text \<open>A put of another field keeps a field; the put of a field sets it when the field changed.\<close>

lemma put_other: "(\<And>m. f (u m) = f m) \<Longrightarrow> f (snd (put c key u mp)) = f (snd mp)"
  by (simp add: put_def)

lemma put_same: "f (snd (put c key u mp)) = (if c then f (u (snd mp)) else f (snd mp))"
  by (simp add: put_def)

lemmas put_fields =
  put_other [where f = memo_content] put_same [where f = memo_content and u = "memo_content_update g" for g]
  put_other [where f = memo_visibility] put_same [where f = memo_visibility and u = "memo_visibility_update g" for g]
  put_other [where f = memo_attachments] put_same [where f = memo_attachments and u = "memo_attachments_update g" for g]
  put_other [where f = memo_relations] put_same [where f = memo_relations and u = "memo_relations_update g" for g]
  put_other [where f = memo_location] put_same [where f = memo_location and u = "memo_location_update g" for g]
  put_other [where f = memo_category] put_same [where f = memo_category and u = "memo_category_update g" for g]
  put_other [where f = memo_hidden] put_same [where f = memo_hidden and u = "memo_hidden_update g" for g]
  put_other [where f = memo_anonymous] put_same [where f = memo_anonymous and u = "memo_anonymous_update g" for g]
  put_other [where f = memo_adminScript] put_same [where f = memo_adminScript and u = "memo_adminScript_update g" for g]
  put_other [where f = memo_draft] put_same [where f = memo_draft and u = "memo_draft_update g" for g]
  put_other [where f = memo_publishTime] put_same [where f = memo_publishTime and u = "memo_publishTime_update g" for g]
  put_other [where f = memo_poll] put_same [where f = memo_poll and u = "memo_poll_update g" for g]
  put_other [where f = memo_hideTime] put_same [where f = memo_hideTime and u = "memo_hideTime_update g" for g]
  put_other [where f = memo_createTime] put_same [where f = memo_createTime and u = "memo_createTime_update g" for g]
  put_other [where f = memo_updateTime] put_same [where f = memo_updateTime and u = "memo_updateTime_update g" for g]

definition edited_refs :: "Memo \<Rightarrow> MemoRelation list \<Rightarrow> MemoRelation list" where
  "edited_refs prev rels = getEditorReferenceRelations rels (Some (memo_name prev))"

text \<open>Which keys the mask holds, key by key.\<close>

lemma mask_keys:
  fixes w prev state allAtts can poll
  defines "ks \<equiv> set (fst (buildUpdateMask w prev state allAtts can poll))"
    and "md \<equiv> es_metadata state" and "tm \<equiv> es_timestamps state"
  shows "js ''poll'' \<in> ks \<longleftrightarrow> editablePoll poll \<noteq> editablePoll (memo_poll prev)"
    and "js ''content'' \<in> ks \<longleftrightarrow> es_content state \<noteq> memo_content prev"
    and "js ''visibility'' \<in> ks \<longleftrightarrow> md_visibility md \<noteq> memo_visibility prev"
    and "js ''attachments'' \<in> ks \<longleftrightarrow> allAtts \<noteq> memo_attachments prev"
    and "js ''relations'' \<in> ks \<longleftrightarrow> edited_refs prev (md_relations md) \<noteq> edited_refs prev (memo_relations prev)"
    and "js ''location'' \<in> ks \<longleftrightarrow> md_location md \<noteq> memo_location prev"
    and "js ''category'' \<in> ks \<longleftrightarrow> or_empty (md_category md) \<noteq> or_empty (memo_category prev)"
    and "js ''hidden'' \<in> ks \<longleftrightarrow> md_hidden md \<noteq> memo_hidden prev"
    and "js ''anonymous'' \<in> ks \<longleftrightarrow> md_anonymous md \<noteq> memo_anonymous prev"
    and "js ''admin_script'' \<in> ks \<longleftrightarrow> md_adminScript md \<noteq> memo_adminScript prev"
    and "js ''draft'' \<in> ks \<longleftrightarrow> md_draft md \<noteq> memo_draft prev"
    and "js ''publish_time'' \<in> ks \<longleftrightarrow> md_publishTime md \<noteq> map_option (timestampDate w) (memo_publishTime prev)"
    and "js ''hide_time'' \<in> ks \<longleftrightarrow> can \<and> tm_hideTime tm \<noteq> memo_hideTime prev"
    and "js ''create_time'' \<in> ks \<longleftrightarrow> can \<and> tm_createTime tm \<noteq> None \<and>
      tm_createTime tm \<noteq> map_option (timestampDate w) (memo_createTime prev)"
  by (simp_all add: put_mem buildUpdateMask_def Let_def edited_refs_def ks_def md_def tm_def)

lemma mask_update_time:
  "js ''update_time'' \<in> set (fst (buildUpdateMask w prev state allAtts can poll)) \<longleftrightarrow>
    es_content state \<noteq> memo_content prev \<or> allAtts \<noteq> memo_attachments prev \<or>
    edited_refs prev (md_relations (es_metadata state)) \<noteq> edited_refs prev (memo_relations prev) \<or>
    md_location (es_metadata state) \<noteq> memo_location prev \<or>
    (can \<and> tm_updateTime (es_timestamps state) \<noteq> None \<and>
     tm_updateTime (es_timestamps state) \<noteq> map_option (timestampDate w) (memo_updateTime prev))"
  by (simp add: put_mem buildUpdateMask_def Let_def edited_refs_def) argo

lemma mask_Nil:
  "fst (buildUpdateMask w prev state allAtts can poll) = [] \<longleftrightarrow>
    editablePoll poll = editablePoll (memo_poll prev) \<and> es_content state = memo_content prev \<and>
    md_visibility (es_metadata state) = memo_visibility prev \<and> allAtts = memo_attachments prev \<and>
    edited_refs prev (md_relations (es_metadata state)) = edited_refs prev (memo_relations prev) \<and>
    md_location (es_metadata state) = memo_location prev \<and>
    or_empty (md_category (es_metadata state)) = or_empty (memo_category prev) \<and>
    md_hidden (es_metadata state) = memo_hidden prev \<and> md_anonymous (es_metadata state) = memo_anonymous prev \<and>
    md_adminScript (es_metadata state) = memo_adminScript prev \<and> md_draft (es_metadata state) = memo_draft prev \<and>
    md_publishTime (es_metadata state) = map_option (timestampDate w) (memo_publishTime prev) \<and>
    (can \<longrightarrow> tm_hideTime (es_timestamps state) = memo_hideTime prev \<and>
      tm_createTime (es_timestamps state) \<in> {None, map_option (timestampDate w) (memo_createTime prev)} \<and>
      tm_updateTime (es_timestamps state) \<in> {None, map_option (timestampDate w) (memo_updateTime prev)})"
  by (simp add: put_Nil put_mem buildUpdateMask_def Let_def edited_refs_def) argo


section \<open>Saving an untouched memo\<close>

lemma resolve_image_None [simp]: "resolve_image i None lookup = i"
  by (cases i) (simp_all add: resolve_image_def or_undefined_def)

lemma resolve_poll_plain:
  "md_pollImageLocalFileURL md = None \<Longrightarrow> md_pollOptionImageLocalFileURLs md = None \<Longrightarrow>
   resolve_poll md lookup = md_poll md"
proof -
  assume n: "md_pollImageLocalFileURL md = None" "md_pollOptionImageLocalFileURLs md = None"
  have "map (\<lambda>opt. opt\<lparr>opt_image := opt_image opt\<rparr>) xs = xs" for xs :: "PollOption list"
    by (induction xs) simp_all
  then have "p\<lparr>poll_image := poll_image p, poll_options := map (\<lambda>opt. opt\<lparr>opt_image := opt_image opt\<rparr>) (poll_options p)\<rparr> = p" for p
    by simp
  with n show ?thesis by (cases "md_poll md") (simp_all add: resolve_poll_def)
qed

definition opened :: "wkt \<Rightarrow> (jsstring \<Rightarrow> (nat \<times> nat) list) \<Rightarrow> Memo \<Rightarrow> EditorState \<Rightarrow> EditorState" where
  "opened w text_ranges memo state =
     (let (content, metadata, timestamps) = fromMemo w text_ranges memo
      in editorReducer state (INIT_MEMO content metadata timestamps))"

text \<open>
  Opening a memo and saving it untouched sends no update: when the server still has the same
  memo, the save only reads it and reports no changes. The one exception is a poll without its marker,
  whose content the editor extends.
\<close>

lemma untouched_save_is_silent:
  assumes "memo_poll memo = None \<or> findMemoPollMarkers text_ranges (memo_content memo) \<noteq> []"
    and "es_localFiles state = []"
    and "or_undefined (so_memoName options) = Some name"
    and "getMemo api name s = (Inr memo, s')"
  shows "save w api (opened w text_ranges memo state) options s = (Inr (memo_name memo, False), s')"
proof -
  let ?st = "opened w text_ranges memo state"
  have st: "es_localFiles ?st = []" "es_content ?st = memo_content memo"
    "md_attachments (es_metadata ?st) = memo_attachments memo"
    "resolve_poll (es_metadata ?st) lookup = memo_poll memo" for lookup
    using assms(1,2)
    by (auto simp: opened_def fromMemo_def ensureMemoPollMarker_def resolve_poll_plain)
  have "fst (buildUpdateMask w memo ?st (memo_attachments memo) (so_canCustomizeTimestamps options) (memo_poll memo)) = []"
    using st(2) by (simp add: mask_Nil) (simp add: opened_def fromMemo_def)
  then obtain patch where "buildUpdateMask w memo ?st (memo_attachments memo)
      (so_canCustomizeTimestamps options) (memo_poll memo) = ([], patch)"
    by (metis prod.collapse)
  with assms(3,4) show ?thesis
    by (auto simp: save_def st call_defs)
qed

definition sample_wkt :: wkt where
  "sample_wkt =
     \<lparr>timestampDate = (\<lambda>t. ts_seconds t * 1000 + ts_nanos t div 1000000),
      timestampFromDate = (\<lambda>d. \<lparr>ts_seconds = d div 1000, ts_nanos = d mod 1000 * 1000000\<rparr>)\<rparr>"

text \<open>A server with one memo that counts the writes it receives.\<close>

definition sample_api :: "Memo \<Rightarrow> (unit, nat) memo_api" where
  "sample_api memo =
     \<lparr>createAttachment = (\<lambda>a n. (Inr a, Suc n)), getMemo = (\<lambda>_ n. (Inr memo, n)),
      updateMemo = (\<lambda>m _ n. (Inr m, Suc n)), createMemo = (\<lambda>m n. (Inr m, Suc n)),
      createMemoComment = (\<lambda>_ m n. (Inr m, Suc n))\<rparr>"

definition sample_memo :: Memo where
  "sample_memo = empty_memo\<lparr>memo_name := js ''memos/1'', memo_content := js ''hi'',
     memo_createTime := Some \<lparr>ts_seconds = 5, ts_nanos = 0\<rparr>\<rparr>"

definition sample_options :: save_options where
  "sample_options = \<lparr>so_memoName = Some (js ''memos/1''), so_parentMemoName = None,
     so_canCustomizeTimestamps = True, so_space = None\<rparr>"

lemma untouched_save_is_silent_witness:
  "save sample_wkt (sample_api sample_memo) (opened sample_wkt (\<lambda>_. []) sample_memo (createInitialState False))
     sample_options 7 = (Inr (memo_name sample_memo, False), 7)"
  by (rule untouched_save_is_silent [where name = "js ''memos/1''"])
     (simp_all add: sample_memo_def empty_memo_def createInitialState_def defaultState_def
       sample_options_def sample_api_def)

section \<open>What an update carries\<close>

text \<open>
  The contract of a field mask: the server copies the masked fields of the patch and keeps the others.
\<close>

definition masked :: "jsstring list \<Rightarrow> string \<Rightarrow> 'a \<Rightarrow> 'a \<Rightarrow> 'a" where
  "masked paths key new old = (if js key \<in> set paths then new else old)"

definition apply_update :: "mask_patch \<Rightarrow> Memo \<Rightarrow> Memo" where
  "apply_update mp prev =
     (let paths = fst mp; p = snd mp in prev
      \<lparr>memo_content := masked paths ''content'' (memo_content p) (memo_content prev),
       memo_visibility := masked paths ''visibility'' (memo_visibility p) (memo_visibility prev),
       memo_attachments := masked paths ''attachments'' (memo_attachments p) (memo_attachments prev),
       memo_relations := masked paths ''relations'' (memo_relations p) (memo_relations prev),
       memo_location := masked paths ''location'' (memo_location p) (memo_location prev),
       memo_category := masked paths ''category'' (memo_category p) (memo_category prev),
       memo_hidden := masked paths ''hidden'' (memo_hidden p) (memo_hidden prev),
       memo_anonymous := masked paths ''anonymous'' (memo_anonymous p) (memo_anonymous prev),
       memo_adminScript := masked paths ''admin_script'' (memo_adminScript p) (memo_adminScript prev),
       memo_draft := masked paths ''draft'' (memo_draft p) (memo_draft prev),
       memo_publishTime := masked paths ''publish_time'' (memo_publishTime p) (memo_publishTime prev),
       memo_poll := masked paths ''poll'' (memo_poll p) (memo_poll prev),
       memo_hideTime := masked paths ''hide_time'' (memo_hideTime p) (memo_hideTime prev),
       memo_createTime := masked paths ''create_time'' (memo_createTime p) (memo_createTime prev)\<rparr>)"

lemma refs_idem: "edited_refs prev (edited_refs prev rels) = edited_refs prev rels"
  by (simp add: edited_refs_def getEditorReferenceRelations_def)

text \<open>The value of each field in the patch when its key is masked.\<close>

lemma patch_fields:
  fixes w prev state allAtts can poll
  defines "p \<equiv> snd (buildUpdateMask w prev state allAtts can poll)"
    and "md \<equiv> es_metadata state" and "tm \<equiv> es_timestamps state"
  shows "memo_content p = es_content state"
    and "md_visibility md \<noteq> memo_visibility prev \<Longrightarrow> memo_visibility p = md_visibility md"
    and "allAtts \<noteq> memo_attachments prev \<Longrightarrow> memo_attachments p = toAttachmentReferences allAtts"
    and "edited_refs prev (md_relations md) \<noteq> edited_refs prev (memo_relations prev) \<Longrightarrow>
      memo_relations p = edited_refs prev (md_relations md)"
    and "md_location md \<noteq> memo_location prev \<Longrightarrow> memo_location p = md_location md"
    and "or_empty (md_category md) \<noteq> or_empty (memo_category prev) \<Longrightarrow> memo_category p = Some (or_empty (md_category md))"
    and "md_hidden md \<noteq> memo_hidden prev \<Longrightarrow> memo_hidden p = md_hidden md"
    and "md_anonymous md \<noteq> memo_anonymous prev \<Longrightarrow> memo_anonymous p = md_anonymous md"
    and "md_adminScript md \<noteq> memo_adminScript prev \<Longrightarrow> memo_adminScript p = md_adminScript md"
    and "md_draft md \<noteq> memo_draft prev \<Longrightarrow> memo_draft p = md_draft md"
    and "md_publishTime md \<noteq> map_option (timestampDate w) (memo_publishTime prev) \<Longrightarrow>
      memo_publishTime p = map_option (timestampFromDate w) (md_publishTime md)"
    and "editablePoll poll \<noteq> editablePoll (memo_poll prev) \<Longrightarrow> memo_poll p = poll"
  by (simp_all add: p_def md_def tm_def buildUpdateMask_def Let_def put_fields edited_refs_def)

lemma masked_value:
  "(js key \<in> set paths \<longleftrightarrow> c) \<Longrightarrow> (c \<Longrightarrow> f new = v) \<Longrightarrow> (\<not> c \<Longrightarrow> f old = v) \<Longrightarrow> f (masked paths key new old) = v"
  by (simp add: masked_def)

text \<open>
  C7. An update brings the stored memo to the editor's state: after the server applies the patch under
  its mask, the content, visibility, attachments, reference relations, location, category, flags,
  publication time and poll are those of the editor, whatever changed and whatever did not.
\<close>

theorem update_reaches_editor_state:
  assumes "\<And>d. timestampDate w (timestampFromDate w d) = d"
    and "m = apply_update (buildUpdateMask w prev state allAtts can poll) prev"
    and "md = es_metadata state"
  shows "memo_content m = es_content state \<and> memo_visibility m = md_visibility md \<and>
    map att_name (memo_attachments m) = map att_name allAtts \<and>
    edited_refs prev (memo_relations m) = edited_refs prev (md_relations md) \<and>
    memo_location m = md_location md \<and> or_empty (memo_category m) = or_empty (md_category md) \<and>
    memo_hidden m = md_hidden md \<and> memo_anonymous m = md_anonymous md \<and>
    memo_adminScript m = md_adminScript md \<and> memo_draft m = md_draft md \<and>
    map_option (timestampDate w) (memo_publishTime m) = md_publishTime md \<and>
    editablePoll (memo_poll m) = editablePoll poll"
proof -
  let ?mp = "buildUpdateMask w prev state allAtts can poll"
  note keys = mask_keys [where w = w and prev = prev and state = state and allAtts = allAtts and
    can = can and poll = poll, folded assms(3)]
  note fields = patch_fields [where w = w and prev = prev and state = state and allAtts = allAtts and
    can = can and poll = poll, folded assms(3)]
  have "map att_name (toAttachmentReferences allAtts) = map att_name allAtts"
    by (simp add: toAttachmentReferences_def)
  moreover have "map_option (timestampDate w) (map_option (timestampFromDate w) d) = d" for d
    using assms(1) by (cases d) simp_all
  ultimately show ?thesis
    unfolding assms(2) apply_update_def Let_def masked_def
    by (intro conjI) (simp_all add: keys fields refs_idem)
qed

theorem update_reaches_editor_state_witness:
  "let m = apply_update (buildUpdateMask sample_wkt sample_memo
       ((createInitialState False)\<lparr>es_content := js ''new''\<rparr>) [] False None) sample_memo
   in memo_content m = js ''new'' \<and> memo_visibility m = PUBLIC"
proof -
  have rt: "timestampDate sample_wkt (timestampFromDate sample_wkt d) = d" for d
    by (simp add: sample_wkt_def)
  show ?thesis
    using update_reaches_editor_state [OF rt refl refl, of sample_memo
      "(createInitialState False)\<lparr>es_content := js ''new''\<rparr>" "[]" False None]
    by (simp add: Let_def createInitialState_def defaultState_def)
qed

text \<open>
  Without the right to customize timestamps no save sets one: the mask of an update has neither
  hide_time nor create_time and its patch has no update time, and a new memo has none of the three.
\<close>

lemma timestamps_are_gated:
  assumes "mp = buildUpdateMask w prev state allAtts False poll"
    and "\<not> so_canCustomizeTimestamps options"
  shows "js ''hide_time'' \<notin> set (fst mp) \<and> js ''create_time'' \<notin> set (fst mp) \<and>
    memo_updateTime (snd mp) = None \<and> memo_createTime (snd mp) = None \<and> \<not> memo_hideTime (snd mp) \<and>
    memo_createTime (new_memo w state options allAtts poll) = None \<and>
    memo_updateTime (new_memo w state options allAtts poll) = None \<and>
    \<not> memo_hideTime (new_memo w state options allAtts poll)"
proof -
  have "memo_updateTime (snd mp) = None" "memo_createTime (snd mp) = None" "\<not> memo_hideTime (snd mp)"
    by (simp_all add: assms(1) buildUpdateMask_def Let_def put_fields empty_memo_def)
  with assms(2) show ?thesis
    by (simp add: assms(1) mask_keys new_memo_def Let_def)
qed

lemma timestamps_are_gated_witness:
  "js ''hide_time'' \<notin> set (fst (buildUpdateMask sample_wkt sample_memo (createInitialState True) [] False None))"
  using timestamps_are_gated [OF refl, of "sample_options\<lparr>so_canCustomizeTimestamps := False\<rparr>"
      sample_wkt sample_memo "createInitialState True" "[]" None]
  by (simp add: sample_options_def)

section \<open>Relations by direction\<close>

lemma relation_buckets_filter:
  "relation_buckets current (xs, ys) rs =
   (xs @ filter (\<lambda>r. isReferenceRelation r \<and> rel_memo_name (rel_memo r) = current \<and>
      rel_memo_name (rel_relatedMemo r) \<noteq> current) rs,
    ys @ filter (\<lambda>r. isReferenceRelation r \<and> rel_memo_name (rel_memo r) \<noteq> current \<and>
      rel_memo_name (rel_relatedMemo r) = current) rs)"
  by (induction rs arbitrary: xs ys) auto

text \<open>
  The two buckets are the references from and to the current memo; a memo's reference to itself and a
  reference between two other memos are in neither.
\<close>

lemma getRelationBuckets_filter:
  "getRelationBuckets relations current =
   (filter (\<lambda>r. isReferenceRelation r \<and> rel_memo_name (rel_memo r) = current \<and>
      rel_memo_name (rel_relatedMemo r) \<noteq> current) relations,
    filter (\<lambda>r. isReferenceRelation r \<and> rel_memo_name (rel_memo r) \<noteq> current \<and>
      rel_memo_name (rel_relatedMemo r) = current) relations)"
  by (simp add: getRelationBuckets_def relation_buckets_filter)

end
