(* ===== verification/AuthRoutes.thy ===== *)
theory AuthRoutes
  imports Messages
begin

text \<open>
  Where the authentication flow may send a visitor (\<^verbatim>\<open>router/routes.ts\<close>, \<^verbatim>\<open>utils/redirect-safety.ts\<close>):
  the validated redirect target, the address of the sign-in page, the public routes and the gate of a
  private instance. The serialization of URL search parameters is the platform's: \<open>serialize\<close>.
\<close>

section \<open>Routes\<close>

datatype RouteKey =
    HOME | ABOUT | ATTACHMENTS | INBOX | ROUTE_ARCHIVED | VIEWS | SETTING | READ_LATER | EXPLORE
  | AUTH | AUTH_SIGNUP | AUTH_ADMIN | AUTH_CALLBACK | SHARED_MEMO

fun ROUTES :: "RouteKey \<Rightarrow> jsstring" where
  "ROUTES HOME = js ''/home''"
| "ROUTES ABOUT = js ''/about''"
| "ROUTES ATTACHMENTS = js ''/attachments''"
| "ROUTES INBOX = js ''/inbox''"
| "ROUTES ROUTE_ARCHIVED = js ''/archived''"
| "ROUTES VIEWS = js ''/views''"
| "ROUTES SETTING = js ''/setting''"
| "ROUTES READ_LATER = js ''/read-later''"
| "ROUTES EXPLORE = js ''/explore''"
| "ROUTES AUTH = js ''/auth''"
| "ROUTES AUTH_SIGNUP = js ''/auth/signup''"
| "ROUTES AUTH_ADMIN = js ''/auth/admin''"
| "ROUTES AUTH_CALLBACK = js ''/auth/callback''"
| "ROUTES SHARED_MEMO = js ''/memos/shares''"

section \<open>Redirect targets\<close>

definition AUTH_REDIRECT_PARAM :: jsstring where
  "AUTH_REDIRECT_PARAM = js ''redirect''"

definition AUTH_REASON_PARAM :: jsstring where
  "AUTH_REASON_PARAM = js ''reason''"

text \<open>\<^verbatim>\<open>null\<close> and \<^verbatim>\<open>undefined\<close> are both \<open>None\<close>.\<close>

definition getSafeRedirectPath :: "jsstring option \<Rightarrow> jsstring option" where
  "getSafeRedirectPath path =
     (case or_undefined path of
        None \<Rightarrow> None
      | Some p \<Rightarrow>
          if \<not> starts_with p (js ''/'') \<or> starts_with p (js ''//'') then None
          else if p = ROUTES AUTH \<or> starts_with p (ROUTES AUTH @ js ''/'') \<or> starts_with p (ROUTES AUTH @ js ''?'')
            then None
          else Some p)"

definition appendSearchParams :: "((jsstring \<times> jsstring) list \<Rightarrow> jsstring) \<Rightarrow> jsstring \<Rightarrow>
    (jsstring \<times> jsstring) list \<Rightarrow> jsstring" where
  "appendSearchParams serialize path params =
     (let query = serialize params in if query \<noteq> [] then path @ js ''?'' @ query else path)"

definition auth_params :: "jsstring option \<Rightarrow> jsstring option \<Rightarrow> (jsstring \<times> jsstring) list" where
  "auth_params redirect reason =
     (case or_undefined (getSafeRedirectPath redirect) of
        Some p \<Rightarrow> [(AUTH_REDIRECT_PARAM, p)] | None \<Rightarrow> []) @
     (case or_undefined reason of Some r \<Rightarrow> [(AUTH_REASON_PARAM, r)] | None \<Rightarrow> [])"

definition buildAuthRoute ::
    "((jsstring \<times> jsstring) list \<Rightarrow> jsstring) \<Rightarrow> jsstring option \<Rightarrow> jsstring option \<Rightarrow> jsstring" where
  "buildAuthRoute serialize redirect reason =
     (let search = serialize (auth_params redirect reason)
      in if search \<noteq> [] then ROUTES AUTH @ js ''?'' @ search else ROUTES AUTH)"

definition PUBLIC_ROUTE_PREFIXES :: "jsstring list" where
  "PUBLIC_ROUTE_PREFIXES =
     [ROUTES AUTH, ROUTES ABOUT, ROUTES EXPLORE, ROUTES SHARED_MEMO @ js ''/'', js ''/u/'', js ''/memos/'',
      js ''/space/'']"

definition isPublicRoute :: "jsstring \<Rightarrow> bool" where
  "isPublicRoute path \<longleftrightarrow> (\<exists>route \<in> set PUBLIC_ROUTE_PREFIXES. starts_with path route)"

definition shouldGatePrivateInstance :: "bool \<Rightarrow> bool \<Rightarrow> jsstring \<Rightarrow> bool" where
  "shouldGatePrivateInstance isPrivateInstance isAuthenticated pathname =
     (if \<not> isPrivateInstance \<or> isAuthenticated then False
      else \<not> starts_with pathname (ROUTES SHARED_MEMO @ js ''/''))"

section \<open>Properties\<close>

lemma safe_redirect_Some:
  "getSafeRedirectPath path = Some p \<Longrightarrow>
   path = Some p \<and> p \<noteq> [] \<and> starts_with p (js ''/'') \<and> \<not> starts_with p (js ''//'') \<and>
   p \<noteq> ROUTES AUTH \<and> \<not> starts_with p (ROUTES AUTH @ js ''/'') \<and> \<not> starts_with p (ROUTES AUTH @ js ''?'')"
  by (auto simp: getSafeRedirectPath_def split: option.splits if_splits)

text \<open>
  The sign-in address carries a redirect target only when it is the requested path itself, is
  root-relative and not protocol-relative, and is none of the application's own authentication routes.
\<close>

lemma auth_route_redirect_is_internal:
  assumes "(AUTH_REDIRECT_PARAM, p) \<in> set (auth_params redirect reason)"
  shows "redirect = Some p \<and> starts_with p (js ''/'') \<and> \<not> starts_with p (js ''//'') \<and>
    (\<forall>k \<in> {AUTH, AUTH_SIGNUP, AUTH_ADMIN, AUTH_CALLBACK}. p \<noteq> ROUTES k)"
proof -
  have "AUTH_REDIRECT_PARAM \<noteq> AUTH_REASON_PARAM"
    by (simp add: AUTH_REDIRECT_PARAM_def AUTH_REASON_PARAM_def)
  with assms have "or_undefined (getSafeRedirectPath redirect) = Some p"
    by (auto simp: auth_params_def simp del: or_undefined_eq_Some split: option.splits)
  then have "getSafeRedirectPath redirect = Some p" by simp
  note p = safe_redirect_Some [OF this]
  have "\<forall>k \<in> {AUTH_SIGNUP, AUTH_ADMIN, AUTH_CALLBACK}. starts_with (ROUTES k) (ROUTES AUTH @ js ''/'')"
    by (simp add: js_str)
  with p show ?thesis by (auto simp del: ROUTES.simps)
qed

lemma auth_route_redirect_is_internal_witness:
  "(AUTH_REDIRECT_PARAM, js ''/home'') \<in> set (auth_params (Some (js ''/home'')) None) \<and>
   js ''/home'' \<noteq> ROUTES AUTH_CALLBACK"
proof -
  have m: "(AUTH_REDIRECT_PARAM, js ''/home'') \<in> set (auth_params (Some (js ''/home'')) None)"
    by (simp add: auth_params_def getSafeRedirectPath_def js_str)
  with auth_route_redirect_is_internal [OF m] show ?thesis by auto
qed

text \<open>
  Two targets pass the check against its documentation: an address whose second character is a
  backslash, which URL parsing reads as protocol-relative, and the sign-in page with a fragment, which
  is in the authentication family.
\<close>

lemma unsafe_redirects_pass:
  "getSafeRedirectPath (Some (js ''/'' @ [0x5c] @ js ''evil.example'')) = Some (js ''/'' @ [0x5c] @ js ''evil.example'') \<and>
   getSafeRedirectPath (Some (js ''/auth#x'')) = Some (js ''/auth#x'')"
  by (simp add: getSafeRedirectPath_def js_str)

text \<open>
  On a private instance an anonymous visitor is turned away from every page but the share-link
  viewers; nobody else is ever turned away, and the share-link viewers are public routes.
\<close>

lemma private_instance_gate:
  "(shouldGatePrivateInstance isPrivate isAuthenticated path \<longleftrightarrow>
      isPrivate \<and> \<not> isAuthenticated \<and> \<not> prefix (js ''/memos/shares/'') path) \<and>
   (prefix (js ''/memos/shares/'') path \<longrightarrow> isPublicRoute path)"
proof -
  have e: "ROUTES SHARED_MEMO @ js ''/'' = js ''/memos/shares/''" by (simp add: js_str)
  show ?thesis
    by (auto simp: shouldGatePrivateInstance_def isPublicRoute_def PUBLIC_ROUTE_PREFIXES_def starts_with_prefix e
        simp del: ROUTES.simps)
qed

lemma private_instance_gate_witness:
  "isPublicRoute (js ''/memos/shares/t'') \<and> \<not> shouldGatePrivateInstance True False (js ''/memos/shares/t'')"
proof -
  have "prefix (js ''/memos/shares/'') (js ''/memos/shares/t'')"
    by (simp add: js_str prefix_def)
  with private_instance_gate [of True False "js ''/memos/shares/t''"] show ?thesis by simp
qed

end
