(* ===== verification/Session.thy ===== *)
theory Session
  imports AuthRoutes
begin

text \<open>
  The signed-in session (\<^verbatim>\<open>auth-state.ts\<close>, \<^verbatim>\<open>connect.ts\<close>, \<^verbatim>\<open>utils/auth-redirect.ts\<close>,
  \<^verbatim>\<open>hooks/useTokenRefreshOnFocus.ts\<close>): the access token in memory, in the local storage and on the
  broadcast channel, the single-flight refresh, and the request interceptor with its one retry. Dates
  are milliseconds; the storage holds the date its ISO text denotes. A storage that throws is one with
  \<open>ls_available = False\<close>.
\<close>

section \<open>The token store\<close>

record local_storage =
  ls_available :: bool
  ls_token :: "jsstring option"
  ls_expires :: "date option"

record tab =
  accessToken :: "jsstring option"
  tokenExpiresAt :: "date option"

definition REQUEST_TOKEN_EXPIRY_BUFFER_MS :: int where
  "REQUEST_TOKEN_EXPIRY_BUFFER_MS = 30 * 1000"

definition FOCUS_TOKEN_EXPIRY_BUFFER_MS :: int where
  "FOCUS_TOKEN_EXPIRY_BUFFER_MS = 2 * 60 * 1000"

type_synonym store = "tab \<times> local_storage"

definition getAccessToken :: "date \<Rightarrow> store \<Rightarrow> jsstring option \<times> store" where
  "getAccessToken now s =
     (let (t, ls) = s;
          t' = (if or_undefined (accessToken t) = None \<and> ls_available ls then
                  (case (or_undefined (ls_token ls), ls_expires ls) of
                     (Some storedToken, Some expiresAt) \<Rightarrow>
                       if expiresAt > now
                       then t\<lparr>accessToken := Some storedToken, tokenExpiresAt := Some expiresAt\<rparr> else t
                   | _ \<Rightarrow> t)
                else t)
      in (accessToken t', (t', ls)))"

text \<open>The second component is the broadcast message, if one is posted.\<close>

definition setAccessToken ::
    "jsstring option \<Rightarrow> date option \<Rightarrow> store \<Rightarrow> store \<times> (jsstring \<times> date) option" where
  "setAccessToken token expiresAt s =
     (let (t, ls) = s;
          t' = t\<lparr>accessToken := token, tokenExpiresAt := expiresAt\<rparr>
      in if \<not> ls_available ls then ((t', ls), None)
         else case (or_undefined token, expiresAt) of
           (Some tok, Some e) \<Rightarrow> ((t', ls\<lparr>ls_token := Some tok, ls_expires := Some e\<rparr>), Some (tok, e))
         | _ \<Rightarrow> ((t', ls\<lparr>ls_token := None, ls_expires := None\<rparr>), None))"

definition isTokenExpired :: "date \<Rightarrow> int \<Rightarrow> tab \<Rightarrow> bool" where
  "isTokenExpired now bufferMs t =
     (case tokenExpiresAt t of None \<Rightarrow> True | Some e \<Rightarrow> now \<ge> e - bufferMs)"

definition hasStoredToken :: "store \<Rightarrow> bool" where
  "hasStoredToken s =
     (let (t, ls) = s in
      or_undefined (accessToken t) \<noteq> None \<or> (ls_available ls \<and> or_undefined (ls_token ls) \<noteq> None))"

definition clearAccessToken :: "store \<Rightarrow> store" where
  "clearAccessToken s =
     (let (t, ls) = s in
      (t\<lparr>accessToken := None, tokenExpiresAt := None\<rparr>,
       if ls_available ls then ls\<lparr>ls_token := None, ls_expires := None\<rparr> else ls))"

text \<open>\<^verbatim>\<open>tokenChannel.onmessage\<close>.\<close>

definition onTokenMessage :: "jsstring \<times> date \<Rightarrow> tab \<Rightarrow> tab" where
  "onTokenMessage msg t =
     (if fst msg \<noteq> [] then t\<lparr>accessToken := Some (fst msg), tokenExpiresAt := Some (snd msg)\<rparr> else t)"

text \<open>What the rest of the client relies on.\<close>

locale token_store =
  fixes get :: "date \<Rightarrow> 's \<Rightarrow> jsstring option \<times> 's"
    and put :: "jsstring option \<Rightarrow> date option \<Rightarrow> 's \<Rightarrow> 's"
    and clear :: "'s \<Rightarrow> 's"
    and has :: "'s \<Rightarrow> bool"
  assumes get_put: "tok \<noteq> [] \<Longrightarrow> get now (put (Some tok) e s) = (Some tok, put (Some tok) e s)"
    and get_clear: "fst (get now (clear s)) = None"
    and has_clear: "\<not> has (clear s)"
    and get_has: "fst (get now s) = Some tok \<Longrightarrow> tok \<noteq> [] \<Longrightarrow> has s"
    and get_get: "get now (snd (get now s)) = get now s"
begin

lemma has_put: "tok \<noteq> [] \<Longrightarrow> has (put (Some tok) e s)"
  using get_put get_has by (metis fst_conv)

lemma put_get: "tok \<noteq> [] \<Longrightarrow> snd (get now (put (Some tok) e s)) = put (Some tok) e s"
  by (simp add: get_put)

lemma get_stable: "get now s = (t, s') \<Longrightarrow> get now s' = (t, s')"
  using get_get [of now s] by simp

end

interpretation memos_token: token_store getAccessToken "\<lambda>tok e s. fst (setAccessToken tok e s)" clearAccessToken hasStoredToken
proof
  fix tok :: jsstring and now e and s :: store
  assume "tok \<noteq> []"
  then show "getAccessToken now (fst (setAccessToken (Some tok) e s)) = (Some tok, fst (setAccessToken (Some tok) e s))"
    by (auto simp: getAccessToken_def setAccessToken_def Let_def split: prod.splits option.splits)
next
  fix now and s :: store
  show "fst (getAccessToken now (clearAccessToken s)) = None"
    by (auto simp: getAccessToken_def clearAccessToken_def Let_def split: prod.splits option.splits)
next
  fix s :: store
  show "\<not> hasStoredToken (clearAccessToken s)"
    by (auto simp: hasStoredToken_def clearAccessToken_def Let_def split: prod.splits)
next
  fix now and s :: store and tok :: jsstring
  assume "fst (getAccessToken now s) = Some tok" "tok \<noteq> []"
  then show "hasStoredToken s"
    by (auto simp: getAccessToken_def hasStoredToken_def Let_def or_undefined_eq_None
        split: prod.splits option.splits if_splits)
next
  fix now and s :: store
  show "getAccessToken now (snd (getAccessToken now s)) = getAccessToken now s"
    by (auto simp: getAccessToken_def Let_def split: prod.splits option.splits)
qed

section \<open>The single-flight refresh\<close>

text \<open>
  \<^verbatim>\<open>createTokenRefreshManager\<close> as a state machine: its two variables, the refresh functions under way,
  and the callers awaiting a promise. A call joins the current promise or starts a refresh; settling a
  refresh runs its \<^verbatim>\<open>finally\<close> and resumes the callers of that promise with its outcome.
\<close>

record refresh_manager =
  isRefreshing :: bool
  refreshPromise :: "nat option"
  rm_next :: nat
  rm_running :: "nat list"
  rm_waiting :: "(nat \<times> nat) list"
  rm_outcomes :: "(nat \<times> bool) list"

definition createTokenRefreshManager :: refresh_manager where
  "createTokenRefreshManager =
     \<lparr>isRefreshing = False, refreshPromise = None, rm_next = 0, rm_running = [], rm_waiting = [],
      rm_outcomes = []\<rparr>"

definition refresh_call :: "nat \<Rightarrow> refresh_manager \<Rightarrow> refresh_manager" where
  "refresh_call caller m =
     (case (isRefreshing m, refreshPromise m) of
        (True, Some p) \<Rightarrow> m\<lparr>rm_waiting := rm_waiting m @ [(caller, p)]\<rparr>
      | _ \<Rightarrow>
          (let p = rm_next m in m
           \<lparr>isRefreshing := True, refreshPromise := Some p, rm_next := Suc p,
            rm_running := rm_running m @ [p], rm_waiting := rm_waiting m @ [(caller, p)]\<rparr>))"

definition refresh_settle :: "nat \<Rightarrow> bool \<Rightarrow> refresh_manager \<Rightarrow> refresh_manager" where
  "refresh_settle p ok m = m
     \<lparr>isRefreshing := False, refreshPromise := None, rm_running := removeAll p (rm_running m),
      rm_outcomes := rm_outcomes m @ map (\<lambda>(c, _). (c, ok)) (filter (\<lambda>(_, q). q = p) (rm_waiting m)),
      rm_waiting := filter (\<lambda>(_, q). q \<noteq> p) (rm_waiting m)\<rparr>"

inductive refresh_step :: "refresh_manager \<Rightarrow> refresh_manager \<Rightarrow> bool" where
  call: "refresh_step m (refresh_call caller m)"
| settle: "p \<in> set (rm_running m) \<Longrightarrow> refresh_step m (refresh_settle p ok m)"

inductive_cases refresh_stepE: "refresh_step m m'"

inductive refresh_reachable :: "refresh_manager \<Rightarrow> bool" where
  start: "refresh_reachable createTokenRefreshManager"
| step: "refresh_reachable m \<Longrightarrow> refresh_step m m' \<Longrightarrow> refresh_reachable m'"

definition single_flight :: "refresh_manager \<Rightarrow> bool" where
  "single_flight m \<longleftrightarrow>
     (isRefreshing m \<longleftrightarrow> refreshPromise m \<noteq> None) \<and>
     rm_running m = (case refreshPromise m of None \<Rightarrow> [] | Some p \<Rightarrow> [p]) \<and>
     (\<forall>(c, p) \<in> set (rm_waiting m). refreshPromise m = Some p)"

lemma single_flight_step: "single_flight m \<Longrightarrow> refresh_step m m' \<Longrightarrow> single_flight m'"
  by (erule refresh_stepE)
     (auto simp: single_flight_def refresh_call_def refresh_settle_def Let_def split: option.splits bool.splits)

lemma single_flight_reachable: "refresh_reachable m \<Longrightarrow> single_flight m"
proof (induction rule: refresh_reachable.induct)
  case start
  show ?case by (simp add: single_flight_def createTokenRefreshManager_def)
next
  case (step m m')
  then show ?case by (blast intro: single_flight_step)
qed

text \<open>
  C12. However calls and completions interleave, at most one refresh request is under way, and every
  caller that waits waits on exactly that one, so its completion resumes all of them.
\<close>

theorem refresh_is_single_flight:
  assumes "refresh_reachable m"
  shows "length (rm_running m) \<le> 1 \<and> (\<forall>(c, p) \<in> set (rm_waiting m). rm_running m = [p]) \<and>
    (\<forall>p ok. rm_running m = [p] \<longrightarrow> rm_waiting (refresh_settle p ok m) = [] \<and>
      rm_outcomes (refresh_settle p ok m) = rm_outcomes m @ map (\<lambda>(c, _). (c, ok)) (rm_waiting m))"
proof -
  have inv: "single_flight m" using assms by (rule single_flight_reachable)
  have wait: "\<forall>x \<in> set (rm_waiting m). case x of (_, q) \<Rightarrow> q = p" if "rm_running m = [p]" for p
    using inv that by (auto simp: single_flight_def split: option.splits)
  have settle: "rm_waiting (refresh_settle p ok m) = [] \<and>
      rm_outcomes (refresh_settle p ok m) = rm_outcomes m @ map (\<lambda>(c, _). (c, ok)) (rm_waiting m)"
    if "rm_running m = [p]" for p ok
  proof -
    have "filter (\<lambda>(_, q). q = p) (rm_waiting m) = rm_waiting m"
      using wait [OF that] by (intro filter_True) auto
    moreover have "filter (\<lambda>(_, q). q \<noteq> p) (rm_waiting m) = []"
      using wait [OF that] by (intro filter_False) auto
    ultimately show ?thesis by (simp add: refresh_settle_def)
  qed
  have "length (rm_running m) \<le> 1" "\<forall>(c, p) \<in> set (rm_waiting m). rm_running m = [p]"
    using inv by (auto simp: single_flight_def split: option.splits)
  with settle show ?thesis by blast
qed

theorem refresh_is_single_flight_witness:
  "length (rm_running (refresh_call 1 (refresh_call 0 createTokenRefreshManager))) \<le> 1"
proof -
  have "refresh_reachable (refresh_call 1 (refresh_call 0 createTokenRefreshManager))"
    by (rule refresh_reachable.step [OF refresh_reachable.step [OF refresh_reachable.start refresh_step.call] refresh_step.call])
  from refresh_is_single_flight [OF this] show ?thesis by blast
qed

section \<open>The request interceptor\<close>

datatype connect_error = Unauthenticated | Internal_missing_token | Internal_no_token | Other_connect nat | Not_connect

record request_header =
  rh_authorization :: "jsstring option"
  rh_retry :: bool

datatype client_event =
    Ev_refresh
  | Ev_broadcast jsstring date
  | Ev_send request_header
  | Ev_redirect jsstring

record 'w client =
  cl_store :: store
  cl_world :: 'w
  cl_events :: "client_event list"

record page =
  pg_pathname :: jsstring
  pg_search :: jsstring
  pg_hash :: jsstring

text \<open>The clock, the refresh endpoint, the transport, and the serialization of URL parameters.\<close>

record ('w, 'r) network =
  clock :: "'w \<Rightarrow> date"
  refresh_rpc :: "'w \<Rightarrow> (connect_error + jsstring \<times> date option) \<times> 'w"
  transmit :: "request_header \<Rightarrow> 'w \<Rightarrow> (connect_error + 'r) \<times> 'w"
  url_params :: "(jsstring \<times> jsstring) list \<Rightarrow> jsstring"

definition log_event :: "client_event \<Rightarrow> 'w client \<Rightarrow> 'w client" where
  "log_event ev c = c\<lparr>cl_events := cl_events c @ [ev]\<rparr>"

definition read_token :: "('w, 'r) network \<Rightarrow> 'w client \<Rightarrow> jsstring option \<times> 'w client" where
  "read_token net c =
     (let (tok, st) = getAccessToken (clock net (cl_world c)) (cl_store c) in (tok, c\<lparr>cl_store := st\<rparr>))"

definition doRefreshAccessToken :: "('w, 'r) network \<Rightarrow> 'w client \<Rightarrow> (connect_error + unit) \<times> 'w client" where
  "doRefreshAccessToken net c =
     (let (res, w) = refresh_rpc net (cl_world c);
          c1 = log_event Ev_refresh (c\<lparr>cl_world := w\<rparr>)
      in case res of
           Inl e \<Rightarrow> (Inl e, c1)
         | Inr (tok, expiresAt) \<Rightarrow>
             if tok = [] then (Inl Internal_missing_token, c1)
             else
               let (st, msg) = setAccessToken (Some tok) expiresAt (cl_store c1);
                   c2 = c1\<lparr>cl_store := st\<rparr>
               in (Inr (), case msg of None \<Rightarrow> c2 | Some (t, e) \<Rightarrow> log_event (Ev_broadcast t e) c2))"

definition refreshAndGetAccessToken ::
    "('w, 'r) network \<Rightarrow> 'w client \<Rightarrow> (connect_error + jsstring) \<times> 'w client" where
  "refreshAndGetAccessToken net c =
     (case doRefreshAccessToken net c of
        (Inl e, c1) \<Rightarrow> (Inl e, c1)
      | (Inr _, c1) \<Rightarrow>
          (let (tok, c2) = read_token net c1 in
           case or_undefined tok of None \<Rightarrow> (Inl Internal_no_token, c2) | Some t \<Rightarrow> (Inr t, c2)))"

definition getRequestToken :: "('w, 'r) network \<Rightarrow> 'w client \<Rightarrow> jsstring option \<times> 'w client" where
  "getRequestToken net c =
     (let (tok, c1) = read_token net c in
      case or_undefined tok of
        None \<Rightarrow>
          if \<not> hasStoredToken (cl_store c1) then (None, c1)
          else (case refreshAndGetAccessToken net c1 of
                  (Inl _, c2) \<Rightarrow> (None, c2) | (Inr t, c2) \<Rightarrow> (Some t, c2))
      | Some t \<Rightarrow>
          if isTokenExpired (clock net (cl_world c1)) REQUEST_TOKEN_EXPIRY_BUFFER_MS (fst (cl_store c1))
          then (case refreshAndGetAccessToken net c1 of
                  (Inl _, c2) \<Rightarrow> (Some t, c2) | (Inr t', c2) \<Rightarrow> (Some t', c2))
          else (Some t, c1))"

definition setAuthorizationHeader :: "request_header \<Rightarrow> jsstring option \<Rightarrow> request_header" where
  "setAuthorizationHeader req tok =
     (case or_undefined tok of None \<Rightarrow> req | Some t \<Rightarrow> req\<lparr>rh_authorization := Some (js ''Bearer '' @ t)\<rparr>)"

definition shouldHandleUnauthenticatedRetry :: "connect_error \<Rightarrow> bool \<Rightarrow> bool" where
  "shouldHandleUnauthenticatedRetry e isRetryAttempt \<longleftrightarrow> e = Unauthenticated \<and> \<not> isRetryAttempt"

definition redirectOnAuthFailure ::
    "((jsstring \<times> jsstring) list \<Rightarrow> jsstring) \<Rightarrow> page \<Rightarrow> bool \<Rightarrow> jsstring option \<Rightarrow> jsstring option \<Rightarrow>
     'w client \<Rightarrow> 'w client" where
  "redirectOnAuthFailure serialize page forceRedirect redirect reason c =
     (if starts_with (pg_pathname page) (ROUTES AUTH) then c
      else if \<not> forceRedirect \<and> isPublicRoute (pg_pathname page) then c
      else
        let current = pg_pathname page @ pg_search page @ pg_hash page;
            target = (case redirect of None \<Rightarrow> Some current | Some r \<Rightarrow> Some r)
        in log_event (Ev_redirect (buildAuthRoute serialize target reason))
             (c\<lparr>cl_store := clearAccessToken (cl_store c)\<rparr>))"

definition send_request ::
    "('w, 'r) network \<Rightarrow> request_header \<Rightarrow> 'w client \<Rightarrow> (connect_error + 'r) \<times> 'w client" where
  "send_request net req c =
     (let (res, w) = transmit net req (cl_world c) in (res, log_event (Ev_send req) (c\<lparr>cl_world := w\<rparr>)))"

definition authInterceptor ::
    "('w, 'r) network \<Rightarrow> page \<Rightarrow> request_header \<Rightarrow> 'w client \<Rightarrow> (connect_error + 'r) \<times> 'w client" where
  "authInterceptor net page req c =
     (let (tok, c1) = getRequestToken net c;
          req1 = setAuthorizationHeader req tok
      in case send_request net req1 c1 of
           (Inr r, c2) \<Rightarrow> (Inr r, c2)
         | (Inl e, c2) \<Rightarrow>
             if \<not> shouldHandleUnauthenticatedRetry e (rh_retry req) then (Inl e, c2)
             else
               let fail = (\<lambda>refreshError c'. (Inl refreshError,
                     redirectOnAuthFailure (url_params net) page False None None c'))
               in case refreshAndGetAccessToken net c2 of
                    (Inl refreshError, c3) \<Rightarrow> fail refreshError c3
                  | (Inr newToken, c3) \<Rightarrow>
                      (case send_request net ((setAuthorizationHeader req1 (Some newToken))\<lparr>rh_retry := True\<rparr>) c3 of
                         (Inr r, c4) \<Rightarrow> (Inr r, c4)
                       | (Inl refreshError, c4) \<Rightarrow> fail refreshError c4))"

section \<open>The refresh on focus\<close>

definition handleVisibilityChange :: "('w, 'r) network \<Rightarrow> bool \<Rightarrow> 'w client \<Rightarrow> 'w client" where
  "handleVisibilityChange net visible c =
     (if \<not> visible then c
      else if \<not> hasStoredToken (cl_store c) then c
      else if isTokenExpired (clock net (cl_world c)) FOCUS_TOKEN_EXPIRY_BUFFER_MS (fst (cl_store c))
        then snd (doRefreshAccessToken net c)
      else c)"


section \<open>What a request does\<close>

fun is_send :: "client_event \<Rightarrow> bool" where
  "is_send (Ev_send h) = True" | "is_send ev = False"

fun is_redirect :: "client_event \<Rightarrow> bool" where
  "is_redirect (Ev_redirect u) = True" | "is_redirect ev = False"

definition sends :: "client_event list \<Rightarrow> nat" where
  "sends es = length (filter is_send es)"

definition refreshes :: "client_event list \<Rightarrow> nat" where
  "refreshes es = length (filter (\<lambda>e. e = Ev_refresh) es)"

definition redirects :: "client_event list \<Rightarrow> nat" where
  "redirects es = length (filter is_redirect es)"

lemma event_counts [simp]:
  "sends [] = 0" "refreshes [] = 0" "redirects [] = 0"
  "sends (es @ fs) = sends es + sends fs" "refreshes (es @ fs) = refreshes es + refreshes fs"
  "redirects (es @ fs) = redirects es + redirects fs"
  "sends (Ev_send h # es) = Suc (sends es)" "sends (Ev_refresh # es) = sends es"
  "sends (Ev_broadcast t d # es) = sends es" "sends (Ev_redirect u # es) = sends es"
  "refreshes (Ev_send h # es) = refreshes es" "refreshes (Ev_refresh # es) = Suc (refreshes es)"
  "refreshes (Ev_broadcast t d # es) = refreshes es" "refreshes (Ev_redirect u # es) = refreshes es"
  "redirects (Ev_send h # es) = redirects es" "redirects (Ev_refresh # es) = redirects es"
  "redirects (Ev_broadcast t d # es) = redirects es" "redirects (Ev_redirect u # es) = Suc (redirects es)"
  by (simp_all add: sends_def refreshes_def redirects_def)

text \<open>\<open>emits c c' ns nr nd\<close>: the step from \<open>c\<close> to \<open>c'\<close> only appends events, with these numbers of sends, refreshes and redirects.\<close>

definition emits :: "'w client \<Rightarrow> 'w client \<Rightarrow> nat \<Rightarrow> nat \<Rightarrow> nat \<Rightarrow> bool" where
  "emits c c' ns nr nd \<longleftrightarrow> (\<exists>es. cl_events c' = cl_events c @ es \<and> sends es = ns \<and> refreshes es = nr \<and> redirects es = nd)"

lemma emits_trans:
  "emits c c' a b d \<Longrightarrow> emits c' c'' a' b' d' \<Longrightarrow> emits c c'' (a + a') (b + b') (d + d')"
proof -
  assume "emits c c' a b d" "emits c' c'' a' b' d'"
  then obtain es fs where "cl_events c' = cl_events c @ es" "cl_events c'' = cl_events c' @ fs"
    "sends es = a" "refreshes es = b" "redirects es = d" "sends fs = a'" "refreshes fs = b'" "redirects fs = d'"
    by (auto simp: emits_def)
  then show ?thesis unfolding emits_def by (intro exI [of _ "es @ fs"]) simp
qed

lemma emits_refl: "cl_events c' = cl_events c \<Longrightarrow> emits c c' 0 0 0"
  unfolding emits_def by (rule exI [of _ "[]"]) simp

lemma emits_read: "read_token net c = (t, c') \<Longrightarrow> emits c c' 0 0 0"
  by (rule emits_refl) (auto simp: read_token_def split: prod.splits)

lemma emits_doRefresh: "doRefreshAccessToken net c = (r, c') \<Longrightarrow> emits c c' 0 1 0"
proof -
  assume a: "doRefreshAccessToken net c = (r, c')"
  then have "cl_events c' = cl_events c @ [Ev_refresh] \<or> (\<exists>t d. cl_events c' = cl_events c @ [Ev_refresh, Ev_broadcast t d])"
    by (auto simp: doRefreshAccessToken_def log_event_def Let_def split: prod.splits sum.splits if_splits option.splits)
  then show ?thesis
  proof
    assume "cl_events c' = cl_events c @ [Ev_refresh]"
    then show ?thesis unfolding emits_def by (intro exI [of _ "[Ev_refresh]"]) simp
  next
    assume "\<exists>t d. cl_events c' = cl_events c @ [Ev_refresh, Ev_broadcast t d]"
    then obtain t d where "cl_events c' = cl_events c @ [Ev_refresh, Ev_broadcast t d]" by blast
    then show ?thesis unfolding emits_def by (intro exI [of _ "[Ev_refresh, Ev_broadcast t d]"]) simp
  qed
qed

lemma emits_refreshAndGet:
  assumes "refreshAndGetAccessToken net c = (r, c')"
  shows "emits c c' 0 1 0"
proof -
  obtain r1 c1 where r1: "doRefreshAccessToken net c = (r1, c1)" by fastforce
  obtain t c2 where t: "read_token net c1 = (t, c2)" by fastforce
  have "emits c c2 0 1 0" using emits_trans [OF emits_doRefresh [OF r1] emits_read [OF t]] by simp
  with assms r1 t emits_doRefresh [OF r1] show ?thesis
    by (auto simp: refreshAndGetAccessToken_def split: sum.splits option.splits)
qed

lemma emits_getRequestToken:
  assumes "getRequestToken net c = (t, c')"
  shows "\<exists>n \<le> 1. emits c c' 0 n 0"
proof -
  obtain t1 c1 where r: "read_token net c = (t1, c1)" by fastforce
  obtain r2 c2 where g: "refreshAndGetAccessToken net c1 = (r2, c2)" by fastforce
  have "c' = c1 \<or> c' = c2"
    using assms r g by (auto simp: getRequestToken_def split: option.splits sum.splits if_splits)
  then show ?thesis
  proof
    assume "c' = c1"
    with emits_read [OF r] show ?thesis by (intro exI [of _ 0]) simp
  next
    assume "c' = c2"
    with emits_trans [OF emits_read [OF r] emits_refreshAndGet [OF g]] show ?thesis by (intro exI [of _ 1]) simp
  qed
qed

lemma emits_send: "send_request net req c = (r, c') \<Longrightarrow> emits c c' 1 0 0"
  unfolding emits_def
  by (rule exI [of _ "[Ev_send req]"]) (auto simp: send_request_def log_event_def split: prod.splits)

lemma emits_redirect: "\<exists>n \<le> 1. emits c (redirectOnAuthFailure ser page f red reason c) 0 0 n"
proof -
  let ?c = "redirectOnAuthFailure ser page f red reason c"
  have "cl_events ?c = cl_events c \<or> (\<exists>u. cl_events ?c = cl_events c @ [Ev_redirect u])"
    by (auto simp: redirectOnAuthFailure_def log_event_def Let_def)
  then show ?thesis
  proof
    assume "cl_events ?c = cl_events c"
    then show ?thesis by (intro exI [of _ 0]) (simp add: emits_refl)
  next
    assume "\<exists>u. cl_events ?c = cl_events c @ [Ev_redirect u]"
    then obtain u where "cl_events ?c = cl_events c @ [Ev_redirect u]" by blast
    then show ?thesis unfolding emits_def by (intro exI [of _ "1::nat"] conjI exI [of _ "[Ev_redirect u]"]) simp_all
  qed
qed

text \<open>
  C13. One request sends at most twice, refreshes at most twice (ahead of the first send and ahead of
  the retry) and redirects at most once; a request that already is a retry is sent exactly once and
  never redirects.
\<close>

theorem interceptor_is_bounded:
  "\<exists>ns nr nd. emits c (snd (authInterceptor net page req c)) ns nr nd \<and> 1 \<le> ns \<and> ns \<le> 2 \<and> nr \<le> 2 \<and> nd \<le> 1 \<and>
    (rh_retry req \<longrightarrow> ns = 1 \<and> nr \<le> 1 \<and> nd = 0)"
proof -
  obtain tok c1 where t: "getRequestToken net c = (tok, c1)" by fastforce
  let ?req1 = "setAuthorizationHeader req tok"
  obtain r2 c2 where s: "send_request net ?req1 c1 = (r2, c2)" by fastforce
  obtain r3 c3 where g: "refreshAndGetAccessToken net c2 = (r3, c3)" by fastforce
  from emits_getRequestToken [OF t] obtain n where n: "n \<le> 1" "emits c c1 0 n 0" by blast
  from emits_trans [OF n(2) emits_send [OF s]] have e2: "emits c c2 1 n 0" by simp
  from emits_trans [OF e2 emits_refreshAndGet [OF g]] have e3: "emits c c3 1 (Suc n) 0" by simp
  let ?fail = "redirectOnAuthFailure (url_params net) page False None None"
  show ?thesis
  proof (cases "\<exists>e. r2 = Inl e \<and> shouldHandleUnauthenticatedRetry e (rh_retry req)")
    case False
    then have "snd (authInterceptor net page req c) = c2"
      using t s by (cases r2) (auto simp: authInterceptor_def)
    with e2 n show ?thesis by (intro exI [of _ 1] exI [of _ n] exI [of _ 0]) simp
  next
    case True
    then obtain e where e: "r2 = Inl e" "shouldHandleUnauthenticatedRetry e (rh_retry req)" by blast
    then have first: "\<not> rh_retry req" by (simp add: shouldHandleUnauthenticatedRetry_def)
    show ?thesis
    proof (cases r3)
      case (Inl e3)
      from emits_redirect [of c3 "url_params net" page False None None] obtain d where
        d: "d \<le> 1" "emits c3 (?fail c3) 0 0 d" by blast
      have "snd (authInterceptor net page req c) = ?fail c3"
        using t s g e Inl by (simp add: authInterceptor_def)
      with emits_trans [OF e3 d(2)] n d first show ?thesis
        by (intro exI [of _ 1] exI [of _ "Suc n"] exI [of _ d]) simp
    next
      case (Inr new)
      let ?req2 = "(setAuthorizationHeader ?req1 (Some new))\<lparr>rh_retry := True\<rparr>"
      obtain r4 c4 where s2: "send_request net ?req2 c3 = (r4, c4)" by fastforce
      from emits_trans [OF e3 emits_send [OF s2]] have e4: "emits c c4 2 (Suc n) 0"
        by (simp add: numeral_2_eq_2)
      from emits_redirect [of c4 "url_params net" page False None None] obtain d where
        d: "d \<le> 1" "emits c4 (?fail c4) 0 0 d" by blast
      have "snd (authInterceptor net page req c) = c4 \<or> snd (authInterceptor net page req c) = ?fail c4"
        using t s g e Inr s2 by (cases r4) (simp_all add: authInterceptor_def)
      then show ?thesis
      proof
        assume "snd (authInterceptor net page req c) = c4"
        with e4 n first show ?thesis by (intro exI [of _ 2] exI [of _ "Suc n"] exI [of _ 0]) simp
      next
        assume "snd (authInterceptor net page req c) = ?fail c4"
        with emits_trans [OF e4 d(2)] n d first show ?thesis
          by (intro exI [of _ 2] exI [of _ "Suc n"] exI [of _ d]) simp
      qed
    qed
  qed
qed


definition sample_network :: "(connect_error + nat) \<Rightarrow> (nat, nat) network" where
  "sample_network second =
     \<lparr>clock = (\<lambda>_. 1000000),
      refresh_rpc = (\<lambda>w. (Inr (js ''fresh'', Some 2000000), w)),
      transmit = (\<lambda>h w. (if rh_retry h then second else Inl Unauthenticated, Suc w)),
      url_params = (\<lambda>_. [])\<rparr>"

definition sample_client :: "nat client" where
  "sample_client =
     \<lparr>cl_store = (\<lparr>accessToken = Some (js ''old''), tokenExpiresAt = Some 1500000\<rparr>,
        \<lparr>ls_available = True, ls_token = Some (js ''old''), ls_expires = Some 1500000\<rparr>),
      cl_world = 0, cl_events = []\<rparr>"

definition home_page :: page where
  "home_page = \<lparr>pg_pathname = js ''/home'', pg_search = [], pg_hash = []\<rparr>"

theorem interceptor_is_bounded_witness:
  "\<exists>ns nr nd. emits sample_client
     (snd (authInterceptor (sample_network (Inr 1)) home_page \<lparr>rh_authorization = None, rh_retry = True\<rparr> sample_client))
     ns nr nd \<and> ns = 1 \<and> nd = 0"
  using interceptor_is_bounded [of sample_client "sample_network (Inr 1)" home_page
      "\<lparr>rh_authorization = None, rh_retry = True\<rparr>"] by auto

lemma refresh_stores_token:
  assumes "refresh_rpc net (cl_world c) = (Inr (tok, expiresAt), w)" and "tok \<noteq> []"
  obtains c' where "refreshAndGetAccessToken net c = (Inr tok, c')"
    "cl_store c' = fst (setAccessToken (Some tok) expiresAt (cl_store c))"
proof -
  let ?st = "fst (setAccessToken (Some tok) expiresAt (cl_store c))"
  obtain st msg where msg: "setAccessToken (Some tok) expiresAt (cl_store c) = (st, msg)" by fastforce
  then obtain c1 where c1: "doRefreshAccessToken net c = (Inr (), c1)" "cl_store c1 = ?st"
    using assms by (cases msg) (auto simp: doRefreshAccessToken_def log_event_def)
  have "read_token net c1 = (Some tok, c1)"
    using memos_token.get_put [OF assms(2), of "clock net (cl_world c1)" expiresAt "cl_store c"]
    by (simp add: read_token_def c1(2))
  with c1 assms(2) that show thesis
    by (simp add: refreshAndGetAccessToken_def)
qed

text \<open>
  A successful refresh always yields its token: the store reads back what the refresh wrote, so
  the internal error \<^verbatim>\<open>Token refresh succeeded but no token available\<close> cannot occur.
\<close>

lemma refresh_yields_its_token:
  assumes "refresh_rpc net (cl_world c) = (Inr (tok, expiresAt), w)" and "tok \<noteq> []"
  shows "\<exists>c'. refreshAndGetAccessToken net c = (Inr tok, c') \<and> hasStoredToken (cl_store c') \<and>
    cl_store c' = fst (setAccessToken (Some tok) expiresAt (cl_store c))"
  using refresh_stores_token [OF assms] memos_token.has_put [OF assms(2), of expiresAt "cl_store c"]
  by metis

lemma refresh_yields_its_token_witness:
  "\<exists>c'. refreshAndGetAccessToken (sample_network (Inr 1)) sample_client = (Inr (js ''fresh''), c') \<and>
    hasStoredToken (cl_store c') \<and>
    cl_store c' = fst (setAccessToken (Some (js ''fresh'')) (Some 2000000) (cl_store sample_client))"
  by (rule refresh_yields_its_token) (simp_all add: sample_network_def)

text \<open>
  Any error of the retried request, not only a failed authentication, signs the visitor out of a
  page that is not public: the handler around the refresh also catches the retry.
\<close>

lemma retry_error_signs_out:
  assumes "getRequestToken net c = (tok, c1)"
    and "send_request net (setAuthorizationHeader req tok) c1 = (Inl Unauthenticated, c2)" and "\<not> rh_retry req"
    and "refreshAndGetAccessToken net c2 = (Inr new, c3)"
    and "send_request net ((setAuthorizationHeader (setAuthorizationHeader req tok) (Some new))\<lparr>rh_retry := True\<rparr>) c3
      = (Inl e, c4)"
    and "\<not> isPublicRoute (pg_pathname page)"
  shows "fst (authInterceptor net page req c) = Inl e \<and>
    \<not> hasStoredToken (cl_store (snd (authInterceptor net page req c)))"
proof -
  let ?c5 = "redirectOnAuthFailure (url_params net) page False None None c4"
  have r: "authInterceptor net page req c = (Inl e, ?c5)"
    using assms(1-5) by (simp add: authInterceptor_def shouldHandleUnauthenticatedRetry_def)
  have "\<not> starts_with (pg_pathname page) (ROUTES AUTH)"
    using assms(6) by (auto simp: isPublicRoute_def PUBLIC_ROUTE_PREFIXES_def simp del: ROUTES.simps)
  then have "cl_store ?c5 = clearAccessToken (cl_store c4)"
    using assms(6) by (simp add: redirectOnAuthFailure_def log_event_def Let_def)
  with r show ?thesis by (simp add: memos_token.has_clear)
qed

lemma retry_error_signs_out_witness:
  "fst (authInterceptor (sample_network (Inl (Other_connect 5))) home_page
      \<lparr>rh_authorization = None, rh_retry = False\<rparr> sample_client) = Inl (Other_connect 5) \<and>
   \<not> hasStoredToken (cl_store (snd (authInterceptor (sample_network (Inl (Other_connect 5))) home_page
      \<lparr>rh_authorization = None, rh_retry = False\<rparr> sample_client)))"
proof -
  let ?net = "sample_network (Inl (Other_connect 5))" and ?req = "\<lparr>rh_authorization = None, rh_retry = False\<rparr>"
  have t: "getRequestToken ?net sample_client = (Some (js ''old''), sample_client)"
    by (simp add: getRequestToken_def read_token_def getAccessToken_def sample_client_def sample_network_def
        isTokenExpired_def REQUEST_TOKEN_EXPIRY_BUFFER_MS_def)
  obtain c2 where s: "send_request ?net (setAuthorizationHeader ?req (Some (js ''old''))) sample_client = (Inl Unauthenticated, c2)"
    by (simp add: send_request_def sample_network_def setAuthorizationHeader_def)
  obtain c3 where g: "refreshAndGetAccessToken ?net c2 = (Inr (js ''fresh''), c3)"
    by (rule refresh_stores_token [of ?net c2 "js ''fresh''" "Some 2000000" "cl_world c2"])
       (simp_all add: sample_network_def)
  obtain c4 where s2: "send_request ?net ((setAuthorizationHeader (setAuthorizationHeader ?req (Some (js ''old'')))
      (Some (js ''fresh'')))\<lparr>rh_retry := True\<rparr>) c3 = (Inl (Other_connect 5), c4)"
    by (simp add: send_request_def sample_network_def)
  have "\<not> isPublicRoute (pg_pathname home_page)"
    by (simp add: isPublicRoute_def PUBLIC_ROUTE_PREFIXES_def home_page_def js_str)
  from retry_error_signs_out [OF t s _ g s2 this] show ?thesis by simp
qed

text \<open>
  Returning to the tab refreshes only for a signed-in visitor whose token ends within two minutes;
  otherwise nothing happens.
\<close>

lemma focus_refresh_condition:
  "emits c (handleVisibilityChange net visible c) 0
     (if visible \<and> hasStoredToken (cl_store c) \<and>
         isTokenExpired (clock net (cl_world c)) FOCUS_TOKEN_EXPIRY_BUFFER_MS (fst (cl_store c))
      then 1 else 0) 0"
  using emits_doRefresh [of net c] emits_refl [of c c]
  by (auto simp: handleVisibilityChange_def intro: prod.collapse [symmetric])

end
