(* ===== verification/LiveRefresh.thy ===== *)
theory LiveRefresh
  imports Messages
begin

text \<open>
  Live updates (\<^verbatim>\<open>hooks/useLiveMemoRefresh.ts\<close>): the reader of the server's event stream, the
  reconnection delay, the messages between tabs, and the election of the one tab that holds the
  connection. The text of the stream arrives as decoded chunks; \<open>parse_event\<close> is \<^verbatim>\<open>JSON.parse\<close> of a
  payload with \<open>None\<close> for a syntax error.
\<close>

section \<open>The event stream\<close>

text \<open>\<^verbatim>\<open>buffer.split("\n\n")\<close>: from the left, without overlap.\<close>

fun split_messages :: "jsstring \<Rightarrow> jsstring list" where
  "split_messages [] = [[]]"
| "split_messages [c] = [[c]]"
| "split_messages (c # d # s) =
     (if c = 0x0a \<and> d = 0x0a then [] # split_messages s
      else (case split_messages (d # s) of [] \<Rightarrow> [[c]] | w # ws \<Rightarrow> (c # w) # ws))"

definition data_prefix :: jsstring where
  "data_prefix = js ''data: ''"

text \<open>The payloads of one message: its lines that start with \<^verbatim>\<open>data: \<close>, without the prefix.\<close>

definition message_payloads :: "jsstring \<Rightarrow> jsstring list" where
  "message_payloads m =
     (if trim m = [] then []
      else map (drop 6) (filter (\<lambda>line. starts_with line data_prefix) (split_on 0x0a m)))"

text \<open>One chunk: the new buffer and the payloads of the messages it completes.\<close>

definition consume_chunk :: "jsstring \<Rightarrow> jsstring \<Rightarrow> jsstring \<times> jsstring list" where
  "consume_chunk buffer chunk =
     (let messages = split_messages (buffer @ chunk)
      in (last messages, concat (map message_payloads (butlast messages))))"

fun consumeSSEStream :: "(jsstring \<Rightarrow> 'ev option) \<Rightarrow> jsstring \<Rightarrow> jsstring list \<Rightarrow> jsstring \<times> 'ev list" where
  "consumeSSEStream parse_event buffer [] = (buffer, [])"
| "consumeSSEStream parse_event buffer (chunk # chunks) =
     (let (buffer', payloads) = consume_chunk buffer chunk;
          (rest, events) = consumeSSEStream parse_event buffer' chunks
      in (rest, List.map_filter parse_event payloads @ events))"

lemma split_messages_neq_Nil [simp]: "split_messages s \<noteq> []"
  by (induction s rule: split_messages.induct) (auto split: list.splits)

lemma split_messages_single: "split_messages s = [w] \<Longrightarrow> w = s"
  by (induction s arbitrary: w rule: split_messages.induct) (auto split: list.splits if_splits)

lemma split_messages_append:
  "split_messages (s @ t) = butlast (split_messages s) @ split_messages (last (split_messages s) @ t)"
proof (induction s rule: split_messages.induct)
  case (3 c d s)
  show ?case
  proof (cases "c = 0x0a \<and> d = 0x0a")
    case True
    with 3 show ?thesis by simp
  next
    case False
    obtain w ws where w: "split_messages (d # s) = w # ws"
      by (cases "split_messages (d # s)") auto
    then have cw: "split_messages (c # d # s) = (c # w) # ws" using False by auto
    show ?thesis
    proof (cases ws)
      case Nil
      with w have "w = d # s" using split_messages_single by blast
      with cw Nil show ?thesis by simp
    next
      case (Cons v vs)
      have "split_messages ((d # s) @ t) = butlast (w # ws) @ split_messages (last (w # ws) @ t)"
        using 3(2) False w by simp
      with Cons False cw show ?thesis by auto
    qed
  qed
qed simp_all

lemma consume_chunk_append:
  "consume_chunk buffer (x @ y) =
   (let (b, p) = consume_chunk buffer x; (b', p') = consume_chunk b y in (b', p @ p'))"
  using split_messages_append [of "buffer @ x" y]
  by (simp add: consume_chunk_def Let_def butlast_append)

text \<open>
  C39. The events do not depend on how the network cuts the stream: reading it in any chunks gives the
  events and the remaining buffer of reading it at once.
\<close>

theorem stream_chunking_irrelevant:
  "consumeSSEStream parse_event buffer (chunk # chunks) =
   consumeSSEStream parse_event buffer [chunk @ concat chunks]"
proof (induction chunks arbitrary: buffer chunk)
  case (Cons c cs)
  obtain b p where bp: "consume_chunk buffer chunk = (b, p)" by fastforce
  obtain b' p' where bp': "consume_chunk b (c @ concat cs) = (b', p')" by fastforce
  have "consume_chunk buffer (chunk @ c @ concat cs) = (b', p @ p')"
    using consume_chunk_append [of buffer chunk "c @ concat cs"] bp bp' by simp
  with Cons [of b c] bp bp' show ?case
    by (simp add: List.map_filter_def)
qed simp

datatype SSEConnectionStatus = sse_connected | sse_disconnected | sse_connecting

section \<open>Reconnecting\<close>

definition INITIAL_RETRY_DELAY_MS :: nat where
  "INITIAL_RETRY_DELAY_MS = 1000"

definition MAX_RETRY_DELAY_MS :: nat where
  "MAX_RETRY_DELAY_MS = 30000"

definition RETRY_BACKOFF_MULTIPLIER :: nat where
  "RETRY_BACKOFF_MULTIPLIER = 2"

definition STABLE_CONNECTION_THRESHOLD_MS :: nat where
  "STABLE_CONNECTION_THRESHOLD_MS = 60000"

lemmas retry_defs = INITIAL_RETRY_DELAY_MS_def MAX_RETRY_DELAY_MS_def RETRY_BACKOFF_MULTIPLIER_def
  STABLE_CONNECTION_THRESHOLD_MS_def

text \<open>\<^verbatim>\<open>Math.floor(Math.random() * delay)\<close>, for a random number \<open>num / den\<close> below one.\<close>

definition withFullJitter :: "nat \<Rightarrow> nat \<Rightarrow> nat \<Rightarrow> nat" where
  "withFullJitter num den delay = num * delay div den"

text \<open>
  The end of one round of the loop: how long the connection lasted, if it was made; the delay to wait
  and the next value of \<^verbatim>\<open>retryDelayRef\<close>.
\<close>

definition retry_round :: "nat option \<Rightarrow> nat \<Rightarrow> nat \<times> nat" where
  "retry_round lasted retryDelay =
     (let d = (case lasted of Some t \<Rightarrow> if t \<ge> STABLE_CONNECTION_THRESHOLD_MS then INITIAL_RETRY_DELAY_MS else retryDelay
                | None \<Rightarrow> retryDelay)
      in (d, min (d * RETRY_BACKOFF_MULTIPLIER) MAX_RETRY_DELAY_MS))"

fun retry_delays :: "nat \<Rightarrow> nat option list \<Rightarrow> nat list" where
  "retry_delays retryDelay [] = []"
| "retry_delays retryDelay (lasted # rounds) =
     (let (d, next) = retry_round lasted retryDelay in d # retry_delays next rounds)"

definition unstable :: "nat option \<Rightarrow> bool" where
  "unstable lasted \<longleftrightarrow> (case lasted of None \<Rightarrow> True | Some t \<Rightarrow> t < STABLE_CONNECTION_THRESHOLD_MS)"

lemma retry_delays_unstable:
  "\<forall>l \<in> set rounds. unstable l \<Longrightarrow> i < length rounds \<Longrightarrow> d \<le> MAX_RETRY_DELAY_MS \<Longrightarrow>
   retry_delays d rounds ! i = min (d * 2 ^ i) MAX_RETRY_DELAY_MS"
proof (induction rounds arbitrary: d i)
  case (Cons l rounds)
  have r: "retry_round l d = (d, min (d * 2) MAX_RETRY_DELAY_MS)"
    using Cons.prems(1) by (auto simp: retry_round_def unstable_def RETRY_BACKOFF_MULTIPLIER_def split: option.splits)
  show ?case
  proof (cases i)
    case 0
    with r Cons.prems(3) show ?thesis by simp
  next
    case (Suc j)
    have "retry_delays (min (d * 2) MAX_RETRY_DELAY_MS) rounds ! j =
      min (min (d * 2) MAX_RETRY_DELAY_MS * 2 ^ j) MAX_RETRY_DELAY_MS"
      using Cons.prems Suc by (intro Cons.IH) auto
    also have "\<dots> = min (d * 2 ^ Suc j) MAX_RETRY_DELAY_MS"
    proof (cases "d * 2 \<le> MAX_RETRY_DELAY_MS")
      case True
      then show ?thesis by (simp add: mult.assoc)
    next
      case False
      have one: "(1::nat) \<le> 2 ^ j" by simp
      have "MAX_RETRY_DELAY_MS * 1 \<le> MAX_RETRY_DELAY_MS * 2 ^ j" "d * 2 * 1 \<le> d * 2 * 2 ^ j"
        using one by (intro mult_le_mono2; assumption)+
      then have "MAX_RETRY_DELAY_MS \<le> MAX_RETRY_DELAY_MS * 2 ^ j" "d * 2 \<le> d * 2 * 2 ^ j" by simp_all
      moreover from this(2) False have "MAX_RETRY_DELAY_MS \<le> d * (2 * 2 ^ j)"
        unfolding mult.assoc by linarith
      ultimately show ?thesis using False by simp
    qed
    finally show ?thesis using r Suc by simp
  qed
qed simp

text \<open>
  The delays of consecutive attempts double from one second up to thirty seconds while no
  connection lasts a minute, and no jittered wait ever reaches thirty seconds.
\<close>

lemma retry_backoff:
  assumes "\<forall>l \<in> set rounds. unstable l" and "i < length rounds" and "num < den"
  shows "retry_delays INITIAL_RETRY_DELAY_MS rounds ! i = min (1000 * 2 ^ i) 30000 \<and>
    withFullJitter num den (retry_delays INITIAL_RETRY_DELAY_MS rounds ! i) < 30000"
proof -
  have d: "retry_delays INITIAL_RETRY_DELAY_MS rounds ! i = min (1000 * 2 ^ i) 30000"
    using retry_delays_unstable [OF assms(1,2), of INITIAL_RETRY_DELAY_MS] by (simp add: retry_defs)
  have "num * x div den < 30000" if "x \<le> 30000" "0 < x" for x
  proof -
    have "num * x < den * x" using assms(3) that(2) by simp
    also have "\<dots> \<le> 30000 * den" using that(1) by (simp add: mult.commute)
    finally show ?thesis by (simp add: less_mult_imp_div_less)
  qed
  with d show ?thesis by (simp add: withFullJitter_def)
qed

lemma retry_backoff_witness:
  "retry_delays INITIAL_RETRY_DELAY_MS [None, Some 5, None] ! 2 = min (1000 * 2 ^ 2) 30000 \<and>
   withFullJitter 1 2 (retry_delays INITIAL_RETRY_DELAY_MS [None, Some 5, None] ! 2) < 30000"
  by (rule retry_backoff) (simp_all add: unstable_def retry_defs)

text \<open>A connection that lasted a minute starts the series again.\<close>

lemma retry_resets_after_stable:
  "STABLE_CONNECTION_THRESHOLD_MS \<le> t \<Longrightarrow> fst (retry_round (Some t) d) = INITIAL_RETRY_DELAY_MS"
  by (simp add: retry_round_def Let_def)


section \<open>One round of the connection loop\<close>

text \<open>
  What the round meets: the results of \<^verbatim>\<open>getRequestToken\<close>, of the requests and of the refresh, with
  \<open>None\<close> for a rejected promise; whether the signal is aborted when the response is there and after the
  stream; how long the stream lasted; whether the effect is mounted at the end.
\<close>

record sse_response =
  sr_status :: nat
  sr_ok :: bool
  sr_body :: bool

record sse_round =
  rd_token :: "jsstring option option"
  rd_response :: "sse_response option"
  rd_refresh :: "unit option"
  rd_token2 :: "jsstring option option"
  rd_response2 :: "sse_response option"
  rd_aborted :: bool
  rd_lasted :: nat
  rd_end_aborted :: bool
  rd_mounted :: bool

text \<open>How a round ends: the loop returns, or it waits with the given delay and goes on.\<close>

datatype round_end = Loop_returns | Loop_waits nat

text \<open>The response to read: a 401 is retried once with a new token. The number counts the requests.\<close>

definition sse_request :: "sse_round \<Rightarrow> nat \<times> sse_response option" where
  "sse_request rd =
     (case rd_response rd of
        None \<Rightarrow> (1, None)
      | Some response \<Rightarrow>
          if sr_status response = 401 then
            (case (rd_refresh rd, rd_token2 rd) of
               (Some _, Some (Some token)) \<Rightarrow> if token = [] then (1, None) else (2, rd_response2 rd)
             | _ \<Rightarrow> (1, None))
          else (1, Some response))"

record sse_outcome =
  so_requests :: nat
  so_statuses :: "SSEConnectionStatus list"
  so_resync :: bool
  so_connectedOnce :: bool
  so_end :: round_end
  so_retryDelay :: nat

definition end_round :: "sse_round \<Rightarrow> bool \<Rightarrow> nat option \<Rightarrow> nat \<Rightarrow> sse_outcome \<Rightarrow> sse_outcome" where
  "end_round rd aborted_now lasted retryDelay oc =
     (let (d, next) = retry_round lasted retryDelay in
      if \<not> rd_mounted rd \<or> aborted_now then oc\<lparr>so_end := Loop_returns, so_retryDelay := d\<rparr>
      else oc\<lparr>so_statuses := so_statuses oc @ [sse_disconnected], so_end := Loop_waits d, so_retryDelay := next\<rparr>)"

definition runConnectionLoop_round :: "sse_round \<Rightarrow> bool \<Rightarrow> nat \<Rightarrow> sse_outcome" where
  "runConnectionLoop_round rd hasConnectedOnce retryDelay =
     (let oc = \<lparr>so_requests = 0, so_statuses = [sse_connecting], so_resync = False,
                so_connectedOnce = hasConnectedOnce, so_end = Loop_returns, so_retryDelay = retryDelay\<rparr> in
      case rd_token rd of
        None \<Rightarrow> end_round rd (rd_end_aborted rd) None retryDelay oc
      | Some token \<Rightarrow>
          if or_undefined token = None then oc\<lparr>so_statuses := [sse_connecting, sse_disconnected]\<rparr>
          else
            let (n, res) = sse_request rd; oc1 = oc\<lparr>so_requests := n\<rparr> in
            case res of
              None \<Rightarrow> end_round rd (rd_end_aborted rd) None retryDelay oc1
            | Some response \<Rightarrow>
                if rd_aborted rd then oc1
                else if \<not> sr_ok response \<or> \<not> sr_body response then
                  end_round rd (rd_end_aborted rd) None retryDelay oc1
                else
                  end_round rd (rd_end_aborted rd) (Some (rd_lasted rd)) retryDelay
                    (oc1\<lparr>so_statuses := [sse_connecting, sse_connected], so_resync := hasConnectedOnce,
                         so_connectedOnce := True\<rparr>))"

lemma end_round_simps [simp]:
  "so_requests (end_round rd ab l d oc) = so_requests oc"
  "so_resync (end_round rd ab l d oc) = so_resync oc"
  "sse_connected \<in> set (so_statuses (end_round rd ab l d oc)) \<longleftrightarrow> sse_connected \<in> set (so_statuses oc)"
  by (auto simp: end_round_def split_beta Let_def)

lemma end_round_waits:
  "so_end (end_round rd ab l d oc) = Loop_waits w \<longleftrightarrow>
     rd_mounted rd \<and> \<not> ab \<and> w = fst (retry_round l d)"
  "so_end (end_round rd ab l d oc) = Loop_waits w \<Longrightarrow>
     last (so_statuses (end_round rd ab l d oc)) = sse_disconnected"
  by (auto simp: end_round_def split_beta Let_def split: if_splits)

lemma retry_round_le: "d \<le> MAX_RETRY_DELAY_MS \<Longrightarrow> fst (retry_round l d) \<le> MAX_RETRY_DELAY_MS"
  by (auto simp: retry_round_def retry_defs split: option.splits)

lemma sse_request_le: "fst (sse_request rd) \<le> 2"
  by (simp add: sse_request_def split: option.split)

text \<open>The cases of a round.\<close>

lemma round_cases:
  fixes rd once d
  defines "oc \<equiv> \<lparr>so_requests = 0, so_statuses = [sse_connecting], so_resync = False,
                so_connectedOnce = once, so_end = Loop_returns, so_retryDelay = d\<rparr>"
  obtains
    (no_token) "rd_token rd = None" "runConnectionLoop_round rd once d = end_round rd (rd_end_aborted rd) None d oc"
  | (signed_out) "runConnectionLoop_round rd once d = oc\<lparr>so_statuses := [sse_connecting, sse_disconnected]\<rparr>"
  | (aborted) n where "n \<le> 2" "runConnectionLoop_round rd once d = oc\<lparr>so_requests := n\<rparr>"
  | (failed) n where "n \<le> 2"
      "runConnectionLoop_round rd once d = end_round rd (rd_end_aborted rd) None d (oc\<lparr>so_requests := n\<rparr>)"
  | (connected) n where "n \<le> 2"
      "runConnectionLoop_round rd once d = end_round rd (rd_end_aborted rd) (Some (rd_lasted rd)) d
         (oc\<lparr>so_requests := n, so_statuses := [sse_connecting, sse_connected], so_resync := once,
             so_connectedOnce := True\<rparr>)"
proof -
  obtain n res where r: "sse_request rd = (n, res)" by fastforce
  then have n: "n \<le> 2" using sse_request_le [of rd] by simp
  note eq = runConnectionLoop_round_def [of rd once d, unfolded Let_def r prod.case, folded oc_def]
  show ?thesis
  proof (cases "rd_token rd")
    case None
    then show ?thesis using no_token eq by simp
  next
    case (Some token)
    show ?thesis
    proof (cases "or_undefined token = None")
      case True
      then show ?thesis using signed_out eq Some by simp
    next
      case False
      then show ?thesis
        using aborted [OF n] failed [OF n] connected [OF n] eq Some by (cases res) (simp_all split: if_splits)
    qed
  qed
qed

text \<open>
  A round sends at most two requests, and none without a token; it resynchronizes the views exactly
  when a connection is made and it is not the first.
\<close>

lemma round_requests: "so_requests (runConnectionLoop_round rd once d) \<le> 2"
  by (rule round_cases [of rd once d]) simp_all

lemma round_signed_out:
  "rd_token rd = Some None \<Longrightarrow>
   so_requests (runConnectionLoop_round rd once d) = 0 \<and>
   so_end (runConnectionLoop_round rd once d) = Loop_returns \<and>
   so_statuses (runConnectionLoop_round rd once d) = [sse_connecting, sse_disconnected]"
  by (simp add: runConnectionLoop_round_def or_undefined_def)

lemma round_resync:
  "so_resync (runConnectionLoop_round rd once d) \<longleftrightarrow>
     once \<and> sse_connected \<in> set (so_statuses (runConnectionLoop_round rd once d))"
  by (rule round_cases [of rd once d]) simp_all

text \<open>A loop that waits has announced the lost connection; the wait is at most the maximal delay.\<close>

lemma round_waits:
  assumes "so_end (runConnectionLoop_round rd once d) = Loop_waits w" "d \<le> MAX_RETRY_DELAY_MS"
  shows "last (so_statuses (runConnectionLoop_round rd once d)) = sse_disconnected \<and> w \<le> MAX_RETRY_DELAY_MS"
  using assms by (cases rule: round_cases [of rd once d]) (auto simp: end_round_waits retry_round_le)

section \<open>One connection for all tabs\<close>

text \<open>
  The state of the hook in one tab. \<open>lt_controller\<close> is \<^verbatim>\<open>leadershipAbortController\<close>, as the number of
  the request it belongs to; \<open>lt_timer\<close> says that the hidden-disconnect timer is set; \<open>lt_isLeader\<close> that a
  run of the effect in this tab is inside its connection loop. Locks and channel are available.
\<close>

record live_tab =
  lt_mounted :: bool
  lt_user :: bool
  lt_visible :: bool
  lt_online :: bool
  lt_timer :: bool
  lt_controller :: "nat option"
  lt_isLeader :: bool

text \<open>
  The origin: its tabs, the requests queued for the exclusive lock, its holder, the aborted requests
  and the next request number. The lock manager of the platform grants a queued request only when no
  other holds the lock, and drops a request whose signal is aborted.
\<close>

record live_origin =
  tabs :: "nat \<Rightarrow> live_tab"
  lock_queue :: "(nat \<times> nat) list"
  lock_holder :: "(nat \<times> nat) option"
  aborted :: "nat set"
  next_request :: nat

definition isPageEligibleForSSE :: "live_tab \<Rightarrow> bool" where
  "isPageEligibleForSSE t \<longleftrightarrow> lt_visible t \<and> lt_online t"

definition on_tab :: "nat \<Rightarrow> (live_tab \<Rightarrow> live_tab) \<Rightarrow> live_origin \<Rightarrow> live_origin" where
  "on_tab i f g = g\<lparr>tabs := (tabs g)(i := f (tabs g i))\<rparr>"

definition startLeadership :: "nat \<Rightarrow> live_origin \<Rightarrow> live_origin" where
  "startLeadership i g =
     (let t = tabs g i in
      if \<not> lt_mounted t \<or> lt_controller t \<noteq> None \<or> \<not> lt_user t \<or> \<not> isPageEligibleForSSE t then g
      else
        let r = next_request g in
        on_tab i (\<lambda>t. t\<lparr>lt_controller := Some r\<rparr>) g
          \<lparr>lock_queue := lock_queue g @ [(i, r)], next_request := Suc r\<rparr>)"

definition stopLeadership :: "nat \<Rightarrow> live_origin \<Rightarrow> live_origin" where
  "stopLeadership i g =
     (case lt_controller (tabs g i) of
        None \<Rightarrow> g
      | Some r \<Rightarrow>
          on_tab i (\<lambda>t. t\<lparr>lt_controller := None\<rparr>) g
            \<lparr>aborted := insert r (aborted g), lock_queue := filter (\<lambda>q. snd q \<noteq> r) (lock_queue g)\<rparr>)"

definition reconcilePageState :: "nat \<Rightarrow> live_origin \<Rightarrow> live_origin" where
  "reconcilePageState i g =
     (let t = tabs g i in
      if \<not> lt_visible t then on_tab i (\<lambda>t. t\<lparr>lt_timer := True\<rparr>) g
      else
        let g1 = on_tab i (\<lambda>t. t\<lparr>lt_timer := False\<rparr>) g
        in if \<not> lt_online t then stopLeadership i g1 else startLeadership i g1)"

text \<open>
  The lock is granted: an aborted request and a tab that is no longer eligible give it back at once,
  and the promise's \<^verbatim>\<open>finally\<close> clears the controller if it is still this one; otherwise the tab leads.
\<close>

definition forget_controller :: "nat \<Rightarrow> nat \<Rightarrow> live_origin \<Rightarrow> live_origin" where
  "forget_controller i r g =
     on_tab i (\<lambda>t. if lt_controller t = Some r then t\<lparr>lt_controller := None\<rparr> else t) g"

definition grant_lock :: "live_origin \<Rightarrow> live_origin" where
  "grant_lock g =
     (case (lock_holder g, lock_queue g) of
        (None, (i, r) # queue) \<Rightarrow>
          (let g1 = g\<lparr>lock_queue := queue\<rparr> in
           if r \<in> aborted g \<or> \<not> isPageEligibleForSSE (tabs g i) then forget_controller i r g1
           else on_tab i (\<lambda>t. t\<lparr>lt_isLeader := True\<rparr>) g1\<lparr>lock_holder := Some (i, r)\<rparr>)
      | _ \<Rightarrow> g)"

text \<open>The leader's connection loop returns: aborted, unmounted or signed out.\<close>

definition leader_done :: "live_origin \<Rightarrow> live_origin" where
  "leader_done g =
     (case lock_holder g of
        None \<Rightarrow> g
      | Some (i, r) \<Rightarrow>
          forget_controller i r
            (on_tab i (\<lambda>t. t\<lparr>lt_isLeader := False\<rparr>) (g\<lparr>lock_holder := None\<rparr>)))"

datatype live_action =
    Visibility nat bool | Online nat | Offline nat | Hidden_timeout nat | Page_hide nat | Page_show nat
  | Unmount nat | Mount nat bool | Grant | Leader_done

text \<open>
  The page listeners are registered from the mount to the cleanup of the effect, so an unmounted tab
  only changes its visibility and its network state. A mount is a run of the effect; a change of user
  is the cleanup of the old effect followed by a mount.
\<close>

definition listening :: "nat \<Rightarrow> (live_origin \<Rightarrow> live_origin) \<Rightarrow> live_origin \<Rightarrow> live_origin" where
  "listening i handler g = (if lt_mounted (tabs g i) then handler g else g)"

fun live_step :: "live_origin \<Rightarrow> live_action \<Rightarrow> live_origin" where
  "live_step g (Visibility i v) =
     listening i (reconcilePageState i) (on_tab i (\<lambda>t. t\<lparr>lt_visible := v\<rparr>) g)"
| "live_step g (Online i) = listening i (reconcilePageState i) (on_tab i (\<lambda>t. t\<lparr>lt_online := True\<rparr>) g)"
| "live_step g (Offline i) = listening i (stopLeadership i) (on_tab i (\<lambda>t. t\<lparr>lt_online := False\<rparr>) g)"
| "live_step g (Hidden_timeout i) =
     (if lt_timer (tabs g i) then stopLeadership i (on_tab i (\<lambda>t. t\<lparr>lt_timer := False\<rparr>) g) else g)"
| "live_step g (Page_hide i) =
     listening i (\<lambda>g. stopLeadership i (on_tab i (\<lambda>t. t\<lparr>lt_timer := False\<rparr>) g)) g"
| "live_step g (Page_show i) = listening i (reconcilePageState i) g"
| "live_step g (Unmount i) =
     listening i (\<lambda>g. stopLeadership i (on_tab i (\<lambda>t. t\<lparr>lt_timer := False, lt_mounted := False\<rparr>) g)) g"
| "live_step g (Mount i user) =
     (if lt_mounted (tabs g i) then g
      else
        let g1 = on_tab i (\<lambda>t. t\<lparr>lt_mounted := True, lt_user := user\<rparr>) g
        in if user then reconcilePageState i g1 else g1)"
| "live_step g Grant = grant_lock g"
| "live_step g Leader_done = leader_done g"

definition live_start :: "(nat \<Rightarrow> bool \<times> bool) \<Rightarrow> live_origin" where
  "live_start pages =
     \<lparr>tabs = (\<lambda>i. \<lparr>lt_mounted = False, lt_user = False, lt_visible = fst (pages i), lt_online = snd (pages i),
        lt_timer = False, lt_controller = None, lt_isLeader = False\<rparr>),
      lock_queue = [], lock_holder = None, aborted = {}, next_request = 0\<rparr>"

text \<open>
  The invariant: a tab leads exactly while it holds the lock; every controller belongs to a request
  that is queued or holds the lock and is not aborted; request numbers are used once.
\<close>

definition live_inv :: "live_origin \<Rightarrow> bool" where
  "live_inv g \<longleftrightarrow>
     (\<forall>i. lt_isLeader (tabs g i) \<longleftrightarrow> (\<exists>r. lock_holder g = Some (i, r))) \<and>
     (\<forall>i r. lt_controller (tabs g i) = Some r \<longrightarrow>
        r < next_request g \<and> r \<notin> aborted g \<and> ((i, r) \<in> set (lock_queue g) \<or> lock_holder g = Some (i, r))) \<and>
     (\<forall>i r. (i, r) \<in> set (lock_queue g) \<longrightarrow> r < next_request g \<and> lt_controller (tabs g i) = Some r) \<and>
     (\<forall>i r. lock_holder g = Some (i, r) \<longrightarrow> r < next_request g \<and> (\<forall>j. (j, r) \<notin> set (lock_queue g))) \<and>
     (\<forall>i r. lock_holder g = Some (i, r) \<and> lt_controller (tabs g i) \<noteq> Some r \<longrightarrow> r \<in> aborted g) \<and>
     (\<forall>r \<in> aborted g. r < next_request g) \<and>
     distinct (map snd (lock_queue g))"


lemma on_tab_simps [simp]:
  "tabs (on_tab i f g) j = (if j = i then f (tabs g i) else tabs g j)"
  "lock_queue (on_tab i f g) = lock_queue g" "lock_holder (on_tab i f g) = lock_holder g"
  "aborted (on_tab i f g) = aborted g" "next_request (on_tab i f g) = next_request g"
  by (simp_all add: on_tab_def)

lemma live_inv_flags:
  "(\<And>t. lt_controller (f t) = lt_controller t) \<Longrightarrow> (\<And>t. lt_isLeader (f t) = lt_isLeader t) \<Longrightarrow>
   live_inv (on_tab i f g) = live_inv g"
proof -
  assume f: "\<And>t. lt_controller (f t) = lt_controller t" "\<And>t. lt_isLeader (f t) = lt_isLeader t"
  then have "lt_controller (tabs (on_tab i f g) j) = lt_controller (tabs g j)"
    "lt_isLeader (tabs (on_tab i f g) j) = lt_isLeader (tabs g j)" for j
    by simp_all
  then show ?thesis by (simp add: live_inv_def del: on_tab_simps(1))
qed

lemma same_request:
  "distinct (map snd q) \<Longrightarrow> (i, r) \<in> set q \<Longrightarrow> (j, r) \<in> set q \<Longrightarrow> i = j"
  by (induction q) force+

lemma live_inv_start: "live_inv g \<Longrightarrow> live_inv (startLeadership i g)"
proof -
  assume inv: "live_inv g"
  have new: "(j, next_request g) \<notin> set (lock_queue g)" "lock_holder g \<noteq> Some (j, next_request g)"
    "next_request g \<notin> aborted g" for j
    using inv unfolding live_inv_def by (metis less_irrefl)+
  then have "next_request g \<notin> snd ` set (lock_queue g)" by auto
  with inv new show ?thesis
    unfolding startLeadership_def Let_def by (auto simp: live_inv_def less_Suc_eq)
qed

lemma live_invI:
  assumes "\<And>i. lt_isLeader (tabs g i) \<longleftrightarrow> (\<exists>r. lock_holder g = Some (i, r))"
    and "\<And>i r. lt_controller (tabs g i) = Some r \<Longrightarrow>
      r < next_request g \<and> r \<notin> aborted g \<and> ((i, r) \<in> set (lock_queue g) \<or> lock_holder g = Some (i, r))"
    and "\<And>i r. (i, r) \<in> set (lock_queue g) \<Longrightarrow> r < next_request g \<and> lt_controller (tabs g i) = Some r"
    and "\<And>i r j. lock_holder g = Some (i, r) \<Longrightarrow> r < next_request g \<and> (j, r) \<notin> set (lock_queue g)"
    and "\<And>i r. lock_holder g = Some (i, r) \<Longrightarrow> lt_controller (tabs g i) \<noteq> Some r \<Longrightarrow> r \<in> aborted g"
    and "\<And>r. r \<in> aborted g \<Longrightarrow> r < next_request g"
    and "distinct (map snd (lock_queue g))"
  shows "live_inv g"
  using assms unfolding live_inv_def by blast

lemma live_invD:
  assumes "live_inv g"
  shows "lt_isLeader (tabs g i) \<longleftrightarrow> (\<exists>r. lock_holder g = Some (i, r))"
    and "lt_controller (tabs g i) = Some r \<Longrightarrow>
      r < next_request g \<and> r \<notin> aborted g \<and> ((i, r) \<in> set (lock_queue g) \<or> lock_holder g = Some (i, r))"
    and "(i, r) \<in> set (lock_queue g) \<Longrightarrow> r < next_request g \<and> lt_controller (tabs g i) = Some r"
    and "lock_holder g = Some (i, r) \<Longrightarrow> r < next_request g \<and> (j, r) \<notin> set (lock_queue g)"
    and "lock_holder g = Some (i, r) \<Longrightarrow> lt_controller (tabs g i) \<noteq> Some r \<Longrightarrow> r \<in> aborted g"
    and "r \<in> aborted g \<Longrightarrow> r < next_request g"
    and "distinct (map snd (lock_queue g))"
  using assms unfolding live_inv_def by blast+

lemma live_inv_stop:
  assumes inv: "live_inv g"
  shows "live_inv (stopLeadership i g)"
proof (cases "lt_controller (tabs g i)")
  case (Some r)
  note D = live_invD [OF inv]
  let ?g = "stopLeadership i g"
  have g: "lt_isLeader (tabs ?g j) = lt_isLeader (tabs g j)"
    "lt_controller (tabs ?g j) = (if j = i then None else lt_controller (tabs g j))"
    "set (lock_queue ?g) = {q \<in> set (lock_queue g). snd q \<noteq> r}" "lock_holder ?g = lock_holder g"
    "aborted ?g = insert r (aborted g)" "next_request ?g = next_request g"
    "distinct (map snd (lock_queue ?g))" for j
    using Some D(7) by (simp_all add: stopLeadership_def distinct_map_filter)
  have other: "j = i" if "lt_controller (tabs g j) = Some r" for j
    using D(2) [OF that] D(2) [OF Some] D(4) same_request [OF D(7)] by (metis option.inject prod.inject)
  show ?thesis
  proof (rule live_invI)
    fix j q assume "lt_controller (tabs ?g j) = Some q"
    then have "j \<noteq> i" "lt_controller (tabs g j) = Some q" by (auto simp: g split: if_splits)
    then show "q < next_request ?g \<and> q \<notin> aborted ?g \<and> ((j, q) \<in> set (lock_queue ?g) \<or> lock_holder ?g = Some (j, q))"
      using D(2) [of j q] other by (auto simp: g)
  next
    fix j q assume "(j, q) \<in> set (lock_queue ?g)"
    then show "q < next_request ?g \<and> lt_controller (tabs ?g j) = Some q"
      using D(3) [of j q] Some by (auto simp: g)
  next
    fix j q assume "lock_holder ?g = Some (j, q)" "lt_controller (tabs ?g j) \<noteq> Some q"
    then show "q \<in> aborted ?g" using D(5) [of j q] Some by (auto simp: g split: if_splits)
  next
    fix q assume "q \<in> aborted ?g"
    then show "q < next_request ?g" using D(6) [of q] D(2) [OF Some] by (auto simp: g)
  qed (use D in \<open>auto simp: g\<close>)
qed (use inv in \<open>simp add: stopLeadership_def\<close>)

lemma live_inv_reconcile: "live_inv g \<Longrightarrow> live_inv (reconcilePageState i g)"
  by (auto simp: reconcilePageState_def Let_def live_inv_flags intro: live_inv_start live_inv_stop)

lemma live_inv_release:
  assumes inv: "live_inv g" and "lock_holder g = None" "lock_queue g = (i, r) # queue"
  shows "live_inv (forget_controller i r (g\<lparr>lock_queue := queue\<rparr>))"
proof -
  note D = live_invD [OF inv]
  let ?g = "forget_controller i r (g\<lparr>lock_queue := queue\<rparr>)"
  have c: "lt_controller (tabs g i) = Some r" using D(3) [of i r] assms(3) by simp
  have g: "lt_isLeader (tabs ?g j) = lt_isLeader (tabs g j)"
    "lt_controller (tabs ?g j) = (if j = i then None else lt_controller (tabs g j))"
    "lock_queue ?g = queue" "lock_holder ?g = None" "aborted ?g = aborted g" "next_request ?g = next_request g" for j
    using c assms(2) by (simp_all add: forget_controller_def)
  have q: "(j, q) \<in> set queue \<Longrightarrow> q \<noteq> r" for j q
    using D(7) assms(3) by force
  show ?thesis
  proof (rule live_invI)
    fix j q assume "lt_controller (tabs ?g j) = Some q"
    then show "q < next_request ?g \<and> q \<notin> aborted ?g \<and> ((j, q) \<in> set (lock_queue ?g) \<or> lock_holder ?g = Some (j, q))"
      using D(2) [of j q] assms(2,3) by (auto simp: g split: if_splits)
  next
    fix j q assume "(j, q) \<in> set (lock_queue ?g)"
    then show "q < next_request ?g \<and> lt_controller (tabs ?g j) = Some q"
      using D(3) [of j q] c q assms(3) by (auto simp: g)
  next
    fix j
    show "lt_isLeader (tabs ?g j) \<longleftrightarrow> (\<exists>r. lock_holder ?g = Some (j, r))"
      using D(1) [of j] assms(2) unfolding g by simp
  next
    fix q assume "q \<in> aborted ?g"
    then show "q < next_request ?g" using D(6) [of q] unfolding g by blast
  next
    show "distinct (map snd (lock_queue ?g))" using D(7) assms(3) unfolding g by simp
  qed (simp_all add: g)
qed

lemma live_inv_lead:
  assumes inv: "live_inv g" and "lock_holder g = None" "lock_queue g = (i, r) # queue"
  shows "live_inv ((on_tab i (\<lambda>t. t\<lparr>lt_isLeader := True\<rparr>) (g\<lparr>lock_queue := queue\<rparr>))\<lparr>lock_holder := Some (i, r)\<rparr>)"
    (is "live_inv ?g")
proof -
  note D = live_invD [OF inv]
  have c: "lt_controller (tabs g i) = Some r" using D(3) [of i r] assms(3) by simp
  have g: "lt_isLeader (tabs ?g j) \<longleftrightarrow> j = i \<or> lt_isLeader (tabs g j)"
    "lt_controller (tabs ?g j) = lt_controller (tabs g j)"
    "lock_queue ?g = queue" "lock_holder ?g = Some (i, r)" "aborted ?g = aborted g" "next_request ?g = next_request g" for j
    by simp_all
  have q: "(j, r) \<notin> set queue" for j
    using D(7) assms(3) by force
  show ?thesis
  proof (rule live_invI)
    fix j q assume "lt_controller (tabs ?g j) = Some q"
    then show "q < next_request ?g \<and> q \<notin> aborted ?g \<and> ((j, q) \<in> set (lock_queue ?g) \<or> lock_holder ?g = Some (j, q))"
      using D(2) [of j q] assms(2,3) unfolding g by auto
  next
    fix j q k assume "lock_holder ?g = Some (j, q)"
    then show "q < next_request ?g \<and> (k, q) \<notin> set (lock_queue ?g)"
      using D(2) [OF c] q unfolding g by auto
  next
    fix j
    show "lt_isLeader (tabs ?g j) \<longleftrightarrow> (\<exists>r. lock_holder ?g = Some (j, r))"
      using D(1) [of j] assms(2) unfolding g by auto
  next
    fix j q assume "(j, q) \<in> set (lock_queue ?g)"
    then show "q < next_request ?g \<and> lt_controller (tabs ?g j) = Some q"
      using D(3) [of j q] assms(3) unfolding g by auto
  next
    fix j q assume "lock_holder ?g = Some (j, q)" "lt_controller (tabs ?g j) \<noteq> Some q"
    then show "q \<in> aborted ?g" using c unfolding g by auto
  next
    fix q assume "q \<in> aborted ?g"
    then show "q < next_request ?g" using D(6) [of q] unfolding g by auto
  next
    show "distinct (map snd (lock_queue ?g))" using D(7) assms(3) unfolding g by auto
  qed
qed

lemma live_inv_grant: "live_inv g \<Longrightarrow> live_inv (grant_lock g)"
  by (auto simp: grant_lock_def Let_def intro: live_inv_release live_inv_lead split: option.split list.split)

lemma live_inv_done:
  assumes inv: "live_inv g" shows "live_inv (leader_done g)"
proof (cases "lock_holder g")
  case (Some h)
  obtain i r where h: "lock_holder g = Some (i, r)" using Some by (cases h) auto
  note D = live_invD [OF inv]
  let ?g = "leader_done g"
  have g: "lt_isLeader (tabs ?g j) \<longleftrightarrow> j \<noteq> i \<and> lt_isLeader (tabs g j)"
    "lt_controller (tabs ?g j) = (if j = i \<and> lt_controller (tabs g j) = Some r then None else lt_controller (tabs g j))"
    "lock_queue ?g = lock_queue g" "lock_holder ?g = None" "aborted ?g = aborted g" "next_request ?g = next_request g" for j
    using h by (simp_all add: leader_done_def forget_controller_def)
  show ?thesis
  proof (rule live_invI)
    fix j q assume "lt_controller (tabs ?g j) = Some q"
    then show "q < next_request ?g \<and> q \<notin> aborted ?g \<and> ((j, q) \<in> set (lock_queue ?g) \<or> lock_holder ?g = Some (j, q))"
      using D(2) [of j q] h by (auto simp: g split: if_splits)
  next
    fix j q assume "(j, q) \<in> set (lock_queue ?g)"
    then show "q < next_request ?g \<and> lt_controller (tabs ?g j) = Some q"
      using D(3) [of j q] D(4) [OF h, of j] by (auto simp: g)
  next
    fix j
    show "lt_isLeader (tabs ?g j) \<longleftrightarrow> (\<exists>r. lock_holder ?g = Some (j, r))"
      using D(1) [of j] h by (auto simp: g)
  qed (use D in \<open>auto simp: g\<close>)
qed (use inv in \<open>simp add: leader_done_def\<close>)

lemma live_inv_step: "live_inv g \<Longrightarrow> live_inv (live_step g a)"
  by (cases a) (auto simp: Let_def listening_def live_inv_flags
    intro: live_inv_reconcile live_inv_stop live_inv_grant live_inv_done)

interpretation live: reducer live_step "\<lambda>_ _. True" live_inv
  by unfold_locales (rule live_inv_step)


lemma live_inv_initial: "live_inv (live_start pages)"
  by (rule live_invI) (simp_all add: live_start_def)

text \<open>
  C14. Whatever the tabs do, at most one of them runs the connection loop; and a tab that wants the
  connection and has not been told to stop is never forgotten: its request is queued or it leads.
\<close>

theorem one_leader:
  assumes "g = foldl live_step (live_start pages) actions"
  shows "(lt_isLeader (tabs g i) \<and> lt_isLeader (tabs g j) \<longrightarrow> i = j) \<and>
    (lt_controller (tabs g i) = Some r \<longrightarrow> (i, r) \<in> set (lock_queue g) \<or> lt_isLeader (tabs g i))"
proof -
  have "legal_run live_step (\<lambda>_ _. True) s as" for s as
    by (induction as arbitrary: s) simp_all
  then have inv: "live_inv g"
    unfolding assms by (intro live.run_inv live_inv_initial)
  note D = live_invD [OF inv]
  show ?thesis using D(1,2) by (metis option.inject prod.inject)
qed

theorem one_leader_witness:
  "\<not> lt_isLeader (tabs (foldl live_step (live_start (\<lambda>_. (True, True))) [Mount 0 True, Mount 1 True, Grant, Grant]) 1)"
proof -
  let ?g = "foldl live_step (live_start (\<lambda>_. (True, True))) [Mount 0 True, Mount 1 True, Grant, Grant]"
  have "lt_isLeader (tabs ?g 0)"
    by (simp add: live_start_def reconcilePageState_def startLeadership_def grant_lock_def
        isPageEligibleForSSE_def Let_def)
  with one_leader [OF refl, of "\<lambda>_. (True, True)" "[Mount 0 True, Mount 1 True, Grant, Grant]" 0 1] show ?thesis
    by (metis zero_neq_one)
qed

section \<open>Messages between the tabs\<close>

datatype SSEChangeEvent = memo_changed | space_changed | unknown_event

datatype SSESyncMessage =
    Sync_event SSEChangeEvent
  | Sync_status SSEConnectionStatus "jsstring option"
  | Sync_status_request jsstring

datatype query_scope = all_spaces | notifications | all_memos | user_stats | attachment_lists

definition invalidateLiveMemoQueries :: "query_scope list" where
  "invalidateLiveMemoQueries = [all_memos, user_stats, attachment_lists]"

definition invalidateAllLiveQueries :: "query_scope list" where
  "invalidateAllLiveQueries = [all_spaces, notifications] @ invalidateLiveMemoQueries"

fun handleSSEEvent :: "SSEChangeEvent \<Rightarrow> query_scope list" where
  "handleSSEEvent memo_changed = invalidateLiveMemoQueries"
| "handleSSEEvent space_changed = invalidateAllLiveQueries"
| "handleSSEEvent unknown_event = []"

record sync_tab =
  sy_clientID :: jsstring
  sy_isLeader :: bool
  sy_status :: SSEConnectionStatus
  sy_hasConnectedOnce :: bool

text \<open>\<^verbatim>\<open>handleSyncMessage\<close>: the new state, the invalidated queries and the reply.\<close>

fun handleSyncMessage ::
    "SSESyncMessage \<Rightarrow> sync_tab \<Rightarrow> sync_tab \<times> query_scope list \<times> SSESyncMessage option" where
  "handleSyncMessage (Sync_event ev) t = (t\<lparr>sy_hasConnectedOnce := True\<rparr>, handleSSEEvent ev, None)"
| "handleSyncMessage (Sync_status status targetID) t =
     (if or_undefined targetID \<noteq> None \<and> targetID \<noteq> Some (sy_clientID t) then (t, [], None)
      else if status = sse_connected then
        (t\<lparr>sy_hasConnectedOnce := True, sy_status := status\<rparr>,
         if sy_hasConnectedOnce t then invalidateAllLiveQueries else [], None)
      else (t\<lparr>sy_status := status\<rparr>, [], None))"
| "handleSyncMessage (Sync_status_request requesterID) t =
     (t, [], if sy_isLeader t then Some (Sync_status (sy_status t) (Some requesterID)) else None)"

text \<open>A reply to a status request changes only the tab that asked.\<close>

lemma status_reply_is_targeted:
  "handleSyncMessage (Sync_status_request requester) leader = (leader', q, Some reply) \<Longrightarrow>
   requester \<noteq> [] \<Longrightarrow> sy_clientID t \<noteq> requester \<Longrightarrow> handleSyncMessage reply t = (t, [], None)"
  by (auto split: if_splits)

end
