(* ===== verification/MarkdownTasks.thy ===== *)
theory MarkdownTasks
  imports Prelude
begin

text \<open>
  Editing task lists in a memo's Markdown (\<^verbatim>\<open>utils/markdown-task-actions.ts\<close>,
  \<^verbatim>\<open>utils/markdown-manipulation.ts\<close>): the lines of a source, the task patterns, the application of a
  set of edits, checking and unchecking all tasks or one, and the generator of unique heading slugs.
  The Markdown parser is third-party: \<open>list_items\<close> gives, for a source, the list items in document
  order with their checkbox and the number of their first line (from one), or \<open>None\<close> when it throws.
\<close>

type_synonym list_items = "jsstring \<Rightarrow> (bool option \<times> nat option) list option"

section \<open>Lines\<close>

definition getLineStarts :: "jsstring \<Rightarrow> nat list" where
  "getLineStarts markdown = 0 # map Suc (filter (\<lambda>i. markdown ! i = 0x0a) [0..<length markdown])"

record LineInfo =
  li_text :: jsstring
  li_startOffset :: nat
  li_endOffset :: nat

definition getLineInfo :: "jsstring \<Rightarrow> nat list \<Rightarrow> nat \<Rightarrow> LineInfo option" where
  "getLineInfo markdown lineStarts lineNumber =
     (if lineNumber < length lineStarts then
        let startOffset = lineStarts ! lineNumber;
            endOffset = (if lineNumber + 1 < length lineStarts then lineStarts ! (lineNumber + 1) - 1
                         else length markdown)
        in Some \<lparr>li_text = slice markdown startOffset endOffset, li_startOffset = startOffset,
                 li_endOffset = endOffset\<rparr>
      else None)"

section \<open>Task patterns\<close>

definition is_bullet :: "nat \<Rightarrow> bool" where
  "is_bullet c \<longleftrightarrow> c = 0x2d \<or> c = 0x2a \<or> c = 0x2b"

definition is_check :: "nat \<Rightarrow> bool" where
  "is_check c \<longleftrightarrow> c = 0x20 \<or> c = 0x78 \<or> c = 0x58"

text \<open>
  \<^verbatim>\<open>/^(\s*)((?:[-*+])|(?:\d+[.)]))(\s+)\[([ xX])\]/\<close>: the lengths of the three groups before the bracket.
\<close>

definition list_marker_length :: "jsstring \<Rightarrow> nat option" where
  "list_marker_length s =
     (case s of
        [] \<Rightarrow> None
      | c # _ \<Rightarrow>
          if is_bullet c then Some 1
          else
            let n = length (takeWhile is_digit s) in
            if 0 < n \<and> n < length s \<and> (s ! n = 0x2e \<or> s ! n = 0x29) then Some (n + 1) else None)"

definition match_task_line :: "jsstring \<Rightarrow> (nat \<times> nat \<times> nat) option" where
  "match_task_line s =
     (let a = length (takeWhile is_js_space s) in
      case list_marker_length (drop a s) of
        None \<Rightarrow> None
      | Some b \<Rightarrow>
          (let c = length (takeWhile is_js_space (drop (a + b) s));
               i = a + b + c
           in if 0 < c \<and> i + 2 < length s \<and> s ! i = 0x5b \<and> is_check (s ! (i + 1)) \<and> s ! (i + 2) = 0x5d
              then Some (a, b, c) else None))"

record ParsedTaskItem =
  pt_checked :: bool
  pt_start :: nat
  pt_end :: nat

definition parse_item :: "jsstring \<Rightarrow> nat list \<Rightarrow> bool option \<times> nat option \<Rightarrow> ParsedTaskItem option" where
  "parse_item markdown lineStarts item =
     (case item of
        (Some checked, Some line) \<Rightarrow>
          (case (if line = 0 then None else getLineInfo markdown lineStarts (line - 1)) of
             None \<Rightarrow> None
           | Some info \<Rightarrow>
               (case match_task_line (li_text info) of
                  None \<Rightarrow> None
                | Some (a, b, c) \<Rightarrow>
                    (let markerStart = li_startOffset info + a + b + c + 1
                     in Some \<lparr>pt_checked = checked, pt_start = markerStart, pt_end = markerStart + 1\<rparr>)))
      | _ \<Rightarrow> None)"

definition parseTaskItems :: "list_items \<Rightarrow> jsstring \<Rightarrow> ParsedTaskItem list" where
  "parseTaskItems items markdown =
     (case items markdown of
        None \<Rightarrow> []
      | Some tree \<Rightarrow> List.map_filter (parse_item markdown (getLineStarts markdown)) tree)"

section \<open>Edits\<close>

record MarkdownEdit =
  ed_start :: nat
  ed_end :: nat
  ed_replacement :: jsstring

text \<open>The check over the sorted edits, from the end of the previous one.\<close>

fun edits_valid :: "nat \<Rightarrow> nat \<Rightarrow> MarkdownEdit list \<Rightarrow> bool" where
  "edits_valid len previousEnd [] = True"
| "edits_valid len previousEnd (e # es) =
     (if ed_end e < ed_start e \<or> ed_end e > len \<or> ed_start e < previousEnd then False
      else edits_valid len (ed_end e) es)"

definition apply_edit :: "MarkdownEdit \<Rightarrow> jsstring \<Rightarrow> jsstring" where
  "apply_edit e s = take (ed_start e) s @ ed_replacement e @ drop (ed_end e) s"

definition applyMarkdownEdits :: "jsstring \<Rightarrow> MarkdownEdit list \<Rightarrow> jsstring" where
  "applyMarkdownEdits markdown edits =
     (if edits = [] then markdown
      else
        let sortedEdits = sort_key ed_start edits in
        if \<not> edits_valid (length markdown) 0 sortedEdits then markdown
        else fold apply_edit (rev sortedEdits) markdown)"

definition setAllTaskMarkers :: "list_items \<Rightarrow> jsstring \<Rightarrow> bool \<Rightarrow> jsstring" where
  "setAllTaskMarkers items markdown checked =
     (let marker = (if checked then js ''x'' else js '' '')
      in applyMarkdownEdits markdown
           (map (\<lambda>t. \<lparr>ed_start = pt_start t, ed_end = pt_end t, ed_replacement = marker\<rparr>)
             (filter (\<lambda>t. pt_checked t \<noteq> checked) (parseTaskItems items markdown))))"

definition uncheckAllTasks :: "list_items \<Rightarrow> jsstring \<Rightarrow> jsstring" where
  "uncheckAllTasks items markdown = setAllTaskMarkers items markdown False"

definition checkAllTasks :: "list_items \<Rightarrow> jsstring \<Rightarrow> jsstring" where
  "checkAllTasks items markdown = setAllTaskMarkers items markdown True"

section \<open>One task\<close>

record TaskInfo =
  ti_lineNumber :: nat
  ti_checked :: bool

definition extractTasksFromAst :: "list_items \<Rightarrow> jsstring \<Rightarrow> TaskInfo list option" where
  "extractTasksFromAst items markdown =
     map_option (List.map_filter (\<lambda>item. case item of
         (Some checked, Some line) \<Rightarrow>
           if line \<noteq> 0 then Some \<lparr>ti_lineNumber = line - 1, ti_checked = checked\<rparr> else None
       | _ \<Rightarrow> None)) (items markdown)"

definition is_terminator :: "nat \<Rightarrow> bool" where
  "is_terminator c \<longleftrightarrow> c = 0x0a \<or> c = 0x0d \<or> c = 0x2028 \<or> c = 0x2029"

text \<open>
  \<^verbatim>\<open>/^(\s*[-*+]\s+)\[([ xX])\](\s+.*)$/\<close>: the length of the prefix, when the line matches.
\<close>

definition match_task_pattern :: "jsstring \<Rightarrow> nat option" where
  "match_task_pattern s =
     (let a = length (takeWhile is_js_space s);
          c = length (takeWhile is_js_space (drop (a + 1) s));
          i = a + 1 + c;
          rest = drop (i + 3) s
      in if a < length s \<and> is_bullet (s ! a) \<and> 0 < c \<and> i + 2 < length s \<and> s ! i = 0x5b \<and>
           is_check (s ! (i + 1)) \<and> s ! (i + 2) = 0x5d \<and>
           rest \<noteq> [] \<and> is_js_space (hd rest) \<and>
           (\<forall>d \<in> set (dropWhile is_js_space rest). \<not> is_terminator d)
         then Some i else None)"

definition toggle_line :: "jsstring \<Rightarrow> bool \<Rightarrow> jsstring option" where
  "toggle_line line checked =
     (case match_task_pattern line of
        None \<Rightarrow> None
      | Some i \<Rightarrow>
          Some (take i line @ js ''['' @ (if checked then js ''x'' else js '' '') @ js '']'' @ drop (i + 3) line))"

definition toggleTaskAtLine :: "jsstring \<Rightarrow> int \<Rightarrow> bool \<Rightarrow> jsstring" where
  "toggleTaskAtLine markdown lineNumber checked =
     (let ls = split_on 0x0a markdown in
      if lineNumber < 0 \<or> lineNumber \<ge> int (length ls) then markdown
      else case toggle_line (ls ! nat lineNumber) checked of
        None \<Rightarrow> markdown
      | Some new \<Rightarrow> join_with [0x0a] (ls[nat lineNumber := new]))"

definition toggleTaskAtIndex :: "list_items \<Rightarrow> jsstring \<Rightarrow> int \<Rightarrow> bool \<Rightarrow> jsstring option" where
  "toggleTaskAtIndex items markdown taskIndex checked =
     map_option (\<lambda>tasks.
       if taskIndex < 0 \<or> taskIndex \<ge> int (length tasks) then markdown
       else toggleTaskAtLine markdown (int (ti_lineNumber (tasks ! nat taskIndex))) checked)
       (extractTasksFromAst items markdown)"

definition getTaskLineNumber :: "list_items \<Rightarrow> jsstring \<Rightarrow> int \<Rightarrow> int option" where
  "getTaskLineNumber items markdown taskIndex =
     map_option (\<lambda>tasks.
       if taskIndex < 0 \<or> taskIndex \<ge> int (length tasks) then -1
       else int (ti_lineNumber (tasks ! nat taskIndex)))
       (extractTasksFromAst items markdown)"

record TaskItem =
  tk_lineNumber :: nat
  tk_taskIndex :: nat
  tk_checked :: bool
  tk_content :: jsstring
  tk_indentation :: nat

text \<open>
  \<^verbatim>\<open>/^\s*[-*+]\s+\[[ xX]\]\s+(.*)/\<close>: the text after the checkbox, up to a line terminator. When the text
  after the white space is empty the white space still matches and the content is empty.
\<close>

definition task_content :: "jsstring \<Rightarrow> jsstring" where
  "task_content s =
     (let a = length (takeWhile is_js_space s);
          c = length (takeWhile is_js_space (drop (a + 1) s));
          i = a + 1 + c;
          rest = drop (i + 3) s
      in if a < length s \<and> is_bullet (s ! a) \<and> 0 < c \<and> i + 2 < length s \<and> s ! i = 0x5b \<and>
           is_check (s ! (i + 1)) \<and> s ! (i + 2) = 0x5d \<and> rest \<noteq> [] \<and> is_js_space (hd rest)
         then takeWhile (\<lambda>d. \<not> is_terminator d) (dropWhile is_js_space rest)
         else [])"

text \<open>
  The visit of the list items; \<open>None\<close> is the exception of reading a line the split does not have (the
  parser also ends a line at a carriage return, the split does not).
\<close>

fun extract_loop :: "jsstring list \<Rightarrow> nat \<Rightarrow> (bool option \<times> nat option) list \<Rightarrow> TaskItem list option" where
  "extract_loop ls taskIndex [] = Some []"
| "extract_loop ls taskIndex ((Some checked, Some line) # items) =
     (if line = 0 then extract_loop ls taskIndex items
      else if line - 1 < length ls then
        map_option (Cons \<lparr>tk_lineNumber = line - 1, tk_taskIndex = taskIndex, tk_checked = checked,
            tk_content = task_content (ls ! (line - 1)),
            tk_indentation = length (takeWhile is_js_space (ls ! (line - 1)))\<rparr>)
          (extract_loop ls (taskIndex + 1) items)
      else None)"
| "extract_loop ls taskIndex (_ # items) = extract_loop ls taskIndex items"

definition extractTasks :: "list_items \<Rightarrow> jsstring \<Rightarrow> TaskItem list option" where
  "extractTasks items markdown =
     (case items markdown of
        None \<Rightarrow> None
      | Some tree \<Rightarrow> extract_loop (split_on 0x0a markdown) 0 tree)"

section \<open>Unique slugs\<close>

definition suffixed :: "jsstring \<Rightarrow> nat \<Rightarrow> jsstring" where
  "suffixed baseSlug n = (if n = 0 then baseSlug else baseSlug @ js ''-'' @ nat_digits n)"

text \<open>
  The loop that raises the suffix while the slug is taken, with fuel; it needs at most one round more
  than there are taken slugs.
\<close>

fun free_suffix :: "nat \<Rightarrow> jsstring list \<Rightarrow> jsstring \<Rightarrow> nat \<Rightarrow> nat option" where
  "free_suffix 0 used baseSlug n = None"
| "free_suffix (Suc fuel) used baseSlug n =
     (if suffixed baseSlug n \<in> set used then free_suffix fuel used baseSlug (n + 1) else Some n)"

text \<open>One call of the generator: the slug and the new set of used slugs.\<close>

definition next_slug :: "jsstring list \<Rightarrow> jsstring \<Rightarrow> (jsstring \<times> jsstring list) option" where
  "next_slug used baseSlug =
     map_option (\<lambda>n. (suffixed baseSlug n, set_add (suffixed baseSlug n) used))
       (free_suffix (Suc (length used)) used baseSlug 0)"

fun createUniqueSlugGenerator :: "jsstring list \<Rightarrow> jsstring list \<Rightarrow> jsstring list option" where
  "createUniqueSlugGenerator used [] = Some []"
| "createUniqueSlugGenerator used (b # bs) =
     (case next_slug used b of
        None \<Rightarrow> None
      | Some (slug, used') \<Rightarrow> map_option (Cons slug) (createUniqueSlugGenerator used' bs))"

section \<open>Properties of the slugs\<close>

lemma suffixed_inj [simp]: "suffixed b m = suffixed b n \<longleftrightarrow> m = n"
  by (auto simp: suffixed_def)

lemma free_suffix_free: "free_suffix fuel used b n = Some m \<Longrightarrow> suffixed b m \<notin> set used"
  by (induction fuel used b n rule: free_suffix.induct) (auto split: if_splits)

lemma free_suffix_least:
  "free_suffix fuel used b n = Some m \<Longrightarrow> n \<le> k \<Longrightarrow> k < m \<Longrightarrow> suffixed b k \<in> set used"
proof (induction fuel used b n rule: free_suffix.induct)
  case (2 fuel used b n)
  then show ?case by (cases "k = n") (auto split: if_splits)
qed simp

lemma free_suffix_None:
  "free_suffix fuel used b n = None \<Longrightarrow> (\<lambda>k. suffixed b k) ` {n..<n + fuel} \<subseteq> set used"
proof (induction fuel used b n rule: free_suffix.induct)
  case (2 fuel used b n)
  then have "suffixed b n \<in> set used" "(\<lambda>k. suffixed b k) ` {n + 1..<n + 1 + fuel} \<subseteq> set used"
    by (auto split: if_splits)
  moreover have "{n..<n + Suc fuel} = insert n {n + 1..<n + 1 + fuel}" by auto
  ultimately show ?case by simp
qed simp

lemma free_suffix_terminates: "\<exists>m. free_suffix (Suc (length used)) used b n = Some m"
proof (rule ccontr)
  let ?new = "(\<lambda>k. suffixed b k) ` {n..<n + Suc (length used)}"
  assume "\<not> ?thesis"
  then have "?new \<subseteq> set used" by (intro free_suffix_None) auto
  then have "card ?new \<le> card (set used)" by (rule card_mono [OF finite_set])
  moreover have "card ?new = Suc (length used)"
    by (subst card_image) (auto intro: inj_onI)
  ultimately show False using card_length [of used] by linarith
qed

lemma next_slug_fresh:
  "\<exists>slug. next_slug used b = Some (slug, set_add slug used) \<and> slug \<notin> set used \<and>
     (b \<notin> set used \<longrightarrow> slug = b)"
proof -
  obtain m where m: "free_suffix (Suc (length used)) used b 0 = Some m"
    using free_suffix_terminates by blast
  have "b \<notin> set used \<longrightarrow> suffixed b m = b"
    using free_suffix_least [OF m, of 0] by (auto simp: suffixed_def)
  then show ?thesis using m free_suffix_free [OF m] by (auto simp: next_slug_def)
qed

lemma slugs_fresh:
  "\<exists>slugs. createUniqueSlugGenerator used bs = Some slugs \<and> length slugs = length bs \<and>
     distinct slugs \<and> set slugs \<inter> set used = {}"
proof (induction bs arbitrary: used)
  case (Cons b bs)
  obtain slug where s: "next_slug used b = Some (slug, set_add slug used)" "slug \<notin> set used"
    using next_slug_fresh by blast
  from Cons.IH [of "set_add slug used"] obtain slugs where
    "createUniqueSlugGenerator (set_add slug used) bs = Some slugs" "length slugs = length bs"
    "distinct slugs" "set slugs \<inter> set (set_add slug used) = {}" by auto
  with s show ?case by (intro exI [of _ "slug # slugs"]) auto
qed simp

text \<open>
  C40. For every set of reserved slugs and every sequence of headings the generator returns (its loop
  ends within one round more than there are taken slugs) a slug for each heading; the slugs are pairwise
  different and none of them is reserved.
\<close>

theorem slugs_are_unique:
  "\<exists>slugs. createUniqueSlugGenerator reserved headings = Some slugs \<and> length slugs = length headings \<and>
     distinct slugs \<and> set slugs \<inter> set reserved = {}"
  by (rule slugs_fresh)

section \<open>Properties of the edits\<close>

text \<open>The reference: the edits read once from left to right, from position \<open>p\<close>.\<close>

fun splice_edits :: "nat \<Rightarrow> MarkdownEdit list \<Rightarrow> jsstring \<Rightarrow> jsstring" where
  "splice_edits p [] s = drop p s"
| "splice_edits p (e # es) s = slice s p (ed_start e) @ ed_replacement e @ splice_edits (ed_end e) es s"

lemma apply_edits_splice:
  "edits_valid (length s) p es \<Longrightarrow> fold apply_edit (rev es) s = take p s @ splice_edits p es s"
proof (induction es arbitrary: p)
  case (Cons e es)
  then have e: "ed_start e \<le> ed_end e" "ed_end e \<le> length s" "p \<le> ed_start e"
    and IH: "fold apply_edit (rev es) s = take (ed_end e) s @ splice_edits (ed_end e) es s"
    by (auto split: if_splits)
  have "take p s @ slice s p (ed_start e) = take (ed_start e) s"
    using e by (simp add: slice_def take_add [symmetric])
  moreover have "fold apply_edit (rev (e # es)) s =
      take (ed_start e) s @ ed_replacement e @ splice_edits (ed_end e) es s"
    using e by (simp add: IH apply_edit_def min.absorb1)
  ultimately show ?case by simp
qed simp

text \<open>
  The edits are applied from the last to the first, each at offsets of the original source; when
  the sorted edits lie in the source and do not overlap, this is the left-to-right splice of the source
  with the replacements. Otherwise the source is returned unchanged, and so it is when there is no edit.
\<close>

lemma edits_are_a_splice:
  "applyMarkdownEdits markdown edits =
     (if edits_valid (length markdown) 0 (sort_key ed_start edits)
      then splice_edits 0 (sort_key ed_start edits) markdown else markdown)"
proof (cases "edits = []")
  case False
  then show ?thesis
    using apply_edits_splice [of markdown 0 "sort_key ed_start edits"] by (auto simp: applyMarkdownEdits_def Let_def)
qed (simp add: applyMarkdownEdits_def)

subsection \<open>Edits of one code unit\<close>

definition unit_edit :: "jsstring \<Rightarrow> MarkdownEdit \<Rightarrow> bool" where
  "unit_edit r e \<longleftrightarrow> ed_end e = Suc (ed_start e) \<and> ed_replacement e = r"

lemma unit_edits_valid:
  assumes "\<forall>e \<in> set es. unit_edit r e \<and> ed_start e < n" "sorted_wrt (<) (map ed_start es)"
    "\<forall>e \<in> set es. p \<le> ed_start e"
  shows "edits_valid n p es"
  using assms by (induction es arbitrary: p) (auto simp: unit_edit_def Suc_le_eq)

lemma unit_edits_nth:
  assumes "\<forall>e \<in> set es. unit_edit [c] e \<and> ed_start e < length s"
  shows "length (fold apply_edit es s) = length s \<and>
    (\<forall>i < length s. fold apply_edit es s ! i = (if i \<in> ed_start ` set es then c else s ! i))"
  using assms
proof (induction es arbitrary: s)
  case (Cons e es)
  then have "apply_edit e s = s[ed_start e := c]"
    by (auto simp: apply_edit_def unit_edit_def upd_conv_take_nth_drop)
  with Cons.IH [of "s[ed_start e := c]"] Cons.prems show ?case by (auto simp: nth_list_update)
qed simp

lemma apply_unit_edits:
  assumes unit: "\<forall>e \<in> set es. unit_edit [c] e \<and> ed_start e < length s"
    and d: "distinct (map ed_start es)"
  shows "length (applyMarkdownEdits s es) = length s \<and>
    (\<forall>i < length s. applyMarkdownEdits s es ! i = (if i \<in> ed_start ` set es then c else s ! i))"
proof -
  have "sorted_wrt (<) (map ed_start (sort_key ed_start es))"
    using d by (simp add: strict_sorted_iff distinct_map)
  then have "edits_valid (length s) 0 (sort_key ed_start es)"
    using unit by (intro unit_edits_valid [of _ "[c]"]) auto
  then have "applyMarkdownEdits s es = fold apply_edit (rev (sort_key ed_start es)) s"
    by (simp add: applyMarkdownEdits_def)
  moreover have "\<forall>e \<in> set (rev (sort_key ed_start es)). unit_edit [c] e \<and> ed_start e < length s"
    using unit by simp
  ultimately show ?thesis using unit_edits_nth [of "rev (sort_key ed_start es)" c s] by simp
qed

section \<open>Properties of the task markers\<close>

lemma getLineStarts_sorted: "sorted_wrt (<) (getLineStarts markdown)"
  by (simp add: getLineStarts_def sorted_wrt_map sorted_wrt_filter)

lemma getLineStarts_le: "p \<in> set (getLineStarts markdown) \<Longrightarrow> p \<le> length markdown"
  by (auto simp: getLineStarts_def)

lemma getLineInfo_bounds:
  assumes "getLineInfo markdown (getLineStarts markdown) l = Some info"
  shows "li_endOffset info \<le> length markdown"
    "li_text info = slice markdown (li_startOffset info) (li_endOffset info)"
  using assms getLineStarts_le [OF nth_mem, of "l + 1" markdown]
  by (auto simp: getLineInfo_def Let_def split: if_splits)

lemma getLineInfo_order:
  assumes "getLineInfo markdown (getLineStarts markdown) l = Some a"
    "getLineInfo markdown (getLineStarts markdown) l' = Some b" "l < l'"
  shows "li_endOffset a \<le> li_startOffset b"
proof -
  have "getLineStarts markdown ! (l + 1) \<le> getLineStarts markdown ! l'"
    using assms getLineStarts_sorted [of markdown]
    by (cases "l + 1 = l'") (auto simp: getLineInfo_def sorted_wrt_iff_nth_less split: if_splits
        intro: less_imp_le)
  then show ?thesis using assms by (auto simp: getLineInfo_def Let_def split: if_splits)
qed

text \<open>The marker of a task stands between brackets, inside its line.\<close>

lemma parse_item_marker:
  assumes "parse_item markdown (getLineStarts markdown) item = Some t"
  shows "\<exists>checked line info. item = (Some checked, Some line) \<and> line \<noteq> 0 \<and> pt_checked t = checked \<and>
    getLineInfo markdown (getLineStarts markdown) (line - 1) = Some info \<and>
    li_startOffset info < pt_start t \<and> pt_end t = Suc (pt_start t) \<and> pt_end t < li_endOffset info \<and>
    li_endOffset info \<le> length markdown \<and>
    markdown ! (pt_start t - 1) = 0x5b \<and> is_check (markdown ! pt_start t) \<and> markdown ! pt_end t = 0x5d"
proof -
  obtain checked line info a b c where
    it: "item = (Some checked, Some line)" "line \<noteq> 0"
    and info: "getLineInfo markdown (getLineStarts markdown) (line - 1) = Some info"
    and mt: "match_task_line (li_text info) = Some (a, b, c)"
    and t: "pt_checked t = checked" "pt_start t = li_startOffset info + a + b + c + 1"
      "pt_end t = Suc (pt_start t)"
    using assms by (auto simp: parse_item_def Let_def split: prod.splits option.splits if_splits)
  let ?i = "a + b + c"
  have len: "length (li_text info) = li_endOffset info - li_startOffset info"
    using getLineInfo_bounds [OF info] by (simp add: length_slice)
  have m: "?i + 2 < length (li_text info)" "li_text info ! ?i = 0x5b" "is_check (li_text info ! (?i + 1))"
    "li_text info ! (?i + 2) = 0x5d"
    using mt by (auto simp: match_task_line_def Let_def split: option.splits if_splits)
  have n: "li_text info ! k = markdown ! (li_startOffset info + k)" if "k < length (li_text info)" for k
    using that getLineInfo_bounds [OF info] by (simp add: slice_def)
  show ?thesis
    using it info t m len getLineInfo_bounds(1) [OF info] n [of ?i] n [of "?i + 1"] n [of "?i + 2"]
    by (intro exI [of _ checked] exI [of _ line] exI [of _ info]) (auto simp: add.assoc)
qed

text \<open>The first lines of the task items of a tree; the parser starts at most one of them on a line.\<close>

definition task_line :: "bool option \<times> nat option \<Rightarrow> nat option" where
  "task_line item = (case item of (Some _, l) \<Rightarrow> l | _ \<Rightarrow> None)"

lemma map_filter_Cons:
  "List.map_filter f (x # xs) = (case f x of None \<Rightarrow> List.map_filter f xs | Some y \<Rightarrow> y # List.map_filter f xs)"
  by (cases "f x") (simp_all add: List.map_filter_def)

lemma set_map_filter: "set (List.map_filter f xs) = {y. \<exists>x \<in> set xs. f x = Some y}"
  by (auto simp: List.map_filter_def image_iff) (metis option.sel)

lemma parsed_starts_neq:
  assumes "parse_item markdown (getLineStarts markdown) i = Some t" "task_line i = Some l"
    and "parse_item markdown (getLineStarts markdown) j = Some u" "task_line j = Some k"
    and "l < k"
  shows "pt_start t < pt_start u"
proof -
  from parse_item_marker [OF assms(1)] assms(2) obtain a where
    a: "l \<noteq> 0" "getLineInfo markdown (getLineStarts markdown) (l - 1) = Some a" "pt_start t < li_endOffset a"
    by (auto simp: task_line_def)
  from parse_item_marker [OF assms(3)] assms(4) obtain b where
    b: "getLineInfo markdown (getLineStarts markdown) (k - 1) = Some b" "li_startOffset b < pt_start u"
    by (auto simp: task_line_def)
  have "li_endOffset a \<le> li_startOffset b"
    using a assms(5) by (intro getLineInfo_order [OF a(2) b(1)]) auto
  then show ?thesis using a b by simp
qed

lemma parsed_starts_distinct:
  assumes "distinct (List.map_filter task_line tree)"
  shows "distinct (map pt_start (List.map_filter (parse_item markdown (getLineStarts markdown)) tree))"
  using assms
proof (induction tree)
  case (Cons i tree)
  let ?P = "parse_item markdown (getLineStarts markdown)"
  have IH: "distinct (map pt_start (List.map_filter ?P tree))"
    using Cons by (auto simp: map_filter_Cons split: option.splits)
  show ?case
  proof (cases "?P i")
    case (Some t)
    from parse_item_marker [OF Some] obtain l where l: "task_line i = Some l"
      by (auto simp: task_line_def)
    have "pt_start t \<noteq> pt_start u" if "u \<in> set (List.map_filter ?P tree)" for u
    proof -
      from that obtain j where j: "j \<in> set tree" "?P j = Some u" by (auto simp: set_map_filter)
      from parse_item_marker [OF j(2)] obtain k where k: "task_line j = Some k"
        by (auto simp: task_line_def)
      have "k \<in> set (List.map_filter task_line tree)" using j k by (auto simp: set_map_filter)
      with Cons.prems l have "l \<noteq> k" by (auto simp: map_filter_Cons)
      then show ?thesis
        using parsed_starts_neq [OF Some l j(2) k] parsed_starts_neq [OF j(2) k Some l]
        by (cases "l < k") auto
    qed
    then show ?thesis using IH Some by (auto simp: map_filter_Cons)
  qed (simp add: map_filter_Cons IH)
qed (simp add: List.map_filter_def)

text \<open>
  Checking or unchecking all tasks of a source keeps its length and changes exactly the checkbox
  marks of the tasks in the other state, each of which stands between brackets on the line of its
  item. It rests on the documented behaviour of the parser that no two task items start on one line.
\<close>

lemma set_all_changes_only_marks:
  assumes tree: "items markdown = Some tree" and lines: "distinct (List.map_filter task_line tree)"
  shows "length (setAllTaskMarkers items markdown checked) = length markdown \<and>
    (\<forall>i < length markdown. setAllTaskMarkers items markdown checked ! i =
       (if \<exists>t \<in> set (parseTaskItems items markdown). pt_start t = i \<and> pt_checked t \<noteq> checked
        then (if checked then 0x78 else 0x20) else markdown ! i)) \<and>
    (\<forall>t \<in> set (parseTaskItems items markdown). 0 < pt_start t \<and> pt_start t + 1 < length markdown \<and>
       markdown ! (pt_start t - 1) = 0x5b \<and> is_check (markdown ! pt_start t) \<and>
       markdown ! (pt_start t + 1) = 0x5d)"
proof -
  let ?ts = "parseTaskItems items markdown"
  let ?c = "if checked then 0x78 else 0x20 :: nat"
  let ?es = "map (\<lambda>t. \<lparr>ed_start = pt_start t, ed_end = pt_end t, ed_replacement = [?c]\<rparr>)
    (filter (\<lambda>t. pt_checked t \<noteq> checked) ?ts)"
  have marker: "pt_end t = Suc (pt_start t) \<and> 0 < pt_start t \<and> pt_start t + 1 < length markdown \<and>
       markdown ! (pt_start t - 1) = 0x5b \<and> is_check (markdown ! pt_start t) \<and>
       markdown ! (pt_start t + 1) = 0x5d" if t: "t \<in> set ?ts" for t
  proof -
    from t tree obtain i where "parse_item markdown (getLineStarts markdown) i = Some t"
      by (auto simp: parseTaskItems_def set_map_filter)
    from parse_item_marker [OF this] show ?thesis by auto
  qed
  have "\<forall>e \<in> set ?es. unit_edit [?c] e \<and> ed_start e < length markdown"
    using marker Suc_lessD by (fastforce simp: unit_edit_def)
  moreover have "distinct (map ed_start ?es)"
    using parsed_starts_distinct [OF lines] tree
    by (simp add: parseTaskItems_def comp_def distinct_map_filter)
  moreover have "setAllTaskMarkers items markdown checked = applyMarkdownEdits markdown ?es"
    by (simp add: setAllTaskMarkers_def js_str)
  ultimately show ?thesis
    using apply_unit_edits [of ?es ?c markdown] marker by (auto simp: image_iff)
qed

definition sample_tasks :: list_items where
  "sample_tasks _ = Some [(Some False, Some 1), (None, Some 2), (Some True, Some 3)]"

lemma sample_parsed:
  "parseTaskItems sample_tasks (js ''- [ ] a\<newline>- b\<newline>2. [x] c'') =
     [\<lparr>pt_checked = False, pt_start = 3, pt_end = 4\<rparr>, \<lparr>pt_checked = True, pt_start = 16, pt_end = 17\<rparr>]"
  by (simp add: sample_tasks_def List.map_filter_def is_js_space_def is_bullet_def
      parseTaskItems_def parse_item_def getLineInfo_def getLineStarts_def
      match_task_line_def list_marker_length_def is_digit_def is_check_def
      slice_def Let_def js_str upt_rec)

lemma set_all_changes_only_marks_witness:
  "setAllTaskMarkers sample_tasks (js ''- [ ] a\<newline>- b\<newline>2. [x] c'') True ! 3 = 0x78 \<and>
   setAllTaskMarkers sample_tasks (js ''- [ ] a\<newline>- b\<newline>2. [x] c'') True ! 16 = 0x78 \<and>
   setAllTaskMarkers sample_tasks (js ''- [ ] a\<newline>- b\<newline>2. [x] c'') True ! 6 = 0x61 \<and>
   length (setAllTaskMarkers sample_tasks (js ''- [ ] a\<newline>- b\<newline>2. [x] c'') True) = 20"
  using set_all_changes_only_marks [of sample_tasks "js ''- [ ] a\<newline>- b\<newline>2. [x] c''"
      "[(Some False, Some 1), (None, Some 2), (Some True, Some 3)]" True]
  unfolding sample_parsed
  by (simp add: sample_tasks_def List.map_filter_def task_line_def js_str)

section \<open>Properties of one task\<close>

lemma toggle_line_length:
  assumes "toggle_line line checked = Some new"
  shows "\<exists>i. match_task_pattern line = Some i \<and> new = line[i + 1 := (if checked then 0x78 else 0x20)] \<and>
    i + 2 < length line \<and> line ! i = 0x5b \<and> is_check (line ! (i + 1)) \<and> line ! (i + 2) = 0x5d"
proof -
  obtain i where i: "match_task_pattern line = Some i"
    and new: "new = take i line @ js ''['' @ (if checked then js ''x'' else js '' '') @ js '']'' @ drop (i + 3) line"
    using assms by (auto simp: toggle_line_def split: option.splits)
  have m: "i + 2 < length line" "line ! i = 0x5b" "is_check (line ! (i + 1))" "line ! (i + 2) = 0x5d"
    using i by (auto simp: match_task_pattern_def Let_def split: if_splits)
  have "take (i + 1) line = take i line @ [0x5b]"
    using m by (simp add: take_Suc_conv_app_nth)
  moreover have "drop (i + 2) line = 0x5d # drop (i + 3) line"
    using m Cons_nth_drop_Suc [of "i + 2" line] by (simp add: numeral_3_eq_3)
  ultimately have "line[i + 1 := c] = take i line @ 0x5b # c # 0x5d # drop (i + 3) line" for c
    using m by (simp add: upd_conv_take_nth_drop)
  then show ?thesis using i m new by (auto simp: js_str)
qed

lemma join_update:
  assumes "k < length ls" "length new = length (ls ! k)"
  shows "length (join_with [sep] (ls[k := new])) = length (join_with [sep] ls)"
  using assms
proof (induction ls arbitrary: k)
  case (Cons l ls)
  then show ?case by (cases k; cases ls) (auto simp: join_with_Cons split: nat.splits)
qed simp

text \<open>
  Toggling the task of a line replaces one code unit of that line, the mark between the brackets, by
  the wanted one and keeps every other line; a line number outside the source or a line that is not
  matched as a task leaves the source as it is.
\<close>

lemma toggle_changes_one_mark:
  "(\<exists>k i. lineNumber = int k \<and> k < length (split_on 0x0a markdown) \<and>
      match_task_pattern (split_on 0x0a markdown ! k) = Some i \<and>
      is_check (split_on 0x0a markdown ! k ! (i + 1)) \<and>
      split_on 0x0a (toggleTaskAtLine markdown lineNumber checked) =
        (split_on 0x0a markdown)[k := (split_on 0x0a markdown ! k)[i + 1 := (if checked then 0x78 else 0x20)]]) \<or>
   toggleTaskAtLine markdown lineNumber checked = markdown"
proof (cases "lineNumber < 0 \<or> lineNumber \<ge> int (length (split_on 0x0a markdown)) \<or>
    toggle_line (split_on 0x0a markdown ! nat lineNumber) checked = None")
  case False
  let ?ls = "split_on 0x0a markdown" and ?k = "nat lineNumber"
  from False obtain new where new: "toggle_line (?ls ! ?k) checked = Some new" and k: "?k < length ?ls"
    by auto
  from toggle_line_length [OF new] obtain i where
    i: "match_task_pattern (?ls ! ?k) = Some i" "is_check (?ls ! ?k ! (i + 1))"
    "new = (?ls ! ?k)[i + 1 := (if checked then 0x78 else 0x20)]" by blast
  have "0x0a \<notin> set (?ls ! ?k)" using k by (intro split_on_no_sep [OF nth_mem])
  then have "0x0a \<notin> set new" unfolding i(3)
    using set_update_subset_insert [of "?ls ! ?k" "i + 1" "if checked then 0x78 else 0x20"]
    by (auto split: if_splits)
  moreover have "0x0a \<notin> set w" if "w \<in> set ?ls" for w using that by (rule split_on_no_sep)
  ultimately have "\<forall>w \<in> set (?ls[?k := new]). 0x0a \<notin> set w"
    using set_update_subset_insert [of ?ls ?k new] by blast
  then have "split_on 0x0a (join_with [0x0a] (?ls[?k := new])) = ?ls[?k := new]"
    by (intro split_join_on) auto
  then show ?thesis using False new k i
    by (intro disjI1 exI [of _ ?k] exI [of _ i]) (simp add: toggleTaskAtLine_def Let_def)
qed (auto simp: toggleTaskAtLine_def Let_def)

text \<open>
  A task of an ordered list is not toggled: the pattern of a line knows the bullets only, while the
  parser and the pattern for all tasks know the numbers too. So one box of \<open>1. [ ] a\<close> cannot be
  checked, and checking all checks it.
\<close>

lemma ordered_tasks_are_not_toggled:
  "toggleTaskAtIndex (\<lambda>_. Some [(Some False, Some 1)]) (js ''1. [ ] a'') 0 True = Some (js ''1. [ ] a'') \<and>
   checkAllTasks (\<lambda>_. Some [(Some False, Some 1)]) (js ''1. [ ] a'') = js ''1. [x] a''"
  by (simp add: toggleTaskAtIndex_def extractTasksFromAst_def List.map_filter_def toggleTaskAtLine_def
      toggle_line_def match_task_pattern_def is_js_space_def is_bullet_def checkAllTasks_def
      setAllTaskMarkers_def parseTaskItems_def parse_item_def getLineInfo_def getLineStarts_def
      match_task_line_def list_marker_length_def is_digit_def is_check_def applyMarkdownEdits_def
      apply_edit_def slice_def Let_def js_str upt_rec)

end
