(* ===== verification/Json.thy ===== *)
theory Json
  imports Prelude "HOL-Library.Monad_Syntax" Complex_Main
begin

text \<open>
  The language's \<^verbatim>\<open>JSON.stringify\<close> (without indentation) and \<^verbatim>\<open>JSON.parse\<close>, as far as the sources use
  them, with the round trip. A number is its exact value: the rounding of a literal to a double is not
  modelled, nor the reordering of integer-like keys. The printing of a number that is not an integer of
  at most 53 bits is the argument \<open>number_text\<close>. An object is the list of its members in order.
\<close>

section \<open>Values\<close>

datatype json =
    JNull
  | JBool bool
  | JNum rat
  | JStr jsstring
  | JArr "json list"
  | JObj "(jsstring \<times> json) list"

text \<open>
  \<^verbatim>\<open>v.k\<close> for a key no primitive and no array has: \<open>None\<close> for the \<^verbatim>\<open>TypeError\<close> on \<^verbatim>\<open>null\<close>, \<open>Some None\<close> for
  \<^verbatim>\<open>undefined\<close>.
\<close>

definition json_get :: "json \<Rightarrow> string \<Rightarrow> json option option" where
  "json_get v k = (case v of JNull \<Rightarrow> None | JObj ms \<Rightarrow> Some (map_of ms (js k)) | _ \<Rightarrow> Some None)"

section \<open>Printing\<close>

definition hex_digit :: "nat \<Rightarrow> nat" where
  "hex_digit d = (if d < 10 then 0x30 + d else 0x57 + d)"

definition unicode_escape :: "nat \<Rightarrow> jsstring" where
  "unicode_escape c =
     [0x5c, 0x75, hex_digit (c div 4096), hex_digit (c div 256 mod 16), hex_digit (c div 16 mod 16),
      hex_digit (c mod 16)]"

definition escape_unit :: "nat \<Rightarrow> jsstring" where
  "escape_unit c =
     (if c = 0x08 then [0x5c, 0x62] else if c = 0x09 then [0x5c, 0x74] else if c = 0x0a then [0x5c, 0x6e]
      else if c = 0x0c then [0x5c, 0x66] else if c = 0x0d then [0x5c, 0x72]
      else if c = 0x22 then [0x5c, 0x22] else if c = 0x5c then [0x5c, 0x5c]
      else if c < 0x20 then unicode_escape c else [c])"

text \<open>The body of a quoted string; a lone surrogate is escaped.\<close>

fun quote_body :: "jsstring \<Rightarrow> jsstring" where
  "quote_body [] = []"
| "quote_body [c] = (if is_high_surrogate c \<or> is_low_surrogate c then unicode_escape c else escape_unit c)"
| "quote_body (c # d # s) =
     (if is_high_surrogate c then
        if is_low_surrogate d then c # d # quote_body s else unicode_escape c @ quote_body (d # s)
      else if is_low_surrogate c then unicode_escape c @ quote_body (d # s)
      else escape_unit c @ quote_body (d # s))"

definition quote_json :: "jsstring \<Rightarrow> jsstring" where
  "quote_json s = [0x22] @ quote_body s @ [0x22]"

definition safe_integer :: "rat \<Rightarrow> bool" where
  "safe_integer x \<longleftrightarrow> snd (quotient_of x) = 1 \<and> \<bar>x\<bar> \<le> 9007199254740991"

definition print_number :: "(rat \<Rightarrow> jsstring) \<Rightarrow> rat \<Rightarrow> jsstring" where
  "print_number number_text x =
     (if safe_integer x then int_text (fst (quotient_of x)) else number_text x)"

fun stringify :: "(rat \<Rightarrow> jsstring) \<Rightarrow> json \<Rightarrow> jsstring" where
  "stringify nt JNull = js ''null''"
| "stringify nt (JBool b) = (if b then js ''true'' else js ''false'')"
| "stringify nt (JNum x) = print_number nt x"
| "stringify nt (JStr s) = quote_json s"
| "stringify nt (JArr vs) = [0x5b] @ join_with [0x2c] (map (stringify nt) vs) @ [0x5d]"
| "stringify nt (JObj ms) =
     [0x7b] @ join_with [0x2c] (map (\<lambda>(k, v). quote_json k @ [0x3a] @ stringify nt v) ms) @ [0x7d]"

section \<open>Reading\<close>

definition is_json_space :: "nat \<Rightarrow> bool" where
  "is_json_space c \<longleftrightarrow> c = 0x20 \<or> c = 0x09 \<or> c = 0x0a \<or> c = 0x0d"

abbreviation skip_space :: "jsstring \<Rightarrow> jsstring" where
  "skip_space \<equiv> dropWhile is_json_space"

definition hex_value :: "nat \<Rightarrow> nat option" where
  "hex_value c =
     (if is_digit c then Some (c - 0x30)
      else if 0x61 \<le> c \<and> c \<le> 0x66 then Some (c - 0x57)
      else if 0x41 \<le> c \<and> c \<le> 0x46 then Some (c - 0x37) else None)"

text \<open>The part of an escape after the backslash: the code unit it stands for and the rest.\<close>

fun read_escape :: "jsstring \<Rightarrow> (nat \<times> jsstring) option" where
  "read_escape (e # r) =
     (if e = 0x75 then
        (case r of
           a # b # c # d # r' \<Rightarrow>
             do { x \<leftarrow> hex_value a; y \<leftarrow> hex_value b; z \<leftarrow> hex_value c; w \<leftarrow> hex_value d;
                  Some (x * 4096 + y * 256 + z * 16 + w, r') }
         | _ \<Rightarrow> None)
      else map_option (\<lambda>c. (c, r))
        (map_of [(0x22, 0x22), (0x5c, 0x5c), (0x2f, 0x2f), (0x62, 0x08), (0x66, 0x0c), (0x6e, 0x0a),
                 (0x72, 0x0d), (0x74, 0x09)] e))"
| "read_escape [] = None"

lemma read_escape_length: "read_escape s = Some (c, r) \<Longrightarrow> length r < length s"
  by (cases s) (auto split: if_splits list.splits bind_splits)

function read_string_body :: "jsstring \<Rightarrow> (jsstring \<times> jsstring) option" where
  "read_string_body [] = None"
| "read_string_body (c # s) =
     (if c = 0x22 then Some ([], s)
      else if c = 0x5c then
        (case read_escape s of
           None \<Rightarrow> None
         | Some (d, r) \<Rightarrow> map_option (apfst (Cons d)) (read_string_body r))
      else if c < 0x20 then None
      else map_option (apfst (Cons c)) (read_string_body s))"
  by pat_completeness auto
termination by (relation "measure length") (auto dest: read_escape_length)

definition ten_power :: "int \<Rightarrow> rat" where
  "ten_power e = (if 0 \<le> e then 10 ^ nat e else 1 / 10 ^ nat (- e))"

definition read_fraction :: "jsstring \<Rightarrow> (rat \<times> jsstring) option" where
  "read_fraction s =
     (case s of
        c # r \<Rightarrow>
          if c = 0x2e then
            let ds = takeWhile is_digit r
            in if ds = [] then None
               else Some (of_nat (digits_value ds) / 10 ^ length ds, drop (length ds) r)
          else Some (0, s)
      | [] \<Rightarrow> Some (0, s))"

definition read_exponent :: "jsstring \<Rightarrow> (int \<times> jsstring) option" where
  "read_exponent s =
     (case s of
        c # r \<Rightarrow>
          if c = 0x65 \<or> c = 0x45 then
            let neg = (r \<noteq> [] \<and> hd r = 0x2d);
                r' = (if r \<noteq> [] \<and> (hd r = 0x2d \<or> hd r = 0x2b) then tl r else r);
                ds = takeWhile is_digit r'
            in if ds = [] then None
               else Some ((if neg then - 1 else 1) * int (digits_value ds), drop (length ds) r')
          else Some (0, s)
      | [] \<Rightarrow> Some (0, s))"

text \<open>The integer part: a zero, or digits that do not start with one.\<close>

definition integer_digits :: "jsstring \<Rightarrow> jsstring" where
  "integer_digits s = (if s \<noteq> [] \<and> hd s = 0x30 then [0x30] else takeWhile is_digit s)"

definition read_number :: "jsstring \<Rightarrow> (rat \<times> jsstring) option" where
  "read_number s =
     (let neg = (s \<noteq> [] \<and> hd s = 0x2d);
          s1 = (if neg then tl s else s);
          ds = integer_digits s1
      in if ds = [] then None
         else do {
           (f, s2) \<leftarrow> read_fraction (drop (length ds) s1);
           (e, s3) \<leftarrow> read_exponent s2;
           Some ((if neg then - 1 else 1) * (of_nat (digits_value ds) + f) * ten_power e, s3)
         })"

text \<open>Repeated keys: the last value, at the place of the first.\<close>

definition json_object :: "(jsstring \<times> json) list \<Rightarrow> json" where
  "json_object ms = JObj (fold (\<lambda>(k, v). AList.update k v) ms [])"

text \<open>The recursive descent, with fuel; twice the length of the text and one are enough (below).\<close>

fun parse_value :: "nat \<Rightarrow> jsstring \<Rightarrow> (json \<times> jsstring) option"
  and parse_elements :: "nat \<Rightarrow> jsstring \<Rightarrow> (json list \<times> jsstring) option"
  and parse_members :: "nat \<Rightarrow> jsstring \<Rightarrow> ((jsstring \<times> json) list \<times> jsstring) option"
where
  "parse_value 0 s = None"
| "parse_value (Suc n) s =
     (case skip_space s of
        [] \<Rightarrow> None
      | c # r \<Rightarrow>
          if c = 0x22 then map_option (apfst JStr) (read_string_body r)
          else if c = 0x5b then
            if starts_with (skip_space r) [0x5d] then Some (JArr [], tl (skip_space r))
            else map_option (apfst JArr) (parse_elements n r)
          else if c = 0x7b then
            if starts_with (skip_space r) [0x7d] then Some (JObj [], tl (skip_space r))
            else map_option (apfst json_object) (parse_members n r)
          else if starts_with (c # r) (js ''null'') then Some (JNull, drop 3 r)
          else if starts_with (c # r) (js ''true'') then Some (JBool True, drop 3 r)
          else if starts_with (c # r) (js ''false'') then Some (JBool False, drop 4 r)
          else map_option (apfst JNum) (read_number (c # r)))"
| "parse_elements 0 s = None"
| "parse_elements (Suc n) s =
     (case parse_value n s of
        None \<Rightarrow> None
      | Some (v, r) \<Rightarrow>
          (case skip_space r of
             [] \<Rightarrow> None
           | d # r' \<Rightarrow>
               if d = 0x2c then map_option (apfst (Cons v)) (parse_elements n r')
               else if d = 0x5d then Some ([v], r') else None))"
| "parse_members 0 s = None"
| "parse_members (Suc n) s =
     (if \<not> starts_with (skip_space s) [0x22] then None
      else case read_string_body (tl (skip_space s)) of
        None \<Rightarrow> None
      | Some (k, r) \<Rightarrow>
          if \<not> starts_with (skip_space r) [0x3a] then None
          else case parse_value n (tl (skip_space r)) of
            None \<Rightarrow> None
          | Some (v, r') \<Rightarrow>
              (case skip_space r' of
                 [] \<Rightarrow> None
               | d # r'' \<Rightarrow>
                   if d = 0x2c then map_option (apfst (Cons (k, v))) (parse_members n r'')
                   else if d = 0x7d then Some ([(k, v)], r'') else None))"

definition parse_json :: "jsstring \<Rightarrow> json option" where
  "parse_json s =
     (case parse_value (2 * length s + 1) s of
        None \<Rightarrow> None
      | Some (v, r) \<Rightarrow> if skip_space r = [] then Some v else None)"

section \<open>Reading consumes text and the fuel suffices\<close>

lemma skip_space_Cons_length: "skip_space s = c # r \<Longrightarrow> length r < length s"
  using length_dropWhile_le [of is_json_space s] by simp

lemma tl_skip_space_length: "starts_with (skip_space s) [c] \<Longrightarrow> length (tl (skip_space s)) < length s"
  using skip_space_Cons_length [of s] by (auto simp: starts_with_prefix prefix_def)

lemma read_string_body_length: "read_string_body s = Some (t, r) \<Longrightarrow> length r < length s"
  by (induction s arbitrary: t r rule: read_string_body.induct)
    (auto split: if_splits option.splits dest!: read_escape_length, fastforce)

lemma read_fraction_length: "read_fraction s = Some (f, r) \<Longrightarrow> length r \<le> length s"
  by (cases s) (auto simp: read_fraction_def Let_def split: if_splits)

lemma read_exponent_length: "read_exponent s = Some (f, r) \<Longrightarrow> length r \<le> length s"
  by (cases s) (auto simp: read_exponent_def Let_def split: if_splits)

lemma read_number_length: "read_number s = Some (x, r) \<Longrightarrow> length r < length s"
proof -
  assume r: "read_number s = Some (x, r)"
  define s1 where "s1 = (if s \<noteq> [] \<and> hd s = 0x2d then tl s else s)"
  define ds where "ds = integer_digits s1"
  obtain f s2 e where f: "ds \<noteq> []" "read_fraction (drop (length ds) s1) = Some (f, s2)"
    "read_exponent s2 = Some (e, r)"
    using r unfolding read_number_def Let_def s1_def [symmetric] ds_def [symmetric]
    by (auto split: bind_splits if_splits)
  have "s1 \<noteq> []" "length s1 \<le> length s" using f(1) by (auto simp: ds_def integer_digits_def s1_def split: if_splits)
  with f(1) have "length (drop (length ds) s1) < length s" by (cases s1; cases ds) auto
  then show ?thesis using read_fraction_length [OF f(2)] read_exponent_length [OF f(3)] by linarith
qed

lemma parse_length:
  "parse_value n s = Some (v, r) \<Longrightarrow> length r < length s"
  "parse_elements n s = Some (vs, r) \<Longrightarrow> length r < length s"
  "parse_members n s = Some (ms, r) \<Longrightarrow> length r < length s"
proof (induction n s and n s and n s arbitrary: v r and vs r and ms r
    rule: parse_value_parse_elements_parse_members.induct)
  case (2 n s)
  then obtain c t where ct: "skip_space s = c # t" by (auto split: list.splits)
  note l = skip_space_Cons_length [OF ct]
  show ?case
    using 2 ct l tl_skip_space_length [of t] read_string_body_length [of t] read_number_length [of "c # t"]
      length_dropWhile_le [of is_json_space s]
    by (auto split: if_splits) fastforce+
next
  case (4 n s)
  then show ?case
    by (auto split: option.splits list.splits if_splits dest!: skip_space_Cons_length) fastforce+
next
  case (6 n s)
  show ?case
    using 6 tl_skip_space_length [of s] read_string_body_length [of "tl (skip_space s)"]
    by (auto split: option.splits list.splits if_splits dest!: skip_space_Cons_length tl_skip_space_length) fastforce+
qed simp_all

lemma parse_fuel:
  "2 * length s < n \<Longrightarrow> 2 * length s < m \<Longrightarrow> parse_value n s = parse_value m s"
  "2 * length s + 1 < n \<Longrightarrow> 2 * length s + 1 < m \<Longrightarrow> parse_elements n s = parse_elements m s"
  "2 * length s + 1 < n \<Longrightarrow> 2 * length s + 1 < m \<Longrightarrow> parse_members n s = parse_members m s"
proof (induction n s and n s and n s arbitrary: m and m and m
    rule: parse_value_parse_elements_parse_members.induct)
  case (2 n s)
  obtain k where m: "m = Suc k" using 2(4) by (cases m) auto
  show ?case
  proof (cases "skip_space s")
    case (Cons c t)
    from skip_space_Cons_length [OF Cons] 2(3,4) m
    have l: "2 * length t + 1 < n" "2 * length t + 1 < k" by linarith+
    show ?thesis
    proof (cases "c = 0x5b")
      case True
      then show ?thesis using 2(1) [OF Cons, of k] Cons l m by simp
    next
      case False
      then show ?thesis using 2(2) [OF Cons, of k] Cons l m by simp
    qed
  next
    case Nil
    then show ?thesis by (simp add: m del: dropWhile_eq_Nil_conv)
  qed
next
  case (4 n s)
  obtain k where m: "m = Suc k" using 4(4) by (cases m) auto
  have v: "parse_value n s = parse_value k s" by (rule 4(1)) (use 4(3,4) m in linarith)+
  show ?case
  proof (cases "parse_value k s")
    case (Some vr)
    obtain w r where vr: "vr = (w, r)" by (cases vr)
    show ?thesis
    proof (cases "skip_space r")
      case (Cons d r')
      from skip_space_Cons_length [OF Cons] parse_length(1) [OF Some [unfolded vr]] 4(3,4) m
      have l: "2 * length r' + 1 < n" "2 * length r' + 1 < k" by linarith+
      have "parse_elements n r' = parse_elements k r'" if "d = 0x2c"
        by (rule 4(2) [OF v [THEN trans, OF Some] vr [symmetric] Cons that l])
      then show ?thesis using v Some vr Cons m by simp
    qed (simp add: v Some vr m del: dropWhile_eq_Nil_conv)
  qed (simp add: v m)
next
  case (6 n s)
  obtain k where m: "m = Suc k" using 6(4) by (cases m) auto
  show ?case
  proof (cases "starts_with (skip_space s) [0x22] \<and> read_string_body (tl (skip_space s)) \<noteq> None")
    case True
    then obtain key r where kr: "read_string_body (tl (skip_space s)) = Some (key, r)" by auto
    have lr: "length r < length s"
      using read_string_body_length [OF kr] tl_skip_space_length [of s] True by force
    show ?thesis
    proof (cases "starts_with (skip_space r) [0x3a]")
      case colon: True
      let ?t = "tl (skip_space r)"
      have lt: "length ?t < length r" using tl_skip_space_length [OF colon] .
      have v: "parse_value n ?t = parse_value k ?t"
      proof -
        have "\<not> \<not> starts_with (skip_space s) [0x22]" "\<not> \<not> starts_with (skip_space r) [0x3a]"
          using True colon by simp_all
        moreover have "2 * length ?t < n" "2 * length ?t < k"
          using lt lr 6(3,4) m by linarith+
        ultimately show ?thesis by - (rule 6(1) [OF _ kr refl])
      qed
      show ?thesis
      proof (cases "parse_value k ?t")
        case (Some vr)
        obtain w r' where vr: "vr = (w, r')" by (cases vr)
        show ?thesis
        proof (cases "skip_space r'")
          case (Cons d r'')
          from skip_space_Cons_length [OF Cons] parse_length(1) [OF Some [unfolded vr]] 6(3,4) m lt lr
          have l: "2 * length r'' + 1 < n" "2 * length r'' + 1 < k" by linarith+
          have nn: "\<not> \<not> starts_with (skip_space s) [0x22]" "\<not> \<not> starts_with (skip_space r) [0x3a]"
            using True colon by simp_all
          have "parse_members n r'' = parse_members k r''" if "d = 0x2c"
            by (rule 6(2) [OF nn(1) kr refl nn(2) v [THEN trans, OF Some] vr [symmetric] Cons that l])
          then show ?thesis using True kr colon v Some vr Cons m by simp
        qed (simp add: True kr colon v Some vr m del: dropWhile_eq_Nil_conv)
      qed (use True kr colon v m in simp)
    qed (use True kr m in simp)
  next
    case False
    then show ?thesis by (cases "read_string_body (tl (skip_space s))") (auto simp: m)
  qed
qed simp_all

section \<open>Round trip\<close>

text \<open>What ends a value inside a text the printer writes.\<close>

definition value_end :: "jsstring \<Rightarrow> bool" where
  "value_end r \<longleftrightarrow> r = [] \<or> hd r = 0x2c \<or> hd r = 0x5d \<or> hd r = 0x7d"

definition code_units :: "jsstring \<Rightarrow> bool" where
  "code_units s \<longleftrightarrow> (\<forall>c \<in> set s. c \<le> 0xffff)"

lemma code_units_js [simp]: "code_units (js s)"
proof -
  have "of_char x \<le> (0xffff :: nat)" for x :: char
    using nat_of_char_less_256 [of x] by linarith
  then show ?thesis by (auto simp: code_units_def js_def)
qed

text \<open>
  The language's contract for printing a number: the text is a literal that reads back. It holds of the
  integers the printer writes itself (\<open>print_number_ok\<close>).
\<close>

definition number_ok :: "(rat \<Rightarrow> jsstring) \<Rightarrow> rat \<Rightarrow> bool" where
  "number_ok nt x \<longleftrightarrow>
     print_number nt x \<noteq> [] \<and> (is_digit (hd (print_number nt x)) \<or> hd (print_number nt x) = 0x2d) \<and>
     (\<forall>r. value_end r \<longrightarrow> read_number (print_number nt x @ r) = Some (x, r))"

fun json_ok :: "(rat \<Rightarrow> jsstring) \<Rightarrow> json \<Rightarrow> bool" where
  "json_ok nt JNull = True"
| "json_ok nt (JBool b) = True"
| "json_ok nt (JNum x) = number_ok nt x"
| "json_ok nt (JStr s) = code_units s"
| "json_ok nt (JArr vs) = (\<forall>v \<in> set vs. json_ok nt v)"
| "json_ok nt (JObj ms) = (distinct (map fst ms) \<and> (\<forall>(k, v) \<in> set ms. code_units k \<and> json_ok nt v))"

subsection \<open>Strings\<close>

lemma hex_value_digit: "d < 16 \<Longrightarrow> hex_value (hex_digit d) = Some d"
  by (auto simp: hex_value_def hex_digit_def is_digit_def)

lemma four_hex_digits:
  "c div 4096 * 4096 + c div 256 mod 16 * 256 + c div 16 mod 16 * 16 + c mod 16 = (c :: nat)"
proof -
  have "c div 16 div 16 = c div 256" "c div 256 div 16 = c div 4096" by (simp_all add: div_mult2_eq [symmetric])
  then show ?thesis
    using div_mult_mod_eq [of c 16] div_mult_mod_eq [of "c div 16" 16] div_mult_mod_eq [of "c div 256" 16]
    by linarith
qed

lemma read_unicode_escape:
  assumes "c \<le> 0xffff"
  shows "read_string_body (unicode_escape c @ t) = map_option (apfst (Cons c)) (read_string_body t)"
proof -
  have "c div 4096 < 16" using assms by simp
  then show ?thesis
    using four_hex_digits [of c] by (simp add: unicode_escape_def hex_value_digit)
qed

lemma read_escape_unit:
  assumes "c \<le> 0xffff"
  shows "read_string_body (escape_unit c @ t) = map_option (apfst (Cons c)) (read_string_body t)"
  using read_unicode_escape [OF assms, of t] by (simp add: escape_unit_def)

lemma read_surrogate:
  "is_high_surrogate c \<or> is_low_surrogate c \<Longrightarrow>
   read_string_body (c # t) = map_option (apfst (Cons c)) (read_string_body t)"
  by (auto simp: is_high_surrogate_def is_low_surrogate_def)

lemma read_quote_body:
  "code_units s \<Longrightarrow> read_string_body (quote_body s @ 0x22 # r) = Some (s, r)"
proof (induction s rule: quote_body.induct)
  case (2 c)
  then show ?case by (simp add: code_units_def read_unicode_escape read_escape_unit)
next
  case (3 c d s)
  then show ?case
    by (simp add: code_units_def read_unicode_escape read_escape_unit read_surrogate del: read_string_body.simps)
qed simp

subsection \<open>Numbers\<close>

lemma value_end_digits: "value_end r \<Longrightarrow> takeWhile is_digit (nat_digits n @ r) = nat_digits n"
proof -
  assume r: "value_end r"
  then have "takeWhile is_digit r = []" by (cases r) (auto simp: value_end_def is_digit_def)
  then show ?thesis using nat_digits_digit by (simp add: takeWhile_append2)
qed

lemma value_end_no_tail: "value_end r \<Longrightarrow> read_fraction r = Some (0, r) \<and> read_exponent r = Some (0, r)"
  by (cases r) (auto simp: value_end_def read_fraction_def read_exponent_def)

lemma integer_digits_nat:
  assumes "value_end r"
  shows "integer_digits (nat_digits n @ r) = nat_digits n"
proof (cases "n = 0")
  case True
  then have "nat_digits n = [0x30]" by (simp add: nat_digits.simps)
  then show ?thesis by (simp add: integer_digits_def)
next
  case False
  then have "hd (nat_digits n) \<noteq> 0x30" by (simp add: nat_digits_hd)
  then show ?thesis by (simp add: integer_digits_def value_end_digits [OF assms])
qed

lemma nat_digits_hd_digit: "is_digit (hd (nat_digits n))"
  by (rule nat_digits_digit [OF hd_in_set [OF nat_digits_neq_Nil]])

lemma nat_digits_no_minus: "hd (nat_digits n) \<noteq> 0x2d"
  using nat_digits_hd_digit [of n] by (simp add: is_digit_def)

lemma read_int_text:
  assumes "value_end r"
  shows "read_number (int_text z @ r) = Some (of_int z, r)"
  using value_end_no_tail [OF assms]
  by (simp add: read_number_def Let_def int_text_def integer_digits_nat [OF assms] nat_digits_no_minus
      ten_power_def digits_value_nat_digits)

lemma safe_integer_of_int: "safe_integer x \<Longrightarrow> of_int (fst (quotient_of x)) = x"
  using quotient_of_div [of x] by (cases "quotient_of x") (auto simp: safe_integer_def)

lemma print_number_ok: "safe_integer x \<Longrightarrow> number_ok nt x"
  using safe_integer_of_int [of x]
  by (simp add: number_ok_def print_number_def read_int_text) (simp add: int_text_def nat_digits_hd_digit)

subsection \<open>Values\<close>

text \<open>A printed value starts with none of the characters the reader treats specially before a value.\<close>

lemma stringify_starts:
  "json_ok nt v \<Longrightarrow> \<exists>c t. stringify nt v = c # t \<and> \<not> is_json_space c \<and> c \<noteq> 0x5d \<and> c \<noteq> 0x7d"
proof (cases v)
  case (JNum x)
  assume "json_ok nt v"
  with JNum show ?thesis
    by (cases "print_number nt x") (auto simp: number_ok_def is_json_space_def is_digit_def)
qed (auto simp: js_str quote_json_def is_json_space_def)

lemma skip_space_stringify [simp]: "json_ok nt v \<Longrightarrow> skip_space (stringify nt v @ r) = stringify nt v @ r"
  using stringify_starts [of nt v] by auto

lemma parse_value_skip: "skip_space s = skip_space t \<Longrightarrow> parse_value n s = parse_value n t"
  by (cases n) simp_all

lemma map_update_fresh:
  "distinct (map fst (as @ ms)) \<Longrightarrow> fold (\<lambda>(k, v). AList.update k v) ms as = as @ ms"
proof (induction ms arbitrary: as)
  case (Cons m ms)
  obtain k v where m: "m = (k, v)" by (cases m)
  have "AList.update k v as = as @ [(k, v)]"
    using Cons.prems m by (intro update_fresh) auto
  with Cons.IH [of "as @ [m]"] Cons.prems m show ?case by simp
qed simp

lemma starts_with_single [simp]: "starts_with (c # s) [d] \<longleftrightarrow> c = d"
  by (simp add: starts_with_def)

lemma json_object_distinct: "distinct (map fst ms) \<Longrightarrow> json_object ms = JObj ms"
  using map_update_fresh [of "[]" ms] by (simp add: json_object_def)

text \<open>What reading back a value means for a given text after it, whatever the fuel.\<close>

definition reads_back :: "(rat \<Rightarrow> jsstring) \<Rightarrow> json \<Rightarrow> bool" where
  "reads_back nt v \<longleftrightarrow>
     (\<forall>r n. value_end r \<longrightarrow> 2 * length (stringify nt v @ r) < n \<longrightarrow>
        parse_value n (stringify nt v @ r) = Some (v, r))"

lemma parse_elements_join:
  "vs \<noteq> [] \<Longrightarrow> \<forall>v \<in> set vs. reads_back nt v \<Longrightarrow>
   2 * length (join_with [0x2c] (map (stringify nt) vs) @ 0x5d # r) + 1 < n \<Longrightarrow>
   parse_elements n (join_with [0x2c] (map (stringify nt) vs) @ 0x5d # r) = Some (vs, r)"
proof (induction vs arbitrary: n)
  case (Cons v vs)
  obtain k where n: "n = Suc k" using Cons.prems(3) by (cases n) auto
  show ?case
  proof (cases "vs = []")
    case True
    have "parse_value k (stringify nt v @ 0x5d # r) = Some (v, 0x5d # r)"
      using Cons.prems(2,3) True n by (auto simp: reads_back_def value_end_def)
    with True n show ?thesis by (simp add: is_json_space_def)
  next
    case False
    let ?t = "join_with [0x2c] (map (stringify nt) vs) @ 0x5d # r"
    have t: "join_with [0x2c] (map (stringify nt) (v # vs)) @ 0x5d # r = stringify nt v @ 0x2c # ?t"
      using False by (simp add: join_with_Cons)
    have "parse_value k (stringify nt v @ 0x2c # ?t) = Some (v, 0x2c # ?t)"
      using Cons.prems(2,3) n unfolding t by (auto simp: reads_back_def value_end_def)
    moreover have "parse_elements k ?t = Some (vs, r)"
      using Cons.prems(2,3) n False unfolding t by (intro Cons.IH) auto
    ultimately show ?thesis using n unfolding t by (simp add: is_json_space_def)
  qed
qed simp

lemma parse_members_join:
  fixes nt
  defines "member \<equiv> \<lambda>(k, v). quote_json k @ [0x3a] @ stringify nt v"
  shows "ms \<noteq> [] \<Longrightarrow> \<forall>(k, v) \<in> set ms. code_units k \<and> reads_back nt v \<and> json_ok nt v \<Longrightarrow>
   2 * length (join_with [0x2c] (map member ms) @ 0x7d # r) + 1 < n \<Longrightarrow>
   parse_members n (join_with [0x2c] (map member ms) @ 0x7d # r) = Some (ms, r)"
proof (induction ms arbitrary: n)
  case (Cons m ms)
  obtain key v where m: "m = (key, v)" by (cases m)
  obtain k where n: "n = Suc k" using Cons.prems(3) by (cases n) auto
  have ok: "code_units key" "reads_back nt v" "json_ok nt v" using Cons.prems(2) m by auto
  define t where "t = (if ms = [] then 0x7d # r else 0x2c # join_with [0x2c] (map member ms) @ 0x7d # r)"
  have whole: "join_with [0x2c] (map member (m # ms)) @ 0x7d # r =
      0x22 # quote_body key @ 0x22 # 0x3a # stringify nt v @ t"
    by (simp add: t_def m member_def join_with_Cons quote_json_def)
  have "value_end t" by (simp add: t_def value_end_def)
  then have "parse_value k (stringify nt v @ t) = Some (v, t)"
    using ok Cons.prems(3) n unfolding whole by (auto simp: reads_back_def)
  moreover have "parse_members k (tl t) = Some (ms, r)" if "ms \<noteq> []"
    using Cons.prems(2,3) n that unfolding whole by (auto simp: t_def intro!: Cons.IH)
  ultimately show ?case
    using n ok unfolding whole
    by (simp add: read_quote_body [OF ok(1)] is_json_space_def starts_with_prefix)
      (auto simp: t_def is_json_space_def m)
qed simp

lemma reads_back_atomI:
  "(\<And>r k. value_end r \<Longrightarrow> parse_value (Suc k) (stringify nt v @ r) = Some (v, r)) \<Longrightarrow> reads_back nt v"
  unfolding reads_back_def by (metis less_nat_zero_code not0_implies_Suc)

lemma stringify_reads_back: "json_ok nt v \<Longrightarrow> reads_back nt v"
proof (induction nt v rule: stringify.induct)
  case (3 nt x)
  show ?case
  proof (rule reads_back_atomI)
    fix r k assume "value_end r"
    with 3 obtain c t where "print_number nt x = c # t" "is_digit c \<or> c = 0x2d"
      "read_number (c # t @ r) = Some (x, r)"
      by (cases "print_number nt x") (auto simp: number_ok_def)
    then show "parse_value (Suc k) (stringify nt (JNum x) @ r) = Some (JNum x, r)"
      by (auto simp: is_json_space_def is_digit_def js_str)
  qed
next
  case (4 nt s)
  then show ?case
    by (intro reads_back_atomI) (simp add: quote_json_def is_json_space_def read_quote_body)
next
  case (5 nt vs)
  show ?case
    unfolding reads_back_def
  proof (intro allI impI)
    fix r n
    assume r: "value_end r" and n: "2 * length (stringify nt (JArr vs) @ r) < n"
    obtain k where k: "n = Suc k" using n by (cases n) auto
    let ?t = "join_with [0x2c] (map (stringify nt) vs) @ 0x5d # r"
    show "parse_value n (stringify nt (JArr vs) @ r) = Some (JArr vs, r)"
    proof (cases vs)
      case (Cons v ws)
      obtain c t where "?t = c # t" "\<not> is_json_space c" "c \<noteq> 0x5d"
        using stringify_starts [of nt v] 5(2) Cons by (cases ws) auto
      moreover have "parse_elements k ?t = Some (vs, r)"
        using 5 n k Cons by (intro parse_elements_join) auto
      ultimately show ?thesis using k by (simp add: is_json_space_def starts_with_prefix)
    qed (simp add: k is_json_space_def)
  qed
next
  case (6 nt ms)
  show ?case
    unfolding reads_back_def
  proof (intro allI impI)
    fix r n
    assume r: "value_end r" and n: "2 * length (stringify nt (JObj ms) @ r) < n"
    obtain k where k: "n = Suc k" using n by (cases n) auto
    let ?t = "join_with [0x2c] (map (\<lambda>(k, v). quote_json k @ [0x3a] @ stringify nt v) ms) @ 0x7d # r"
    show "parse_value n (stringify nt (JObj ms) @ r) = Some (JObj ms, r)"
    proof (cases ms)
      case (Cons m ws)
      obtain t where "?t = 0x22 # t"
        by (cases ws; cases m) (auto simp: Cons quote_json_def)
      moreover have "parse_members k ?t = Some (ms, r)"
        using 6 n k Cons by (intro parse_members_join) fastforce+
      ultimately show ?thesis
        using k 6(2) by (simp add: is_json_space_def starts_with_prefix json_object_distinct)
    qed (simp add: k is_json_space_def)
  qed
qed (auto intro!: reads_back_atomI simp: is_json_space_def js_str)

lemma reads_backD:
  "reads_back nt v \<Longrightarrow> value_end r \<Longrightarrow> 2 * length (stringify nt v @ r) < n \<Longrightarrow>
   parse_value n (stringify nt v @ r) = Some (v, r)"
  by (simp add: reads_back_def)

lemma parse_stringify: "json_ok nt v \<Longrightarrow> parse_json (stringify nt v) = Some v"
  using reads_backD [OF stringify_reads_back, of nt v "[]" "2 * length (stringify nt v) + 1"]
  by (simp add: parse_json_def value_end_def)

end
