(* ===== verification/Drafts.thy ===== *)
theory Drafts
  imports Json Messages
begin

text \<open>
  The drafts of the memo editor in the browser's storage
  (\<^verbatim>\<open>components/MemoEditor/services/cacheService.ts\<close>): the text a draft is stored as, the debounced and
  the immediate save, loading and clearing. The window's timeouts are part of the state: a timeout fires
  as a step of its own. The JSON form of an attachment is the protobuf library's: \<open>att_codec\<close>. The
  storage is assumed to accept every write.
\<close>

section \<open>The stored text\<close>

record att_codec =
  toJson :: "Attachment \<Rightarrow> json"
  fromJson :: "json \<Rightarrow> Attachment option"
  number_text :: "rat \<Rightarrow> jsstring"

record EditorDraft =
  dr_content :: jsstring
  dr_attachments :: "Attachment list"

definition STRUCTURED_CACHE_ENTRY_KIND :: jsstring where
  "STRUCTURED_CACHE_ENTRY_KIND = js ''memos.editor-cache''"

definition STRUCTURED_CACHE_ENTRY_VERSION :: rat where
  "STRUCTURED_CACHE_ENTRY_VERSION = 2"

definition deserializeDraft :: "att_codec \<Rightarrow> jsstring \<Rightarrow> EditorDraft" where
  "deserializeDraft cd raw =
     (let plain = \<lparr>dr_content = raw, dr_attachments = []\<rparr> in
      case parse_json raw of
        None \<Rightarrow> plain
      | Some parsed \<Rightarrow>
          if json_get parsed ''kind'' = Some (Some (JStr STRUCTURED_CACHE_ENTRY_KIND)) then
            (case (json_get parsed ''version'', json_get parsed ''content'') of
               (Some (Some (JNum v)), Some (Some (JStr content))) \<Rightarrow>
                 if v = 1 then \<lparr>dr_content = content, dr_attachments = []\<rparr>
                 else if v = STRUCTURED_CACHE_ENTRY_VERSION then
                   \<lparr>dr_content = content,
                    dr_attachments =
                      (case json_get parsed ''attachments'' of
                         Some (Some (JArr values)) \<Rightarrow> List.map_filter (fromJson cd) values
                       | _ \<Rightarrow> [])\<rparr>
                 else plain
             | _ \<Rightarrow> plain)
          else plain)"

definition serializeDraft :: "att_codec \<Rightarrow> jsstring \<Rightarrow> Attachment list \<Rightarrow> jsstring" where
  "serializeDraft cd content attachments =
     (if attachments = [] then content
      else stringify (number_text cd)
        (JObj [(js ''kind'', JStr STRUCTURED_CACHE_ENTRY_KIND),
               (js ''version'', JNum STRUCTURED_CACHE_ENTRY_VERSION),
               (js ''content'', JStr content),
               (js ''attachments'', JArr (map (toJson cd) attachments))]))"

section \<open>The cache\<close>

type_synonym unsaved = "jsstring \<times> jsstring \<times> Attachment list"

record draft_cache =
  dc_storage :: "jsstring \<rightharpoonup> jsstring"
  dc_timers :: "(nat \<times> unsaved) list"
  pendingSaves :: "(jsstring \<times> nat) list"
  cursors :: "jsstring \<rightharpoonup> int"
  dc_next :: nat

definition writeEntry ::
    "att_codec \<Rightarrow> jsstring \<Rightarrow> jsstring \<Rightarrow> Attachment list \<Rightarrow> draft_cache \<Rightarrow> draft_cache" where
  "writeEntry cd key content attachments dc =
     (if trim content \<noteq> [] \<or> attachments \<noteq> []
      then dc\<lparr>dc_storage := (dc_storage dc)(key \<mapsto> serializeDraft cd content attachments)\<rparr>
      else dc\<lparr>dc_storage := (dc_storage dc)(key := None)\<rparr>)"

definition clearTimeout :: "nat \<Rightarrow> draft_cache \<Rightarrow> draft_cache" where
  "clearTimeout i dc = dc\<lparr>dc_timers := AList.delete i (dc_timers dc)\<rparr>"

definition cache_key :: "jsstring \<Rightarrow> jsstring option \<Rightarrow> jsstring" where
  "cache_key username cacheKey = username @ js ''-'' @ or_empty cacheKey"

definition cache_save ::
    "jsstring \<Rightarrow> jsstring \<Rightarrow> Attachment list \<Rightarrow> draft_cache \<Rightarrow> draft_cache" where
  "cache_save key content attachments dc =
     (let dc1 = (case map_of (pendingSaves dc) key of
                   Some i \<Rightarrow> if i \<noteq> 0 then clearTimeout i dc else dc
                 | None \<Rightarrow> dc);
          timeoutId = dc_next dc1
      in dc1\<lparr>dc_timers := dc_timers dc1 @ [(timeoutId, key, content, attachments)],
             dc_next := Suc timeoutId,
             pendingSaves := AList.update key timeoutId (pendingSaves dc1)\<rparr>)"

text \<open>The callback of a timeout.\<close>

definition cache_fire :: "att_codec \<Rightarrow> nat \<Rightarrow> draft_cache \<Rightarrow> draft_cache" where
  "cache_fire cd i dc =
     (case map_of (dc_timers dc) i of
        None \<Rightarrow> dc
      | Some (key, content, attachments) \<Rightarrow>
          let dc1 = clearTimeout i dc
          in writeEntry cd key content attachments
               (dc1\<lparr>pendingSaves := AList.delete key (pendingSaves dc1)\<rparr>))"

definition cancel_pending :: "jsstring \<Rightarrow> draft_cache \<Rightarrow> draft_cache" where
  "cancel_pending key dc =
     (case map_of (pendingSaves dc) key of
        Some i \<Rightarrow>
          if i \<noteq> 0 then (clearTimeout i dc)\<lparr>pendingSaves := AList.delete key (pendingSaves dc)\<rparr> else dc
      | None \<Rightarrow> dc)"

definition saveNow ::
    "att_codec \<Rightarrow> jsstring \<Rightarrow> jsstring \<Rightarrow> Attachment list \<Rightarrow> draft_cache \<Rightarrow> draft_cache" where
  "saveNow cd key content attachments dc = writeEntry cd key content attachments (cancel_pending key dc)"

definition loadDraft :: "att_codec \<Rightarrow> jsstring \<Rightarrow> draft_cache \<Rightarrow> EditorDraft" where
  "loadDraft cd key dc =
     (case or_undefined (dc_storage dc key) of
        None \<Rightarrow> \<lparr>dr_content = [], dr_attachments = []\<rparr>
      | Some raw \<Rightarrow> deserializeDraft cd raw)"

definition load_content :: "att_codec \<Rightarrow> jsstring \<Rightarrow> draft_cache \<Rightarrow> jsstring" where
  "load_content cd key dc =
     (case or_undefined (dc_storage dc key) of
        None \<Rightarrow> []
      | Some raw \<Rightarrow> dr_content (deserializeDraft cd raw))"

definition saveCursor :: "jsstring \<Rightarrow> int \<Rightarrow> draft_cache \<Rightarrow> draft_cache" where
  "saveCursor key cursor dc = dc\<lparr>cursors := (cursors dc)(key \<mapsto> cursor)\<rparr>"

definition loadCursor :: "jsstring \<Rightarrow> draft_cache \<Rightarrow> int option" where
  "loadCursor key dc = cursors dc key"

definition cache_clear :: "jsstring \<Rightarrow> draft_cache \<Rightarrow> draft_cache" where
  "cache_clear key dc =
     (let dc1 = cancel_pending key dc
      in dc1\<lparr>dc_storage := (dc_storage dc1)(key := None), cursors := (cursors dc1)(key := None)\<rparr>)"

definition clearAll :: "draft_cache \<Rightarrow> draft_cache" where
  "clearAll dc =
     (fold clearTimeout (map snd (pendingSaves dc)) dc)\<lparr>pendingSaves := [], cursors := Map.empty\<rparr>"

text \<open>The timeout identifiers of a window start at one.\<close>

definition cache_start :: "(jsstring \<rightharpoonup> jsstring) \<Rightarrow> draft_cache" where
  "cache_start storage =
     \<lparr>dc_storage = storage, dc_timers = [], pendingSaves = [], cursors = Map.empty, dc_next = 1\<rparr>"

datatype cache_action =
    Save jsstring jsstring "Attachment list"
  | Fire nat
  | Save_now jsstring jsstring "Attachment list"
  | Save_cursor jsstring int
  | Clear jsstring
  | Clear_all

fun cache_step :: "att_codec \<Rightarrow> draft_cache \<Rightarrow> cache_action \<Rightarrow> draft_cache" where
  "cache_step cd dc (Save k c as) = cache_save k c as dc"
| "cache_step cd dc (Fire i) = cache_fire cd i dc"
| "cache_step cd dc (Save_now k c as) = saveNow cd k c as dc"
| "cache_step cd dc (Save_cursor k n) = saveCursor k n dc"
| "cache_step cd dc (Clear k) = cache_clear k dc"
| "cache_step cd dc Clear_all = clearAll dc"

section \<open>What the cache promises\<close>

text \<open>
  The specification knows no timeouts: for every key the stored text, the draft not yet written and the
  cursor.
\<close>

record draft_spec =
  sp_stored :: "jsstring \<rightharpoonup> jsstring"
  sp_unsaved :: "jsstring \<rightharpoonup> jsstring \<times> Attachment list"
  sp_cursor :: "jsstring \<rightharpoonup> int"

definition entry_text :: "att_codec \<Rightarrow> jsstring \<Rightarrow> Attachment list \<Rightarrow> jsstring option" where
  "entry_text cd content attachments =
     (if trim content \<noteq> [] \<or> attachments \<noteq> [] then Some (serializeDraft cd content attachments) else None)"

datatype spec_action =
    Edit jsstring jsstring "Attachment list"
  | Flush jsstring
  | Write jsstring jsstring "Attachment list"
  | Move jsstring int
  | Forget jsstring
  | Forget_unsaved
  | Skip

fun spec_step :: "att_codec \<Rightarrow> draft_spec \<Rightarrow> spec_action \<Rightarrow> draft_spec" where
  "spec_step cd sp (Edit k c as) = sp\<lparr>sp_unsaved := (sp_unsaved sp)(k \<mapsto> (c, as))\<rparr>"
| "spec_step cd sp (Flush k) =
     (case sp_unsaved sp k of
        None \<Rightarrow> sp
      | Some (c, as) \<Rightarrow>
          sp\<lparr>sp_stored := (sp_stored sp)(k := entry_text cd c as), sp_unsaved := (sp_unsaved sp)(k := None)\<rparr>)"
| "spec_step cd sp (Write k c as) =
     sp\<lparr>sp_stored := (sp_stored sp)(k := entry_text cd c as), sp_unsaved := (sp_unsaved sp)(k := None)\<rparr>"
| "spec_step cd sp (Move k n) = sp\<lparr>sp_cursor := (sp_cursor sp)(k \<mapsto> n)\<rparr>"
| "spec_step cd sp (Forget k) =
     \<lparr>sp_stored = (sp_stored sp)(k := None), sp_unsaved = (sp_unsaved sp)(k := None),
      sp_cursor = (sp_cursor sp)(k := None)\<rparr>"
| "spec_step cd sp Forget_unsaved = sp\<lparr>sp_unsaved := Map.empty, sp_cursor := Map.empty\<rparr>"
| "spec_step cd sp Skip = sp"

definition unsaved_of :: "draft_cache \<Rightarrow> jsstring \<rightharpoonup> jsstring \<times> Attachment list" where
  "unsaved_of dc k =
     (case map_of (pendingSaves dc) k of
        None \<Rightarrow> None
      | Some i \<Rightarrow> map_option snd (map_of (dc_timers dc) i))"

definition abs_cache :: "draft_cache \<Rightarrow> draft_spec" where
  "abs_cache dc = \<lparr>sp_stored = dc_storage dc, sp_unsaved = unsaved_of dc, sp_cursor = cursors dc\<rparr>"

text \<open>A timeout flushes the key it was set for; a timeout that is not set does nothing.\<close>

fun abs_action :: "draft_cache \<Rightarrow> cache_action \<Rightarrow> spec_action" where
  "abs_action dc (Save k c as) = Edit k c as"
| "abs_action dc (Fire i) = (case map_of (dc_timers dc) i of None \<Rightarrow> Skip | Some (k, _) \<Rightarrow> Flush k)"
| "abs_action dc (Save_now k c as) = Write k c as"
| "abs_action dc (Save_cursor k n) = Move k n"
| "abs_action dc (Clear k) = Forget k"
| "abs_action dc Clear_all = Forget_unsaved"

text \<open>The timeouts that are set and the pending saves are the same relation, one timeout for a key.\<close>

definition cache_inv :: "draft_cache \<Rightarrow> bool" where
  "cache_inv dc \<longleftrightarrow> 0 < dc_next dc \<and>
     (\<forall>i k c as. map_of (dc_timers dc) i = Some (k, c, as) \<longrightarrow>
        0 < i \<and> i < dc_next dc \<and> map_of (pendingSaves dc) k = Some i) \<and>
     (\<forall>k i. map_of (pendingSaves dc) k = Some i \<longrightarrow> (\<exists>c as. map_of (dc_timers dc) i = Some (k, c, as)))"

lemma cache_invI:
  assumes "0 < dc_next dc"
    and "\<And>i k c as. map_of (dc_timers dc) i = Some (k, c, as) \<Longrightarrow>
      0 < i \<and> i < dc_next dc \<and> map_of (pendingSaves dc) k = Some i"
    and "\<And>k i. map_of (pendingSaves dc) k = Some i \<Longrightarrow> \<exists>c as. map_of (dc_timers dc) i = Some (k, c, as)"
  shows "cache_inv dc"
  using assms unfolding cache_inv_def by blast

lemma cache_invD:
  assumes "cache_inv dc"
  shows "0 < dc_next dc"
    and "map_of (dc_timers dc) i = Some (k, c, as) \<Longrightarrow>
      0 < i \<and> i < dc_next dc \<and> map_of (pendingSaves dc) k = Some i"
    and "map_of (pendingSaves dc) k = Some i \<Longrightarrow> \<exists>c as. map_of (dc_timers dc) i = Some (k, c, as)"
  using assms unfolding cache_inv_def by blast+

lemma clearTimeout_simps [simp]:
  "map_of (dc_timers (clearTimeout i dc)) = (map_of (dc_timers dc))(i := None)"
  "dc_storage (clearTimeout i dc) = dc_storage dc" "pendingSaves (clearTimeout i dc) = pendingSaves dc"
  "cursors (clearTimeout i dc) = cursors dc" "dc_next (clearTimeout i dc) = dc_next dc"
  by (simp_all add: clearTimeout_def delete_conv')

lemma writeEntry_simps [simp]:
  "dc_storage (writeEntry cd k c as dc) = (dc_storage dc)(k := entry_text cd c as)"
  "dc_timers (writeEntry cd k c as dc) = dc_timers dc" "pendingSaves (writeEntry cd k c as dc) = pendingSaves dc"
  "cursors (writeEntry cd k c as dc) = cursors dc" "dc_next (writeEntry cd k c as dc) = dc_next dc"
  by (auto simp: writeEntry_def entry_text_def)

text \<open>Taking the timeout of a key away, with its pending entry: the step all the writing operations share.\<close>

lemma drop_timer:
  assumes inv: "cache_inv dc" and i: "map_of (dc_timers dc) i = Some (k, u)"
    and dc': "map_of (dc_timers dc') = (map_of (dc_timers dc))(i := None)"
      "map_of (pendingSaves dc') = (map_of (pendingSaves dc))(k := None)" "dc_next dc' = dc_next dc"
  shows "cache_inv dc'" "unsaved_of dc' = (unsaved_of dc)(k := None)"
proof -
  note D = cache_invD [OF inv]
  obtain c as where u: "u = (c, as)" by (cases u)
  have ki: "map_of (pendingSaves dc) k = Some i" using D(2) i u by blast
  have same: "l = k" if "map_of (pendingSaves dc) l = Some i" for l
    using D(3) [OF that] i by auto
  show "cache_inv dc'"
  proof (rule cache_invI)
    fix j l c as assume j: "map_of (dc_timers dc') j = Some (l, c, as)"
    then have "j \<noteq> i" "map_of (dc_timers dc) j = Some (l, c, as)" by (auto simp: dc' split: if_splits)
    then show "0 < j \<and> j < dc_next dc' \<and> map_of (pendingSaves dc') l = Some j"
      using D(2) [of j l c as] ki by (auto simp: dc')
  next
    fix l j assume "map_of (pendingSaves dc') l = Some j"
    then have "l \<noteq> k" "map_of (pendingSaves dc) l = Some j" by (auto simp: dc' split: if_splits)
    then show "\<exists>c as. map_of (dc_timers dc') j = Some (l, c, as)"
      using D(3) [of l j] same by (auto simp: dc')
  qed (use D(1) in \<open>simp add: dc'\<close>)
  show "unsaved_of dc' = (unsaved_of dc)(k := None)"
    using same by (auto simp: fun_eq_iff unsaved_of_def dc' split: option.splits)
qed

lemma cancel_pending_inv:
  assumes inv: "cache_inv dc"
  shows "cache_inv (cancel_pending k dc)" "unsaved_of (cancel_pending k dc) = (unsaved_of dc)(k := None)"
    "dc_storage (cancel_pending k dc) = dc_storage dc" "cursors (cancel_pending k dc) = cursors dc"
proof -
  note D = cache_invD [OF inv]
  have "cache_inv (cancel_pending k dc) \<and> unsaved_of (cancel_pending k dc) = (unsaved_of dc)(k := None)"
  proof (cases "map_of (pendingSaves dc) k")
    case None
    then show ?thesis using inv by (auto simp: cancel_pending_def unsaved_of_def fun_eq_iff)
  next
    case (Some i)
    then obtain u where "map_of (dc_timers dc) i = Some (k, u)" "i \<noteq> 0"
      using D(3) [OF Some] D(2) by fastforce
    then show ?thesis
      using drop_timer [OF inv, of i k u "cancel_pending k dc"] Some
      by (simp add: cancel_pending_def delete_conv')
  qed
  then show "cache_inv (cancel_pending k dc)" "unsaved_of (cancel_pending k dc) = (unsaved_of dc)(k := None)"
    by auto
qed (auto simp: cancel_pending_def split: option.splits)

lemma unsaved_cong:
  "dc_timers dc' = dc_timers dc \<Longrightarrow> pendingSaves dc' = pendingSaves dc \<Longrightarrow> unsaved_of dc' = unsaved_of dc"
  by (simp add: fun_eq_iff unsaved_of_def split: option.split)

lemma cache_inv_cong:
  "dc_timers dc' = dc_timers dc \<Longrightarrow> pendingSaves dc' = pendingSaves dc \<Longrightarrow> dc_next dc' = dc_next dc \<Longrightarrow>
   cache_inv dc' = cache_inv dc"
  by (simp add: cache_inv_def)

lemma cache_save_cancel:
  "map_of (pendingSaves (cache_save k c as dc)) = (map_of (pendingSaves (cancel_pending k dc)))(k \<mapsto> dc_next dc)"
  "dc_timers (cache_save k c as dc) = dc_timers (cancel_pending k dc) @ [(dc_next dc, k, c, as)]"
  "dc_storage (cache_save k c as dc) = dc_storage dc" "cursors (cache_save k c as dc) = cursors dc"
  "dc_next (cache_save k c as dc) = Suc (dc_next dc)" "dc_next (cancel_pending k dc) = dc_next dc"
  by (auto simp: cache_save_def cancel_pending_def Let_def update_conv' delete_conv' fun_eq_iff split: option.splits)

lemma cache_save_refines:
  assumes "cache_inv dc"
  shows "cache_inv (cache_save k c as dc)"
    and "abs_cache (cache_save k c as dc) = spec_step cd (abs_cache dc) (Edit k c as)"
proof -
  let ?d = "cancel_pending k dc"
  note inv = cancel_pending_inv [OF assms, of k]
  note D = cache_invD [OF inv(1)]
  note S = cache_save_cancel
  have fresh: "map_of (dc_timers ?d) (dc_next dc) = None"
    using D(2) [of "dc_next dc"] S(6) by (cases "map_of (dc_timers ?d) (dc_next dc)") auto
  then have T: "map_of (dc_timers (cache_save k c as dc)) = (map_of (dc_timers ?d))(dc_next dc \<mapsto> (k, c, as))"
    by (auto simp: S fun_eq_iff map_add_def split: option.split)
  have nk: "map_of (dc_timers ?d) i \<noteq> Some (k, u)" for i u
  proof
    assume "map_of (dc_timers ?d) i = Some (k, u)"
    then have "unsaved_of ?d k = Some u"
      using D(2) [of i k "fst u" "snd u"] by (simp add: unsaved_of_def)
    then show False using inv(2) by simp
  qed
  have np: "map_of (pendingSaves ?d) l \<noteq> Some (dc_next dc)" for l
    using D(3) [of l "dc_next dc"] fresh by auto
  show "cache_inv (cache_save k c as dc)"
  proof (rule cache_invI)
    fix i l c' as' assume "map_of (dc_timers (cache_save k c as dc)) i = Some (l, c', as')"
    then show "0 < i \<and> i < dc_next (cache_save k c as dc) \<and> map_of (pendingSaves (cache_save k c as dc)) l = Some i"
      using D(1) D(2) [of i l c' as'] nk [of i] S by (auto simp: T split: if_splits)
  next
    fix l i assume "map_of (pendingSaves (cache_save k c as dc)) l = Some i"
    then show "\<exists>c' as'. map_of (dc_timers (cache_save k c as dc)) i = Some (l, c', as')"
      using D(3) [of l i] np [of l] S(1) by (auto simp: T split: if_splits)
  qed (simp add: S)
  have "unsaved_of (cache_save k c as dc) = (unsaved_of ?d)(k \<mapsto> (c, as))"
    using np by (auto simp: fun_eq_iff unsaved_of_def T S(1) split: option.splits)
  then show "abs_cache (cache_save k c as dc) = spec_step cd (abs_cache dc) (Edit k c as)"
    using inv(2) by (simp add: abs_cache_def S)
qed

lemma cache_fire_refines:
  assumes inv: "cache_inv dc"
  shows "cache_inv (cache_fire cd i dc)"
    and "abs_cache (cache_fire cd i dc) = spec_step cd (abs_cache dc) (abs_action dc (Fire i))"
proof -
  have "cache_inv (cache_fire cd i dc) \<and>
    abs_cache (cache_fire cd i dc) = spec_step cd (abs_cache dc) (abs_action dc (Fire i))"
  proof (cases "map_of (dc_timers dc) i")
    case None
    then show ?thesis using inv by (simp add: cache_fire_def)
  next
    case (Some u)
    obtain k c as where u: "u = (k, c, as)" by (cases u)
    have "map_of (pendingSaves dc) k = Some i" using cache_invD(2) [OF inv, of i k c as] Some u by simp
    then have "unsaved_of dc k = Some (c, as)" using Some u by (simp add: unsaved_of_def)
    moreover have "cache_inv (cache_fire cd i dc)" "unsaved_of (cache_fire cd i dc) = (unsaved_of dc)(k := None)"
      using drop_timer [OF inv, of i k "(c, as)" "cache_fire cd i dc"] Some u
      by (simp_all add: cache_fire_def Let_def delete_conv')
    ultimately show ?thesis using Some u by (simp add: abs_cache_def) (simp add: cache_fire_def Let_def)
  qed
  then show "cache_inv (cache_fire cd i dc)"
    "abs_cache (cache_fire cd i dc) = spec_step cd (abs_cache dc) (abs_action dc (Fire i))" by auto
qed

lemma fold_clearTimeout:
  "map_of (dc_timers (fold clearTimeout is dc)) i = (if i \<in> set is then None else map_of (dc_timers dc) i)"
  "dc_storage (fold clearTimeout is dc) = dc_storage dc" "dc_next (fold clearTimeout is dc) = dc_next dc"
  by (induction "is" arbitrary: dc) auto

lemma clearAll_refines:
  assumes inv: "cache_inv dc"
  shows "cache_inv (clearAll dc)" "abs_cache (clearAll dc) = spec_step cd (abs_cache dc) Forget_unsaved"
proof -
  have "i \<in> snd ` set (pendingSaves dc)" if "map_of (dc_timers dc) i = Some (k, c, as)" for i k c as
    using cache_invD(2) [OF inv that] by (force dest: map_of_SomeD)
  then have "map_of (dc_timers (fold clearTimeout (map snd (pendingSaves dc)) dc)) i = None" for i
    by (cases "map_of (dc_timers dc) i") (auto simp: fold_clearTimeout)
  then show "cache_inv (clearAll dc)" "abs_cache (clearAll dc) = spec_step cd (abs_cache dc) Forget_unsaved"
    using cache_invD(1) [OF inv]
    by (auto simp: clearAll_def abs_cache_def unsaved_of_def fun_eq_iff fold_clearTimeout intro!: cache_invI)
qed

lemma cache_step_refines:
  assumes "cache_inv dc"
  shows "cache_inv (cache_step cd dc a) \<and> abs_cache (cache_step cd dc a) = spec_step cd (abs_cache dc) (abs_action dc a)"
proof (cases a)
  case (Save k c as)
  then show ?thesis using cache_save_refines [OF assms] by simp
next
  case (Fire i)
  then show ?thesis using cache_fire_refines [OF assms] by simp
next
  case (Save_now k c as)
  with cancel_pending_inv [OF assms, of k] show ?thesis
    by (simp add: saveNow_def abs_cache_def cache_inv_cong [of "writeEntry cd k c as (cancel_pending k dc)"]
        unsaved_cong [of "writeEntry cd k c as (cancel_pending k dc)"])
next
  case (Save_cursor k n)
  then show ?thesis
    using assms cache_inv_cong [of "saveCursor k n dc" dc] unsaved_cong [of "saveCursor k n dc" dc]
    by (simp add: saveCursor_def abs_cache_def)
next
  case (Clear k)
  with cancel_pending_inv [OF assms, of k] show ?thesis
    using cache_inv_cong [of "cache_clear k dc" "cancel_pending k dc"]
      unsaved_cong [of "cache_clear k dc" "cancel_pending k dc"]
    by (simp add: cache_clear_def Let_def abs_cache_def)
next
  case Clear_all
  then show ?thesis using clearAll_refines [OF assms] by simp
qed

lemma abs_cache_sel [simp]:
  "sp_unsaved (abs_cache dc) = unsaved_of dc" "sp_stored (abs_cache dc) = dc_storage dc"
  "sp_cursor (abs_cache dc) = cursors dc"
  by (simp_all add: abs_cache_def)

lemma cache_step_sel:
  assumes "cache_inv dc"
  shows "cache_inv (cache_step cd dc a)"
    and "unsaved_of (cache_step cd dc a) = sp_unsaved (spec_step cd (abs_cache dc) (abs_action dc a))"
    and "dc_storage (cache_step cd dc a) = sp_stored (spec_step cd (abs_cache dc) (abs_action dc a))"
  using cache_step_refines [OF assms, of cd a] by (metis abs_cache_sel)+

interpretation drafts: reducer "cache_step cd" "\<lambda>_ _. True" cache_inv
  by unfold_locales (simp add: cache_step_refines)

lemma cache_inv_start: "cache_inv (cache_start storage)"
  by (rule cache_invI) (simp_all add: cache_start_def)

lemma reachable_inv: "cache_inv (foldl (cache_step cd) (cache_start storage) actions)"
proof -
  have "legal_run (cache_step cd) (\<lambda>_ _. True) s as" for s as
    by (induction as arbitrary: s) simp_all
  then show ?thesis by (intro drafts.run_inv cache_inv_start)
qed

section \<open>Properties of the cache\<close>

text \<open>
  C18. The debounced cache implements the specification without timeouts: in every reachable state each
  operation, and each timeout that fires, changes the stored texts, the unsaved drafts and the cursors
  as the specification says.
\<close>

theorem draft_cache_refines:
  assumes "dc = foldl (cache_step cd) (cache_start storage) actions"
  shows "abs_cache (cache_step cd dc a) = spec_step cd (abs_cache dc) (abs_action dc a)"
  using cache_step_refines [OF reachable_inv] assms by blast

definition sample_codec :: att_codec where
  "sample_codec = \<lparr>toJson = (\<lambda>_. JNull), fromJson = (\<lambda>_. Some empty_attachment), number_text = (\<lambda>_. [])\<rparr>"

theorem draft_cache_refines_witness:
  "abs_cache (cache_step sample_codec (foldl (cache_step sample_codec) (cache_start Map.empty)
       [Save (js ''k'') (js ''a'') [], Save (js ''k'') (js ''b'') []]) (Fire 2)) =
   spec_step sample_codec (abs_cache (foldl (cache_step sample_codec) (cache_start Map.empty)
       [Save (js ''k'') (js ''a'') [], Save (js ''k'') (js ''b'') []])) (Flush (js ''k''))"
  using draft_cache_refines [OF refl, of sample_codec Map.empty
      "[Save (js ''k'') (js ''a'') [], Save (js ''k'') (js ''b'') []]" "Fire 2"]
  by (simp add: cache_start_def cache_save_def clearTimeout_def Let_def js_str)

text \<open>The actions that write or forget the draft of a key.\<close>

fun touches :: "jsstring \<Rightarrow> cache_action \<Rightarrow> bool" where
  "touches k (Save l c as) = (l = k)"
| "touches k (Save_now l c as) = (l = k)"
| "touches k (Clear l) = (l = k)"
| "touches k Clear_all = True"
| "touches k _ = False"

fun saves :: "jsstring \<Rightarrow> cache_action \<Rightarrow> bool" where
  "saves k (Save l c as) = (l = k)"
| "saves k (Save_now l c as) = (l = k)"
| "saves k _ = False"

text \<open>One key of the specification under an action that does not touch it.\<close>

lemma spec_untouched:
  assumes "\<not> touches k a"
  shows "(sp_unsaved (spec_step cd sp (abs_action dc a)) k = sp_unsaved sp k \<and>
      sp_stored (spec_step cd sp (abs_action dc a)) k = sp_stored sp k) \<or>
    (\<exists>c as. sp_unsaved sp k = Some (c, as) \<and> sp_unsaved (spec_step cd sp (abs_action dc a)) k = None \<and>
      sp_stored (spec_step cd sp (abs_action dc a)) k = entry_text cd c as)"
  using assms by (cases a) (auto split: option.splits prod.splits)

lemma spec_cleared:
  assumes "\<not> saves k a" "sp_unsaved sp k = None" "sp_stored sp k = None"
  shows "sp_unsaved (spec_step cd sp (abs_action dc a)) k = None \<and>
    sp_stored (spec_step cd sp (abs_action dc a)) k = None"
  using assms by (cases a) (auto split: option.splits prod.splits)

lemma cleared_run:
  assumes "cache_inv dc" "unsaved_of dc k = None" "dc_storage dc k = None" "\<forall>a \<in> set later. \<not> saves k a"
  shows "dc_storage (foldl (cache_step cd) dc later) k = None"
  using assms
proof (induction later arbitrary: dc)
  case (Cons a later)
  note r = cache_step_sel [OF Cons.prems(1), of cd a]
  have "unsaved_of (cache_step cd dc a) k = None \<and> dc_storage (cache_step cd dc a) k = None"
    using spec_cleared [of k a "abs_cache dc" cd dc] Cons.prems(2-4) r by simp
  then show ?case using Cons.IH [of "cache_step cd dc a"] Cons.prems(4) r by simp
qed simp

text \<open>
  A cleared draft does not come back: after clearing a key no timeout set earlier writes it again, so
  its storage stays empty until the next save of that key.
\<close>

lemma cleared_draft_stays_cleared:
  assumes "\<forall>a \<in> set later. \<not> saves k a"
  shows "dc_storage (foldl (cache_step cd) (cache_start storage) (earlier @ [Clear k] @ later)) k = None"
proof -
  let ?dc = "foldl (cache_step cd) (cache_start storage) earlier"
  have inv: "cache_inv ?dc" by (rule reachable_inv)
  show ?thesis
    using cleared_run [of "cache_step cd ?dc (Clear k)" k later cd] cache_step_sel [OF inv, of cd "Clear k"] assms
    by simp
qed

lemma cleared_draft_stays_cleared_witness:
  "dc_storage (foldl (cache_step sample_codec) (cache_start Map.empty)
     ([Save (js ''k'') (js ''a'') []] @ [Clear (js ''k'')] @ [Fire 1])) (js ''k'') = None"
  by (rule cleared_draft_stays_cleared) simp

lemma untouched_run:
  assumes "cache_inv dc" "\<forall>a \<in> set later. \<not> touches k a"
    and "unsaved_of dc k = Some (c, as) \<or> (unsaved_of dc k = None \<and> dc_storage dc k = entry_text cd c as)"
  shows "unsaved_of (foldl (cache_step cd) dc later) k = Some (c, as) \<or>
    dc_storage (foldl (cache_step cd) dc later) k = entry_text cd c as"
  using assms
proof (induction later arbitrary: dc)
  case (Cons a later)
  note r = cache_step_sel [OF Cons.prems(1), of cd a]
  have "unsaved_of (cache_step cd dc a) k = Some (c, as) \<or>
    (unsaved_of (cache_step cd dc a) k = None \<and> dc_storage (cache_step cd dc a) k = entry_text cd c as)"
    using spec_untouched [of k a cd "abs_cache dc" dc] Cons.prems(2,3) r by auto
  then show ?case using Cons.IH [of "cache_step cd dc a"] Cons.prems(2) r by simp
qed auto

lemma unsaved_timer:
  assumes inv: "cache_inv dc" and "unsaved_of dc k = Some (c, as)"
  shows "\<exists>i. map_of (dc_timers dc) i = Some (k, c, as) \<and>
    dc_storage (cache_step cd dc (Fire i)) k = entry_text cd c as"
proof -
  obtain i where i: "map_of (pendingSaves dc) k = Some i" "map_of (dc_timers dc) i = Some (k, c, as)"
    using assms(2) cache_invD(3) [OF inv] by (fastforce simp: unsaved_of_def split: option.splits)
  then show ?thesis by (intro exI [of _ i]) (simp add: cache_fire_def Let_def)
qed

text \<open>
  C19. An edit is not lost: whatever happens to other keys after a debounced save, its text is stored, or
  a timeout is set whose firing stores it.
\<close>

theorem edit_is_written:
  assumes "\<forall>a \<in> set later. \<not> touches k a"
    and "dc = foldl (cache_step cd) (cache_start storage) (earlier @ [Save k c as] @ later)"
  shows "dc_storage dc k = entry_text cd c as \<or>
    (\<exists>i. map_of (dc_timers dc) i = Some (k, c, as) \<and>
      dc_storage (cache_step cd dc (Fire i)) k = entry_text cd c as)"
proof -
  let ?dc = "cache_step cd (foldl (cache_step cd) (cache_start storage) earlier) (Save k c as)"
  have inv: "cache_inv (foldl (cache_step cd) (cache_start storage) earlier)" by (rule reachable_inv)
  note r = cache_step_sel [OF inv, of cd "Save k c as"]
  then have "unsaved_of ?dc k = Some (c, as)" by simp
  then have "unsaved_of dc k = Some (c, as) \<or> dc_storage dc k = entry_text cd c as"
    using untouched_run [of ?dc later k c as cd] r assms by simp
  moreover have "cache_inv dc" unfolding assms(2) by (rule reachable_inv)
  ultimately show ?thesis using unsaved_timer by blast
qed

theorem edit_is_written_witness:
  "\<exists>i. map_of (dc_timers (foldl (cache_step sample_codec) (cache_start Map.empty)
      ([] @ [Save (js ''k'') (js ''a'') []] @ [Save (js ''l'') (js ''b'') []]))) i = Some (js ''k'', js ''a'', []) \<and>
     dc_storage (cache_step sample_codec (foldl (cache_step sample_codec) (cache_start Map.empty)
      ([] @ [Save (js ''k'') (js ''a'') []] @ [Save (js ''l'') (js ''b'') []])) (Fire i)) (js ''k'') =
     entry_text sample_codec (js ''a'') []"
proof -
  have "dc_storage (foldl (cache_step sample_codec) (cache_start Map.empty)
      ([] @ [Save (js ''k'') (js ''a'') []] @ [Save (js ''l'') (js ''b'') []])) (js ''k'') = None"
    by (simp add: cache_start_def cache_save_def Let_def js_str)
  moreover have "entry_text sample_codec (js ''a'') [] \<noteq> None"
    by (simp add: entry_text_def trim_eq_Nil is_js_space_def js_str)
  ultimately show ?thesis
    using edit_is_written [OF _ refl, of "[Save (js ''l'') (js ''b'') []]" "js ''k''" sample_codec Map.empty "[]"
        "js ''a''" "[]"] by auto
qed

section \<open>Reading back a draft\<close>

lemma parse_json_object:
  assumes "parse_json s = Some (JObj ms)" shows "\<exists>t. skip_space s = 0x7b # t"
proof -
  obtain r where r: "parse_value (Suc (2 * length s)) s = Some (JObj ms, r)"
    using assms by (auto simp: parse_json_def split: option.splits if_splits)
  then show ?thesis by (cases "skip_space s") (auto split: if_splits simp del: dropWhile_eq_Nil_conv)
qed

lemma plain_draft:
  assumes "\<nexists>t. skip_space raw = 0x7b # t"
  shows "deserializeDraft cd raw = \<lparr>dr_content = raw, dr_attachments = []\<rparr>"
proof (cases "parse_json raw")
  case (Some v)
  then have "json_get v ''kind'' \<noteq> Some (Some w)" for w
    using parse_json_object assms by (cases v) (auto simp: json_get_def)
  with Some show ?thesis by (simp add: deserializeDraft_def)
qed (simp add: deserializeDraft_def)

text \<open>What the protobuf library promises of an attachment's JSON form.\<close>

definition codec_ok :: "att_codec \<Rightarrow> Attachment list \<Rightarrow> bool" where
  "codec_ok cd as \<longleftrightarrow> (\<forall>a \<in> set as. fromJson cd (toJson cd a) = Some a \<and> json_ok (number_text cd) (toJson cd a))"

lemma structured_draft:
  assumes "codec_ok cd as" "code_units c" "as \<noteq> []"
  shows "deserializeDraft cd (serializeDraft cd c as) = \<lparr>dr_content = c, dr_attachments = as\<rparr>"
proof -
  let ?o = "JObj [(js ''kind'', JStr STRUCTURED_CACHE_ENTRY_KIND),
               (js ''version'', JNum STRUCTURED_CACHE_ENTRY_VERSION),
               (js ''content'', JStr c), (js ''attachments'', JArr (map (toJson cd) as))]"
  have "number_ok (number_text cd) 2"
    by (intro print_number_ok) (simp add: safe_integer_def quotient_of_number)
  then have "json_ok (number_text cd) ?o"
    using assms by (simp add: codec_ok_def code_units_js STRUCTURED_CACHE_ENTRY_KIND_def STRUCTURED_CACHE_ENTRY_VERSION_def)
  then have "parse_json (serializeDraft cd c as) = Some ?o"
    using assms(3) parse_stringify by (simp add: serializeDraft_def del: stringify.simps json_ok.simps)
  moreover have "List.map_filter (fromJson cd) (map (toJson cd) as) = as"
    using assms(1) by (induction as) (auto simp: codec_ok_def List.map_filter_def)
  ultimately show ?thesis
    by (simp add: deserializeDraft_def json_get_def STRUCTURED_CACHE_ENTRY_VERSION_def)
qed

lemma saved_draft_loads:
  assumes "codec_ok cd attachments" and "code_units content"
    and "attachments \<noteq> [] \<or> (trim content \<noteq> [] \<and> (\<nexists>t. skip_space content = 0x7b # t))"
  shows "loadDraft cd key (saveNow cd key content attachments dc) =
    \<lparr>dr_content = content, dr_attachments = attachments\<rparr>"
proof -
  let ?t = "serializeDraft cd content attachments"
  have d: "deserializeDraft cd ?t = \<lparr>dr_content = content, dr_attachments = attachments\<rparr>"
  proof (cases "attachments = []")
    case True
    then show ?thesis using assms(3) plain_draft by (simp add: serializeDraft_def)
  qed (rule structured_draft [OF assms(1,2)])
  have "?t \<noteq> []"
    using assms(3) trim_eq_Nil by (auto simp: serializeDraft_def)
  moreover have "entry_text cd content attachments = Some ?t" using assms(3) by (auto simp: entry_text_def)
  ultimately show ?thesis using d by (simp add: loadDraft_def saveNow_def)
qed

text \<open>
  A draft saved at once is loaded as it was, text and attachments, when it has attachments, or when
  its text is not blank and does not look like a JSON object.
\<close>

lemma draft_roundtrip:
  assumes "codec_ok cd attachments" and "code_units content"
    and "attachments \<noteq> [] \<or> (trim content \<noteq> [] \<and> (\<nexists>t. skip_space content = 0x7b # t))"
  shows "loadDraft cd key (saveNow cd key content attachments dc) =
    \<lparr>dr_content = content, dr_attachments = attachments\<rparr>"
  using assms by (rule saved_draft_loads)

definition sample_attachments :: "Attachment list" where
  "sample_attachments = [empty_attachment]"

lemma draft_roundtrip_witness:
  "loadDraft sample_codec (js ''u-'') (saveNow sample_codec (js ''u-'') (js ''a\<newline>b'') sample_attachments
     (cache_start Map.empty)) = \<lparr>dr_content = js ''a\<newline>b'', dr_attachments = sample_attachments\<rparr>"
  by (rule draft_roundtrip)
    (simp_all add: codec_ok_def sample_codec_def sample_attachments_def code_units_def js_str)

text \<open>
  A plain draft whose text is itself an entry is read as that entry: its text is lost.
\<close>

lemma entry_text_is_unwrapped:
  assumes "code_units c"
  shows "dr_content (deserializeDraft cd (stringify (\<lambda>_. []) (JObj [(js ''kind'', JStr STRUCTURED_CACHE_ENTRY_KIND),
     (js ''version'', JNum 1), (js ''content'', JStr c)]))) = c"
proof -
  have "number_ok (\<lambda>_. []) 1"
    by (intro print_number_ok) (simp add: safe_integer_def)
  then have "json_ok (\<lambda>_. []) (JObj [(js ''kind'', JStr STRUCTURED_CACHE_ENTRY_KIND),
     (js ''version'', JNum 1), (js ''content'', JStr c)])"
    using assms by (simp add: code_units_js STRUCTURED_CACHE_ENTRY_KIND_def)
  from parse_stringify [OF this] show ?thesis by (simp add: deserializeDraft_def json_get_def)
qed

end
