(* ===== verification/OAuthState.thy ===== *)
theory OAuthState
  imports Json Messages
begin

text \<open>
  The state of a sign-in with an identity provider (\<^verbatim>\<open>utils/oauth.ts\<close>): the random state, the PKCE
  parameters, and the one slot of the session storage in which they wait for the callback. Random bytes,
  SHA-256 and the clock are arguments; \<^verbatim>\<open>btoa\<close> is written out.
\<close>

section \<open>Random texts\<close>

text \<open>\<^verbatim>\<open>byte.toString(16).padStart(2, "0")\<close>, joined.\<close>

definition generateSecureState :: "nat list \<Rightarrow> jsstring" where
  "generateSecureState random = concat (map (\<lambda>b. [hex_digit (b div 16), hex_digit (b mod 16)]) random)"

definition base64_digit :: "nat \<Rightarrow> nat" where
  "base64_digit d =
     (if d < 26 then 0x41 + d else if d < 52 then 0x61 + (d - 26) else if d < 62 then 0x30 + (d - 52)
      else if d = 62 then 0x2b else 0x2f)"

fun btoa :: "nat list \<Rightarrow> jsstring" where
  "btoa [] = []"
| "btoa [a] = [base64_digit (a div 4), base64_digit (a mod 4 * 16), 0x3d, 0x3d]"
| "btoa [a, b] =
     [base64_digit (a div 4), base64_digit (a mod 4 * 16 + b div 16), base64_digit (b mod 16 * 4), 0x3d]"
| "btoa (a # b # c # s) =
     [base64_digit (a div 4), base64_digit (a mod 4 * 16 + b div 16),
      base64_digit (b mod 16 * 4 + c div 64), base64_digit (c mod 64)] @ btoa s"

definition strip_padding :: "jsstring \<Rightarrow> jsstring" where
  "strip_padding s = rev (dropWhile (\<lambda>c. c = 0x3d) (rev s))"

text \<open>\<^verbatim>\<open>.replace(/\+/g, "-").replace(/\//g, "_")\<close>, on one character.\<close>

definition url_char :: "nat \<Rightarrow> nat" where
  "url_char c = (if c = 0x2b then 0x2d else if c = 0x2f then 0x5f else c)"

definition base64UrlEncode :: "nat list \<Rightarrow> jsstring" where
  "base64UrlEncode buffer = strip_padding (map url_char (btoa buffer))"

definition generateCodeVerifier :: "nat list \<Rightarrow> jsstring" where
  "generateCodeVerifier random = base64UrlEncode random"

text \<open>The digest can be rejected. The verifier is ASCII, so its UTF-8 bytes are its code units.\<close>

definition generateCodeChallenge :: "(nat list \<Rightarrow> nat list option) \<Rightarrow> jsstring \<Rightarrow> jsstring option" where
  "generateCodeChallenge sha256 codeVerifier = map_option base64UrlEncode (sha256 codeVerifier)"

section \<open>Storing\<close>

datatype OAuthFlowMode = flow_signin | flow_link

fun flow_text :: "OAuthFlowMode \<Rightarrow> jsstring" where
  "flow_text flow_signin = js ''signin''"
| "flow_text flow_link = js ''link''"

definition STATE_EXPIRY_MS :: int where
  "STATE_EXPIRY_MS = 10 * 60 * 1000"

text \<open>
  The platform: the time, the random bytes (the second \<open>None\<close> when drawing them throws), whether
  \<^verbatim>\<open>crypto.subtle\<close> exists, and whether the session storage accepts a write.
\<close>

record oauth_env =
  oe_now :: int
  oe_random :: "nat list"
  oe_subtle :: bool
  oe_random2 :: "nat list option"
  oe_sha256 :: "nat list \<Rightarrow> nat list option"
  oe_writable :: bool
  oe_number_text :: "rat \<Rightarrow> jsstring"

record OAuthState =
  os_state :: jsstring
  os_identityProviderName :: jsstring
  os_flowMode :: OAuthFlowMode
  os_timestamp :: int
  os_returnUrl :: "jsstring option"
  os_linkingUserName :: "jsstring option"
  os_codeVerifier :: "jsstring option"

text \<open>\<^verbatim>\<open>JSON.stringify\<close> leaves out the members that are \<^verbatim>\<open>undefined\<close>.\<close>

definition opt_member :: "string \<Rightarrow> jsstring option \<Rightarrow> (jsstring \<times> json) list" where
  "opt_member k v = (case v of None \<Rightarrow> [] | Some s \<Rightarrow> [(js k, JStr s)])"

definition state_json :: "OAuthState \<Rightarrow> json" where
  "state_json st =
     JObj ([(js ''state'', JStr (os_state st)),
            (js ''identityProviderName'', JStr (os_identityProviderName st)),
            (js ''flowMode'', JStr (flow_text (os_flowMode st))),
            (js ''timestamp'', JNum (of_int (os_timestamp st)))] @
           opt_member ''returnUrl'' (os_returnUrl st) @ opt_member ''linkingUserName'' (os_linkingUserName st) @
           opt_member ''codeVerifier'' (os_codeVerifier st))"

definition pkce :: "oauth_env \<Rightarrow> (jsstring \<times> jsstring) option" where
  "pkce env =
     (if oe_subtle env then
        (case oe_random2 env of
           None \<Rightarrow> None
         | Some random \<Rightarrow>
             let codeVerifier = generateCodeVerifier random
             in map_option (Pair codeVerifier) (generateCodeChallenge (oe_sha256 env) codeVerifier))
      else None)"

type_synonym slot = "jsstring option"

definition storeOAuthState ::
    "oauth_env \<Rightarrow> jsstring \<Rightarrow> OAuthFlowMode \<Rightarrow> jsstring option \<Rightarrow> jsstring option \<Rightarrow> slot \<Rightarrow>
     (string + jsstring \<times> jsstring option) \<times> slot" where
  "storeOAuthState env identityProviderName flowMode returnUrl linkingUserName stored =
     (let state = generateSecureState (oe_random env);
          p = pkce env;
          stateData = \<lparr>os_state = state, os_identityProviderName = identityProviderName, os_flowMode = flowMode,
                       os_timestamp = oe_now env, os_returnUrl = returnUrl,
                       os_linkingUserName = linkingUserName, os_codeVerifier = map_option fst p\<rparr>
      in if oe_writable env
         then (Inr (state, map_option snd p), Some (stringify (oe_number_text env) (state_json stateData)))
         else (Inl ''Failed to initialize OAuth flow'', stored))"

section \<open>Validating\<close>

text \<open>\<^verbatim>\<open>Date.now() - stateData.timestamp > STATE_EXPIRY_MS\<close>; a difference that is not a number is not greater.
  The conversion of a timestamp that is not a number is the argument \<open>to_number\<close>.\<close>

definition expired :: "(json \<Rightarrow> rat option) \<Rightarrow> int \<Rightarrow> json option \<Rightarrow> bool" where
  "expired to_number now timestamp =
     (case (case timestamp of None \<Rightarrow> None | Some (JNum t) \<Rightarrow> Some t | Some v \<Rightarrow> to_number v) of
        None \<Rightarrow> False
      | Some t \<Rightarrow> of_int now - t > of_int STATE_EXPIRY_MS)"

text \<open>\<^verbatim>\<open>v || "signin"\<close>.\<close>

definition or_signin :: "json option \<Rightarrow> json" where
  "or_signin v =
     (case v of
        None \<Rightarrow> JStr (js ''signin'')
      | Some w \<Rightarrow>
          if w = JNull \<or> w = JBool False \<or> w = JNum 0 \<or> w = JStr [] then JStr (js ''signin'') else w)"

record oauth_result =
  or_identityProviderName :: "json option"
  or_flowMode :: json
  or_returnUrl :: "json option"
  or_linkingUserName :: "json option"
  or_codeVerifier :: "json option"

text \<open>The result is \<^verbatim>\<open>null\<close> or the data; the second component is the slot afterwards.\<close>

definition validateOAuthState ::
    "(json \<Rightarrow> rat option) \<Rightarrow> int \<Rightarrow> jsstring \<Rightarrow> slot \<Rightarrow> oauth_result option \<times> slot" where
  "validateOAuthState to_number now stateParam stored =
     (case or_undefined stored of
        None \<Rightarrow> (None, stored)
      | Some storedData \<Rightarrow>
          (case parse_json storedData of
             None \<Rightarrow> (None, None)
           | Some stateData \<Rightarrow>
               (case json_get stateData ''timestamp'' of
                  None \<Rightarrow> (None, None)
                | Some timestamp \<Rightarrow>
                    if expired to_number now timestamp then (None, None)
                    else if json_get stateData ''state'' \<noteq> Some (Some (JStr stateParam)) then (None, None)
                    else
                      (Some \<lparr>or_identityProviderName = the (json_get stateData ''identityProviderName''),
                             or_flowMode = or_signin (the (json_get stateData ''flowMode'')),
                             or_returnUrl = the (json_get stateData ''returnUrl''),
                             or_linkingUserName = the (json_get stateData ''linkingUserName''),
                             or_codeVerifier = the (json_get stateData ''codeVerifier'')\<rparr>,
                       None))))"

definition cleanupExpiredOAuthState :: "(json \<Rightarrow> rat option) \<Rightarrow> int \<Rightarrow> slot \<Rightarrow> slot" where
  "cleanupExpiredOAuthState to_number now stored =
     (case or_undefined stored of
        None \<Rightarrow> stored
      | Some storedData \<Rightarrow>
          (case parse_json storedData of
             None \<Rightarrow> None
           | Some stateData \<Rightarrow>
               (case json_get stateData ''timestamp'' of
                  None \<Rightarrow> None
                | Some timestamp \<Rightarrow> if expired to_number now timestamp then None else stored)))"

section \<open>Properties of the random texts\<close>

lemma hex_digit_inj: "a < 16 \<Longrightarrow> b < 16 \<Longrightarrow> hex_digit a = hex_digit b \<Longrightarrow> a = b"
  by (auto simp: hex_digit_def split: if_splits)

lemma generateSecureState_inj:
  "set xs \<subseteq> {..<256} \<Longrightarrow> set ys \<subseteq> {..<256} \<Longrightarrow> generateSecureState xs = generateSecureState ys \<Longrightarrow> xs = ys"
proof (induction xs arbitrary: ys)
  case (Cons x xs)
  then obtain y zs where ys: "ys = y # zs" by (cases ys) (auto simp: generateSecureState_def)
  have "x div 16 < 16" "y div 16 < 16" using Cons.prems ys by auto
  then have "x div 16 = y div 16" "x mod 16 = y mod 16"
    using Cons.prems(3) ys hex_digit_inj by (auto simp: generateSecureState_def)
  then have "x = y" by (metis div_mult_mod_eq)
  moreover have "xs = zs" using Cons.prems ys by (intro Cons.IH) (auto simp: generateSecureState_def)
  ultimately show ?case using ys by simp
qed (auto simp: generateSecureState_def)

lemma generateSecureState_length: "length (generateSecureState random) = 2 * length random"
  by (induction random) (simp_all add: generateSecureState_def)

definition url_safe :: "nat \<Rightarrow> bool" where
  "url_safe c \<longleftrightarrow> is_alnum c \<or> c = 0x2d \<or> c = 0x5f"

lemma url_digit [simp]:
  "d < 64 \<Longrightarrow> url_safe (url_char (base64_digit d))" "d < 64 \<Longrightarrow> url_char (base64_digit d) \<noteq> 0x3d"
  "url_char 0x3d = 0x3d"
  by (auto simp: base64_digit_def url_char_def url_safe_def char_class_defs)

lemma url_btoa:
  "set bs \<subseteq> {..<256} \<Longrightarrow>
   \<exists>body k. map url_char (btoa bs) = body @ replicate k 0x3d \<and> length body = (4 * length bs + 2) div 3 \<and>
     (\<forall>c \<in> set body. url_safe c \<and> c \<noteq> 0x3d)"
proof (induction bs rule: btoa.induct)
  case 1
  show ?case by (intro exI [of _ "[]"] exI [of _ 0]) simp
next
  case (2 a)
  let ?b = "map url_char [base64_digit (a div 4), base64_digit (a mod 4 * 16)]"
  have "a div 4 < 64" "a mod 4 * 16 < 64" using 2 by auto
  then show ?case
    by (intro exI [of _ ?b] exI [of _ 2]) (auto simp: numeral_2_eq_2)
next
  case (3 a b)
  let ?b = "map url_char [base64_digit (a div 4), base64_digit (a mod 4 * 16 + b div 16), base64_digit (b mod 16 * 4)]"
  have "a div 4 < 64" "a mod 4 * 16 + b div 16 < 64" "b mod 16 * 4 < 64" using 3 by auto
  then show ?case
    by (intro exI [of _ ?b] exI [of _ 1]) (auto simp: numeral_2_eq_2)
next
  case (4 a b c s)
  then obtain body k where IH: "map url_char (btoa s) = body @ replicate k 0x3d"
    "length body = (4 * length s + 2) div 3" "\<forall>c \<in> set body. url_safe c \<and> c \<noteq> 0x3d" by auto
  let ?b = "map url_char [base64_digit (a div 4), base64_digit (a mod 4 * 16 + b div 16),
      base64_digit (b mod 16 * 4 + c div 64), base64_digit (c mod 64)]"
  have "a div 4 < 64" "a mod 4 * 16 + b div 16 < 64" "b mod 16 * 4 + c div 64 < 64" "c mod 64 < 64"
    using 4 by auto
  then show ?case using IH
    by (intro exI [of _ "?b @ body"] exI [of _ k]) auto
qed

text \<open>A code verifier or challenge is text of the URL-safe alphabet, 43 characters for 32 bytes.\<close>

lemma base64UrlEncode_text:
  assumes "set bs \<subseteq> {..<256}"
  shows "length (base64UrlEncode bs) = (4 * length bs + 2) div 3 \<and> (\<forall>c \<in> set (base64UrlEncode bs). url_safe c)"
proof -
  obtain body k where b: "map url_char (btoa bs) = body @ replicate k 0x3d"
    "length body = (4 * length bs + 2) div 3" "\<forall>c \<in> set body. url_safe c \<and> c \<noteq> 0x3d"
    using url_btoa [OF assms] by blast
  have "dropWhile (\<lambda>c. c = 0x3d) (rev body) = rev body"
    using b(3) by (cases "rev body") (auto simp: dropWhile_eq_self_iff hd_rev dest: arg_cong [of _ _ hd])
  then have "strip_padding (body @ replicate k 0x3d) = body"
    by (simp add: strip_padding_def) (subst dropWhile_append2, auto)
  then show ?thesis using b by (simp add: base64UrlEncode_def)
qed

section \<open>Properties of the stored state\<close>

lemma state_json_get:
  "json_get (state_json st) ''state'' = Some (Some (JStr (os_state st)))"
  "json_get (state_json st) ''identityProviderName'' = Some (Some (JStr (os_identityProviderName st)))"
  "json_get (state_json st) ''flowMode'' = Some (Some (JStr (flow_text (os_flowMode st))))"
  "json_get (state_json st) ''timestamp'' = Some (Some (JNum (of_int (os_timestamp st))))"
  "json_get (state_json st) ''returnUrl'' = Some (map_option JStr (os_returnUrl st))"
  "json_get (state_json st) ''linkingUserName'' = Some (map_option JStr (os_linkingUserName st))"
  "json_get (state_json st) ''codeVerifier'' = Some (map_option JStr (os_codeVerifier st))"
  by (simp_all add: state_json_def json_get_def opt_member_def split: option.split)

definition opt_units :: "jsstring option \<Rightarrow> bool" where
  "opt_units v \<longleftrightarrow> (case v of None \<Rightarrow> True | Some s \<Rightarrow> code_units s)"

lemma safe_integer_int: "\<bar>z\<bar> \<le> 9007199254740991 \<Longrightarrow> safe_integer (of_int z)"
  by (simp add: safe_integer_def quotient_of_int)

lemma state_json_ok:
  assumes "code_units (os_state st)" "code_units (os_identityProviderName st)"
    "\<bar>os_timestamp st\<bar> \<le> 9007199254740991" "opt_units (os_returnUrl st)" "opt_units (os_linkingUserName st)"
    "opt_units (os_codeVerifier st)"
  shows "json_ok nt (state_json st)"
  using assms print_number_ok [OF safe_integer_int, of "os_timestamp st" nt]
  by (cases "os_flowMode st") (auto simp: state_json_def opt_member_def opt_units_def split: option.splits)

lemma hex_digit_unit: "d < 16 \<Longrightarrow> hex_digit d \<le> 0xffff"
  by (simp add: hex_digit_def)

lemma generateSecureState_units: "set random \<subseteq> {..<256} \<Longrightarrow> code_units (generateSecureState random)"
proof -
  assume "set random \<subseteq> {..<256}"
  then have "b div 16 < 16" if "b \<in> set random" for b using that by auto
  then show ?thesis
    by (auto simp: generateSecureState_def code_units_def intro!: hex_digit_unit)
qed

lemma base64UrlEncode_units: "set bs \<subseteq> {..<256} \<Longrightarrow> code_units (base64UrlEncode bs)"
  using base64UrlEncode_text [of bs] by (auto simp: code_units_def url_safe_def char_class_defs)

lemma storeOAuthState_validates:
  assumes "storeOAuthState env idp flow returnUrl linkingUser stored = (Inr (state, challenge), slot')"
    and "set (oe_random env) \<subseteq> {..<256}" and "\<forall>r. oe_random2 env = Some r \<longrightarrow> set r \<subseteq> {..<256}"
    and "code_units idp" and "opt_units returnUrl" and "opt_units linkingUser"
    and "\<bar>oe_now env\<bar> \<le> 9007199254740991"
  shows "validateOAuthState to_number later param slot' =
    (if param = state \<and> later - oe_now env \<le> 600000
     then Some \<lparr>or_identityProviderName = Some (JStr idp), or_flowMode = JStr (flow_text flow),
           or_returnUrl = map_option JStr returnUrl, or_linkingUserName = map_option JStr linkingUser,
           or_codeVerifier = map_option (JStr \<circ> fst) (pkce env)\<rparr>
     else None, None)"
proof -
  define st where "st = \<lparr>os_state = generateSecureState (oe_random env), os_identityProviderName = idp,
     os_flowMode = flow, os_timestamp = oe_now env, os_returnUrl = returnUrl, os_linkingUserName = linkingUser,
     os_codeVerifier = map_option fst (pkce env)\<rparr>"
  have st: "state = generateSecureState (oe_random env)"
    "slot' = Some (stringify (oe_number_text env) (state_json st))"
    using assms(1) by (auto simp: storeOAuthState_def Let_def st_def split: if_splits)
  have "opt_units (map_option fst (pkce env))"
    using assms(3) base64UrlEncode_units
    by (auto simp: pkce_def opt_units_def generateCodeVerifier_def Let_def split: option.splits)
  moreover have sel: "os_state st = generateSecureState (oe_random env)" "os_identityProviderName st = idp"
    "os_flowMode st = flow" "os_timestamp st = oe_now env" "os_returnUrl st = returnUrl"
    "os_linkingUserName st = linkingUser" "os_codeVerifier st = map_option fst (pkce env)"
    by (simp_all add: st_def)
  ultimately have "json_ok (oe_number_text env) (state_json st)"
    using assms generateSecureState_units by (intro state_json_ok) simp_all
  then have parse: "parse_json (stringify (oe_number_text env) (state_json st)) = Some (state_json st)"
    by (rule parse_stringify)
  then have "stringify (oe_number_text env) (state_json st) \<noteq> []"
    by (auto simp: parse_json_def)
  moreover have "expired to_number later (Some (JNum (of_int (oe_now env)))) \<longleftrightarrow> \<not> later - oe_now env \<le> 600000"
  proof -
    have "rat_of_int later - rat_of_int (oe_now env) > 600000 \<longleftrightarrow> \<not> later - oe_now env \<le> 600000" by linarith
    then show ?thesis by (simp add: expired_def STATE_EXPIRY_MS_def)
  qed
  ultimately show ?thesis
    by (cases flow)
      (simp_all add: validateOAuthState_def st parse state_json_get sel or_signin_def option.map_comp eq_commute [of _ param])
qed

text \<open>
  The callback gets back what the flow stored: validating within ten minutes with the state that was
  returned yields the identity provider, the flow, the return address, the linked user and the PKCE
  verifier, and empties the slot.
\<close>

lemma oauth_roundtrip:
  assumes "storeOAuthState env idp flow returnUrl linkingUser stored = (Inr (state, challenge), slot')"
    and "set (oe_random env) \<subseteq> {..<256}" and "\<forall>r. oe_random2 env = Some r \<longrightarrow> set r \<subseteq> {..<256}"
    and "code_units idp" and "opt_units returnUrl" and "opt_units linkingUser"
    and "\<bar>oe_now env\<bar> \<le> 9007199254740991" and "later - oe_now env \<le> 600000"
  shows "validateOAuthState to_number later state slot' =
    (Some \<lparr>or_identityProviderName = Some (JStr idp), or_flowMode = JStr (flow_text flow),
           or_returnUrl = map_option JStr returnUrl, or_linkingUserName = map_option JStr linkingUser,
           or_codeVerifier = map_option (JStr \<circ> fst) (pkce env)\<rparr>, None)"
  using storeOAuthState_validates [OF assms(1-7)] assms(8) by simp

definition sample_env :: oauth_env where
  "sample_env = \<lparr>oe_now = 5, oe_random = [1, 255], oe_subtle = True, oe_random2 = Some [0, 16, 131],
     oe_sha256 = Some, oe_writable = True, oe_number_text = (\<lambda>_. [])\<rparr>"

lemma oauth_roundtrip_witness:
  "or_returnUrl (the (fst (validateOAuthState (\<lambda>_. None) 600005 (generateSecureState [1, 255])
     (snd (storeOAuthState sample_env (js ''gh'') flow_link (Some (js ''/x'')) None None))))) = Some (JStr (js ''/x''))"
proof -
  obtain ch slot' where s: "storeOAuthState sample_env (js ''gh'') flow_link (Some (js ''/x'')) None None =
    (Inr (generateSecureState [1, 255], ch), slot')"
    by (simp add: storeOAuthState_def sample_env_def Let_def)
  show ?thesis
    using oauth_roundtrip [OF s, of 600005 "\<lambda>_. None"] s by (simp add: sample_env_def opt_units_def)
qed

text \<open>
  C22. A stored state is used once: whatever the first validation gets and answers, a second one finds
  nothing, with any parameter and at any time.
\<close>

theorem oauth_state_single_use:
  "fst (validateOAuthState to_number2 now2 stateParam2 (snd (validateOAuthState to_number now stateParam stored))) = None"
  by (cases "or_undefined stored") (auto simp: validateOAuthState_def split: option.split)

text \<open>A timestamp read as a number.\<close>

fun timestamp_number :: "(json \<Rightarrow> rat option) \<Rightarrow> json option \<Rightarrow> rat option" where
  "timestamp_number to_number None = None"
| "timestamp_number to_number (Some (JNum t)) = Some t"
| "timestamp_number to_number (Some v) = to_number v"

lemma expired_after_ten_minutes:
  "expired to_number now t \<longleftrightarrow> (\<exists>n. timestamp_number to_number t = Some n \<and> of_int now - n > 600000)"
  by (auto simp: expired_def STATE_EXPIRY_MS_def split: option.split json.split)

lemma accepted_state:
  assumes "fst (validateOAuthState to_number now param stored) = Some r"
  shows "\<exists>text data t. stored = Some text \<and> parse_json text = Some data \<and>
    json_get data ''state'' = Some (Some (JStr param)) \<and> json_get data ''timestamp'' = Some t \<and>
    \<not> expired to_number now t"
  using assms by (auto simp: validateOAuthState_def split: option.splits if_splits)

text \<open>
  C23. What a sign-in flow stored is accepted exactly with the state it returned and for ten minutes, and
  then gives back what was stored, the provider, the flow, the return address, the linked user and the
  PKCE verifier; any other state and any later callback are refused. Whatever else the slot holds, a
  callback is accepted only with the state written there and not more than ten minutes after the time
  written there.
\<close>

theorem oauth_state_is_checked:
  assumes "storeOAuthState env idp flow returnUrl linkingUser stored = (Inr (state, challenge), slot')"
    and "set (oe_random env) \<subseteq> {..<256}" and "\<forall>r. oe_random2 env = Some r \<longrightarrow> set r \<subseteq> {..<256}"
    and "code_units idp" and "opt_units returnUrl" and "opt_units linkingUser"
    and "\<bar>oe_now env\<bar> \<le> 9007199254740991"
  shows "fst (validateOAuthState to_number later param slot') =
    (if param = state \<and> later - oe_now env \<le> 600000
     then Some \<lparr>or_identityProviderName = Some (JStr idp), or_flowMode = JStr (flow_text flow),
           or_returnUrl = map_option JStr returnUrl, or_linkingUserName = map_option JStr linkingUser,
           or_codeVerifier = map_option (JStr \<circ> fst) (pkce env)\<rparr>
     else None) \<and>
    (\<forall>other r. fst (validateOAuthState to_number later param other) = Some r \<longrightarrow>
       (\<exists>text data t. other = Some text \<and> parse_json text = Some data \<and>
          json_get data ''state'' = Some (Some (JStr param)) \<and> json_get data ''timestamp'' = Some t \<and>
          (\<forall>n. timestamp_number to_number t = Some n \<longrightarrow> of_int later - n \<le> 600000)))"
proof (intro conjI allI impI)
  show "fst (validateOAuthState to_number later param slot') =
    (if param = state \<and> later - oe_now env \<le> 600000
     then Some \<lparr>or_identityProviderName = Some (JStr idp), or_flowMode = JStr (flow_text flow),
           or_returnUrl = map_option JStr returnUrl, or_linkingUserName = map_option JStr linkingUser,
           or_codeVerifier = map_option (JStr \<circ> fst) (pkce env)\<rparr>
     else None)"
    using storeOAuthState_validates [OF assms] by simp
next
  fix other r assume "fst (validateOAuthState to_number later param other) = Some r"
  from accepted_state [OF this] show "\<exists>text data t. other = Some text \<and> parse_json text = Some data \<and>
      json_get data ''state'' = Some (Some (JStr param)) \<and> json_get data ''timestamp'' = Some t \<and>
      (\<forall>n. timestamp_number to_number t = Some n \<longrightarrow> of_int later - n \<le> 600000)"
    unfolding expired_after_ten_minutes by (auto simp: not_less)
qed

theorem oauth_state_is_checked_witness:
  "\<exists>slot'. slot' = snd (storeOAuthState sample_env (js ''gh'') flow_link None None None) \<and>
    fst (validateOAuthState (\<lambda>_. None) 600005 (generateSecureState [1, 255]) slot') \<noteq> None \<and>
    fst (validateOAuthState (\<lambda>_. None) 600006 (generateSecureState [1, 255]) slot') = None \<and>
    fst (validateOAuthState (\<lambda>_. None) 600005 (js ''0000'') slot') = None"
proof -
  obtain ch slot' where s: "storeOAuthState sample_env (js ''gh'') flow_link None None None =
    (Inr (generateSecureState [1, 255], ch), slot')"
    by (simp add: storeOAuthState_def sample_env_def Let_def)
  have env: "oe_now sample_env = 5" "set (oe_random sample_env) \<subseteq> {..<256}"
    "\<forall>r. oe_random2 sample_env = Some r \<longrightarrow> set r \<subseteq> {..<256}"
    "code_units (js ''gh'')" "opt_units None" "\<bar>oe_now sample_env\<bar> \<le> 9007199254740991"
    by (simp_all add: sample_env_def opt_units_def)
  have "generateSecureState [1, 255] \<noteq> js ''0000''"
    by (simp add: generateSecureState_def hex_digit_def js_str)
  then show ?thesis
    using conjunct1 [OF oauth_state_is_checked [OF s env(2-4) env(5,5,6)], of "\<lambda>_. None"] s env(1) by simp
qed

text \<open>The clean-up keeps a state exactly as long as validation would accept its time.\<close>

lemma cleanup_keeps_valid:
  "fst (validateOAuthState to_number now stateParam stored) = Some r \<Longrightarrow>
   cleanupExpiredOAuthState to_number now stored = stored"
  by (auto simp: validateOAuthState_def cleanupExpiredOAuthState_def split: option.splits if_splits)

end
