(* ===== verification/WrittenUrls.thy ===== *)
theory WrittenUrls
  imports Prelude
begin

text \<open>
  Scanners over a literal run of Markdown source: the spellings Markdown decodes
  (\<^verbatim>\<open>utils/markdown-source-boundaries.ts\<close>) and the URLs written in the text (the first half of
  \<^verbatim>\<open>utils/gfm-url.ts\<close>). \<^verbatim>\<open>decodeString\<close> of the Markdown library and the two Unicode classes the patterns
  use are the argument \<open>md_text\<close>.
\<close>

record md_text =
  decodeString :: "jsstring \<Rightarrow> jsstring"
  is_letter_or_number :: "nat \<Rightarrow> bool"
  is_separator :: "nat \<Rightarrow> bool"

section \<open>Decoded spellings\<close>

datatype boundary_type = Boundary_Entity | Boundary_Escape

record DecodedMarkdownCharacterReference =
  dm_to :: nat
  dm_value :: jsstring

definition isASCIIPunctuation :: "nat \<Rightarrow> bool" where
  "isASCIIPunctuation code \<longleftrightarrow>
     (0x21 \<le> code \<and> code \<le> 0x2f) \<or> (0x3a \<le> code \<and> code \<le> 0x40) \<or> (0x5b \<le> code \<and> code \<le> 0x60) \<or>
     (0x7b \<le> code \<and> code \<le> 0x7e)"

definition is_hex :: "nat \<Rightarrow> bool" where
  "is_hex c \<longleftrightarrow> is_digit c \<or> (0x41 \<le> c \<and> c \<le> 0x46) \<or> (0x61 \<le> c \<and> c \<le> 0x66)"

text \<open>
  \<^verbatim>\<open>/^&(?:#[0-9]{1,7}|#[xX][0-9A-Fa-f]{1,6}|[A-Za-z0-9]{1,31});/\<close>: the length of the match. A run of the
  class ends at the semicolon, so its length decides each alternative.
\<close>

definition run_then_semicolon :: "(nat \<Rightarrow> bool) \<Rightarrow> nat \<Rightarrow> jsstring \<Rightarrow> nat option" where
  "run_then_semicolon P most s =
     (let k = length (takeWhile P s)
      in if 0 < k \<and> k \<le> most \<and> k < length s \<and> s ! k = 0x3b then Some (k + 1) else None)"

definition reference_length :: "jsstring \<Rightarrow> nat option" where
  "reference_length s =
     (case s of
        a # r \<Rightarrow>
          if a \<noteq> 0x26 then None
          else (case r of
            b # t \<Rightarrow>
              if b = 0x23 then
                (case run_then_semicolon is_digit 7 t of
                   Some k \<Rightarrow> Some (k + 2)
                 | None \<Rightarrow>
                     (case t of
                        x # u \<Rightarrow>
                          if x = 0x78 \<or> x = 0x58 then map_option ((+) 3) (run_then_semicolon is_hex 6 u) else None
                      | [] \<Rightarrow> None))
              else map_option ((+) 1) (run_then_semicolon is_alnum 31 r)
          | [] \<Rightarrow> None)
      | [] \<Rightarrow> None)"

definition decodedMarkdownCharacterReferenceAt ::
    "md_text \<Rightarrow> jsstring \<Rightarrow> nat \<Rightarrow> nat \<Rightarrow> DecodedMarkdownCharacterReference option" where
  "decodedMarkdownCharacterReferenceAt md source i to =
     (if \<not> (i < length source \<and> source ! i = 0x26) then None
      else case reference_length (slice source i (min to (i + 35))) of
        None \<Rightarrow> None
      | Some k \<Rightarrow>
          let spelling = slice source i (i + k);
              value = decodeString md spelling
          in if value = spelling then None else Some \<lparr>dm_to = i + k, dm_value = value\<rparr>)"

definition code_point_size :: "jsstring \<Rightarrow> nat \<Rightarrow> nat" where
  "code_point_size source i =
     (case code_point_at source i of Some p \<Rightarrow> if p > 0xffff then 2 else 1 | None \<Rightarrow> 1)"

definition scan_boundary :: "md_text \<Rightarrow> jsstring \<Rightarrow> nat \<Rightarrow> nat \<Rightarrow> (nat \<times> boundary_type) option" where
  "scan_boundary md source i to =
     (if i < length source \<and> source ! i = 0x5c \<and> i + 1 < to \<and> i + 1 < length source \<and>
         isASCIIPunctuation (source ! (i + 1))
      then Some (i + 2, Boundary_Escape)
      else map_option (\<lambda>r. (dm_to r, Boundary_Entity)) (decodedMarkdownCharacterReferenceAt md source i to))"

lemma run_then_semicolon_le: "run_then_semicolon P most s = Some k \<Longrightarrow> 0 < k \<and> k \<le> length s"
  by (auto simp: run_then_semicolon_def Let_def split: if_splits)

lemma reference_length_le: "reference_length s = Some k \<Longrightarrow> 0 < k \<and> k \<le> length s"
  by (auto simp: reference_length_def split: list.splits if_splits option.splits
      dest!: run_then_semicolon_le)

lemma reference_at_bounds:
  assumes "decodedMarkdownCharacterReferenceAt md source i to = Some r"
  shows "i < dm_to r \<and> dm_to r \<le> to \<and> dm_to r \<le> length source"
proof -
  obtain k where k: "reference_length (slice source i (min to (i + 35))) = Some k" "dm_to r = i + k"
    and i: "i < length source"
    using assms
    by (auto simp: decodedMarkdownCharacterReferenceAt_def Let_def split: if_splits option.splits)
  from reference_length_le [OF k(1)] i k(2) show ?thesis by (auto simp: length_slice)
qed

lemma scan_boundary_bounds: "scan_boundary md source i to = Some (j, t) \<Longrightarrow> i < j \<and> j \<le> to"
  using reference_at_bounds [of md source i to] by (auto simp: scan_boundary_def split: if_splits)

lemma code_point_size_pos: "0 < code_point_size source i"
  by (simp add: code_point_size_def split: option.split)

function findDecodedMarkdownSourceBoundaries ::
    "md_text \<Rightarrow> jsstring \<Rightarrow> nat \<Rightarrow> nat \<Rightarrow> (nat \<times> nat \<times> boundary_type) list" where
  "findDecodedMarkdownSourceBoundaries md source cursor to =
     (if cursor < to then
        (case scan_boundary md source cursor to of
           Some (j, t) \<Rightarrow> (cursor, j, t) # findDecodedMarkdownSourceBoundaries md source j to
         | None \<Rightarrow> findDecodedMarkdownSourceBoundaries md source (cursor + code_point_size source cursor) to)
      else [])"
  by pat_completeness auto
termination
  by (relation "measure (\<lambda>(md, source, cursor, to). to - cursor)")
    (auto dest!: scan_boundary_bounds simp: diff_less_mono2 code_point_size_pos)

declare findDecodedMarkdownSourceBoundaries.simps [simp del]

interpretation boundaries: range_scanner "\<lambda>_ _. True" "\<lambda>(md, s). scan_boundary md s"
  "\<lambda>(md, s) i lim. i + code_point_size s i" "\<lambda>(md, s). findDecodedMarkdownSourceBoundaries md s"
  by unfold_locales
    (auto simp: findDecodedMarkdownSourceBoundaries.simps code_point_size_pos dest: scan_boundary_bounds)

section \<open>Written URLs\<close>

definition TRAILING_PUNCTUATION :: "nat set" where
  "TRAILING_PUNCTUATION = {0x21, 0x22, 0x27, 0x2a, 0x2c, 0x2e, 0x3a, 0x3b, 0x3f, 0x5f, 0x7e}"

definition prefixEnd :: "jsstring \<Rightarrow> nat \<Rightarrow> nat option" where
  "prefixEnd source i =
     (if starts_with_at source (js ''https://'') i then Some (i + 8)
      else if starts_with_at source (js ''http://'') i then Some (i + 7)
      else if starts_with_at source (js ''www.'') i then Some (i + 4) else None)"

definition domainCharacterSize :: "md_text \<Rightarrow> jsstring \<Rightarrow> nat \<Rightarrow> nat" where
  "domainCharacterSize md source offset =
     (let p = (case code_point_at source offset of None \<Rightarrow> 0 | Some p \<Rightarrow> p)
      in if p = 0x5f \<or> p = 0x2d \<or> p = 0x2e \<or> is_letter_or_number md p
         then length (from_code_point p) else 0)"

function domain_end :: "md_text \<Rightarrow> jsstring \<Rightarrow> nat \<Rightarrow> nat \<Rightarrow> nat" where
  "domain_end md source domainTo upperBound =
     (if domainTo < upperBound \<and> domainCharacterSize md source domainTo \<noteq> 0
      then domain_end md source (domainTo + domainCharacterSize md source domainTo) upperBound
      else domainTo)"
  by pat_completeness auto
termination by (relation "measure (\<lambda>(md, source, i, ub). ub - i)") auto

declare domain_end.simps [simp del]

fun strip_dots :: "jsstring \<Rightarrow> nat \<Rightarrow> nat \<Rightarrow> nat" where
  "strip_dots source i 0 = 0"
| "strip_dots source i (Suc to) = (if i < Suc to \<and> source ! to = 0x2e then strip_dots source i to else Suc to)"

lemma strip_dots_numeral [simp]:
  "strip_dots s i (numeral k) =
     (if i < numeral k \<and> s ! pred_numeral k = 0x2e then strip_dots s i (pred_numeral k) else numeral k)"
  by (simp add: numeral_eq_Suc)

definition hasValidDomain :: "jsstring \<Rightarrow> nat \<Rightarrow> nat \<Rightarrow> bool" where
  "hasValidDomain source i to =
     (let segments = split_on 0x2e (slice source i (strip_dots source i to)); n = length segments
      in 2 \<le> n \<and> (\<forall>w \<in> set segments. w \<noteq> []) \<and> 0x5f \<notin> set (segments ! (n - 2)) \<and>
         0x5f \<notin> set (segments ! (n - 1)))"

text \<open>\<^verbatim>\<open>/&[A-Za-z]+;$/\<close>: the length of the match at the end of a text.\<close>

definition entity_at_end :: "jsstring \<Rightarrow> nat option" where
  "entity_at_end s =
     (case rev s of
        c # r \<Rightarrow>
          let k = length (takeWhile is_alpha r)
          in if c = 0x3b \<and> 0 < k \<and> k < length r \<and> r ! k = 0x26 then Some (k + 2) else None
      | [] \<Rightarrow> None)"

lemma entity_at_end_le: "entity_at_end s = Some k \<Longrightarrow> 2 < k \<and> k \<le> length s"
  by (auto simp: entity_at_end_def Let_def split: list.splits if_splits dest: arg_cong [of _ _ length])

text \<open>The loop on the end of the URL; \<open>unopened\<close> is the number of closing parentheses not matched.\<close>

function trim_tail :: "jsstring \<Rightarrow> nat \<Rightarrow> int \<Rightarrow> nat \<Rightarrow> nat" where
  "trim_tail source i unopened to =
     (if i < to \<and> to \<le> length source then
        (case entity_at_end (slice source i to) of
           Some k \<Rightarrow> trim_tail source i unopened (to - k)
         | None \<Rightarrow>
             let character = source ! (to - 1) in
             if character = 0x29 \<and> unopened > 0 then trim_tail source i (unopened - 1) (to - 1)
             else if character = 0x5d \<or> character \<in> TRAILING_PUNCTUATION
               then trim_tail source i unopened (to - 1)
             else to)
      else to)"
  by pat_completeness auto
termination
  by (relation "measure (\<lambda>(source, i, u, to). to)") (auto dest!: entity_at_end_le)

declare trim_tail.simps [simp del]

definition trimGFMURLTail :: "jsstring \<Rightarrow> nat \<Rightarrow> nat \<Rightarrow> nat" where
  "trimGFMURLTail source i to =
     (let path = slice source i to
      in trim_tail source i (int (count_list path 0x29) - int (count_list path 0x28)) to)"

text \<open>The end of the path: at \<^verbatim>\<open><\<close>, an ASCII white-space control or a separator.\<close>

function path_end :: "md_text \<Rightarrow> jsstring \<Rightarrow> nat \<Rightarrow> nat \<Rightarrow> nat" where
  "path_end md source to upperBound =
     (if to < upperBound then
        let p = (case code_point_at source to of None \<Rightarrow> 0 | Some p \<Rightarrow> p) in
        if (to < length source \<and> (source ! to = 0x3c \<or> (0x09 \<le> source ! to \<and> source ! to \<le> 0x0d))) \<or>
           is_separator md p
        then to else path_end md source (to + length (from_code_point p)) upperBound
      else to)"
  by pat_completeness auto
termination
  by (relation "measure (\<lambda>(md, source, i, ub). ub - i)") (auto simp: from_code_point_def)

declare path_end.simps [simp del]

definition writtenGFMURLSourceRange :: "md_text \<Rightarrow> jsstring \<Rightarrow> nat \<Rightarrow> nat \<Rightarrow> (nat \<times> nat) option" where
  "writtenGFMURLSourceRange md source i upperBound =
     (case prefixEnd source i of
        None \<Rightarrow> None
      | Some domainFrom \<Rightarrow>
          if domainFrom \<ge> upperBound then None
          else
            let domainTo = domain_end md source domainFrom upperBound in
            if \<not> hasValidDomain source domainFrom domainTo then None
            else Some (i, trimGFMURLTail source i (path_end md source domainTo upperBound)))"

definition isWrittenGFMURLSource :: "md_text \<Rightarrow> jsstring \<Rightarrow> bool" where
  "isWrittenGFMURLSource md source \<longleftrightarrow>
     map_option snd (writtenGFMURLSourceRange md source 0 (length source)) = Some (length source)"

definition hasWrittenURLBoundary :: "jsstring \<Rightarrow> nat \<Rightarrow> nat \<Rightarrow> bool \<Rightarrow> bool" where
  "hasWrittenURLBoundary source i contextFrom allowInitialBOM =
     (if i = contextFrom then True
      else if allowInitialBOM \<and> contextFrom = 0 \<and> i = 1 \<and> source ! 0 = 0xfeff then True
      else if i = 0 \<or> i > length source then False
      else let code = source ! (i - 1)
        in (0x09 \<le> code \<and> code \<le> 0x0d) \<or> code \<in> {0x20, 0x28, 0x2a, 0x5f, 0x7e})"

definition writtenGFMURLSourceRangeAt ::
    "md_text \<Rightarrow> jsstring \<Rightarrow> nat \<Rightarrow> nat \<Rightarrow> nat \<Rightarrow> bool \<Rightarrow> (nat \<times> nat) option" where
  "writtenGFMURLSourceRangeAt md source i contextFrom upperBound allowInitialBOM =
     (if \<not> hasWrittenURLBoundary source i contextFrom allowInitialBOM then None
      else writtenGFMURLSourceRange md source i upperBound)"

subsection \<open>Where a URL ends\<close>

lemma entity_at_end_amp:
  assumes "entity_at_end s = Some k"
  shows "s ! (length s - k) = 0x26" "count_list (drop (length s - k) s) 0x28 = 0"
    "count_list (drop (length s - k) s) 0x29 = 0"
proof -
  obtain c r where r: "rev s = c # r" using assms by (cases "rev s") (auto simp: entity_at_end_def)
  let ?k = "length (takeWhile is_alpha r)"
  have k: "k = ?k + 2" "?k < length r" "r ! ?k = 0x26" "c = 0x3b"
    using assms r by (auto simp: entity_at_end_def Let_def split: if_splits)
  have s: "s = rev r @ [c]" using r by (metis rev.simps(2) rev_swap)
  have lt: "length r - Suc ?k < length r" using k(2) by linarith
  then have "s ! (length s - k) = rev r ! (length r - Suc ?k)"
    using k s by (simp add: nth_append)
  also have "\<dots> = r ! ?k" using k lt by (simp add: rev_nth)
  finally show "s ! (length s - k) = 0x26" using k by simp
  have "take (Suc ?k) r = takeWhile is_alpha r @ [0x26]"
    using k by (simp add: take_Suc_conv_app_nth takeWhile_eq_take [symmetric])
  then have "rev (drop (length s - k) s) = 0x3b # takeWhile is_alpha r @ [0x26]"
    using r k by (simp add: rev_drop)
  then have "set (rev (drop (length s - k) s)) \<subseteq> insert 0x3b (insert 0x26 {c. is_alpha c})"
    by (auto dest: set_takeWhileD)
  then show "count_list (drop (length s - k) s) 0x28 = 0" "count_list (drop (length s - k) s) 0x29 = 0"
    by (auto simp: count_list_0_iff char_class_defs)
qed

lemma trim_tail_le: "trim_tail source i u to \<le> to"
proof (induction source i u to rule: trim_tail.induct)
  case (1 source i u to)
  then show ?case
    by (subst trim_tail.simps) (fastforce simp: Let_def split: option.split)
qed

lemma trim_tail_gt:
  "i < to \<Longrightarrow> to \<le> length source \<Longrightarrow> is_alpha (source ! i) \<Longrightarrow> i < trim_tail source i u to"
proof (induction source i u to rule: trim_tail.induct)
  case (1 source i u to)
  let ?t = "slice source i to"
  have len: "length ?t = to - i" "?t ! 0 = source ! i"
    using 1(4,5) by (simp_all add: length_slice slice_def)
  show ?case
  proof (cases "entity_at_end ?t")
    case (Some k)
    note e = entity_at_end_amp [OF Some] entity_at_end_le [OF Some]
    have "k \<noteq> to - i" using e(1) len 1(6) by (auto simp: char_class_defs)
    then have "i < to - k" using e(4) len by linarith
    then show ?thesis using 1(3) [OF _ Some] 1(4-6) Some by (subst trim_tail.simps) simp
  next
    case None
    have "i < to - 1" if "\<not> is_alpha (source ! (to - 1))"
      using that 1(4,6) by (cases "i = to - 1") auto
    then show ?thesis
      using 1(1,2) [OF _ None refl] 1(4-6) None
      by (subst trim_tail.simps) (auto simp: Let_def TRAILING_PUNCTUATION_def char_class_defs)
  qed
qed

text \<open>What is left ends in no punctuation, no entity and no unmatched closing parenthesis.\<close>

definition trimmed_end :: "jsstring \<Rightarrow> nat \<Rightarrow> nat \<Rightarrow> bool" where
  "trimmed_end source i to \<longleftrightarrow>
     entity_at_end (slice source i to) = None \<and> source ! (to - 1) \<notin> TRAILING_PUNCTUATION \<and>
     source ! (to - 1) \<noteq> 0x5d \<and>
     (source ! (to - 1) = 0x29 \<longrightarrow> count_list (slice source i to) 0x29 \<le> count_list (slice source i to) 0x28)"

lemma slice_last: "i < to \<Longrightarrow> to \<le> length s \<Longrightarrow> slice s i to = slice s i (to - 1) @ [s ! (to - 1)]"
proof -
  assume a: "i < to" "to \<le> length s"
  then obtain k where k: "to = Suc k" by (cases to) auto
  with a show ?thesis by (simp add: slice_def Suc_diff_le take_Suc_conv_app_nth)
qed

lemma slice_split: "i \<le> j \<Longrightarrow> j \<le> to \<Longrightarrow> slice s i to = slice s i j @ slice s j to"
  by (simp add: slice_append_slice)

lemma trim_tail_trimmed:
  "i < to \<Longrightarrow> to \<le> length source \<Longrightarrow> is_alpha (source ! i) \<Longrightarrow>
   u = int (count_list (slice source i to) 0x29) - int (count_list (slice source i to) 0x28) \<Longrightarrow>
   trimmed_end source i (trim_tail source i u to)"
proof (induction source i u to rule: trim_tail.induct)
  case (1 source i u to)
  let ?t = "slice source i to"
  have len: "length ?t = to - i" using 1(4,5) by (simp add: length_slice)
  show ?case
  proof (cases "entity_at_end ?t")
    case (Some k)
    note e = entity_at_end_amp [OF Some] entity_at_end_le [OF Some]
    have "?t ! 0 = source ! i" using 1(4,5) by (simp add: slice_def)
    then have "k \<noteq> to - i" using e(1) len 1(6) by (auto simp: char_class_defs)
    then have lt: "i < to - k" using e(4) len by linarith
    have "?t = slice source i (to - k) @ slice source (to - k) to" using lt by (intro slice_split) auto
    moreover have "drop (length ?t - k) ?t = slice source (to - k) to"
      using lt len e(4) by (simp add: slice_def drop_take)
    ultimately have "count_list ?t x = count_list (slice source i (to - k)) x" if "x = 0x28 \<or> x = 0x29" for x
      using e(2,3) that by (metis count_list_append add.right_neutral)
    then show ?thesis using 1(3) [OF _ Some] 1(4-7) Some lt by (subst trim_tail.simps) simp
  next
    case None
    let ?c = "source ! (to - 1)"
    note sl = slice_last [OF 1(4,5)]
    have gt: "i < to - 1" if "\<not> is_alpha ?c"
      using that 1(4,6) by (cases "i = to - 1") auto
    consider (close) "?c = 0x29" "u > 0" | (punct) "?c = 0x5d \<or> ?c \<in> TRAILING_PUNCTUATION"
      | (stop) "?c \<noteq> 0x5d" "?c \<notin> TRAILING_PUNCTUATION" "?c = 0x29 \<longrightarrow> u \<le> 0"
      by linarith
    then show ?thesis
    proof cases
      case close
      then show ?thesis
        using 1(1) [OF _ None refl] 1(4-7) None gt sl by (subst trim_tail.simps) (simp add: char_class_defs)
    next
      case punct
      then have "?c \<noteq> 0x28" "?c \<noteq> 0x29" "\<not> is_alpha ?c"
        by (auto simp: TRAILING_PUNCTUATION_def char_class_defs)
      with punct show ?thesis
        using 1(2) [OF _ None refl] 1(4-7) None gt sl by (subst trim_tail.simps) simp
    next
      case stop
      then show ?thesis
        using 1(4-7) None by (subst trim_tail.simps) (auto simp: Let_def trimmed_end_def)
    qed
  qed
qed

lemma prefixEnd_bounds: "prefixEnd source i = Some d \<Longrightarrow> i < d \<and> d \<le> length source \<and> is_alpha (source ! i)"
proof -
  assume d: "prefixEnd source i = Some d"
  then obtain pre where pre: "starts_with_at source pre i" "d = i + length pre" "pre \<noteq> []" "is_alpha (hd pre)"
    by (auto simp: prefixEnd_def js_str char_class_defs split: if_splits)
  then obtain t where t: "drop i source = pre @ t"
    by (auto simp: starts_with_at_def starts_with_prefix prefix_def)
  then have len: "length source = i + length pre + length t" using pre(3)
    by (metis add.assoc append_is_Nil_conv drop_eq_Nil le_add_diff_inverse length_append length_drop nat_le_linear)
  have "source ! i = hd pre" using t pre(3) len by (metis append_is_Nil_conv hd_append2 hd_drop_conv_nth drop_eq_Nil not_le)
  then show ?thesis using pre len by auto
qed

lemma domain_end_ge: "i \<le> domain_end md source i ub"
proof (induction md source i ub rule: domain_end.induct)
  case (1 md source i ub)
  show ?case
  proof (cases "i < ub \<and> domainCharacterSize md source i \<noteq> 0")
    case True
    with 1 show ?thesis by (subst domain_end.simps) (simp add: add_leD1)
  qed (subst domain_end.simps, auto)
qed

lemma path_end_ge: "i \<le> path_end md source i ub"
proof (induction md source i ub rule: path_end.induct)
  case (1 md source i ub)
  then show ?case by (subst path_end.simps) (fastforce simp: Let_def)
qed

text \<open>Reading code points of a whole source never steps past its end.\<close>

definition utf16 :: "jsstring \<Rightarrow> bool" where
  "utf16 s \<longleftrightarrow> (\<forall>c \<in> set s. c \<le> 0xffff)"

lemma code_point_fits:
  assumes "utf16 s" "code_point_at s i = Some p"
  shows "i + length (from_code_point p) \<le> length s"
proof -
  have i: "i < length s" using assms(2) by (auto simp: code_point_at_def split: if_splits)
  then have "s ! i \<le> 0xffff" using assms(1) by (simp add: utf16_def)
  then show ?thesis using assms(2) i
    by (auto simp: code_point_at_def from_code_point_def split: if_splits)
qed

lemma domain_end_le:
  "utf16 source \<Longrightarrow> ub \<le> length source \<Longrightarrow> i \<le> length source \<Longrightarrow> domain_end md source i ub \<le> length source"
proof (induction md source i ub rule: domain_end.induct)
  case (1 md source i ub)
  show ?case
  proof (cases "i < ub \<and> domainCharacterSize md source i \<noteq> 0")
    case True
    then obtain p where p: "code_point_at source i = Some p"
      using 1(3) by (auto simp: code_point_at_def)
    then have "i + domainCharacterSize md source i \<le> length source"
      using code_point_fits [OF 1(2) p] 1(4) by (simp add: domainCharacterSize_def)
    then show ?thesis using 1 True by (subst domain_end.simps) simp
  next
    case False
    then show ?thesis using 1 by (subst domain_end.simps) auto
  qed
qed

lemma path_end_le:
  "utf16 source \<Longrightarrow> ub \<le> length source \<Longrightarrow> i \<le> length source \<Longrightarrow> path_end md source i ub \<le> length source"
proof (induction md source i ub rule: path_end.induct)
  case (1 md source i ub)
  show ?case
  proof (cases "i < ub")
    case True
    then obtain p where p: "code_point_at source i = Some p"
      using 1(3) by (auto simp: code_point_at_def)
    note fits = code_point_fits [OF 1(2) p]
    show ?thesis
      using 1(1) [OF True] 1(2-4) True p fits by (subst path_end.simps) (auto simp: Let_def)
  next
    case False
    then show ?thesis using 1 by (subst path_end.simps) simp
  qed
qed

lemma written_range:
  assumes "writtenGFMURLSourceRange md source i ub = Some (a, b)"
  shows "a = i \<and> i < b"
proof -
  obtain d where d: "prefixEnd source i = Some d"
    and ab: "a = i" "b = trimGFMURLTail source i (path_end md source (domain_end md source d ub) ub)"
    using assms by (auto simp: writtenGFMURLSourceRange_def Let_def split: option.splits if_splits)
  let ?to = "path_end md source (domain_end md source d ub) ub"
  have to: "i < ?to"
    using prefixEnd_bounds [OF d] domain_end_ge [of d md source ub] path_end_ge [of "domain_end md source d ub" md source ub]
    by linarith
  show ?thesis
  proof (cases "?to \<le> length source")
    case True
    then show ?thesis using trim_tail_gt [OF to] prefixEnd_bounds [OF d] ab by (simp add: trimGFMURLTail_def Let_def)
  next
    case False
    then show ?thesis using to ab by (simp add: trimGFMURLTail_def Let_def trim_tail.simps)
  qed
qed

lemma written_range_end:
  assumes "writtenGFMURLSourceRange md source i ub = Some (a, b)" "utf16 source" "ub \<le> length source"
  shows "b \<le> length source \<and> trimmed_end source i b"
proof -
  obtain d where d: "prefixEnd source i = Some d"
    and b: "b = trimGFMURLTail source i (path_end md source (domain_end md source d ub) ub)"
    using assms(1) by (auto simp: writtenGFMURLSourceRange_def Let_def split: option.splits if_splits)
  let ?to = "path_end md source (domain_end md source d ub) ub"
  have to: "i < ?to"
    using prefixEnd_bounds [OF d] domain_end_ge [of d md source ub] path_end_ge [of "domain_end md source d ub" md source ub]
    by linarith
  have "domain_end md source d ub \<le> length source"
    using prefixEnd_bounds [OF d] assms by (intro domain_end_le) auto
  then have le: "?to \<le> length source" using assms by (intro path_end_le)
  have "b \<le> ?to" unfolding b trimGFMURLTail_def Let_def by (rule trim_tail_le)
  then have "b \<le> length source" using le by simp
  moreover have "trimmed_end source i b"
    unfolding b trimGFMURLTail_def Let_def
    using to le prefixEnd_bounds [OF d] by (intro trim_tail_trimmed) auto
  ultimately show ?thesis by blast
qed

subsection \<open>All written URLs of a run\<close>

lemma written_range_at:
  "writtenGFMURLSourceRangeAt md source i ctx ub bom = Some (a, b) \<Longrightarrow> a = i \<and> i < b"
  by (auto simp: writtenGFMURLSourceRangeAt_def dest: written_range split: if_splits)

text \<open>The opaque ranges still to come are passed along; \<^verbatim>\<open>opaqueIndex\<close> only grows.\<close>

function url_loop ::
    "md_text \<Rightarrow> jsstring \<Rightarrow> nat \<Rightarrow> nat \<Rightarrow> nat \<Rightarrow> bool \<Rightarrow> (nat \<times> nat) list \<Rightarrow> nat \<Rightarrow> (nat \<times> nat) list" where
  "url_loop md source lowerBound upperBound contextFrom bom opaqueRanges offset =
     (if offset < upperBound then
        let later = dropWhile (\<lambda>r. snd r \<le> offset) opaqueRanges in
        if later \<noteq> [] \<and> fst (hd later) \<le> offset \<and> snd (hd later) > offset
        then url_loop md source lowerBound upperBound contextFrom bom later (snd (hd later))
        else
          case (if offset \<ge> lowerBound
                then writtenGFMURLSourceRangeAt md source offset contextFrom upperBound bom else None) of
            Some rng \<Rightarrow> rng # url_loop md source lowerBound upperBound contextFrom bom later (snd rng)
          | None \<Rightarrow> url_loop md source lowerBound upperBound contextFrom bom later (offset + 1)
      else [])"
  by pat_completeness auto

termination
  by (relation "measure (\<lambda>(md, source, lb, ub, ctx, bom, opq, offset). ub - offset)")
    (auto split: if_splits dest!: written_range_at simp: diff_less_mono2)

declare url_loop.simps [simp del]

definition findWrittenGFMURLRanges ::
    "md_text \<Rightarrow> jsstring \<Rightarrow> nat \<Rightarrow> nat \<Rightarrow> nat \<Rightarrow> (nat \<times> nat) list \<Rightarrow> bool \<Rightarrow> (nat \<times> nat) list" where
  "findWrittenGFMURLRanges md source lowerBound upperBound contextFrom opaqueRanges allowInitialBOM =
     url_loop md source lowerBound upperBound contextFrom allowInitialBOM opaqueRanges contextFrom"

text \<open>The three ways the loop goes on from an offset below the bound.\<close>

lemma url_loop_cases [consumes 1, case_names opaque hit miss]:
  assumes "offset < ub"
  obtains f t later where "dropWhile (\<lambda>r. snd r \<le> offset) opq = (f, t) # later" "f \<le> offset" "offset < t"
      "url_loop md s lb ub ctx bom opq offset = url_loop md s lb ub ctx bom ((f, t) # later) t"
  | b where "lb \<le> offset" "offset < b" "writtenGFMURLSourceRangeAt md s offset ctx ub bom = Some (offset, b)"
      "\<And>f t later. dropWhile (\<lambda>r. snd r \<le> offset) opq = (f, t) # later \<Longrightarrow> offset < f"
      "url_loop md s lb ub ctx bom opq offset =
        (offset, b) # url_loop md s lb ub ctx bom (dropWhile (\<lambda>r. snd r \<le> offset) opq) b"
  | "lb \<le> offset \<Longrightarrow> writtenGFMURLSourceRangeAt md s offset ctx ub bom = None"
      "url_loop md s lb ub ctx bom opq offset =
        url_loop md s lb ub ctx bom (dropWhile (\<lambda>r. snd r \<le> offset) opq) (offset + 1)"
proof -
  let ?later = "dropWhile (\<lambda>r. snd r \<le> offset) opq"
  have first: "offset < t" if "?later = (f, t) # later" for f t later
    using hd_dropWhile [of "\<lambda>r. snd r \<le> offset" opq] that by auto
  show ?thesis
  proof (cases "?later \<noteq> [] \<and> fst (hd ?later) \<le> offset")
    case True
    then obtain f t later where l: "?later = (f, t) # later" "f \<le> offset" by (cases ?later) auto
    have "url_loop md s lb ub ctx bom opq offset = url_loop md s lb ub ctx bom ((f, t) # later) t"
      using l first [OF l(1)] assms by (subst url_loop.simps) (simp add: Let_def)
    then show ?thesis using that(1) l first [OF l(1)] by blast
  next
    case False
    note step = url_loop.simps [of md s lb ub ctx bom opq offset]
    have nf: "offset < f" if "?later = (f, t) # later" for f t later using False that by auto
    show ?thesis
    proof (cases "if offset \<ge> lb then writtenGFMURLSourceRangeAt md s offset ctx ub bom else None")
      case None
      then show ?thesis using that(3) False step assms by (auto simp: Let_def split: if_splits)
    next
      case (Some rng)
      then obtain a b where ab: "rng = (a, b)" "writtenGFMURLSourceRangeAt md s offset ctx ub bom = Some (a, b)" "lb \<le> offset"
        by (cases rng) (auto split: if_splits)
      with written_range_at [OF ab(2)] show ?thesis
        using that(2) nf False step assms by (auto simp: Let_def)
    qed
  qed
qed

lemma url_loop_spaced:
  "utf16 s \<Longrightarrow> ub \<le> length s \<Longrightarrow>
   spaced offset (length s) (map (\<lambda>(a, b). (a, b, ())) (url_loop md s lb ub ctx bom opq offset))"
proof (induction "ub - offset" arbitrary: offset opq rule: less_induct)
  case less
  show ?case
  proof (cases "offset < ub")
    case True
    have m: "ub - j < ub - offset" if "offset < j" for j using True that by (simp add: diff_less_mono2)
    from True show ?thesis
    proof (cases rule: url_loop_cases [where opq = opq and md = md and s = s and lb = lb and ctx = ctx and bom = bom])
      case (opaque f t later)
      then show ?thesis
        using spaced_weaken [OF less.hyps [OF m [OF opaque(3)] less.prems, of "(f, t) # later"], of offset] by simp
    next
      case (hit b)
      then have "b \<le> length s"
        using written_range_end [OF _ less.prems, of md offset offset b]
        by (auto simp: writtenGFMURLSourceRangeAt_def split: if_splits)
      then show ?thesis using hit less.hyps [OF m less.prems, of b] by auto
    next
      case miss
      then show ?thesis
        using spaced_weaken [OF less.hyps [OF m less.prems, of "offset + 1"], of offset] by simp
    qed
  qed (simp add: url_loop.simps)
qed

lemma url_loop_sound:
  "(a, b) \<in> set (url_loop md s lb ub ctx bom opq offset) \<Longrightarrow>
   lb \<le> a \<and> writtenGFMURLSourceRangeAt md s a ctx ub bom = Some (a, b)"
proof (induction "ub - offset" arbitrary: offset opq rule: less_induct)
  case less
  show ?case
  proof (cases "offset < ub")
    case True
    have m: "ub - j < ub - offset" if "offset < j" for j using True that by (simp add: diff_less_mono2)
    from True show ?thesis
    proof (cases rule: url_loop_cases [where opq = opq and md = md and s = s and lb = lb and ctx = ctx and bom = bom])
      case (hit b)
      then show ?thesis using less.hyps [OF m, of b] less.prems by auto
    qed (use less.hyps [OF m] less.prems in auto)
  qed (use less.prems in \<open>simp add: url_loop.simps\<close>)
qed

lemma url_loop_complete:
  assumes "writtenGFMURLSourceRangeAt md s a ctx ub bom = Some (a, b)" "lb \<le> a" "a < ub"
  shows "offset \<le> a \<Longrightarrow> (\<exists>(f, t) \<in> set opq. f \<le> a \<and> a < t) \<or>
    (\<exists>(c, d) \<in> set (url_loop md s lb ub ctx bom opq offset). c \<le> a \<and> a < d)"
proof (induction "ub - offset" arbitrary: offset opq rule: less_induct)
  case less
  have "offset < ub" using less.prems assms(3) by simp
  have m: "ub - j < ub - offset" if "offset < j" for j using \<open>offset < ub\<close> that by (simp add: diff_less_mono2)
  have IH: "(\<exists>(f, t) \<in> set opq. f \<le> a \<and> a < t) \<or>
      (\<exists>(c, d) \<in> set (url_loop md s lb ub ctx bom later j). c \<le> a \<and> a < d)"
    if "offset < j" "j \<le> a" "set later \<subseteq> set opq" for j later
    using less.hyps [OF m [OF that(1)] that(2), of later] that(3) by blast
  have sub: "set (dropWhile (\<lambda>r. snd r \<le> offset) opq) \<subseteq> set opq" by (auto dest: set_dropWhileD)
  from \<open>offset < ub\<close> show ?case
  proof (cases rule: url_loop_cases [where opq = opq and md = md and s = s and lb = lb and ctx = ctx and bom = bom])
    case (opaque f t later)
    then have mem: "(f, t) \<in> set opq" "set ((f, t) # later) \<subseteq> set opq" using sub by auto
    show ?thesis
    proof (cases "a < t")
      case True
      then show ?thesis using opaque(2) less.prems mem(1)
        by (intro disjI1 bexI [of _ "(f, t)"]) simp_all
    next
      case False
      then show ?thesis using IH [OF opaque(3) _ mem(2)] unfolding opaque(4) by simp
    qed
  next
    case (hit d)
    show ?thesis
    proof (cases "a < d")
      case True
      then show ?thesis using less.prems unfolding hit(5) by simp
    next
      case False
      then show ?thesis using IH [OF hit(2) _ sub] unfolding hit(5) by simp
    qed
  next
    case miss
    then have "offset \<noteq> a" using assms by auto
    then show ?thesis using IH [OF _ _ sub, of "offset + 1"] less.prems unfolding miss(2) by simp
  qed
qed

text \<open>
  C29. The written URLs of a run are found in order and without overlap, inside the source; each stands at
  a boundary at or after the lower bound and ends in no punctuation, entity or unmatched parenthesis;
  and none is missed: where a URL stands, the offset lies in an opaque range or in a reported URL.
\<close>

theorem written_urls_found:
  assumes "utf16 source" and "upperBound \<le> length source"
    and "urls = findWrittenGFMURLRanges md source lowerBound upperBound contextFrom opaque bom"
  shows "spaced contextFrom (length source) (map (\<lambda>(a, b). (a, b, ())) urls) \<and>
    (\<forall>a b. (a, b) \<in> set urls \<longrightarrow>
       lowerBound \<le> a \<and> writtenGFMURLSourceRangeAt md source a contextFrom upperBound bom = Some (a, b) \<and>
       trimmed_end source a b) \<and>
    (\<forall>a b. lowerBound \<le> a \<and> contextFrom \<le> a \<and> a < upperBound \<and>
       writtenGFMURLSourceRangeAt md source a contextFrom upperBound bom = Some (a, b) \<longrightarrow>
       (\<exists>(f, t) \<in> set opaque. f \<le> a \<and> a < t) \<or> (\<exists>(c, d) \<in> set urls. c \<le> a \<and> a < d))"
proof (intro conjI allI impI)
  show "spaced contextFrom (length source) (map (\<lambda>(a, b). (a, b, ())) urls)"
    unfolding assms(3) findWrittenGFMURLRanges_def by (rule url_loop_spaced [OF assms(1,2)])
next
  fix a b assume "(a, b) \<in> set urls"
  then show s: "lowerBound \<le> a" "writtenGFMURLSourceRangeAt md source a contextFrom upperBound bom = Some (a, b)"
    unfolding assms(3) findWrittenGFMURLRanges_def by (auto dest: url_loop_sound)
  then show "trimmed_end source a b"
    using written_range_end [OF _ assms(1,2)] by (auto simp: writtenGFMURLSourceRangeAt_def split: if_splits)
next
  fix a b
  assume "lowerBound \<le> a \<and> contextFrom \<le> a \<and> a < upperBound \<and>
    writtenGFMURLSourceRangeAt md source a contextFrom upperBound bom = Some (a, b)"
  then show "(\<exists>(f, t) \<in> set opaque. f \<le> a \<and> a < t) \<or> (\<exists>(c, d) \<in> set urls. c \<le> a \<and> a < d)"
    unfolding assms(3) findWrittenGFMURLRanges_def by (intro url_loop_complete) auto
qed

definition sample_md_text :: md_text where
  "sample_md_text = \<lparr>decodeString = (\<lambda>s. s), is_letter_or_number = is_alnum, is_separator = (\<lambda>c. c = 0x20)\<rparr>"

lemma sample_url:
  "writtenGFMURLSourceRangeAt sample_md_text (js ''(www.a.b)'') 1 0 9 True = Some (1, 8)"
  by (simp add: writtenGFMURLSourceRangeAt_def hasWrittenURLBoundary_def writtenGFMURLSourceRange_def
      prefixEnd_def starts_with_at_def domain_end.simps domainCharacterSize_def code_point_at_def
      from_code_point_def is_high_surrogate_def sample_md_text_def char_class_defs hasValidDomain_def
      slice_def path_end.simps trimGFMURLTail_def trim_tail.simps entity_at_end_def TRAILING_PUNCTUATION_def
      Let_def js_str)

theorem written_urls_found_witness:
  "\<exists>(c, d) \<in> set (findWrittenGFMURLRanges sample_md_text (js ''(www.a.b)'') 0 9 0 [] True). c \<le> 1 \<and> 1 < d"
  using written_urls_found [of "js ''(www.a.b)''" 9 _ sample_md_text 0 0 "[]" True] sample_url
  by (auto simp: utf16_def js_str)

end
