(* ===== verification/WrittenEmails.thy ===== *)
theory WrittenEmails
  imports WrittenUrls
begin

text \<open>
  E-mail addresses written in a run of Markdown text (the scanner of \<^verbatim>\<open>utils/gfm-email.ts\<close>). The run is
  first projected to the text Markdown shows, with the source range behind every code unit; addresses
  are found in the projection and reported as source ranges. Bounds lie within the source, as for every
  caller (past the end the source's loop over code points would not move).
\<close>

definition isLocalChar :: "nat \<Rightarrow> bool" where
  "isLocalChar c \<longleftrightarrow> is_alnum c \<or> c = 0x2e \<or> c = 0x5f \<or> c = 0x2b \<or> c = 0x2d"

definition is_domain_char :: "nat \<Rightarrow> bool" where
  "is_domain_char c \<longleftrightarrow> is_alnum c \<or> c = 0x5f \<or> c = 0x2d"

section \<open>Projection\<close>

record EmailProjection =
  pj_value :: jsstring
  pj_starts :: "nat list"
  pj_ends :: "nat list"

definition add_projected :: "jsstring \<Rightarrow> nat \<Rightarrow> nat \<Rightarrow> EmailProjection \<Rightarrow> EmailProjection" where
  "add_projected chars i j p =
     \<lparr>pj_value = chars @ pj_value p, pj_starts = replicate (length chars) i @ pj_starts p,
      pj_ends = replicate (length chars) j @ pj_ends p\<rparr>"

function projectEmailText :: "md_text \<Rightarrow> jsstring \<Rightarrow> nat \<Rightarrow> nat \<Rightarrow> EmailProjection" where
  "projectEmailText md source cursor upperBound =
     (if cursor < upperBound \<and> cursor < length source then
        if source ! cursor = 0x5c \<and> cursor + 1 < upperBound \<and> cursor + 1 < length source \<and>
           isASCIIPunctuation (source ! (cursor + 1))
        then add_projected [source ! (cursor + 1)] cursor (cursor + 2)
               (projectEmailText md source (cursor + 2) upperBound)
        else
          case decodedMarkdownCharacterReferenceAt md source cursor upperBound of
            Some reference \<Rightarrow>
              add_projected (dm_value reference) cursor (dm_to reference)
                (projectEmailText md source (dm_to reference) upperBound)
          | None \<Rightarrow>
              let character = (case code_point_at source cursor of None \<Rightarrow> [] | Some p \<Rightarrow> from_code_point p)
              in add_projected character cursor (cursor + length character)
                   (projectEmailText md source (cursor + length character) upperBound)
      else \<lparr>pj_value = [], pj_starts = [], pj_ends = []\<rparr>)"
  by pat_completeness auto

termination
  by (relation "measure (\<lambda>(md, source, i, ub). length source - i)")
    (auto dest!: reference_at_bounds simp: code_point_at_def diff_less_mono2 split: option.split)

declare projectEmailText.simps [simp del]

section \<open>Matching\<close>

text \<open>
  \<^verbatim>\<open>/^@(?:[A-Za-z0-9_-]+\.)+[A-Za-z0-9_-]*[A-Za-z0-9]/\<close>: the pattern takes the last label, after at least one
  complete label, that holds a letter or digit, up to its last letter or digit.
\<close>

definition domain_labels :: "jsstring \<Rightarrow> jsstring list" where
  "domain_labels t =
     takeWhile (\<lambda>w. w \<noteq> []) (split_on 0x2e (takeWhile (\<lambda>c. is_domain_char c \<or> c = 0x2e) (tl t)))"

definition domain_match :: "jsstring \<Rightarrow> nat option" where
  "domain_match t =
     (if t = [] \<or> hd t \<noteq> 0x40 then None
      else
        let labels = domain_labels t
        in map_option (\<lambda>j. 1 + sum_list (map (\<lambda>w. length w + 1) (take j labels)) +
             length (dropWhile (\<lambda>c. \<not> is_alnum c) (rev (labels ! j))))
           (find (\<lambda>j. \<exists>c \<in> set (labels ! j). is_alnum c) (rev [1..<length labels])))"

fun local_start :: "jsstring \<Rightarrow> nat \<Rightarrow> nat \<Rightarrow> nat" where
  "local_start source lowerBound 0 = 0"
| "local_start source lowerBound (Suc k) =
     (if lowerBound < Suc k \<and> isLocalChar (source ! k) then local_start source lowerBound k else Suc k)"

definition matchEmailAt :: "jsstring \<Rightarrow> nat \<Rightarrow> nat \<Rightarrow> nat \<Rightarrow> (nat \<times> nat \<times> jsstring) option" where
  "matchEmailAt source at lowerBound upperBound =
     (let start = local_start source lowerBound at in
      if start = at then None
      else case domain_match (slice source at upperBound) of
        None \<Rightarrow> None
      | Some n \<Rightarrow>
          let end_at = at + n
          in if end_at < upperBound \<and> (source ! end_at = 0x2d \<or> source ! end_at = 0x5f) then None
             else Some (start, end_at, slice source start end_at))"

definition index_from :: "nat \<Rightarrow> jsstring \<Rightarrow> nat \<Rightarrow> nat option" where
  "index_from c s cursor = find (\<lambda>i. s ! i = c) [cursor..<length s]"

lemma index_from_Some: "index_from c s cursor = Some i \<Longrightarrow> cursor \<le> i \<and> i < length s \<and> s ! i = c"
  by (auto simp: index_from_def find_Some_iff)

lemma match_end: "matchEmailAt s at lb ub = Some (f, t, v) \<Longrightarrow> at < t"
  by (auto simp: matchEmailAt_def domain_match_def Let_def split: if_splits option.splits)

text \<open>The loop over the projection, in its own offsets.\<close>

function email_loop :: "jsstring \<Rightarrow> nat \<Rightarrow> (nat \<times> nat \<times> jsstring) list" where
  "email_loop s cursor =
     (case index_from 0x40 s cursor of
        None \<Rightarrow> []
      | Some at \<Rightarrow>
          (case matchEmailAt s at cursor (length s) of
             None \<Rightarrow> email_loop s (at + 1)
           | Some (f, t, v) \<Rightarrow> (f, t, v) # email_loop s t))"
  by pat_completeness auto

termination
  by (relation "measure (\<lambda>(s, i). length s - i)") (auto dest!: index_from_Some match_end)

declare email_loop.simps [simp del]

record GFMEmailSourceRange =
  em_from :: nat
  em_to :: nat
  em_value :: jsstring

definition findGFMEmailMatches :: "md_text \<Rightarrow> jsstring \<Rightarrow> nat \<Rightarrow> nat \<Rightarrow> GFMEmailSourceRange list" where
  "findGFMEmailMatches md source lowerBound upperBound =
     (let p = projectEmailText md source lowerBound upperBound
      in map (\<lambda>(f, t, v). \<lparr>em_from = pj_starts p ! f, em_to = pj_ends p ! (t - 1), em_value = v\<rparr>)
           (email_loop (pj_value p) 0))"

definition isGFMEmailURLSource :: "jsstring \<Rightarrow> bool" where
  "isGFMEmailURLSource source \<longleftrightarrow>
     0x40 \<in> set source \<and>
     \<not> (starts_with source (js ''http://'') \<or> starts_with source (js ''https://'') \<or> starts_with source (js ''www.''))"

section \<open>The shape of a match\<close>

lemma local_start_le: "local_start s lb at \<le> at"
  by (induction at) auto

lemma local_start_ge: "lb \<le> at \<Longrightarrow> lb \<le> local_start s lb at"
  by (induction at) (auto simp: le_Suc_eq)

lemma local_start_local: "local_start s lb at \<le> i \<Longrightarrow> i < at \<Longrightarrow> isLocalChar (s ! i)"
  by (induction at) (auto simp: less_Suc_eq split: if_splits)

lemma local_start_maximal:
  "lb \<le> at \<Longrightarrow> local_start s lb at = lb \<or> \<not> isLocalChar (s ! (local_start s lb at - 1))"
  by (induction at) (auto simp: le_Suc_eq)

lemma split_on_concat: "concat (map (\<lambda>w. w @ [sep]) (split_on sep s)) = s @ [sep]"
proof (induction s)
  case (Cons c s)
  obtain w ws where "split_on sep s = w # ws" by (cases "split_on sep s") auto
  with Cons show ?case by auto
qed simp

lemma snoc_prefix: "r @ [d] = u @ d # y \<Longrightarrow> prefix u r"
  by (cases y rule: rev_cases) (auto simp: prefix_def)

text \<open>The text of the first labels is a prefix of the run after the at sign.\<close>

lemma labels_prefix:
  assumes "j < length (domain_labels t)"
  shows "prefix (concat (map (\<lambda>w. w @ [0x2e]) (take j (domain_labels t))) @ domain_labels t ! j) (tl t)"
proof -
  let ?run = "takeWhile (\<lambda>c. is_domain_char c \<or> c = 0x2e) (tl t)"
  obtain rest where ps: "split_on 0x2e ?run = domain_labels t @ rest"
    using takeWhile_dropWhile_id [symmetric] unfolding domain_labels_def by blast
  obtain A b C where L: "domain_labels t = A @ b # C" "take j (domain_labels t) = A" "domain_labels t ! j = b"
    using id_take_nth_drop [OF assms] by blast
  have "?run @ [0x2e] = (concat (map (\<lambda>w. w @ [0x2e]) A) @ b) @ 0x2e # concat (map (\<lambda>w. w @ [0x2e]) (C @ rest))"
    using split_on_concat [of 46 ?run] by (simp add: ps L(1))
  from snoc_prefix [OF this] have "prefix (concat (map (\<lambda>w. w @ [0x2e]) (take j (domain_labels t))) @ domain_labels t ! j) ?run"
    unfolding L(2,3) .
  then show ?thesis by (metis prefix_order.trans takeWhile_is_prefix)
qed

lemma length_labels: "length (concat (map (\<lambda>w. w @ [d]) ws)) = sum_list (map (\<lambda>w. length w + 1) ws)"
  by (induction ws) auto

lemma last_alnum:
  assumes "\<exists>c \<in> set w. is_alnum c"
  defines "m \<equiv> length (dropWhile (\<lambda>c. \<not> is_alnum c) (rev w))"
  shows "0 < m \<and> m \<le> length w \<and> is_alnum (w ! (m - 1))"
proof -
  let ?d = "dropWhile (\<lambda>c. \<not> is_alnum c) (rev w)"
  have ne: "?d \<noteq> []" using assms(1) by auto
  then have "is_alnum (hd ?d)" using hd_dropWhile [OF ne] by simp
  moreover obtain k where k: "?d = drop k (rev w)" "k < length w"
    using ne by (simp add: dropWhile_eq_drop not_le)
  moreover have "hd (drop k (rev w)) = w ! (length w - Suc k)"
    using k(2) by (simp add: hd_drop_conv_nth rev_nth)
  moreover have "m = length w - k" using k by (simp add: m_def)
  ultimately show ?thesis by simp
qed

text \<open>A matched domain lies in the text, holds a dot and ends in a letter or digit.\<close>

lemma domain_match_shape:
  assumes "domain_match t = Some n"
  shows "1 < n \<and> n \<le> length t \<and> t ! 0 = 0x40 \<and> is_alnum (t ! (n - 1)) \<and> (\<exists>i. 1 < i \<and> i < n \<and> t ! i = 0x2e)"
proof -
  define ls where "ls = domain_labels t"
  obtain j where j: "find (\<lambda>j. \<exists>c \<in> set (ls ! j). is_alnum c) (rev [1..<length ls]) = Some j"
    and t: "t \<noteq> []" "hd t = 0x40"
    and n: "n = 1 + sum_list (map (\<lambda>w. length w + 1) (take j ls)) +
      length (dropWhile (\<lambda>c. \<not> is_alnum c) (rev (ls ! j)))"
    using assms by (auto simp: domain_match_def Let_def ls_def split: if_splits)
  from j have jl: "1 \<le> j" "j < length ls" "\<exists>c \<in> set (ls ! j). is_alnum c"
    by (auto simp: find_Some_iff rev_nth)
  let ?a = "concat (map (\<lambda>w. w @ [0x2e]) (take j ls))"
  let ?m = "length (dropWhile (\<lambda>c. \<not> is_alnum c) (rev (ls ! j)))"
  note m = last_alnum [OF jl(3)]
  obtain rest where "tl t = ?a @ ls ! j @ rest"
    using labels_prefix [OF jl(2) [unfolded ls_def], folded ls_def] by (auto simp: prefix_def)
  then have tt: "t = 0x40 # ?a @ ls ! j @ rest" using t by (cases t) auto
  have nn: "n = 1 + length ?a + ?m" using n by (simp add: length_labels)
  obtain m' where m': "?m = Suc m'" using m by (cases ?m) auto
  have "n - 1 = Suc (length ?a + m')" using nn m' by simp
  then have "t ! (n - 1) = (ls ! j @ rest) ! m'"
    by (subst tt) (simp only: nth_Cons_Suc nth_append_length_plus)
  then have "t ! (n - 1) = (ls ! j) ! (?m - 1)" using m m' by (simp add: nth_append)
  moreover have "n \<le> length t" using m nn by (subst tt) simp
  moreover have "\<exists>i. 1 < i \<and> i < n \<and> t ! i = 0x2e"
  proof -
    have w: "w \<noteq> []" if "w \<in> set ls" for w
      using that by (auto simp: ls_def domain_labels_def dest: set_takeWhileD)
    obtain ws where a: "take j ls = ls ! 0 # ws" using jl(1,2) by (cases ls; cases j) auto
    have "ls ! 0 \<noteq> []" using w jl(2) by (cases ls) auto
    then have "1 < 1 + length (ls ! 0)" "1 + length (ls ! 0) < n" "t ! (1 + length (ls ! 0)) = 0x2e"
      using nn m a by (simp_all add: tt)
    then show ?thesis by blast
  qed
  ultimately show ?thesis using m nn tt by auto
qed

section \<open>Addresses of the grammar\<close>

text \<open>
  What an address is, apart from the scanner: a local part of letters, digits and the four signs, an at sign,
  and a domain of at least two labels joined by dots, none of them empty, of letters, digits, underscores and
  dashes, that ends in a letter or digit.
\<close>

definition local_unit :: "nat \<Rightarrow> bool" where
  "local_unit c \<longleftrightarrow> is_alnum c \<or> c \<in> set (js ''.+_-'')"

definition label_unit :: "nat \<Rightarrow> bool" where
  "label_unit c \<longleftrightarrow> is_alnum c \<or> c \<in> set (js ''_-'')"

definition dotted_domain :: "jsstring \<Rightarrow> bool" where
  "dotted_domain w \<longleftrightarrow>
     (\<exists>labels. w = join_with (js ''.'') labels \<and> 2 \<le> length labels \<and>
        (\<forall>l \<in> set labels. l \<noteq> [] \<and> (\<forall>c \<in> set l. label_unit c)) \<and> is_alnum (last (last labels)))"

definition longest_domain :: "jsstring \<Rightarrow> nat \<Rightarrow> bool" where
  "longest_domain u n \<longleftrightarrow> n \<le> length u \<and> dotted_domain (take n u) \<and>
     (\<forall>m \<le> length u. n < m \<longrightarrow> \<not> dotted_domain (take m u))"

text \<open>
  An address at an at sign whose local part may not start before a bound: both of its parts are as long as
  they can be, and no dash or underscore follows.
\<close>

definition email_address :: "jsstring \<Rightarrow> nat \<Rightarrow> nat \<times> nat \<times> nat \<Rightarrow> bool" where
  "email_address s lb = (\<lambda>(f, at, t).
     lb \<le> f \<and> f < at \<and> at < t \<and> t \<le> length s \<and> s ! at = 0x40 \<and>
     (\<forall>i \<in> {f..<at}. local_unit (s ! i)) \<and> (f = lb \<or> \<not> local_unit (s ! (f - 1))) \<and>
     longest_domain (drop (at + 1) s) (t - (at + 1)) \<and> \<not> (t < length s \<and> s ! t \<in> set (js ''-_'')))"

text \<open>The addresses of a text: the first one, then those that start at its end or later.\<close>

primrec leftmost_addresses :: "jsstring \<Rightarrow> nat \<Rightarrow> (nat \<times> nat \<times> nat) list \<Rightarrow> bool" where
  "leftmost_addresses s lb [] \<longleftrightarrow> (\<forall>a. \<not> email_address s lb a)"
| "leftmost_addresses s lb (a # rest) \<longleftrightarrow>
     email_address s lb a \<and> (\<forall>b. fst (snd b) < fst (snd a) \<longrightarrow> \<not> email_address s lb b) \<and>
     leftmost_addresses s (snd (snd a)) rest"

lemma local_unit_eq: "local_unit = isLocalChar"
  by (auto simp: local_unit_def isLocalChar_def js_str fun_eq_iff)

lemma label_unit_eq: "label_unit = is_domain_char"
  by (auto simp: label_unit_def is_domain_char_def js_str fun_eq_iff)

lemma label_unit_no_dot: "\<not> label_unit 0x2e"
  by (simp add: label_unit_def char_class_defs js_str)

lemma js_dot: "js ''.'' = [0x2e]"
  by (simp add: js_str)

lemma local_start_unique:
  assumes "lb \<le> f" "f < at" "\<forall>i \<in> {f..<at}. isLocalChar (s ! i)" "f = lb \<or> \<not> isLocalChar (s ! (f - 1))"
  shows "local_start s lb at = f"
proof -
  let ?g = "local_start s lb at"
  have at: "lb \<le> at" using assms(1,2) by simp
  have "\<not> ?g < f"
  proof
    assume g: "?g < f"
    then have "isLocalChar (s ! (f - 1))" using local_start_local [of s lb at "f - 1"] assms(2) by simp
    moreover have "f \<noteq> lb" using g local_start_ge [OF at, of s] by simp
    ultimately show False using assms(4) by simp
  qed
  moreover have "\<not> f < ?g"
  proof
    assume g: "f < ?g"
    then have "?g - 1 \<in> {f..<at}" using local_start_le [of s lb at] by auto
    then have "isLocalChar (s ! (?g - 1))" using assms(3) by blast
    then show False using local_start_maximal [OF at, of s] g assms(1) by auto
  qed
  ultimately show ?thesis by simp
qed

lemma prefix_split_on:
  "prefix w u \<Longrightarrow> \<exists>k < length (split_on d u). split_on d w = take k (split_on d u) @ [last (split_on d w)] \<and>
     prefix (last (split_on d w)) (split_on d u ! k)"
proof (induction w arbitrary: u)
  case (Cons c w)
  obtain u' where u: "u = c # u'" "prefix w u'" using Cons.prems by (cases u) auto
  obtain k where k: "k < length (split_on d u')" "split_on d w = take k (split_on d u') @ [last (split_on d w)]"
      "prefix (last (split_on d w)) (split_on d u' ! k)"
    using Cons.IH [OF u(2)] by blast
  obtain a as where a: "split_on d u' = a # as" by (cases "split_on d u'") auto
  show ?case
  proof (cases "c = d")
    case True
    then show ?thesis using k u(1) by (intro exI [of _ "Suc k"]) auto
  next
    case False
    show ?thesis
    proof (cases k)
      case 0
      then have "split_on d w = [last (split_on d w)]" "prefix (last (split_on d w)) a" using k a by simp_all
      then obtain p where "split_on d w = [p]" "prefix p a" by metis
      then show ?thesis using False a u(1) by (intro exI [of _ 0]) simp
    next
      case (Suc j)
      then obtain p where "split_on d w = a # take j as @ [p]" "prefix p (as ! j)" "j < length as"
        using k a by (metis append_Cons length_Cons nth_Cons_Suc not_less_eq take_Suc_Cons)
      then show ?thesis using False a u(1) by (intro exI [of _ "Suc j"]) simp
    qed
  qed
qed auto

lemma dotted_domain_split:
  "dotted_domain w \<longleftrightarrow>
     2 \<le> length (split_on 0x2e w) \<and> (\<forall>l \<in> set (split_on 0x2e w). l \<noteq> [] \<and> (\<forall>c \<in> set l. label_unit c)) \<and>
     is_alnum (last (last (split_on 0x2e w)))"
proof
  assume "dotted_domain w"
  then obtain labels where l: "w = join_with [0x2e] labels" "2 \<le> length labels"
      "\<forall>l \<in> set labels. l \<noteq> [] \<and> (\<forall>c \<in> set l. label_unit c)" "is_alnum (last (last labels))"
    unfolding dotted_domain_def js_dot by blast
  have "\<forall>l \<in> set labels. 0x2e \<notin> set l" using l(3) label_unit_no_dot by blast
  moreover have "labels \<noteq> []" using l(2) by auto
  ultimately have "split_on 0x2e w = labels" using split_join_on [of labels "0x2e"] l(1) by simp
  with l show "2 \<le> length (split_on 0x2e w) \<and> (\<forall>l \<in> set (split_on 0x2e w). l \<noteq> [] \<and> (\<forall>c \<in> set l. label_unit c)) \<and>
     is_alnum (last (last (split_on 0x2e w)))" by simp
next
  assume "2 \<le> length (split_on 0x2e w) \<and> (\<forall>l \<in> set (split_on 0x2e w). l \<noteq> [] \<and> (\<forall>c \<in> set l. label_unit c)) \<and>
     is_alnum (last (last (split_on 0x2e w)))"
  then show "dotted_domain w"
    unfolding dotted_domain_def js_dot by (metis join_split_on)
qed

text \<open>The end of the pattern's match in a label, and the label it ends in.\<close>

definition domain_end :: "jsstring list \<Rightarrow> nat \<Rightarrow> nat" where
  "domain_end ls j =
     sum_list (map (\<lambda>w. length w + 1) (take j ls)) + length (dropWhile (\<lambda>c. \<not> is_alnum c) (rev (ls ! j)))"

lemma find_last:
  "find P (rev [1..<n]) = Some j \<longleftrightarrow> 1 \<le> j \<and> j < n \<and> P j \<and> (\<forall>k. j < k \<and> k < n \<longrightarrow> \<not> P k)"
proof (induction n)
  case (Suc n)
  then show ?case by (cases "1 \<le> n") (auto simp: less_Suc_eq)
qed simp

lemma domain_end_mono:
  assumes "j < k" "k < length ls"
  shows "domain_end ls j < sum_list (map (\<lambda>w. length w + 1) (take k ls)) + 1"
proof -
  have "length (dropWhile (\<lambda>c. \<not> is_alnum c) (rev (ls ! j))) \<le> length (ls ! j)"
    using length_dropWhile_le [of _ "rev (ls ! j)"] by simp
  then have "domain_end ls j < sum_list (map (\<lambda>w. length w + 1) (take (Suc j) ls))"
    using assms by (simp add: domain_end_def take_Suc_conv_app_nth)
  also have "take k ls = take (Suc j) ls @ take (k - Suc j) (drop (Suc j) ls)"
    using assms(1) by (metis Suc_leI le_add_diff_inverse take_add)
  then have "sum_list (map (\<lambda>w. length w + 1) (take (Suc j) ls)) \<le> sum_list (map (\<lambda>w. length w + 1) (take k ls))"
    by simp
  finally show ?thesis by simp
qed

lemma label_units: "l \<in> set (domain_labels t) \<Longrightarrow> l \<noteq> [] \<and> (\<forall>c \<in> set l. label_unit c)"
proof -
  assume l: "l \<in> set (domain_labels t)"
  let ?run = "takeWhile (\<lambda>c. is_domain_char c \<or> c = 0x2e) (tl t)"
  have s: "l \<in> set (split_on 0x2e ?run)" "l \<noteq> []"
    using l unfolding domain_labels_def by (auto dest: set_takeWhileD)
  have "set l \<subseteq> set ?run"
  proof -
    obtain as bs where "split_on 0x2e ?run = as @ l # bs" using s(1) by (auto simp: in_set_conv_decomp)
    then have "?run @ [0x2e] = concat (map (\<lambda>w. w @ [0x2e]) as) @ (l @ [0x2e]) @ concat (map (\<lambda>w. w @ [0x2e]) bs)"
      using split_on_concat [of 46 ?run] by simp
    then have "set l \<subseteq> set (?run @ [0x2e])" unfolding \<open>?run @ [0x2e] = _\<close> by auto
    moreover have "0x2e \<notin> set l" using split_on_no_sep [OF s(1)] .
    ultimately show ?thesis by auto
  qed
  moreover have "0x2e \<notin> set l" using split_on_no_sep [OF s(1)] .
  ultimately show ?thesis using s(2) by (auto simp: label_unit_eq dest!: set_takeWhileD)
qed

lemma join_snoc: "join_with [d] (ws @ [w]) = concat (map (\<lambda>w. w @ [d]) ws) @ w"
  by (induction ws) (auto simp: join_with_Cons)

lemma domain_end_dotted:
  assumes "1 \<le> j" "j < length (domain_labels t)" "\<exists>c \<in> set (domain_labels t ! j). is_alnum c"
  shows "domain_end (domain_labels t) j \<le> length (tl t) \<and> dotted_domain (take (domain_end (domain_labels t) j) (tl t))"
proof -
  define ls where "ls = domain_labels t"
  define m where "m = length (dropWhile (\<lambda>c. \<not> is_alnum c) (rev (ls ! j)))"
  let ?a = "concat (map (\<lambda>w. w @ [0x2e]) (take j ls))"
  note j = assms [folded ls_def]
  note m = last_alnum [OF j(3), folded m_def]
  obtain rest where u: "tl t = ?a @ ls ! j @ rest"
    using labels_prefix [OF assms(2), folded ls_def] by (auto simp: prefix_def)
  have e: "domain_end ls j = length ?a + m" by (simp add: domain_end_def m_def length_labels)
  let ?ws = "take j ls @ [take m (ls ! j)]"
  have "take (domain_end ls j) (tl t) = join_with [0x2e] ?ws" using m by (simp add: e u join_snoc)
  moreover have "2 \<le> length ?ws" using j by simp
  moreover have "l \<noteq> [] \<and> (\<forall>c \<in> set l. label_unit c)" if "l \<in> set ?ws" for l
  proof (cases "l = take m (ls ! j)")
    case True
    then show ?thesis using m label_units [of "ls ! j" t] j(2) by (auto simp: ls_def dest: in_set_takeD)
  next
    case False
    then show ?thesis using that label_units [of l t] by (auto simp: ls_def dest: in_set_takeD)
  qed
  moreover have "take m (ls ! j) \<noteq> []" using m by auto
  then have "last (take m (ls ! j)) = ls ! j ! (m - 1)" using m by (simp add: last_conv_nth min_absorb2 min_absorb1)
  then have "is_alnum (last (last ?ws))" using m by simp
  ultimately have "dotted_domain (take (domain_end ls j) (tl t))"
    unfolding dotted_domain_def js_dot by blast
  moreover have "domain_end ls j \<le> length (tl t)" using m by (simp add: e u)
  ultimately show ?thesis by (simp add: ls_def)
qed

lemma dotted_domain_end:
  assumes "dotted_domain w" "prefix w (tl t)"
  shows "\<exists>j. 1 \<le> j \<and> j < length (domain_labels t) \<and> (\<exists>c \<in> set (domain_labels t ! j). is_alnum c) \<and>
    length w \<le> domain_end (domain_labels t) j"
proof -
  let ?P = "\<lambda>c. is_domain_char c \<or> c = 0x2e"
  let ?run = "takeWhile ?P (tl t)"
  note w = assms(1) [unfolded dotted_domain_split]
  have "set w \<subseteq> Collect ?P"
  proof
    fix c assume "c \<in> set w"
    then have "c \<in> set (w @ [0x2e])" by simp
    then show "c \<in> Collect ?P"
      unfolding split_on_concat [of 46 w, symmetric] using w by (auto simp: label_unit_eq)
  qed
  then have "prefix w ?run"
    using assms(2) by (auto simp: prefix_def takeWhile_append2 subset_iff)
  from prefix_split_on [OF this, where d = 46] obtain k p where
    k: "k < length (split_on 0x2e ?run)" "split_on 0x2e w = take k (split_on 0x2e ?run) @ [p]" "prefix p (split_on 0x2e ?run ! k)"
    by blast
  have p: "p \<noteq> []" "is_alnum (last p)" using w k(2) by auto
  have ne: "split_on 0x2e ?run ! i \<noteq> []" if "i \<le> k" for i
  proof (cases "i = k")
    case False
    then have "take k (split_on 0x2e ?run) ! i \<in> set (take k (split_on 0x2e ?run))" using that k(1) by (intro nth_mem) simp
    then have "split_on 0x2e ?run ! i \<in> set (take k (split_on 0x2e ?run))" using False that by simp
    then show ?thesis using w k(2) by auto
  qed (use k(3) p(1) in auto)
  have "\<forall>l \<in> set (take (Suc k) (split_on 0x2e ?run)). l \<noteq> []" using ne by (auto simp: in_set_conv_nth)
  then have "takeWhile (\<lambda>l. l \<noteq> []) (take (Suc k) (split_on 0x2e ?run) @ drop (Suc k) (split_on 0x2e ?run)) =
      take (Suc k) (split_on 0x2e ?run) @ takeWhile (\<lambda>l. l \<noteq> []) (drop (Suc k) (split_on 0x2e ?run))"
    by (intro takeWhile_append2) auto
  then obtain rest where D: "domain_labels t = take (Suc k) (split_on 0x2e ?run) @ rest"
    unfolding domain_labels_def append_take_drop_id by blast
  have dk: "k < length (domain_labels t)" "domain_labels t ! k = split_on 0x2e ?run ! k"
    "take k (domain_labels t) = take k (split_on 0x2e ?run)" using k(1) by (simp_all add: D nth_append)
  obtain q where q: "domain_labels t ! k = p @ q" using k(3) dk(2) by (auto simp: prefix_def)
  have "1 \<le> k" using w k(2) by (cases k) auto
  moreover have "\<exists>c \<in> set (domain_labels t ! k). is_alnum c" using p q by auto
  moreover have "length p \<le> length (dropWhile (\<lambda>c. \<not> is_alnum c) (rev (domain_labels t ! k)))"
    using p by (cases p rule: rev_cases) (simp_all add: q dropWhile_append)
  moreover have "w @ [0x2e] = concat (map (\<lambda>w. w @ [0x2e]) (take k (domain_labels t))) @ p @ [0x2e]"
    using split_on_concat [of 46 w] by (simp add: k(2) dk(3))
  then have "length w = sum_list (map (\<lambda>w. length w + 1) (take k (domain_labels t))) + length p"
    by (metis append_assoc append_same_eq length_append length_labels)
  ultimately show ?thesis using dk(1) by (intro exI [of _ k]) (simp add: domain_end_def)
qed

text \<open>The pattern matches the longest domain of the grammar.\<close>

lemma domain_match_longest:
  "domain_match (0x40 # u) = Some n \<longleftrightarrow> 1 \<le> n \<and> longest_domain u (n - 1)"
proof -
  let ?t = "0x40 # u" and ?ls = "domain_labels (0x40 # u)"
  have eq: "domain_match ?t = map_option (\<lambda>j. 1 + domain_end ?ls j)
      (find (\<lambda>j. \<exists>c \<in> set (?ls ! j). is_alnum c) (rev [1..<length ?ls]))"
    by (simp add: domain_match_def domain_end_def Let_def add.assoc)
  have found: "longest_domain u (domain_end ?ls j)"
    if j: "1 \<le> j" "j < length ?ls" "\<exists>c \<in> set (?ls ! j). is_alnum c"
      "\<forall>k. j < k \<and> k < length ?ls \<longrightarrow> \<not> (\<exists>c \<in> set (?ls ! k). is_alnum c)" for j
    unfolding longest_domain_def
  proof (intro conjI allI impI)
    fix m assume m: "m \<le> length u" "domain_end ?ls j < m"
    show "\<not> dotted_domain (take m u)"
    proof
      assume "dotted_domain (take m u)"
      then obtain k where k: "k < length ?ls" "\<exists>c \<in> set (?ls ! k). is_alnum c" "m \<le> domain_end ?ls k"
        using dotted_domain_end [of "take m u" ?t] m(1) by (auto simp: take_is_prefix)
      have "k \<le> j" using j(4) k(1,2) not_le by blast
      then have "domain_end ?ls k \<le> domain_end ?ls j"
        using domain_end_mono [of k j ?ls] j(2) by (cases "k = j") (auto simp: domain_end_def [of ?ls j])
      then show False using k(3) m(2) by simp
    qed
  qed (use domain_end_dotted [OF j(1-3)] in simp_all)
  show ?thesis
  proof
    assume "domain_match ?t = Some n"
    then obtain j where j: "find (\<lambda>j. \<exists>c \<in> set (?ls ! j). is_alnum c) (rev [1..<length ?ls]) = Some j"
        "n = 1 + domain_end ?ls j"
      unfolding eq by auto
    then have "longest_domain u (domain_end ?ls j)" unfolding find_last using found by blast
    then show "1 \<le> n \<and> longest_domain u (n - 1)" using j(2) by simp
  next
    assume n: "1 \<le> n \<and> longest_domain u (n - 1)"
    then have l: "longest_domain u (n - 1)" by simp
    then obtain k where k: "1 \<le> k" "k < length ?ls" "\<exists>c \<in> set (?ls ! k). is_alnum c"
      using dotted_domain_end [of "take (n - 1) u" ?t] by (auto simp: longest_domain_def take_is_prefix)
    then have "find (\<lambda>j. \<exists>c \<in> set (?ls ! j). is_alnum c) (rev [1..<length ?ls]) \<noteq> None"
      by (auto simp: find_None_iff)
    then obtain j where j: "find (\<lambda>j. \<exists>c \<in> set (?ls ! j). is_alnum c) (rev [1..<length ?ls]) = Some j" by blast
    then have "longest_domain u (domain_end ?ls j)" unfolding find_last using found by blast
    then have "domain_end ?ls j = n - 1" using l by (metis linorder_neqE_nat longest_domain_def)
    then show "domain_match ?t = Some n" using n unfolding eq j by simp
  qed
qed

section \<open>All matches\<close>

lemma slice_to_end: "slice s i (length s) = drop i s"
  by (simp add: slice_def)

lemma email_address_at:
  "email_address s lb (f, at, t) \<Longrightarrow>
   lb < at \<and> at < t \<and> t \<le> length s \<and> s ! at = 0x40 \<and> isLocalChar (s ! (at - 1))"
proof -
  assume a: "email_address s lb (f, at, t)"
  then have "at - 1 \<in> {f..<at}" by (auto simp: email_address_def)
  with a have "isLocalChar (s ! (at - 1))" unfolding email_address_def prod.case local_unit_eq by blast
  with a show ?thesis by (auto simp: email_address_def)
qed

text \<open>The scanner's match at an at sign is the address there.\<close>

lemma matchEmailAt_address:
  assumes "lb \<le> at" "at < length s" "s ! at = 0x40"
  shows "matchEmailAt s at lb (length s) = Some (f, t, v) \<longleftrightarrow> email_address s lb (f, at, t) \<and> v = slice s f t"
proof -
  have d: "slice s at (length s) = 0x40 # drop (at + 1) s"
    using assms by (simp add: slice_to_end Cons_nth_drop_Suc [symmetric])
  have b: "n \<le> length s - (at + 1)" if "longest_domain (drop (at + 1) s) n" for n
    using that by (simp add: longest_domain_def)
  show ?thesis
  proof
    assume "matchEmailAt s at lb (length s) = Some (f, t, v)"
    then obtain n where n: "domain_match (0x40 # drop (at + 1) s) = Some n" "t = at + n" "f = local_start s lb at" "f \<noteq> at"
        "v = slice s f t" "\<not> (t < length s \<and> (s ! t = 0x2d \<or> s ! t = 0x5f))"
      unfolding matchEmailAt_def d by (auto simp: Let_def split: if_splits option.splits)
    then have l: "1 \<le> n" "longest_domain (drop (at + 1) s) (n - 1)" by (simp_all add: domain_match_longest)
    have "\<forall>i \<in> {f..<at}. isLocalChar (s ! i)" using local_start_local n(3) by auto
    moreover have "f = lb \<or> \<not> isLocalChar (s ! (f - 1))" using local_start_maximal [OF assms(1)] n(3) by simp
    moreover have "lb \<le> f" "f < at"
      using local_start_ge [OF assms(1), of s] local_start_le [of s lb at] n(3,4) by auto
    ultimately show "email_address s lb (f, at, t) \<and> v = slice s f t"
      using n(2,5,6) l b [OF l(2)] assms by (auto simp: email_address_def local_unit_eq js_str)
  next
    assume "email_address s lb (f, at, t) \<and> v = slice s f t"
    then have a: "email_address s lb (f, at, t)" and v: "v = slice s f t" by auto
    have f: "local_start s lb at = f"
      using a by (intro local_start_unique) (auto simp: email_address_def local_unit_eq)
    have "domain_match (0x40 # drop (at + 1) s) = Some (t - at)"
      using a by (auto simp: domain_match_longest email_address_def)
    then show "matchEmailAt s at lb (length s) = Some (f, t, v)"
      using a v unfolding matchEmailAt_def f d by (auto simp: email_address_def Let_def js_str)
  qed
qed

text \<open>After an at sign without an address the scanner goes on behind it; the addresses stay the same.\<close>

lemma email_address_after:
  assumes "cursor \<le> i" "i < length s" "s ! i = 0x40" "\<forall>k \<in> {cursor..<i}. s ! k \<noteq> 0x40"
    and "\<And>f t. \<not> email_address s cursor (f, i, t)"
  shows "email_address s cursor a \<longleftrightarrow> email_address s (i + 1) a"
proof -
  obtain f at t where a: "a = (f, at, t)" by (cases a)
  have i: "\<not> local_unit (s ! i)" using assms(3) by (simp add: local_unit_def char_class_defs js_str)
  show ?thesis
  proof
    assume e: "email_address s cursor a"
    then have "at \<noteq> i" using assms(5) a by auto
    moreover have "\<not> at < i" using email_address_at [OF e [unfolded a]] assms(4) by auto
    ultimately have at: "i < at" by simp
    have "\<not> f \<le> i" using e at i by (auto simp: a email_address_def)
    then show "email_address s (i + 1) a" using e assms(1) by (auto simp: a email_address_def)
  next
    assume e: "email_address s (i + 1) a"
    have "f = i + 1 \<Longrightarrow> \<not> local_unit (s ! (f - 1))" using i by simp
    then show "email_address s cursor a" using e assms(1) by (auto simp: a email_address_def)
  qed
qed

lemma leftmost_addresses_cong:
  "(\<And>a. email_address s lb a \<longleftrightarrow> email_address s lb' a) \<Longrightarrow> leftmost_addresses s lb as \<longleftrightarrow> leftmost_addresses s lb' as"
  by (cases as) simp_all

lemma index_from_first: "index_from c s cursor = Some i \<Longrightarrow> \<forall>k \<in> {cursor..<i}. s ! k \<noteq> c"
proof
  fix k assume i: "index_from c s cursor = Some i" and k: "k \<in> {cursor..<i}"
  obtain n where n: "i = cursor + n" "cursor + n < length s" "\<forall>j<n. s ! ([cursor..<length s] ! j) \<noteq> c"
    using i by (auto simp: index_from_def find_Some_iff)
  then show "s ! k \<noteq> c" using k by (auto dest!: spec [of _ "k - cursor"])
qed

lemma email_loop_addresses:
  "\<exists>spans. email_loop s cursor = map (\<lambda>(f, at, t). (f, t, slice s f t)) spans \<and> leftmost_addresses s cursor spans"
proof (induction s cursor rule: email_loop.induct)
  case step: (1 s cursor)
  show ?case
  proof (cases "index_from 0x40 s cursor")
    case None
    then have n: "\<forall>k \<in> {cursor..<length s}. s ! k \<noteq> 0x40" by (auto simp: index_from_def find_None_iff)
    have "\<not> email_address s cursor a" for a
    proof (cases a)
      case (fields f at t)
      then show ?thesis using n email_address_at [of s cursor f at t] by auto
    qed
    then show ?thesis by (intro exI [of _ "[]"]) (simp add: None email_loop.simps [of s cursor])
  next
    case i: (Some i)
    note b = index_from_Some [OF i] and first = index_from_first [OF i]
    show ?thesis
    proof (cases "matchEmailAt s i cursor (length s)")
      case None
      have no: "\<not> email_address s cursor (f, i, t)" for f t
        using matchEmailAt_address [of cursor i s f t "slice s f t"] b None by auto
      have "\<And>a. email_address s cursor a \<longleftrightarrow> email_address s (i + 1) a"
        using b no by (intro email_address_after [OF _ _ _ first]) auto
      then have "leftmost_addresses s cursor = leftmost_addresses s (i + 1)" by (intro ext leftmost_addresses_cong)
      moreover have "email_loop s cursor = email_loop s (i + 1)" by (subst email_loop.simps) (simp add: i None)
      ultimately show ?thesis using step.IH(1) [OF i None] by simp
    next
      case (Some x)
      obtain f t v where x: "x = (f, t, v)" by (cases x)
      have a: "email_address s cursor (f, i, t)" "v = slice s f t"
        using matchEmailAt_address [of cursor i s f t v] b Some x by auto
      have "\<not> email_address s cursor e" if "fst (snd e) < i" for e
      proof (cases e)
        case (fields f' at' t')
        then show ?thesis using email_address_at [of s cursor f' at' t'] first that by auto
      qed
      moreover obtain spans where
        "email_loop s t = map (\<lambda>(f, at, t). (f, t, slice s f t)) spans" "leftmost_addresses s t spans"
        using step.IH(2) [OF i Some x [symmetric] refl] by blast
      moreover have "email_loop s cursor = (f, t, v) # email_loop s t" by (subst email_loop.simps) (simp add: i Some x)
      ultimately show ?thesis using a by (intro exI [of _ "(f, i, t) # spans"]) simp
    qed
  qed
qed

lemma leftmost_addresses_valid:
  "leftmost_addresses s lb spans \<Longrightarrow> a \<in> set spans \<Longrightarrow> \<exists>lb'. email_address s lb' a"
  by (induction spans arbitrary: lb) auto

section \<open>The projection\<close>

text \<open>
  Every unit of the projection comes from a range of the source inside the bounds; only a surrogate pair
  that straddles the upper bound may end past it.
\<close>

definition projected :: "nat \<Rightarrow> nat \<Rightarrow> EmailProjection \<Rightarrow> bool" where
  "projected lb ub p \<longleftrightarrow>
     length (pj_starts p) = length (pj_value p) \<and> length (pj_ends p) = length (pj_value p) \<and>
     sorted (pj_starts p) \<and> sorted (pj_ends p) \<and>
     (\<forall>i < length (pj_value p). lb \<le> pj_starts p ! i \<and> pj_starts p ! i < pj_ends p ! i \<and>
        (pj_ends p ! i \<le> ub \<or> 0xd800 \<le> pj_value p ! i))"

lemma projected_Nil: "projected lb ub \<lparr>pj_value = [], pj_starts = [], pj_ends = []\<rparr>"
  by (simp add: projected_def)

lemma projected_add:
  assumes p: "projected j ub p" and ij: "i < j" and j: "j \<le> ub \<or> (\<forall>c \<in> set chars. 0xd800 \<le> c)"
  shows "projected i ub (add_projected chars i j p)"
proof -
  have s: "j \<le> x" if "x \<in> set (pj_starts p)" for x
    using p that by (auto simp: projected_def in_set_conv_nth)
  have e: "j < x" if x: "x \<in> set (pj_ends p)" for x
  proof -
    obtain k where "k < length (pj_ends p)" "x = pj_ends p ! k" using x by (auto simp: in_set_conv_nth)
    then show ?thesis using p by (auto simp: projected_def dest!: spec [of _ k])
  qed
  show ?thesis
    unfolding projected_def add_projected_def EmailProjection.select_convs
  proof (intro conjI allI impI)
    show "sorted (replicate (length chars) i @ pj_starts p)"
      using s p ij by (force simp: sorted_append projected_def)
    show "sorted (replicate (length chars) j @ pj_ends p)"
      using e p by (force simp: sorted_append projected_def)
  next
    fix k assume k: "k < length (chars @ pj_value p)"
    have r: "\<forall>n < length (pj_value p). j \<le> pj_starts p ! n \<and> pj_starts p ! n < pj_ends p ! n \<and>
        (pj_ends p ! n \<le> ub \<or> 0xd800 \<le> pj_value p ! n)"
      using p by (simp add: projected_def)
    have r': "i \<le> pj_starts p ! (k - length chars)" if "\<not> k < length chars"
      using r [rule_format, of "k - length chars"] that k ij by force
    show "i \<le> (replicate (length chars) i @ pj_starts p) ! k"
      using r' by (auto simp: nth_append)
    show "(replicate (length chars) i @ pj_starts p) ! k < (replicate (length chars) j @ pj_ends p) ! k"
      using r [rule_format, of "k - length chars"] k ij by (auto simp: nth_append)
    show "(replicate (length chars) j @ pj_ends p) ! k \<le> ub \<or> 0xd800 \<le> (chars @ pj_value p) ! k"
      using r [rule_format, of "k - length chars"] k j by (auto simp: nth_append)
  qed (use p in \<open>simp_all add: projected_def\<close>)
qed

lemma projected_mono: "projected j ub p \<Longrightarrow> i \<le> j \<Longrightarrow> projected i ub p"
  by (force simp: projected_def)

text \<open>The three cases of a step of the projection.\<close>

lemma project_cases [consumes 3, case_names escape reference single]:
  assumes "cursor < ub" "cursor < length source" "utf16 source"
  obtains (escape) "source ! cursor = 0x5c" "cursor + 2 \<le> ub"
      "projectEmailText md source cursor ub =
        add_projected [source ! (cursor + 1)] cursor (cursor + 2) (projectEmailText md source (cursor + 2) ub)"
    | (reference) r :: DecodedMarkdownCharacterReference where "source ! cursor = 0x26" "cursor < dm_to r" "dm_to r \<le> ub"
      "projectEmailText md source cursor ub =
        add_projected (dm_value r) cursor (dm_to r) (projectEmailText md source (dm_to r) ub)"
    | (single) w where "w = [source ! cursor] \<or> 0xd800 \<le> source ! cursor \<and> w \<noteq> [] \<and> (\<forall>c \<in> set w. 0xd800 \<le> c)"
      "projectEmailText md source cursor ub =
        add_projected w cursor (cursor + length w) (projectEmailText md source (cursor + length w) ub)"
proof -
  note step = projectEmailText.simps [of md source cursor ub]
  consider (e) "source ! cursor = 0x5c \<and> cursor + 1 < ub \<and> cursor + 1 < length source \<and>
      isASCIIPunctuation (source ! (cursor + 1))"
    | (n) "\<not> (source ! cursor = 0x5c \<and> cursor + 1 < ub \<and> cursor + 1 < length source \<and>
      isASCIIPunctuation (source ! (cursor + 1)))"
    by blast
  then show thesis
  proof cases
    case e
    then show thesis using assms by (intro escape) (simp_all add: step)
  next
    case n
    show thesis
    proof (cases "decodedMarkdownCharacterReferenceAt md source cursor ub")
      case (Some r)
      have "source ! cursor = 0x26"
        using Some by (auto simp: decodedMarkdownCharacterReferenceAt_def split: if_splits)
      then show thesis
        using reference_at_bounds [OF Some] n assms Some by (intro reference [of r]) (auto simp: step)
    next
      case None
      define p where "p = (if is_high_surrogate (source ! cursor) \<and> cursor + 1 < length source \<and>
          is_low_surrogate (source ! (cursor + 1))
        then 0x10000 + (source ! cursor - 0xd800) * 0x400 + (source ! (cursor + 1) - 0xdc00) else source ! cursor)"
      have cp: "code_point_at source cursor = Some p" using assms(2) by (simp add: code_point_at_def p_def)
      have "source ! cursor \<le> 0xffff" using assms(2,3) by (simp add: utf16_def)
      then have "from_code_point p = [source ! cursor] \<or>
          0xd800 \<le> source ! cursor \<and> from_code_point p \<noteq> [] \<and> (\<forall>c \<in> set (from_code_point p). 0xd800 \<le> c)"
        by (auto simp: from_code_point_def p_def is_high_surrogate_def)
      moreover have "projectEmailText md source cursor ub = add_projected (from_code_point p) cursor
          (cursor + length (from_code_point p)) (projectEmailText md source (cursor + length (from_code_point p)) ub)"
        using n assms None cp by (auto simp: step Let_def)
      ultimately show thesis by (rule single)
    qed
  qed
qed

lemma project_end: "\<not> (cursor < ub \<and> cursor < length source) \<Longrightarrow>
    projectEmailText md source cursor ub = \<lparr>pj_value = [], pj_starts = [], pj_ends = []\<rparr>"
  by (subst projectEmailText.simps) (simp only: if_False)

lemma projected_project:
  "utf16 source \<Longrightarrow> projected cursor ub (projectEmailText md source cursor ub)"
proof (induction "length source - cursor" arbitrary: cursor rule: less_induct)
  case less
  show ?case
  proof (cases "cursor < ub \<and> cursor < length source")
    case False
    then show ?thesis by (simp add: project_end projected_Nil)
  next
    case True
    have IH: "projected j ub (projectEmailText md source j ub)" if "cursor < j" for j
      using less.hyps [of j] less.prems that True by auto
    from True have "cursor < ub" "cursor < length source" by auto
    from this less.prems show ?thesis
    proof (cases rule: project_cases [where md = md])
      case escape
      show ?thesis unfolding escape(3) using escape(2) IH by (intro projected_add) auto
    next
      case (reference r)
      show ?thesis unfolding reference(4) using reference(2,3) IH by (intro projected_add) auto
    next
      case (single w)
      have w: "cursor < cursor + length w" using single(1) by auto
      have "cursor + length w \<le> ub \<or> (\<forall>c \<in> set w. 0xd800 \<le> c)" using single(1) True by auto
      then show ?thesis unfolding single(2) using w IH by (intro projected_add) auto
    qed
  qed
qed

text \<open>Text without escapes, references and surrogates is its own projection.\<close>

definition plain :: "jsstring \<Rightarrow> nat \<Rightarrow> nat \<Rightarrow> bool" where
  "plain source i j \<longleftrightarrow> (\<forall>k \<in> {i..<j}. source ! k \<noteq> 0x5c \<and> source ! k \<noteq> 0x26 \<and> source ! k < 0xd800)"

lemma project_plain:
  "utf16 source \<Longrightarrow> ub \<le> length source \<Longrightarrow> plain source cursor ub \<Longrightarrow>
   projectEmailText md source cursor ub =
     \<lparr>pj_value = slice source cursor ub, pj_starts = [cursor..<ub], pj_ends = map Suc [cursor..<ub]\<rparr>"
proof (induction "length source - cursor" arbitrary: cursor rule: less_induct)
  case less
  show ?case
  proof (cases "cursor < ub")
    case False
    then show ?thesis by (simp add: project_end slice_def)
  next
    case True
    then have "cursor \<in> {cursor..<ub}" by simp
    then have c: "source ! cursor \<noteq> 0x5c" "source ! cursor \<noteq> 0x26" "source ! cursor < 0xd800"
      using less.prems(3) unfolding plain_def by blast+
    have IH: "projectEmailText md source (cursor + 1) ub =
       \<lparr>pj_value = slice source (cursor + 1) ub, pj_starts = [cursor + 1..<ub], pj_ends = map Suc [cursor + 1..<ub]\<rparr>"
      using less.hyps [of "cursor + 1"] less.prems True by (simp add: plain_def)
    have l: "cursor < length source" using True less.prems by simp
    from True l less.prems(1) show ?thesis
    proof (cases rule: project_cases [where md = md])
      case (single w)
      then have "w = [source ! cursor]" using c by auto
      then show ?thesis
        using single(2) IH True l
        by (simp add: add_projected_def upt_conv_Cons slice_def Cons_nth_drop_Suc [symmetric] take_Cons' del: upt_Suc)
    qed (use c in auto)
  qed
qed

section \<open>Addresses in the source\<close>

lemma email_units:
  assumes "email_address s lb (f, at, t)"
  shows "f < t \<and> t \<le> length s \<and> s ! (t - 1) < 0xd800"
proof -
  note b = email_address_at [OF assms]
  have f: "f < at" "longest_domain (drop (at + 1) s) (t - (at + 1))" using assms by (auto simp: email_address_def)
  then have "domain_match (0x40 # drop (at + 1) s) = Some (t - at)"
    using b by (auto simp: domain_match_longest)
  moreover have "drop at s = 0x40 # drop (at + 1) s" using b by (simp add: Cons_nth_drop_Suc [symmetric])
  ultimately have "domain_match (drop at s) = Some (t - at)" by simp
  from domain_match_shape [OF this] have "is_alnum (s ! (t - 1))" using b by (auto simp: nth_drop)
  then show ?thesis using b f by (auto simp: char_class_defs)
qed

text \<open>An address of the shown text, in the offsets of the source.\<close>

definition source_range :: "EmailProjection \<Rightarrow> nat \<times> nat \<times> nat \<Rightarrow> GFMEmailSourceRange" where
  "source_range p = (\<lambda>(f, at, t).
     \<lparr>em_from = pj_starts p ! f, em_to = pj_ends p ! (t - 1), em_value = slice (pj_value p) f t\<rparr>)"

lemma findGFMEmailMatches_addresses:
  "\<exists>spans. findGFMEmailMatches md source lb ub = map (source_range (projectEmailText md source lb ub)) spans \<and>
     leftmost_addresses (pj_value (projectEmailText md source lb ub)) 0 spans"
proof -
  obtain spans where
    "email_loop (pj_value (projectEmailText md source lb ub)) 0 =
       map (\<lambda>(f, at, t). (f, t, slice (pj_value (projectEmailText md source lb ub)) f t)) spans"
    "leftmost_addresses (pj_value (projectEmailText md source lb ub)) 0 spans"
    using email_loop_addresses by blast
  then show ?thesis
    by (intro exI [of _ spans]) (auto simp: findGFMEmailMatches_def source_range_def Let_def)
qed

lemma email_range_bounds:
  assumes "utf16 source" "m \<in> set (findGFMEmailMatches md source lb ub)"
  shows "lb \<le> em_from m \<and> em_from m < em_to m \<and> em_to m \<le> ub"
proof -
  let ?p = "projectEmailText md source lb ub"
  obtain spans where s: "findGFMEmailMatches md source lb ub = map (source_range ?p) spans"
      "leftmost_addresses (pj_value ?p) 0 spans"
    using findGFMEmailMatches_addresses by blast
  then obtain f at t where e: "(f, at, t) \<in> set spans" "m = source_range ?p (f, at, t)" using assms(2) by auto
  obtain lb' where a: "email_address (pj_value ?p) lb' (f, at, t)" using leftmost_addresses_valid [OF s(2) e(1)] by blast
  note P = projected_project [OF assms(1), of lb ub md, unfolded projected_def]
  note u = email_units [OF a]
  have "pj_starts ?p ! f < pj_ends ?p ! f" "lb \<le> pj_starts ?p ! f"
    using P u by auto
  moreover have "pj_ends ?p ! f \<le> pj_ends ?p ! (t - 1)" using P u by (intro sorted_nth_mono) auto
  moreover have "pj_ends ?p ! (t - 1) \<le> ub" using P u by (auto dest!: spec [of _ "t - 1"])
  ultimately show ?thesis by (simp add: e(2) source_range_def)
qed

lemma slice_slice: "i + t \<le> j \<Longrightarrow> slice (slice s i j) f t = slice s (i + f) (i + t)"
  by (simp add: slice_def drop_take min_absorb1 add.commute [of f i])

lemma plain_range:
  assumes "utf16 source" "ub \<le> length source" "plain source lb ub"
    and "email_address (slice source lb ub) lb' (f, at, t)"
  shows "source_range (projectEmailText md source lb ub) (f, at, t) =
    \<lparr>em_from = lb + f, em_to = lb + t, em_value = slice source (lb + f) (lb + t)\<rparr>"
proof -
  note u = email_units [OF assms(4)]
  then have "lb + t \<le> ub" "f < t" using assms(2) by (auto simp: length_slice)
  then show ?thesis unfolding project_plain [OF assms(1-3)] by (simp add: source_range_def slice_slice del: upt_Suc)
qed

text \<open>
  C30. The e-mail addresses found in a run are those of the grammar in the text Markdown shows: the first
  address, then the first that starts at its end or later, and so on to the last, with none missed and none
  added; each has the longest local part and the longest domain there. In the source their ranges lie within
  the bounds, and where the source has no escape, reference or surrogate the text shown is the source itself
  and each range spells its address.
\<close>

theorem written_emails_found:
  assumes "utf16 source" and "ub \<le> length source"
    and "p = projectEmailText md source lb ub"
  shows "\<exists>spans. leftmost_addresses (pj_value p) 0 spans \<and>
    findGFMEmailMatches md source lb ub =
      map (\<lambda>(f, at, t). \<lparr>em_from = pj_starts p ! f, em_to = pj_ends p ! (t - 1), em_value = slice (pj_value p) f t\<rparr>) spans \<and>
    (\<forall>m \<in> set (findGFMEmailMatches md source lb ub). lb \<le> em_from m \<and> em_from m < em_to m \<and> em_to m \<le> ub) \<and>
    (plain source lb ub \<longrightarrow> pj_value p = slice source lb ub \<and>
       findGFMEmailMatches md source lb ub =
         map (\<lambda>(f, at, t). \<lparr>em_from = lb + f, em_to = lb + t, em_value = slice source (lb + f) (lb + t)\<rparr>) spans)"
proof -
  obtain spans where s: "findGFMEmailMatches md source lb ub = map (source_range p) spans"
      "leftmost_addresses (pj_value p) 0 spans"
    using findGFMEmailMatches_addresses [of md source lb ub] assms(3) by blast
  have "source_range p a = (\<lambda>(f, at, t). \<lparr>em_from = lb + f, em_to = lb + t, em_value = slice source (lb + f) (lb + t)\<rparr>) a"
    if "plain source lb ub" "a \<in> set spans" for a
    using leftmost_addresses_valid [OF s(2) that(2)] plain_range [OF assms(1,2) that(1)] assms(3)
      project_plain [OF assms(1,2) that(1), of md] by (cases a) fastforce
  then have "plain source lb ub \<longrightarrow> findGFMEmailMatches md source lb ub =
      map (\<lambda>(f, at, t). \<lparr>em_from = lb + f, em_to = lb + t, em_value = slice source (lb + f) (lb + t)\<rparr>) spans"
    unfolding s(1) by (intro impI map_cong refl)
  moreover have "plain source lb ub \<longrightarrow> pj_value p = slice source lb ub"
    using project_plain [OF assms(1,2)] assms(3) by simp
  ultimately show ?thesis
    using s email_range_bounds [OF assms(1)] unfolding source_range_def by blast
qed

lemma sample_source: "utf16 (js ''to a@b.cd.'')" "10 \<le> length (js ''to a@b.cd.'')" "plain (js ''to a@b.cd.'') 0 10"
  by (simp_all add: utf16_def plain_def atLeastLessThan_upt upt_rec js_str del: set_upt)

lemma sample_email:
  "findGFMEmailMatches sample_md_text (js ''to a@b.cd.'') 0 10 =
     [\<lparr>em_from = [0..<10] ! 3, em_to = map Suc [0..<10] ! (9 - 1), em_value = js ''a@b.cd''\<rparr>]"
proof -
  have l: "email_loop (js ''to a@b.cd.'') 0 = [(3, 9, js ''a@b.cd'')]"
    by (simp add: email_loop.simps index_from_def matchEmailAt_def domain_match_def domain_labels_def
        is_domain_char_def isLocalChar_def char_class_defs slice_def js_str numeral_eq_Suc)
  have s: "slice (js ''to a@b.cd.'') 0 10 = js ''to a@b.cd.''" by (simp add: slice_def js_str)
  show ?thesis
    unfolding findGFMEmailMatches_def project_plain [OF sample_source] Let_def EmailProjection.select_convs s l
    by simp
qed

theorem written_emails_found_witness:
  "\<exists>a. leftmost_addresses (js ''to a@b.cd.'') 0 [a] \<and>
     findGFMEmailMatches sample_md_text (js ''to a@b.cd.'') 0 10 =
       [(\<lambda>(f, at, t). \<lparr>em_from = f, em_to = t, em_value = slice (js ''to a@b.cd.'') f t\<rparr>) a]"
proof -
  let ?s = "js ''to a@b.cd.''" and ?p = "projectEmailText sample_md_text (js ''to a@b.cd.'') 0 10"
  have sl: "slice ?s 0 10 = ?s" by (simp add: slice_def js_str)
  obtain spans where w: "leftmost_addresses (pj_value ?p) 0 spans" "pj_value ?p = slice ?s 0 10"
    "findGFMEmailMatches sample_md_text ?s 0 10 =
       map (\<lambda>(f, at, t). \<lparr>em_from = 0 + f, em_to = 0 + t, em_value = slice ?s (0 + f) (0 + t)\<rparr>) spans"
    using written_emails_found [OF sample_source(1,2) refl, of sample_md_text 0] sample_source(3) by blast
  have "length (findGFMEmailMatches sample_md_text ?s 0 10) = 1" unfolding sample_email by simp
  then have "length spans = 1" unfolding w(3) by simp
  then obtain a where a: "spans = [a]" by (auto simp: length_Suc_conv)
  show ?thesis using w(1,3) unfolding w(2) sl a by (intro exI [of _ a]) simp
qed

end
