(* ===== verification/MarkdownTree.thy ===== *)
theory MarkdownTree
  imports WrittenEmails "HOL-Library.Monad_Syntax" "HOL-Library.Product_Lexorder"
begin

text \<open>
  The collection of links, written URLs and e-mail addresses over the syntax tree of a Markdown source:
  \<^verbatim>\<open>utils/markdown-link.ts\<close> and the second halves of \<^verbatim>\<open>utils/gfm-url.ts\<close> and \<^verbatim>\<open>utils/gfm-email.ts\<close>. A tree
  is a datatype of named ranges. The parsers and the normalization of labels, third-party code, are the
  argument \<open>md_tree\<close>. A node that is not empty ends after its start, as the parser's nodes do.
\<close>

datatype MarkdownSourceNode =
  Node (nd_name: string) (nd_from: nat) (nd_to: nat) (nd_children: "MarkdownSourceNode list")

record md_tree =
  md_text_of :: md_text
  normalizeIdentifier :: "jsstring \<Rightarrow> jsstring"
  has_definition :: "jsstring \<Rightarrow> bool"
  sourceParser :: "jsstring \<Rightarrow> MarkdownSourceNode"

section \<open>Resolved links\<close>

definition normalizeLabel :: "md_tree \<Rightarrow> jsstring \<Rightarrow> jsstring" where
  "normalizeLabel T source =
     normalizeIdentifier T (map (\<lambda>c. if c = 0 then 0xfffd else c) (decodeString (md_text_of T) source))"

definition labelValue :: "md_tree \<Rightarrow> jsstring \<Rightarrow> MarkdownSourceNode \<Rightarrow> jsstring" where
  "labelValue T source node = normalizeLabel T (slice source (nd_from node + 1) (nd_to node - 1))"

definition linkTextValue :: "md_tree \<Rightarrow> jsstring \<Rightarrow> MarkdownSourceNode list \<Rightarrow> jsstring" where
  "linkTextValue T source marks = normalizeLabel T (slice source (nd_to (marks ! 0)) (nd_from (marks ! 1)))"

definition isValidMarkdownLinkReference :: "md_tree \<Rightarrow> jsstring \<Rightarrow> MarkdownSourceNode \<Rightarrow> bool" where
  "isValidMarkdownLinkReference T source node \<longleftrightarrow>
     nd_name node = ''LinkReference'' \<and> has_definition T (slice source (nd_from node) (nd_to node))"

fun collectDefinitions :: "md_tree \<Rightarrow> jsstring \<Rightarrow> MarkdownSourceNode \<Rightarrow> jsstring list" where
  "collectDefinitions T source (Node name f t cs) =
     (if name = ''LinkReference'' then
        (case List.find (\<lambda>child. nd_name child = ''LinkLabel'') cs of
           Some label \<Rightarrow>
             if isValidMarkdownLinkReference T source (Node name f t cs) then [labelValue T source label] else []
         | None \<Rightarrow> [])
      else concat (map (collectDefinitions T source) cs))"

definition link_like :: "string \<Rightarrow> bool" where
  "link_like name \<longleftrightarrow> name = ''Link'' \<or> name = ''Image''"

fun collectLinks :: "md_tree \<Rightarrow> jsstring \<Rightarrow> jsstring list \<Rightarrow> MarkdownSourceNode \<Rightarrow> (nat \<times> nat) list" where
  "collectLinks T source definitions (Node name f t cs) =
     (if link_like name then
        let marks = filter (\<lambda>child. nd_name child = ''LinkMark'') cs in
        if length marks < 2 then []
        else
          let labelClose = nd_to (marks ! 1);
              isCompleteInlineLink = (labelClose < length source \<and> source ! labelClose = 0x28 \<and>
                t > labelClose \<and> t \<le> length source \<and> source ! (t - 1) = 0x29);
              referenceLabel = List.find (\<lambda>child. nd_name child = ''LinkLabel'' \<and> nd_from child \<ge> labelClose) cs;
              identifier = (case referenceLabel of
                  Some label \<Rightarrow>
                    if nd_to label - nd_from label > 2 then labelValue T source label
                    else linkTextValue T source marks
                | None \<Rightarrow> linkTextValue T source marks)
          in if isCompleteInlineLink \<or> identifier \<in> set definitions then [(f, t)]
             else concat (map (collectLinks T source definitions) cs)
      else concat (map (collectLinks T source definitions) cs))"

definition resolvedMarkdownLinkRanges :: "md_tree \<Rightarrow> jsstring \<Rightarrow> MarkdownSourceNode \<Rightarrow> (nat \<times> nat) list" where
  "resolvedMarkdownLinkRanges T source root =
     sort (collectLinks T source (collectDefinitions T source root) root)"

definition hasExactMarkdownRange :: "(nat \<times> nat) list \<Rightarrow> MarkdownSourceNode \<Rightarrow> bool" where
  "hasExactMarkdownRange ranges node \<longleftrightarrow> (nd_from node, nd_to node) \<in> set ranges"

section \<open>Written URLs over the tree\<close>

definition URL_SOURCE_CONTAINERS :: "string list" where
  "URL_SOURCE_CONTAINERS =
     [''ATXHeading1'', ''ATXHeading2'', ''ATXHeading3'', ''ATXHeading4'', ''ATXHeading5'', ''ATXHeading6'',
      ''Paragraph'', ''SetextHeading1'', ''SetextHeading2'', ''TableCell'', ''Task'']"

definition URL_PREFIX_OPAQUE_NODES :: "string list" where
  "URL_PREFIX_OPAQUE_NODES =
     [''Autolink'', ''BlockMath'', ''Comment'', ''Escape'', ''HTMLBlock'', ''HTMLTag'', ''InlineCode'',
      ''InlineMath'', ''ProcessingInstruction'']"

definition known_entity :: "md_tree \<Rightarrow> jsstring \<Rightarrow> MarkdownSourceNode \<Rightarrow> bool" where
  "known_entity T source child \<longleftrightarrow>
     nd_name child = ''Entity'' \<and>
     (let spelling = slice source (nd_from child) (nd_to child)
      in decodeString (md_text_of T) spelling \<noteq> spelling)"

definition opaque_node :: "md_tree \<Rightarrow> jsstring \<Rightarrow> (nat \<times> nat) list \<Rightarrow> MarkdownSourceNode \<Rightarrow> bool" where
  "opaque_node T source resolvedLinks child \<longleftrightarrow>
     (link_like (nd_name child) \<and> hasExactMarkdownRange resolvedLinks child) \<or>
     known_entity T source child \<or> nd_name child \<in> set URL_PREFIX_OPAQUE_NODES"

fun collect_opaque :: "md_tree \<Rightarrow> jsstring \<Rightarrow> (nat \<times> nat) list \<Rightarrow> MarkdownSourceNode \<Rightarrow> (nat \<times> nat) list" where
  "collect_opaque T source resolvedLinks (Node name f t cs) =
     concat (map (\<lambda>child.
       if opaque_node T source resolvedLinks child then [(nd_from child, nd_to child)]
       else collect_opaque T source resolvedLinks child) cs)"

definition opaqueURLPrefixRanges ::
    "md_tree \<Rightarrow> jsstring \<Rightarrow> MarkdownSourceNode \<Rightarrow> (nat \<times> nat) list \<Rightarrow> (nat \<times> nat) list" where
  "opaqueURLPrefixRanges T source container resolvedLinks =
     sort (collect_opaque T source resolvedLinks container)"

definition url_container :: "md_tree \<Rightarrow> jsstring \<Rightarrow> MarkdownSourceNode \<Rightarrow> bool" where
  "url_container T source node \<longleftrightarrow>
     nd_name node \<in> set URL_SOURCE_CONTAINERS \<or>
     nd_name node = ''LinkReference'' \<and> \<not> isValidMarkdownLinkReference T source node"

fun collect_urls ::
    "md_tree \<Rightarrow> jsstring \<Rightarrow> (nat \<times> nat) list \<Rightarrow> bool \<Rightarrow> MarkdownSourceNode \<Rightarrow> (nat \<times> nat) list" where
  "collect_urls T source resolvedLinks bom (Node name f t cs) =
     (if url_container T source (Node name f t cs) then
        findWrittenGFMURLRanges (md_text_of T) source f t f
          (opaqueURLPrefixRanges T source (Node name f t cs) resolvedLinks) bom
      else concat (map (collect_urls T source resolvedLinks bom) cs))"

definition findMarkdownGFMURLRanges ::
    "md_tree \<Rightarrow> jsstring \<Rightarrow> MarkdownSourceNode \<Rightarrow> (nat \<times> nat) list \<Rightarrow> bool \<Rightarrow> (nat \<times> nat) list" where
  "findMarkdownGFMURLRanges T source root resolvedLinks allowInitialBOM =
     sort (collect_urls T source resolvedLinks allowInitialBOM root)"

section \<open>E-mail addresses over the tree\<close>

definition TEXT_CONTAINERS :: "string list" where
  "TEXT_CONTAINERS =
     [''ATXHeading1'', ''ATXHeading2'', ''ATXHeading3'', ''ATXHeading4'', ''ATXHeading5'', ''ATXHeading6'',
      ''Emphasis'', ''Paragraph'', ''SetextHeading1'', ''SetextHeading2'', ''Strikethrough'',
      ''StrongEmphasis'', ''TableCell'', ''Task'']"

definition STRUCTURAL_CONTAINERS :: "string list" where
  "STRUCTURAL_CONTAINERS =
     [''Blockquote'', ''BulletList'', ''Document'', ''ListItem'', ''OrderedList'', ''Table'',
      ''TableHeader'', ''TableRow'']"

definition REFERENCE_LABEL_PREFIX :: jsstring where
  "REFERENCE_LABEL_PREFIX = js ''x ''"

text \<open>
  A child that stays in the run of its container, so that the parser's cuts cannot shorten an address.
\<close>

definition staysInTextRun :: "md_tree \<Rightarrow> jsstring \<Rightarrow> MarkdownSourceNode \<Rightarrow> bool" where
  "staysInTextRun T source child \<longleftrightarrow>
     nd_name child = ''Escape'' \<or> known_entity T source child \<or>
     nd_name child = ''URL'' \<and> isGFMEmailURLSource (slice source (nd_from child) (nd_to child))"

definition run_emails :: "md_tree \<Rightarrow> jsstring \<Rightarrow> bool \<Rightarrow> nat \<Rightarrow> nat \<Rightarrow> GFMEmailSourceRange list" where
  "run_emails T source scansDirectText cursor bound =
     (if scansDirectText \<and> cursor < bound then findGFMEmailMatches (md_text_of T) source cursor bound else [])"

text \<open>
  \<^verbatim>\<open>collect\<close> and its loop over the children; the argument \<open>label\<close> is \<^verbatim>\<open>collectUnresolvedReferenceLabel\<close>.
\<close>

fun collect_emails ::
    "md_tree \<Rightarrow> jsstring \<Rightarrow> (nat \<times> nat) list \<Rightarrow> bool \<Rightarrow>
     (MarkdownSourceNode \<Rightarrow> GFMEmailSourceRange list option) \<Rightarrow> MarkdownSourceNode \<Rightarrow>
     GFMEmailSourceRange list option"
  and collect_children ::
    "md_tree \<Rightarrow> jsstring \<Rightarrow> (nat \<times> nat) list \<Rightarrow> bool \<Rightarrow>
     (MarkdownSourceNode \<Rightarrow> GFMEmailSourceRange list option) \<Rightarrow> bool \<Rightarrow> bool \<Rightarrow> nat \<Rightarrow> nat \<Rightarrow>
     MarkdownSourceNode list \<Rightarrow> GFMEmailSourceRange list option" where
  "collect_emails T source resolvedLinks allowUnresolvedLinks label (Node name f t cs) =
     (let linkLike = link_like name;
          resolvedLink = (linkLike \<and> (f, t) \<in> set resolvedLinks)
      in if resolvedLink \<or> (linkLike \<and> \<not> allowUnresolvedLinks) then Some []
      else
        let invalidLinkReference = (name = ''LinkReference'' \<and>
              \<not> isValidMarkdownLinkReference T source (Node name f t cs));
            scansDirectText = (name \<in> set TEXT_CONTAINERS \<or> linkLike \<or> invalidLinkReference)
        in if \<not> scansDirectText \<and> name \<notin> set STRUCTURAL_CONTAINERS then Some []
           else collect_children T source resolvedLinks allowUnresolvedLinks label scansDirectText
             (linkLike \<or> invalidLinkReference) t f cs)"
| "collect_children T source resolvedLinks allowUnresolvedLinks label scansDirectText labels t cursor [] =
     Some (run_emails T source scansDirectText cursor t)"
| "collect_children T source resolvedLinks allowUnresolvedLinks label scansDirectText labels t cursor (child # cs) =
     (if scansDirectText \<and> staysInTextRun T source child
      then collect_children T source resolvedLinks allowUnresolvedLinks label scansDirectText labels t cursor cs
      else do {
        let before = run_emails T source scansDirectText cursor (nd_from child);
        inner \<leftarrow> (if labels \<and> nd_name child = ''LinkLabel'' then label child
          else collect_emails T source resolvedLinks allowUnresolvedLinks label child);
        after \<leftarrow> collect_children T source resolvedLinks allowUnresolvedLinks label scansDirectText labels t
          (nd_to child) cs;
        Some (before @ inner @ after)
      })"

definition collectUnresolvedReferenceLabel ::
    "md_tree \<Rightarrow> jsstring \<Rightarrow>
     (jsstring \<Rightarrow> MarkdownSourceNode \<Rightarrow> (nat \<times> nat) list \<Rightarrow> bool \<Rightarrow> GFMEmailSourceRange list option) \<Rightarrow>
     MarkdownSourceNode \<Rightarrow> GFMEmailSourceRange list option" where
  "collectUnresolvedReferenceLabel T source find_ranges node =
     (let contentFrom = nd_from node + 1; contentTo = nd_to node - 1 in
      if contentFrom \<ge> contentTo then Some []
      else
        let prefixedSource = REFERENCE_LABEL_PREFIX @ slice source contentFrom contentTo;
            root = sourceParser T prefixedSource;
            offset = int contentFrom - int (length REFERENCE_LABEL_PREFIX)
        in map_option (\<lambda>found.
             map (\<lambda>r. r\<lparr>em_from := nat (int (em_from r) + offset), em_to := nat (int (em_to r) + offset)\<rparr>)
               (filter (\<lambda>r. int (em_from r) + offset \<ge> int contentFrom \<and>
                  int (em_to r) + offset \<le> int contentTo) found))
             (find_ranges prefixedSource root (resolvedMarkdownLinkRanges T prefixedSource root) True))"

text \<open>The fuel bounds the depth of labels parsed inside labels.\<close>

fun findMarkdownGFMEmailRanges ::
    "md_tree \<Rightarrow> nat \<Rightarrow> jsstring \<Rightarrow> MarkdownSourceNode \<Rightarrow> (nat \<times> nat) list \<Rightarrow> bool \<Rightarrow>
     GFMEmailSourceRange list option" where
  "findMarkdownGFMEmailRanges T 0 source root resolvedLinks allowUnresolvedLinks = None"
| "findMarkdownGFMEmailRanges T (Suc fuel) source root resolvedLinks allowUnresolvedLinks =
     map_option (sort_key (\<lambda>r. (em_from r, em_to r)))
       (collect_emails T source resolvedLinks allowUnresolvedLinks
         (collectUnresolvedReferenceLabel T source (findMarkdownGFMEmailRanges T fuel)) root)"

section \<open>Well-formed trees\<close>

fun wf_node :: "MarkdownSourceNode \<Rightarrow> bool" where
  "wf_node (Node name f t cs) \<longleftrightarrow>
     f \<le> t \<and> (\<forall>c \<in> set cs. wf_node c \<and> f \<le> nd_from c \<and> nd_to c \<le> t) \<and>
     sorted_wrt (\<lambda>c d. nd_to c \<le> nd_from d) cs"

lemma wf_node_range: "wf_node node \<Longrightarrow> nd_from node \<le> nd_to node"
  by (cases node) simp

text \<open>Ranges collected from the children of a well-formed node are in order inside it.\<close>

definition ranges_in :: "nat \<Rightarrow> nat \<Rightarrow> (nat \<times> nat) list \<Rightarrow> bool" where
  "ranges_in f t rs \<longleftrightarrow>
     (\<forall>r \<in> set rs. f \<le> fst r \<and> fst r \<le> snd r \<and> snd r \<le> t) \<and> sorted_wrt (\<lambda>r r'. snd r \<le> fst r') rs"

lemma ranges_in_concat:
  assumes "\<And>c. c \<in> set cs \<Longrightarrow> ranges_in (nd_from c) (nd_to c) (g c) \<and> f \<le> nd_from c \<and> nd_to c \<le> t"
    and "sorted_wrt (\<lambda>c d. nd_to c \<le> nd_from d) cs"
  shows "ranges_in f t (concat (map g cs))"
  using assms
proof (induction cs)
  case (Cons c cs)
  then have IH: "ranges_in f t (concat (map g cs))" by simp
  have c: "ranges_in (nd_from c) (nd_to c) (g c)" "f \<le> nd_from c" "nd_to c \<le> t" using Cons.prems(1) by auto
  have "snd r \<le> fst r'" if r: "r \<in> set (g c)" "d \<in> set cs" "r' \<in> set (g d)" for r d r'
  proof -
    have "snd r \<le> nd_to c" using c(1) r(1) by (simp add: ranges_in_def)
    also have "\<dots> \<le> nd_from d" using Cons.prems(2) r(2) by simp
    also have "\<dots> \<le> fst r'" using Cons.prems(1) [of d] r(2,3) by (simp add: ranges_in_def)
    finally show ?thesis .
  qed
  then show ?case using IH c by (fastforce simp: ranges_in_def sorted_wrt_append)
qed (simp add: ranges_in_def)

lemma collect_opaque_ranges: "wf_node node \<Longrightarrow> ranges_in (nd_from node) (nd_to node) (collect_opaque T source links node)"
proof (induction node)
  case (Node name f t cs)
  then show ?case
    unfolding collect_opaque.simps MarkdownSourceNode.sel
    by (intro ranges_in_concat) (auto simp: ranges_in_def wf_node_range)
qed

lemma ranges_in_sort: "ranges_in f t rs \<Longrightarrow> sort rs = rs"
proof -
  assume r: "ranges_in f t rs"
  have "r \<le> r'" if "r \<in> set rs" "r' \<in> set rs" "snd r \<le> fst r'" for r r'
  proof -
    have "fst r \<le> snd r" "fst r' \<le> snd r'" using r that by (auto simp: ranges_in_def)
    with that(3) show ?thesis by (cases r; cases r') (auto simp: less_eq_prod_def)
  qed
  moreover have "sorted_wrt (\<lambda>r r'. snd r \<le> fst r') rs" using r by (simp add: ranges_in_def)
  ultimately have "sorted rs" by (rule sorted_wrt_mono_rel)
  then show ?thesis by (rule sorted_sort_id)
qed

section \<open>The written URLs of a tree\<close>

lemma url_loop_ge: "(a, b) \<in> set (url_loop md s lb ub ctx bom opq offset) \<Longrightarrow> offset \<le> a"
proof (induction "ub - offset" arbitrary: offset opq rule: less_induct)
  case less
  have "offset < ub" using less.prems by (cases "offset < ub") (simp_all add: url_loop.simps)
  have m: "ub - j < ub - offset" if "offset < j" for j using \<open>offset < ub\<close> that by (simp add: diff_less_mono2)
  from \<open>offset < ub\<close> show ?case
  proof (cases rule: url_loop_cases [where opq = opq and md = md and s = s and lb = lb and ctx = ctx and bom = bom])
    case (opaque f t later)
    then show ?thesis using less.hyps [OF m [OF opaque(3)]] less.prems by fastforce
  next
    case (hit d)
    then show ?thesis using less.hyps [OF m [OF hit(2)]] less.prems by fastforce
  next
    case miss
    then show ?thesis using less.hyps [OF m, of "offset + 1"] less.prems by fastforce
  qed
qed

text \<open>A reported URL never starts inside an opaque range.\<close>

lemma url_loop_avoids:
  assumes "ranges_in f0 t0 opq" "(a, b) \<in> set (url_loop md s lb ub ctx bom opq offset)" "(f, t) \<in> set opq"
  shows "\<not> (f \<le> a \<and> a < t)"
  using assms
proof (induction "ub - offset" arbitrary: offset opq rule: less_induct)
  case less
  note prems = less.prems
  have at: "offset \<le> a" by (rule url_loop_ge [OF prems(2)])
  have "offset < ub" using prems(2) by (cases "offset < ub") (simp_all add: url_loop.simps)
  have m: "ub - j < ub - offset" if "offset < j" for j using \<open>offset < ub\<close> that by (simp add: diff_less_mono2)
  have sorted: "ranges_in f0 t0 (dropWhile P opq)" for P
    using prems(1) by (auto simp: ranges_in_def dest: set_dropWhileD intro: sorted_wrt_dropWhile)
  let ?later = "dropWhile (\<lambda>r. snd r \<le> offset) opq"
  have mem: "(f, t) \<in> set ?later" if "a < t"
  proof (rule ccontr)
    assume "(f, t) \<notin> set ?later"
    then have "(f, t) \<in> set (takeWhile (\<lambda>r. snd r \<le> offset) opq)"
      using prems(3) by (metis Un_iff set_append takeWhile_dropWhile_id)
    then have "t \<le> offset" by (auto dest: set_takeWhileD)
    with that at show False by simp
  qed
  from \<open>offset < ub\<close> show ?case
  proof (cases rule: url_loop_cases [where opq = opq and md = md and s = s and lb = lb and ctx = ctx and bom = bom])
    case (opaque f' t' later)
    then show ?thesis
      using less.hyps [OF m [OF opaque(3)], of "(f', t') # later"] sorted [of "\<lambda>r. snd r \<le> offset"] prems(2) mem
      by (auto simp: opaque(1))
  next
    case (hit d)
    show ?thesis
    proof (cases "a = offset")
      case True
      show ?thesis
      proof
        assume ft: "f \<le> a \<and> a < t"
        then have "(f, t) \<in> set ?later" using mem by simp
        then obtain f' t' later where l: "?later = (f', t') # later" by (cases ?later) auto
        have "f' \<le> f" using sorted [of "\<lambda>r. snd r \<le> offset"] \<open>(f, t) \<in> set ?later\<close>
          by (force simp: l ranges_in_def)
        with hit(4) [OF l] ft True show False by simp
      qed
    next
      case False
      then show ?thesis
        using less.hyps [OF m [OF hit(2)] sorted, of "\<lambda>r. snd r \<le> offset"] prems(2) mem unfolding hit(5) by auto
    qed
  next
    case miss
    then show ?thesis
      using less.hyps [OF m sorted, of "offset + 1" "\<lambda>r. snd r \<le> offset"] prems(2) mem by auto
  qed
qed

text \<open>The nodes whose text is searched, and the URLs of one of them.\<close>

fun url_containers :: "md_tree \<Rightarrow> jsstring \<Rightarrow> MarkdownSourceNode \<Rightarrow> MarkdownSourceNode list" where
  "url_containers T source (Node name f t cs) =
     (if url_container T source (Node name f t cs) then [Node name f t cs]
      else concat (map (url_containers T source) cs))"

definition container_urls ::
    "md_tree \<Rightarrow> jsstring \<Rightarrow> (nat \<times> nat) list \<Rightarrow> bool \<Rightarrow> MarkdownSourceNode \<Rightarrow> (nat \<times> nat) list" where
  "container_urls T source links bom node =
     findWrittenGFMURLRanges (md_text_of T) source (nd_from node) (nd_to node) (nd_from node)
       (opaqueURLPrefixRanges T source node links) bom"

lemma collect_urls_eq:
  "collect_urls T source links bom node = concat (map (container_urls T source links bom) (url_containers T source node))"
proof (induction node)
  case (Node name f t cs)
  have "concat (map (collect_urls T source links bom) cs) =
      concat (map (container_urls T source links bom) (concat (map (url_containers T source) cs)))"
    using Node by (induction cs) auto
  then show ?case by (simp add: container_urls_def [of _ _ _ _ "Node name f t cs"])
qed

lemma containers_wf: "wf_node root \<Longrightarrow> node \<in> set (url_containers T source root) \<Longrightarrow> wf_node node"
  by (induction root) (auto split: if_splits)

lemma container_urls_cases:
  assumes "wf_node node" "(a, b) \<in> set (container_urls T source links bom node)"
  shows "nd_from node \<le> a \<and> a < nd_to node \<and>
    writtenGFMURLSourceRangeAt (md_text_of T) source a (nd_from node) (nd_to node) bom = Some (a, b) \<and>
    (\<forall>(f, t) \<in> set (collect_opaque T source links node). \<not> (f \<le> a \<and> a < t))"
proof -
  note R = collect_opaque_ranges [OF assms(1), of T source links]
  note m = assms(2) [unfolded container_urls_def findWrittenGFMURLRanges_def opaqueURLPrefixRanges_def ranges_in_sort [OF R]]
  note s = url_loop_sound [OF m]
  then have "a < nd_to node"
    by (auto simp: writtenGFMURLSourceRangeAt_def writtenGFMURLSourceRange_def dest: prefixEnd_bounds
        split: if_splits option.splits)
  then show ?thesis using s url_loop_avoids [OF R m] by auto
qed

lemma container_urls_complete:
  assumes "wf_node node" "nd_from node \<le> a" "a < nd_to node"
    "writtenGFMURLSourceRangeAt (md_text_of T) source a (nd_from node) (nd_to node) bom = Some (a, b)"
  shows "(\<exists>(f, t) \<in> set (collect_opaque T source links node). f \<le> a \<and> a < t) \<or>
    (\<exists>(c, d) \<in> set (container_urls T source links bom node). c \<le> a \<and> a < d)"
  unfolding container_urls_def findWrittenGFMURLRanges_def opaqueURLPrefixRanges_def
    ranges_in_sort [OF collect_opaque_ranges [OF assms(1)]]
  by (rule url_loop_complete [OF assms(4) assms(2,3,2)])

lemma containers_ranges:
  "wf_node root \<Longrightarrow>
   ranges_in (nd_from root) (nd_to root) (map (\<lambda>n. (nd_from n, nd_to n)) (url_containers T source root))"
proof (induction root)
  case (Node name f t cs)
  show ?case
  proof (cases "url_container T source (Node name f t cs)")
    case True
    then show ?thesis using Node.prems by (simp add: ranges_in_def)
  next
    case False
    have "ranges_in f t (concat (map (\<lambda>c. map (\<lambda>n. (nd_from n, nd_to n)) (url_containers T source c)) cs))"
      using Node by (intro ranges_in_concat) auto
    then show ?thesis using False by (simp add: map_concat comp_def)
  qed
qed

lemma spaced_starts: "spaced i n (map (\<lambda>(a, b). (a, b, ())) rs) \<Longrightarrow> sorted_wrt (\<lambda>r r'. fst r < fst r') rs"
proof (induction rs arbitrary: i)
  case (Cons r rs)
  obtain a b where r: "r = (a, b)" by (cases r)
  then have sp: "spaced b n (map (\<lambda>(a, b). (a, b, ())) rs)" "a < b" using Cons.prems by auto
  have "b \<le> fst r'" if "r' \<in> set rs" for r'
  proof -
    have "(fst r', snd r', ()) \<in> set (map (\<lambda>(a, b). (a, b, ())) rs)"
      using that image_eqI [of _ "\<lambda>(a, b). (a, b, ())" r' "set rs"] by (simp add: case_prod_beta)
    then show ?thesis using spaced_bounds [OF sp(1)] by blast
  qed
  then show ?case using Cons.IH [OF sp(1)] sp(2) by (force simp: r)
qed simp

lemma sorted_starts: "sorted_wrt (\<lambda>r r'. fst r < fst r') (rs :: (nat \<times> nat) list) \<Longrightarrow> sort rs = rs"
  by (rule sorted_sort_id, erule sorted_wrt_mono_rel [rotated]) (auto simp: less_eq_prod_def)

lemma collect_urls_starts:
  assumes "utf16 source" "wf_node root" "nd_to root \<le> length source"
  shows "sorted_wrt (\<lambda>r r'. fst r < fst r') (collect_urls T source links bom root)"
proof -
  have one: "sorted_wrt (\<lambda>r r'. fst r < fst r') (container_urls T source links bom n)" if "nd_to n \<le> length source" for n
    unfolding container_urls_def findWrittenGFMURLRanges_def
    by (rule spaced_starts) (rule url_loop_spaced [OF assms(1) that])
  have "sorted_wrt (\<lambda>r r'. fst r < fst r') (concat (map (container_urls T source links bom) ns))"
    if "ranges_in (nd_from root) (nd_to root) (map (\<lambda>n. (nd_from n, nd_to n)) ns)" "\<forall>n \<in> set ns. wf_node n" for ns
    using that
  proof (induction ns)
    case (Cons n ns)
    have "fst r < fst r'" if r: "r \<in> set (container_urls T source links bom n)" "m \<in> set ns"
        "r' \<in> set (container_urls T source links bom m)" for r m r'
    proof -
      have "fst r < nd_to n" "nd_from m \<le> fst r'"
        using container_urls_cases [of n "fst r" "snd r"] container_urls_cases [of m "fst r'" "snd r'"] r Cons.prems(2)
        by auto
      moreover have "nd_to n \<le> nd_from m" using Cons.prems(1) r(2) by (simp add: ranges_in_def)
      ultimately show ?thesis by simp
    qed
    moreover have "nd_to n \<le> length source" using Cons.prems(1) assms(3) by (simp add: ranges_in_def)
    ultimately show ?case using Cons one by (auto simp: sorted_wrt_append ranges_in_def)
  qed simp
  then show ?thesis
    unfolding collect_urls_eq using containers_ranges [OF assms(2)] containers_wf [OF assms(2)] by blast
qed

text \<open>
  C31. The URLs reported for a well-formed tree come in the order of their starts; each stands in a text
  node, at a boundary, outside the code, mathematics, markup and resolved links of that node; and none is
  missed: wherever a URL stands in a text node, the offset lies in such an opaque range or in a reported URL.
\<close>

theorem markdown_urls_found:
  assumes "utf16 source" and "wf_node root" and "nd_to root \<le> length source"
    and "urls = findMarkdownGFMURLRanges T source root links bom"
  shows "sorted_wrt (\<lambda>r r'. fst r < fst r') urls \<and>
    (\<forall>(a, b) \<in> set urls. \<exists>node \<in> set (url_containers T source root).
       nd_from node \<le> a \<and> a < nd_to node \<and>
       writtenGFMURLSourceRangeAt (md_text_of T) source a (nd_from node) (nd_to node) bom = Some (a, b) \<and>
       (\<forall>(f, t) \<in> set (collect_opaque T source links node). \<not> (f \<le> a \<and> a < t))) \<and>
    (\<forall>node \<in> set (url_containers T source root). \<forall>a b.
       nd_from node \<le> a \<and> a < nd_to node \<and>
       writtenGFMURLSourceRangeAt (md_text_of T) source a (nd_from node) (nd_to node) bom = Some (a, b) \<longrightarrow>
       (\<exists>(f, t) \<in> set (collect_opaque T source links node). f \<le> a \<and> a < t) \<or>
       (\<exists>(c, d) \<in> set urls. c \<le> a \<and> a < d))"
proof -
  have u: "urls = collect_urls T source links bom root"
    using assms(4) sorted_starts [OF collect_urls_starts [OF assms(1-3)]] by (simp add: findMarkdownGFMURLRanges_def)
  have covered: "\<exists>(c, d) \<in> set urls. c \<le> a \<and> a < d"
    if "node \<in> set (url_containers T source root)" "\<exists>(c, d) \<in> set (container_urls T source links bom node). c \<le> a \<and> a < d"
    for node a
    unfolding u collect_urls_eq using that by fastforce
  have origin: "\<exists>node \<in> set (url_containers T source root). (a, b) \<in> set (container_urls T source links bom node)"
    if "(a, b) \<in> set urls" for a b
    using that unfolding u collect_urls_eq by auto
  note wf = containers_wf [OF assms(2)]
  show ?thesis
  proof (intro conjI ballI allI impI)
    show "sorted_wrt (\<lambda>r r'. fst r < fst r') urls" unfolding u by (rule collect_urls_starts [OF assms(1-3)])
  next
    fix r assume "r \<in> set urls"
    moreover obtain a b where r: "r = (a, b)" by (cases r)
    ultimately obtain node where n: "node \<in> set (url_containers T source root)"
        "(a, b) \<in> set (container_urls T source links bom node)"
      using origin by blast
    show "case r of (a, b) \<Rightarrow> \<exists>node \<in> set (url_containers T source root).
       nd_from node \<le> a \<and> a < nd_to node \<and>
       writtenGFMURLSourceRangeAt (md_text_of T) source a (nd_from node) (nd_to node) bom = Some (a, b) \<and>
       (\<forall>(f, t) \<in> set (collect_opaque T source links node). \<not> (f \<le> a \<and> a < t))"
      unfolding r prod.case by (intro bexI [OF _ n(1)] container_urls_cases [OF wf [OF n(1)] n(2)])
  next
    fix node a b
    assume n: "node \<in> set (url_containers T source root)" and w: "nd_from node \<le> a \<and> a < nd_to node \<and>
       writtenGFMURLSourceRangeAt (md_text_of T) source a (nd_from node) (nd_to node) bom = Some (a, b)"
    from w have "(\<exists>(f, t) \<in> set (collect_opaque T source links node). f \<le> a \<and> a < t) \<or>
        (\<exists>(c, d) \<in> set (container_urls T source links bom node). c \<le> a \<and> a < d)"
      by (intro container_urls_complete [OF wf [OF n]]) auto
    then show "(\<exists>(f, t) \<in> set (collect_opaque T source links node). f \<le> a \<and> a < t) \<or>
        (\<exists>(c, d) \<in> set urls. c \<le> a \<and> a < d)"
      using covered [OF n] by blast
  qed
qed

definition sample_tree :: md_tree where
  "sample_tree = \<lparr>md_text_of = sample_md_text, normalizeIdentifier = (\<lambda>s. s), has_definition = (\<lambda>s. True),
     sourceParser = (\<lambda>s. Node ''Document'' 0 (length s) [Node ''Paragraph'' 0 (length s) []])\<rparr>"

lemma sample_wf: "wf_node (sourceParser sample_tree s)"
  by (simp add: sample_tree_def)

theorem markdown_urls_found_witness:
  "\<exists>(c, d) \<in> set (findMarkdownGFMURLRanges sample_tree (js ''(www.a.b)'')
     (sourceParser sample_tree (js ''(www.a.b)'')) [] True). c \<le> 1 \<and> 1 < d"
proof -
  let ?s = "js ''(www.a.b)''"
  have l: "length ?s = 9" by simp
  have u: "utf16 ?s" by (simp add: utf16_def js_str)
  have c: "url_containers sample_tree ?s (sourceParser sample_tree ?s) = [Node ''Paragraph'' 0 9 []]"
    by (simp add: sample_tree_def url_container_def URL_SOURCE_CONTAINERS_def)
  note F = markdown_urls_found [OF u sample_wf _ refl, of ?s sample_tree "[]" True, unfolded c]
  have "nd_to (sourceParser sample_tree ?s) \<le> length ?s" by (simp add: sample_tree_def)
  from F [OF this] sample_url show ?thesis by (simp add: sample_tree_def)
qed

section \<open>The e-mail addresses of a tree\<close>

fun subnodes :: "MarkdownSourceNode \<Rightarrow> MarkdownSourceNode list" where
  "subnodes (Node name f t cs) = Node name f t cs # concat (map subnodes cs)"

definition labels_within :: "nat \<Rightarrow> MarkdownSourceNode \<Rightarrow> bool" where
  "labels_within n root \<longleftrightarrow>
     (\<forall>node \<in> set (subnodes root). nd_name node = ''LinkLabel'' \<longrightarrow> nd_to node - nd_from node < n)"

definition emails_in :: "nat \<Rightarrow> nat \<Rightarrow> GFMEmailSourceRange list option \<Rightarrow> bool" where
  "emails_in f t found \<longleftrightarrow>
     (case found of None \<Rightarrow> False
      | Some rs \<Rightarrow> \<forall>r \<in> set rs. f \<le> em_from r \<and> em_from r < em_to r \<and> em_to r \<le> t)"

lemma emails_inE: "emails_in f t x \<Longrightarrow>
    (\<And>rs. x = Some rs \<Longrightarrow> \<forall>r \<in> set rs. f \<le> em_from r \<and> em_from r < em_to r \<and> em_to r \<le> t \<Longrightarrow> P) \<Longrightarrow> P"
  by (auto simp: emails_in_def split: option.splits)

lemma emails_in_mono: "emails_in f t x \<Longrightarrow> f' \<le> f \<Longrightarrow> t \<le> t' \<Longrightarrow> emails_in f' t' x"
  by (auto simp: emails_in_def split: option.splits)

lemma run_emails_in: "utf16 source \<Longrightarrow> emails_in cursor bound (Some (run_emails T source direct cursor bound))"
  using email_range_bounds by (fastforce simp: emails_in_def run_emails_def)

lemma emails_in_join:
  assumes "emails_in f t (Some a)" "emails_in f t x" "emails_in f t y"
  shows "emails_in f t (do { b \<leftarrow> x; c \<leftarrow> y; Some (a @ b @ c) })"
  using assms by (auto simp: emails_in_def split: option.splits)

lemma collect_children_in:
  assumes "utf16 source"
    and "\<And>c. c \<in> set cs \<Longrightarrow> wf_node c \<and> f \<le> nd_from c \<and> nd_to c \<le> t \<and>
      emails_in (nd_from c) (nd_to c) (collect_emails T source links allow label c) \<and>
      (nd_name c = ''LinkLabel'' \<longrightarrow> emails_in (nd_from c) (nd_to c) (label c))"
    and "f \<le> cursor"
  shows "emails_in f t (collect_children T source links allow label direct labels t cursor cs)"
  using assms(2,3)
proof (induction cs arbitrary: cursor)
  case Nil
  then show ?case using emails_in_mono [OF run_emails_in [OF assms(1)]] by simp
next
  case (Cons c cs)
  have c: "f \<le> nd_from c" "nd_to c \<le> t" "nd_from c \<le> nd_to c"
    using Cons.prems(1) [of c] wf_node_range by auto
  have rest: "emails_in f t (collect_children T source links allow label direct labels t i cs)" if "f \<le> i" for i
    using Cons.IH Cons.prems(1) that by simp
  have inner: "emails_in f t (if labels \<and> nd_name c = ''LinkLabel'' then label c
      else collect_emails T source links allow label c)"
    using Cons.prems(1) [of c] c emails_in_mono by (auto split: if_splits)
  have here: "emails_in f t (Some (run_emails T source direct cursor (nd_from c)))"
    using emails_in_mono [OF run_emails_in [OF assms(1)]] Cons.prems(2) c by fastforce
  show ?case
    using rest [OF Cons.prems(2)] emails_in_join [OF here inner rest, of "nd_to c"] c
    by (cases direct) (simp_all add: Let_def)
qed

lemma collect_emails_in:
  assumes "utf16 source"
  shows "wf_node node \<Longrightarrow>
    (\<And>n. n \<in> set (subnodes node) \<Longrightarrow> nd_name n = ''LinkLabel'' \<Longrightarrow> emails_in (nd_from n) (nd_to n) (label n)) \<Longrightarrow>
    emails_in (nd_from node) (nd_to node) (collect_emails T source links allow label node)"
proof (induction node)
  case (Node name f t cs)
  have "wf_node c \<and> f \<le> nd_from c \<and> nd_to c \<le> t \<and>
      emails_in (nd_from c) (nd_to c) (collect_emails T source links allow label c) \<and>
      (nd_name c = ''LinkLabel'' \<longrightarrow> emails_in (nd_from c) (nd_to c) (label c))" if "c \<in> set cs" for c
  proof -
    have "c \<in> set (subnodes c)" by (cases c) simp
    then have "nd_name c = ''LinkLabel'' \<longrightarrow> emails_in (nd_from c) (nd_to c) (label c)"
      using Node.prems(2) [of c] that by auto
    moreover have "emails_in (nd_from c) (nd_to c) (collect_emails T source links allow label c)"
      using Node.prems that by (intro Node.IH) auto
    ultimately show ?thesis using Node.prems(1) that by simp
  qed
  note ch = collect_children_in [OF assms this order.refl]
  have e: "emails_in f t (Some [])" by (simp add: emails_in_def)
  show ?case unfolding collect_emails.simps Let_def MarkdownSourceNode.sel using ch e by simp
qed

lemma label_in:
  assumes "emails_in 0 n (find_ranges (REFERENCE_LABEL_PREFIX @ slice source (nd_from node + 1) (nd_to node - 1))
      (sourceParser T (REFERENCE_LABEL_PREFIX @ slice source (nd_from node + 1) (nd_to node - 1)))
      (resolvedMarkdownLinkRanges T (REFERENCE_LABEL_PREFIX @ slice source (nd_from node + 1) (nd_to node - 1))
        (sourceParser T (REFERENCE_LABEL_PREFIX @ slice source (nd_from node + 1) (nd_to node - 1)))) True)"
  shows "emails_in (nd_from node) (nd_to node) (collectUnresolvedReferenceLabel T source find_ranges node)"
  using assms
  by (auto simp: emails_in_def collectUnresolvedReferenceLabel_def Let_def split: option.splits)

text \<open>
  What the parser promises: the trees it gives are well formed and inside the text, and a label is
  shorter than the text it is parsed from.
\<close>

definition parser_ok :: "md_tree \<Rightarrow> bool" where
  "parser_ok T \<longleftrightarrow>
     (\<forall>s. let root = sourceParser T s
       in wf_node root \<and> nd_to root \<le> length s \<and> labels_within (length s) root)"

lemma utf16_label: "utf16 source \<Longrightarrow> utf16 (REFERENCE_LABEL_PREFIX @ slice source i j)"
  by (auto simp: utf16_def REFERENCE_LABEL_PREFIX_def js_str slice_def dest!: in_set_takeD in_set_dropD)

lemma email_ranges_found:
  assumes "parser_ok T"
  shows "utf16 source \<Longrightarrow> wf_node root \<Longrightarrow> labels_within (length source) root \<Longrightarrow> length source < fuel \<Longrightarrow>
    emails_in (nd_from root) (nd_to root) (findMarkdownGFMEmailRanges T fuel source root links allow)"
proof (induction fuel arbitrary: source root links allow)
  case (Suc fuel)
  let ?label = "collectUnresolvedReferenceLabel T source (findMarkdownGFMEmailRanges T fuel)"
  have "emails_in (nd_from n) (nd_to n) (?label n)" if n: "n \<in> set (subnodes root)" "nd_name n = ''LinkLabel''" for n
  proof (cases "nd_from n + 1 < nd_to n - 1")
    case False
    then show ?thesis by (simp add: collectUnresolvedReferenceLabel_def emails_in_def)
  next
    case True
    let ?s = "REFERENCE_LABEL_PREFIX @ slice source (nd_from n + 1) (nd_to n - 1)"
    have P: "wf_node (sourceParser T ?s)" "nd_to (sourceParser T ?s) \<le> length ?s"
        "labels_within (length ?s) (sourceParser T ?s)"
      using assms unfolding parser_ok_def Let_def by blast+
    have "length ?s \<le> nd_to n - nd_from n"
      using True by (simp add: REFERENCE_LABEL_PREFIX_def length_slice)
    also have "\<dots> < length source" using Suc.prems(3) n by (simp add: labels_within_def)
    finally have "length ?s < fuel" using Suc.prems(4) by simp
    from Suc.IH [OF utf16_label [OF Suc.prems(1)] P(1,3) this, THEN emails_in_mono, of 0 "nd_to (sourceParser T ?s)"]
    show ?thesis by (intro label_in) auto
  qed
  from collect_emails_in [where T = T and links = links and allow = allow, OF Suc.prems(1,2) this]
  show ?case by (auto simp: emails_in_def split: option.splits)
qed simp

text \<open>
  C32. The search for e-mail addresses over a tree returns, parsing labels inside labels no deeper than the
  source is long; the reported ranges are in order, not empty and inside the tree, those of a reparsed
  label included.
\<close>

theorem markdown_emails_found:
  assumes "parser_ok T" and "utf16 source" and "root = sourceParser T source" and "length source < fuel"
  shows "\<exists>found. findMarkdownGFMEmailRanges T fuel source root links allow = Some found \<and>
    sorted (map (\<lambda>r. (em_from r, em_to r)) found) \<and>
    (\<forall>r \<in> set found. nd_from root \<le> em_from r \<and> em_from r < em_to r \<and> em_to r \<le> length source)"
proof -
  have P: "wf_node root" "nd_to root \<le> length source" "labels_within (length source) root"
    using assms(1,3) by (simp_all add: parser_ok_def Let_def)
  obtain found where f: "findMarkdownGFMEmailRanges T fuel source root links allow = Some found"
      "\<forall>r \<in> set found. nd_from root \<le> em_from r \<and> em_from r < em_to r \<and> em_to r \<le> nd_to root"
    by (rule emails_inE [OF email_ranges_found [OF assms(1,2) P(1,3) assms(4)]])
  obtain k where k: "fuel = Suc k" using assms(4) by (cases fuel) auto
  have "sorted (map (\<lambda>r. (em_from r, em_to r)) found)"
    using f(1) by (auto simp: k)
  then show ?thesis using f P(2) by fastforce
qed

text \<open>A parser that gives a reference link with a label for one source.\<close>

definition sample_label_source :: jsstring where
  "sample_label_source = js ''[a][b@c.d]''"

definition sample_label_tree :: md_tree where
  "sample_label_tree = sample_tree\<lparr>sourceParser := (\<lambda>s.
     if s = sample_label_source
     then Node ''Document'' 0 10 [Node ''Paragraph'' 0 10 [Node ''Link'' 0 10
       [Node ''LinkMark'' 0 1 [], Node ''LinkMark'' 2 3 [], Node ''LinkLabel'' 3 10 []]]]
     else sourceParser sample_tree s)\<rparr>"

lemma sample_parser_ok: "parser_ok sample_label_tree"
  by (auto simp: parser_ok_def sample_label_tree_def sample_tree_def labels_within_def Let_def
      sample_label_source_def)

theorem markdown_emails_found_witness:
  "\<exists>found. findMarkdownGFMEmailRanges sample_label_tree 11 sample_label_source
     (sourceParser sample_label_tree sample_label_source) [] True = Some found"
proof -
  have "utf16 sample_label_source" "length sample_label_source < 11"
    by (simp_all add: utf16_def sample_label_source_def js_str)
  then show ?thesis using markdown_emails_found [OF sample_parser_ok _ refl, of sample_label_source 11] by blast
qed

end
