(* ===== verification/MemoCache.thy ===== *)
theory MemoCache
  imports Prelude "HOL-Library.AList"
begin

text \<open>
  The cached copies of memos and their optimistic updates (\<^verbatim>\<open>hooks/useMemoQueries.ts\<close>). A memo is a
  JavaScript object, a map from field names to values; spreading is map addition. The query client, a
  library, is a record of its operations; \<open>documented\<close> states what its manual promises about the data it
  keeps: setting replaces the data of one key, an updater is applied to every key under a prefix that has
  data, removal forgets a prefix, and invalidating or cancelling leaves the data as it is.
\<close>

section \<open>Objects and keys\<close>

datatype 'v js_value = Text jsstring | Opaque 'v

type_synonym 'v js_object = "string \<rightharpoonup> 'v js_value"

abbreviation name_of :: "'v js_object \<Rightarrow> 'v js_value option" where
  "name_of memo \<equiv> memo ''name''"

definition truthy_text :: "'v js_value option \<Rightarrow> bool" where
  "truthy_text v \<longleftrightarrow> (case v of Some (Text s) \<Rightarrow> s \<noteq> [] | Some (Opaque _) \<Rightarrow> True | None \<Rightarrow> False)"

record 'v ListMemosResponse =
  lr_memos :: "'v js_object list"
  lr_nextPageToken :: jsstring

datatype 'v query_data =
    Memo_Data "'v js_object"
  | List_Data "'v ListMemosResponse"
  | Pages_Data "'v ListMemosResponse list"
  | Other_Data 'v

datatype 'v key_part = Part string | Named "'v js_value option" | Filters 'v

definition memoKeys_all :: "'v key_part list" where
  "memoKeys_all = [Part ''memos'']"

definition memoKeys_lists :: "'v key_part list" where
  "memoKeys_lists = memoKeys_all @ [Part ''list'']"

definition memoKeys_list :: "'v \<Rightarrow> 'v key_part list" where
  "memoKeys_list filters = memoKeys_lists @ [Filters filters]"

definition memoKeys_detail :: "'v js_value option \<Rightarrow> 'v key_part list" where
  "memoKeys_detail name = memoKeys_all @ [Part ''detail'', Named name]"

definition memoKeys_comments :: "'v js_value option \<Rightarrow> 'v key_part list" where
  "memoKeys_comments name = memoKeys_all @ [Part ''comments'', Named name]"

text \<open>The keys of other hooks that changes of a memo invalidate.\<close>

record 'v other_keys =
  userKeys_stats :: "'v key_part list"
  attachmentKeys_lists :: "'v key_part list"

record ('v, 'c) query_client =
  getQueryData :: "'v key_part list \<Rightarrow> 'c \<Rightarrow> 'v query_data option"
  setQueryData :: "'v key_part list \<Rightarrow> 'v query_data \<Rightarrow> 'c \<Rightarrow> 'c"
  getQueriesData :: "'v key_part list \<Rightarrow> 'c \<Rightarrow> 'v query_data list"
  setQueriesData :: "'v key_part list \<Rightarrow> ('v query_data \<Rightarrow> 'v query_data) \<Rightarrow> 'c \<Rightarrow> 'c"
  removeQueries :: "'v key_part list \<Rightarrow> 'c \<Rightarrow> 'c"
  invalidateQueries :: "'v key_part list \<Rightarrow> 'c \<Rightarrow> 'c"
  cancelQueries :: "'v key_part list \<Rightarrow> 'c \<Rightarrow> 'c"

definition documented :: "('v, 'c) query_client \<Rightarrow> bool" where
  "documented qc \<longleftrightarrow>
     (\<forall>k k' d c. getQueryData qc k' (setQueryData qc k d c) = (if k' = k then Some d else getQueryData qc k' c)) \<and>
     (\<forall>p k f c. getQueryData qc k (setQueriesData qc p f c) =
        (if prefix p k then map_option f (getQueryData qc k c) else getQueryData qc k c)) \<and>
     (\<forall>p d c. d \<in> set (getQueriesData qc p c) \<longleftrightarrow> (\<exists>k. prefix p k \<and> getQueryData qc k c = Some d)) \<and>
     (\<forall>p k c. getQueryData qc k (removeQueries qc p c) = (if prefix p k then None else getQueryData qc k c)) \<and>
     (\<forall>p k c. getQueryData qc k (invalidateQueries qc p c) = getQueryData qc k c) \<and>
     (\<forall>p k c. getQueryData qc k (cancelQueries qc p c) = getQueryData qc k c)"

section \<open>Patching the cached collections\<close>

definition patchMemoListResponse :: "'v js_object \<Rightarrow> 'v ListMemosResponse \<Rightarrow> 'v ListMemosResponse" where
  "patchMemoListResponse update response =
     response\<lparr>lr_memos := map (\<lambda>memo. if name_of memo \<noteq> name_of update then memo else memo ++ update)
       (lr_memos response)\<rparr>"

fun patchMemoListQueryData :: "'v js_object \<Rightarrow> 'v query_data \<Rightarrow> 'v query_data" where
  "patchMemoListQueryData update (List_Data response) = List_Data (patchMemoListResponse update response)"
| "patchMemoListQueryData update (Pages_Data pages) = Pages_Data (map (patchMemoListResponse update) pages)"
| "patchMemoListQueryData update data = data"

definition findMemoInListResponse :: "'v js_value option \<Rightarrow> 'v ListMemosResponse \<Rightarrow> 'v js_object option" where
  "findMemoInListResponse name response = List.find (\<lambda>memo. name_of memo = name) (lr_memos response)"

fun first_Some :: "('a \<Rightarrow> 'b option) \<Rightarrow> 'a list \<Rightarrow> 'b option" where
  "first_Some f [] = None"
| "first_Some f (x # xs) = (case f x of Some y \<Rightarrow> Some y | None \<Rightarrow> first_Some f xs)"

fun findMemoInQueryData :: "'v js_value option \<Rightarrow> 'v query_data \<Rightarrow> 'v js_object option" where
  "findMemoInQueryData name (List_Data response) = findMemoInListResponse name response"
| "findMemoInQueryData name (Pages_Data pages) = first_Some (findMemoInListResponse name) pages"
| "findMemoInQueryData name data = None"

definition findMemoInCollectionQueries ::
    "('v, 'c) query_client \<Rightarrow> 'v js_value option \<Rightarrow> 'c \<Rightarrow> 'v js_object option" where
  "findMemoInCollectionQueries qc name c =
     first_Some (findMemoInQueryData name) (getQueriesData qc memoKeys_all c)"

definition patchMemoInCollectionQueries :: "('v, 'c) query_client \<Rightarrow> 'v js_object \<Rightarrow> 'c \<Rightarrow> 'c" where
  "patchMemoInCollectionQueries qc update = setQueriesData qc memoKeys_all (patchMemoListQueryData update)"

section \<open>The mutations\<close>

text \<open>The memo under a detail key; such a key holds a memo.\<close>

definition cached_memo :: "('v, 'c) query_client \<Rightarrow> 'v js_value option \<Rightarrow> 'c \<Rightarrow> 'v js_object option" where
  "cached_memo qc name c =
     (case getQueryData qc (memoKeys_detail name) c of Some (Memo_Data m) \<Rightarrow> Some m | _ \<Rightarrow> None)"

definition record_view_success ::
    "('v, 'c) query_client \<Rightarrow> 'v js_value \<Rightarrow> 'v js_value option \<Rightarrow> 'c \<Rightarrow> 'c" where
  "record_view_success qc viewCount name c =
     (let c1 = (case cached_memo qc name c of
            Some memo \<Rightarrow> setQueryData qc (memoKeys_detail name) (Memo_Data (memo(''viewCount'' \<mapsto> viewCount))) c
          | None \<Rightarrow> c)
      in patchMemoInCollectionQueries qc ((\<lambda>_. None)(''name'' := name, ''viewCount'' := Some viewCount)) c1)"

definition create_success :: "('v, 'c) query_client \<Rightarrow> 'v other_keys \<Rightarrow> 'v js_object \<Rightarrow> 'c \<Rightarrow> 'c" where
  "create_success qc keys newMemo c =
     invalidateQueries qc (attachmentKeys_lists keys)
       (invalidateQueries qc (userKeys_stats keys)
         (setQueryData qc (memoKeys_detail (name_of newMemo)) (Memo_Data newMemo)
           (invalidateQueries qc memoKeys_lists c)))"

text \<open>An update in flight: the context of the mutation is the previous memo.\<close>

definition update_mutate ::
    "('v, 'c) query_client \<Rightarrow> 'v js_object \<Rightarrow> 'c \<Rightarrow> 'v js_object option \<times> 'c" where
  "update_mutate qc update c =
     (if \<not> truthy_text (name_of update) then (None, c)
      else
        let c1 = cancelQueries qc memoKeys_all c;
            previousMemo = (case cached_memo qc (name_of update) c1 of
                Some m \<Rightarrow> Some m
              | None \<Rightarrow> findMemoInCollectionQueries qc (name_of update) c1);
            c2 = (case previousMemo of
                Some m \<Rightarrow> setQueryData qc (memoKeys_detail (name_of update)) (Memo_Data (m ++ update)) c1
              | None \<Rightarrow> c1)
        in (previousMemo, patchMemoInCollectionQueries qc update c2))"

definition update_error ::
    "('v, 'c) query_client \<Rightarrow> 'v js_object \<Rightarrow> 'v js_object option \<Rightarrow> 'c \<Rightarrow> 'c" where
  "update_error qc update context c =
     (case context of
        Some previousMemo \<Rightarrow>
          if truthy_text (name_of update) then
            patchMemoInCollectionQueries qc previousMemo
              (setQueryData qc (memoKeys_detail (name_of update)) (Memo_Data previousMemo) c)
          else invalidateQueries qc memoKeys_all c
      | None \<Rightarrow> invalidateQueries qc memoKeys_all c)"

definition update_success :: "('v, 'c) query_client \<Rightarrow> 'v other_keys \<Rightarrow> 'v js_object \<Rightarrow> 'c \<Rightarrow> 'c" where
  "update_success qc keys updatedMemo c =
     (let c1 = setQueryData qc (memoKeys_detail (name_of updatedMemo)) (Memo_Data updatedMemo) c;
          c2 = invalidateQueries qc memoKeys_lists (patchMemoInCollectionQueries qc updatedMemo c1);
          c3 = (if truthy_text (updatedMemo ''parent'')
                then invalidateQueries qc (memoKeys_comments (updatedMemo ''parent'')) c2 else c2)
      in invalidateQueries qc (attachmentKeys_lists keys) (invalidateQueries qc (userKeys_stats keys) c3))"

definition delete_success :: "('v, 'c) query_client \<Rightarrow> 'v other_keys \<Rightarrow> 'v js_value option \<Rightarrow> 'c \<Rightarrow> 'c" where
  "delete_success qc keys name c =
     invalidateQueries qc [Part ''trash'']
       (invalidateQueries qc (attachmentKeys_lists keys)
         (invalidateQueries qc (userKeys_stats keys)
           (invalidateQueries qc memoKeys_lists (removeQueries qc (memoKeys_detail name) c))))"

section \<open>What the cache shows\<close>

text \<open>The memos an entry of the cache shows, under any key.\<close>

fun shown :: "'v query_data \<Rightarrow> 'v js_object list" where
  "shown (Memo_Data m) = [m]"
| "shown (List_Data response) = lr_memos response"
| "shown (Pages_Data pages) = concat (map lr_memos pages)"
| "shown (Other_Data v) = []"

definition copies :: "('v, 'c) query_client \<Rightarrow> 'v js_value option \<Rightarrow> 'c \<Rightarrow> 'v js_object set" where
  "copies qc name c =
     {m. name_of m = name \<and> (\<exists>k d. prefix memoKeys_all k \<and> getQueryData qc k c = Some d \<and> m \<in> set (shown d))}"

named_theorems cache_laws

lemma documented_laws [cache_laws]:
  assumes "documented qc"
  shows "getQueryData qc k' (setQueryData qc k d c) = (if k' = k then Some d else getQueryData qc k' c)"
    and "getQueryData qc k (setQueriesData qc p f c) =
      (if prefix p k then map_option f (getQueryData qc k c) else getQueryData qc k c)"
    and "d \<in> set (getQueriesData qc p c) \<longleftrightarrow> (\<exists>k. prefix p k \<and> getQueryData qc k c = Some d)"
    and "getQueryData qc k (removeQueries qc p c) = (if prefix p k then None else getQueryData qc k c)"
    and "getQueryData qc k (invalidateQueries qc p c) = getQueryData qc k c"
    and "getQueryData qc k (cancelQueries qc p c) = getQueryData qc k c"
  using assms by (auto simp: documented_def)

lemma detail_under_all [simp]: "prefix memoKeys_all (memoKeys_detail name)"
  by (simp add: memoKeys_detail_def)

lemma prefix_detail [simp]: "prefix (memoKeys_detail name) k \<Longrightarrow> prefix memoKeys_all k"
  by (rule prefix_order.trans [OF detail_under_all])

lemma detail_inj [simp]: "memoKeys_detail a = memoKeys_detail b \<longleftrightarrow> a = b"
  by (simp add: memoKeys_detail_def)

subsection \<open>Every memo is held under the detail key of its name\<close>

definition keyed :: "('v, 'c) query_client \<Rightarrow> 'c \<Rightarrow> bool" where
  "keyed qc c \<longleftrightarrow>
     (\<forall>k m. getQueryData qc k c = Some (Memo_Data m) \<longrightarrow> k = memoKeys_detail (name_of m)) \<and>
     (\<forall>name d. getQueryData qc (memoKeys_detail name) c = Some d \<longrightarrow> (\<exists>m. d = Memo_Data m))"

lemma keyed_detail: "keyed qc c \<Longrightarrow> getQueryData qc (memoKeys_detail name) c = Some (Memo_Data m) \<Longrightarrow> name_of m = name"
  using detail_inj by (fastforce simp: keyed_def)

lemma cached_memo_Some:
  "cached_memo qc name c = Some m \<longleftrightarrow> getQueryData qc (memoKeys_detail name) c = Some (Memo_Data m)"
  by (auto simp: cached_memo_def split: option.splits query_data.splits)

lemma patch_Memo [simp]: "patchMemoListQueryData u d = Memo_Data m \<longleftrightarrow> d = Memo_Data m"
  by (cases d) auto

lemma keyed_patch: "documented qc \<Longrightarrow> keyed qc c \<Longrightarrow> keyed qc (patchMemoInCollectionQueries qc u c)"
  by (auto simp: keyed_def patchMemoInCollectionQueries_def cache_laws split: if_splits)

lemma keyed_set:
  "documented qc \<Longrightarrow> keyed qc c \<Longrightarrow> name_of m = name \<Longrightarrow>
   keyed qc (setQueryData qc (memoKeys_detail name) (Memo_Data m) c)"
  by (auto simp: keyed_def cache_laws split: if_splits)

lemma keyed_same:
  "documented qc \<Longrightarrow> keyed qc c \<Longrightarrow> keyed qc (invalidateQueries qc k c)"
  "documented qc \<Longrightarrow> keyed qc c \<Longrightarrow> keyed qc (cancelQueries qc k c)"
  "documented qc \<Longrightarrow> keyed qc c \<Longrightarrow> keyed qc (removeQueries qc k c)"
  by (auto simp: keyed_def cache_laws)

lemmas keyed_intros = keyed_patch keyed_set keyed_same

lemma first_Some_result: "first_Some f xs = Some y \<Longrightarrow> \<exists>x \<in> set xs. f x = Some y"
  by (induction xs) (auto split: option.splits)

lemma find_in_response:
  "findMemoInListResponse name r = Some m \<Longrightarrow> name_of m = name \<and> m \<in> set (lr_memos r)"
  by (auto simp: findMemoInListResponse_def find_Some_iff)

lemma find_name: "findMemoInQueryData name d = Some m \<Longrightarrow> name_of m = name \<and> m \<in> set (shown d)"
  by (cases d) (auto dest!: first_Some_result find_in_response)

lemma previous_name:
  assumes "documented qc" "keyed qc c" "update_mutate qc u c = (Some m, c')"
  shows "name_of m = name_of u"
proof -
  let ?c = "cancelQueries qc memoKeys_all c"
  have "cached_memo qc (name_of u) ?c = Some m \<or> findMemoInCollectionQueries qc (name_of u) ?c = Some m"
    using assms(3) by (auto simp: update_mutate_def Let_def split: if_splits option.splits)
  then show ?thesis
    using keyed_detail [OF keyed_same(2) [OF assms(1,2)]]
    by (auto simp: cached_memo_Some findMemoInCollectionQueries_def dest!: first_Some_result find_name)
qed

text \<open>The events of the cache; a failed update comes with the context its start returned.\<close>

datatype 'v cache_event =
    Viewed "'v js_value" "'v js_value option"
  | Created "'v js_object"
  | Update_started "'v js_object"
  | Update_failed "'v js_object" "'v js_object option"
  | Updated "'v js_object"
  | Deleted "'v js_value option"

fun cache_event_step :: "('v, 'c) query_client \<Rightarrow> 'v other_keys \<Rightarrow> 'c \<Rightarrow> 'v cache_event \<Rightarrow> 'c" where
  "cache_event_step qc keys c (Viewed viewCount name) = record_view_success qc viewCount name c"
| "cache_event_step qc keys c (Created memo) = create_success qc keys memo c"
| "cache_event_step qc keys c (Update_started update) = snd (update_mutate qc update c)"
| "cache_event_step qc keys c (Update_failed update context) = update_error qc update context c"
| "cache_event_step qc keys c (Updated memo) = update_success qc keys memo c"
| "cache_event_step qc keys c (Deleted name) = delete_success qc keys name c"

fun context_ok :: "'c \<Rightarrow> 'v cache_event \<Rightarrow> bool" where
  "context_ok c (Update_failed update (Some previous)) \<longleftrightarrow> name_of previous = name_of update"
| "context_ok c a \<longleftrightarrow> True"

lemma keyed_mutate:
  assumes "documented qc" "keyed qc c"
  shows "keyed qc (snd (update_mutate qc u c))"
proof (cases "update_mutate qc u c")
  case (Pair prev c')
  have k: "keyed qc (cancelQueries qc memoKeys_all c)" using assms by (intro keyed_intros)
  show ?thesis
  proof (cases prev)
    case None
    then show ?thesis using Pair assms k
      by (auto simp: update_mutate_def Let_def intro!: keyed_intros split: if_splits option.splits)
  next
    case (Some m)
    have "name_of (m ++ u) = name_of u"
      using previous_name [OF assms, of u m c'] Pair Some by (simp add: map_add_def split: option.splits)
    then show ?thesis using Pair Some assms k
      by (auto simp: update_mutate_def Let_def intro!: keyed_intros split: if_splits option.splits)
  qed
qed

lemma keyed_step:
  assumes "documented qc" "keyed qc c" "context_ok c a"
  shows "keyed qc (cache_event_step qc keys c a)"
proof (cases a)
  case (Viewed v name)
  have "name_of (m(''viewCount'' \<mapsto> v)) = name" if "cached_memo qc name c = Some m" for m
    using keyed_detail [OF assms(2)] that by (simp add: cached_memo_Some)
  then show ?thesis
    using assms Viewed
    by (auto simp: record_view_success_def Let_def intro!: keyed_intros split: option.split)
next
  case (Update_started u)
  then show ?thesis using keyed_mutate [OF assms(1,2)] by simp
next
  case (Update_failed u prev)
  then show ?thesis using assms
    by (cases prev) (auto simp: update_error_def intro!: keyed_intros)
qed (use assms in \<open>auto simp: create_success_def update_success_def delete_success_def Let_def intro!: keyed_intros\<close>)

interpretation memo_cache: reducer "cache_event_step qc keys" context_ok "\<lambda>c. documented qc \<longrightarrow> keyed qc c"
  by unfold_locales (simp add: keyed_step)

subsection \<open>Optimistic updates and their rollback\<close>

lemma legal_events: "legal_run (cache_event_step qc keys) context_ok c as \<Longrightarrow> documented qc \<Longrightarrow> keyed qc c \<Longrightarrow>
    keyed qc (foldl (cache_event_step qc keys) c as)"
  using memo_cache.run_inv [of qc c keys as] by simp

text \<open>The data of a key while an update runs.\<close>

lemma mutate_data:
  assumes "documented qc" "update_mutate qc u c = (prev, c')" "truthy_text (name_of u)"
  shows "getQueryData qc k c' =
    (if prefix memoKeys_all k
     then map_option (patchMemoListQueryData u)
       (case prev of
          Some m \<Rightarrow> if k = memoKeys_detail (name_of u) then Some (Memo_Data (m ++ u)) else getQueryData qc k c
        | None \<Rightarrow> getQueryData qc k c)
     else getQueryData qc k c)"
  using assms
  by (auto simp: update_mutate_def Let_def patchMemoInCollectionQueries_def cache_laws split: option.splits)













subsection \<open>What every event keeps\<close>

lemma shown_patch:
  "set (shown (patchMemoListQueryData u d)) \<subseteq>
     set (shown d) \<union> (\<lambda>m. m ++ u) ` {m \<in> set (shown d). name_of m = name_of u}"
  by (cases d) (auto simp: patchMemoListResponse_def)

lemma name_patched: "name_of m = name_of u \<Longrightarrow> name_of (m ++ u) = name_of u"
  by (simp add: map_add_def split: option.splits)

lemma shown_patch_other:
  "name \<noteq> name_of u \<Longrightarrow>
   {m \<in> set (shown (patchMemoListQueryData u d)). name_of m = name} = {m \<in> set (shown d). name_of m = name}"
  by (cases d) (auto simp: patchMemoListResponse_def name_patched)

lemma shown_patch_same:
  assumes "m \<in> set (shown (patchMemoListQueryData u d))" "name_of m = name_of u" "\<And>x. d \<noteq> Memo_Data x"
  shows "u \<subseteq>\<^sub>m m"
  using assms by (cases d) (auto simp: patchMemoListResponse_def map_le_def map_add_def split: if_splits option.splits)

definition copies_at :: "('v, 'c) query_client \<Rightarrow> 'v js_value option \<Rightarrow> 'v key_part list \<Rightarrow> 'c \<Rightarrow> 'v js_object set" where
  "copies_at qc name k c =
     (case getQueryData qc k c of None \<Rightarrow> {} | Some d \<Rightarrow> {m \<in> set (shown d). name_of m = name})"

lemma copies_eq: "copies qc name c = (\<Union>k \<in> {k. prefix memoKeys_all k}. copies_at qc name k c)"
  by (auto simp: copies_def copies_at_def split: option.splits)

lemma copies_at_detail:
  assumes "keyed qc c" "name \<noteq> name'"
  shows "copies_at qc name (memoKeys_detail name') c = {}"
  using assms keyed_detail [OF assms(1)]
  by (fastforce simp: copies_at_def keyed_def split: option.splits)

text \<open>Setting the detail of one memo and patching with it does not touch the copies of another.\<close>

lemma copies_at_patch:
  assumes "documented qc" "name \<noteq> name_of u"
  shows "copies_at qc name k (patchMemoInCollectionQueries qc u c) = copies_at qc name k c"
  using shown_patch_other [where u = u and name = name, OF assms(2)]
  by (auto simp: copies_at_def patchMemoInCollectionQueries_def cache_laws assms(1) split: option.splits)

lemma copies_at_set:
  assumes "documented qc" "keyed qc c" "name \<noteq> name'" "name_of m = name'"
  shows "copies_at qc name k (setQueryData qc (memoKeys_detail name') (Memo_Data m) c) = copies_at qc name k c"
proof (cases "k = memoKeys_detail name'")
  case True
  then show ?thesis
    using copies_at_detail [OF assms(2,3)] assms(3,4) by (simp add: copies_at_def cache_laws assms(1))
qed (simp add: copies_at_def cache_laws assms(1))

lemma copies_at_same:
  assumes "documented qc"
  shows "copies_at qc name k (invalidateQueries qc p c) = copies_at qc name k c"
    and "copies_at qc name k (cancelQueries qc p c) = copies_at qc name k c"
  by (simp_all add: copies_at_def cache_laws assms)

text \<open>The memo an event is about.\<close>

fun event_name :: "'v cache_event \<Rightarrow> 'v js_value option" where
  "event_name (Viewed viewCount name) = name"
| "event_name (Created memo) = name_of memo"
| "event_name (Update_started update) = name_of update"
| "event_name (Update_failed update context) = name_of update"
| "event_name (Updated memo) = name_of memo"
| "event_name (Deleted name) = name"

lemma copies_at_step:
  assumes "documented qc" "keyed qc c" "context_ok c a" "name \<noteq> event_name a" "\<And>n. a \<noteq> Deleted n"
  shows "copies_at qc name k (cache_event_step qc keys c a) = copies_at qc name k c"
proof -
  note same = copies_at_same [OF assms(1)] and set = copies_at_set [OF assms(1)] and patch = copies_at_patch [OF assms(1)]
  show ?thesis
  proof (cases a)
    case (Viewed v n)
    have "copies_at qc name k (setQueryData qc (memoKeys_detail n) (Memo_Data (m(''viewCount'' \<mapsto> v))) c) = copies_at qc name k c"
      if "cached_memo qc n c = Some m" for m
      using keyed_detail [OF assms(2)] that assms(4) Viewed by (intro set [OF assms(2)]) (auto simp: cached_memo_Some)
    then show ?thesis using Viewed assms(4) by (auto simp: record_view_success_def Let_def patch split: option.split)
  next
    case (Created m)
    then show ?thesis using assms(4)
      by (simp add: create_success_def same set [OF keyed_same(1) [OF assms(1,2)]])
  next
    case (Update_started u)
    let ?c = "cancelQueries qc memoKeys_all c"
    have k: "keyed qc ?c" by (rule keyed_same(2) [OF assms(1,2)])
    have "name_of (m ++ u) = name_of u" if "update_mutate qc u c = (Some m, c')" for m c'
      using name_patched [of m u] previous_name [OF assms(1,2) that] by simp
    then show ?thesis using Update_started assms(4)
      by (auto simp: update_mutate_def Let_def patch same set [OF k] split: option.splits if_splits)
  next
    case (Update_failed u prev)
    then show ?thesis using assms(3,4)
      by (cases prev) (auto simp: update_error_def patch same set [OF assms(2)])
  next
    case (Updated m)
    then show ?thesis using assms(4) by (simp add: update_success_def Let_def same patch set [OF assms(2)])
  qed (use assms(5) in simp)
qed

lemma update_reaches_copies:
  assumes "documented qc" "keyed qc c" "truthy_text (name_of u)" "m \<in> copies qc (name_of u) (snd (update_mutate qc u c))"
  shows "u \<subseteq>\<^sub>m m"
proof -
  obtain prev c' where u: "update_mutate qc u c = (prev, c')" by (cases "update_mutate qc u c")
  obtain k d where k: "prefix memoKeys_all k" "getQueryData qc k c' = Some d" "m \<in> set (shown d)" "name_of m = name_of u"
    using assms(4) u by (auto simp: copies_def)
  note D = mutate_data [OF assms(1) u assms(3), of k, unfolded k(2)]
  show ?thesis
  proof (cases "prev \<noteq> None \<and> k = memoKeys_detail (name_of u)")
    case True
    then show ?thesis using D k(1,3) by (auto simp: map_le_def map_add_def split: option.splits)
  next
    case False
    then obtain d0 where d0: "getQueryData qc k c = Some d0" "d = patchMemoListQueryData u d0"
      using D k(1) by (cases "getQueryData qc k c"; cases prev) (auto split: if_splits)
    have "d0 \<noteq> Memo_Data x" for x
    proof
      assume x: "d0 = Memo_Data x"
      then have "k = memoKeys_detail (name_of x)" using assms(2) d0(1) by (auto simp: keyed_def)
      moreover have "x = m" using x d0(2) k(3) by simp
      ultimately have "k = memoKeys_detail (name_of u)" using k(4) by simp
      then have "cached_memo qc (name_of u) (cancelQueries qc memoKeys_all c) = Some x"
        using d0(1) x by (simp add: cached_memo_Some cache_laws assms(1))
      then have "prev = Some x" using u assms(3) by (auto simp: update_mutate_def Let_def)
      with False \<open>k = memoKeys_detail (name_of u)\<close> show False by simp
    qed
    then show ?thesis using shown_patch_same k(3,4) d0(2) by blast
  qed
qed

text \<open>
  C24. The cached copies of memos stay coherent: after any sequence of events every memo is held under
  the detail key of its own name; an event that deletes nothing leaves the copies of every other memo as
  they were; and from the moment an update starts all copies of its memo show the changed fields.
\<close>

theorem cached_copies_coherent:
  assumes "documented qc" and "keyed qc c0"
    and "legal_run (cache_event_step qc keys) context_ok c0 events"
    and "c = foldl (cache_event_step qc keys) c0 events"
  shows "keyed qc c \<and>
    (\<forall>a name. context_ok c a \<and> name \<noteq> event_name a \<and> (\<forall>n. a \<noteq> Deleted n) \<longrightarrow>
       copies qc name (cache_event_step qc keys c a) = copies qc name c) \<and>
    (\<forall>u. truthy_text (name_of u) \<longrightarrow>
       (\<forall>m \<in> copies qc (name_of u) (cache_event_step qc keys c (Update_started u)). u \<subseteq>\<^sub>m m))"
proof -
  have k: "keyed qc c" unfolding assms(4) by (rule legal_events [OF assms(3,1,2)])
  then show ?thesis
    using copies_at_step [OF assms(1) k] update_reaches_copies [OF assms(1) k]
    by (auto simp: copies_eq [of qc _ "cache_event_step _ _ _ _"] copies_eq [of qc _ c])
qed

section \<open>A concrete client\<close>

text \<open>A client over an association list meets the documentation.\<close>

definition list_client :: "('v, ('v key_part list \<times> 'v query_data) list) query_client" where
  "list_client = \<lparr>getQueryData = (\<lambda>k c. map_of c k), setQueryData = AList.update,
     getQueriesData = (\<lambda>p c. map snd (filter (\<lambda>e. prefix p (fst e)) (AList.clearjunk c))),
     setQueriesData = (\<lambda>p f c. map (\<lambda>(k, d). (k, if prefix p k then f d else d)) c),
     removeQueries = (\<lambda>p c. filter (\<lambda>e. \<not> prefix p (fst e)) c),
     invalidateQueries = (\<lambda>p c. c), cancelQueries = (\<lambda>p c. c)\<rparr>"

lemma map_of_update_values:
  "map_of (map (\<lambda>(k, d). (k, if P k then f d else d)) c) k = (if P k then map_option f (map_of c k) else map_of c k)"
  by (induction c) auto

lemma map_of_without: "map_of (filter (\<lambda>e. \<not> P (fst e)) c) k = (if P k then None else map_of c k)"
  by (induction c) auto

lemma clearjunk_entries: "(k, d) \<in> set (AList.clearjunk c) \<longleftrightarrow> map_of c k = Some d"
  using map_of_eq_Some_iff [OF distinct_clearjunk, of c k d] by (simp add: map_of_clearjunk)

lemma list_client_documented: "documented list_client"
  unfolding documented_def list_client_def query_client.select_convs
  by (auto simp: update_conv' map_of_update_values map_of_without clearjunk_entries image_iff)

definition sample_memo :: "nat js_object" where
  "sample_memo = [''name'' \<mapsto> Text (js ''memos/a''), ''content'' \<mapsto> Opaque 1]"

definition sample_cache :: "(nat key_part list \<times> nat query_data) list" where
  "sample_cache =
     [(memoKeys_detail (Some (Text (js ''memos/a''))), Memo_Data sample_memo),
      (memoKeys_list 0, List_Data \<lparr>lr_memos = [sample_memo], lr_nextPageToken = []\<rparr>)]"

lemma sample_keyed: "keyed list_client sample_cache"
  by (auto simp: keyed_def list_client_def sample_cache_def sample_memo_def memoKeys_list_def memoKeys_lists_def
      memoKeys_detail_def memoKeys_all_def split: if_splits)



theorem cached_copies_coherent_witness:
  "keyed list_client (foldl (cache_event_step list_client \<lparr>userKeys_stats = [], attachmentKeys_lists = []\<rparr>) sample_cache
     [Update_started [''name'' \<mapsto> Text (js ''memos/a''), ''content'' \<mapsto> Opaque 2], Deleted None])"
  using cached_copies_coherent [OF list_client_documented sample_keyed _ refl]
  by (simp del: foldl_Cons)

text \<open>
  A rollback does not take back a field the previous memo lacks: the object spread of the previous memo has
  no such key, so the copies in the collections keep the value of the failed update.
\<close>

lemma rollback_keeps_new_field:
  "let u = [''name'' \<mapsto> Text (js ''memos/a''), ''location'' \<mapsto> Opaque 2];
       (context, c') = update_mutate list_client u sample_cache
   in getQueryData list_client (memoKeys_list 0) (update_error list_client u context c') =
     Some (List_Data \<lparr>lr_memos = [sample_memo(''location'' \<mapsto> Opaque 2)], lr_nextPageToken = []\<rparr>)"
  by (simp add: update_mutate_def update_error_def truthy_text_def list_client_def sample_cache_def sample_memo_def
      cached_memo_def patchMemoInCollectionQueries_def patchMemoListResponse_def memoKeys_list_def memoKeys_lists_def
      memoKeys_detail_def memoKeys_all_def Let_def js_str fun_eq_iff map_add_def)

end
