(* ===== verification/PrivacyCheck.thy ===== *)
theory PrivacyCheck
  imports Prelude
begin

text \<open>
  Private details in a memo about to go public (\<^verbatim>\<open>utils/privacy-check.ts\<close>): the rules with their patterns,
  the check digits of identity and card numbers, the selection of findings and their masks. Patterns are a
  datatype of regular expressions with the language's backtracking semantics: the ends a pattern can match
  from a position, in the order it tries them.
\<close>

section \<open>Regular expressions\<close>

datatype regex =
    Unit_in "nat \<Rightarrow> bool"
  | Seq regex regex
  | Alt regex regex
  | Repeat nat "nat option" regex
  | Not_after "nat \<Rightarrow> bool"
  | Not_before "nat \<Rightarrow> bool"
  | Capture regex
  | Nothing

text \<open>A match so far: the position and the captured range.\<close>

type_synonym match_state = "nat \<times> (nat \<times> nat) option"

text \<open>
  A greedy repetition between two bounds. Past the lower bound an iteration that matches nothing is not
  tried; every iteration of these patterns consumes a unit, so the length of the text bounds their number.
\<close>

primrec repeat_match ::
    "(match_state \<Rightarrow> match_state list) \<Rightarrow> nat \<Rightarrow> nat \<Rightarrow> nat option \<Rightarrow> match_state \<Rightarrow> match_state list" where
  "repeat_match once 0 least most st = (if least = 0 then [st] else [])"
| "repeat_match once (Suc fuel) least most st =
     (if most = Some 0 then []
      else concat (map (\<lambda>st'. if least = 0 \<and> fst st' = fst st then []
             else repeat_match once fuel (least - 1) (map_option (\<lambda>m. m - 1) most) st') (once st))) @
     (if least = 0 then [st] else [])"

primrec re_match :: "regex \<Rightarrow> jsstring \<Rightarrow> match_state \<Rightarrow> match_state list" where
  "re_match (Unit_in P) s st = (if fst st < length s \<and> P (s ! fst st) then [(fst st + 1, snd st)] else [])"
| "re_match (Seq a b) s st = concat (map (re_match b s) (re_match a s st))"
| "re_match (Alt a b) s st = re_match a s st @ re_match b s st"
| "re_match (Repeat least most a) s st = repeat_match (re_match a s) (length s + least + 1) least most st"
| "re_match (Not_after P) s st = (if 0 < fst st \<and> fst st \<le> length s \<and> P (s ! (fst st - 1)) then [] else [st])"
| "re_match (Not_before P) s st = (if fst st < length s \<and> P (s ! fst st) then [] else [st])"
| "re_match (Capture a) s st = map (\<lambda>st'. (fst st', Some (fst st, fst st'))) (re_match a s st)"
| "re_match Nothing s st = [st]"

definition match_at :: "regex \<Rightarrow> jsstring \<Rightarrow> nat \<Rightarrow> match_state option" where
  "match_at r s i = (case re_match r s (i, None) of [] \<Rightarrow> None | st # _ \<Rightarrow> Some st)"

text \<open>\<^verbatim>\<open>content.matchAll(pattern)\<close>: the matches with their start, end and capture, from left to right.\<close>

function match_all :: "regex \<Rightarrow> jsstring \<Rightarrow> nat \<Rightarrow> (nat \<times> nat \<times> (nat \<times> nat) option) list" where
  "match_all r s i =
     (if i > length s then []
      else case match_at r s i of
        None \<Rightarrow> match_all r s (i + 1)
      | Some (j, capture) \<Rightarrow> (i, j, capture) # match_all r s (if j \<le> i then i + 1 else j))"
  by pat_completeness auto
termination
  by (relation "measure (\<lambda>(r, s, i). length s + 1 - i)") auto

declare match_all.simps [simp del]

text \<open>Texts, sequences and alternatives.\<close>

definition unit_is :: "nat \<Rightarrow> regex" where
  "unit_is c = Unit_in (\<lambda>u. u = c)"

definition ascii_lower :: "nat \<Rightarrow> nat" where
  "ascii_lower c = (if is_upper c then c + 0x20 else c)"

definition re_seq :: "regex list \<Rightarrow> regex" where
  "re_seq rs = foldr Seq rs Nothing"

fun re_alt :: "regex list \<Rightarrow> regex" where
  "re_alt [] = Unit_in (\<lambda>_. False)"
| "re_alt [r] = r"
| "re_alt (r # rs) = Alt r (re_alt rs)"

definition lit :: "string \<Rightarrow> regex" where
  "lit t = re_seq (map unit_is (js t))"

definition lit_i :: "string \<Rightarrow> regex" where
  "lit_i t = re_seq (map (\<lambda>c. Unit_in (\<lambda>u. ascii_lower u = ascii_lower c)) (js t))"

abbreviation optional :: "regex \<Rightarrow> regex" where
  "optional \<equiv> Repeat 0 (Some 1)"

abbreviation exactly :: "nat \<Rightarrow> regex \<Rightarrow> regex" where
  "exactly n \<equiv> Repeat n (Some n)"

abbreviation at_least :: "nat \<Rightarrow> regex \<Rightarrow> regex" where
  "at_least n \<equiv> Repeat n None"

definition word_unit :: "nat \<Rightarrow> bool" where
  "word_unit c \<longleftrightarrow> is_alnum c \<or> c = 0x5f"

definition word_or_dash :: "nat \<Rightarrow> bool" where
  "word_or_dash c \<longleftrightarrow> word_unit c \<or> c = 0x2d"

abbreviation digit_re :: regex where
  "digit_re \<equiv> Unit_in is_digit"

definition space_or_dash :: regex where
  "space_or_dash = optional (Unit_in (\<lambda>c. c = 0x20 \<or> c = 0x2d))"

section \<open>Check digits\<close>

definition digitsOf :: "jsstring \<Rightarrow> jsstring" where
  "digitsOf text = filter is_digit text"

definition digit_value :: "nat \<Rightarrow> nat" where
  "digit_value c = c - 0x30"

definition id_weights :: "nat list" where
  "id_weights = [7, 9, 10, 5, 8, 4, 2, 1, 6, 3, 7, 9, 10, 5, 8, 4, 2]"

definition isIdCardNumber :: "jsstring \<Rightarrow> bool" where
  "isIdCardNumber s =
     (let sum = sum_list (map2 (\<lambda>weight c. weight * digit_value c) id_weights (take 17 s))
      in js ''10X98765432'' ! (sum mod 11) = (let c = s ! 17 in if is_lower c then c - 0x20 else c))"

definition luhn_digit :: "nat \<Rightarrow> nat \<Rightarrow> nat" where
  "luhn_digit index d = (if index mod 2 = 1 then (let e = d * 2 in if e > 9 then e - 9 else e) else d)"

definition passesLuhn :: "jsstring \<Rightarrow> bool" where
  "passesLuhn digits \<longleftrightarrow>
     (\<Sum>index<length digits. luhn_digit index (digit_value (digits ! (length digits - 1 - index)))) mod 10 = 0"

section \<open>Rules\<close>

datatype PrivacyKind = phone | id_card | bank_card | email | secret | private_key | private_ip

record PrivacyFinding =
  pf_kind :: PrivacyKind
  pf_text :: jsstring

text \<open>\<^verbatim>\<open>accept\<close> and \<^verbatim>\<open>pick\<close> see the text of the match and of its capture.\<close>

record Rule =
  rule_kind :: PrivacyKind
  rule_pattern :: regex
  rule_accept :: "jsstring \<Rightarrow> jsstring \<Rightarrow> bool"
  rule_pick :: "jsstring \<Rightarrow> jsstring \<Rightarrow> jsstring"

definition PLACEHOLDER :: "jsstring \<Rightarrow> bool" where
  "PLACEHOLDER s =
     (let t = map ascii_lower s in
      (case s of c # _ \<Rightarrow> c = 0x3c \<or> c = 0x7b \<or> c = 0x5b \<or> c = 0x24 \<or> c = 0x2a | [] \<Rightarrow> False) \<or>
      starts_with t (js ''xxx'') \<or> starts_with t (js ''...'') \<or> js_includes t (js ''your'') \<or>
      js_includes t (js ''example'') \<or> js_includes t [0x793a, 0x4f8b] \<or> js_includes t (js ''placeholder''))"

definition TOKEN_PATTERNS :: "regex list" where
  "TOKEN_PATTERNS =
     [re_seq [lit ''sk-'', optional (Alt (lit ''ant-'') (lit ''proj-'')), at_least 20 (Unit_in word_or_dash)],
      re_seq [lit ''gh'', Unit_in (\<lambda>c. c \<in> set (js ''pousr'')), lit ''_'', at_least 36 (Unit_in is_alnum)],
      re_seq [lit ''github_pat_'', at_least 22 (Unit_in word_unit)],
      re_seq [lit ''AKIA'', exactly 16 (Unit_in (\<lambda>c. is_digit c \<or> is_upper c))],
      re_seq [lit ''AIza'', exactly 35 (Unit_in word_or_dash)],
      re_seq [lit ''xox'', Unit_in (\<lambda>c. c \<in> set (js ''abprs'')), lit ''-'', at_least 10 (Unit_in word_or_dash)],
      re_seq [lit ''memos_pat_'', at_least 16 (Unit_in word_unit)],
      re_seq [lit ''eyJ'', at_least 8 (Unit_in word_or_dash), lit ''.eyJ'', at_least 8 (Unit_in word_or_dash),
        lit ''.'', at_least 8 (Unit_in word_or_dash)]]"

definition private_key_pattern :: regex where
  "private_key_pattern =
     re_seq [lit ''-----BEGIN '', at_least 0 (re_seq [at_least 1 (Unit_in is_upper), lit '' '']), lit ''PRIVATE KEY-----'']"

definition secret_pattern :: regex where
  "secret_pattern =
     re_seq [re_alt [lit_i ''password'', lit_i ''passwd'', lit_i ''pwd'', lit_i ''secret'', lit_i ''token'',
         re_seq [lit_i ''api'', optional (Unit_in (\<lambda>c. c = 0x5f \<or> c = 0x2d)), lit_i ''key''],
         re_seq [unit_is 0x5bc6, unit_is 0x7801], re_seq [unit_is 0x53e3, unit_is 0x4ee4]],
       at_least 0 (Unit_in is_js_space), Unit_in (\<lambda>c. c = 0x3a \<or> c = 0x3d \<or> c = 0xff1a),
       at_least 0 (Unit_in is_js_space), optional (Unit_in (\<lambda>c. c = 0x22 \<or> c = 0x27)),
       Capture (at_least 4 (Unit_in (\<lambda>c. \<not> (is_js_space c \<or> c = 0x22 \<or> c = 0x27 \<or> c = 0x2c \<or> c = 0x3b \<or> c \<ge> 0x80))))]"

definition id_card_pattern :: regex where
  "id_card_pattern =
     re_seq [Not_after is_alnum, Unit_in (\<lambda>c. is_digit c \<and> c \<noteq> 0x30), exactly 5 digit_re,
       re_alt [lit ''18'', lit ''19'', lit ''20''], exactly 2 digit_re,
       Alt (re_seq [lit ''0'', Unit_in (\<lambda>c. is_digit c \<and> c \<noteq> 0x30)])
         (re_seq [lit ''1'', Unit_in (\<lambda>c. 0x30 \<le> c \<and> c \<le> 0x32)]),
       re_alt [re_seq [lit ''0'', Unit_in (\<lambda>c. is_digit c \<and> c \<noteq> 0x30)],
         re_seq [Unit_in (\<lambda>c. c = 0x31 \<or> c = 0x32), digit_re],
         re_seq [lit ''3'', Unit_in (\<lambda>c. c = 0x30 \<or> c = 0x31)]],
       exactly 3 digit_re, Unit_in (\<lambda>c. is_digit c \<or> c = 0x58 \<or> c = 0x78), Not_before is_alnum]"

definition phone_pattern :: regex where
  "phone_pattern =
     re_seq [Not_after (\<lambda>c. is_digit c \<or> c = 0x2b),
       optional (re_seq [optional (lit ''+''), lit ''86'', space_or_dash]),
       lit ''1'', Unit_in (\<lambda>c. 0x33 \<le> c \<and> c \<le> 0x39), digit_re,
       exactly 2 (re_seq [space_or_dash, exactly 4 digit_re]), Not_before is_digit]"

definition bank_card_pattern :: regex where
  "bank_card_pattern =
     re_seq [Not_after is_digit, Unit_in (\<lambda>c. 0x33 \<le> c \<and> c \<le> 0x36), exactly 3 digit_re,
       exactly 2 (re_seq [space_or_dash, exactly 4 digit_re]), space_or_dash, Repeat 4 (Some 7) digit_re,
       Not_before is_digit]"

definition email_unit :: "nat \<Rightarrow> bool" where
  "email_unit c \<longleftrightarrow> word_unit c \<or> c \<in> set (js ''.%+-'')"

definition alnum_or_dash :: "nat \<Rightarrow> bool" where
  "alnum_or_dash c \<longleftrightarrow> is_alnum c \<or> c = 0x2d"

definition email_pattern :: regex where
  "email_pattern =
     re_seq [Not_after email_unit, at_least 1 (Unit_in email_unit), lit ''@'', at_least 1 (Unit_in alnum_or_dash),
       at_least 0 (re_seq [lit ''.'', at_least 1 (Unit_in alnum_or_dash)]), lit ''.'', at_least 2 (Unit_in is_alpha)]"

definition example_address :: "jsstring \<Rightarrow> bool" where
  "example_address s =
     (let t = map ascii_lower s
      in ends_with t (js ''@example.com'') \<or> ends_with t (js ''@example.org'') \<or> ends_with t (js ''@example.net'') \<or>
         ends_with t (js ''@localhost''))"

definition octet :: regex where
  "octet = Repeat 1 (Some 3) digit_re"

definition private_ip_pattern :: regex where
  "private_ip_pattern =
     re_seq [Not_after (\<lambda>c. is_digit c \<or> c = 0x2e),
       re_alt [re_seq [lit ''10.'', octet],
         re_seq [lit ''172.'', re_alt [re_seq [lit ''1'', Unit_in (\<lambda>c. 0x36 \<le> c \<and> c \<le> 0x39)],
           re_seq [lit ''2'', digit_re], re_seq [lit ''3'', Unit_in (\<lambda>c. c = 0x30 \<or> c = 0x31)]]],
         lit ''192.168''],
       lit ''.'', octet, lit ''.'', octet, Not_before (\<lambda>c. is_digit c \<or> c = 0x2e)]"

definition plain_rule :: "PrivacyKind \<Rightarrow> regex \<Rightarrow> Rule" where
  "plain_rule kind pattern =
     \<lparr>rule_kind = kind, rule_pattern = pattern, rule_accept = (\<lambda>_ _. True), rule_pick = (\<lambda>found _. found)\<rparr>"

definition RULES :: "Rule list" where
  "RULES =
     [plain_rule private_key private_key_pattern,
      plain_rule secret (re_seq [Not_after word_or_dash, re_alt TOKEN_PATTERNS]),
      \<lparr>rule_kind = secret, rule_pattern = secret_pattern, rule_accept = (\<lambda>_ group. \<not> PLACEHOLDER group),
       rule_pick = (\<lambda>_ group. group)\<rparr>,
      (plain_rule id_card id_card_pattern)\<lparr>rule_accept := \<lambda>found _. isIdCardNumber found\<rparr>,
      plain_rule phone phone_pattern,
      (plain_rule bank_card bank_card_pattern)\<lparr>rule_accept := \<lambda>found _.
         let digits = digitsOf found in length digits \<ge> 16 \<and> length digits \<le> 19 \<and> passesLuhn digits\<rparr>,
      (plain_rule email email_pattern)\<lparr>rule_accept := \<lambda>found _. \<not> example_address found\<rparr>,
      plain_rule private_ip private_ip_pattern]"

section \<open>Findings\<close>

type_synonym search = "PrivacyFinding list \<times> (nat \<times> nat) list"

definition consider_match ::
    "jsstring \<Rightarrow> Rule \<Rightarrow> nat \<times> nat \<times> (nat \<times> nat) option \<Rightarrow> search \<Rightarrow> search" where
  "consider_match content rule found search =
     (let (findings, taken) = search;
          (start, end_at, capture) = found;
          whole = slice content start end_at;
          group = (case capture of None \<Rightarrow> [] | Some (i, j) \<Rightarrow> slice content i j) in
      if \<exists>(from, to) \<in> set taken. start < to \<and> end_at > from then search
      else if \<not> rule_accept rule whole group then search
      else
        let finding = \<lparr>pf_kind = rule_kind rule, pf_text = rule_pick rule whole group\<rparr>
        in (if finding \<in> set findings then findings else findings @ [finding], taken @ [(start, end_at)]))"

definition apply_rule :: "jsstring \<Rightarrow> Rule \<Rightarrow> search \<Rightarrow> search" where
  "apply_rule content rule search = fold (consider_match content rule) (match_all (rule_pattern rule) content 0) search"

definition search_private :: "Rule list \<Rightarrow> jsstring \<Rightarrow> search" where
  "search_private rules content = fold (apply_rule content) rules ([], [])"

definition findPrivateInfo :: "jsstring \<Rightarrow> PrivacyFinding list" where
  "findPrivateInfo content = fst (search_private RULES content)"

definition last_units :: "nat \<Rightarrow> jsstring \<Rightarrow> jsstring" where
  "last_units n s = drop (length s - n) s"

definition maskFinding :: "PrivacyFinding \<Rightarrow> jsstring" where
  "maskFinding finding =
     (let kind = pf_kind finding; t = pf_text finding in
      if kind = private_ip \<or> kind = private_key then t
      else if kind = email then
        (let parts = split_on 0x40 t;
             domain = (case parts of _ # d # _ \<Rightarrow> d | _ \<Rightarrow> js ''undefined'')
         in take 1 (hd parts) @ js ''***@'' @ domain)
      else if kind = secret then take (min 6 (length t div 2)) t @ [0x2026]
      else
        let digits = (if kind = phone then last_units 11 (digitsOf t)
                      else filter (\<lambda>c. \<not> (is_js_space c \<or> c = 0x2d)) t)
        in take 3 digits @ replicate (max 4 (length digits - 7)) 0x2a @ last_units 4 digits)"

section \<open>One wrong digit\<close>

lemma luhn_digit_le: "d \<le> 9 \<Longrightarrow> luhn_digit i d \<le> 9"
  by (auto simp: luhn_digit_def Let_def)

lemma luhn_digit_inj: "d \<le> 9 \<Longrightarrow> e \<le> 9 \<Longrightarrow> luhn_digit i d = luhn_digit i e \<Longrightarrow> d = e"
  by (auto simp: luhn_digit_def Let_def split: if_splits) presburger+

lemma digit_value_le: "is_digit c \<Longrightarrow> digit_value c \<le> 9"
  by (auto simp: is_digit_def digit_value_def)

lemma digit_value_inj: "is_digit c \<Longrightarrow> is_digit d \<Longrightarrow> digit_value c = digit_value d \<Longrightarrow> c = d"
  by (auto simp: is_digit_def digit_value_def)

lemma mod_10_differs:
  assumes "(x + r) mod 10 = 0" "x \<noteq> y" "x \<le> 9" "y \<le> (9::nat)"
  shows "(y + r) mod 10 \<noteq> 0"
proof
  assume "(y + r) mod 10 = 0"
  with assms(1) have "10 dvd x + r" "10 dvd y + r" by (simp_all add: mod_eq_0_iff_dvd)
  then have "10 dvd (x + r) - (y + r)" "10 dvd (y + r) - (x + r)"
    using dvd_diff_nat [of 10 "x + r" "y + r"] dvd_diff_nat [of 10 "y + r" "x + r"] by blast+
  then show False using assms(2-4) by (auto dest!: dvd_imp_le)
qed

lemma luhn_one_digit:
  assumes "\<forall>c \<in> set s. is_digit c" "passesLuhn s" "i < length s" "is_digit c" "c \<noteq> s ! i"
  shows "\<not> passesLuhn (s[i := c])"
proof -
  define n where "n = length s"
  define k where "k = n - 1 - i"
  have k: "k < n" "n - 1 - k = i" using assms(3) by (simp_all add: n_def k_def)
  define rest where "rest = (\<Sum>j\<in>{..<n} - {k}. luhn_digit j (digit_value (s ! (n - 1 - j))))"
  have other: "n - 1 - j \<noteq> i" if "j \<in> {..<n} - {k}" for j using that assms(3) by (auto simp: k_def n_def)
  have total: "(\<Sum>j<n. luhn_digit j (digit_value (t ! (n - 1 - j)))) = luhn_digit k (digit_value (t ! i)) + rest"
    if "t = s \<or> t = s[i := c]" for t
  proof -
    have "t ! (n - 1 - j) = s ! (n - 1 - j)" if "j \<in> {..<n} - {k}" for j
      using \<open>t = s \<or> t = s[i := c]\<close> other [OF that] by (metis nth_list_update_neq)
    then have "(\<Sum>j\<in>{..<n} - {k}. luhn_digit j (digit_value (t ! (n - 1 - j)))) = rest"
      unfolding rest_def by (intro sum.cong) simp_all
    then show ?thesis using k sum.remove [of "{..<n}" k "\<lambda>j. luhn_digit j (digit_value (t ! (n - 1 - j)))"] by simp
  qed
  have d: "is_digit (s ! i)" using assms(1,3) by simp
  let ?x = "luhn_digit k (digit_value (s ! i))" and ?y = "luhn_digit k (digit_value c)"
  have ne: "?x \<noteq> ?y" using luhn_digit_inj digit_value_inj digit_value_le d assms(4,5) by metis
  have le: "?x \<le> 9" "?y \<le> 9" using luhn_digit_le digit_value_le d assms(4) by auto
  have "(?x + rest) mod 10 = 0" using assms(2) total [of s] by (simp add: passesLuhn_def n_def)
  then have "(?y + rest) mod 10 \<noteq> 0" using ne le by (rule mod_10_differs)
  then show ?thesis using total [of "s[i := c]"] assms(3) by (simp add: passesLuhn_def n_def)
qed

lemma id_weights_coprime: "w \<in> set id_weights \<Longrightarrow> coprime (11 :: nat) w"
  by (auto simp: id_weights_def coprime_iff_gcd_eq_1 gcd_non_0_nat)

lemma weight_product: "w \<in> set id_weights \<Longrightarrow> 1 \<le> e \<Longrightarrow> e \<le> 9 \<Longrightarrow> (w * e) mod 11 \<noteq> 0"
  using coprime_dvd_mult_right_iff [OF id_weights_coprime, of w e] by (auto simp: mod_eq_0_iff_dvd dest: dvd_imp_le)

lemma weighted_inj:
  assumes "w \<in> set id_weights" "d \<le> 9" "e \<le> 9" "(w * d + r) mod 11 = (w * e + r) mod (11::nat)"
  shows "d = e"
proof -
  have *: False if "a < b" "b \<le> 9" "(w * b + r) mod 11 = (w * a + r) mod 11" for a b
  proof -
    have "11 dvd (w * b + r) - (w * a + r)"
      using that by (subst mod_eq_dvd_iff_nat [symmetric]) auto
    moreover have "(w * b + r) - (w * a + r) = w * (b - a)" by (simp add: diff_mult_distrib2)
    ultimately have "(w * (b - a)) mod 11 = 0" by auto
    then show False using weight_product [of w "b - a"] assms(1) that by simp
  qed
  show ?thesis using *[of d e] *[of e d] assms(2-4) by (metis linorder_neqE_nat)
qed

lemma id_sum_update:
  assumes "i < 17" "length s = 18"
  shows "\<exists>r. \<forall>c. sum_list (map2 (\<lambda>weight c. weight * digit_value c) id_weights (take 17 (s[i := c]))) =
    id_weights ! i * digit_value c + r"
proof -
  have l: "length (take 17 s) = 17" "length id_weights = 17" using assms by (simp_all add: id_weights_def)
  have "\<exists>r. \<forall>c. sum_list (map2 (\<lambda>weight c. weight * digit_value c) ws (cs[i := c])) = ws ! i * digit_value c + r"
    if "i < length ws" "length cs = length ws" for ws cs
    using that
  proof (induction ws arbitrary: i cs)
    case (Cons w ws)
    obtain d ds where cs: "cs = d # ds" using Cons.prems by (cases cs) auto
    show ?case
    proof (cases i)
      case 0
      then show ?thesis by (auto simp: cs)
    next
      case (Suc j)
      obtain r where "\<forall>c. sum_list (map2 (\<lambda>weight c. weight * digit_value c) ws (ds[j := c])) = ws ! j * digit_value c + r"
        using Cons.IH [of j ds] Cons.prems Suc cs by auto
      then show ?thesis using Suc by (intro exI [of _ "w * digit_value d + r"]) (simp add: cs)
    qed
  qed simp
  from this [of id_weights "take 17 s"] show ?thesis using assms l by (simp add: take_update_swap)
qed

lemma check_units_inj: "a < 11 \<Longrightarrow> b < 11 \<Longrightarrow> js ''10X98765432'' ! a = js ''10X98765432'' ! b \<Longrightarrow> a = b"
proof -
  have "distinct (js ''10X98765432'')" "length (js ''10X98765432'') = 11" by (simp_all add: js_str)
  moreover assume "a < 11" "b < 11" "js ''10X98765432'' ! a = js ''10X98765432'' ! b"
  ultimately show ?thesis using nth_eq_iff_index_eq by metis
qed

lemma id_card_one_digit:
  assumes "length s = 18" "isIdCardNumber s" "i < 17" "is_digit (s ! i)" "is_digit c" "c \<noteq> s ! i"
  shows "\<not> isIdCardNumber (s[i := c])"
proof
  assume new: "isIdCardNumber (s[i := c])"
  obtain r where r: "\<And>c. sum_list (map2 (\<lambda>weight c. weight * digit_value c) id_weights (take 17 (s[i := c]))) =
    id_weights ! i * digit_value c + r"
    using id_sum_update [OF assms(3,1)] by blast
  have "s[i := c] ! 17 = s ! 17" using assms(3) by simp
  then have "js ''10X98765432'' ! ((id_weights ! i * digit_value (s ! i) + r) mod 11) =
      js ''10X98765432'' ! ((id_weights ! i * digit_value c + r) mod 11)"
    using new assms(2) r [of c] r [of "s ! i"] by (simp add: isIdCardNumber_def Let_def)
  then have "(id_weights ! i * digit_value (s ! i) + r) mod 11 = (id_weights ! i * digit_value c + r) mod 11"
    by (rule check_units_inj [OF mod_less_divisor mod_less_divisor, rotated 2]) (rule zero_less_numeral)+
  moreover have "length id_weights = 17" by (simp add: id_weights_def)
  then have "id_weights ! i \<in> set id_weights" using assms(3) by (intro nth_mem) simp
  ultimately have "digit_value (s ! i) = digit_value c"
    using weighted_inj digit_value_le [OF assms(4)] digit_value_le [OF assms(5)] by blast
  with assms(4-6) digit_value_inj show False by metis
qed

text \<open>
  The check digits catch a mistyped digit: an identity number or a card number with one digit changed
  to another digit no longer passes its check.
\<close>

lemma check_digits_catch_one_digit:
  "(\<forall>s i c. length s = 18 \<and> isIdCardNumber s \<and> i < 17 \<and> is_digit (s ! i) \<and> is_digit c \<and> c \<noteq> s ! i \<longrightarrow>
      \<not> isIdCardNumber (s[i := c])) \<and>
   (\<forall>s i c. (\<forall>d \<in> set s. is_digit d) \<and> passesLuhn s \<and> i < length s \<and> is_digit c \<and> c \<noteq> s ! i \<longrightarrow>
      \<not> passesLuhn (s[i := c]))"
  using id_card_one_digit luhn_one_digit by blast

lemma check_digits_catch_one_digit_witness: "\<not> passesLuhn ((js ''059'')[1 := 0x32])"
proof -
  have "\<forall>d \<in> set (js ''059''). is_digit d" by (simp add: js_str is_digit_def)
  moreover have "passesLuhn (js ''059'')"
    by (simp add: passesLuhn_def luhn_digit_def digit_value_def js_str lessThan_Suc eval_nat_numeral)
  moreover have "is_digit 0x32" "(0x32::nat) \<noteq> js ''059'' ! 1" "1 < length (js ''059'')"
    by (simp_all add: is_digit_def js_str)
  ultimately show ?thesis using conjunct2 [OF check_digits_catch_one_digit] by blast
qed

section \<open>The selection of findings\<close>

definition overlaps :: "nat \<times> nat \<Rightarrow> nat \<times> nat \<Rightarrow> bool" where
  "overlaps r s \<longleftrightarrow> fst r < snd s \<and> snd r > fst s"

text \<open>
  Everything the rules could report: the accepted matches of every rule with the range and the finding of
  each, in the order of the rules and from left to right for one rule.
\<close>

definition captured :: "jsstring \<Rightarrow> (nat \<times> nat) option \<Rightarrow> jsstring" where
  "captured content capture = (case capture of None \<Rightarrow> [] | Some (i, j) \<Rightarrow> slice content i j)"

definition candidates :: "Rule list \<Rightarrow> jsstring \<Rightarrow> ((nat \<times> nat) \<times> PrivacyFinding) list" where
  "candidates rules content =
     [((i, j), \<lparr>pf_kind = rule_kind rule, pf_text = rule_pick rule (slice content i j) (captured content c)\<rparr>).
       rule \<leftarrow> rules, (i, j, c) \<leftarrow> match_all (rule_pattern rule) content 0,
       rule_accept rule (slice content i j) (captured content c)]"

lemma candidates_nonempty:
  assumes "rule \<in> set rules" "(i, j, c) \<in> set (match_all (rule_pattern rule) content 0)" "\<And>u v. rule_accept rule u v"
  shows "candidates rules content \<noteq> []"
proof
  assume "candidates rules content = []"
  then have "set (candidates rules content) = {}" by simp
  with assms show False by (force simp: candidates_def)
qed

text \<open>The elements of a list at their first occurrence.\<close>

definition first_occurrences :: "'a list \<Rightarrow> 'a list" where
  "first_occurrences xs = rev (remdups (rev xs))"

lemma first_occurrences_snoc:
  "first_occurrences (xs @ [x]) = (if x \<in> set xs then first_occurrences xs else first_occurrences xs @ [x])"
  by (simp add: first_occurrences_def)

lemma set_first_occurrences [simp]: "set (first_occurrences xs) = set xs"
  by (simp add: first_occurrences_def)

lemma distinct_first_occurrences: "distinct (first_occurrences xs)"
  by (simp add: first_occurrences_def)

text \<open>The search is one pass over the candidates.\<close>

definition consider_candidate :: "(nat \<times> nat) \<times> PrivacyFinding \<Rightarrow> search \<Rightarrow> search" where
  "consider_candidate c search =
     (if \<exists>r \<in> set (snd search). overlaps (fst c) r then search
      else (if snd c \<in> set (fst search) then fst search else fst search @ [snd c], snd search @ [fst c]))"

lemma consider_match_candidate:
  "consider_match content rule (i, j, c) search =
     fold consider_candidate
       (if rule_accept rule (slice content i j) (captured content c)
        then [((i, j), \<lparr>pf_kind = rule_kind rule, pf_text = rule_pick rule (slice content i j) (captured content c)\<rparr>)]
        else []) search"
  by (cases search) (auto simp: consider_match_def consider_candidate_def captured_def overlaps_def Let_def)

lemma fold_concat_map: "fold f (concat (map g xs)) = fold (\<lambda>x. fold f (g x)) xs"
  by (induction xs) (simp_all add: comp_def)

lemma search_private_candidates: "search_private rules content = fold consider_candidate (candidates rules content) ([], [])"
proof -
  have "consider_match content rule = (\<lambda>(i, j, c). fold consider_candidate
      (if rule_accept rule (slice content i j) (captured content c)
       then [((i, j), \<lparr>pf_kind = rule_kind rule, pf_text = rule_pick rule (slice content i j) (captured content c)\<rparr>)]
       else []))" for rule
    by (intro ext) (simp add: consider_match_candidate split: prod.split)
  then show ?thesis
    unfolding search_private_def apply_rule_def candidates_def
    by (simp add: fold_concat_map case_prod_unfold apply_rule_def)
qed

text \<open>
  The candidates reported: no two of them overlap, and every other candidate overlaps one reported before
  it. A set of positions with these two properties is unique.
\<close>

definition reported :: "(nat \<times> nat) list \<Rightarrow> nat set \<Rightarrow> bool" where
  "reported rs I \<longleftrightarrow> I \<subseteq> {..<length rs} \<and>
     (\<forall>k < length rs. k \<in> I \<longleftrightarrow> (\<forall>j \<in> I. j < k \<longrightarrow> \<not> overlaps (rs ! k) (rs ! j)))"

lemma reported_iff:
  "reported rs I \<Longrightarrow> k < length rs \<Longrightarrow> k \<in> I \<longleftrightarrow> (\<forall>j \<in> I. j < k \<longrightarrow> \<not> overlaps (rs ! k) (rs ! j))"
  by (simp add: reported_def)

lemma reported_unique:
  assumes I: "reported rs I" and J: "reported rs J"
  shows "I = J"
proof -
  have same: "k < length rs \<Longrightarrow> k \<in> I \<longleftrightarrow> k \<in> J" for k
  proof (induction k rule: less_induct)
    case (less k)
    have "j < k \<Longrightarrow> j \<in> I \<longleftrightarrow> j \<in> J" for j using less.IH [of j] less.prems by simp
    then have "(\<forall>j \<in> I. j < k \<longrightarrow> \<not> overlaps (rs ! k) (rs ! j)) \<longleftrightarrow> (\<forall>j \<in> J. j < k \<longrightarrow> \<not> overlaps (rs ! k) (rs ! j))"
      by auto
    then show ?case by (simp only: reported_iff [OF I less.prems] reported_iff [OF J less.prems])
  qed
  have "I \<subseteq> {..<length rs}" "J \<subseteq> {..<length rs}" using I J by (simp_all add: reported_def)
  with same show ?thesis by (auto simp: subset_iff)
qed

lemma nths_snoc: "nths (xs @ [x]) I = nths xs I @ (if length xs \<in> I then [x] else [])"
  by (simp add: nths_append nths_singleton)

lemma nths_insert_length: "nths xs (Set.insert (length xs) I) = nths xs I"
proof -
  have "snd p < length xs" if "p \<in> set (zip xs [0..<length xs])" for p
    using that by (auto simp: set_zip)
  then have "filter (\<lambda>p. snd p \<in> Set.insert (length xs) I) (zip xs [0..<length xs]) =
      filter (\<lambda>p. snd p \<in> I) (zip xs [0..<length xs])"
    by (intro filter_cong refl) fastforce
  then show ?thesis by (simp add: nths_def)
qed

lemma set_nths_below: "I \<subseteq> {..<length xs} \<Longrightarrow> set (nths xs I) = (!) xs ` I"
  by (auto simp: set_nths)

lemma reported_snoc:
  assumes "reported rs I"
  shows "reported (rs @ [r]) (if \<exists>j \<in> I. overlaps r (rs ! j) then I else insert (length rs) I)"
proof -
  let ?I = "if \<exists>j \<in> I. overlaps r (rs ! j) then I else Set.insert (length rs) I"
  have I: "I \<subseteq> {..<length rs}" using assms by (simp add: reported_def)
  have "k \<in> ?I \<longleftrightarrow> (\<forall>j \<in> ?I. j < k \<longrightarrow> \<not> overlaps ((rs @ [r]) ! k) ((rs @ [r]) ! j))" if "k < length (rs @ [r])" for k
  proof (cases "k = length rs")
    case True
    then show ?thesis using I by (auto simp: nth_append subset_iff)
  next
    case False
    with that have k: "k < length rs" by simp
    then have "k \<in> I \<longleftrightarrow> (\<forall>j \<in> I. j < k \<longrightarrow> \<not> overlaps (rs ! k) (rs ! j))" using assms unfolding reported_def by blast
    with k False I show ?thesis by (auto simp: nth_append)
  qed
  then show ?thesis using I unfolding reported_def by auto
qed

lemma fold_candidates:
  "\<exists>I. reported (map fst cs) I \<and>
     fold consider_candidate cs ([], []) = (first_occurrences (map snd (nths cs I)), map fst (nths cs I))"
proof (induction cs rule: rev_induct)
  case Nil
  then show ?case by (simp add: reported_def first_occurrences_def)
next
  case (snoc c cs)
  then obtain I where I: "reported (map fst cs) I" and
    f: "fold consider_candidate cs ([], []) = (first_occurrences (map snd (nths cs I)), map fst (nths cs I))" by blast
  let ?I = "if \<exists>j \<in> I. overlaps (fst c) (map fst cs ! j) then I else Set.insert (length cs) I"
  have sub: "I \<subseteq> {..<length cs}" using I by (simp add: reported_def)
  then have o: "(\<exists>r \<in> set (map fst (nths cs I)). overlaps (fst c) r) \<longleftrightarrow> (\<exists>j \<in> I. overlaps (fst c) (map fst cs ! j))"
    by (auto simp: set_nths_below subset_iff)
  note n = nths_insert_length [of cs I]
  have "length cs \<notin> I" using sub by auto
  then have "fold consider_candidate (cs @ [c]) ([], []) =
      (first_occurrences (map snd (nths (cs @ [c]) ?I)), map fst (nths (cs @ [c]) ?I))"
    using o by (auto simp: f consider_candidate_def nths_snoc n first_occurrences_snoc)
  moreover have "reported (map fst (cs @ [c])) ?I" using reported_snoc [OF I, of "fst c"] by (simp only: length_map map_append list.map)
  ultimately show ?case by blast
qed

text \<open>
  C37. The findings in a memo are exactly the accepted matches of the rules, taken in the order of the rules
  and then from left to right, of which a match is left out only when its range overlaps that of a match
  reported before it; a finding that occurs more than once is listed where it occurs first. So nothing
  private the rules match is missed, no two reported ranges overlap, and a number is reported under the
  first of the rules that accept it.
\<close>

theorem private_findings:
  "\<exists>I \<subseteq> {..<length (candidates RULES content)}.
     findPrivateInfo content = first_occurrences (map snd (nths (candidates RULES content) I)) \<and>
     (\<forall>j \<in> I. \<forall>k \<in> I. j < k \<longrightarrow>
        \<not> overlaps (fst (candidates RULES content ! k)) (fst (candidates RULES content ! j))) \<and>
     (\<forall>k < length (candidates RULES content). k \<notin> I \<longrightarrow>
        (\<exists>j \<in> I. j < k \<and> overlaps (fst (candidates RULES content ! k)) (fst (candidates RULES content ! j))))"
proof -
  define cs where "cs = candidates RULES content"
  obtain I where I: "reported (map fst cs) I" and
    f: "fold consider_candidate cs ([], []) = (first_occurrences (map snd (nths cs I)), map fst (nths cs I))"
    using fold_candidates by blast
  have "findPrivateInfo content = first_occurrences (map snd (nths cs I))"
    by (simp add: findPrivateInfo_def search_private_candidates f cs_def [symmetric])
  moreover have sub: "I \<subseteq> {..<length cs}" using I by (simp add: reported_def)
  moreover have "k \<in> I \<longleftrightarrow> (\<forall>j \<in> I. j < k \<longrightarrow> \<not> overlaps (fst (cs ! k)) (fst (cs ! j)))" if "k < length cs" for k
  proof -
    have "map fst cs ! j = fst (cs ! j)" if "j \<in> I" for j using that sub by (simp add: subset_iff)
    with that I show ?thesis unfolding reported_def by simp
  qed
  ultimately show ?thesis unfolding cs_def [symmetric] by (intro exI [of _ I]) (auto simp: subset_iff)
qed

lemma sample_address_found: "match_at private_ip_pattern (js ''10.0.0.1'') 0 = Some (8, None)"
  by (simp add: match_at_def private_ip_pattern_def octet_def re_seq_def lit_def unit_is_def is_digit_def js_str
      eval_nat_numeral)

theorem private_findings_witness:
  "findPrivateInfo (js ''10.0.0.1'') \<noteq> []"
proof -
  let ?s = "js ''10.0.0.1''" and ?rule = "plain_rule private_ip private_ip_pattern"
  have "?rule \<in> set RULES" by (simp add: RULES_def)
  moreover have "(0, 8, None) \<in> set (match_all (rule_pattern ?rule) ?s 0)"
    by (subst match_all.simps) (simp add: sample_address_found plain_rule_def)
  moreover have "rule_accept ?rule u v" for u v by (simp add: plain_rule_def)
  ultimately have "candidates RULES ?s \<noteq> []" by (rule candidates_nonempty)
  then have c: "0 < length (candidates RULES ?s)" by simp
  obtain I where I: "I \<subseteq> {..<length (candidates RULES ?s)}"
      "findPrivateInfo ?s = first_occurrences (map snd (nths (candidates RULES ?s) I))"
      "\<forall>k < length (candidates RULES ?s). k \<notin> I \<longrightarrow>
        (\<exists>j \<in> I. j < k \<and> overlaps (fst (candidates RULES ?s ! k)) (fst (candidates RULES ?s ! j)))"
    using private_findings [of ?s] by blast
  have "0 \<in> I" using I(3) [rule_format, OF c] by auto
  then have "nths (candidates RULES ?s) I \<noteq> []" using set_nths_below [OF I(1)] by auto
  then have "set (findPrivateInfo ?s) \<noteq> {}" unfolding I(2) by simp
  then show ?thesis by auto
qed

text \<open>The mask of a number shows its first three and last four units only.\<close>

lemma mask_shows_ends:
  assumes "kind = id_card \<or> kind = bank_card" "length s = length t" "\<forall>c \<in> set s \<union> set t. \<not> (is_js_space c \<or> c = 0x2d)"
    and "take 3 s = take 3 t" "last_units 4 s = last_units 4 t"
  shows "maskFinding \<lparr>pf_kind = kind, pf_text = s\<rparr> = maskFinding \<lparr>pf_kind = kind, pf_text = t\<rparr>"
proof -
  have "filter (\<lambda>c. \<not> (is_js_space c \<or> c = 0x2d)) s = s" "filter (\<lambda>c. \<not> (is_js_space c \<or> c = 0x2d)) t = t"
    using assms(3) by (intro filter_True; blast)+
  then show ?thesis using assms by (auto simp: maskFinding_def Let_def)
qed

end
