(* ===== verification/HomeToday.thy ===== *)
theory HomeToday
  imports DailyQuestion "HOL-Library.AList"
begin

text \<open>
  Today's card at the top of Home (\<^verbatim>\<open>utils/home-today.ts\<close>): the writing streak, the same day in past
  years, and putting the card away for the day. A date is the calendar day the visitor's clock shows
  (\<open>local_date\<close> of \<open>DailyQuestion\<close>); \<^verbatim>\<open>new Date(year, month, day - 1)\<close> is the day before it.
\<close>

definition pad :: "nat \<Rightarrow> jsstring" where
  "pad value = (let t = nat_digits value in replicate (2 - length t) 0x30 @ t)"

definition dayKey :: "local_date \<Rightarrow> jsstring" where
  "dayKey date = int_text (full_year date) @ js ''-'' @ pad (month0 date + 1) @ js ''-'' @ pad (day_of_month date)"

definition dayBefore :: "local_date \<Rightarrow> local_date" where
  "dayBefore date =
     (if 1 < day_of_month date then date\<lparr>day_of_month := day_of_month date - 1\<rparr>
      else if 0 < month0 date
        then date\<lparr>month0 := month0 date - 1, day_of_month := month_length (full_year date) (month0 date - 1)\<rparr>
      else date\<lparr>full_year := full_year date - 1, month0 := 11, day_of_month := month_length (full_year date - 1) 11\<rparr>)"

definition count_key :: "'k \<Rightarrow> ('k \<times> nat) list \<Rightarrow> ('k \<times> nat) list" where
  "count_key k counts =
     AList.update k ((case map_of counts k of None \<Rightarrow> 0 | Some n \<Rightarrow> n) + 1) counts"

record WritingStreak =
  ws_days :: nat
  ws_wroteToday :: bool
  ws_todayCount :: nat

text \<open>The loop over the days; the fuel bounds their number.\<close>

fun streak_loop :: "nat \<Rightarrow> (jsstring \<times> nat) list \<Rightarrow> local_date \<Rightarrow> nat \<Rightarrow> nat option" where
  "streak_loop 0 counts day days = None"
| "streak_loop (Suc fuel) counts day days =
     (if map_of counts (dayKey day) \<noteq> None then streak_loop fuel counts (dayBefore day) (days + 1) else Some days)"

definition writingStreak :: "local_date list \<Rightarrow> local_date \<Rightarrow> WritingStreak option" where
  "writingStreak created today =
     (let counts = fold (\<lambda>date. count_key (dayKey date)) created [];
          todayCount = (case map_of counts (dayKey today) of None \<Rightarrow> 0 | Some n \<Rightarrow> n);
          day = (if todayCount > 0 then today else dayBefore today)
      in map_option (\<lambda>days. \<lparr>ws_days = days, ws_wroteToday = (todayCount > 0), ws_todayCount = todayCount\<rparr>)
           (streak_loop (length created + 1) counts day 0))"

record PastDay =
  pd_year :: int
  pd_count :: nat
  pd_key :: jsstring

definition sameDayInPastYears :: "local_date list \<Rightarrow> local_date \<Rightarrow> PastDay list" where
  "sameDayInPastYears created today =
     (let byYear = fold (\<lambda>date counts.
            if month0 date = month0 today \<and> day_of_month date = day_of_month today \<and> full_year date < full_year today
            then count_key (full_year date) counts else counts) created []
      in map (\<lambda>(year, count). \<lparr>pd_year = year, pd_count = count,
             pd_key = int_text year @ js ''-'' @ pad (month0 today + 1) @ js ''-'' @ pad (day_of_month today)\<rparr>)
           (sort_key (\<lambda>e. - fst e) byYear))"

text \<open>The day the card was put away, in the browser's storage; a storage that fails hides nothing.\<close>

definition isTodayCardHidden :: "jsstring option option \<Rightarrow> local_date \<Rightarrow> bool" where
  "isTodayCardHidden stored today = (case stored of None \<Rightarrow> False | Some item \<Rightarrow> item = Some (dayKey today))"

definition hideTodayCard :: "jsstring option option \<Rightarrow> local_date \<Rightarrow> jsstring option option" where
  "hideTodayCard stored today = (case stored of None \<Rightarrow> None | Some _ \<Rightarrow> Some (Some (dayKey today)))"

section \<open>Keys of days\<close>

lemma pad_digits: "n < 100 \<Longrightarrow> pad n = [0x30 + n div 10, 0x30 + n mod 10]"
  by (cases "n < 10") (auto simp: pad_def nat_digits.simps Let_def)

lemma pad_inj: "m < 100 \<Longrightarrow> n < 100 \<Longrightarrow> pad m = pad n \<longleftrightarrow> m = n"
  by (auto simp: pad_digits) (metis div_mult_mod_eq)

lemma int_text_inj: "int_text a = int_text b \<longleftrightarrow> a = b"
proof -
  have "0x2d # t \<noteq> nat_digits n" for t n
  proof
    assume "0x2d # t = nat_digits n"
    then have "0x2d \<in> set (nat_digits n)" by (metis list.set_intros(1))
    from nat_digits_digit [OF this] show False by (simp add: is_digit_def)
  qed
  then show ?thesis by (auto simp: int_text_def split: if_splits) metis+
qed

lemma valid_bounds: "valid_date d \<Longrightarrow> month0 d + 1 < 100 \<and> day_of_month d < 100"
  by (auto simp: valid_date_def month_length_def split: if_splits)

lemma dayKey_inj:
  assumes "valid_date a" "valid_date b"
  shows "dayKey a = dayKey b \<longleftrightarrow> a = b"
proof
  assume "dayKey a = dayKey b"
  moreover note valid_bounds [OF assms(1)] valid_bounds [OF assms(2)]
  ultimately have "int_text (full_year a) = int_text (full_year b) \<and> pad (month0 a + 1) = pad (month0 b + 1) \<and>
      pad (day_of_month a) = pad (day_of_month b)"
    by (simp add: dayKey_def pad_digits js_str)
  then show "a = b"
    using valid_bounds [OF assms(1)] valid_bounds [OF assms(2)]
    by (simp add: int_text_inj pad_inj)
qed simp

section \<open>Counting\<close>

lemma count_key_lookup:
  "map_of (fold (\<lambda>x. count_key (f x)) xs m) k =
     (let n = length (filter (\<lambda>x. f x = k) xs)
      in case map_of m k of None \<Rightarrow> if n = 0 then None else Some n | Some c \<Rightarrow> Some (c + n))"
proof (induction xs arbitrary: m)
  case (Cons x xs)
  have step: "map_of (count_key (f x) m) k =
      (if f x = k then Some ((case map_of m k of None \<Rightarrow> 0 | Some n \<Rightarrow> n) + 1) else map_of m k)"
    by (auto simp: count_key_def update_conv')
  show ?case unfolding fold_Cons comp_apply Cons.IH step by (auto simp: Let_def split: option.splits)
qed (simp split: option.splits)

section \<open>The streak\<close>

lemma dayBefore_valid: "valid_date d \<Longrightarrow> valid_date (dayBefore d)"
  using month_length_pos by (auto simp: dayBefore_def valid_date_def Suc_le_eq)

definition day_rank :: "local_date \<Rightarrow> int" where
  "day_rank d = full_year d * 400 + int (month0 d) * 32 + int (day_of_month d)"

lemma dayBefore_rank: "valid_date d \<Longrightarrow> day_rank (dayBefore d) < day_rank d"
  by (auto simp: day_rank_def dayBefore_def valid_date_def month_length_def split: if_splits)

lemma days_before_valid: "valid_date d \<Longrightarrow> valid_date ((dayBefore ^^ k) d)"
  by (induction k) (auto intro: dayBefore_valid)

lemma days_before_rank: "valid_date d \<Longrightarrow> j < k \<Longrightarrow> day_rank ((dayBefore ^^ k) d) < day_rank ((dayBefore ^^ j) d)"
proof (induction k)
  case (Suc k)
  have "day_rank ((dayBefore ^^ Suc k) d) < day_rank ((dayBefore ^^ k) d)"
    using dayBefore_rank [OF days_before_valid [OF Suc.prems(1)], of k] by simp
  then show ?case using Suc by (cases "j = k") auto
qed simp

lemma streak_loop_stops:
  "(\<forall>k<n. map_of counts (dayKey ((dayBefore ^^ k) day)) \<noteq> None) \<Longrightarrow> map_of counts (dayKey ((dayBefore ^^ n) day)) = None \<Longrightarrow>
   n < fuel \<Longrightarrow> streak_loop fuel counts day days = Some (days + n)"
proof (induction n arbitrary: day days fuel)
  case 0
  then show ?case by (cases fuel) auto
next
  case (Suc n)
  obtain fuel' where fuel: "fuel = Suc fuel'" using Suc.prems(3) by (cases fuel) auto
  have first: "map_of counts (dayKey day) \<noteq> None" using Suc.prems(1) by force
  have "\<forall>k<n. map_of counts (dayKey ((dayBefore ^^ k) (dayBefore day))) \<noteq> None"
  proof (intro allI impI)
    fix k assume "k < n"
    then show "map_of counts (dayKey ((dayBefore ^^ k) (dayBefore day))) \<noteq> None"
      using Suc.prems(1) [rule_format, of "Suc k"] by (simp add: funpow_swap1)
  qed
  moreover have "map_of counts (dayKey ((dayBefore ^^ n) (dayBefore day))) = None"
    using Suc.prems(2) by (simp add: funpow_swap1)
  ultimately have "streak_loop fuel' counts (dayBefore day) (days + 1) = Some (days + 1 + n)"
    using Suc.prems(3) fuel by (intro Suc.IH) auto
  then show ?case using first by (simp add: fuel)
qed

text \<open>A run of days with memos is no longer than the list of memos.\<close>

lemma streak_ends:
  assumes "valid_date day"
  shows "\<exists>n \<le> length created. (dayBefore ^^ n) day \<notin> set created"
proof (rule ccontr)
  assume "\<not> ?thesis"
  then have "(\<lambda>n. (dayBefore ^^ n) day) ` {..length created} \<subseteq> set created" by auto
  moreover have "inj_on (\<lambda>n. (dayBefore ^^ n) day) {..length created}"
    using days_before_rank [OF assms] by (intro inj_onI) (metis linorder_neqE_nat less_irrefl)
  ultimately have "Suc (length created) \<le> card (set created)"
    using card_inj_on_le [of "\<lambda>n. (dayBefore ^^ n) day" "{..length created}" "set created"] by simp
  then show False using card_length [of created] by simp
qed

text \<open>
  The writing streak is computed for any list of memos: it counts today's memos, and its days are
  the longest run of days with a memo that ends today, or yesterday when nothing is written today.
\<close>

lemma writing_streak_is_longest_run:
  assumes "valid_date today" and "\<forall>d \<in> set created. valid_date d"
    and "last_day = (if today \<in> set created then today else dayBefore today)"
  shows "\<exists>w. writingStreak created today = Some w \<and> ws_todayCount w = count_list created today \<and>
    ws_wroteToday w = (today \<in> set created) \<and>
    (\<forall>k < ws_days w. (dayBefore ^^ k) last_day \<in> set created) \<and>
    (dayBefore ^^ ws_days w) last_day \<notin> set created"
proof -
  define counts where "counts = fold (\<lambda>date. count_key (dayKey date)) created []"
  have lookup: "map_of counts (dayKey d) = (if d \<in> set created then Some (count_list created d) else None)" if "valid_date d" for d
  proof -
    have "filter (\<lambda>x. dayKey x = dayKey d) created = filter (\<lambda>x. x = d) created"
      using assms(2) that by (intro filter_cong) (auto simp: dayKey_inj)
    moreover have "length (filter (\<lambda>x. x = d) created) = count_list created d"
      by (induction created) auto
    moreover have "count_list created d = 0 \<longleftrightarrow> d \<notin> set created" by (simp add: count_list_0_iff)
    ultimately show ?thesis by (simp add: counts_def count_key_lookup)
  qed
  have valid: "valid_date last_day" using assms(1,3) dayBefore_valid by auto
  define n where "n = (LEAST n. (dayBefore ^^ n) last_day \<notin> set created)"
  obtain m where m: "m \<le> length created" "(dayBefore ^^ m) last_day \<notin> set created" using streak_ends [OF valid] by blast
  have stop: "(dayBefore ^^ n) last_day \<notin> set created" unfolding n_def using m(2) by (rule LeastI)
  have run: "(dayBefore ^^ k) last_day \<in> set created" if "k < n" for k using not_less_Least [OF that [unfolded n_def]] by simp
  have "n \<le> m" unfolding n_def using m(2) by (rule Least_le)
  then have "streak_loop (length created + 1) counts last_day 0 = Some (0 + n)"
    using run stop m(1) lookup days_before_valid [OF valid] by (intro streak_loop_stops) auto
  moreover have "(case map_of counts (dayKey today) of None \<Rightarrow> 0 | Some c \<Rightarrow> c) = count_list created today"
    using lookup [OF assms(1)] by (simp add: count_list_0_iff)
  moreover have "0 < count_list created today \<longleftrightarrow> today \<in> set created" using count_list_0_iff [of created today] by auto
  ultimately show ?thesis
    using run stop assms(3) unfolding writingStreak_def counts_def [symmetric] Let_def by simp
qed

definition sample_day :: "nat \<Rightarrow> local_date" where
  "sample_day d = \<lparr>full_year = 2026, month0 = 2, day_of_month = d\<rparr>"

lemma writing_streak_is_longest_run_witness:
  "\<exists>w. writingStreak [sample_day 1, sample_day 2] (sample_day 3) = Some w \<and> ws_todayCount w = 0 \<and> ws_days w \<noteq> 0"
proof -
  have "valid_date (sample_day 3)" "\<forall>d \<in> set [sample_day 1, sample_day 2]. valid_date d"
    by (simp_all add: valid_date_def sample_day_def month_length_def)
  note W = writing_streak_is_longest_run [OF this refl]
  have "sample_day 3 \<notin> set [sample_day 1, sample_day 2]" "dayBefore (sample_day 3) = sample_day 2"
    by (simp_all add: sample_day_def dayBefore_def)
  with W obtain w where w: "writingStreak [sample_day 1, sample_day 2] (sample_day 3) = Some w"
      "ws_todayCount w = count_list [sample_day 1, sample_day 2] (sample_day 3)"
      "(dayBefore ^^ ws_days w) (sample_day 2) \<notin> set [sample_day 1, sample_day 2]"
    by auto
  have "ws_days w \<noteq> 0" using w(3) by (cases "ws_days w") auto
  with w(1,2) show ?thesis by (auto simp: sample_day_def)
qed

section \<open>Past years\<close>

lemma fold_if: "fold (\<lambda>x s. if P x then f x s else s) xs s = fold f (filter P xs) s"
  by (induction xs arbitrary: s) auto

lemma distinct_count: "distinct (map fst m) \<Longrightarrow> distinct (map fst (fold (\<lambda>x. count_key (f x)) xs m))"
  by (induction xs arbitrary: m) (auto simp: count_key_def intro: distinct_update)

lemma strictly_sorted_key: "distinct (map g xs) \<Longrightarrow> sorted (map g xs) \<Longrightarrow> sorted_wrt (\<lambda>a b. g a < g b) xs"
  by (induction xs) (auto simp: less_le image_iff)

text \<open>
  The past days come newest year first, one for each earlier year with a memo on today's month and
  day, with the number of those memos and the key of that day.
\<close>

lemma past_days_are_counted:
  "sorted_wrt (\<lambda>a b. pd_year b < pd_year a) (sameDayInPastYears created today) \<and>
    (\<forall>e. e \<in> set (sameDayInPastYears created today) \<longleftrightarrow>
       pd_year e < full_year today \<and> 0 < pd_count e \<and>
       pd_count e = length (filter (\<lambda>d. full_year d = pd_year e \<and> month0 d = month0 today \<and>
         day_of_month d = day_of_month today) created) \<and>
       pd_key e = dayKey (today\<lparr>full_year := pd_year e\<rparr>))"
proof -
  define past where "past = sameDayInPastYears created today"
  let ?same = "\<lambda>d. month0 d = month0 today \<and> day_of_month d = day_of_month today \<and> full_year d < full_year today"
  define byYear where "byYear = fold (\<lambda>d. count_key (full_year d)) (filter ?same created) []"
  define mk where "mk = (\<lambda>(year, count). \<lparr>pd_year = year, pd_count = count, pd_key = int_text year @ js ''-'' @
    pad (month0 today + 1) @ js ''-'' @ pad (day_of_month today)\<rparr>)"
  have past: "past = map mk (sort_key (\<lambda>e. - fst e) byYear)"
    unfolding past_def sameDayInPastYears_def Let_def byYear_def mk_def fold_if ..
  have distinct: "distinct (map fst byYear)" unfolding byYear_def by (rule distinct_count) simp
  have "distinct (map (\<lambda>e. - fst e) (sort_key (\<lambda>e. - fst e) byYear))"
    using distinct by (auto simp: distinct_map inj_on_def)
  then have "sorted_wrt (\<lambda>a b. - fst a < - fst b) (sort_key (\<lambda>e. - fst e) byYear)"
    by (rule strictly_sorted_key) simp
  then have order: "sorted_wrt (\<lambda>a b. pd_year b < pd_year a) past"
    by (auto simp: past sorted_wrt_map mk_def elim!: sorted_wrt_mono_rel [rotated])
  have count: "(y, c) \<in> set byYear \<longleftrightarrow> 0 < c \<and> c = length (filter (\<lambda>d. full_year d = y \<and> ?same d) created)" for y c
  proof -
    have "(y, c) \<in> set byYear \<longleftrightarrow> map_of byYear y = Some c" using distinct by simp
    then show ?thesis by (auto simp: byYear_def count_key_lookup Let_def conj_commute split: if_splits)
  qed
  have years: "filter (\<lambda>d. full_year d = y \<and> ?same d) created =
      (if y < full_year today then filter (\<lambda>d. full_year d = y \<and> month0 d = month0 today \<and>
        day_of_month d = day_of_month today) created else [])" for y
    by (auto intro: filter_cong)
  have "e \<in> set past \<longleftrightarrow> (pd_year e, pd_count e) \<in> set byYear \<and> pd_key e = dayKey (today\<lparr>full_year := pd_year e\<rparr>)" for e
    by (cases e) (auto simp: past mk_def dayKey_def image_iff Bex_def)
  then show ?thesis using order unfolding count years past_def by auto
qed

end
