(* ===== verification/MemoFilters.thy ===== *)
theory MemoFilters
  imports Json DailyQuestion Messages
begin

text \<open>
  The filter expression a memo list asks the server for (\<^verbatim>\<open>hooks/useMemoFilters.ts\<close>) with the resource
  names it is built from (\<^verbatim>\<open>lib/resource-names.ts\<close>). The expression language reads JSON string literals.
  The time zone of the browser is the argument \<open>local_clock\<close>: for a calendar day the instant
  \<^verbatim>\<open>new Date(year, month, day)\<close> and the same time on the next day, in milliseconds.
\<close>

section \<open>Resource names\<close>

definition userNamePrefix :: jsstring where "userNamePrefix = js ''users/''"
definition memoNamePrefix :: jsstring where "memoNamePrefix = js ''memos/''"
definition identityProviderNamePrefix :: jsstring where "identityProviderNamePrefix = js ''identity-providers/''"

definition buildMemoCreatorFilter :: "jsstring \<Rightarrow> jsstring option" where
  "buildMemoCreatorFilter name =
     (if name = [] then None
      else
        let normalizedName = (if starts_with name userNamePrefix then name else userNamePrefix @ name)
        in Some (js ''creator == '' @ quote_json normalizedName))"

definition extractUsernameFromName :: "jsstring \<Rightarrow> jsstring" where
  "extractUsernameFromName name =
     (if starts_with name userNamePrefix then drop (length userNamePrefix) name else name)"

lemma index_of_nonempty: "index_of s p = Some i \<Longrightarrow> p \<noteq> [] \<Longrightarrow> s \<noteq> []"
  using index_of_js_includes [of s p] by (auto simp: js_includes_sublist)

text \<open>\<^verbatim>\<open>name.split(prefix).pop()\<close>: what follows the last prefix.\<close>

function after_last :: "jsstring \<Rightarrow> jsstring \<Rightarrow> jsstring" where
  "after_last p s =
     (case index_of s p of
        None \<Rightarrow> s
      | Some i \<Rightarrow> if p = [] then [] else after_last p (drop (i + length p) s))"
  by pat_completeness auto
termination
  by (relation "measure (\<lambda>(p, s). length s)") (auto dest: index_of_nonempty)

definition extractMemoIdFromName :: "jsstring \<Rightarrow> jsstring" where
  "extractMemoIdFromName name = after_last memoNamePrefix name"

definition extractIdentityProviderUidFromName :: "jsstring \<Rightarrow> jsstring" where
  "extractIdentityProviderUidFromName name = after_last identityProviderNamePrefix name"

fun getVisibilityName :: "Visibility \<Rightarrow> jsstring" where
  "getVisibilityName VISIBILITY_UNSPECIFIED = js ''VISIBILITY_UNSPECIFIED''"
| "getVisibilityName PRIVATE = js ''PRIVATE''"
| "getVisibilityName PROTECTED = js ''PROTECTED''"
| "getVisibilityName PUBLIC = js ''PUBLIC''"
| "getVisibilityName SPACE = js ''SPACE''"

definition spaceScopedCacheKey :: "jsstring \<Rightarrow> jsstring option \<Rightarrow> jsstring" where
  "spaceScopedCacheKey baseKey spaceName =
     (case or_undefined spaceName of Some s \<Rightarrow> baseKey @ js '':'' @ s | None \<Rightarrow> baseKey)"

section \<open>The filter\<close>

datatype FilterFactor =
    tagSearch | visibility_factor | contentSearch | displayTime | pinned_factor
  | hasLink | hasTaskList | hasCode | hasLocation

record MemoFilter =
  mf_factor :: FilterFactor
  mf_value :: jsstring

record local_clock =
  day_start_ms :: "local_date \<Rightarrow> int"
  next_day_ms :: "local_date \<Rightarrow> int"

text \<open>\<^verbatim>\<open>/^(\d{4})-(\d{2})-(\d{2})$/\<close>; a day the calendar does not have is refused, and so are the years the
  constructor reads as two-digit years.\<close>

definition parse_day :: "jsstring \<Rightarrow> local_date option" where
  "parse_day value =
     (if length value = 10 \<and> value ! 4 = 0x2d \<and> value ! 7 = 0x2d \<and>
         (\<forall>i \<in> set [0, 1, 2, 3, 5, 6, 8, 9]. is_digit (value ! i))
      then
        let year = digits_value (take 4 value); month = digits_value (Prelude.slice value 5 7); day = digits_value (drop 8 value) in
        if 100 \<le> year \<and> 1 \<le> month \<and> valid_date \<lparr>full_year = int year, month0 = month - 1, day_of_month = day\<rparr>
        then Some \<lparr>full_year = int year, month0 = month - 1, day_of_month = day\<rparr> else None
      else None)"

definition getLocalDayTimestampRange :: "local_clock \<Rightarrow> jsstring \<Rightarrow> (int \<times> int) option" where
  "getLocalDayTimestampRange clock value =
     map_option (\<lambda>d. (day_start_ms clock d div 1000, next_day_ms clock d div 1000)) (parse_day value)"

record filter_options =
  fo_creatorName :: "jsstring option"
  fo_currentMemoView :: "jsstring option"
  fo_filters :: "MemoFilter list"
  fo_includePinned :: bool
  fo_selectedMemoViewFilter :: "jsstring option"
  fo_visibilities :: "Visibility list option"

definition BUILTIN_TASKS_VIEW_ID :: jsstring where "BUILTIN_TASKS_VIEW_ID = js ''__built_in_tasks__''"

definition BUILTIN_TASKS_VIEW_FILTER :: jsstring where
  "BUILTIN_TASKS_VIEW_FILTER = js ''has_task_list && has_incomplete_tasks''"

definition filter_condition :: "local_clock \<Rightarrow> bool \<Rightarrow> MemoFilter \<Rightarrow> jsstring list" where
  "filter_condition clock includePinned f =
     (case mf_factor f of
        contentSearch \<Rightarrow> [js ''content.contains('' @ quote_json (mf_value f) @ js '')'']
      | tagSearch \<Rightarrow> [js ''tag in ['' @ quote_json (mf_value f) @ js '']'']
      | pinned_factor \<Rightarrow> if includePinned then [js ''pinned''] else []
      | hasLink \<Rightarrow> [js ''has_link'']
      | hasTaskList \<Rightarrow> [js ''has_task_list'']
      | hasCode \<Rightarrow> [js ''has_code'']
      | hasLocation \<Rightarrow> [js ''has_location'']
      | displayTime \<Rightarrow>
          (case getLocalDayTimestampRange clock (mf_value f) of
             None \<Rightarrow> []
           | Some (startTimestamp, endTimestamp) \<Rightarrow>
               [js ''created_ts >= timestamp('' @ int_text startTimestamp @ js '') && created_ts < timestamp('' @
                int_text endTimestamp @ js '')''])
      | visibility_factor \<Rightarrow> [])"

definition visibility_condition :: "Visibility list option \<Rightarrow> jsstring list" where
  "visibility_condition visibilities =
     (case visibilities of
        Some (v # vs) \<Rightarrow>
          [js ''visibility in ['' @
           join_with (js '', '') (map (\<lambda>v. [0x22] @ getVisibilityName v @ [0x22]) (v # vs)) @ js '']'']
      | _ \<Rightarrow> [])"

definition filter_conditions :: "local_clock \<Rightarrow> filter_options \<Rightarrow> jsstring list" where
  "filter_conditions clock opts =
     (case or_undefined (fo_creatorName opts) of
        None \<Rightarrow> []
      | Some creatorName \<Rightarrow> (case buildMemoCreatorFilter creatorName of None \<Rightarrow> [] | Some c \<Rightarrow> [c])) @
     (if fo_currentMemoView opts = Some BUILTIN_TASKS_VIEW_ID then [BUILTIN_TASKS_VIEW_FILTER]
      else case or_undefined (fo_selectedMemoViewFilter opts) of None \<Rightarrow> [] | Some c \<Rightarrow> [c]) @
     concat (map (filter_condition clock (fo_includePinned opts)) (fo_filters opts)) @
     visibility_condition (fo_visibilities opts)"

definition buildMemoFilter :: "local_clock \<Rightarrow> filter_options \<Rightarrow> jsstring option" where
  "buildMemoFilter clock opts =
     (let conditions = filter_conditions clock opts
      in if conditions \<noteq> [] then Some (join_with (js '' && '') conditions) else None)"

text \<open>\<^verbatim>\<open>seriesFilterOf\<close> of \<^verbatim>\<open>utils/memo-series.ts\<close>.\<close>

definition seriesFilterOf :: "jsstring \<Rightarrow> jsstring" where
  "seriesFilterOf tag = js ''tag in ['' @ quote_json tag @ js '']''"

section \<open>What a value can change\<close>

text \<open>The text with every string literal emptied.\<close>

function skeleton :: "jsstring \<Rightarrow> jsstring" where
  "skeleton [] = []"
| "skeleton (c # s) =
     (if c = 0x22
      then (case read_string_body s of None \<Rightarrow> [0x22] | Some (_, r) \<Rightarrow> [0x22, 0x22] @ skeleton r)
      else c # skeleton s)"
  by pat_completeness auto
termination by (relation "measure length") (auto dest: read_string_body_length)

definition balanced :: "jsstring \<Rightarrow> bool" where
  "balanced t \<longleftrightarrow> (\<forall>s. skeleton (t @ s) = skeleton t @ skeleton s)"

lemma balancedD: "balanced t \<Longrightarrow> skeleton (t @ s) = skeleton t @ skeleton s"
  by (simp add: balanced_def)

lemma skeleton_plain: "0x22 \<notin> set t \<Longrightarrow> skeleton (t @ s) = t @ skeleton s"
  by (induction t) auto

lemma balanced_plain: "0x22 \<notin> set t \<Longrightarrow> balanced t"
  using skeleton_plain [of t "[]"] by (simp add: balanced_def skeleton_plain)

lemma skeleton_quote: "code_units v \<Longrightarrow> skeleton (quote_json v @ s) = [0x22, 0x22] @ skeleton s"
  by (simp add: quote_json_def read_quote_body)

lemma skeleton_literal: "code_units v \<Longrightarrow> skeleton (quote_json v) = [0x22, 0x22]"
  using skeleton_quote [of v "[]"] by simp

lemma balanced_quote: "code_units v \<Longrightarrow> balanced (quote_json v)"
  by (simp add: balanced_def skeleton_quote skeleton_literal)

lemma balanced_append: "balanced a \<Longrightarrow> balanced b \<Longrightarrow> balanced (a @ b)"
  by (simp add: balanced_def)

lemma skeleton_join:
  "balanced sep \<Longrightarrow> \<forall>w \<in> set ws. balanced w \<Longrightarrow> skeleton (join_with sep ws) = join_with (skeleton sep) (map skeleton ws)"
  by (induction sep ws rule: join_with.induct) (simp_all add: balancedD)

lemma balanced_join: "balanced sep \<Longrightarrow> \<forall>w \<in> set ws. balanced w \<Longrightarrow> balanced (join_with sep ws)"
  by (induction sep ws rule: join_with.induct) (simp_all add: balanced_append balanced_plain)

lemma no_quote_number: "0x22 \<notin> set (int_text z)"
  using nat_digits_digit [of "0x22"] by (auto simp: int_text_def is_digit_def split: if_splits)

lemma balanced_js: "0x22 \<notin> set (js t) \<Longrightarrow> balanced (js t)"
  by (rule balanced_plain)

lemma balanced_number: "balanced (int_text z)"
  by (rule balanced_plain) (rule no_quote_number)

lemmas balanced_intros = balanced_append balanced_quote balanced_number balanced_js

lemma balanced_visibility: "balanced ([0x22] @ getVisibilityName v @ [0x22])"
proof -
  have "[0x22] @ getVisibilityName v @ [0x22] = quote_json (getVisibilityName v)"
    by (cases v) (simp_all add: quote_json_def escape_unit_def is_high_surrogate_def is_low_surrogate_def js_str)
  moreover have "code_units (getVisibilityName v)" by (cases v) simp_all
  ultimately show ?thesis by (simp only: balanced_quote)
qed

lemma balanced_visibilities: "w \<in> set (visibility_condition vs) \<Longrightarrow> balanced w"
proof -
  have "balanced (js ''visibility in ['' @ join_with (js '', '') (map (\<lambda>v. [0x22] @ getVisibilityName v @ [0x22]) ws) @ js '']'')" for ws
    using balanced_visibility by (intro balanced_intros balanced_join) (simp_all add: js_str del: append_Cons)
  note b = this
  assume "w \<in> set (visibility_condition vs)"
  then obtain v ws where "w = js ''visibility in ['' @
      join_with (js '', '') (map (\<lambda>v. [0x22] @ getVisibilityName v @ [0x22]) (v # ws)) @ js '']''"
    by (auto simp: visibility_condition_def split: option.splits list.splits)
  with b [of "v # ws"] show ?thesis by simp
qed

text \<open>The condition of a filter, its value aside.\<close>

lemma filter_condition_skeleton:
  assumes "code_units (mf_value f)" "code_units (mf_value g)" "mf_factor f = mf_factor g"
    "mf_factor f = displayTime \<Longrightarrow> mf_value f = mf_value g"
  shows "map skeleton (filter_condition clock pin f) = map skeleton (filter_condition clock pin g)"
proof -
  have l: "skeleton (t @ quote_json (mf_value f) @ r) = skeleton (t @ quote_json (mf_value g) @ r)"
    if "0x22 \<notin> set t" for t r
    using that assms(1,2) by (simp add: skeleton_plain skeleton_quote)
  show ?thesis
    using assms l [of "js ''content.contains(''"] l [of "js ''tag in [''"]
    by (cases "mf_factor f") (auto simp: filter_condition_def js_str skeleton_quote)
qed

lemma filter_condition_balanced:
  assumes "code_units (mf_value f)" "w \<in> set (filter_condition clock pin f)"
  shows "balanced w"
proof -
  have "balanced (js ''content.contains('' @ quote_json (mf_value f) @ js '')'')"
    "balanced (js ''tag in ['' @ quote_json (mf_value f) @ js '']'')"
    "balanced (js ''created_ts >= timestamp('' @ int_text i @ js '') && created_ts < timestamp('' @ int_text j @ js '')'')"
    "balanced (js ''pinned'')" "balanced (js ''has_link'')" "balanced (js ''has_task_list'')" "balanced (js ''has_code'')"
    "balanced (js ''has_location'')" for i j
    using assms(1) by (intro balanced_intros; simp add: js_str)+
  then show ?thesis using assms(2) by (cases "mf_factor f") (auto simp: filter_condition_def split: option.splits if_splits)
qed

lemma creator_condition:
  assumes "code_units name" "buildMemoCreatorFilter name = Some c"
  shows "balanced c \<and> skeleton c = js ''creator == '' @ [0x22, 0x22]"
proof -
  obtain v where v: "c = js ''creator == '' @ quote_json v" "code_units v"
    using assms by (auto simp: buildMemoCreatorFilter_def Let_def userNamePrefix_def code_units_def js_str split: if_splits)
  have "balanced (js ''creator == '')" by (rule balanced_plain) (simp add: js_str)
  then show ?thesis
    using v skeleton_plain [of "js ''creator == ''" "quote_json v"]
    by (simp add: skeleton_literal balanced_append balanced_quote) (simp add: js_str)
qed

definition options_ok :: "filter_options \<Rightarrow> bool" where
  "options_ok opts \<longleftrightarrow>
     (\<forall>name. fo_creatorName opts = Some name \<longrightarrow> code_units name) \<and>
     (\<forall>view. fo_selectedMemoViewFilter opts = Some view \<longrightarrow> balanced view) \<and>
     (\<forall>f \<in> set (fo_filters opts). code_units (mf_value f))"

lemma conditions_balanced:
  assumes "options_ok opts"
  shows "\<forall>w \<in> set (filter_conditions clock opts). balanced w"
proof -
  have "balanced BUILTIN_TASKS_VIEW_FILTER"
    unfolding BUILTIN_TASKS_VIEW_FILTER_def by (rule balanced_js) (simp add: js_str)
  moreover have "balanced c" if "fo_creatorName opts = Some name" "buildMemoCreatorFilter name = Some c" for name c
    using creator_condition [OF _ that(2)] that(1) assms by (auto simp: options_ok_def)
  moreover have "balanced w" if "f \<in> set (fo_filters opts)" "w \<in> set (filter_condition clock pin f)" for f pin w
    using filter_condition_balanced [OF _ that(2)] that(1) assms by (auto simp: options_ok_def)
  ultimately show ?thesis
    using assms balanced_visibilities
    by (auto simp: filter_conditions_def options_ok_def or_undefined_def split: option.splits if_splits)
qed

text \<open>
  C38. No value can change the structure of a filter: outside string literals the expression depends on
  the kinds of the filters only, not on the searched texts, tags or the creator's name, and each
  searched text is read back from its literal as it was typed.
\<close>

theorem filter_values_keep_structure:
  assumes "options_ok opts" and "options_ok opts'"
    and "fo_filters opts = fs" and "fo_filters opts' = gs"
    and "list_all2 (\<lambda>f g. mf_factor f = mf_factor g \<and> (mf_factor f = displayTime \<longrightarrow> mf_value f = mf_value g)) fs gs"
    and "fo_creatorName opts = Some name" and "fo_creatorName opts' = Some name'" and "name \<noteq> []" and "name' \<noteq> []"
    and "fo_currentMemoView opts = fo_currentMemoView opts'" and "fo_includePinned opts = fo_includePinned opts'"
    and "fo_selectedMemoViewFilter opts = fo_selectedMemoViewFilter opts'" and "fo_visibilities opts = fo_visibilities opts'"
  shows "map_option skeleton (buildMemoFilter clock opts) = map_option skeleton (buildMemoFilter clock opts') \<and>
    (\<forall>f \<in> set fs. mf_factor f = contentSearch \<longrightarrow>
       (\<exists>w \<in> set (filter_conditions clock opts). w = js ''content.contains('' @ quote_json (mf_value f) @ js '')'') \<and>
       parse_json (quote_json (mf_value f)) = Some (JStr (mf_value f)))"
proof (intro conjI ballI impI)
  have "map skeleton (concat (map (filter_condition clock pin) fs)) = map skeleton (concat (map (filter_condition clock pin) gs))" for pin
  proof -
    have "\<forall>f \<in> set fs. code_units (mf_value f)" "\<forall>g \<in> set gs. code_units (mf_value g)"
      using assms(1-4) by (auto simp: options_ok_def)
    with assms(5) show ?thesis
    proof (induction rule: list_all2_induct)
      case (Cons f fs g gs)
      have "map skeleton (filter_condition clock pin f) = map skeleton (filter_condition clock pin g)"
        using Cons.hyps(1) Cons.prems by (intro filter_condition_skeleton) auto
      then show ?case using Cons.IH Cons.prems by simp
    qed simp
  qed
  note filters = this
  obtain c c' where c: "buildMemoCreatorFilter name = Some c" "buildMemoCreatorFilter name' = Some c'"
    using assms(8,9) by (simp add: buildMemoCreatorFilter_def Let_def)
  have "skeleton c = skeleton c'"
    using creator_condition [OF _ c(1)] creator_condition [OF _ c(2)] assms(1,2,6,7) by (simp add: options_ok_def)
  then have s: "map skeleton (filter_conditions clock opts) = map skeleton (filter_conditions clock opts')"
    unfolding filter_conditions_def assms(3,4,6,7,10-13) map_append filters
    using assms(8,9) by (simp add: or_undefined_def c)
  have b: "balanced (js '' && '')" by (rule balanced_js) (simp add: js_str)
  note J = skeleton_join [OF b conditions_balanced [OF assms(1)], of clock]
    skeleton_join [OF b conditions_balanced [OF assms(2)], of clock]
  have "filter_conditions clock opts = [] \<longleftrightarrow> filter_conditions clock opts' = []" using s by (metis map_is_Nil_conv)
  then show "map_option skeleton (buildMemoFilter clock opts) = map_option skeleton (buildMemoFilter clock opts')"
    using J s by (simp add: buildMemoFilter_def Let_def)
next
  fix f assume f: "f \<in> set fs" "mf_factor f = contentSearch"
  then show "\<exists>w \<in> set (filter_conditions clock opts). w = js ''content.contains('' @ quote_json (mf_value f) @ js '')''"
    using assms(3) by (force simp: filter_conditions_def filter_condition_def)
  have "json_ok (\<lambda>_. []) (JStr (mf_value f))" using f assms(1,3) by (simp add: options_ok_def)
  from parse_stringify [OF this] show "parse_json (quote_json (mf_value f)) = Some (JStr (mf_value f))" by simp
qed

definition sample_options :: "jsstring \<Rightarrow> filter_options" where
  "sample_options v = \<lparr>fo_creatorName = Some (js ''ann''), fo_currentMemoView = None,
     fo_filters = [\<lparr>mf_factor = contentSearch, mf_value = v\<rparr>], fo_includePinned = False,
     fo_selectedMemoViewFilter = None, fo_visibilities = Some [PUBLIC]\<rparr>"

text \<open>A searched text that tries to leave its literal.\<close>

definition closing_text :: jsstring where
  "closing_text = js ''a'' @ [0x22] @ js '') || true || content.contains('' @ [0x22]"

lemma sample_options_ok: "code_units v \<Longrightarrow> options_ok (sample_options v)"
  by (simp add: options_ok_def sample_options_def)

text \<open>The clock of a browser in the time zone UTC.\<close>

definition utc_clock :: local_clock where
  "utc_clock =
     \<lparr>day_start_ms = (\<lambda>d. 86400000 * utc_days (full_year d) (month0 d) (day_of_month d)),
      next_day_ms = (\<lambda>d. 86400000 * (utc_days (full_year d) (month0 d) (day_of_month d) + 1))\<rparr>"

theorem filter_values_keep_structure_witness:
  "map_option skeleton (buildMemoFilter utc_clock (sample_options closing_text)) =
   map_option skeleton (buildMemoFilter utc_clock (sample_options (js ''b'')))"
proof -
  have u: "code_units closing_text" by (simp add: closing_text_def code_units_def js_str)
  show ?thesis
    using filter_values_keep_structure [OF sample_options_ok [OF u] sample_options_ok [OF code_units_js] refl refl]
    by (simp add: sample_options_def)
qed

end
