(* ===== verification/ListIndent.thy ===== *)
theory ListIndent
  imports Prelude
begin

text \<open>
  Tab and Shift-Tab on list items (\<^verbatim>\<open>components/MemoEditor/Editor/listIndent.ts\<close>). The document of the
  editor is the list of its lines, numbered from 1 and parted by one line break each; a selection is a list
  of ranges of line numbers; a command gives the changes it dispatches, or \<open>None\<close> when it declines. The
  numbers of ordered items are exact (the language rounds above \<open>2 ^ 53\<close>).
\<close>

section \<open>Lines\<close>

definition leadingWhitespace :: "jsstring \<Rightarrow> nat" where
  "leadingWhitespace t = length (takeWhile is_js_space t)"

definition is_bullet :: "nat \<Rightarrow> bool" where
  "is_bullet c \<longleftrightarrow> c = 0x2d \<or> c = 0x2a \<or> c = 0x2b"

definition is_delimiter :: "nat \<Rightarrow> bool" where
  "is_delimiter c \<longleftrightarrow> c = 0x2e \<or> c = 0x29"

definition is_line_terminator :: "nat \<Rightarrow> bool" where
  "is_line_terminator c \<longleftrightarrow> c = 0x0a \<or> c = 0x0d \<or> c = 0x2028 \<or> c = 0x2029"

text \<open>The length of a bullet or an ordered marker at the start of a text.\<close>

definition item_marker :: "jsstring \<Rightarrow> nat option" where
  "item_marker t =
     (let d = length (takeWhile is_digit t) in
      if t \<noteq> [] \<and> is_bullet (hd t) then Some 1
      else if 0 < d \<and> d < length t \<and> is_delimiter (t ! d) then Some (d + 1) else None)"

text \<open>\<^verbatim>\<open>LIST_ITEM\<close> with the length of its captured indent, \<^verbatim>\<open>LIST_PREFIX\<close> with the length of its match.\<close>

definition LIST_ITEM :: "jsstring \<Rightarrow> nat option" where
  "LIST_ITEM t =
     (let i = leadingWhitespace t in
      case item_marker (drop i t) of
        None \<Rightarrow> None
      | Some m \<Rightarrow> if i + m < length t \<and> is_js_space (t ! (i + m)) then Some i else None)"

definition LIST_PREFIX :: "jsstring \<Rightarrow> nat option" where
  "LIST_PREFIX t =
     (let i = leadingWhitespace t in
      case item_marker (drop i t) of
        None \<Rightarrow> None
      | Some m \<Rightarrow>
          let w = leadingWhitespace (drop (i + m) t) in if 0 < w then Some (i + m + w) else None)"

record ordered_item =
  oi_number :: nat
  oi_delimiter :: nat
  oi_spaces :: jsstring
  oi_content :: jsstring

definition ORDERED_ITEM :: "jsstring \<Rightarrow> ordered_item option" where
  "ORDERED_ITEM t =
     (let rest = drop (leadingWhitespace t) t;
          digits = takeWhile is_digit rest;
          tail = drop (length digits) rest
      in if digits \<noteq> [] \<and> tail \<noteq> [] \<and> is_delimiter (hd tail) then
           let spaces = takeWhile is_js_space (tl tail); content = dropWhile is_js_space (tl tail) in
           if spaces \<noteq> [] \<and> \<not> (\<exists>c \<in> set content. is_line_terminator c)
           then Some \<lparr>oi_number = digits_value digits, oi_delimiter = hd tail, oi_spaces = spaces, oi_content = content\<rparr>
           else None
         else None)"

section \<open>The document\<close>

type_synonym document = "jsstring list"

definition doc_line :: "document \<Rightarrow> nat \<Rightarrow> jsstring" where
  "doc_line doc n = doc ! (n - 1)"

definition line_from :: "document \<Rightarrow> nat \<Rightarrow> nat" where
  "line_from doc n = sum_list (map (\<lambda>l. length l + 1) (take (n - 1) doc))"

definition selectedLineNumbers :: "(nat \<times> nat) list \<Rightarrow> nat list" where
  "selectedLineNumbers ranges = sort (remdups (concat (map (\<lambda>(first, last). [first..<last + 1]) ranges)))"

text \<open>The lines before a line, nearest first, up to the first blank one.\<close>

definition previousListLines :: "document \<Rightarrow> nat \<Rightarrow> (jsstring \<times> nat) list" where
  "previousListLines doc n =
     map (\<lambda>t. (t, leadingWhitespace t)) (takeWhile (\<lambda>t. trim t \<noteq> []) (rev (take (n - 1) doc)))"

fun next_number :: "(jsstring \<times> nat) list \<Rightarrow> nat \<Rightarrow> nat" where
  "next_number [] indent = 1"
| "next_number ((t, prev_indent) # ps) indent =
     (if prev_indent < indent then 1
      else if prev_indent = indent then (case ORDERED_ITEM t of Some ordered \<Rightarrow> oi_number ordered + 1 | None \<Rightarrow> 1)
      else next_number ps indent)"

definition nextOrderedNumber :: "document \<Rightarrow> nat \<Rightarrow> nat \<Rightarrow> nat" where
  "nextOrderedNumber doc lineNumber indent = next_number (previousListLines doc lineNumber) indent"

definition reindented :: "document \<Rightarrow> nat \<Rightarrow> jsstring \<Rightarrow> nat \<Rightarrow> jsstring" where
  "reindented doc lineNumber t indent =
     (case ORDERED_ITEM t of
        Some ordered \<Rightarrow>
          replicate indent 0x20 @ nat_digits (nextOrderedNumber doc lineNumber indent) @ [oi_delimiter ordered] @
          oi_spaces ordered @ oi_content ordered
      | None \<Rightarrow> replicate indent 0x20 @ drop (leadingWhitespace t) t)"

section \<open>The commands\<close>

record line_change =
  lc_from :: nat
  lc_to :: nat
  lc_insert :: jsstring

definition line_change :: "document \<Rightarrow> nat \<Rightarrow> jsstring \<Rightarrow> line_change" where
  "line_change doc n new =
     \<lparr>lc_from = line_from doc n, lc_to = line_from doc n + length (doc_line doc n), lc_insert = new\<rparr>"

fun sink_target :: "(jsstring \<times> nat) list \<Rightarrow> nat \<Rightarrow> nat" where
  "sink_target [] indent = indent + 2"
| "sink_target ((t, prev_indent) # ps) indent =
     (if prev_indent > indent then sink_target ps indent
      else case LIST_PREFIX t of Some n \<Rightarrow> n | None \<Rightarrow> indent + 2)"

fun lift_target :: "(jsstring \<times> nat) list \<Rightarrow> nat \<Rightarrow> nat" where
  "lift_target [] indent = 0"
| "lift_target ((t, prev_indent) # ps) indent =
     (if prev_indent < indent then (if LIST_ITEM t \<noteq> None then prev_indent else 0) else lift_target ps indent)"

fun sink_changes :: "document \<Rightarrow> nat list \<Rightarrow> (nat \<times> jsstring) list option" where
  "sink_changes doc [] = Some []"
| "sink_changes doc (n # ns) =
     (case LIST_ITEM (doc_line doc n) of
        None \<Rightarrow> None
      | Some indent \<Rightarrow>
          let target = sink_target (previousListLines doc n) indent in
          map_option (\<lambda>cs. if target > indent then (n, reindented doc n (doc_line doc n) target) # cs else cs)
            (sink_changes doc ns))"

fun lift_changes :: "document \<Rightarrow> nat list \<Rightarrow> (nat \<times> jsstring) list option" where
  "lift_changes doc [] = Some []"
| "lift_changes doc (n # ns) =
     (case LIST_ITEM (doc_line doc n) of
        None \<Rightarrow> None
      | Some indent \<Rightarrow>
          if indent = 0 then None
          else
            let target = lift_target (previousListLines doc n) indent in
            map_option (Cons (n, reindented doc n (doc_line doc n) target)) (lift_changes doc ns))"

definition dispatched :: "document \<Rightarrow> (nat \<times> jsstring) list option \<Rightarrow> line_change list option" where
  "dispatched doc changes =
     (case changes of None \<Rightarrow> None | Some cs \<Rightarrow> if cs = [] then None else Some (map (\<lambda>(n, new). line_change doc n new) cs))"

definition sinkListItem :: "document \<Rightarrow> (nat \<times> nat) list \<Rightarrow> line_change list option" where
  "sinkListItem doc ranges = dispatched doc (sink_changes doc (selectedLineNumbers ranges))"

definition liftListItem :: "document \<Rightarrow> (nat \<times> nat) list \<Rightarrow> line_change list option" where
  "liftListItem doc ranges = dispatched doc (lift_changes doc (selectedLineNumbers ranges))"

section \<open>Reindenting keeps the item\<close>

definition same_item :: "jsstring \<Rightarrow> jsstring \<Rightarrow> bool" where
  "same_item t t' \<longleftrightarrow>
     (case ORDERED_ITEM t of
        Some ordered \<Rightarrow> (\<exists>number. ORDERED_ITEM t' = Some (ordered\<lparr>oi_number := number\<rparr>))
      | None \<Rightarrow> drop (leadingWhitespace t') t' = drop (leadingWhitespace t) t)"

lemma space_not_digit: "is_js_space c \<Longrightarrow> \<not> is_digit c"
  by (auto simp: is_js_space_def is_digit_def)

lemma delimiter_class: "is_delimiter c \<Longrightarrow> \<not> is_digit c \<and> \<not> is_js_space c \<and> \<not> is_bullet c"
  by (auto simp: is_delimiter_def is_digit_def is_js_space_def is_bullet_def)

lemma is_js_space_blank: "is_js_space 0x20"
  by (simp add: is_js_space_def)

lemma leading_spaces: "leadingWhitespace (replicate k 0x20 @ t) = k + leadingWhitespace t"
  by (induction k) (simp_all add: leadingWhitespace_def is_js_space_blank)

lemma leading_drop: "leadingWhitespace (drop (leadingWhitespace t) t) = 0"
proof -
  have "drop (leadingWhitespace t) t = dropWhile is_js_space t"
    by (simp add: leadingWhitespace_def dropWhile_eq_drop)
  then show ?thesis by (cases "dropWhile is_js_space t") (auto simp: leadingWhitespace_def dropWhile_eq_Cons_conv)
qed

lemma leading_digits: "leadingWhitespace (nat_digits n @ t) = 0"
proof -
  have "is_digit (hd (nat_digits n))" using nat_digits_digit [of "hd (nat_digits n)" n] by simp
  then show ?thesis by (cases "nat_digits n") (auto simp: leadingWhitespace_def dest: space_not_digit)
qed

lemma take_digits: "\<not> is_digit d \<Longrightarrow> takeWhile is_digit (nat_digits n @ d # r) = nat_digits n"
  using nat_digits_digit by (subst takeWhile_append2) auto

lemma ordered_parts:
  assumes "ORDERED_ITEM t = Some ordered"
  shows "is_delimiter (oi_delimiter ordered) \<and> oi_spaces ordered \<noteq> [] \<and> (\<forall>c \<in> set (oi_spaces ordered). is_js_space c) \<and>
    takeWhile is_js_space (oi_spaces ordered @ oi_content ordered) = oi_spaces ordered \<and>
    dropWhile is_js_space (oi_spaces ordered @ oi_content ordered) = oi_content ordered \<and>
    \<not> (\<exists>c \<in> set (oi_content ordered). is_line_terminator c)"
proof -
  define rest where "rest = drop (leadingWhitespace t) t"
  define tail where "tail = drop (length (takeWhile is_digit rest)) rest"
  have o: "is_delimiter (hd tail)" "takeWhile is_js_space (tl tail) \<noteq> []"
      "\<not> (\<exists>c \<in> set (dropWhile is_js_space (tl tail)). is_line_terminator c)"
      "ordered = \<lparr>oi_number = digits_value (takeWhile is_digit rest), oi_delimiter = hd tail,
        oi_spaces = takeWhile is_js_space (tl tail), oi_content = dropWhile is_js_space (tl tail)\<rparr>"
    using assms by (auto simp: ORDERED_ITEM_def Let_def rest_def tail_def split: if_splits)
  then show ?thesis by (auto dest: set_takeWhileD)
qed

text \<open>The text of an ordered item reads as one.\<close>

lemma ordered_text:
  assumes "is_delimiter d" "sp \<noteq> []" "takeWhile is_js_space (sp @ content) = sp" "dropWhile is_js_space (sp @ content) = content"
    "\<not> (\<exists>c \<in> set content. is_line_terminator c)"
  shows "ORDERED_ITEM (replicate k 0x20 @ nat_digits n @ [d] @ sp @ content) =
      Some \<lparr>oi_number = n, oi_delimiter = d, oi_spaces = sp, oi_content = content\<rparr>"
    and "LIST_ITEM (replicate k 0x20 @ nat_digits n @ [d] @ sp @ content) = Some k"
proof -
  let ?t = "replicate k 0x20 @ nat_digits n @ [d] @ sp @ content"
  note d = delimiter_class [OF assms(1)]
  have l: "leadingWhitespace ?t = k" by (simp add: leading_spaces leading_digits)
  have td: "takeWhile is_digit (nat_digits n @ [d] @ sp @ content) = nat_digits n"
    using take_digits [of d n "sp @ content"] d by simp
  show "ORDERED_ITEM ?t = Some \<lparr>oi_number = n, oi_delimiter = d, oi_spaces = sp, oi_content = content\<rparr>"
    unfolding ORDERED_ITEM_def l Let_def using td assms by (simp add: digits_value_nat_digits)
  have "is_digit (hd (nat_digits n))" using nat_digits_digit [of "hd (nat_digits n)" n] by simp
  then have nb: "\<not> is_bullet (hd (nat_digits n))" by (auto simp: is_digit_def is_bullet_def)
  have m: "item_marker (nat_digits n @ [d] @ sp @ content) = Some (length (nat_digits n) + 1)"
    unfolding item_marker_def td Let_def using nb assms(1) by (simp add: nth_append)
  obtain x xs where sp: "sp = x # xs" using assms(2) by (cases sp) auto
  then have "is_js_space x" using assms(3) by (auto split: if_splits)
  then show "LIST_ITEM ?t = Some k"
    unfolding LIST_ITEM_def l Let_def using m by (simp add: sp nth_append)
qed

lemma reindented_item:
  assumes "LIST_ITEM t = Some i"
  shows "LIST_ITEM (reindented doc n t k) = Some k \<and> same_item t (reindented doc n t k)"
proof (cases "ORDERED_ITEM t")
  case (Some ordered)
  note p = ordered_parts [OF Some]
  have r: "reindented doc n t k = replicate k 0x20 @ nat_digits (nextOrderedNumber doc n k) @ [oi_delimiter ordered] @
      oi_spaces ordered @ oi_content ordered"
    by (simp add: reindented_def Some)
  note T = ordered_text [of "oi_delimiter ordered" "oi_spaces ordered" "oi_content ordered" k "nextOrderedNumber doc n k"]
  show ?thesis
    unfolding same_item_def Some option.case r using T p by (cases ordered) auto
next
  case None
  define b where "b = drop (leadingWhitespace t) t"
  have r: "reindented doc n t k = replicate k 0x20 @ b" by (simp add: reindented_def None b_def)
  have l: "leadingWhitespace (replicate k 0x20 @ b) = k" by (simp add: leading_spaces b_def leading_drop)
  obtain m where m: "item_marker b = Some m" "i + m < length t" "is_js_space (t ! (i + m))" "i = leadingWhitespace t"
    using assms by (auto simp: LIST_ITEM_def Let_def b_def split: option.splits if_splits)
  then have "m < length b" "is_js_space (b ! m)" by (auto simp: b_def nth_drop)
  then have "LIST_ITEM (replicate k 0x20 @ b) = Some k"
    unfolding LIST_ITEM_def l Let_def using m(1) by (simp add: nth_append)
  then show ?thesis unfolding same_item_def None option.case r l by (simp add: b_def)
qed

section \<open>The commands change indents only\<close>

lemma sink_changes_items:
  "sink_changes doc ns = Some cs \<Longrightarrow> (n, new) \<in> set cs \<Longrightarrow>
   n \<in> set ns \<and> (\<exists>i k. LIST_ITEM (doc_line doc n) = Some i \<and> LIST_ITEM new = Some k \<and> i < k \<and>
     k = sink_target (previousListLines doc n) i \<and> same_item (doc_line doc n) new)"
proof (induction ns arbitrary: cs)
  case (Cons m ns)
  then obtain i cs' where m: "LIST_ITEM (doc_line doc m) = Some i" "sink_changes doc ns = Some cs'"
    by (auto simp: Let_def split: option.splits)
  then show ?case
    using Cons.prems Cons.IH [OF m(2)] reindented_item [OF m(1), of doc m]
    by (auto simp: Let_def split: if_splits)
qed simp

lemma lift_target_le: "0 < indent \<Longrightarrow> lift_target ps indent < indent"
  by (induction ps indent rule: lift_target.induct) auto

lemma lift_changes_items:
  "lift_changes doc ns = Some cs \<Longrightarrow> (n, new) \<in> set cs \<Longrightarrow>
   n \<in> set ns \<and> (\<exists>i k. LIST_ITEM (doc_line doc n) = Some i \<and> LIST_ITEM new = Some k \<and> k < i \<and>
     k = lift_target (previousListLines doc n) i \<and> same_item (doc_line doc n) new)"
proof (induction ns arbitrary: cs)
  case (Cons m ns)
  then obtain i cs' where m: "LIST_ITEM (doc_line doc m) = Some i" "0 < i" "lift_changes doc ns = Some cs'"
    by (auto simp: Let_def split: option.splits if_splits)
  then show ?case
    using Cons.prems Cons.IH [OF m(3)] reindented_item [OF m(1), of doc m] lift_target_le [OF m(2)]
    by (auto simp: Let_def)
qed simp

section \<open>The dispatched changes\<close>

lemma selected_sorted: "sorted_wrt (<) (selectedLineNumbers ranges)"
  by (simp add: selectedLineNumbers_def strict_sorted_iff)

lemma selected_bounds:
  assumes "list_all (\<lambda>(first, last). 1 \<le> first \<and> last \<le> length doc) ranges" "n \<in> set (selectedLineNumbers ranges)"
  shows "1 \<le> n \<and> n \<le> length doc"
  using assms by (fastforce simp: selectedLineNumbers_def list_all_iff)

lemma sink_changes_sorted:
  "sink_changes doc ns = Some cs \<Longrightarrow> sorted_wrt (<) ns \<Longrightarrow> sorted_wrt (\<lambda>c d. fst c < fst d) cs"
proof (induction ns arbitrary: cs)
  case (Cons m ns)
  then obtain i cs' where m: "LIST_ITEM (doc_line doc m) = Some i" "sink_changes doc ns = Some cs'"
    by (auto simp: Let_def split: option.splits)
  then show ?case
    using Cons.prems Cons.IH [OF m(2)] sink_changes_items [OF m(2)]
    by (auto simp: Let_def split: if_splits)
qed simp

lemma lift_changes_sorted:
  "lift_changes doc ns = Some cs \<Longrightarrow> sorted_wrt (<) ns \<Longrightarrow> sorted_wrt (\<lambda>c d. fst c < fst d) cs"
proof (induction ns arbitrary: cs)
  case (Cons m ns)
  then obtain i cs' where m: "LIST_ITEM (doc_line doc m) = Some i" "lift_changes doc ns = Some cs'"
    by (auto simp: Let_def split: option.splits if_splits)
  then show ?case
    using Cons.prems Cons.IH [OF m(2)] lift_changes_items [OF m(2)]
    by (auto simp: Let_def split: if_splits)
qed simp

lemma line_from_Suc: "1 \<le> n \<Longrightarrow> n \<le> length doc \<Longrightarrow> line_from doc (Suc n) = line_from doc n + length (doc_line doc n) + 1"
  using take_Suc_conv_app_nth [of "n - 1" doc] by (simp add: line_from_def doc_line_def)

lemma line_from_mono: "n \<le> m \<Longrightarrow> line_from doc n \<le> line_from doc m"
  using take_add [of "n - 1" "m - n" doc] by (cases n) (auto simp: line_from_def)

lemma lines_apart:
  assumes "1 \<le> n" "n \<le> length doc" "n < m"
  shows "lc_to (line_change doc n new) < lc_from (line_change doc m new')"
  using line_from_Suc [OF assms(1,2)] line_from_mono [of "Suc n" m doc] assms(3) by (simp add: line_change_def)

text \<open>
  \<open>reindents\<close> is what a command promises: its changes are in document order and apart, and each rewrites one
  whole selected list line into the same item at a deeper or shallower indent.
\<close>

definition reindents :: "(nat \<Rightarrow> nat \<Rightarrow> bool) \<Rightarrow> document \<Rightarrow> nat list \<Rightarrow> line_change list \<Rightarrow> bool" where
  "reindents moved doc ns cs \<longleftrightarrow>
     cs \<noteq> [] \<and> sorted_wrt (\<lambda>c d. lc_to c < lc_from d) cs \<and>
     (\<forall>c \<in> set cs. \<exists>n \<in> set ns. \<exists>i k.
        c = line_change doc n (lc_insert c) \<and> LIST_ITEM (doc_line doc n) = Some i \<and> LIST_ITEM (lc_insert c) = Some k \<and>
        moved i k \<and> same_item (doc_line doc n) (lc_insert c))"

lemma dispatched_reindents:
  assumes "dispatched doc changes = Some cs" "list_all (\<lambda>(first, last). 1 \<le> first \<and> last \<le> length doc) ranges"
    and sorted: "\<And>xs. changes = Some xs \<Longrightarrow> sorted_wrt (\<lambda>c d. fst c < fst d) xs"
    and items: "\<And>xs n new. changes = Some xs \<Longrightarrow> (n, new) \<in> set xs \<Longrightarrow> n \<in> set (selectedLineNumbers ranges) \<and>
      (\<exists>i k. LIST_ITEM (doc_line doc n) = Some i \<and> LIST_ITEM new = Some k \<and> moved i k \<and> same_item (doc_line doc n) new)"
  shows "reindents moved doc (selectedLineNumbers ranges) cs"
proof -
  obtain xs where xs: "changes = Some xs" "xs \<noteq> []" "cs = map (\<lambda>(n, new). line_change doc n new) xs"
    using assms(1) by (auto simp: dispatched_def split: option.splits if_splits)
  have bounds: "1 \<le> n \<and> n \<le> length doc" if "(n, new) \<in> set xs" for n new
    using selected_bounds [OF assms(2)] items [OF xs(1) that] by blast
  have "sorted_wrt (\<lambda>c d. lc_to (line_change doc (fst c) (snd c)) < lc_from (line_change doc (fst d) (snd d))) xs"
    using sorted [OF xs(1)] by (rule sorted_wrt_mono_rel [rotated]) (use bounds lines_apart in fastforce)
  then have "sorted_wrt (\<lambda>c d. lc_to c < lc_from d) cs"
    by (simp add: xs(3) sorted_wrt_map case_prod_beta)
  moreover have "\<exists>n \<in> set (selectedLineNumbers ranges). \<exists>i k.
      c = line_change doc n (lc_insert c) \<and> LIST_ITEM (doc_line doc n) = Some i \<and> LIST_ITEM (lc_insert c) = Some k \<and>
      moved i k \<and> same_item (doc_line doc n) (lc_insert c)" if c: "c \<in> set cs" for c
  proof -
    obtain n new where "(n, new) \<in> set xs" "c = line_change doc n new"
      using c unfolding xs(3) by fastforce
    then show ?thesis using items [OF xs(1)] by (force simp: line_change_def)
  qed
  ultimately show ?thesis using xs by (simp add: reindents_def)
qed

text \<open>
  C28. Tab and Shift-Tab on list items. When a command dispatches changes, they are in document order and do not
  overlap; each rewrites one whole line of the selection, which is a list item, into the same item (the same text
  after the indent, for an ordered item the same delimiter, spacing and content under a recomputed number) at a
  strictly deeper indent for Tab and a strictly shallower one for Shift-Tab.
\<close>

theorem list_commands_keep_items:
  assumes "list_all (\<lambda>(first, last). 1 \<le> first \<and> last \<le> length doc) ranges"
  shows "(\<forall>cs. sinkListItem doc ranges = Some cs \<longrightarrow> reindents (\<lambda>i k. i < k) doc (selectedLineNumbers ranges) cs) \<and>
    (\<forall>cs. liftListItem doc ranges = Some cs \<longrightarrow> reindents (\<lambda>i k. k < i) doc (selectedLineNumbers ranges) cs)"
proof (intro conjI allI impI)
  fix cs
  assume "sinkListItem doc ranges = Some cs"
  then show "reindents (\<lambda>i k. i < k) doc (selectedLineNumbers ranges) cs"
    unfolding sinkListItem_def
    by (rule dispatched_reindents) (use assms sink_changes_sorted selected_sorted sink_changes_items in blast)+
next
  fix cs
  assume "liftListItem doc ranges = Some cs"
  then show "reindents (\<lambda>i k. k < i) doc (selectedLineNumbers ranges) cs"
    unfolding liftListItem_def
    by (rule dispatched_reindents) (use assms lift_changes_sorted selected_sorted lift_changes_items in blast)+
qed

text \<open>
  A list of three items under each other, the last two selected, and the same list nested.
\<close>

definition sample_lists :: "document \<times> document" where
  "sample_lists =
     ([[0x31, 0x2e, 0x20, 0x61], [0x31, 0x2e, 0x20, 0x62], [0x2d, 0x20, 0x63]],
      [[0x2d, 0x20, 0x61], [0x20, 0x20, 0x31, 0x2e, 0x20, 0x62], [0x20, 0x20, 0x2d, 0x20, 0x63]])"

lemmas evaluate_lists = selectedLineNumbers_def sinkListItem_def liftListItem_def dispatched_def Let_def doc_line_def
  LIST_ITEM_def LIST_PREFIX_def ORDERED_ITEM_def item_marker_def leadingWhitespace_def is_js_space_def is_digit_def is_bullet_def is_delimiter_def
  is_line_terminator_def previousListLines_def nextOrderedNumber_def reindented_def trim_def trim_start_def trim_end_def
  upt_rec sample_lists_def line_change_def line_from_def digits_value_def nat_digits.simps

lemma sample_sinks: "sinkListItem (fst sample_lists) [(2, 3)] \<noteq> None"
  by (simp add: evaluate_lists)

lemma sample_lifts: "liftListItem (snd sample_lists) [(2, 3)] \<noteq> None"
  by (simp add: evaluate_lists)

theorem list_commands_keep_items_witness:
  "reindents (\<lambda>i k. i < k) (fst sample_lists) [2, 3] (the (sinkListItem (fst sample_lists) [(2, 3)])) \<and>
   reindents (\<lambda>i k. k < i) (snd sample_lists) [2, 3] (the (liftListItem (snd sample_lists) [(2, 3)]))"
proof -
  have l: "selectedLineNumbers [(2, 3)] = [2, 3]" by code_simp
  show ?thesis
    using list_commands_keep_items [of "fst sample_lists" "[(2, 3)]"] list_commands_keep_items [of "snd sample_lists" "[(2, 3)]"]
      sample_sinks sample_lifts
    unfolding l by (auto simp: sample_lists_def)
qed

section \<open>Selected siblings\<close>

text \<open>
  The numbers are computed in the unchanged document: two sibling ordered items that Tab nests together both
  become item 1.
\<close>

lemma nested_siblings_share_a_number:
  "sinkListItem [[0x31, 0x2e, 0x20, 0x61], [0x32, 0x2e, 0x20, 0x62], [0x33, 0x2e, 0x20, 0x63]] [(2, 3)] =
     Some [\<lparr>lc_from = 5, lc_to = 9, lc_insert = [0x20, 0x20, 0x20, 0x31, 0x2e, 0x20, 0x62]\<rparr>,
           \<lparr>lc_from = 10, lc_to = 14, lc_insert = [0x20, 0x20, 0x20, 0x31, 0x2e, 0x20, 0x63]\<rparr>]"
  by (simp add: evaluate_lists)

end
