(* ===== verification/Formatting.thy ===== *)
theory Formatting
  imports EditorState ListIndent RichText
begin

text \<open>
  The formatting commands on the selection (\<^verbatim>\<open>components/MemoEditor/Editor/formatting.ts\<close>): each command gives
  the transaction it dispatches, or \<open>None\<close> when it dispatches nothing. CodeMirror's part is an argument or a
  plain reading of its documented interface: the document is the list of its lines, the syntax tree is the
  function \<open>resolve\<close> that gives the node at a position and side with its ancestors, innermost first.
\<close>

section \<open>The editor view\<close>

record sel_range =
  sr_anchor :: nat
  sr_head :: nat

definition sr_from :: "sel_range \<Rightarrow> nat" where "sr_from r = min (sr_anchor r) (sr_head r)"
definition sr_to :: "sel_range \<Rightarrow> nat" where "sr_to r = max (sr_anchor r) (sr_head r)"

record editor_view =
  ev_doc :: document
  ev_ranges :: "sel_range list"
  ev_main :: nat

definition main_range :: "editor_view \<Rightarrow> sel_range" where "main_range view = ev_ranges view ! ev_main view"

definition doc_text :: "document \<Rightarrow> jsstring" where "doc_text doc = join_with [0x0a] doc"

abbreviation view_text :: "editor_view \<Rightarrow> jsstring" where "view_text view \<equiv> doc_text (ev_doc view)"

text \<open>\<^verbatim>\<open>doc.lineAt(pos).number\<close> and the end of a line.\<close>

fun lineAt :: "document \<Rightarrow> nat \<Rightarrow> nat" where
  "lineAt [] pos = 1"
| "lineAt (l # ls) pos = (if pos \<le> length l \<or> ls = [] then 1 else Suc (lineAt ls (pos - length l - 1)))"

definition line_to :: "document \<Rightarrow> nat \<Rightarrow> nat" where "line_to doc n = line_from doc n + length (doc_line doc n)"

definition selected_lines :: "editor_view \<Rightarrow> nat list" where
  "selected_lines view =
     selectedLineNumbers (map (\<lambda>r. (lineAt (ev_doc view) (sr_from r), lineAt (ev_doc view) (sr_to r))) (ev_ranges view))"

text \<open>A transaction: its changes (positions of the document before it) and what becomes of the selection.\<close>

type_synonym change = line_change

abbreviation change :: "nat \<Rightarrow> nat \<Rightarrow> jsstring \<Rightarrow> change" where
  "change p q new \<equiv> \<lparr>lc_from = p, lc_to = q, lc_insert = new\<rparr>"

datatype new_selection = selection_kept | selection_at nat nat | selection_mapped int

record transaction =
  tr_changes :: "change list"
  tr_selection :: new_selection

section \<open>Nodes of the syntax tree\<close>

datatype syntax_node = Syntax_Node (sn_name: string) (sn_from: nat) (sn_to: nat) (sn_children: "syntax_node list")

type_synonym resolver = "nat \<Rightarrow> int \<Rightarrow> syntax_node list"

record mark =
  mk_token :: jsstring
  mk_wrapper :: string
  mk_delimiter :: string

fun MARKS :: "EditorCommandId \<Rightarrow> mark option" where
  "MARKS bold = Some \<lparr>mk_token = js ''**'', mk_wrapper = ''StrongEmphasis'', mk_delimiter = ''EmphasisMark''\<rparr>"
| "MARKS italic = Some \<lparr>mk_token = js ''*'', mk_wrapper = ''Emphasis'', mk_delimiter = ''EmphasisMark''\<rparr>"
| "MARKS strikethrough = Some \<lparr>mk_token = js ''~~'', mk_wrapper = ''Strikethrough'', mk_delimiter = ''StrikethroughMark''\<rparr>"
| "MARKS code = Some \<lparr>mk_token = js ''`'', mk_wrapper = ''InlineCode'', mk_delimiter = ''CodeMark''\<rparr>"
| "MARKS _ = None"

definition MARK_COMMANDS :: "EditorCommandId list" where "MARK_COMMANDS = [bold, italic, strikethrough, code]"

definition marks :: "mark list" where "marks = map (\<lambda>c. the (MARKS c)) MARK_COMMANDS"

definition isMarkCommand :: "EditorCommandId \<Rightarrow> bool" where "isMarkCommand command \<longleftrightarrow> MARKS command \<noteq> None"

definition WRAPPER_TO_MARK :: "string \<Rightarrow> EditorCommandId option" where
  "WRAPPER_TO_MARK = map_of (map (\<lambda>c. (mk_wrapper (the (MARKS c)), c)) MARK_COMMANDS)"

definition DELIMITER_NODES :: "string set" where "DELIMITER_NODES = set (map mk_delimiter marks)"

definition EMPTY_MARK_PAIRS :: "jsstring set" where "EMPTY_MARK_PAIRS = set (map (\<lambda>m. mk_token m @ mk_token m) marks)"

definition MAX_EMPTY_PAIR_LENGTH :: nat where
  "MAX_EMPTY_PAIR_LENGTH = fold max (map (\<lambda>m. 2 * length (mk_token m)) marks) 0"

definition isEmptyMarkPair :: "jsstring \<Rightarrow> nat \<Rightarrow> nat \<Rightarrow> bool" where
  "isEmptyMarkPair doc p q \<longleftrightarrow> q - p \<le> MAX_EMPTY_PAIR_LENGTH \<and> Prelude.slice doc p q \<in> EMPTY_MARK_PAIRS"

definition childRanges :: "syntax_node \<Rightarrow> string \<Rightarrow> (nat \<times> nat) list" where
  "childRanges node name = map (\<lambda>c. (sn_from c, sn_to c)) (filter (\<lambda>c. sn_name c = name) (sn_children node))"

definition wrapped_delimiters :: "syntax_node list \<Rightarrow> string \<Rightarrow> string \<Rightarrow> nat \<Rightarrow> (nat \<times> nat) list option" where
  "wrapped_delimiters path wrapper delimiter minMarks =
     map_option (\<lambda>n. childRanges n delimiter)
       (find (\<lambda>n. sn_name n = wrapper \<and> length (childRanges n delimiter) \<ge> minMarks) path)"

fun first_marks :: "(nat \<times> nat) list option list \<Rightarrow> (nat \<times> nat) list option" where
  "first_marks [] = None"
| "first_marks (Some ms # rest) = Some ms"
| "first_marks (None # rest) = first_marks rest"

definition findWrappedDelimiters :: "resolver \<Rightarrow> sel_range \<Rightarrow> string \<Rightarrow> string \<Rightarrow> nat \<Rightarrow> (nat \<times> nat) list option" where
  "findWrappedDelimiters resolve r wrapper delimiter minMarks =
     (let probes = (if sr_from r = sr_to r then [(sr_head r, - 1)] else [(sr_head r, - 1), (sr_from r, 1), (sr_to r, - 1)]) in
      first_marks (map (\<lambda>(pos, side). wrapped_delimiters (resolve pos side) wrapper delimiter minMarks) probes))"

section \<open>Inline marks and code blocks\<close>

definition wrapInlineSelection :: "editor_view \<Rightarrow> jsstring \<Rightarrow> jsstring \<Rightarrow> transaction" where
  "wrapInlineSelection view openingMarker closingMarker =
     (let p = sr_from (main_range view); q = sr_to (main_range view); selected = Prelude.slice (view_text view) p q in
      \<lparr>tr_changes = [change p q (openingMarker @ selected @ closingMarker)],
       tr_selection = selection_at (p + length openingMarker) (p + length openingMarker + length selected)\<rparr>)"

definition wrapSelection :: "editor_view \<Rightarrow> jsstring \<Rightarrow> transaction" where
  "wrapSelection view token =
     (let p = sr_from (main_range view); q = sr_to (main_range view); sel = Prelude.slice (view_text view) p q in
      \<lparr>tr_changes = [change p q (token @ sel @ token)],
       tr_selection = selection_at (p + length token) (p + length token + length sel)\<rparr>)"

text \<open>Does the node at a position belong to markup that reaches beyond a deletion?\<close>

definition blocking :: "nat \<Rightarrow> nat \<Rightarrow> syntax_node list \<Rightarrow> bool" where
  "blocking delFrom delTo path =
     (case path of
        [] \<Rightarrow> False
      | n # parents \<Rightarrow>
          sn_name n \<in> DELIMITER_NODES \<and>
          (let construct = (case parents of [] \<Rightarrow> n | p # _ \<Rightarrow> p) in sn_from construct < delFrom \<or> sn_to construct > delTo))"

definition toggleMark :: "resolver \<Rightarrow> editor_view \<Rightarrow> mark \<Rightarrow> transaction" where
  "toggleMark resolve view m =
     (let r = main_range view; p = sr_from r; q = sr_to r; token = mk_token m; k = length token; doc = view_text view in
      case findWrappedDelimiters resolve r (mk_wrapper m) (mk_delimiter m) 2 of
        Some ms \<Rightarrow>
          \<lparr>tr_changes = [change (fst (last ms)) (snd (last ms)) [], change (fst (hd ms)) (snd (hd ms)) []],
           tr_selection = selection_kept\<rparr>
      | None \<Rightarrow>
          if p = q \<and> p \<ge> k \<and> q + k \<le> length doc \<and> Prelude.slice doc (p - k) (q + k) = token @ token \<and>
             \<not> blocking (p - k) (q + k) (resolve p (- 1)) \<and> \<not> blocking (p - k) (q + k) (resolve q 1)
          then \<lparr>tr_changes = [change (p - k) p [], change q (q + k) []], tr_selection = selection_kept\<rparr>
          else wrapSelection view token)"

definition toggleCodeBlock :: "resolver \<Rightarrow> editor_view \<Rightarrow> transaction" where
  "toggleCodeBlock resolve view =
     (let r = main_range view; doc = ev_doc view; len = length (view_text view) in
      case findWrappedDelimiters resolve r ''FencedCode'' ''CodeMark'' 1 of
        Some ms \<Rightarrow>
          let openLine = lineAt doc (fst (hd ms));
              openEnd = min (line_to doc openLine + 1) len;
              closeLine = lineAt doc (fst (last ms));
              closeIsLastLine = (line_to doc closeLine = len);
              closeTo = (if closeIsLastLine then line_to doc closeLine else line_to doc closeLine + 1);
              closeFrom = (if closeIsLastLine \<and> int (line_from doc closeLine) - 1 \<ge> int openEnd
                           then line_from doc closeLine - 1 else line_from doc closeLine)
          in \<lparr>tr_changes = change (line_from doc openLine) openEnd [] #
                (if length ms \<ge> 2 then [change closeFrom closeTo []] else []),
              tr_selection = selection_mapped (- 1)\<rparr>
      | None \<Rightarrow>
          let ns = selected_lines view; fence = js ''```'';
              first = line_from doc (hd ns); last = line_to doc (last ns)
          in \<lparr>tr_changes = [change first first (fence @ [0x0a]), change last last (0x0a # fence)],
              tr_selection = selection_at (sr_from r + length fence + 1) (sr_to r + length fence + 1)\<rparr>)"

section \<open>Lists and headings\<close>

definition spaces_after :: "nat \<Rightarrow> jsstring \<Rightarrow> nat option" where
  "spaces_after i t = (let w = leadingWhitespace (drop i t) in if 0 < w then Some (i + w) else None)"

text \<open>\<^verbatim>\<open>BULLET_LINE\<close>, \<^verbatim>\<open>TASK_LINE\<close>, \<^verbatim>\<open>ORDERED_LINE\<close>: the captured indent and the length of the match.\<close>

definition BULLET_LINE :: "jsstring \<Rightarrow> (nat \<times> nat) option" where
  "BULLET_LINE t =
     (let i = leadingWhitespace t in
      if i < length t \<and> is_bullet (t ! i) then map_option (Pair i) (spaces_after (i + 1) t) else None)"

definition TASK_LINE :: "jsstring \<Rightarrow> (nat \<times> nat) option" where
  "TASK_LINE t =
     (case BULLET_LINE t of
        None \<Rightarrow> None
      | Some (i, j) \<Rightarrow>
          if j + 2 < length t \<and> t ! j = 0x5b \<and> t ! (j + 1) \<in> {0x20, 0x78, 0x58} \<and> t ! (j + 2) = 0x5d
          then map_option (Pair i) (spaces_after (j + 3) t) else None)"

definition ORDERED_LINE :: "jsstring \<Rightarrow> (nat \<times> nat) option" where
  "ORDERED_LINE t =
     (let i = leadingWhitespace t; d = length (takeWhile is_digit (drop i t)) in
      if 0 < d \<and> i + d < length t \<and> is_delimiter (t ! (i + d)) then map_option (Pair i) (spaces_after (i + d + 1) t) else None)"

text \<open>The hashes of a heading and where its text starts, after at most three spaces.\<close>

definition heading_hashes :: "jsstring \<Rightarrow> (nat \<times> nat) option" where
  "heading_hashes t =
     (let s = length (takeWhile (\<lambda>c. c = 0x20) t); h = length (takeWhile (\<lambda>c. c = 0x23) (drop s t)) in
      if s \<le> 3 \<and> 1 \<le> h \<and> h \<le> 6 then map_option (Pair h) (spaces_after (s + h) t) else None)"

definition HEADING_LINE :: "jsstring \<Rightarrow> nat option" where
  "HEADING_LINE t = map_option fst (heading_hashes t)"

definition HEADING_PREFIX :: "jsstring \<Rightarrow> nat" where
  "HEADING_PREFIX t =
     (case heading_hashes t of Some (_, n) \<Rightarrow> n | None \<Rightarrow> min 3 (length (takeWhile (\<lambda>c. c = 0x20) t)))"

record LineListInfo =
  li_mode :: "EditorCommandId option"
  li_indent :: nat
  li_markerEnd :: nat

definition lineListInfo :: "jsstring \<Rightarrow> LineListInfo" where
  "lineListInfo t =
     (case TASK_LINE t of
        Some (i, n) \<Rightarrow> \<lparr>li_mode = Some taskList, li_indent = i, li_markerEnd = n\<rparr>
      | None \<Rightarrow>
          (case BULLET_LINE t of
             Some (i, n) \<Rightarrow> \<lparr>li_mode = Some bulletList, li_indent = i, li_markerEnd = n\<rparr>
           | None \<Rightarrow>
               (case ORDERED_LINE t of
                  Some (i, n) \<Rightarrow> \<lparr>li_mode = Some orderedList, li_indent = i, li_markerEnd = n\<rparr>
                | None \<Rightarrow> \<lparr>li_mode = None, li_indent = leadingWhitespace t, li_markerEnd = leadingWhitespace t\<rparr>)))"

fun LIST_MARKERS :: "EditorCommandId \<Rightarrow> jsstring" where
  "LIST_MARKERS bulletList = js ''- ''"
| "LIST_MARKERS orderedList = js ''1. ''"
| "LIST_MARKERS taskList = js ''- [ ] ''"
| "LIST_MARKERS _ = []"

definition list_marker :: "EditorCommandId \<Rightarrow> nat \<Rightarrow> jsstring" where
  "list_marker command i = (if command = orderedList then nat_digits (i + 1) @ js ''. '' else LIST_MARKERS command)"

definition list_targets :: "document \<Rightarrow> nat list \<Rightarrow> nat list" where
  "list_targets doc lines =
     (let nonBlank = filter (\<lambda>n. trim (doc_line doc n) \<noteq> []) lines in
      if length lines = 1 \<or> nonBlank = [] then lines else nonBlank)"

text \<open>The change of a target line, the \<open>i\<close>-th of the targets.\<close>

definition list_edit :: "EditorCommandId \<Rightarrow> bool \<Rightarrow> nat \<Rightarrow> jsstring \<Rightarrow> (nat \<times> nat \<times> jsstring) option" where
  "list_edit command allOn i t =
     (let info = lineListInfo t in
      if allOn then Some (li_indent info, li_markerEnd info, [])
      else if li_mode info \<noteq> Some command then Some (li_indent info, li_markerEnd info, list_marker command i)
      else None)"

definition list_specs :: "document \<Rightarrow> EditorCommandId \<Rightarrow> nat list \<Rightarrow> change list" where
  "list_specs doc command targets =
     (let allOn = (\<forall>n \<in> set targets. li_mode (lineListInfo (doc_line doc n)) = Some command) in
      concat (map (\<lambda>(i, n). case list_edit command allOn i (doc_line doc n) of
          None \<Rightarrow> []
        | Some (p, q, new) \<Rightarrow> [change (line_from doc n + p) (line_from doc n + q) new]) (enumerate 0 targets)))"

definition toggleListLine :: "editor_view \<Rightarrow> EditorCommandId \<Rightarrow> transaction option" where
  "toggleListLine view command =
     (let specs = list_specs (ev_doc view) command (list_targets (ev_doc view) (selected_lines view)) in
      if specs = [] then None else Some \<lparr>tr_changes = specs, tr_selection = selection_mapped 1\<rparr>)"

definition setHeading :: "editor_view \<Rightarrow> nat \<Rightarrow> transaction" where
  "setHeading view level =
     (let doc = ev_doc view; n = lineAt doc (sr_head (main_range view)); existing = HEADING_PREFIX (doc_line doc n) in
      \<lparr>tr_changes = [change (line_from doc n) (line_from doc n + existing) (if level = 0 then [] else replicate level 0x23 @ [0x20])],
       tr_selection = selection_mapped 1\<rparr>)"

section \<open>Links\<close>

definition unwrapLink :: "resolver \<Rightarrow> editor_view \<Rightarrow> transaction option" where
  "unwrapLink resolve view =
     (let head = sr_head (main_range view) in
      map_option (\<lambda>n.
          let ms = childRanges n ''LinkMark'';
              label = Prelude.slice (view_text view) (snd (ms ! 0)) (fst (ms ! 1));
              anchor = sn_from n + nat (max 0 (min (int (length label)) (int head - int (snd (ms ! 0)))))
          in \<lparr>tr_changes = [change (sn_from n) (sn_to n) label], tr_selection = selection_at anchor anchor\<rparr>)
        (find (\<lambda>n. sn_name n = ''Link'' \<and> length (childRanges n ''LinkMark'') \<ge> 2) (resolve head (- 1))))"

section \<open>Marker wrappers\<close>

text \<open>The last field is the alignment, the colour or the size the marker names.\<close>

record 'a marker_wrapper =
  mw_openFrom :: nat
  mw_openTo :: nat
  mw_closeFrom :: nat
  mw_closeTo :: nat
  mw_value :: 'a

text \<open>\<^verbatim>\<open>candidates.sort((left, right) => right.openFrom - left.openFrom)[0] ?? null\<close>\<close>

definition innermost :: "'a marker_wrapper list \<Rightarrow> 'a marker_wrapper option" where
  "innermost candidates =
     (case sort_key (\<lambda>w. - int (mw_openFrom w)) candidates of [] \<Rightarrow> None | w # _ \<Rightarrow> Some w)"

text \<open>A line terminator ends a line for \<^verbatim>\<open>^\<close> and \<^verbatim>\<open>$\<close> under the flag \<^verbatim>\<open>m\<close>. \<open>read_align\<close> is the opening
  marker of an alignment at the start of a line, with its length; \<open>read_close\<close> the closing one.\<close>

definition at_line_end :: "jsstring \<Rightarrow> bool" where
  "at_line_end t \<longleftrightarrow> t = [] \<or> is_line_terminator (hd t)"

definition read_align :: "jsstring \<Rightarrow> (MemoTextAlignment \<times> nat) option" where
  "read_align t =
     Option.bind (read_word (js '':::align'') t) (\<lambda>u.
       let v = dropWhile is_blank_unit u;
           matched = (\<lambda>a w. let x = dropWhile is_blank_unit w in if at_line_end x then Some (a, length t - length x) else None)
       in if u \<noteq> [] \<and> is_blank_unit (hd u)
          then (case read_word (js ''center'') v of
                  Some w \<Rightarrow> matched align_center w
                | None \<Rightarrow> (case read_word (js ''right'') v of Some w \<Rightarrow> matched align_right w | None \<Rightarrow> None))
          else None)"

definition read_close :: "jsstring \<Rightarrow> nat option" where
  "read_close t =
     Option.bind (if starts_with t (js '':::'') then Some (drop 3 t) else None) (\<lambda>u.
       let x = dropWhile is_blank_unit u in if at_line_end x then Some (length t - length x) else None)"

text \<open>All matches of \<^verbatim>\<open>matchAll\<close> with their offsets, and the first match of \<^verbatim>\<open>exec\<close> from a position on.\<close>

function align_matches :: "nat \<Rightarrow> bool \<Rightarrow> jsstring \<Rightarrow> (nat \<times> nat \<times> MemoTextAlignment) list" where
  "align_matches off line_start [] = []"
| "align_matches off line_start (c # t) =
     (case (if line_start then read_align (c # t) else None) of
        Some (a, Suc n) \<Rightarrow> (off, off + Suc n, a) # align_matches (off + Suc n) False (drop n t)
      | _ \<Rightarrow> align_matches (off + 1) (is_line_terminator c) t)"
  by pat_completeness auto
termination by (relation "measure (\<lambda>(_, _, t). length t)") auto

fun close_match :: "nat \<Rightarrow> bool \<Rightarrow> jsstring \<Rightarrow> (nat \<times> nat) option" where
  "close_match off line_start [] = None"
| "close_match off line_start (c # t) =
     (case (if line_start then read_close (c # t) else None) of
        Some n \<Rightarrow> Some (off, off + n)
      | None \<Rightarrow> close_match (off + 1) (is_line_terminator c) t)"

definition findAlignmentWrapper :: "jsstring \<Rightarrow> nat \<Rightarrow> MemoTextAlignment marker_wrapper option" where
  "findAlignmentWrapper doc pos =
     innermost (concat (map (\<lambda>(openFrom, openTo, alignment).
       if openFrom > pos then []
       else case close_match openTo False (drop openTo doc) of
          None \<Rightarrow> []
        | Some (closeFrom, closeTo) \<Rightarrow>
            if pos > closeFrom then []
            else [\<lparr>mw_openFrom = openFrom, mw_openTo = openTo, mw_closeFrom = closeFrom, mw_closeTo = closeTo, mw_value = alignment\<rparr>])
       (align_matches 0 True doc)))"

text \<open>
  \<^verbatim>\<open>\[color=([^\]\r\n]{1,96})\]\<close> and \<^verbatim>\<open>\[size=([^\]\r\n]{1,24})\]\<close> under the flags \<^verbatim>\<open>giu\<close>: the value is counted in code
  points, and the long s and the Kelvin sign fold to letters.
\<close>

fun code_points :: "jsstring \<Rightarrow> nat" where
  "code_points [] = 0"
| "code_points [c] = 1"
| "code_points (c # d # t) = Suc (if is_high_surrogate c \<and> is_low_surrogate d then code_points t else code_points (d # t))"

definition fold_letter :: "nat \<Rightarrow> nat" where
  "fold_letter c = (if c = 0x17f then 0x73 else if c = 0x212a then 0x6b else c)"

definition read_value :: "jsstring \<Rightarrow> nat \<Rightarrow> jsstring \<Rightarrow> (jsstring \<times> nat) option" where
  "read_value opening limit t =
     (if read_word opening (map fold_letter (take (length opening) t)) = Some []
      then let content = takeWhile (\<lambda>c. c \<noteq> 0x5d \<and> c \<noteq> 0x0d \<and> c \<noteq> 0x0a) (drop (length opening) t);
               n = length opening + length content
           in if content \<noteq> [] \<and> code_points content \<le> limit \<and> n < length t \<and> t ! n = 0x5d
              then Some (content, n + 1) else None
      else None)"

function value_matches :: "jsstring \<Rightarrow> nat \<Rightarrow> nat \<Rightarrow> jsstring \<Rightarrow> (nat \<times> nat \<times> jsstring) list" where
  "value_matches opening limit off [] = []"
| "value_matches opening limit off (c # t) =
     (case read_value opening limit (c # t) of
        Some (content, Suc n) \<Rightarrow> (off, off + Suc n, content) # value_matches opening limit (off + Suc n) (drop n t)
      | _ \<Rightarrow> value_matches opening limit (off + 1) t)"
  by pat_completeness auto
termination by (relation "measure (\<lambda>(_, _, _, t). length t)") auto

text \<open>The common body of \<^verbatim>\<open>findColorWrapper\<close> and \<^verbatim>\<open>findSizeWrapper\<close>.\<close>

definition find_value_wrapper ::
    "jsstring \<Rightarrow> nat \<Rightarrow> jsstring \<Rightarrow> (jsstring option \<Rightarrow> jsstring option) \<Rightarrow> jsstring \<Rightarrow> nat \<Rightarrow> jsstring marker_wrapper option" where
  "find_value_wrapper opening limit closing normal doc pos =
     innermost (concat (map (\<lambda>(openFrom, openTo, content).
       case normal (Some content) of
         None \<Rightarrow> []
       | Some v \<Rightarrow>
           if openFrom > pos then []
           else case index_of (drop openTo doc) closing of
              None \<Rightarrow> []
            | Some k \<Rightarrow>
                if pos > openTo + k then []
                else [\<lparr>mw_openFrom = openFrom, mw_openTo = openTo, mw_closeFrom = openTo + k,
                       mw_closeTo = openTo + k + length closing, mw_value = v\<rparr>])
       (value_matches opening limit 0 doc)))"

definition findColorWrapper :: "jsstring \<Rightarrow> nat \<Rightarrow> jsstring marker_wrapper option" where
  "findColorWrapper = find_value_wrapper (js ''[color='') 96 MEMO_COLOR_CLOSE_MARKER normalizeMemoTextColor"

definition findSizeWrapper :: "jsstring \<Rightarrow> nat \<Rightarrow> jsstring marker_wrapper option" where
  "findSizeWrapper = find_value_wrapper (js ''[size='') 24 MEMO_SIZE_CLOSE_MARKER normalizeMemoTextSize"

text \<open>The offsets of \<^verbatim>\<open>||\<close> in a text, and the pairs of them around a position.\<close>

fun bar_offsets :: "nat \<Rightarrow> jsstring \<Rightarrow> nat list" where
  "bar_offsets off (c # d # t) =
     (if c = 0x7c \<and> d = 0x7c then off # bar_offsets (off + 2) t else bar_offsets (off + 1) (d # t))"
| "bar_offsets off _ = []"

fun spoiler_pair :: "nat \<Rightarrow> nat list \<Rightarrow> unit marker_wrapper option" where
  "spoiler_pair pos (openFrom # closeFrom # rest) =
     (if pos \<ge> openFrom + length MEMO_SPOILER_MARKER \<and> pos \<le> closeFrom
      then Some \<lparr>mw_openFrom = openFrom, mw_openTo = openFrom + length MEMO_SPOILER_MARKER, mw_closeFrom = closeFrom,
                 mw_closeTo = closeFrom + length MEMO_SPOILER_MARKER, mw_value = ()\<rparr>
      else spoiler_pair pos rest)"
| "spoiler_pair pos _ = None"

definition findSpoilerWrapper :: "jsstring \<Rightarrow> nat \<Rightarrow> unit marker_wrapper option" where
  "findSpoilerWrapper doc pos = spoiler_pair pos (bar_offsets 0 doc)"

definition removeWrapper :: "'a marker_wrapper \<Rightarrow> transaction" where
  "removeWrapper w =
     \<lparr>tr_changes = [change (mw_openFrom w) (mw_openTo w) [], change (mw_closeFrom w) (mw_closeTo w) []],
      tr_selection = selection_mapped 1\<rparr>"

definition removeAlignmentWrapper :: "editor_view \<Rightarrow> 'a marker_wrapper \<Rightarrow> transaction" where
  "removeAlignmentWrapper view w =
     (let doc = view_text view;
          unit_at = (\<lambda>i. if i < length doc then Some (doc ! i) else None);
          openingPadding = (if Prelude.slice doc (mw_openTo w) (mw_openTo w + 2) = [0x0a, 0x0a] then 2
            else if unit_at (mw_openTo w) = Some 0x0a then 1 else 0);
          closingPadding = (if Prelude.slice doc (max (mw_openTo w) (mw_closeFrom w - 2)) (mw_closeFrom w) = [0x0a, 0x0a] then 2
            else if mw_closeFrom w \<noteq> 0 \<and> unit_at (mw_closeFrom w - 1) = Some 0x0a then 1 else 0)
      in \<lparr>tr_changes = [change (mw_openFrom w) (mw_openTo w + openingPadding) [],
                        change (mw_closeFrom w - closingPadding) (mw_closeTo w) []],
          tr_selection = selection_mapped 1\<rparr>)"

definition replaceOpeningMarker :: "'a marker_wrapper \<Rightarrow> jsstring \<Rightarrow> transaction" where
  "replaceOpeningMarker w openingMarker =
     \<lparr>tr_changes = [change (mw_openFrom w) (mw_openTo w) openingMarker], tr_selection = selection_mapped 1\<rparr>"

section \<open>Alignment, colour, size, spoiler\<close>

definition setAlignment :: "editor_view \<Rightarrow> MemoTextAlignment \<Rightarrow> transaction option" where
  "setAlignment view alignment =
     (let r = main_range view; doc = ev_doc view in
      case findAlignmentWrapper (doc_text doc) (sr_head r) of
        Some existing \<Rightarrow>
          if alignment = align_left then Some (removeAlignmentWrapper view existing)
          else if mw_value existing \<noteq> alignment then Some (replaceOpeningMarker existing (memoAlignmentOpenMarker alignment))
          else None
      | None \<Rightarrow>
          if alignment = align_left then None
          else
            let p = sr_from r; q = sr_to r;
                lastProbe = (if q > p then max p (q - 1) else q);
                blockFrom = line_from doc (lineAt doc p);
                blockTo = line_to doc (lineAt doc lastProbe);
                content = Prelude.slice (doc_text doc) blockFrom blockTo;
                opening = memoAlignmentOpenMarker alignment @ [0x0a];
                closing = 0x0a # MEMO_ALIGNMENT_CLOSE_MARKER
            in Some \<lparr>tr_changes = [change blockFrom blockTo (opening @ content @ closing)],
                 tr_selection = selection_at (blockFrom + length opening) (blockFrom + length opening + length content)\<rparr>)"

text \<open>The common body of \<^verbatim>\<open>setTextColor\<close> and \<^verbatim>\<open>setFontSize\<close>; a normalized value is never empty.\<close>

definition set_value ::
    "(jsstring \<Rightarrow> nat \<Rightarrow> jsstring marker_wrapper option) \<Rightarrow> (jsstring \<Rightarrow> jsstring) \<Rightarrow> jsstring \<Rightarrow> editor_view \<Rightarrow> jsstring option \<Rightarrow> transaction option" where
  "set_value findWrapper openMarker closing view v =
     (case findWrapper (view_text view) (sr_head (main_range view)) of
        Some existing \<Rightarrow>
          (case v of
             None \<Rightarrow> Some (removeWrapper existing)
           | Some v \<Rightarrow> if mw_value existing \<noteq> v then Some (replaceOpeningMarker existing (openMarker v)) else None)
      | None \<Rightarrow> map_option (\<lambda>v. wrapInlineSelection view (openMarker v) closing) v)"

definition setTextColor :: "editor_view \<Rightarrow> jsstring option \<Rightarrow> transaction option" where
  "setTextColor view v = set_value findColorWrapper memoColorOpenMarker MEMO_COLOR_CLOSE_MARKER view (normalizeMemoTextColor v)"

definition setFontSize :: "editor_view \<Rightarrow> jsstring option \<Rightarrow> transaction option" where
  "setFontSize view v = set_value findSizeWrapper memoSizeOpenMarker MEMO_SIZE_CLOSE_MARKER view (normalizeMemoTextSize v)"

definition toggleSpoiler :: "editor_view \<Rightarrow> transaction" where
  "toggleSpoiler view =
     (case findSpoilerWrapper (view_text view) (sr_head (main_range view)) of
        Some existing \<Rightarrow> removeWrapper existing
      | None \<Rightarrow> wrapInlineSelection view MEMO_SPOILER_MARKER MEMO_SPOILER_MARKER)"

section \<open>The controller\<close>

record EditorCommandContext =
  cx_url :: "jsstring option"
  cx_color :: "jsstring option"
  cx_fontSize :: "jsstring option"

definition run_link :: "resolver \<Rightarrow> editor_view \<Rightarrow> jsstring option \<Rightarrow> transaction" where
  "run_link resolve view url_option =
     (case unwrapLink resolve view of
        Some t \<Rightarrow> t
      | None \<Rightarrow>
          let p = sr_from (main_range view); q = sr_to (main_range view); url = or_empty url_option;
              selected = Prelude.slice (view_text view) p q;
              label = (if selected = [] then url else selected);
              insert = js ''['' @ label @ js '']('' @ url @ js '')''
          in \<lparr>tr_changes = [change p q insert], tr_selection = selection_at (p + length insert) (p + length insert)\<rparr>)"

definition run_command :: "resolver \<Rightarrow> editor_view \<Rightarrow> EditorCommandId \<Rightarrow> EditorCommandContext \<Rightarrow> transaction option" where
  "run_command resolve view command ctx =
     (case MARKS command of
        Some m \<Rightarrow> Some (toggleMark resolve view m)
      | None \<Rightarrow>
          (case command of
             codeBlock \<Rightarrow> Some (toggleCodeBlock resolve view)
           | bulletList \<Rightarrow> toggleListLine view command
           | orderedList \<Rightarrow> toggleListLine view command
           | taskList \<Rightarrow> toggleListLine view command
           | heading1 \<Rightarrow> Some (setHeading view 1)
           | heading2 \<Rightarrow> Some (setHeading view 2)
           | heading3 \<Rightarrow> Some (setHeading view 3)
           | paragraph_command \<Rightarrow> Some (setHeading view 0)
           | alignLeft \<Rightarrow> setAlignment view align_left
           | alignCenter \<Rightarrow> setAlignment view align_center
           | alignRight \<Rightarrow> setAlignment view align_right
           | textColor \<Rightarrow> setTextColor view (cx_color ctx)
           | fontSize \<Rightarrow> setFontSize view (cx_fontSize ctx)
           | spoiler \<Rightarrow> Some (toggleSpoiler view)
           | link_command \<Rightarrow> Some (run_link resolve view (cx_url ctx))
           | _ \<Rightarrow> None))"

text \<open>The names of the nodes around the head, innermost first, set the inline marks, the link and the code block.\<close>

definition activate :: "EditorCommandId \<Rightarrow> ActiveFormatState \<Rightarrow> ActiveFormatState" where
  "activate command active =
     (case command of
        bold \<Rightarrow> active\<lparr>af_bold := True\<rparr>
      | italic \<Rightarrow> active\<lparr>af_italic := True\<rparr>
      | strikethrough \<Rightarrow> active\<lparr>af_strikethrough := True\<rparr>
      | code \<Rightarrow> active\<lparr>af_code := True\<rparr>
      | bulletList \<Rightarrow> active\<lparr>af_bulletList := True\<rparr>
      | orderedList \<Rightarrow> active\<lparr>af_orderedList := True\<rparr>
      | taskList \<Rightarrow> active\<lparr>af_taskList := True\<rparr>
      | _ \<Rightarrow> active)"

definition activate_node :: "jsstring \<Rightarrow> syntax_node \<Rightarrow> ActiveFormatState \<Rightarrow> ActiveFormatState" where
  "activate_node doc n active =
     (case WRAPPER_TO_MARK (sn_name n) of
        Some m \<Rightarrow> activate m active
      | None \<Rightarrow>
          if sn_name n = ''Link'' then active\<lparr>af_link := True\<rparr>
          else if sn_name n = ''FencedCode'' \<and> \<not> isEmptyMarkPair doc (sn_from n) (sn_to n) then active\<lparr>af_codeBlock := True\<rparr>
          else active)"

definition getActiveFormats :: "resolver \<Rightarrow> editor_view \<Rightarrow> ActiveFormatState" where
  "getActiveFormats resolve view =
     (let pos = sr_head (main_range view); doc = view_text view;
          line = doc_line (ev_doc view) (lineAt (ev_doc view) pos);
          active = EMPTY_ACTIVE_FORMATS\<lparr>
            af_alignment := (case findAlignmentWrapper doc pos of Some w \<Rightarrow> mw_value w | None \<Rightarrow> align_left),
            af_textColor := map_option mw_value (findColorWrapper doc pos),
            af_fontSize := map_option mw_value (findSizeWrapper doc pos),
            af_spoiler := (findSpoilerWrapper doc pos \<noteq> None)\<rparr>;
          active = fold (activate_node doc) (resolve pos (- 1)) active;
          active = (case HEADING_LINE line of Some level \<Rightarrow> active\<lparr>af_headingLevel := toToolbarHeadingLevel level\<rparr> | None \<Rightarrow> active)
      in case li_mode (lineListInfo line) of Some mode \<Rightarrow> activate mode active | None \<Rightarrow> active)"

text \<open>\<^verbatim>\<open>subscribe\<close> and the function it returns, on the set of listeners.\<close>

definition subscribe :: "'l \<Rightarrow> 'l list \<Rightarrow> 'l list" where "subscribe listener listeners = set_add listener listeners"

definition unsubscribe :: "'l \<Rightarrow> 'l list \<Rightarrow> 'l list" where "unsubscribe listener listeners = removeAll listener listeners"

section \<open>Applying changes\<close>

text \<open>
  What a list of changes means: they all name positions of the text before, and do not overlap. \<open>splice\<close>
  applies changes in document order, from an offset on.
\<close>

fun splice :: "nat \<Rightarrow> jsstring \<Rightarrow> change list \<Rightarrow> jsstring" where
  "splice off t [] = drop off t"
| "splice off t (c # cs) = Prelude.slice t off (lc_from c) @ lc_insert c @ splice (lc_to c) t cs"

definition apply_changes :: "jsstring \<Rightarrow> change list \<Rightarrow> jsstring" where
  "apply_changes t cs = splice 0 t (sort_key lc_from cs)"

end
