(* ===== verification/FormatUndo.thy ===== *)
theory FormatUndo
  imports Formatting
begin

text \<open>
  What the formatting commands of \<open>Formatting\<close> promise: a colour, a size or a spoiler put on a selection is
  found again and taken off without a trace; so is an empty pair of delimiters; and a list command changes
  nothing of its lines but their markers.
\<close>

section \<open>A command undone by a command\<close>

text \<open>The text around the main selection.\<close>

definition before_sel :: "editor_view \<Rightarrow> jsstring" where "before_sel view = take (sr_from (main_range view)) (view_text view)"

definition selected_text :: "editor_view \<Rightarrow> jsstring" where
  "selected_text view = Prelude.slice (view_text view) (sr_from (main_range view)) (sr_to (main_range view))"

definition after_sel :: "editor_view \<Rightarrow> jsstring" where "after_sel view = drop (sr_to (main_range view)) (view_text view)"

definition in_document :: "editor_view \<Rightarrow> bool" where
  "in_document view \<longleftrightarrow> sr_to (main_range view) \<le> length (view_text view)"

text \<open>
  Where CodeMirror maps a position through changes that only delete: it moves to the left by the units deleted
  before it.
\<close>

definition deletions_only :: "transaction \<Rightarrow> bool" where
  "deletions_only t \<longleftrightarrow> (\<forall>c \<in> set (tr_changes t). lc_insert c = [])"

definition moved_back :: "change list \<Rightarrow> nat \<Rightarrow> nat" where
  "moved_back cs pos = pos - sum_list (map (\<lambda>c. min pos (lc_to c) - lc_from c) cs)"

definition selection_follows :: "transaction \<Rightarrow> bool" where
  "selection_follows t \<longleftrightarrow> (\<forall>h k. tr_selection t \<noteq> selection_at h k)"

text \<open>
  \<open>g\<close> undoes \<open>f\<close> on a view: \<open>f\<close> puts an opening and a closing text around the selection and selects what is
  between them; and on every view that shows the document and the main selection it leads to, \<open>g\<close> dispatches a
  transaction of deletions that brings the text back and leaves the selection to its changes, which move it back
  to the ends it had.
\<close>

definition undone :: "(editor_view \<Rightarrow> transaction option) \<Rightarrow> (editor_view \<Rightarrow> transaction option) \<Rightarrow> editor_view \<Rightarrow> bool" where
  "undone f g view \<longleftrightarrow>
     (\<exists>t om closing h k. f view = Some t \<and> om \<noteq> [] \<and> closing \<noteq> [] \<and>
        apply_changes (view_text view) (tr_changes t) = before_sel view @ om @ selected_text view @ closing @ after_sel view \<and>
        h = sr_from (main_range view) + length om \<and> k = sr_to (main_range view) + length om \<and> tr_selection t = selection_at h k \<and>
        (\<forall>view'. view_text view' = apply_changes (view_text view) (tr_changes t) \<and> main_range view' = \<lparr>sr_anchor = h, sr_head = k\<rparr> \<longrightarrow>
           (\<exists>t'. g view' = Some t' \<and> apply_changes (view_text view') (tr_changes t') = view_text view \<and>
              deletions_only t' \<and> selection_follows t' \<and>
              moved_back (tr_changes t') h = sr_from (main_range view) \<and> moved_back (tr_changes t') k = sr_to (main_range view))))"

lemma apply_one: "apply_changes t [c] = Prelude.slice t 0 (lc_from c) @ lc_insert c @ drop (lc_to c) t"
  by (simp add: apply_changes_def)

lemma apply_two:
  "lc_from c < lc_from d \<Longrightarrow>
   apply_changes t [c, d] =
     Prelude.slice t 0 (lc_from c) @ lc_insert c @ Prelude.slice t (lc_to c) (lc_from d) @ lc_insert d @ drop (lc_to d) t"
  by (simp add: apply_changes_def)

lemma slice_append: "length a \<le> p \<Longrightarrow> Prelude.slice (a @ b) p q = Prelude.slice b (p - length a) (q - length a)"
  by (simp add: Prelude.slice_def)

text \<open>The text around a selection.\<close>

lemma text_parts: "p \<le> q \<Longrightarrow> q \<le> length t \<Longrightarrow> t = take p t @ Prelude.slice t p q @ drop q t"
  by (simp add: Prelude.slice_def) (metis append_take_drop_id drop_drop le_add_diff_inverse2 take_drop)

section \<open>Matches of an opening marker\<close>

text \<open>An opening marker: a bracket followed by letters that are no bracket and no line break.\<close>

definition marker_word :: "jsstring \<Rightarrow> bool" where
  "marker_word opw \<longleftrightarrow>
     opw \<noteq> [] \<and> hd opw = 0x5b \<and> set (tl opw) \<inter> {0x5b, 0x5d, 0x0a, 0x0d, 0x17f, 0x212a} = {}"

definition ends_value :: "nat \<Rightarrow> bool" where
  "ends_value c \<longleftrightarrow> c = 0x5d \<or> c = 0x0d \<or> c = 0x0a"

text \<open>No bracket is left open at the end of a text.\<close>

definition settled :: "jsstring \<Rightarrow> bool" where
  "settled b \<longleftrightarrow> 0x5b \<notin> set (takeWhile (\<lambda>c. \<not> ends_value c) (rev b))"

lemma settled_Cons: "settled (c # t) \<Longrightarrow> settled t"
  by (auto simp: settled_def takeWhile_append split: if_splits dest: set_takeWhileD)

lemma settled_drop: "settled t \<Longrightarrow> settled (drop n t)"
proof (induction n arbitrary: t)
  case (Suc n)
  then show ?case by (cases t) (auto dest: settled_Cons)
qed simp

lemma settled_bracket: "settled (0x5b # t) \<Longrightarrow> \<exists>j < length t. ends_value (t ! j)"
proof (rule ccontr)
  assume "settled (0x5b # t)" and n: "\<not> (\<exists>j < length t. ends_value (t ! j))"
  have "\<forall>c \<in> set (rev t). \<not> ends_value c" using n by (auto simp: in_set_conv_nth)
  then have "takeWhile (\<lambda>c. \<not> ends_value c) (rev t) = rev t" by (simp add: takeWhile_eq_all_conv)
  with \<open>settled (0x5b # t)\<close> show False by (auto simp: settled_def takeWhile_append ends_value_def)
qed

lemma read_word_nth:
  "read_word w u = Some v \<Longrightarrow> i < length w \<Longrightarrow> i < length u \<and> same_letter (w ! i) (u ! i)"
proof (induction w u arbitrary: i rule: read_word.induct)
  case (3 w ws c t)
  then show ?case by (cases i) (auto split: if_splits)
qed auto

lemma read_word_self: "read_word w (w @ t) = Some t"
  by (induction w) (auto simp: same_letter_def)

lemma same_letter_bracket: "same_letter 0x5b (fold_letter c) \<longleftrightarrow> c = 0x5b"
  by (auto simp: same_letter_def fold_letter_def is_lower_def)

lemma same_letter_end:
  "same_letter w (fold_letter c) \<Longrightarrow> w \<notin> {0x5d, 0x0a, 0x0d} \<Longrightarrow> \<not> ends_value c"
  by (auto simp: same_letter_def fold_letter_def is_lower_def ends_value_def)

lemma read_value_Some:
  assumes "read_value opw limit t = Some (content, n)" "marker_word opw"
  shows "hd t = 0x5b \<and> t \<noteq> [] \<and> n = length opw + length content + 1 \<and> n \<le> length t \<and>
    (\<forall>i < n - 1. \<not> ends_value (t ! i)) \<and> length opw \<le> length t"
proof -
  have w: "read_word opw (map fold_letter (take (length opw) t)) = Some []"
    and c: "content = takeWhile (\<lambda>c. c \<noteq> 0x5d \<and> c \<noteq> 0x0d \<and> c \<noteq> 0x0a) (drop (length opw) t)"
    and n: "n = length opw + length content + 1" "n \<le> length t"
    using assms(1) by (auto simp: read_value_def Let_def split: if_splits)
  have letters: "i < length t \<and> same_letter (opw ! i) (fold_letter (t ! i))" if "i < length opw" for i
    using read_word_nth [OF w that] that
    by (metis length_map length_take min_less_iff_conj nth_map nth_take)
  have op: "opw \<noteq> []" "opw ! 0 = 0x5b" "set opw \<inter> {0x5d, 0x0a, 0x0d} = {}"
    using assms(2) by (cases opw; auto simp: marker_word_def)+
  have "t ! 0 = 0x5b" "t \<noteq> []" using letters [of 0] op same_letter_bracket by auto
  moreover have "\<not> ends_value (t ! i)" if "i < n - 1" for i
  proof (cases "i < length opw")
    case True
    have "opw ! i \<notin> {0x5d, 0x0a, 0x0d}" using nth_mem [OF True] op(3) by (metis disjoint_iff)
    then show ?thesis using letters [OF True] same_letter_end by blast
  next
    case False
    then have "t ! i = content ! (i - length opw)" "i - length opw < length content"
      using that n by (auto simp: c takeWhile_nth nth_drop)
    then have "t ! i \<in> set content" by simp
    then show ?thesis unfolding c by (auto dest!: set_takeWhileD simp: ends_value_def)
  qed
  ultimately show ?thesis using n by (auto simp: hd_conv_nth)
qed

lemma read_value_no_bracket: "marker_word opw \<Longrightarrow> t = [] \<or> hd t \<noteq> 0x5b \<Longrightarrow> read_value opw limit t = None"
  using read_value_Some [of opw limit t] by (cases "read_value opw limit t") auto

lemma read_value_marker:
  assumes "marker_word opw" "v \<noteq> []" "\<forall>c \<in> set v. \<not> ends_value c" "code_points v \<le> limit"
  shows "read_value opw limit (opw @ v @ 0x5d # rest) = Some (v, length opw + length v + 1)"
proof -
  have "fold_letter c = c" if "c \<in> set opw" for c
    using assms(1) that by (cases opw) (auto simp: marker_word_def fold_letter_def)
  then have "map fold_letter opw = opw" by (simp add: map_idI)
  then have "read_word opw (map fold_letter opw) = Some []"
    using read_word_self [of opw "[]"] by simp
  moreover have "takeWhile (\<lambda>c. c \<noteq> 0x5d \<and> c \<noteq> 0x0d \<and> c \<noteq> 0x0a) (v @ 0x5d # rest) = v"
    using assms(3) by (simp add: takeWhile_append ends_value_def)
  ultimately show ?thesis using assms(2,4) by (simp add: read_value_def nth_append)
qed

lemma value_matches_skip:
  "read_value opw limit (c # t) = None \<Longrightarrow> value_matches opw limit off (c # t) = value_matches opw limit (off + 1) t"
  by simp

lemma value_matches_no_bracket:
  "marker_word opw \<Longrightarrow> 0x5b \<notin> set b \<Longrightarrow>
   value_matches opw limit off (b @ x) = value_matches opw limit (off + length b) x"
proof (induction b arbitrary: off)
  case (Cons c b)
  then have "read_value opw limit (c # b @ x) = None" by (intro read_value_no_bracket) auto
  with Cons show ?case by simp
qed simp

lemma value_matches_ge: "m \<in> set (value_matches opw limit off t) \<Longrightarrow> off \<le> fst m"
proof (induction opw limit off t rule: value_matches.induct)
  case (2 opw limit off c t)
  show ?case
  proof (cases "read_value opw limit (c # t)")
    case None
    with 2 show ?thesis by fastforce
  next
    case (Some r)
    obtain content k where r: "r = (content, k)" by (cases r)
    show ?thesis
    proof (cases k)
      case 0
      with 2 Some r show ?thesis by fastforce
    next
      case (Suc n)
      with 2 Some r show ?thesis by fastforce
    qed
  qed
qed simp

text \<open>Matches before a settled point are not touched by what follows.\<close>

lemma value_matches_settled:
  assumes "marker_word opw" "settled b"
  shows "\<exists>ms. (\<forall>m \<in> set ms. fst m < off + length b) \<and>
    value_matches opw limit off (b @ x) = ms @ value_matches opw limit (off + length b) x"
  using assms(2)
proof (induction b arbitrary: off rule: length_induct)
  case (1 b)
  show ?case
  proof (cases b)
    case (Cons c t)
    show ?thesis
    proof (cases "read_value opw limit (b @ x)")
      case None
      obtain ms where "\<forall>m \<in> set ms. fst m < off + 1 + length t"
          "value_matches opw limit (off + 1) (t @ x) = ms @ value_matches opw limit (off + 1 + length t) x"
        using 1 Cons settled_Cons by (metis length_Cons lessI)
      then show ?thesis using None Cons by (intro exI [of _ ms]) simp
    next
      case (Some r)
      obtain content k where r: "r = (content, k)" by (cases r)
      note S = read_value_Some [OF Some [unfolded r] assms(1)]
      then have c: "c = 0x5b" by (simp add: Cons)
      then obtain j where j: "j < length t" "ends_value (t ! j)" using settled_bracket 1(2) Cons by metis
      have "k \<le> length b"
      proof (rule ccontr)
        assume "\<not> k \<le> length b"
        then have "Suc j < k - 1" using j(1) Cons by simp
        then have "\<not> ends_value ((b @ x) ! Suc j)" using S by blast
        then show False using j Cons by (simp add: nth_append)
      qed
      moreover obtain n where n: "k = Suc n" using S by (cases k) auto
      ultimately have d: "drop n (t @ x) = drop n t @ x" "length (drop n t) < length b" "n \<le> length t"
        using Cons by auto
      obtain ms where ms: "\<forall>m \<in> set ms. fst m < off + Suc n + length (drop n t)"
          "value_matches opw limit (off + Suc n) (drop n t @ x) = ms @ value_matches opw limit (off + Suc n + length (drop n t)) x"
        using 1 d(2) settled_drop [of t n] settled_Cons Cons by metis
      have "off + Suc n + length (drop n t) = off + length b" using d(3) Cons by simp
      with ms have "value_matches opw limit off (b @ x) = ((off, off + Suc n, content) # ms) @ value_matches opw limit (off + length b) x"
        using Some r n Cons d(1) by simp
      moreover have "\<forall>m \<in> set ((off, off + Suc n, content) # ms). fst m < off + length b"
        using ms(1) d(3) Cons by auto
      ultimately show ?thesis by blast
    qed
  qed simp
qed

lemma innermost_last:
  assumes "\<forall>w' \<in> set ws. mw_openFrom w' < mw_openFrom w"
  shows "innermost (ws @ [w]) = Some w"
proof -
  let ?f = "\<lambda>w. - int (mw_openFrom w)"
  obtain y ys where y: "sort_key ?f (ws @ [w]) = y # ys"
    by (metis append_is_Nil_conv length_0_conv length_sort list.exhaust not_Cons_self2)
  have mem: "y \<in> set (ws @ [w])" "w \<in> set (y # ys)" by (metis list.set_intros(1) set_sort y) (metis in_set_conv_decomp set_sort y)
  have "sorted (map ?f (y # ys))" by (metis sorted_sort_key y)
  then have "?f y \<le> ?f w" using mem(2) by auto
  then have "y = w" using mem(1) assms by fastforce
  then show ?thesis by (simp add: innermost_def y)
qed

lemma index_of_no_bracket:
  "0x5b \<notin> set b \<Longrightarrow> index_of (b @ 0x5b # cl @ x) (0x5b # cl) = Some (length b)"
proof (induction b)
  case Nil
  then show ?case by (simp add: starts_with_def)
next
  case (Cons c b)
  then have "\<not> starts_with (c # b @ 0x5b # cl @ x) (0x5b # cl)" by (auto simp: starts_with_def)
  with Cons show ?case by simp
qed

section \<open>A colour and a size are taken off\<close>

text \<open>
  The markers of a value: an opening word, the value, a bracket; and a closing marker that is not an opening one.
\<close>

definition markers_ok :: "jsstring \<Rightarrow> jsstring \<Rightarrow> bool" where
  "markers_ok word closing \<longleftrightarrow>
     marker_word word \<and> closing \<noteq> [] \<and> hd closing = 0x5b \<and> 0x5b \<notin> set (tl closing) \<and> 2 \<le> length closing \<and> 2 \<le> length word \<and>
     \<not> same_letter (word ! 1) (fold_letter (closing ! 1))"

lemma closing_no_value: "markers_ok word closing \<Longrightarrow> read_value word limit (closing @ x) = None"
proof (rule ccontr)
  assume ok: "markers_ok word closing" and n: "read_value word limit (closing @ x) \<noteq> None"
  then have "read_word word (map fold_letter (take (length word) (closing @ x))) = Some []"
    by (auto simp: read_value_def Let_def split: if_splits)
  from read_word_nth [OF this, of 1] ok show False
    by (auto simp: markers_ok_def nth_append)
qed

lemma find_value_wrapper_marked:
  assumes ok: "markers_ok word closing" and b: "settled b" and sel: "0x5b \<notin> set sel"
    and v: "v \<noteq> []" "\<forall>c \<in> set v. \<not> ends_value c" "code_points v \<le> limit" "normal (Some v) = Some u"
    and pos: "pos = length b + length word + length v + 1 + length sel"
  shows "find_value_wrapper word limit closing normal (b @ (word @ v @ [0x5d]) @ sel @ closing @ rest) pos =
    Some \<lparr>mw_openFrom = length b, mw_openTo = length b + length word + length v + 1, mw_closeFrom = pos,
          mw_closeTo = pos + length closing, mw_value = u\<rparr>"
proof -
  define doc where "doc = b @ (word @ v @ [0x5d]) @ sel @ closing @ rest"
  define n where "n = length word + length v"
  have mw: "marker_word word" using ok by (simp add: markers_ok_def)
  obtain cl where cl: "closing = 0x5b # cl" "0x5b \<notin> set cl" using ok by (cases closing) (auto simp: markers_ok_def)
  obtain ms where ms: "\<forall>m \<in> set ms. fst m < length b"
      "value_matches word limit 0 doc = ms @ value_matches word limit (length b) ((word @ v @ [0x5d]) @ sel @ closing @ rest)"
    using value_matches_settled [OF mw b, of 0 limit] unfolding doc_def by auto
  obtain w ws where w: "word = w # ws" using mw by (cases word) (auto simp: marker_word_def)
  have rv: "read_value word limit (w # ws @ v @ 0x5d # sel @ closing @ rest) = Some (v, Suc n)"
    using read_value_marker [OF mw v(1-3), of "sel @ closing @ rest"] by (simp add: w n_def)
  have "drop n (ws @ v @ 0x5d # sel @ closing @ rest) = sel @ closing @ rest" by (simp add: n_def w)
  then have "value_matches word limit (length b) ((word @ v @ [0x5d]) @ sel @ closing @ rest) =
      (length b, length b + Suc n, v) # value_matches word limit (length b + Suc n) (sel @ closing @ rest)"
    using rv by (simp add: w)
  also have "value_matches word limit (length b + Suc n) (sel @ closing @ rest) = value_matches word limit (pos + 1) (cl @ rest)"
    using value_matches_no_bracket [OF mw sel] value_matches_skip [OF closing_no_value [OF ok, of limit rest, unfolded cl(1) append_Cons]]
    by (simp add: pos cl(1) n_def ac_simps)
  finally have ours: "value_matches word limit 0 doc =
      ms @ (length b, length b + Suc n, v) # value_matches word limit (pos + 1) (cl @ rest)"
    using ms(2) by simp
  have index: "index_of (drop (length b + Suc n) doc) closing = Some (length sel)"
    using index_of_no_bracket [OF sel, of cl rest] by (simp add: doc_def n_def cl(1) w)
  define g where "g = (\<lambda>(openFrom, openTo, content).
       case normal (Some content) of
         None \<Rightarrow> []
       | Some v \<Rightarrow>
           if openFrom > pos then []
           else case index_of (drop openTo doc) closing of
              None \<Rightarrow> []
            | Some k \<Rightarrow>
                if pos > openTo + k then []
                else [\<lparr>mw_openFrom = openFrom, mw_openTo = openTo, mw_closeFrom = openTo + k,
                       mw_closeTo = openTo + k + length closing, mw_value = v\<rparr>])"
  have g: "mw_openFrom x = fst m \<and> fst m \<le> pos" if "x \<in> set (g m)" for x m
    using that by (cases m) (auto simp: g_def split: option.splits if_splits)
  have earlier: "\<forall>x \<in> set (concat (map g ms)). mw_openFrom x < length b" using g ms(1) by fastforce
  have "concat (map g (value_matches word limit (pos + 1) (cl @ rest))) = []"
  proof -
    have "g m = []" if "m \<in> set (value_matches word limit (pos + 1) (cl @ rest))" for m
    proof (cases "g m")
      case (Cons x xs)
      then show ?thesis using g [of x m] value_matches_ge [OF that] by simp
    qed simp
    then show ?thesis by simp
  qed
  moreover have "g (length b, length b + Suc n, v) =
      [\<lparr>mw_openFrom = length b, mw_openTo = length b + Suc n, mw_closeFrom = pos, mw_closeTo = pos + length closing, mw_value = u\<rparr>]"
    using index v(4) by (simp add: g_def pos n_def)
  ultimately have "concat (map g (value_matches word limit 0 doc)) = concat (map g ms) @
      [\<lparr>mw_openFrom = length b, mw_openTo = length b + Suc n, mw_closeFrom = pos, mw_closeTo = pos + length closing, mw_value = u\<rparr>]"
    unfolding ours by (simp only: map_append list.map concat_append concat.simps append_Nil2)
  then have "innermost (concat (map g (value_matches word limit 0 doc))) =
      Some \<lparr>mw_openFrom = length b, mw_openTo = length b + Suc n, mw_closeFrom = pos, mw_closeTo = pos + length closing, mw_value = u\<rparr>"
    using earlier by (simp only: innermost_last select_convs marker_wrapper.select_convs)
  then show ?thesis
    unfolding doc_def [symmetric] find_value_wrapper_def g_def by (simp add: n_def)
qed

lemma code_points_le: "code_points v \<le> length v"
  by (induction v rule: code_points.induct) auto

lemma selection_parts:
  assumes "in_document view"
  shows "view_text view = before_sel view @ selected_text view @ after_sel view"
    "length (before_sel view) = sr_from (main_range view)"
    "length (selected_text view) = sr_to (main_range view) - sr_from (main_range view)"
    "sr_from (main_range view) \<le> sr_to (main_range view)"
proof -
  show le: "sr_from (main_range view) \<le> sr_to (main_range view)" by (simp add: sr_from_def sr_to_def)
  show "view_text view = before_sel view @ selected_text view @ after_sel view"
    using text_parts [OF le] assms by (simp add: before_sel_def selected_text_def after_sel_def in_document_def)
qed (use assms in \<open>auto simp: before_sel_def selected_text_def in_document_def sr_from_def sr_to_def Prelude.slice_def\<close>)

lemma wrapped_text:
  assumes "in_document view"
  shows "apply_changes (view_text view) (tr_changes (wrapInlineSelection view om closing)) =
      before_sel view @ om @ selected_text view @ closing @ after_sel view"
    "tr_selection (wrapInlineSelection view om closing) =
      selection_at (length (before_sel view) + length om) (length (before_sel view) + length om + length (selected_text view))"
  using selection_parts(2) [OF assms]
  by (simp_all add: wrapInlineSelection_def apply_one Let_def before_sel_def [symmetric] selected_text_def [symmetric] after_sel_def [symmetric])
    (simp_all add: before_sel_def Prelude.slice_def)

lemma unwrapped_text:
  assumes "mw_openFrom w = length b" "mw_openTo w = length b + length om" "mw_closeFrom w = length b + length om + length sel"
    "mw_closeTo w = length b + length om + length sel + length closing" "om \<noteq> []"
  shows "apply_changes (b @ om @ sel @ closing @ rest) (tr_changes (removeWrapper w)) = b @ sel @ rest"
  using assms by (simp add: removeWrapper_def apply_two Prelude.slice_def)

text \<open>A removed pair of markers takes a selection between them back.\<close>

lemma removed_selection:
  assumes "mw_openFrom w = p" "mw_openTo w = p + n" "mw_closeFrom w = q + n" "p \<le> q"
  shows "deletions_only (removeWrapper w)" "selection_follows (removeWrapper w)"
    "moved_back (tr_changes (removeWrapper w)) (p + n) = p" "moved_back (tr_changes (removeWrapper w)) (q + n) = q"
  using assms by (auto simp: removeWrapper_def deletions_only_def selection_follows_def moved_back_def min_def)

text \<open>A command that wraps the selection is undone by one that removes the pair.\<close>

lemma undone_by_removal:
  assumes view: "in_document view" and "om \<noteq> []" "closing \<noteq> []"
    and f: "f view = Some (wrapInlineSelection view om closing)"
    and g: "\<And>view'. view_text view' = before_sel view @ om @ selected_text view @ closing @ after_sel view \<Longrightarrow>
      main_range view' = \<lparr>sr_anchor = sr_from (main_range view) + length om, sr_head = sr_to (main_range view) + length om\<rparr> \<Longrightarrow>
      \<exists>w :: 'a marker_wrapper. g view' = Some (removeWrapper w) \<and> mw_openFrom w = sr_from (main_range view) \<and>
        mw_openTo w = sr_from (main_range view) + length om \<and> mw_closeFrom w = sr_to (main_range view) + length om \<and>
        mw_closeTo w = sr_to (main_range view) + length om + length closing"
  shows "undone f g view"
proof -
  let ?p = "sr_from (main_range view)" and ?q = "sr_to (main_range view)"
  note parts = selection_parts [OF view]
  have done_text: "apply_changes (view_text view) (tr_changes (wrapInlineSelection view om closing)) =
      before_sel view @ om @ selected_text view @ closing @ after_sel view"
    by (rule wrapped_text(1) [OF view])
  have sel: "tr_selection (wrapInlineSelection view om closing) = selection_at (?p + length om) (?q + length om)"
    using wrapped_text(2) [OF view, of om closing] parts(2-4) by simp
  have "\<exists>t'. g view' = Some t' \<and> apply_changes (view_text view') (tr_changes t') = view_text view \<and>
      deletions_only t' \<and> selection_follows t' \<and>
      moved_back (tr_changes t') (?p + length om) = ?p \<and> moved_back (tr_changes t') (?q + length om) = ?q"
    if v: "view_text view' = before_sel view @ om @ selected_text view @ closing @ after_sel view"
      "main_range view' = \<lparr>sr_anchor = ?p + length om, sr_head = ?q + length om\<rparr>" for view'
  proof -
    obtain w :: "'a marker_wrapper" where w: "g view' = Some (removeWrapper w)" "mw_openFrom w = ?p" "mw_openTo w = ?p + length om"
        "mw_closeFrom w = ?q + length om" "mw_closeTo w = ?q + length om + length closing"
      using g [OF v] by blast
    have "apply_changes (view_text view') (tr_changes (removeWrapper w)) = view_text view"
      unfolding v(1) using parts w(2-5) assms(2) by (subst unwrapped_text) simp_all
    then show ?thesis using w(1) removed_selection [OF w(2-4) parts(4)] by blast
  qed
  then show ?thesis unfolding undone_def using f done_text sel assms(2,3) by (intro exI conjI) (assumption | rule refl | simp)+
qed

lemma value_undone:
  assumes ok: "markers_ok word closing" and view: "in_document view" "settled (before_sel view)" "0x5b \<notin> set (selected_text view)"
    and v: "v \<noteq> []" "\<forall>c \<in> set v. \<not> ends_value c" "length v \<le> limit" "normal (Some v) = Some u"
    and fw: "find_value_wrapper word limit closing normal (view_text view) (sr_head (main_range view)) = None"
    and om: "om v = word @ v @ [0x5d]"
  shows "undone (\<lambda>w. set_value (find_value_wrapper word limit closing normal) om closing w (Some v))
    (\<lambda>w. set_value (find_value_wrapper word limit closing normal) om closing w None) view"
proof (rule undone_by_removal [OF view(1)])
  show "om v \<noteq> []" "closing \<noteq> []" using ok by (auto simp: om markers_ok_def)
  show "set_value (find_value_wrapper word limit closing normal) om closing view (Some v) =
      Some (wrapInlineSelection view (om v) closing)"
    using fw by (simp add: set_value_def)
  fix view' assume v': "view_text view' = before_sel view @ om v @ selected_text view @ closing @ after_sel view"
    "main_range view' = \<lparr>sr_anchor = sr_from (main_range view) + length (om v), sr_head = sr_to (main_range view) + length (om v)\<rparr>"
  have "code_points v \<le> limit" using code_points_le [of v] v(3) by simp
  note F = find_value_wrapper_marked [where normal = normal and u = u and rest = "after_sel view", OF ok view(2,3) v(1,2) this v(4) refl]
  have e: "length (before_sel view) + length word + length v + 1 + length (selected_text view) = sr_to (main_range view) + length (om v)"
    using selection_parts [OF view(1)] by (simp add: om)
  show "\<exists>w :: jsstring marker_wrapper. set_value (find_value_wrapper word limit closing normal) om closing view' None = Some (removeWrapper w) \<and>
      mw_openFrom w = sr_from (main_range view) \<and> mw_openTo w = sr_from (main_range view) + length (om v) \<and>
      mw_closeFrom w = sr_to (main_range view) + length (om v) \<and>
      mw_closeTo w = sr_to (main_range view) + length (om v) + length closing"
    using F [unfolded e] selection_parts(2) [OF view(1)]
    by (intro exI [of _ "the (find_value_wrapper word limit closing normal (view_text view') (sr_to (main_range view) + length (om v)))"])
      (simp add: set_value_def v' om)
qed

lemma color_markers_ok: "markers_ok (js ''[color='') MEMO_COLOR_CLOSE_MARKER"
  and size_markers_ok: "markers_ok (js ''[size='') MEMO_SIZE_CLOSE_MARKER"
  by (simp_all add: markers_ok_def marker_word_def MEMO_COLOR_CLOSE_MARKER_def MEMO_SIZE_CLOSE_MARKER_def js_str
      same_letter_def fold_letter_def is_lower_def)

lemma size_units:
  assumes "\<exists>n. 8 \<le> n \<and> n \<le> 96 \<and> d = nat_digits n @ js ''px''"
  shows "length d \<le> 24 \<and> d \<noteq> [] \<and> (\<forall>x \<in> set d. \<not> ends_value x)"
proof -
  obtain n where n: "n \<le> 96" "d = nat_digits n @ js ''px''" using assms by blast
  have "\<not> ends_value x" if "x \<in> set (nat_digits n)" for x
    using nat_digits_digit [OF that] by (auto simp: ends_value_def is_digit_def)
  with n show ?thesis using length_nat_digits [of n] by (auto simp: js_str ends_value_def)
qed

lemma no_size: "normalizeMemoTextSize None = None"
  by (simp add: normalizeMemoTextSize_def FONT_SIZE_PATTERN_def trim_def trim_start_def trim_end_def)

section \<open>A spoiler is taken off\<close>

lemma bar_offsets_skip: "c \<noteq> 0x7c \<Longrightarrow> bar_offsets off (c # x) = bar_offsets (off + 1) x"
  by (cases x) simp_all

lemma bar_offsets_append:
  "b = [] \<or> last b \<noteq> 0x7c \<Longrightarrow> bar_offsets off (b @ x) = bar_offsets off b @ bar_offsets (off + length b) x"
proof (induction off b rule: bar_offsets.induct)
  case (1 off c d t)
  then show ?case by (cases "t = []") (auto simp: bar_offsets_skip)
qed (simp_all add: bar_offsets_skip)

lemma bar_offsets_none: "0x7c \<notin> set b \<Longrightarrow> bar_offsets off b = []"
  by (induction off b rule: bar_offsets.induct) auto

lemma bar_offsets_less: "i \<in> set (bar_offsets off b) \<Longrightarrow> i < off + length b"
  by (induction off b rule: bar_offsets.induct) (auto split: if_splits)

lemma spoiler_pair_skip:
  "even (length os) \<Longrightarrow> \<forall>i \<in> set os. i < pos \<Longrightarrow> spoiler_pair pos (os @ rest) = spoiler_pair pos rest"
  by (induction pos os rule: spoiler_pair.induct) auto

lemma spoiler_undone:
  assumes view: "in_document view" "0x7c \<notin> set (selected_text view)" "before_sel view = [] \<or> last (before_sel view) \<noteq> 0x7c"
    and even_bars: "even (length (bar_offsets 0 (before_sel view)))"
    and fw: "findSpoilerWrapper (view_text view) (sr_head (main_range view)) = None"
  shows "undone (\<lambda>w. Some (toggleSpoiler w)) (\<lambda>w. Some (toggleSpoiler w)) view"
proof (rule undone_by_removal [OF view(1)])
  let ?b = "before_sel view" and ?sel = "selected_text view" and ?r = "after_sel view"
  let ?m = "MEMO_SPOILER_MARKER"
  note parts = selection_parts [OF view(1)]
  have m: "?m = [0x7c, 0x7c]" by (simp add: MEMO_SPOILER_MARKER_def js_str)
  show "?m \<noteq> []" "?m \<noteq> []" by (simp_all add: m)
  show "Some (toggleSpoiler view) = Some (wrapInlineSelection view ?m ?m)" using fw by (simp add: toggleSpoiler_def)
  fix view' assume v': "view_text view' = ?b @ ?m @ ?sel @ ?m @ ?r"
    "main_range view' = \<lparr>sr_anchor = sr_from (main_range view) + length ?m, sr_head = sr_to (main_range view) + length ?m\<rparr>"
  define h where "h = length ?b + length ?m"
  have hk: "sr_to (main_range view) + length ?m = h + length ?sel" using parts(2-4) by (simp add: h_def)
  have sel: "?sel = [] \<or> last ?sel \<noteq> 0x7c" using view(2) last_in_set by fastforce
  have "bar_offsets 0 (view_text view') = bar_offsets 0 ?b @ [length ?b, h + length ?sel] @ bar_offsets (h + length ?sel + 2) ?r"
    unfolding v'(1) bar_offsets_append [OF view(3)]
    by (simp add: m bar_offsets_append [OF sel] bar_offsets_none [OF view(2)] h_def)
  then have "findSpoilerWrapper (view_text view') (h + length ?sel) =
      Some \<lparr>mw_openFrom = length ?b, mw_openTo = length ?b + length ?m, mw_closeFrom = h + length ?sel,
            mw_closeTo = h + length ?sel + length ?m, mw_value = ()\<rparr>"
    unfolding findSpoilerWrapper_def
    using spoiler_pair_skip [OF even_bars, of "h + length ?sel"] bar_offsets_less [of _ 0 ?b]
    by (fastforce simp: h_def m)
  then show "\<exists>w :: unit marker_wrapper. Some (toggleSpoiler view') = Some (removeWrapper w) \<and> mw_openFrom w = sr_from (main_range view) \<and>
      mw_openTo w = sr_from (main_range view) + length ?m \<and> mw_closeFrom w = sr_to (main_range view) + length ?m \<and>
      mw_closeTo w = sr_to (main_range view) + length ?m + length ?m"
    by (intro exI [of _ "the (findSpoilerWrapper (view_text view') (h + length ?sel))"])
      (simp add: toggleSpoiler_def v'(2) hk parts(2))
qed

section \<open>An empty pair of delimiters is taken off\<close>

lemma wrapSelection_eq: "wrapSelection view token = wrapInlineSelection view token token"
  by (simp add: wrapSelection_def wrapInlineSelection_def)

lemma mark_token: "MARKS c = Some m \<Longrightarrow> mk_token m \<noteq> []"
  by (cases c) (auto simp: js_str)

text \<open>The tree shows no mark around a cursor, and no delimiter of markup that reaches beyond a range.\<close>

definition unmarked :: "resolver \<Rightarrow> mark \<Rightarrow> nat \<Rightarrow> bool" where
  "unmarked resolve m pos \<longleftrightarrow>
     findWrappedDelimiters resolve \<lparr>sr_anchor = pos, sr_head = pos\<rparr> (mk_wrapper m) (mk_delimiter m) 2 = None \<and>
     (\<forall>p q side. \<not> blocking p q (resolve pos side))"

lemma empty_pair_undone:
  assumes m: "MARKS c = Some m" and view: "in_document view" "main_range view = \<lparr>sr_anchor = p, sr_head = p\<rparr>"
    and trees: "unmarked resolve m p" "unmarked resolve' m (p + length (mk_token m))"
    and no_pair: "\<not> (ends_with (before_sel view) (mk_token m) \<and> starts_with (after_sel view) (mk_token m))"
  shows "undone (\<lambda>w. Some (toggleMark resolve w m)) (\<lambda>w. Some (toggleMark resolve' w m)) view"
proof -
  let ?b = "before_sel view" and ?r = "after_sel view" and ?tk = "mk_token m"
  define k where "k = length ?tk"
  have k: "0 < k" using mark_token [OF m] by (simp add: k_def)
  have sel: "selected_text view = []" "length ?b = p" "view_text view = ?b @ ?r"
    using selection_parts [OF view(1)] by (simp_all add: view(2) sr_from_def sr_to_def)
  have "\<not> (p \<ge> k \<and> p + k \<le> length (view_text view) \<and> Prelude.slice (view_text view) (p - k) (p + k) = ?tk @ ?tk)"
  proof
    assume a: "p \<ge> k \<and> p + k \<le> length (view_text view) \<and> Prelude.slice (view_text view) (p - k) (p + k) = ?tk @ ?tk"
    have "Prelude.slice (view_text view) (p - k) (p + k) = drop (p - k) ?b @ take k ?r"
      using a sel(2) by (simp add: sel(3) Prelude.slice_def)
    then have "drop (p - k) ?b = ?tk" "take k ?r = ?tk"
      using a sel(2) append_eq_append_conv [of "drop (p - k) ?b" ?tk] by (auto simp: k_def)
    then show False
      using no_pair a sel(2) by (auto simp: ends_with_def starts_with_def k_def)
  qed
  then have t: "toggleMark resolve view m = wrapInlineSelection view ?tk ?tk"
    using trees(1) by (auto simp: toggleMark_def Let_def view(2) unmarked_def sr_from_def sr_to_def k_def wrapSelection_eq)
  let ?f = "wrapInlineSelection view ?tk ?tk"
  let ?g = "\<lparr>tr_changes = [change p (p + k) [], change (p + k) (p + k + k) []], tr_selection = selection_kept\<rparr>"
  have "Some (toggleMark resolve' view' m) = Some ?g \<and> apply_changes (view_text view') (tr_changes ?g) = view_text view"
    if v': "view_text view' = ?b @ ?tk @ ?tk @ ?r" "main_range view' = \<lparr>sr_anchor = p + k, sr_head = p + k\<rparr>" for view'
  proof
    show "Some (toggleMark resolve' view' m) = Some ?g"
      using trees(2) v'(2) sel(2)
      by (simp add: toggleMark_def Let_def unmarked_def sr_from_def sr_to_def v'(1) Prelude.slice_def k_def [symmetric])
    show "apply_changes (view_text view') (tr_changes ?g) = view_text view"
      using k sel by (simp add: apply_two v'(1) Prelude.slice_def k_def)
  qed
  moreover have "deletions_only ?g" "selection_follows ?g" "moved_back (tr_changes ?g) (p + k) = p"
    by (simp_all add: deletions_only_def selection_follows_def moved_back_def)
  moreover have "sr_from (main_range view) = p" "sr_to (main_range view) = p" by (simp_all add: view(2) sr_from_def sr_to_def)
  moreover have "apply_changes (view_text view) (tr_changes ?f) = ?b @ ?tk @ [] @ ?tk @ ?r" "tr_selection ?f = selection_at (p + k) (p + k)"
    using wrapped_text [OF view(1)] sel by (simp_all add: k_def)
  ultimately show ?thesis
    unfolding undone_def t using mark_token [OF m] sel(1)
    by (intro exI [of _ ?f] exI [of _ ?tk] exI [of _ "p + k"]) (simp add: k_def [symmetric], blast)
qed

text \<open>
  C26. Inline formats are put around the selected text and undone, text and selection. On a selection inside the
  document: a colour (not in exponent form) or a size set where none was is found again at the selection the
  command leaves, and clearing it gives the text back and selects the same part of it, when the selected text
  holds no bracket and no bracket is left open before it; so does a second spoiler command
  after a first, between complete spoilers; and a mark toggled twice with nothing selected, when the trees show
  no such mark and no delimiter at the cursor and the cursor is not between two tokens already.
\<close>

theorem inline_formats_are_undone:
  assumes "in_document view" and "p = sr_from (main_range view)" and "head = sr_head (main_range view)"
  shows "(normalizeMemoTextColor color = Some c \<and> 0x65 \<notin> set c \<and> length c \<le> 96 \<and> settled (before_sel view) \<and>
        0x5b \<notin> set (selected_text view) \<and> findColorWrapper (view_text view) head = None \<longrightarrow>
      undone (\<lambda>w. setTextColor w color) (\<lambda>w. setTextColor w None) view) \<and>
    (normalizeMemoTextSize pixels \<noteq> None \<and> settled (before_sel view) \<and>
        0x5b \<notin> set (selected_text view) \<and> findSizeWrapper (view_text view) head = None \<longrightarrow>
      undone (\<lambda>w. setFontSize w pixels) (\<lambda>w. setFontSize w None) view) \<and>
    (0x7c \<notin> set (selected_text view) \<and> (before_sel view = [] \<or> last (before_sel view) \<noteq> 0x7c) \<and>
        even (length (bar_offsets 0 (before_sel view))) \<and> findSpoilerWrapper (view_text view) head = None \<longrightarrow>
      undone (\<lambda>w. Some (toggleSpoiler w)) (\<lambda>w. Some (toggleSpoiler w)) view) \<and>
    (MARKS command = Some m \<and> main_range view = \<lparr>sr_anchor = p, sr_head = p\<rparr> \<and>
        unmarked resolve m p \<and> unmarked resolve' m (p + length (mk_token m)) \<and>
        \<not> (ends_with (before_sel view) (mk_token m) \<and> starts_with (after_sel view) (mk_token m)) \<longrightarrow>
      undone (\<lambda>w. Some (toggleMark resolve w m)) (\<lambda>w. Some (toggleMark resolve' w m)) view)"
proof (intro conjI impI; elim conjE)
  assume c: "normalizeMemoTextColor color = Some c" "0x65 \<notin> set c" "length c \<le> 96" "settled (before_sel view)"
    "0x5b \<notin> set (selected_text view)" "findColorWrapper (view_text view) head = None"
  note s = normal_color_stable [OF c(1,2)]
  have "c \<noteq> []" "\<forall>x \<in> set c. \<not> ends_value x" using s by (auto simp: ends_value_def)
  from value_undone [OF color_markers_ok assms(1) c(4,5) this c(3), of normalizeMemoTextColor c memoColorOpenMarker] s c(6)
  show "undone (\<lambda>w. setTextColor w color) (\<lambda>w. setTextColor w None) view"
    by (simp add: setTextColor_def c(1) findColorWrapper_def assms(3) memoColorOpenMarker_def js_str normalizeMemoTextColor_def [of None])
next
  assume c: "normalizeMemoTextSize pixels \<noteq> None" "settled (before_sel view)"
    "0x5b \<notin> set (selected_text view)" "findSizeWrapper (view_text view) head = None"
  then obtain d where d: "normalizeMemoTextSize pixels = Some d" by blast
  note s = normal_size_stable [OF d]
  have "length d \<le> 24" "d \<noteq> []" "\<forall>x \<in> set d. \<not> ends_value x" using s size_units [of d] by auto
  from value_undone [OF size_markers_ok assms(1) c(2,3) this(2,3,1), of normalizeMemoTextSize d memoSizeOpenMarker] s c(4)
  show "undone (\<lambda>w. setFontSize w pixels) (\<lambda>w. setFontSize w None) view"
    by (simp add: setFontSize_def d findSizeWrapper_def assms(3) memoSizeOpenMarker_def js_str no_size)
qed (use assms spoiler_undone empty_pair_undone in simp_all)

text \<open>The text \<open>ab\<close>, selected, and with the cursor at its end.\<close>

definition sample_view :: "nat \<Rightarrow> editor_view" where
  "sample_view anchor = \<lparr>ev_doc = [[0x61, 0x62]], ev_ranges = [\<lparr>sr_anchor = anchor, sr_head = 2\<rparr>], ev_main = 0\<rparr>"

lemma sample_view_parts:
  "main_range (sample_view n) = \<lparr>sr_anchor = n, sr_head = 2\<rparr>" "view_text (sample_view n) = [0x61, 0x62]"
  by (simp_all add: main_range_def sample_view_def doc_text_def)

lemma sample_unwrapped:
  "findColorWrapper [0x61, 0x62] 2 = None" "findSizeWrapper [0x61, 0x62] 2 = None" "findSpoilerWrapper [0x61, 0x62] 2 = None"
  by (simp_all add: findColorWrapper_def findSizeWrapper_def findSpoilerWrapper_def find_value_wrapper_def read_value_def fold_letter_def
      same_letter_def innermost_def js_str)

theorem inline_formats_are_undone_witness:
  "undone (\<lambda>w. setTextColor w (Some (js ''rgb(1,20,255)''))) (\<lambda>w. setTextColor w None) (sample_view 0) \<and>
   undone (\<lambda>w. setFontSize w (Some (js ''12''))) (\<lambda>w. setFontSize w None) (sample_view 0) \<and>
   undone (\<lambda>w. Some (toggleSpoiler w)) (\<lambda>w. Some (toggleSpoiler w)) (sample_view 0) \<and>
   undone (\<lambda>w. Some (toggleMark (\<lambda>_ _. []) w (the (MARKS bold)))) (\<lambda>w. Some (toggleMark (\<lambda>_ _. []) w (the (MARKS bold)))) (sample_view 2)"
proof -
  note parts = sample_view_parts sr_from_def sr_to_def
  have a: "in_document (sample_view n)" "sr_head (main_range (sample_view n)) = 2" if "n \<le> 2" for n
    using that by (simp_all add: in_document_def parts)
  have b: "selected_text (sample_view 0) = [0x61, 0x62]" "before_sel (sample_view 0) = []"
    by (simp_all add: selected_text_def before_sel_def Prelude.slice_def parts)
  have c: "settled []" by (simp add: settled_def)
  have d: "unmarked (\<lambda>_ _. []) m p" for m p
    by (simp add: unmarked_def findWrappedDelimiters_def wrapped_delimiters_def blocking_def sr_from_def sr_to_def)
  have e: "\<not> starts_with (after_sel (sample_view 2)) (mk_token (the (MARKS bold)))"
    by (simp add: after_sel_def parts js_str)
  note T = inline_formats_are_undone [where color = "Some (js ''rgb(1,20,255)'')" and c = "js ''rgba(1, 20, 255, 1)''" and pixels = "Some (js ''12'')"
      and command = bold and m = "the (MARKS bold)" and resolve = "\<lambda>_ _. []" and resolve' = "\<lambda>_ _. []", OF a(1) refl refl]
  have "undone (\<lambda>w. setTextColor w (Some (js ''rgb(1,20,255)''))) (\<lambda>w. setTextColor w None) (sample_view 0)"
    using conjunct1 [OF T [of 0]] b c sample_color sample_unwrapped by (simp add: parts js_str)
  moreover have "undone (\<lambda>w. setFontSize w (Some (js ''12''))) (\<lambda>w. setFontSize w None) (sample_view 0)"
    using conjunct1 [OF conjunct2 [OF T [of 0]]] b c sample_size sample_unwrapped by (simp add: parts)
  moreover have "undone (\<lambda>w. Some (toggleSpoiler w)) (\<lambda>w. Some (toggleSpoiler w)) (sample_view 0)"
    using conjunct1 [OF conjunct2 [OF conjunct2 [OF T [of 0]]]] b sample_unwrapped by (simp add: parts)
  moreover have "undone (\<lambda>w. Some (toggleMark (\<lambda>_ _. []) w (the (MARKS bold)))) (\<lambda>w. Some (toggleMark (\<lambda>_ _. []) w (the (MARKS bold)))) (sample_view 2)"
    using conjunct2 [OF conjunct2 [OF conjunct2 [OF T [of 2]]]] d e by (simp add: parts)
  ultimately show ?thesis by blast
qed

end
