(* ===== verification/ListToggle.thy ===== *)
theory ListToggle
  imports Formatting
begin

text \<open>
  What a list command of \<open>Formatting\<close> does to the document: it changes the markers of the lines it is about,
  keeps their indents and items, and leaves every other line alone.
\<close>

section \<open>Changes inside lines\<close>

text \<open>
  An edit of a line is a range of it with a new text. \<open>line_changes\<close> are the changes the edits of the lines from
  number \<open>n\<close> on stand for, \<open>edited\<close> the lines they lead to.
\<close>

type_synonym line_edits = "nat \<Rightarrow> (nat \<times> nat \<times> jsstring) option"

fun line_changes :: "nat \<Rightarrow> nat \<Rightarrow> document \<Rightarrow> line_edits \<Rightarrow> change list" where
  "line_changes off n [] F = []"
| "line_changes off n (l # ls) F =
     (case F n of None \<Rightarrow> [] | Some (p, q, new) \<Rightarrow> [change (off + p) (off + q) new]) @
     line_changes (off + length l + 1) (n + 1) ls F"

definition edited_line :: "(nat \<times> nat \<times> jsstring) option \<Rightarrow> jsstring \<Rightarrow> jsstring" where
  "edited_line e l = (case e of None \<Rightarrow> l | Some (p, q, new) \<Rightarrow> take p l @ new @ drop q l)"

fun edited :: "nat \<Rightarrow> document \<Rightarrow> line_edits \<Rightarrow> document" where
  "edited n [] F = []"
| "edited n (l # ls) F = edited_line (F n) l # edited (n + 1) ls F"

definition edit_ok :: "(nat \<times> nat \<times> jsstring) option \<Rightarrow> jsstring \<Rightarrow> bool" where
  "edit_ok e l \<longleftrightarrow> (case e of None \<Rightarrow> True | Some (p, q, new) \<Rightarrow> p \<le> q \<and> q \<le> length l)"

fun edits_ok :: "nat \<Rightarrow> document \<Rightarrow> line_edits \<Rightarrow> bool" where
  "edits_ok n [] F = True"
| "edits_ok n (l # ls) F = (edit_ok (F n) l \<and> edits_ok (n + 1) ls F)"

lemma line_changes_ge: "c \<in> set (line_changes off n ls F) \<Longrightarrow> off \<le> lc_from c"
  by (induction off n ls F rule: line_changes.induct) (force split: option.splits)+

lemma line_changes_sorted: "edits_ok n ls F \<Longrightarrow> sorted (map lc_from (line_changes off n ls F))"
proof (induction off n ls F rule: line_changes.induct)
  case (2 off n l ls F)
  have "off + p \<le> lc_from c" if "F n = Some (p, q, new)" "c \<in> set (line_changes (off + length l + 1) (n + 1) ls F)" for p q new c
    using line_changes_ge [OF that(2)] 2(2) that(1) by (simp add: edit_ok_def)
  with 2 show ?case by (auto split: option.splits)
qed simp

lemma slice_between: "p \<le> q \<Longrightarrow> drop p t = Prelude.slice t p q @ drop q t"
  using append_take_drop_id [of "q - p" "drop p t", symmetric] by (simp add: Prelude.slice_def)

lemma splice_skip:
  "p \<le> q \<Longrightarrow> \<forall>c \<in> set cs. q \<le> lc_from c \<Longrightarrow> splice p t cs = Prelude.slice t p q @ splice q t cs"
  by (cases cs) (simp_all add: slice_between slice_append_slice)

lemma doc_text_Cons: "ls \<noteq> [] \<Longrightarrow> doc_text (l # ls) = l @ 0x0a # doc_text ls"
  by (simp add: doc_text_def join_with_Cons)

lemma edited_neq_Nil: "edited n ls F = [] \<longleftrightarrow> ls = []"
  by (cases ls) auto

lemma splice_line_changes:
  "ls \<noteq> [] \<Longrightarrow> edits_ok n ls F \<Longrightarrow> length pre = off \<Longrightarrow>
   splice off (pre @ doc_text ls) (line_changes off n ls F) = doc_text (edited n ls F)"
proof (induction off n ls F arbitrary: pre rule: line_changes.induct)
  case (2 off n l ls F)
  show ?case
  proof (cases "ls = []")
    case True
    then show ?thesis
      using 2(3,4) by (auto simp: doc_text_def edited_line_def edit_ok_def Prelude.slice_def split: option.splits)
  next
    case False
    define t where "t = pre @ doc_text (l # ls)"
    define off' where "off' = off + length l + 1"
    define cs where "cs = line_changes off' (n + 1) ls F"
    have t: "t = (pre @ l @ [0x0a]) @ doc_text ls" by (simp add: t_def doc_text_Cons [OF False])
    have IH: "splice off' t cs = doc_text (edited (n + 1) ls F)"
      unfolding t cs_def off'_def using 2 False by (intro 2(1)) auto
    have skip: "splice (off + q) t cs = drop q l @ 0x0a # splice off' t cs" if "q \<le> length l" for q
      using splice_skip [of "off + q" off' cs t] line_changes_ge [of _ off' "n + 1" ls F] that 2(4)
      by (force simp: off'_def cs_def t Prelude.slice_def)
    have ed: "doc_text (edited n (l # ls) F) = edited_line (F n) l @ 0x0a # doc_text (edited (n + 1) ls F)"
      using False by (simp add: doc_text_Cons edited_neq_Nil)
    show ?thesis
    proof (cases "F n")
      case None
      then show ?thesis
        using skip [of 0] IH ed by (simp add: t_def [symmetric] cs_def off'_def edited_line_def)
    next
      case (Some e)
      obtain p q new where e: "e = (p, q, new)" by (cases e)
      have "p \<le> q" "q \<le> length l" using 2(3) by (auto simp: Some e edit_ok_def)
      moreover from this have "Prelude.slice t off (off + p) = take p l" using 2(4) by (simp add: t Prelude.slice_def)
      ultimately show ?thesis
        using skip [of q] IH ed by (simp add: Some e t_def [symmetric] cs_def off'_def edited_line_def)
    qed
  qed
qed simp

lemma apply_line_changes:
  "doc \<noteq> [] \<Longrightarrow> edits_ok 1 doc F \<Longrightarrow> apply_changes (doc_text doc) (line_changes 0 1 doc F) = doc_text (edited 1 doc F)"
  using splice_line_changes [of doc 1 F "[]" 0] line_changes_sorted [of 1 doc F 0]
  by (simp add: apply_changes_def sort_key_id_if_sorted)

lemma line_from_Cons: "1 \<le> n \<Longrightarrow> line_from (l # ls) (Suc n) = length l + 1 + line_from ls n"
  by (cases n) (simp_all add: line_from_def)

definition edit_changes :: "document \<Rightarrow> (nat \<times> nat \<times> jsstring) option \<Rightarrow> nat \<Rightarrow> change list" where
  "edit_changes doc e n = (case e of None \<Rightarrow> [] | Some (p, q, new) \<Rightarrow> [change (line_from doc n + p) (line_from doc n + q) new])"

lemma line_changes_upt:
  "line_changes off m ls F =
   concat (map (\<lambda>k. case F (m + k) of None \<Rightarrow> []
     | Some (p, q, new) \<Rightarrow> [change (off + line_from ls (Suc k) + p) (off + line_from ls (Suc k) + q) new]) [0..<length ls])"
proof (induction off m ls F rule: line_changes.induct)
  case (2 off m l ls F)
  have "[0..<Suc (length ls)] = 0 # map Suc [0..<length ls]"
    by (metis map_Suc_upt upt_conv_Cons zero_less_Suc)
  then show ?case
    using 2 by (simp add: line_from_Cons line_from_def [of _ "Suc 0"] o_def add.assoc cong: option.case_cong)
qed simp

lemma line_changes_doc:
  "line_changes 0 1 doc F = concat (map (\<lambda>n. edit_changes doc (F n) n) [1..<Suc (length doc)])"
proof -
  have "[1..<Suc (length doc)] = map Suc [0..<length doc]" by (simp add: map_Suc_upt)
  show ?thesis
    unfolding line_changes_upt edit_changes_def \<open>[1..<Suc (length doc)] = map Suc [0..<length doc]\<close>
    by (simp add: o_def cong: option.case_cong prod.case_cong)
qed

lemma nth_edited: "i < length ls \<Longrightarrow> edited n ls F ! i = edited_line (F (n + i)) (ls ! i)"
  by (induction ls arbitrary: n i) (auto simp: nth_Cons split: nat.splits)

lemma length_edited [simp]: "length (edited n ls F) = length ls"
  by (induction n ls F rule: edited.induct) auto

lemma edits_ok_nth: "(\<forall>i < length ls. edit_ok (F (n + i)) (ls ! i)) \<Longrightarrow> edits_ok n ls F"
proof (induction n ls F rule: edits_ok.induct)
  case (2 n l ls F)
  have "edit_ok (F (n + 1 + i)) (ls ! i)" if "i < length ls" for i using 2(2) that by (auto dest: spec [of _ "Suc i"])
  with 2 show ?case by fastforce
qed simp

section \<open>The edits of a list command\<close>

text \<open>The place of a line among the targets.\<close>

definition place :: "nat list \<Rightarrow> nat \<Rightarrow> nat" where
  "place targets n = length (takeWhile (\<lambda>m. m \<noteq> n) targets)"

lemma place_nth: "distinct targets \<Longrightarrow> i < length targets \<Longrightarrow> place targets (targets ! i) = i"
proof -
  assume d: "distinct targets" "i < length targets"
  then have "takeWhile (\<lambda>m. m \<noteq> targets ! i) targets = take i targets"
    by (intro takeWhile_eq_take_P_nth) (auto simp: nth_eq_iff_index_eq)
  then show ?thesis using d(2) by (simp add: place_def)
qed

lemma map_enumerate: "distinct targets \<Longrightarrow> map g (enumerate 0 targets) = map (\<lambda>n. g (place targets n, n)) targets"
  by (intro nth_equalityI) (simp_all add: nth_enumerate_eq place_nth)

definition target_edits :: "document \<Rightarrow> EditorCommandId \<Rightarrow> bool \<Rightarrow> nat list \<Rightarrow> line_edits" where
  "target_edits doc command allOn targets n =
     (if n \<in> set targets then list_edit command allOn (place targets n) (doc_line doc n) else None)"

definition all_on :: "document \<Rightarrow> EditorCommandId \<Rightarrow> nat list \<Rightarrow> bool" where
  "all_on doc command targets \<longleftrightarrow> (\<forall>n \<in> set targets. li_mode (lineListInfo (doc_line doc n)) = Some command)"

lemma concat_map_filter: "(\<And>x. x \<in> set xs \<Longrightarrow> \<not> P x \<Longrightarrow> g x = []) \<Longrightarrow> concat (map g (filter P xs)) = concat (map g xs)"
  by (induction xs) auto

lemma list_specs_line_changes:
  assumes "sorted_wrt (<) targets" "\<forall>n \<in> set targets. 1 \<le> n \<and> n \<le> length doc"
  shows "list_specs doc command targets = line_changes 0 1 doc (target_edits doc command (all_on doc command targets) targets)"
proof -
  let ?F = "target_edits doc command (all_on doc command targets) targets"
  have d: "distinct targets" "sorted targets" using assms(1) by (simp_all add: strict_sorted_iff)
  have "targets = filter (\<lambda>n. n \<in> set targets) [1..<Suc (length doc)]"
    using assms(2) d sorted_wrt_filter [OF sorted_upt [of 1 "Suc (length doc)"]] by (intro sorted_distinct_set_unique) auto
  then have "concat (map (\<lambda>n. edit_changes doc (?F n) n) targets) = concat (map (\<lambda>n. edit_changes doc (?F n) n) [1..<Suc (length doc)])"
    using concat_map_filter [of "[1..<Suc (length doc)]" "\<lambda>n. n \<in> set targets" "\<lambda>n. edit_changes doc (?F n) n"]
    by (simp add: target_edits_def edit_changes_def)
  moreover have "list_specs doc command targets = concat (map (\<lambda>n. edit_changes doc (?F n) n) targets)"
    by (auto simp: list_specs_def all_on_def [symmetric] map_enumerate [OF d(1)] target_edits_def edit_changes_def Let_def intro!: arg_cong [where f = concat])
  ultimately show ?thesis unfolding line_changes_doc by (rule trans [rotated])
qed

section \<open>Markers of lines\<close>

lemma spaces_after_le: "spaces_after i t = Some j \<Longrightarrow> i < j \<and> j \<le> length t \<and> (j = length t \<or> \<not> is_js_space (t ! j))"
proof -
  assume a: "spaces_after i t = Some j"
  define w where "w = takeWhile is_js_space (drop i t)"
  have j: "j = i + length w" "w \<noteq> []" using a by (auto simp: spaces_after_def leadingWhitespace_def Let_def w_def split: if_splits)
  have "length w \<le> length (drop i t)" unfolding w_def by (rule length_takeWhile_le)
  moreover have "i < length t" using j(2) by (cases "i < length t") (auto simp: w_def)
  moreover have "\<not> is_js_space (t ! j)" if "j < length t"
    using nth_length_takeWhile [of is_js_space "drop i t"] that j by (simp add: w_def)
  moreover from calculation(1,2) have "i + length w \<le> length t" by auto
  ultimately show ?thesis using j by (cases "i + length w = length t") auto
qed

lemma leading_le: "leadingWhitespace t \<le> length t"
  by (simp add: leadingWhitespace_def length_takeWhile_le)

lemma leading_stops: "leadingWhitespace t < length t \<Longrightarrow> \<not> is_js_space (t ! leadingWhitespace t)"
  by (simp add: leadingWhitespace_def nth_length_takeWhile)

text \<open>A line is its indent, its marker and its item, which does not start with a space.\<close>

definition item_text :: "jsstring \<Rightarrow> jsstring" where
  "item_text t = drop (li_markerEnd (lineListInfo t)) t"

lemma line_info:
  "li_indent (lineListInfo t) = leadingWhitespace t \<and> leadingWhitespace t \<le> li_markerEnd (lineListInfo t) \<and>
   li_markerEnd (lineListInfo t) \<le> length t \<and> (item_text t = [] \<or> \<not> is_js_space (hd (item_text t)))"
proof -
  have b: "i = leadingWhitespace t \<and> i < j \<and> j \<le> length t \<and> (j = length t \<or> \<not> is_js_space (t ! j))" if "BULLET_LINE t = Some (i, j)" for i j
    using that spaces_after_le [of "leadingWhitespace t + 1" t j] by (auto simp: BULLET_LINE_def Let_def split: if_splits)
  have k: "i = leadingWhitespace t \<and> i < j \<and> j \<le> length t \<and> (j = length t \<or> \<not> is_js_space (t ! j))" if "TASK_LINE t = Some (i, j)" for i j
  proof -
    from that obtain j' where j': "BULLET_LINE t = Some (i, j')" "spaces_after (j' + 3) t = Some j"
      by (auto simp: TASK_LINE_def split: option.splits if_splits)
    show ?thesis using b [OF j'(1)] spaces_after_le [OF j'(2)] by auto
  qed
  have m: "i = leadingWhitespace t \<and> i < j \<and> j \<le> length t \<and> (j = length t \<or> \<not> is_js_space (t ! j))" if "ORDERED_LINE t = Some (i, j)" for i j
    using that spaces_after_le by (fastforce simp: ORDERED_LINE_def Let_def split: if_splits)
  have "li_indent (lineListInfo t) = leadingWhitespace t \<and> leadingWhitespace t \<le> li_markerEnd (lineListInfo t) \<and>
      li_markerEnd (lineListInfo t) \<le> length t \<and>
      (li_markerEnd (lineListInfo t) = length t \<or> \<not> is_js_space (t ! li_markerEnd (lineListInfo t)))"
    using b k m leading_le [of t] leading_stops [of t]
    by (fastforce simp: lineListInfo_def split: option.splits)
  then show ?thesis by (auto simp: item_text_def hd_drop_conv_nth)
qed

text \<open>Reading a line the command has written: an indent, a marker and an item.\<close>

definition indented :: "jsstring \<Rightarrow> jsstring \<Rightarrow> jsstring \<Rightarrow> bool" where
  "indented ws marker x \<longleftrightarrow> list_all is_js_space ws \<and> (x = [] \<or> \<not> is_js_space (hd x)) \<and> marker \<noteq> [] \<and> \<not> is_js_space (hd marker)"

lemma indented_leading: "indented ws marker x \<Longrightarrow> leadingWhitespace (ws @ marker @ y) = length ws"
  by (cases marker) (auto simp: indented_def leadingWhitespace_def takeWhile_append list_all_iff)

lemma one_space: "x = [] \<or> \<not> is_js_space (hd x) \<Longrightarrow> leadingWhitespace (0x20 # x) = 1"
  by (cases x) (auto simp: leadingWhitespace_def is_js_space_def)

lemma spaces_after_one:
  "x = [] \<or> \<not> is_js_space (hd x) \<Longrightarrow> length a = i \<Longrightarrow> spaces_after i (a @ 0x20 # x) = Some (i + 1)"
  by (simp add: spaces_after_def one_space)

lemma bullet_written:
  assumes "indented ws (0x2d # 0x20 # m) x" "x' = m @ x" "x' = [] \<or> \<not> is_js_space (hd x')"
  shows "BULLET_LINE (ws @ 0x2d # 0x20 # x') = Some (length ws, length ws + 2)"
  using indented_leading [OF assms(1), of x] assms spaces_after_one [of x' "ws @ [0x2d]" "length ws + 1"]
  by (simp add: BULLET_LINE_def Let_def nth_append is_bullet_def)

text \<open>An item that reads as a checkbox behind a bullet.\<close>

definition task_like :: "jsstring \<Rightarrow> bool" where
  "task_like x \<longleftrightarrow> TASK_LINE (0x2d # 0x20 # x) \<noteq> None"

lemma spaces_after_shift: "spaces_after (length a + i) (a @ t) = map_option ((+) (length a)) (spaces_after i t)"
  by (simp add: spaces_after_def Let_def)

lemma bullet_mode:
  assumes "list_all is_js_space ws" "x = [] \<or> \<not> is_js_space (hd x)" "\<not> task_like x"
  shows "lineListInfo (ws @ js ''- '' @ x) = \<lparr>li_mode = Some bulletList, li_indent = length ws, li_markerEnd = length ws + 2\<rparr>"
proof -
  have i: "indented w (0x2d # 0x20 # []) x" if "list_all is_js_space w" for w
    using assms(2) that by (auto simp: indented_def is_js_space_def)
  have b: "BULLET_LINE (w @ 0x2d # 0x20 # x) = Some (length w, length w + 2)" if "list_all is_js_space w" for w
    using bullet_written [OF i [OF that], of x] assms(2) by simp
  have "TASK_LINE (ws @ 0x2d # 0x20 # x) = None"
    using assms(3) b [of "[]"] b [OF assms(1)] spaces_after_shift [of ws 5 "0x2d # 0x20 # x"]
    by (auto simp: task_like_def TASK_LINE_def nth_append ac_simps numeral_2_eq_2 split: if_splits)
  then show ?thesis using b [OF assms(1)] by (simp add: lineListInfo_def js_str)
qed

lemma task_mode:
  assumes "list_all is_js_space ws" "x = [] \<or> \<not> is_js_space (hd x)"
  shows "lineListInfo (ws @ js ''- [ ] '' @ x) = \<lparr>li_mode = Some taskList, li_indent = length ws, li_markerEnd = length ws + 6\<rparr>"
proof -
  let ?x = "[0x5b, 0x20, 0x5d, 0x20] @ x"
  have i: "indented ws (0x2d # 0x20 # [0x5b, 0x20, 0x5d, 0x20]) x"
    using assms by (auto simp: indented_def is_js_space_def)
  have b: "BULLET_LINE (ws @ 0x2d # 0x20 # ?x) = Some (length ws, length ws + 2)"
    by (rule bullet_written [OF i]) (simp_all add: is_js_space_def)
  have "spaces_after (length ws + 5) (ws @ 0x2d # 0x20 # ?x) = Some (length ws + 6)"
    using spaces_after_one [OF assms(2), of "ws @ [0x2d, 0x20, 0x5b, 0x20, 0x5d]" "length ws + 5"] by simp
  then have "TASK_LINE (ws @ 0x2d # 0x20 # ?x) = Some (length ws, length ws + 6)"
    using b by (simp add: TASK_LINE_def nth_append ac_simps)
  then show ?thesis by (simp add: lineListInfo_def js_str)
qed

lemma ordered_mode:
  assumes "list_all is_js_space ws" "x = [] \<or> \<not> is_js_space (hd x)"
  shows "lineListInfo (ws @ nat_digits n @ js ''. '' @ x) =
    \<lparr>li_mode = Some orderedList, li_indent = length ws, li_markerEnd = length ws + length (nat_digits n) + 2\<rparr>"
proof -
  let ?t = "ws @ nat_digits n @ 0x2e # 0x20 # x"
  have digit: "is_digit (hd (nat_digits n))" using nat_digits_digit [of "hd (nat_digits n)" n] by simp
  then have i: "indented ws (nat_digits n) x"
    using assms by (auto simp: indented_def dest: space_not_digit)
  note l = indented_leading [OF i, of "0x2e # 0x20 # x"]
  have "\<not> is_bullet (hd (nat_digits n))" using digit by (auto simp: is_digit_def is_bullet_def)
  then have "BULLET_LINE ?t = None" by (simp add: BULLET_LINE_def l nth_append hd_conv_nth)
  moreover have "ORDERED_LINE ?t = Some (length ws, length ws + length (nat_digits n) + 2)"
    using take_digits [of "0x2e" n "0x20 # x"] spaces_after_one [OF assms(2), of "ws @ nat_digits n @ [0x2e]"]
    by (simp add: ORDERED_LINE_def l Let_def nth_append is_digit_def is_delimiter_def)
  ultimately show ?thesis by (simp add: lineListInfo_def TASK_LINE_def js_str)
qed

section \<open>The lines after a list command\<close>

lemma list_edit_line:
  assumes "list_edit command allOn i t = Some (p, q, new)"
  shows "p = leadingWhitespace t \<and> p \<le> q \<and> q \<le> length t \<and> drop q t = item_text t \<and> new = (if allOn then [] else list_marker command i)"
  using assms line_info [of t] by (auto simp: list_edit_def Let_def item_text_def split: if_splits)

lemma edited_list_line:
  "edited_line (list_edit command allOn i t) t =
     (if allOn then take (leadingWhitespace t) t @ item_text t
      else if li_mode (lineListInfo t) = Some command then t
      else take (leadingWhitespace t) t @ list_marker command i @ item_text t)"
  using line_info [of t] by (simp add: edited_line_def list_edit_def Let_def item_text_def)

lemma indent_spaces: "list_all is_js_space (take (leadingWhitespace t) t)"
  by (simp add: leadingWhitespace_def takeWhile_eq_take [symmetric] list_all_iff) (auto dest: set_takeWhileD)

lemma marked_line_mode:
  assumes "command \<in> {bulletList, orderedList, taskList}" "command = bulletList \<Longrightarrow> \<not> task_like (item_text t)"
  shows "li_mode (lineListInfo (take (leadingWhitespace t) t @ list_marker command i @ item_text t)) = Some command \<and>
    item_text (take (leadingWhitespace t) t @ list_marker command i @ item_text t) = item_text t"
proof -
  define ws where "ws = take (leadingWhitespace t) t"
  define x where "x = item_text t"
  have x: "x = [] \<or> \<not> is_js_space (hd x)" using line_info [of t] by (simp add: x_def)
  have ws: "list_all is_js_space ws" by (simp add: ws_def indent_spaces)
  show ?thesis
    using assms bullet_mode [OF ws x] task_mode [OF ws x] ordered_mode [OF ws x, of "i + 1"]
    unfolding ws_def [symmetric] x_def [symmetric]
    by (elim insertE emptyE) (simp_all add: list_marker_def item_text_def js_str)
qed

lemma selected_line_bounds:
  assumes "n \<in> set (selected_lines view)" "ev_doc view \<noteq> []"
  shows "1 \<le> n \<and> n \<le> length (ev_doc view)"
proof -
  have l: "1 \<le> lineAt doc pos \<and> (doc \<noteq> [] \<longrightarrow> lineAt doc pos \<le> length doc)" for doc pos
    by (induction doc pos rule: lineAt.induct) auto
  have "list_all (\<lambda>(first, last). 1 \<le> first \<and> last \<le> length (ev_doc view))
      (map (\<lambda>r. (lineAt (ev_doc view) (sr_from r), lineAt (ev_doc view) (sr_to r))) (ev_ranges view))"
    using l assms(2) by (auto simp: list_all_iff)
  from selected_bounds [OF this] show ?thesis using assms(1) by (simp add: selected_lines_def)
qed

lemma list_targets_sub: "set (list_targets doc ns) \<subseteq> set ns"
  by (auto simp: list_targets_def Let_def)

lemma list_targets_sorted: "sorted_wrt (<) ns \<Longrightarrow> sorted_wrt (<) (list_targets doc ns)"
  by (simp add: list_targets_def Let_def sorted_wrt_filter)

text \<open>
  C27. List commands. The transaction of a list command leads to a document of as many lines, where every line that
  is not a target (a selected line; among several, one that is not blank) is as before. When every target is
  an item of the requested list, each loses its marker and keeps its indent and item. Otherwise each target
  keeps its indent and item and becomes an item of the requested list, unless the item itself reads as a checkbox
  behind the new bullet; a target that already is one is as before.
\<close>

theorem list_commands_change_markers:
  assumes "toggleListLine view command = Some t" and "command \<in> {bulletList, orderedList, taskList}"
    and "ev_doc view \<noteq> []" and "targets = list_targets (ev_doc view) (selected_lines view)"
  shows "\<exists>doc'. apply_changes (view_text view) (tr_changes t) = doc_text doc' \<and> length doc' = length (ev_doc view) \<and>
    (\<forall>n \<in> {1..length doc'}. let old = doc_line (ev_doc view) n; new = doc_line doc' n; ws = take (leadingWhitespace old) old in
       if n \<notin> set targets then new = old
       else if all_on (ev_doc view) command targets then new = ws @ item_text old
       else (if li_mode (lineListInfo old) = Some command then new = old
             else new = ws @ list_marker command (place targets n) @ item_text old) \<and>
         (command = bulletList \<and> task_like (item_text old) \<or>
           li_mode (lineListInfo new) = Some command \<and> item_text new = item_text old))"
proof -
  define doc where "doc = ev_doc view"
  let ?on = "all_on doc command targets" let ?F = "target_edits doc command ?on targets"
  have targets: "sorted_wrt (<) targets" "\<forall>n \<in> set targets. 1 \<le> n \<and> n \<le> length doc"
  proof -
    show "sorted_wrt (<) targets"
      unfolding assms(4) selected_lines_def by (intro list_targets_sorted selected_sorted)
    show "\<forall>n \<in> set targets. 1 \<le> n \<and> n \<le> length doc"
      using list_targets_sub selected_line_bounds [OF _ assms(3)] unfolding assms(4) doc_def by blast
  qed
  have t: "tr_changes t = line_changes 0 1 doc ?F"
    using assms(1) list_specs_line_changes [OF targets, of command]
    by (auto simp: toggleListLine_def Let_def doc_def assms(4) split: if_splits)
  have "edit_ok (?F (1 + i)) (doc ! i)" for i
    using list_edit_line [of command ?on "place targets (1 + i)" "doc ! i"]
    by (auto simp: edit_ok_def target_edits_def doc_line_def split: option.split)
  then have "edits_ok 1 doc ?F" by (intro edits_ok_nth) blast
  then have "apply_changes (view_text view) (tr_changes t) = doc_text (edited 1 doc ?F)"
    unfolding t doc_def using assms(3) by (rule apply_line_changes [rotated])
  moreover have "let old = doc_line doc n; new = doc_line (edited 1 doc ?F) n; ws = take (leadingWhitespace old) old in
       if n \<notin> set targets then new = old
       else if ?on then new = ws @ item_text old
       else (if li_mode (lineListInfo old) = Some command then new = old
             else new = ws @ list_marker command (place targets n) @ item_text old) \<and>
         (command = bulletList \<and> task_like (item_text old) \<or>
           li_mode (lineListInfo new) = Some command \<and> item_text new = item_text old)"
    if n: "n \<in> {1..length doc}" for n
  proof -
    define old where "old = doc_line doc n"
    have "doc_line (edited 1 doc ?F) n = edited_line (?F n) old"
    proof -
      have "n - 1 < length doc" "1 + (n - 1) = n" using n by auto
      then show ?thesis using nth_edited [of "n - 1" doc 1 ?F] by (simp add: doc_line_def old_def)
    qed
    then have new: "doc_line (edited 1 doc ?F) n = (if n \<in> set targets then
        edited_line (list_edit command ?on (place targets n) old) old else old)"
      by (simp add: target_edits_def old_def edited_line_def)
    show ?thesis
      unfolding Let_def old_def [symmetric] new edited_list_line
      using marked_line_mode [OF assms(2), of old "place targets n"] by auto
  qed
  ultimately show ?thesis unfolding doc_def by (intro exI [of _ "edited 1 (ev_doc view) ?F"]) (simp add: doc_def)
qed

text \<open>The lines \<open>- a\<close> and \<open>b\<close>, both selected.\<close>

definition two_lines :: editor_view where
  "two_lines = \<lparr>ev_doc = [[0x2d, 0x20, 0x61], [0x62]], ev_ranges = [\<lparr>sr_anchor = 0, sr_head = 5\<rparr>], ev_main = 0\<rparr>"

lemma two_lines_selected: "selected_lines two_lines = [1, 2]"
  by (simp add: selected_lines_def two_lines_def sr_from_def sr_to_def selectedLineNumbers_def upt_rec)

lemma two_lines_info:
  "lineListInfo [0x2d, 0x20, 0x61] = \<lparr>li_mode = Some bulletList, li_indent = 0, li_markerEnd = 2\<rparr>"
  "lineListInfo [0x62] = \<lparr>li_mode = None, li_indent = 0, li_markerEnd = 0\<rparr>"
  by (simp_all add: lineListInfo_def TASK_LINE_def BULLET_LINE_def ORDERED_LINE_def spaces_after_def leadingWhitespace_def is_js_space_def
      is_bullet_def is_digit_def)

lemma two_lines_toggle: "toggleListLine two_lines taskList \<noteq> None"
proof -
  have "list_targets (ev_doc two_lines) [1, 2] = [1, 2]"
    by (simp add: list_targets_def doc_line_def two_lines_def trim_def trim_start_def trim_end_def is_js_space_def)
  then show ?thesis
    unfolding toggleListLine_def two_lines_selected
    by (simp add: list_specs_def list_edit_def doc_line_def two_lines_def two_lines_info)
qed

theorem list_commands_change_markers_witness:
  "\<exists>doc'. apply_changes (view_text two_lines) (tr_changes (the (toggleListLine two_lines taskList))) = doc_text doc' \<and> length doc' = 2"
proof -
  obtain t where t: "toggleListLine two_lines taskList = Some t" using two_lines_toggle by auto
  show ?thesis
    using list_commands_change_markers [OF t _ _ refl] t by (auto simp: two_lines_def)
qed

end
