(* ===== verification/SharedPages.thy ===== *)
theory SharedPages
  imports Drafts DailyQuestion
begin

text \<open>
  Pages shared to the site through its address (\<^verbatim>\<open>components/MemoEditor/utils/sharedNote.ts\<close>): reading the share
  parameters, the note a shared page becomes, and adding it to the saved draft of \<open>Drafts\<close>. The parsing and the
  printing of \<^verbatim>\<open>URLSearchParams\<close> are an argument; between them a query is the list of its pairs.
\<close>

section \<open>The address\<close>

record url_params =
  up_parse :: "jsstring \<Rightarrow> (jsstring \<times> jsstring) list"
  up_print :: "(jsstring \<times> jsstring) list \<Rightarrow> jsstring"

text \<open>The parameters for the title, the text and the address of a page.\<close>

definition SHARE_PARAMS :: "jsstring list" where
  "SHARE_PARAMS = [js ''share_title'', js ''share_text'', js ''share_url'']"

record SharedNote =
  sn_title :: jsstring
  sn_text :: jsstring
  sn_url :: jsstring

definition SHARED_TEXT_LIMIT :: nat where "SHARED_TEXT_LIMIT = 4000"

definition param_text :: "(jsstring \<times> jsstring) list \<Rightarrow> jsstring \<Rightarrow> jsstring" where
  "param_text params name = (case map_of params name of None \<Rightarrow> [] | Some v \<Rightarrow> trim v)"

definition readSharedNote :: "url_params \<Rightarrow> jsstring \<Rightarrow> SharedNote option" where
  "readSharedNote up search =
     (let params = up_parse up search;
          note = \<lparr>sn_title = param_text params (SHARE_PARAMS ! 0), sn_text = param_text params (SHARE_PARAMS ! 1),
                  sn_url = param_text params (SHARE_PARAMS ! 2)\<rparr>
      in if sn_title note \<noteq> [] \<or> sn_text note \<noteq> [] \<or> sn_url note \<noteq> [] then Some note else None)"

definition withoutShareParams :: "url_params \<Rightarrow> jsstring \<Rightarrow> jsstring" where
  "withoutShareParams up search =
     (let params = fold (\<lambda>name ps. filter (\<lambda>p. fst p \<noteq> name) ps) SHARE_PARAMS (up_parse up search);
          rest = up_print up params
      in if rest \<noteq> [] then 0x3f # rest else [])"

section \<open>The note\<close>

text \<open>\<^verbatim>\<open>text.replace(/[[\]\\]/g, "\\$&")\<close>\<close>

definition escapeLinkText :: "jsstring \<Rightarrow> jsstring" where
  "escapeLinkText t = concat (map (\<lambda>c. if c \<in> {0x5b, 0x5d, 0x5c} then [0x5c, c] else [c]) t)"

definition escapeLinkTarget :: "jsstring \<Rightarrow> jsstring" where
  "escapeLinkTarget url =
     concat (map (\<lambda>c. if c = 0x28 then js ''%28'' else if c = 0x29 then js ''%29'' else if is_js_space c then js ''%20'' else [c]) url)"

text \<open>\<^verbatim>\<open>quote.match(/https?:\/\/\S+/)\<close>: the text of the first match; \<^verbatim>\<open>s.replace(p, "")\<close>; \<^verbatim>\<open>s.split(/\r?\n/)\<close>.\<close>

definition link_at :: "jsstring \<Rightarrow> jsstring option" where
  "link_at t =
     (let scheme = (if starts_with t (js ''https://'') then js ''https://''
                    else if starts_with t (js ''http://'') then js ''http://'' else []);
          path = takeWhile (\<lambda>c. \<not> is_js_space c) (drop (length scheme) t)
      in if scheme \<noteq> [] \<and> path \<noteq> [] then Some (scheme @ path) else None)"

fun find_link :: "jsstring \<Rightarrow> jsstring option" where
  "find_link [] = None"
| "find_link (c # t) = (case link_at (c # t) of Some l \<Rightarrow> Some l | None \<Rightarrow> find_link t)"

definition remove_first :: "jsstring \<Rightarrow> jsstring \<Rightarrow> jsstring" where
  "remove_first s p = (case index_of s p of None \<Rightarrow> s | Some i \<Rightarrow> take i s @ drop (i + length p) s)"

fun without_crlf :: "jsstring \<Rightarrow> jsstring" where
  "without_crlf (c # d # t) = (if c = 0x0d \<and> d = 0x0a then 0x0a # without_crlf t else c # without_crlf (d # t))"
| "without_crlf t = t"

definition quoted :: "jsstring \<Rightarrow> jsstring" where
  "quoted quote =
     join_with [0x0a] (map (\<lambda>line. if trim line \<noteq> [] then js ''> '' @ line else js ''>'') (split_on 0x0a (without_crlf quote)))"

definition buildSharedNote :: "SharedNote \<Rightarrow> jsstring" where
  "buildSharedNote note =
     (let title = sn_title note;
          (link, quote) =
            (if sn_url note = [] then
               (case find_link (sn_text note) of
                  Some found \<Rightarrow> (found, trim (remove_first (sn_text note) found))
                | None \<Rightarrow> (sn_url note, sn_text note))
             else if js_includes (sn_text note) (sn_url note)
               then (sn_url note, trim (remove_first (sn_text note) (sn_url note)))
             else (sn_url note, sn_text note));
          quote = (if quote = title then [] else quote);
          parts = (if quote \<noteq> [] then [quoted quote] else []) @
            (if link \<noteq> [] then
               [if title \<noteq> [] then js ''['' @ escapeLinkText title @ js '']('' @ escapeLinkTarget link @ js '')'' else link]
             else if title \<noteq> [] then [title] else [])
      in join_with [0x0a, 0x0a] parts)"

section \<open>Adding the note to the draft\<close>

record page_location =
  pl_pathname :: jsstring
  pl_search :: jsstring
  pl_hash :: jsstring

definition takeSharedNote ::
    "url_params \<Rightarrow> att_codec \<Rightarrow> jsstring \<Rightarrow> jsstring \<Rightarrow> page_location \<times> draft_cache \<Rightarrow> page_location \<times> draft_cache" where
  "takeSharedNote up cd username cacheKey = (\<lambda>(location, dc).
     (case readSharedNote up (pl_search location) of
        None \<Rightarrow> (location, dc)
      | Some shared \<Rightarrow>
          let location' = location\<lparr>pl_search := withoutShareParams up (pl_search location)\<rparr>;
              note = buildSharedNote shared
          in if note = [] then (location', dc)
             else
               let draftKey = cache_key username (Some cacheKey);
                   draft = loadDraft cd draftKey dc;
                   content = (if trim (dr_content draft) \<noteq> [] then trim_end (dr_content draft) @ [0x0a, 0x0a] @ note else note)
               in (location', saveNow cd draftKey content (dr_attachments draft) dc)))"

section \<open>The bookmarklet\<close>

text \<open>\<^verbatim>\<open>encodeURIComponent\<close>; \<open>None\<close> is the \<^verbatim>\<open>URIError\<close> for a lone surrogate.\<close>

definition is_uri_unreserved :: "nat \<Rightarrow> bool" where
  "is_uri_unreserved c \<longleftrightarrow> is_alnum c \<or> c \<in> {0x2d, 0x5f, 0x2e, 0x21, 0x7e, 0x2a, 0x27, 0x28, 0x29}"

definition upper_hex :: "nat \<Rightarrow> nat" where "upper_hex n = (if n < 10 then 0x30 + n else 0x37 + n)"

fun well_formed_utf16 :: "jsstring \<Rightarrow> bool" where
  "well_formed_utf16 [] = True"
| "well_formed_utf16 [c] = (\<not> is_high_surrogate c \<and> \<not> is_low_surrogate c)"
| "well_formed_utf16 (c # d # t) =
     (if is_high_surrogate c then is_low_surrogate d \<and> well_formed_utf16 t
      else \<not> is_low_surrogate c \<and> well_formed_utf16 (d # t))"

definition encodeURIComponent :: "jsstring \<Rightarrow> jsstring option" where
  "encodeURIComponent s =
     (if well_formed_utf16 s
      then Some (concat (map (\<lambda>b. if is_uri_unreserved b then [b] else [0x25, upper_hex (b div 16), upper_hex (b mod 16)]) (text_encode s)))
      else None)"

definition buildBookmarklet :: "jsstring \<Rightarrow> jsstring option" where
  "buildBookmarklet homeUrl =
     (let code = js ''(()=>{'' @ js ''const u=new URL('' @ quote_json homeUrl @ js '');'' @
            js ''const s=String(getSelection()).trim().slice(0,'' @ nat_digits SHARED_TEXT_LIMIT @ js '');'' @
            js ''u.searchParams.set('' @ quote_json (SHARE_PARAMS ! 0) @ js '',document.title);'' @
            js ''u.searchParams.set('' @ quote_json (SHARE_PARAMS ! 2) @ js '',location.href);'' @
            js ''if(s)u.searchParams.set('' @ quote_json (SHARE_PARAMS ! 1) @ js '',s);'' @
            js ''window.open(u.href,'' @ [0x22] @ js ''_blank'' @ [0x22] @ js '','' @ [0x22] @ js ''noopener'' @ [0x22] @ js '');'' @ js ''})()''
      in map_option ((@) (js ''javascript:'')) (encodeURIComponent code))"

section \<open>What a note is made of\<close>










lemma quoted_lines:
  assumes "line \<in> set (split_on 0x0a (quoted q))"
  shows "starts_with line [0x3e]"
proof -
  let ?ls = "map (\<lambda>line. if trim line \<noteq> [] then js ''> '' @ line else js ''>'') (split_on 0x0a (without_crlf q))"
  have "\<forall>w \<in> set ?ls. 0x0a \<notin> set w" using split_on_no_sep by (auto simp: js_str)
  then have "split_on 0x0a (quoted q) = ?ls" unfolding quoted_def by (intro split_join_on) simp_all
  then show ?thesis using assms by (auto simp: js_str)
qed

lemma find_link_neq_Nil: "find_link t = Some l \<Longrightarrow> l \<noteq> []"
  by (induction t) (auto simp: link_at_def Let_def js_str split: option.splits if_splits)

text \<open>The link and the text of a note, after the link is taken out of the text.\<close>

definition note_link :: "SharedNote \<Rightarrow> jsstring" where
  "note_link note = (if sn_url note = [] then (case find_link (sn_text note) of Some l \<Rightarrow> l | None \<Rightarrow> []) else sn_url note)"

definition note_quote :: "SharedNote \<Rightarrow> jsstring" where
  "note_quote note =
     (let q = (if note_link note \<noteq> [] \<and> js_includes (sn_text note) (note_link note)
               then trim (remove_first (sn_text note) (note_link note)) else sn_text note)
      in if q = sn_title note then [] else q)"

lemma find_link_includes: "find_link t = Some l \<Longrightarrow> js_includes t l"
proof (induction t)
  case (Cons c t)
  show ?case
  proof (cases "link_at (c # t)")
    case None
    with Cons show ?thesis by simp
  next
    case (Some l')
    obtain scheme where s: "starts_with (c # t) scheme" "l' = scheme @ takeWhile (\<lambda>c. \<not> is_js_space c) (drop (length scheme) (c # t))"
      using Some by (auto simp: link_at_def Let_def split: if_splits)
    then have "starts_with (c # t) l'"
      by (simp add: starts_with_def) (metis append_take_drop_id takeWhile_eq_take take_add length_append)
    with Some Cons.prems show ?thesis by simp
  qed
qed simp

lemma buildSharedNote_parts:
  "buildSharedNote note =
     join_with [0x0a, 0x0a]
       ((if note_quote note \<noteq> [] then [quoted (note_quote note)] else []) @
        (if note_link note \<noteq> [] then
           [if sn_title note \<noteq> [] then js ''['' @ escapeLinkText (sn_title note) @ js '']('' @ escapeLinkTarget (note_link note) @ js '')''
            else note_link note]
         else if sn_title note \<noteq> [] then [sn_title note] else []))"
  unfolding buildSharedNote_def note_quote_def note_link_def
  by (cases "sn_url note"; cases "find_link (sn_text note)"; cases "js_includes (sn_text note) (sn_url note)")
    (simp_all add: Let_def find_link_neq_Nil find_link_includes)

lemma trim_has_text: "trim v \<noteq> [] \<Longrightarrow> \<exists>c \<in> set (trim v). \<not> is_js_space c"
proof -
  assume a: "trim v \<noteq> []"
  define x where "x = dropWhile is_js_space (rev (trim_start v))"
  have x: "trim v = rev x" by (simp add: trim_def trim_end_def x_def)
  with a have "x \<noteq> []" by simp
  then have "\<not> is_js_space (hd x)" unfolding x_def by (rule hd_dropWhile)
  with x \<open>x \<noteq> []\<close> show ?thesis by (auto intro!: bexI [of _ "hd x"])
qed

lemma quoted_has_text: "\<exists>c \<in> set (quoted q). \<not> is_js_space c"
proof -
  have "hd (split_on 0x0a (quoted q)) \<in> set (split_on 0x0a (quoted q))" by simp
  from quoted_lines [OF this] have "0x3e \<in> set (hd (split_on 0x0a (quoted q)))"
    by (cases "hd (split_on 0x0a (quoted q))") (auto simp: starts_with_def)
  moreover have "set (hd (split_on 0x0a t)) \<subseteq> set t" for t
    by (induction t) (auto split: list.splits)
  ultimately have "0x3e \<in> set (quoted q)" by blast
  then show ?thesis by (auto simp: is_js_space_def intro!: bexI [of _ "0x3e"])
qed

lemma find_link_has_text: "find_link t = Some l \<Longrightarrow> \<exists>c \<in> set l. \<not> is_js_space c"
  by (induction t) (auto simp: link_at_def Let_def js_str is_js_space_def split: option.splits if_splits)

lemma in_join_with: "w \<in> set ws \<Longrightarrow> set w \<subseteq> set (join_with sep ws)"
  by (induction sep ws rule: join_with.induct) auto

lemma param_text_trim: "\<exists>v. param_text ps name = trim v"
  using trim_eq_Nil [of "[]"] by (cases "map_of ps name") (auto simp: param_text_def intro: exI [of _ "[]"])

lemma note_has_text:
  assumes "readSharedNote up search = Some note"
  shows "\<exists>c \<in> set (buildSharedNote note). \<not> is_js_space c"
proof -
  have n: "sn_title note \<noteq> [] \<or> sn_text note \<noteq> [] \<or> sn_url note \<noteq> []"
      "\<exists>v. sn_title note = trim v" "\<exists>v. sn_url note = trim v"
    using assms param_text_trim [of "up_parse up search"] by (auto simp: readSharedNote_def Let_def split: if_splits)
  have title: "\<exists>c \<in> set (sn_title note). \<not> is_js_space c" if "sn_title note \<noteq> []" using n(2) trim_has_text that by metis
  have link: "\<exists>c \<in> set (note_link note). \<not> is_js_space c" if "note_link note \<noteq> []"
    using n(3) trim_has_text find_link_has_text that by (auto simp: note_link_def split: if_splits option.splits) metis
  define parts where "parts = (if note_quote note \<noteq> [] then [quoted (note_quote note)] else []) @
        (if note_link note \<noteq> [] then
           [if sn_title note \<noteq> [] then js ''['' @ escapeLinkText (sn_title note) @ js '']('' @ escapeLinkTarget (note_link note) @ js '')''
            else note_link note]
         else if sn_title note \<noteq> [] then [sn_title note] else [])"
  have "parts \<noteq> []"
    using n(1) by (auto simp: parts_def note_quote_def note_link_def Let_def dest: find_link_neq_Nil split: option.splits if_splits)
  moreover have "\<exists>c \<in> set p. \<not> is_js_space c" if "p \<in> set parts" for p
  proof -
    have "\<not> is_js_space 0x5b" by (simp add: is_js_space_def)
    then have written: "\<exists>c \<in> set (js ''['' @ u). \<not> is_js_space c" for u
      by (intro bexI [of _ "0x5b"]) (simp_all add: js_str)
    from that consider "p = quoted (note_quote note)"
      | "p = js ''['' @ escapeLinkText (sn_title note) @ js '']('' @ escapeLinkTarget (note_link note) @ js '')''"
      | "p = note_link note" "note_link note \<noteq> []" | "p = sn_title note" "sn_title note \<noteq> []"
      unfolding parts_def by (auto split: if_splits)
    then show ?thesis using quoted_has_text written title link by cases (simp only: | blast)+
  qed
  ultimately have "\<exists>p \<in> set parts. \<exists>c \<in> set p. \<not> is_js_space c" by (cases parts) auto
  then obtain p c where "p \<in> set parts" "c \<in> set p" "\<not> is_js_space c" by blast
  moreover from this(1) have "set p \<subseteq> set (join_with [0x0a, 0x0a] parts)" by (rule in_join_with)
  ultimately show ?thesis unfolding buildSharedNote_parts parts_def [symmetric] by blast
qed



















text \<open>Queries without percent encoding: pairs parted by \<open>&\<close>, a name and a value by \<open>=\<close>.\<close>

definition query_params :: url_params where
  "query_params =
     \<lparr>up_parse = (\<lambda>s. map (\<lambda>w. (takeWhile (\<lambda>c. c \<noteq> 0x3d) w, tl (dropWhile (\<lambda>c. c \<noteq> 0x3d) w)))
        (filter (\<lambda>w. 0x3d \<in> set w) (split_on 0x26 (if s \<noteq> [] \<and> hd s = 0x3f then tl s else s)))),
      up_print = (\<lambda>ps. join_with [0x26] (map (\<lambda>(k, v). k @ 0x3d # v) ps))\<rparr>"



text \<open>
  A lone carriage return in a shared text is no line break of the quote, but it is one of Markdown: what follows it
  leaves the quote.
\<close>

lemma lone_return_is_not_quoted: "quoted [0x61, 0x0d, 0x23, 0x20, 0x62] = js ''> '' @ [0x61, 0x0d, 0x23, 0x20, 0x62]"
  by (simp add: quoted_def trim_eq_Nil is_js_space_def js_str)

section \<open>The note joins the draft\<close>

text \<open>What the platform promises of a query printed and parsed again, after pairs were removed.\<close>

definition params_ok :: "url_params \<Rightarrow> bool" where
  "params_ok up \<longleftrightarrow> up_parse up [] = [] \<and>
     (\<forall>s P. (up_print up (filter P (up_parse up s)) = [] \<longleftrightarrow> filter P (up_parse up s) = []) \<and>
        up_parse up (0x3f # up_print up (filter P (up_parse up s))) = filter P (up_parse up s))"

lemma params_without_share:
  assumes "params_ok up"
  shows "up_parse up (withoutShareParams up search) = filter (\<lambda>p. fst p \<notin> set SHARE_PARAMS) (up_parse up search)"
proof -
  have "fold (\<lambda>name ps. filter (\<lambda>p. fst p \<noteq> name) ps) SHARE_PARAMS ps = filter (\<lambda>p. fst p \<notin> set SHARE_PARAMS) ps" for ps :: "(jsstring \<times> jsstring) list"
    by (simp add: SHARE_PARAMS_def conj_ac)
  then show ?thesis
    using assms unfolding withoutShareParams_def params_ok_def Let_def by auto
qed

lemma storage_cancel_pending: "dc_storage (cancel_pending key dc) = dc_storage dc"
  by (simp add: cancel_pending_def clearTimeout_def split: option.splits)

lemma nothing_shared:
  assumes "params_ok up"
  shows "readSharedNote up (withoutShareParams up search) = None"
proof -
  have "map_of (filter (\<lambda>p. fst p \<notin> set SHARE_PARAMS) ps) name = None" if "name \<in> set SHARE_PARAMS" for ps :: "(jsstring \<times> jsstring) list" and name
    using that by (auto simp: map_of_eq_None_iff)
  moreover have "SHARE_PARAMS ! i \<in> set SHARE_PARAMS" if "i < 3" for i
    using that by (intro nth_mem) (simp add: SHARE_PARAMS_def)
  ultimately have "param_text (filter (\<lambda>p. fst p \<notin> set SHARE_PARAMS) ps) (SHARE_PARAMS ! i) = []" if "i < 3" for ps i
    using that by (simp add: param_text_def)
  then show ?thesis by (simp add: readSharedNote_def params_without_share [OF assms])
qed

lemma query_params_ok: "params_ok query_params"
proof -
  define ok where "ok = (\<lambda>p :: jsstring \<times> jsstring. 0x3d \<notin> set (fst p) \<and> 0x26 \<notin> set (fst p) \<and> 0x26 \<notin> set (snd p))"
  have parsed: "ok p" if q: "p \<in> set (up_parse query_params s)" for p s
  proof -
    obtain w where w: "w \<in> set (split_on 0x26 (if s \<noteq> [] \<and> hd s = 0x3f then tl s else s))" "0x3d \<in> set w"
        "p = (takeWhile (\<lambda>c. c \<noteq> 0x3d) w, tl (dropWhile (\<lambda>c. c \<noteq> 0x3d) w))"
      using q unfolding query_params_def by auto
    have "0x26 \<notin> set w" using split_on_no_sep w(1) by metis
    moreover have "set (tl (dropWhile (\<lambda>c. c \<noteq> 0x3d) w)) \<subseteq> set w"
    proof -
      have "set (tl u) \<subseteq> set u" for u :: jsstring by (cases u) auto
      then show ?thesis using set_dropWhileD by fastforce
    qed
    ultimately show ?thesis using w(3) by (auto simp: ok_def dest: set_takeWhileD)
  qed
  have print: "up_parse query_params (0x3f # up_print query_params ps) = ps" if "\<forall>p \<in> set ps. ok p" for ps
  proof (cases "ps = []")
    case False
    have "split_on 0x26 (join_with [0x26] (map (\<lambda>(k, v). k @ 0x3d # v) ps)) = map (\<lambda>(k, v). k @ 0x3d # v) ps"
      using that False by (intro split_join_on) (auto simp: ok_def)
    moreover have "map (\<lambda>w. (takeWhile (\<lambda>c. c \<noteq> 0x3d) w, tl (dropWhile (\<lambda>c. c \<noteq> 0x3d) w)))
        (filter (\<lambda>w. 0x3d \<in> set w) (map (\<lambda>(k, v). k @ 0x3d # v) ps)) = ps"
      using that by (induction ps) (auto simp: ok_def takeWhile_append dropWhile_append)
    ultimately show ?thesis by (simp add: query_params_def)
  qed (simp add: query_params_def)
  have empty: "up_print query_params ps = [] \<longleftrightarrow> ps = []" for ps
    by (cases ps; cases "tl ps") (auto simp: query_params_def)
  show ?thesis
    unfolding params_ok_def
  proof (intro conjI allI)
    show "up_parse query_params [] = []" by (simp add: query_params_def)
    fix s P
    show "up_print query_params (filter P (up_parse query_params s)) = [] \<longleftrightarrow> filter P (up_parse query_params s) = []"
      by (rule empty)
    show "up_parse query_params (0x3f # up_print query_params (filter P (up_parse query_params s))) = filter P (up_parse query_params s)"
      using parsed by (intro print) auto
  qed
qed

text \<open>
  A shared page joins the draft once. Taking a shared page drops the share parameters from the address, keeps
  the other pairs of the query in order, and the path and the fragment; a reload takes nothing again. The
  draft the editor then loads is what was written before (without trailing blanks), a blank line and the note,
  with the attachments it had; or the note alone when nothing was written. No other draft changes.
\<close>

lemma shared_page_joins_draft_once:
  assumes "params_ok up" and "readSharedNote up (pl_search location) = Some shared"
    and "key = cache_key username (Some cacheKey)" and "draft = loadDraft cd key dc"
    and "takeSharedNote up cd username cacheKey (location, dc) = (location', dc')"
    and "content = (if trim (dr_content draft) \<noteq> [] then trim_end (dr_content draft) @ [0x0a, 0x0a] @ buildSharedNote shared
                    else buildSharedNote shared)"
    and "codec_ok cd (dr_attachments draft)" and "code_units content"
    and "dr_attachments draft = [] \<longrightarrow> \<not> starts_with (skip_space content) [0x7b]"
  shows "loadDraft cd key dc' = \<lparr>dr_content = content, dr_attachments = dr_attachments draft\<rparr> \<and>
    takeSharedNote up cd username cacheKey (location', dc') = (location', dc') \<and>
    up_parse up (pl_search location') = filter (\<lambda>p. fst p \<notin> set SHARE_PARAMS) (up_parse up (pl_search location)) \<and>
    pl_pathname location' = pl_pathname location \<and> pl_hash location' = pl_hash location \<and>
    (\<forall>other. other \<noteq> key \<longrightarrow> dc_storage dc' other = dc_storage dc other)"
proof -
  have visible: "\<exists>c \<in> set (buildSharedNote shared). \<not> is_js_space c" using note_has_text [OF assms(2)] .
  then have "buildSharedNote shared \<noteq> []" by auto
  then have step: "location' = location\<lparr>pl_search := withoutShareParams up (pl_search location)\<rparr>"
      "dc' = saveNow cd key content (dr_attachments draft) dc"
    using assms(2,5) unfolding assms(6) by (auto simp: takeSharedNote_def Let_def assms(3,4))
  have c: "trim content \<noteq> []" using visible by (auto simp: assms(6) trim_eq_Nil)
  have "loadDraft cd key dc' = \<lparr>dr_content = content, dr_attachments = dr_attachments draft\<rparr>"
    unfolding step(2) using assms(7-9) c by (intro saved_draft_loads) (auto simp: starts_with_def)
  moreover have "takeSharedNote up cd username cacheKey (location', dc') = (location', dc')"
    using nothing_shared [OF assms(1)] by (simp add: takeSharedNote_def step(1))
  moreover have "\<forall>other. other \<noteq> key \<longrightarrow> dc_storage dc' other = dc_storage dc other"
    by (simp add: step(2) saveNow_def writeEntry_def storage_cancel_pending)
  ultimately show ?thesis using params_without_share [OF assms(1)] by (simp add: step(1))
qed

text \<open>The title \<open>a\<close> shared to a draft that says \<open>b\<close>.\<close>

definition sample_page :: page_location where
  "sample_page = \<lparr>pl_pathname = js ''/home'', pl_search = js ''?share_title=a&x=y'', pl_hash = []\<rparr>"

definition sample_written :: draft_cache where
  "sample_written = cache_start (Map.empty(cache_key (js ''u'') (Some (js ''k'')) \<mapsto> js ''b''))"

lemma sample_shared: "readSharedNote query_params (pl_search sample_page) = Some \<lparr>sn_title = js ''a'', sn_text = [], sn_url = []\<rparr>"
  by (simp add: readSharedNote_def query_params_def sample_page_def param_text_def SHARE_PARAMS_def Let_def js_str
      trim_def trim_start_def trim_end_def is_js_space_def)

lemma sample_loaded: "loadDraft sample_codec (cache_key (js ''u'') (Some (js ''k''))) sample_written = \<lparr>dr_content = js ''b'', dr_attachments = []\<rparr>"
  by (simp add: loadDraft_def sample_written_def cache_start_def or_undefined_def plain_draft js_str is_json_space_def)

lemma shared_page_joins_draft_once_witness:
  "loadDraft sample_codec (cache_key (js ''u'') (Some (js ''k''))) (snd (takeSharedNote query_params sample_codec (js ''u'') (js ''k'') (sample_page, sample_written))) =
   \<lparr>dr_content = js ''b'' @ [0x0a, 0x0a] @ js ''a'', dr_attachments = []\<rparr>"
proof -
  have b: "buildSharedNote \<lparr>sn_title = js ''a'', sn_text = [], sn_url = []\<rparr> = js ''a''"
    by (simp add: buildSharedNote_parts note_quote_def note_link_def js_str)
  have t: "trim (js ''b'') \<noteq> []" "trim_end (js ''b'') = js ''b''"
    by (simp_all add: trim_def trim_start_def trim_end_def js_str is_js_space_def)
  obtain location' dc' where take: "takeSharedNote query_params sample_codec (js ''u'') (js ''k'') (sample_page, sample_written) = (location', dc')"
    by (cases "takeSharedNote query_params sample_codec (js ''u'') (js ''k'') (sample_page, sample_written)")
  have c: "codec_ok sample_codec []" "code_units (js ''b'' @ [0x0a, 0x0a] @ js ''a'')" "\<not> starts_with (skip_space (js ''b'' @ [0x0a, 0x0a] @ js ''a'')) [0x7b]"
    by (simp_all add: codec_ok_def code_units_def js_str starts_with_def is_json_space_def)
  show ?thesis
    using shared_page_joins_draft_once [OF query_params_ok sample_shared refl refl take refl,
        unfolded sample_loaded b t(2) EditorDraft.select_convs if_P [OF t(1)], OF c(1,2)] c(3)
    by (simp add: take)
qed

end
