(* ===== verification/TagRanges.thy ===== *)
theory TagRanges
  imports MarkdownTree TagGrammar
begin

text \<open>
  The text runs of a Markdown source in which the editor looks for tags and for user names
  (\<^verbatim>\<open>components/MemoEditor/Editor/markdownTagRanges.ts\<close>, \<^verbatim>\<open>utils/mention-grammar.ts\<close>, \<^verbatim>\<open>utils/username.ts\<close>). The
  parsers are arguments: those of \<open>md_tree\<close>, and the second Markdown parser as the tree it gives. The second
  parse, which the sources keep for the last text (\<^verbatim>\<open>canonicalCodeCache\<close>), is computed anew at each use.
\<close>

section \<open>Contexts\<close>

text \<open>A tree of the second parser: the type of a node, its offsets and its children.\<close>

datatype mdast_node = Mdast (ma_type: "string option") (ma_start: "nat option") (ma_end: "nat option")
  (ma_children: "mdast_node list")

record tag_parsers =
  tp_tree :: md_tree
  tp_fromMarkdown :: "jsstring \<Rightarrow> mdast_node"

text \<open>
  A state of the editor: its document, the tree it has when parsed up to an offset, and whether that tree is
  complete.
\<close>

record md_state =
  ms_doc :: jsstring
  ms_root :: "nat \<Rightarrow> MarkdownSourceNode"
  ms_treeAvailable :: "nat \<Rightarrow> bool"

record ParsedMarkdownContext =
  pc_parsedTo :: nat
  pc_source :: jsstring
  pc_root :: MarkdownSourceNode
  pc_resolvedLinks :: "(nat \<times> nat) list"
  pc_writtenURLRanges :: "(nat \<times> nat) list"
  pc_emailRanges :: "(nat \<times> nat) list"
  pc_allowUnresolvedLinks :: bool

definition new_context :: "md_tree \<Rightarrow> md_state \<Rightarrow> nat \<Rightarrow> ParsedMarkdownContext option" where
  "new_context T state to =
     (let source = ms_doc state;
          root = ms_root state to;
          resolvedLinks = resolvedMarkdownLinkRanges T source root;
          allowUnresolvedLinks = ms_treeAvailable state to
      in map_option (\<lambda>emails.
           \<lparr>pc_parsedTo = to, pc_source = source, pc_root = root, pc_resolvedLinks = resolvedLinks,
            pc_writtenURLRanges = findMarkdownGFMURLRanges T source root resolvedLinks True,
            pc_emailRanges = map (\<lambda>r. (em_from r, em_to r)) emails,
            pc_allowUnresolvedLinks = allowUnresolvedLinks\<rparr>)
         (findMarkdownGFMEmailRanges T (Suc (length source)) source root resolvedLinks allowUnresolvedLinks))"

text \<open>The context kept for a state serves every shorter prefix.\<close>

definition parsedMarkdownContext ::
    "md_tree \<Rightarrow> md_state \<Rightarrow> nat \<Rightarrow> ParsedMarkdownContext option \<Rightarrow>
     (ParsedMarkdownContext \<times> ParsedMarkdownContext option) option" where
  "parsedMarkdownContext T state to cached =
     (case cached of
        Some c \<Rightarrow> if pc_parsedTo c \<ge> to then Some (c, cached) else map_option (\<lambda>c. (c, Some c)) (new_context T state to)
      | None \<Rightarrow> map_option (\<lambda>c. (c, Some c)) (new_context T state to))"

section \<open>Ranges\<close>

definition clamped :: "nat \<Rightarrow> nat \<Rightarrow> nat \<Rightarrow> nat \<Rightarrow> (nat \<times> nat) list" where
  "clamped from to lowerBound upperBound =
     (let clampedFrom = max from lowerBound; clampedTo = min to upperBound
      in if clampedFrom < clampedTo then [(clampedFrom, clampedTo)] else [])"

text \<open>The pieces of \<open>[cursor, end_at)\<close> outside the opaque ranges.\<close>

fun subtract_pieces :: "nat \<Rightarrow> nat \<Rightarrow> (nat \<times> nat) list \<Rightarrow> (nat \<times> nat) list" where
  "subtract_pieces cursor end_at [] = (if cursor < end_at then [(cursor, end_at)] else [])"
| "subtract_pieces cursor end_at ((f, t) # opaqueRanges) =
     (if t \<le> cursor \<or> f \<ge> end_at then subtract_pieces cursor end_at opaqueRanges
      else
        let piece = (if cursor < f then [(cursor, min f end_at)] else []); next = max cursor t
        in if next \<ge> end_at then piece else piece @ subtract_pieces next end_at opaqueRanges)"

definition subtractRanges :: "(nat \<times> nat) list \<Rightarrow> (nat \<times> nat) list \<Rightarrow> (nat \<times> nat) list" where
  "subtractRanges ranges opaqueRanges = concat (map (\<lambda>(f, t). subtract_pieces f t opaqueRanges) ranges)"

text \<open>The argument \<open>merged\<close> holds the ranges so far, the last one first.\<close>

fun merge_loop :: "(nat \<times> nat) list \<Rightarrow> (nat \<times> nat) list \<Rightarrow> (nat \<times> nat) list" where
  "merge_loop merged [] = rev merged"
| "merge_loop merged (r # rs) =
     (case merged of
        previous # before \<Rightarrow>
          if fst r \<le> snd previous then merge_loop ((fst previous, max (snd previous) (snd r)) # before) rs
          else merge_loop (r # merged) rs
      | [] \<Rightarrow> merge_loop [r] rs)"

definition mergeSourceRanges :: "(nat \<times> nat) list \<Rightarrow> (nat \<times> nat) list" where
  "mergeSourceRanges ranges = merge_loop [] (sort ranges)"

section \<open>Text parsed again\<close>

text \<open>
  The search for the text runs of a tree, over the source and the range it gets; the links and the URLs of the
  tree are arguments. A text parsed again takes a prefix, and its search starts after it.
\<close>

type_synonym literal_search = "jsstring \<Rightarrow> MarkdownSourceNode \<Rightarrow> nat \<Rightarrow> nat \<Rightarrow> (nat \<times> nat) list \<Rightarrow> (nat \<times> nat) list \<Rightarrow>
  (nat \<times> nat) list option"

definition reparse :: "md_tree \<Rightarrow> literal_search \<Rightarrow> jsstring \<Rightarrow> (nat \<times> nat \<Rightarrow> bool) \<Rightarrow> jsstring \<Rightarrow> (nat \<times> nat) list option" where
  "reparse T search pre keep content =
     (let prefixedSource = pre @ content;
          root = sourceParser T prefixedSource;
          resolvedLinks = resolvedMarkdownLinkRanges T prefixedSource root
      in search prefixedSource root (length pre) (length prefixedSource) resolvedLinks
           (filter keep (findMarkdownGFMURLRanges T prefixedSource root resolvedLinks False)))"

text \<open>Ranges of a text parsed again, moved back to where its content stands.\<close>

definition moved :: "nat \<Rightarrow> jsstring \<Rightarrow> (nat \<times> nat) list \<Rightarrow> (nat \<times> nat) list" where
  "moved contentFrom pre ranges = map (\<lambda>(f, t). (f + contentFrom - length pre, t + contentFrom - length pre)) ranges"

definition clamp_all :: "nat \<Rightarrow> nat \<Rightarrow> (nat \<times> nat) list \<Rightarrow> (nat \<times> nat) list" where
  "clamp_all from to ranges = concat (map (\<lambda>(f, t). clamped f t from to) ranges)"

definition collectUnresolvedReferenceLabelRanges ::
    "md_tree \<Rightarrow> literal_search \<Rightarrow> jsstring \<Rightarrow> nat \<Rightarrow> nat \<Rightarrow> MarkdownSourceNode \<Rightarrow> (nat \<times> nat) list option" where
  "collectUnresolvedReferenceLabelRanges T search source from to node =
     (let contentFrom = nd_from node + 1; contentTo = nd_to node - 1 in
      if contentFrom \<ge> contentTo then Some []
      else map_option (\<lambda>found. clamp_all from to (moved contentFrom REFERENCE_LABEL_PREFIX found))
        (reparse T search REFERENCE_LABEL_PREFIX (\<lambda>r. fst r \<noteq> length REFERENCE_LABEL_PREFIX)
          (slice source contentFrom contentTo)))"

definition REJECTED_URL_PREFIX :: jsstring where "REJECTED_URL_PREFIX = js ''x''"

text \<open>The emphasis marks of a rejected URL, found with the text before it in its parent.\<close>

definition rejected_marks :: "md_tree \<Rightarrow> jsstring \<Rightarrow> nat \<Rightarrow> MarkdownSourceNode \<Rightarrow> (nat \<times> nat) list" where
  "rejected_marks T source parentFrom node =
     (let written = slice source (nd_from node) (nd_to node); before = slice source parentFrom (nd_from node) in
      if 0x5f \<in> set written \<and> 0x5f \<in> set before then
        let contextualSource = before @ REJECTED_URL_PREFIX @ written;
            contentFrom = nd_from node - parentFrom + length REJECTED_URL_PREFIX
        in map (\<lambda>m. (nd_from m + parentFrom - length REJECTED_URL_PREFIX, nd_to m + parentFrom - length REJECTED_URL_PREFIX))
          (filter (\<lambda>m. nd_name m = ''EmphasisMark'' \<and> nd_from m \<ge> contentFrom) (subnodes (sourceParser T contextualSource)))
      else [])"

definition collectRejectedURLLiteralRanges ::
    "md_tree \<Rightarrow> literal_search \<Rightarrow> jsstring \<Rightarrow> nat \<Rightarrow> nat \<Rightarrow> nat \<Rightarrow> MarkdownSourceNode \<Rightarrow> (nat \<times> nat) list option" where
  "collectRejectedURLLiteralRanges T search source from to parentFrom node =
     map_option (\<lambda>found.
         clamp_all from to (subtractRanges (moved (nd_from node) REJECTED_URL_PREFIX found) (rejected_marks T source parentFrom node)))
       (reparse T search REJECTED_URL_PREFIX (\<lambda>r. True) (slice source (nd_from node) (nd_to node)))"

fun code_ranges :: "mdast_node \<Rightarrow> (nat \<times> nat) list" where
  "code_ranges (Mdast type start end_at kids) =
     (case (start, end_at) of
        (Some f, Some t) \<Rightarrow> if type = Some ''code'' then [(f, t)] else []
      | _ \<Rightarrow> []) @ concat (map code_ranges kids)"

definition canonicalSourceKeepsCodeOpaque :: "(jsstring \<Rightarrow> mdast_node) \<Rightarrow> jsstring \<Rightarrow> MarkdownSourceNode \<Rightarrow> bool" where
  "canonicalSourceKeepsCodeOpaque fromMarkdown source node \<longleftrightarrow>
     (\<exists>(f, t) \<in> set (code_ranges (fromMarkdown source)). f \<le> nd_from node \<and> t \<ge> nd_to node)"

definition collectReparsedLiteralRanges ::
    "md_tree \<Rightarrow> literal_search \<Rightarrow> jsstring \<Rightarrow> nat \<Rightarrow> nat \<Rightarrow> MarkdownSourceNode \<Rightarrow> (nat \<times> nat) list option" where
  "collectReparsedLiteralRanges T search source from to node =
     map_option (\<lambda>found. clamp_all from to (moved (nd_from node) REFERENCE_LABEL_PREFIX found))
       (reparse T search REFERENCE_LABEL_PREFIX (\<lambda>r. True) (slice source (nd_from node) (nd_to node)))"

section \<open>The text runs of a tree\<close>

text \<open>
  Which containers expose the text between their children: \<open>TEXT_CONTAINERS\<close>, links that do not resolve and
  reference definitions that are none. A \<open>tag_scope\<close> is what a search is given beside the tree.
\<close>

record tag_scope =
  ts_source :: jsstring
  ts_from :: nat
  ts_to :: nat
  ts_resolvedLinks :: "(nat \<times> nat) list"
  ts_writtenURLs :: "(nat \<times> nat) list"
  ts_allowUnresolvedLinks :: bool

definition unresolvedLinkLike :: "tag_scope \<Rightarrow> MarkdownSourceNode \<Rightarrow> bool" where
  "unresolvedLinkLike S node \<longleftrightarrow>
     ts_allowUnresolvedLinks S \<and> link_like (nd_name node) \<and> \<not> hasExactMarkdownRange (ts_resolvedLinks S) node"

definition invalidLinkReference :: "md_tree \<Rightarrow> tag_scope \<Rightarrow> MarkdownSourceNode \<Rightarrow> bool" where
  "invalidLinkReference T S node \<longleftrightarrow>
     nd_name node = ''LinkReference'' \<and> \<not> isValidMarkdownLinkReference T (ts_source S) node"

definition scansDirectText :: "md_tree \<Rightarrow> tag_scope \<Rightarrow> MarkdownSourceNode \<Rightarrow> bool" where
  "scansDirectText T S node \<longleftrightarrow>
     nd_name node \<in> set TEXT_CONTAINERS \<or> unresolvedLinkLike S node \<or> invalidLinkReference T S node"

text \<open>An entity that names nothing is text.\<close>

definition unknown_entity :: "md_tree \<Rightarrow> jsstring \<Rightarrow> MarkdownSourceNode \<Rightarrow> bool" where
  "unknown_entity T source child \<longleftrightarrow>
     nd_name child = ''Entity'' \<and>
     (let spelling = slice source (nd_from child) (nd_to child) in decodeString (md_text_of T) spelling = spelling)"

text \<open>What happens to a child of a container: it is parsed again, it is opaque, or its own text is collected.\<close>

datatype child_kind = reparsed_code | reparsed_label | rejected_url | opaque_url | nested

definition child_kind_of :: "tag_parsers \<Rightarrow> tag_scope \<Rightarrow> MarkdownSourceNode \<Rightarrow> MarkdownSourceNode \<Rightarrow> child_kind" where
  "child_kind_of P S node child =
     (if nd_name node = ''Blockquote'' \<and> nd_name child = ''CodeBlock'' \<and>
         \<not> canonicalSourceKeepsCodeOpaque (tp_fromMarkdown P) (ts_source S) child then reparsed_code
      else if invalidLinkReference (tp_tree P) S node \<and> nd_name child = ''LinkLabel'' then reparsed_label
      else if nd_name child = ''URL'' then
        if hasExactMarkdownRange (ts_writtenURLs S) child then opaque_url else rejected_url
      else if unresolvedLinkLike S node \<and> nd_name child = ''LinkLabel'' then reparsed_label
      else nested)"

text \<open>
  \<^verbatim>\<open>collectLiteralRanges\<close> and its loop over the children; the argument \<open>search\<close> is the same search on a text parsed
  again.
\<close>

definition collect_reparsed ::
    "tag_parsers \<Rightarrow> literal_search \<Rightarrow> tag_scope \<Rightarrow> MarkdownSourceNode \<Rightarrow> MarkdownSourceNode \<Rightarrow> (nat \<times> nat) list option" where
  "collect_reparsed P search S node child =
     (let T = tp_tree P; source = ts_source S; from = ts_from S; to = ts_to S in
      case child_kind_of P S node child of
        reparsed_code \<Rightarrow> collectReparsedLiteralRanges T search source from to child
      | reparsed_label \<Rightarrow> collectUnresolvedReferenceLabelRanges T search source from to child
      | rejected_url \<Rightarrow> collectRejectedURLLiteralRanges T search source from to (nd_from node) child
      | _ \<Rightarrow> Some [])"

fun collectLiteralRanges ::
    "tag_parsers \<Rightarrow> literal_search \<Rightarrow> tag_scope \<Rightarrow> MarkdownSourceNode \<Rightarrow> (nat \<times> nat) list option"
  and collect_gaps ::
    "tag_parsers \<Rightarrow> literal_search \<Rightarrow> tag_scope \<Rightarrow> MarkdownSourceNode \<Rightarrow> nat \<Rightarrow> MarkdownSourceNode list \<Rightarrow>
     (nat \<times> nat) list option" where
  "collectLiteralRanges P search S (Node name f t cs) =
     (let node = Node name f t [] in
      if t \<le> ts_from S \<or> f \<ge> ts_to S then Some []
      else if \<not> scansDirectText (tp_tree P) S node \<and> name \<notin> set STRUCTURAL_CONTAINERS then Some []
      else collect_gaps P search S node f cs)"
| "collect_gaps P search S node cursor [] =
     Some (if scansDirectText (tp_tree P) S node then clamped cursor (nd_to node) (ts_from S) (ts_to S) else [])"
| "collect_gaps P search S node cursor (child # cs) =
     (if unknown_entity (tp_tree P) (ts_source S) child \<or> nd_to child \<le> cursor
      then collect_gaps P search S node cursor cs
      else do {
        let before = (if scansDirectText (tp_tree P) S node
          then clamped cursor (nd_from child) (ts_from S) (ts_to S) else []);
        inner \<leftarrow> (if nd_from child < cursor then Some []
          else if child_kind_of P S node child = nested then collectLiteralRanges P search S child
          else collect_reparsed P search S node child);
        after \<leftarrow> collect_gaps P search S node (max cursor (nd_to child)) cs;
        Some (before @ inner @ after)
      })"

text \<open>The fuel bounds the depth of texts parsed again inside texts parsed again.\<close>

fun literal_search :: "tag_parsers \<Rightarrow> nat \<Rightarrow> bool \<Rightarrow> literal_search" where
  "literal_search P 0 allow source root from to links urls = None"
| "literal_search P (Suc fuel) allow source root from to links urls =
     collectLiteralRanges P (literal_search P fuel True)
       \<lparr>ts_source = source, ts_from = from, ts_to = to, ts_resolvedLinks = links, ts_writtenURLs = urls,
        ts_allowUnresolvedLinks = allow\<rparr> root"

definition search_fuel :: "jsstring \<Rightarrow> nat" where "search_fuel source = 64 * length source + 65"

definition context_ranges :: "tag_parsers \<Rightarrow> ParsedMarkdownContext \<Rightarrow> nat \<Rightarrow> nat \<Rightarrow> (nat \<times> nat) list option" where
  "context_ranges P context from to =
     map_option (\<lambda>ranges.
         mergeSourceRanges (subtractRanges (subtractRanges (subtractRanges ranges
             (map (\<lambda>(f, t, _). (f, t)) (findDecodedMarkdownSourceBoundaries (md_text_of (tp_tree P)) (pc_source context) from to)))
           (pc_emailRanges context)) (pc_writtenURLRanges context)))
       (literal_search P (search_fuel (pc_source context)) (pc_allowUnresolvedLinks context) (pc_source context)
         (pc_root context) from to (pc_resolvedLinks context) (pc_writtenURLRanges context))"

definition literalMarkdownSourceRanges ::
    "tag_parsers \<Rightarrow> md_state \<Rightarrow> nat \<Rightarrow> nat \<Rightarrow> ParsedMarkdownContext option \<Rightarrow>
     ((nat \<times> nat) list \<times> ParsedMarkdownContext option) option" where
  "literalMarkdownSourceRanges P state from to cached =
     do {
       (context, cached') \<leftarrow> parsedMarkdownContext (tp_tree P) state to cached;
       ranges \<leftarrow> context_ranges P context from to;
       Some (ranges, cached')
     }"

section \<open>User names\<close>

definition MAX_USERNAME_LENGTH :: nat where "MAX_USERNAME_LENGTH = 36"

definition isUsernameCharacter :: "nat \<Rightarrow> bool" where
  "isUsernameCharacter c \<longleftrightarrow> is_alnum c \<or> c = 0x2d"

definition isValidUsername :: "jsstring \<Rightarrow> bool" where
  "isValidUsername username \<longleftrightarrow>
     \<not> (length username = 0 \<or> length username > MAX_USERNAME_LENGTH) \<and>
     is_alnum (hd username) \<and> is_alnum (last username) \<and> (\<forall>c \<in> set username. isUsernameCharacter c)"

record MentionMatch =
  mm_from :: nat
  mm_to :: nat
  mm_username :: jsstring

definition hasLeftBoundary :: "jsstring \<Rightarrow> nat \<Rightarrow> bool \<Rightarrow> bool" where
  "hasLeftBoundary source position runHasLeftBoundary \<longleftrightarrow>
     (if position = 0 then runHasLeftBoundary else \<not> isUsernameCharacter (source ! (position - 1)))"

text \<open>The end of the user name that starts at an offset.\<close>

definition username_end :: "jsstring \<Rightarrow> nat \<Rightarrow> nat" where
  "username_end source end_at = end_at + length (takeWhile isUsernameCharacter (drop end_at source))"

function mention_loop :: "jsstring \<Rightarrow> bool \<Rightarrow> nat \<Rightarrow> MentionMatch list" where
  "mention_loop source leftBoundary position =
     (if position < length source then
        if source ! position \<noteq> 0x40 \<or> \<not> hasLeftBoundary source position leftBoundary
        then mention_loop source leftBoundary (position + 1)
        else
          let end_at = username_end source (position + 1);
              username = slice source (position + 1) end_at;
              found = (if isValidUsername username
                then [\<lparr>mm_from = position, mm_to = end_at, mm_username = username\<rparr>] else [])
          in found @ mention_loop source leftBoundary (if end_at = position + 1 then position + 1 else end_at)
      else [])"
  by pat_completeness auto
termination by (relation "measure (\<lambda>(source, _, position). length source - position)") (auto simp: username_end_def)

declare mention_loop.simps [simp del]

definition findMentionMatches :: "jsstring \<Rightarrow> bool \<Rightarrow> MentionMatch list" where
  "findMentionMatches source runHasLeftBoundary = mention_loop source runHasLeftBoundary 0"

section \<open>Tags and user names of a state\<close>

definition range_tags :: "tag_tables \<Rightarrow> jsstring \<Rightarrow> nat \<times> nat \<Rightarrow> TagMatch list option" where
  "range_tags tables source run_range =
     (let run = slice source (fst run_range) (snd run_range) in
      map_option (map (\<lambda>m. m\<lparr>tm_from := fst run_range + tm_from m, tm_to := fst run_range + tm_to m\<rparr>))
        (findTagMatches tables run 0 (length run)))"

fun concat_some :: "'a list option list \<Rightarrow> 'a list option" where
  "concat_some [] = Some []"
| "concat_some (x # xs) = do { a \<leftarrow> x; b \<leftarrow> concat_some xs; Some (a @ b) }"

definition findMarkdownTagMatches ::
    "tag_tables \<Rightarrow> tag_parsers \<Rightarrow> md_state \<Rightarrow> nat \<Rightarrow> nat \<Rightarrow> ParsedMarkdownContext option \<Rightarrow>
     (TagMatch list \<times> ParsedMarkdownContext option) option" where
  "findMarkdownTagMatches tables P state from to cached =
     do {
       (ranges, cached') \<leftarrow> literalMarkdownSourceRanges P state from to cached;
       matches \<leftarrow> concat_some (map (range_tags tables (ms_doc state)) ranges);
       Some (matches, cached')
     }"

definition range_mentions :: "jsstring \<Rightarrow> nat \<times> nat \<Rightarrow> MentionMatch list" where
  "range_mentions source run_range =
     (let runHasLeftBoundary = (fst run_range = 0 \<or> \<not> isUsernameCharacter (source ! (fst run_range - 1))) in
      map (\<lambda>m. m\<lparr>mm_from := fst run_range + mm_from m, mm_to := fst run_range + mm_to m\<rparr>)
        (findMentionMatches (slice source (fst run_range) (snd run_range)) runHasLeftBoundary))"

definition findMarkdownMentionMatches ::
    "tag_parsers \<Rightarrow> md_state \<Rightarrow> nat \<Rightarrow> nat \<Rightarrow> ParsedMarkdownContext option \<Rightarrow>
     (MentionMatch list \<times> ParsedMarkdownContext option) option" where
  "findMarkdownMentionMatches P state from to cached =
     map_option (\<lambda>(ranges, cached'). (concat (map (range_mentions (ms_doc state)) ranges), cached'))
       (literalMarkdownSourceRanges P state from to cached)"

text \<open>The tag that ends at the cursor, and whether the cursor ends a text run; \<open>lineFrom\<close> is where its line starts.\<close>

definition tagMatchBefore ::
    "tag_tables \<Rightarrow> tag_parsers \<Rightarrow> md_state \<Rightarrow> nat \<Rightarrow> nat \<Rightarrow> ParsedMarkdownContext option \<Rightarrow> TagMatch option option" where
  "tagMatchBefore tables P state lineFrom position cached =
     map_option (\<lambda>(matches, _). find (\<lambda>m. tm_to m = position) (rev matches))
       (findMarkdownTagMatches tables P state lineFrom position cached)"

definition isLiteralTagPosition ::
    "tag_parsers \<Rightarrow> md_state \<Rightarrow> nat \<Rightarrow> nat \<Rightarrow> ParsedMarkdownContext option \<Rightarrow> bool option" where
  "isLiteralTagPosition P state lineFrom position cached =
     map_option (\<lambda>(ranges, _). \<exists>r \<in> set ranges. snd r = position)
       (literalMarkdownSourceRanges P state lineFrom position cached)"

section \<open>Covered offsets\<close>

definition covered :: "(nat \<times> nat) list \<Rightarrow> nat \<Rightarrow> bool" where
  "covered rs p \<longleftrightarrow> (\<exists>(a, b) \<in> set rs. a \<le> p \<and> p < b)"

lemma covered_simps [simp]:
  "\<not> covered [] p"
  "covered ((a, b) # rs) p \<longleftrightarrow> a \<le> p \<and> p < b \<or> covered rs p"
  "covered (rs @ rs') p \<longleftrightarrow> covered rs p \<or> covered rs' p"
  "covered (rev rs) p \<longleftrightarrow> covered rs p"
  "covered (concat rss) p \<longleftrightarrow> (\<exists>rs \<in> set rss. covered rs p)"
  "covered (sort rs) p \<longleftrightarrow> covered rs p"
  by (auto simp: covered_def)

text \<open>Ranges inside \<open>[lo, hi]\<close>, none of them empty.\<close>

definition inside :: "nat \<Rightarrow> nat \<Rightarrow> (nat \<times> nat) list \<Rightarrow> bool" where
  "inside lo hi rs \<longleftrightarrow> (\<forall>(a, b) \<in> set rs. lo \<le> a \<and> a < b \<and> b \<le> hi)"

lemma inside_simps [simp]:
  "inside lo hi []"
  "inside lo hi ((a, b) # rs) \<longleftrightarrow> lo \<le> a \<and> a < b \<and> b \<le> hi \<and> inside lo hi rs"
  "inside lo hi (rs @ rs') \<longleftrightarrow> inside lo hi rs \<and> inside lo hi rs'"
  "inside lo hi (concat rss) \<longleftrightarrow> (\<forall>rs \<in> set rss. inside lo hi rs)"
  "inside lo hi (sort rs) \<longleftrightarrow> inside lo hi rs"
  by (auto simp: inside_def)

lemma inside_mono: "inside lo hi rs \<Longrightarrow> lo' \<le> lo \<Longrightarrow> hi \<le> hi' \<Longrightarrow> inside lo' hi' rs"
  by (fastforce simp: inside_def)

lemma inside_covered: "inside lo hi rs \<Longrightarrow> covered rs p \<Longrightarrow> lo \<le> p \<and> p < hi"
  by (fastforce simp: inside_def covered_def)

lemma covered_clamped: "covered (clamped f t lo hi) p \<longleftrightarrow> f \<le> p \<and> p < t \<and> lo \<le> p \<and> p < hi"
  by (auto simp: clamped_def Let_def)

lemma inside_clamped: "inside (max f lo) (min t hi) (clamped f t lo hi)"
  by (auto simp: clamped_def Let_def)

lemma covered_pieces:
  assumes "sorted_wrt (\<lambda>r r'. fst r \<le> fst r') opaque"
  shows "covered (subtract_pieces c e opaque) p \<longleftrightarrow> c \<le> p \<and> p < e \<and> \<not> covered opaque p"
  using assms
proof (induction c e opaque rule: subtract_pieces.induct)
  case (2 c e f t opaque)
  have later: "\<not> covered opaque p" if "p < f" using that "2.prems" by (fastforce simp: covered_def)
  show ?case
  proof (cases "t \<le> c \<or> f \<ge> e")
    case True
    with 2 show ?thesis by auto
  next
    case False
    then have "covered (subtract_pieces c e ((f, t) # opaque)) p \<longleftrightarrow>
        (c \<le> p \<and> p < min f e) \<or> (max c t < e \<and> max c t \<le> p \<and> p < e \<and> \<not> covered opaque p)"
      using 2 by (auto simp: Let_def)
    with False later show ?thesis by auto
  qed
qed simp

lemma inside_pieces: "inside c e (subtract_pieces c e opaque)"
proof (induction c e opaque rule: subtract_pieces.induct)
  case (2 c e f t opaque)
  have "inside c e rs" if "inside t e rs" "c \<le> t" for rs using that by (auto intro: inside_mono)
  with 2 show ?case by (auto simp: Let_def)
qed simp

lemma covered_subtract:
  "sorted_wrt (\<lambda>r r'. fst r \<le> fst r') opaque \<Longrightarrow> covered (subtractRanges rs opaque) p \<longleftrightarrow> covered rs p \<and> \<not> covered opaque p"
  by (force simp: subtractRanges_def covered_pieces covered_def [of rs])

lemma inside_subtract: "inside lo hi rs \<Longrightarrow> inside lo hi (subtractRanges rs opaque)"
  using inside_pieces inside_mono by (force simp: subtractRanges_def inside_def [of lo hi rs])

lemma inside_clamp_all: "inside f t rs \<Longrightarrow> inside (max f lo) (min t hi) (clamp_all lo hi rs)"
  by (auto simp: clamp_all_def inside_def clamped_def Let_def)

lemma inside_moved:
  assumes "inside (length pre) (length pre + n) rs"
  shows "inside contentFrom (contentFrom + n) (moved contentFrom pre rs)"
proof -
  have r: "length pre \<le> a" "a < b" "b \<le> length pre + n" if "(a, b) \<in> set rs" for a b
    using assms that by (auto simp: inside_def)
  have "contentFrom \<le> a + contentFrom - length pre \<and> a + contentFrom - length pre < b + contentFrom - length pre \<and>
      b + contentFrom - length pre \<le> contentFrom + n" if "(a, b) \<in> set rs" for a b
    using r [OF that] by linarith
  then show ?thesis unfolding inside_def moved_def by auto
qed

text \<open>Ranges that neither overlap nor touch, in order.\<close>

definition apart :: "(nat \<times> nat) list \<Rightarrow> bool" where
  "apart rs \<longleftrightarrow> sorted_wrt (\<lambda>r r'. snd r < fst r') rs"

lemma merge_loop_apart:
  assumes "sorted_wrt (\<lambda>r r'. fst r \<le> fst r') (rev merged @ rs)" "apart (rev merged)" "inside lo hi merged" "inside lo hi rs"
  shows "apart (merge_loop merged rs) \<and> inside lo hi (merge_loop merged rs) \<and>
    (\<forall>p. covered (merge_loop merged rs) p \<longleftrightarrow> covered merged p \<or> covered rs p)"
  using assms
proof (induction merged rs rule: merge_loop.induct)
  case (1 merged)
  then show ?case by (auto simp: inside_def)
next
  case (2 merged r rs)
  obtain c d where r: "r = (c, d)" by (cases r)
  show ?case
  proof (cases merged)
    case Nil
    with 2 show ?thesis by (simp add: r apart_def)
  next
    case (Cons previous before)
    obtain a b where previous: "previous = (a, b)" by (cases previous)
    have ac: "a \<le> c" using "2.prems"(1) by (simp add: Cons previous r sorted_wrt_append)
    show ?thesis
    proof (cases "c \<le> b")
      case True
      have "apart (rev ((a, max b d) # before))" using "2.prems"(2) by (simp add: Cons previous apart_def sorted_wrt_append)
      moreover have "sorted_wrt (\<lambda>r r'. fst r \<le> fst r') (rev ((a, max b d) # before) @ rs)"
        using "2.prems"(1) by (auto simp: Cons previous r sorted_wrt_append)
      moreover have "inside lo hi ((a, max b d) # before)" using "2.prems"(3,4) by (auto simp: Cons previous r)
      ultimately have "apart (merge_loop ((a, max b d) # before) rs) \<and> inside lo hi (merge_loop ((a, max b d) # before) rs) \<and>
          (\<forall>p. covered (merge_loop ((a, max b d) # before) rs) p \<longleftrightarrow> covered ((a, max b d) # before) p \<or> covered rs p)"
        using "2.IH"(2) [OF Cons] "2.prems"(4) True by (simp add: previous r)
      moreover have "merge_loop merged (r # rs) = merge_loop ((a, max b d) # before) rs"
        using True by (simp add: Cons previous r)
      moreover have "a \<le> p \<and> p < max b d \<longleftrightarrow> a \<le> p \<and> p < b \<or> c \<le> p \<and> p < d" for p using True ac by auto
      ultimately show ?thesis by (simp add: Cons previous r) blast
    next
      case False
      have "apart (rev (r # merged))"
      proof -
        have "snd q < c" if "q \<in> set before" for q
        proof -
          have "snd q < a" using "2.prems"(2) that by (auto simp: Cons previous apart_def sorted_wrt_append)
          with ac show ?thesis by simp
        qed
        then show ?thesis using "2.prems"(2) False by (auto simp: Cons previous r apart_def sorted_wrt_append)
      qed
      have sorted: "sorted_wrt (\<lambda>r r'. fst r \<le> fst r') (rev (r # merged) @ rs)" using "2.prems"(1) by simp
      have "inside lo hi (r # merged)" "inside lo hi rs" using "2.prems"(3,4) by (simp_all add: r)
      with "2.IH"(3) [OF Cons _ sorted \<open>apart (rev (r # merged))\<close>] False
      have "apart (merge_loop (r # merged) rs) \<and> inside lo hi (merge_loop (r # merged) rs) \<and>
          (\<forall>p. covered (merge_loop (r # merged) rs) p \<longleftrightarrow> covered (r # merged) p \<or> covered rs p)"
        by (simp add: previous r)
      then show ?thesis using False by (simp add: Cons previous r disj_ac)
    qed
  qed
qed

lemma sorted_fst: "sorted (rs :: (nat \<times> nat) list) \<Longrightarrow> sorted_wrt (\<lambda>r r'. fst r \<le> fst r') rs"
  by (erule sorted_wrt_mono_rel [rotated]) (auto simp: less_eq_prod_def)

lemma mergeSourceRanges_apart:
  assumes "inside lo hi rs"
  shows "apart (mergeSourceRanges rs)" "inside lo hi (mergeSourceRanges rs)" "covered (mergeSourceRanges rs) p \<longleftrightarrow> covered rs p"
  using merge_loop_apart [of "[]" "sort rs" lo hi] assms sorted_fst [of "sort rs"]
  by (simp_all add: mergeSourceRanges_def apart_def)

end
