(* ===== verification/TagRuns.thy ===== *)
theory TagRuns
  imports TagRanges
begin

text \<open>
  Which offsets of a source are searched for tags and user names: those a tree exposes, without the character
  references, the e-mail addresses and the written URLs. The search parses parts of the source again and returns.
\<close>

section \<open>Exposed text\<close>

definition bare :: "MarkdownSourceNode \<Rightarrow> MarkdownSourceNode" where
  "bare node = Node (nd_name node) (nd_from node) (nd_to node) []"

lemma bare_simps [simp]: "bare (Node name f t cs) = Node name f t []"
  by (simp add: bare_def)

definition container :: "md_tree \<Rightarrow> tag_scope \<Rightarrow> MarkdownSourceNode \<Rightarrow> bool" where
  "container T S node \<longleftrightarrow> scansDirectText T S node \<or> nd_name node \<in> set STRUCTURAL_CONTAINERS"

text \<open>The children an offset stands in; an entity that names nothing is text.\<close>

definition around :: "md_tree \<Rightarrow> tag_scope \<Rightarrow> nat \<Rightarrow> MarkdownSourceNode \<Rightarrow> bool" where
  "around T S p child \<longleftrightarrow> \<not> unknown_entity T (ts_source S) child \<and> nd_from child \<le> p \<and> p < nd_to child"

text \<open>
  A child that is read again: the text it is parsed with after a prefix (a label without its brackets), the offsets that
  text stands at, and the scope of the tree it gives.
\<close>

definition again_prefix :: "child_kind \<Rightarrow> jsstring" where
  "again_prefix kind = (if kind = rejected_url then REJECTED_URL_PREFIX else REFERENCE_LABEL_PREFIX)"

definition again_from :: "child_kind \<Rightarrow> MarkdownSourceNode \<Rightarrow> nat" where
  "again_from kind c = (if kind = reparsed_label then nd_from c + 1 else nd_from c)"

definition again_to :: "child_kind \<Rightarrow> MarkdownSourceNode \<Rightarrow> nat" where
  "again_to kind c = (if kind = reparsed_label then nd_to c - 1 else nd_to c)"

definition again_text :: "jsstring \<Rightarrow> child_kind \<Rightarrow> MarkdownSourceNode \<Rightarrow> jsstring" where
  "again_text source kind c = again_prefix kind @ slice source (again_from kind c) (again_to kind c)"

definition again_scope :: "md_tree \<Rightarrow> jsstring \<Rightarrow> child_kind \<Rightarrow> MarkdownSourceNode \<Rightarrow> tag_scope" where
  "again_scope T source kind c =
     (let s = again_text source kind c; root = sourceParser T s; links = resolvedMarkdownLinkRanges T s root in
      \<lparr>ts_source = s, ts_from = length (again_prefix kind), ts_to = length s, ts_resolvedLinks = links,
       ts_writtenURLs = filter (\<lambda>r. kind = reparsed_label \<longrightarrow> fst r \<noteq> length REFERENCE_LABEL_PREFIX)
         (findMarkdownGFMURLRanges T s root links False),
       ts_allowUnresolvedLinks = True\<rparr>)"

definition parses_again :: "child_kind \<Rightarrow> MarkdownSourceNode \<Rightarrow> bool" where
  "parses_again kind c \<longleftrightarrow>
     kind = rejected_url \<or> kind = reparsed_code \<or> kind = reparsed_label \<and> nd_from c + 1 < nd_to c - 1"

text \<open>The offsets of a child that are read again: in a rejected URL all but its emphasis marks.\<close>

definition read_again :: "md_tree \<Rightarrow> jsstring \<Rightarrow> nat \<Rightarrow> child_kind \<Rightarrow> MarkdownSourceNode \<Rightarrow> nat \<Rightarrow> bool" where
  "read_again T source parentFrom kind c p \<longleftrightarrow>
     parses_again kind c \<and> again_from kind c \<le> p \<and> p < again_to kind c \<and>
     (kind = rejected_url \<longrightarrow> \<not> covered (rejected_marks T source parentFrom c) p)"

text \<open>
  An offset is text of a node when the node counts the text between its children and no child stands around the offset;
  or when the node is a container with a child around the offset, and the offset is text of that child, or of the tree its
  own text is parsed to where that is read again.
\<close>

inductive text_at :: "tag_parsers \<Rightarrow> tag_scope \<Rightarrow> MarkdownSourceNode \<Rightarrow> nat \<Rightarrow> bool" for P where
  own: "f \<le> p \<Longrightarrow> p < t \<Longrightarrow> scansDirectText (tp_tree P) S (Node name f t []) \<Longrightarrow>
    \<forall>c \<in> set cs. \<not> around (tp_tree P) S p c \<Longrightarrow> text_at P S (Node name f t cs) p"
| of_child: "c \<in> set cs \<Longrightarrow> around (tp_tree P) S p c \<Longrightarrow> container (tp_tree P) S (Node name f t []) \<Longrightarrow>
    child_kind_of P S (Node name f t []) c = nested \<Longrightarrow> text_at P S c p \<Longrightarrow> text_at P S (Node name f t cs) p"
| of_again: "c \<in> set cs \<Longrightarrow> around (tp_tree P) S p c \<Longrightarrow> container (tp_tree P) S (Node name f t []) \<Longrightarrow>
    kind = child_kind_of P S (Node name f t []) c \<Longrightarrow> read_again (tp_tree P) (ts_source S) f kind c p \<Longrightarrow>
    text_at P (again_scope (tp_tree P) (ts_source S) kind c) (sourceParser (tp_tree P) (again_text (ts_source S) kind c))
      (p - again_from kind c + length (again_prefix kind)) \<Longrightarrow>
    text_at P S (Node name f t cs) p"

inductive_simps text_at_node: "text_at P S (Node name f t cs) p"

text \<open>What a child that is not searched itself adds.\<close>

definition again_at :: "tag_parsers \<Rightarrow> tag_scope \<Rightarrow> MarkdownSourceNode \<Rightarrow> MarkdownSourceNode \<Rightarrow> nat \<Rightarrow> bool" where
  "again_at P S n c p \<longleftrightarrow> (let kind = child_kind_of P S n c in
     read_again (tp_tree P) (ts_source S) (nd_from n) kind c p \<and>
     text_at P (again_scope (tp_tree P) (ts_source S) kind c) (sourceParser (tp_tree P) (again_text (ts_source S) kind c))
       (p - again_from kind c + length (again_prefix kind)))"

lemma not_parsed [simp]: "\<not> parses_again nested c" "\<not> parses_again opaque_url c"
  by (simp_all add: parses_again_def)

lemma text_at_children:
  "\<exists>c \<in> set cs. around (tp_tree P) S p c \<Longrightarrow> text_at P S (Node name f t cs) p \<longleftrightarrow>
     container (tp_tree P) S (Node name f t []) \<and> (\<exists>c \<in> set cs. around (tp_tree P) S p c \<and>
       (if child_kind_of P S (Node name f t []) c = nested then text_at P S c p else again_at P S (Node name f t []) c p))"
  by (subst text_at_node) (auto simp: again_at_def Let_def read_again_def)

lemma text_at_own:
  "\<forall>c \<in> set cs. \<not> around (tp_tree P) S p c \<Longrightarrow> text_at P S (Node name f t cs) p \<longleftrightarrow>
     f \<le> p \<and> p < t \<and> scansDirectText (tp_tree P) S (Node name f t [])"
  by (subst text_at_node) auto

section \<open>The search over the children\<close>

definition child_ranges :: "tag_parsers \<Rightarrow> literal_search \<Rightarrow> tag_scope \<Rightarrow> MarkdownSourceNode \<Rightarrow> MarkdownSourceNode \<Rightarrow> (nat \<times> nat) list option" where
  "child_ranges P search S node c =
     (if child_kind_of P S node c = nested then collectLiteralRanges P search S c else collect_reparsed P search S node c)"

text \<open>A result that stays inside its node and inside the range that is asked for.\<close>

definition good :: "tag_scope \<Rightarrow> MarkdownSourceNode \<Rightarrow> (nat \<times> nat) list \<Rightarrow> bool" where
  "good S node rs \<longleftrightarrow> inside (ts_from S) (ts_to S) rs \<and> inside (nd_from node) (nd_to node) rs"

lemma gaps_covered:
  assumes "sorted_wrt (\<lambda>c d. nd_to c \<le> nd_from d) cs"
    and "\<forall>c \<in> set cs. cursor \<le> nd_from c \<and> nd_from c \<le> nd_to c \<and> nd_to c \<le> nd_to node"
    and "cursor \<le> nd_to node"
    and "\<forall>c \<in> set cs. \<exists>r. child_ranges P search S node c = Some r \<and> good S c r"
  shows "\<exists>rs. collect_gaps P search S node cursor cs = Some rs \<and>
    inside (ts_from S) (ts_to S) rs \<and> inside cursor (nd_to node) rs \<and>
    (\<forall>p. ts_from S \<le> p \<and> p < ts_to S \<longrightarrow> (covered rs p \<longleftrightarrow>
       (if \<exists>c \<in> set cs. around (tp_tree P) S p c
        then \<exists>c \<in> set cs. around (tp_tree P) S p c \<and> covered (the (child_ranges P search S node c)) p
        else scansDirectText (tp_tree P) S node \<and> cursor \<le> p \<and> p < nd_to node)))"
  using assms
proof (induction cs arbitrary: cursor)
  case Nil
  have "inside (max cursor (ts_from S)) (min (nd_to node) (ts_to S)) (clamped cursor (nd_to node) (ts_from S) (ts_to S))"
    by (rule inside_clamped)
  then show ?case by (auto simp: covered_clamped intro: inside_mono)
next
  case (Cons c cs)
  let ?skip = "unknown_entity (tp_tree P) (ts_source S) c \<or> nd_to c \<le> cursor"
  show ?case
  proof (cases ?skip)
    case True
    have c: "\<not> around (tp_tree P) S p c" for p
      using True Cons.prems(2) by (auto simp: around_def)
    have "\<forall>c \<in> set cs. cursor \<le> nd_from c \<and> nd_from c \<le> nd_to c \<and> nd_to c \<le> nd_to node" using Cons.prems(2) by simp
    with Cons.IH [of cursor] Cons.prems True show ?thesis by (simp add: c split del: if_split cong: if_cong)
  next
    case False
    have cr: "cursor \<le> nd_from c" "nd_from c \<le> nd_to c" "nd_to c \<le> nd_to node" using Cons.prems(2) by auto
    obtain r where r: "child_ranges P search S node c = Some r" "good S c r" using Cons.prems(4) by auto
    have max: "max cursor (nd_to c) = nd_to c" using cr by simp
    obtain rs where rs: "collect_gaps P search S node (nd_to c) cs = Some rs" "inside (ts_from S) (ts_to S) rs"
        "inside (nd_to c) (nd_to node) rs"
      and cov: "\<And>p. ts_from S \<le> p \<and> p < ts_to S \<Longrightarrow> covered rs p \<longleftrightarrow>
       (if \<exists>c \<in> set cs. around (tp_tree P) S p c
        then \<exists>c \<in> set cs. around (tp_tree P) S p c \<and> covered (the (child_ranges P search S node c)) p
        else scansDirectText (tp_tree P) S node \<and> nd_to c \<le> p \<and> p < nd_to node)"
      using Cons.IH [of "nd_to c"] Cons.prems cr by auto
    let ?before = "if scansDirectText (tp_tree P) S node then clamped cursor (nd_from c) (ts_from S) (ts_to S) else []"
    have result: "collect_gaps P search S node cursor (c # cs) = Some (?before @ r @ rs)"
      using False rs(1) r(1) cr max by (auto simp: child_ranges_def Let_def split: if_splits)
    have before: "inside (ts_from S) (ts_to S) ?before" "inside cursor (nd_from c) ?before"
      using inside_clamped [of cursor "ts_from S" "nd_from c" "ts_to S"] by (auto intro: inside_mono)
    have later: "nd_to c \<le> p" if "d \<in> set cs" "around (tp_tree P) S p d" for p d
      using Cons.prems(1) that by (auto simp: around_def)
    have "covered (?before @ r @ rs) p \<longleftrightarrow>
       (if \<exists>d \<in> set (c # cs). around (tp_tree P) S p d
        then \<exists>d \<in> set (c # cs). around (tp_tree P) S p d \<and> covered (the (child_ranges P search S node d)) p
        else scansDirectText (tp_tree P) S node \<and> cursor \<le> p \<and> p < nd_to node)"
      if p: "ts_from S \<le> p \<and> p < ts_to S" for p
    proof -
      have b: "covered ?before p \<longleftrightarrow> scansDirectText (tp_tree P) S node \<and> cursor \<le> p \<and> p < nd_from c"
        using p by (simp add: covered_clamped)
      have rp: "nd_from c \<le> p \<and> p < nd_to c" if "covered r p" using r(2) inside_covered that by (auto simp: good_def)
      have rsp: "nd_to c \<le> p" if "covered rs p" using rs(3) inside_covered that by blast
      consider "p < nd_from c" | "nd_from c \<le> p" "p < nd_to c" | "nd_to c \<le> p" by linarith
      then show ?thesis
      proof cases
        case 1
        then have "\<not> around (tp_tree P) S p d" if "d \<in> set (c # cs)" for d
          using later [of d p] that cr by (auto simp: around_def)
        with 1 b rp rsp cr show ?thesis by auto
      next
        case 2
        then have a: "around (tp_tree P) S p c" using False by (simp add: around_def)
        have "\<not> around (tp_tree P) S p d" if "d \<in> set cs" for d using later [OF that, of p] 2 by auto
        moreover have "\<not> covered ?before p" "\<not> covered rs p" using b rsp 2 by auto
        ultimately show ?thesis using a r(1) by auto
      next
        case 3
        then have "\<not> around (tp_tree P) S p c" by (simp add: around_def)
        moreover have "\<not> covered ?before p" "\<not> covered r p" using b rp 3 cr by auto
        ultimately show ?thesis using cov [OF p] 3 cr by auto
      qed
    qed
    moreover have "inside (ts_from S) (ts_to S) (?before @ r @ rs)" "inside cursor (nd_to node) (?before @ r @ rs)"
      using before rs r(2) cr inside_mono [of cursor "nd_from c" ?before cursor "nd_to node"]
        inside_mono [of "nd_to c" "nd_to node" rs cursor "nd_to node"] inside_mono [of "nd_from c" "nd_to c" r cursor "nd_to node"]
      by (simp_all add: good_def)
    ultimately show ?thesis unfolding result by blast
  qed
qed

section \<open>The search over a tree\<close>

definition nested_in :: "MarkdownSourceNode \<Rightarrow> MarkdownSourceNode \<Rightarrow> MarkdownSourceNode \<Rightarrow> bool" where
  "nested_in root m c \<longleftrightarrow> m \<in> set (subnodes root) \<and> c \<in> set (nd_children m)"

lemma nested_in_child: "c \<in> set cs \<Longrightarrow> nested_in c m d \<Longrightarrow> nested_in (Node name f t cs) m d"
  by (auto simp: nested_in_def)

lemma tree_covered:
  assumes "wf_node root"
    and "\<And>m c. nested_in root m c \<Longrightarrow> child_kind_of P S (bare m) c \<noteq> nested \<Longrightarrow>
      \<exists>r. collect_reparsed P search S (bare m) c = Some r \<and> good S c r \<and>
        (\<forall>p. ts_from S \<le> p \<and> p < ts_to S \<longrightarrow> (covered r p \<longleftrightarrow> again_at P S (bare m) c p))"
  shows "\<exists>rs. collectLiteralRanges P search S root = Some rs \<and> good S root rs \<and>
    (\<forall>p. ts_from S \<le> p \<and> p < ts_to S \<longrightarrow> (covered rs p \<longleftrightarrow> text_at P S root p))"
  using assms
proof (induction root)
  case (Node name f t cs)
  let ?n = "Node name f t []" and ?root = "Node name f t cs"
  have child: "\<exists>r. child_ranges P search S ?n c = Some r \<and> good S c r \<and> (\<forall>p. ts_from S \<le> p \<and> p < ts_to S \<longrightarrow>
      (covered r p \<longleftrightarrow> (if child_kind_of P S ?n c = nested then text_at P S c p else again_at P S ?n c p)))" if c: "c \<in> set cs" for c
  proof (cases "child_kind_of P S ?n c = nested")
    case True
    have "wf_node c" using Node.prems(1) c by simp
    from Node.IH [OF c this Node.prems(2) [OF nested_in_child [OF c]]] True show ?thesis by (simp add: child_ranges_def)
  next
    case False
    have "nested_in ?root ?root c" using c by (simp add: nested_in_def)
    from Node.prems(2) [OF this] False show ?thesis by (simp add: child_ranges_def)
  qed
  have kids: "\<forall>c \<in> set cs. f \<le> nd_from c \<and> nd_from c \<le> nd_to c \<and> nd_to c \<le> t" using Node.prems(1) wf_node_range by auto
  show ?case
  proof (cases "t \<le> ts_from S \<or> f \<ge> ts_to S \<or> \<not> container (tp_tree P) S ?n")
    case True
    then have "collectLiteralRanges P search S ?root = Some []" by (auto simp: container_def Let_def)
    moreover have "\<not> text_at P S ?root p" if "ts_from S \<le> p \<and> p < ts_to S" for p
      using True that kids by (subst text_at_node) (fastforce simp: container_def around_def)
    ultimately show ?thesis by (simp add: good_def)
  next
    case False
    then have c: "collectLiteralRanges P search S ?root = collect_gaps P search S ?n f cs" by (auto simp: container_def Let_def)
    have "\<forall>c \<in> set cs. \<exists>r. child_ranges P search S ?n c = Some r \<and> good S c r" using child by blast
    then obtain rs where rs: "collect_gaps P search S ?n f cs = Some rs" "inside (ts_from S) (ts_to S) rs" "inside f t rs"
      and cov: "\<And>p. ts_from S \<le> p \<and> p < ts_to S \<Longrightarrow> covered rs p \<longleftrightarrow>
       (if \<exists>c \<in> set cs. around (tp_tree P) S p c
        then \<exists>c \<in> set cs. around (tp_tree P) S p c \<and> covered (the (child_ranges P search S ?n c)) p
        else scansDirectText (tp_tree P) S ?n \<and> f \<le> p \<and> p < t)"
      using gaps_covered [of cs f ?n P search S] Node.prems(1) kids by auto
    have "covered rs p \<longleftrightarrow> text_at P S ?root p" if p: "ts_from S \<le> p \<and> p < ts_to S" for p
    proof (cases "\<exists>c \<in> set cs. around (tp_tree P) S p c")
      case True
      have "covered (the (child_ranges P search S ?n c)) p \<longleftrightarrow>
          (if child_kind_of P S ?n c = nested then text_at P S c p else again_at P S ?n c p)" if "c \<in> set cs" for c
        using child [OF that] p by auto
      then show ?thesis using True False by (simp add: cov [OF p] text_at_children [OF True] cong: bex_cong)
    qed (auto simp: cov [OF p] text_at_own)
    then show ?thesis unfolding c using rs by (auto simp: good_def)
  qed
qed

section \<open>Texts parsed again\<close>

text \<open>A search that finds exactly the text of a tree.\<close>

definition finds_text :: "tag_parsers \<Rightarrow> literal_search \<Rightarrow> tag_scope \<Rightarrow> MarkdownSourceNode \<Rightarrow> bool" where
  "finds_text P search R root \<longleftrightarrow>
     (\<exists>rs. search (ts_source R) root (ts_from R) (ts_to R) (ts_resolvedLinks R) (ts_writtenURLs R) = Some rs \<and>
        inside (ts_from R) (ts_to R) rs \<and> (\<forall>q. ts_from R \<le> q \<and> q < ts_to R \<longrightarrow> (covered rs q \<longleftrightarrow> text_at P R root q)))"

lemma covered_clamp_all: "covered (clamp_all lo hi rs) p \<longleftrightarrow> lo \<le> p \<and> p < hi \<and> covered rs p"
  by (induction rs) (auto simp: clamp_all_def covered_clamped)

lemma covered_moved:
  "inside (length pre) m rs \<Longrightarrow> covered (moved i pre rs) p \<longleftrightarrow> i \<le> p \<and> covered rs (p - i + length pre)"
  by (induction rs) (auto simp: moved_def)

lemma good_clamped: "inside (nd_from c) (nd_to c) rs \<Longrightarrow> good S c (clamp_all (ts_from S) (ts_to S) rs)"
  using inside_clamp_all [of "nd_from c" "nd_to c" rs "ts_from S" "ts_to S"] by (auto simp: good_def intro: inside_mono)

lemma subnodes_from: "wf_node root \<Longrightarrow> m \<in> set (subnodes root) \<Longrightarrow> nd_from root \<le> nd_from m \<and> nd_from m \<le> nd_to root"
proof (induction root)
  case (Node name f t cs)
  then show ?case by fastforce
qed

lemma subnodes_sorted: "wf_node root \<Longrightarrow> sorted_wrt (\<lambda>m m'. nd_from m \<le> nd_from m') (subnodes root)"
proof (induction root)
  case (Node name f t cs)
  have kids: "\<forall>c \<in> set cs. wf_node c" "sorted_wrt (\<lambda>c d. nd_to c \<le> nd_from d) cs" using Node.prems by auto
  then have "sorted_wrt (\<lambda>m m'. nd_from m \<le> nd_from m') (concat (map subnodes cs))"
    using Node.IH
  proof (induction cs)
    case (Cons c cs)
    have "nd_from m \<le> nd_from m'" if "m \<in> set (subnodes c)" "d \<in> set cs" "m' \<in> set (subnodes d)" for m m' d
    proof -
      have "nd_from m \<le> nd_to c" using subnodes_from [of c m] Cons.prems(1) that(1) by simp
      also have "\<dots> \<le> nd_from d" using Cons.prems(2) that(2) by simp
      also have "\<dots> \<le> nd_from m'" using subnodes_from [of d m'] Cons.prems(1) that(2,3) by simp
      finally show ?thesis .
    qed
    then show ?case using Cons by (auto simp: sorted_wrt_append)
  qed simp
  moreover have "f \<le> nd_from m" if "m \<in> set (subnodes (Node name f t cs))" for m using subnodes_from [OF Node.prems that] by simp
  ultimately show ?case by auto
qed

lemma marks_sorted:
  assumes "parser_ok T"
  shows "sorted_wrt (\<lambda>r r'. fst r \<le> fst r') (rejected_marks T source parentFrom c)"
proof -
  let ?root = "sourceParser T (slice source parentFrom (nd_from c) @ REJECTED_URL_PREFIX @ slice source (nd_from c) (nd_to c))"
  have "wf_node ?root" using assms by (simp add: parser_ok_def Let_def)
  then have f: "sorted_wrt (\<lambda>m m'. nd_from m \<le> nd_from m') (filter Q (subnodes ?root))" for Q
    by (intro sorted_wrt_filter subnodes_sorted)
  have "sorted_wrt (\<lambda>r r'. fst r \<le> fst r') (map (\<lambda>m. (nd_from m + k - l, nd_to m + k - l)) (filter Q (subnodes ?root)))" for k l Q
    unfolding sorted_wrt_map by (rule sorted_wrt_mono_rel [OF _ f]) simp
  then show ?thesis by (simp add: rejected_marks_def Let_def)
qed

lemma reparse_finds:
  assumes "finds_text P search (again_scope (tp_tree P) source kind c) (sourceParser (tp_tree P) (again_text source kind c))"
    and "nd_to c \<le> length source" "again_from kind c \<le> again_to kind c" "again_to kind c \<le> nd_to c" "nd_from c \<le> again_from kind c"
  shows "\<exists>rs. reparse (tp_tree P) search (again_prefix kind) (\<lambda>r. kind = reparsed_label \<longrightarrow> fst r \<noteq> length REFERENCE_LABEL_PREFIX)
      (slice source (again_from kind c) (again_to kind c)) = Some rs \<and>
    inside (nd_from c) (nd_to c) (moved (again_from kind c) (again_prefix kind) rs) \<and>
    (\<forall>p. covered (moved (again_from kind c) (again_prefix kind) rs) p \<longleftrightarrow>
       again_from kind c \<le> p \<and> p < again_to kind c \<and>
       text_at P (again_scope (tp_tree P) source kind c) (sourceParser (tp_tree P) (again_text source kind c))
         (p - again_from kind c + length (again_prefix kind)))"
proof -
  let ?pre = "again_prefix kind" and ?i = "again_from kind c" and ?j = "again_to kind c"
  let ?text = "text_at P (again_scope (tp_tree P) source kind c) (sourceParser (tp_tree P) (again_text source kind c))"
  have len: "length (slice source ?i ?j) = ?j - ?i" using assms(2,4) by (simp add: length_slice)
  obtain rs where rs: "reparse (tp_tree P) search ?pre (\<lambda>r. kind = reparsed_label \<longrightarrow> fst r \<noteq> length REFERENCE_LABEL_PREFIX)
      (slice source ?i ?j) = Some rs" "inside (length ?pre) (length ?pre + (?j - ?i)) rs"
    "\<And>q. length ?pre \<le> q \<Longrightarrow> q < length ?pre + (?j - ?i) \<Longrightarrow> covered rs q \<longleftrightarrow> ?text q"
    using assms(1) by (auto simp: finds_text_def again_scope_def again_text_def reparse_def Let_def len)
  have m: "inside ?i (?i + (?j - ?i)) (moved ?i ?pre rs)" by (rule inside_moved [OF rs(2)])
  then have "inside (nd_from c) (nd_to c) (moved ?i ?pre rs)" using assms(3-5) by (auto intro: inside_mono)
  moreover have "covered (moved ?i ?pre rs) p \<longleftrightarrow> ?i \<le> p \<and> p < ?j \<and> ?text (p - ?i + length ?pre)" for p
  proof (cases "?i \<le> p \<and> p < ?j")
    case True
    then have "length ?pre \<le> p - ?i + length ?pre" "p - ?i + length ?pre < length ?pre + (?j - ?i)" by linarith+
    from rs(3) [OF this] show ?thesis using True covered_moved [OF rs(2), of ?i p] by blast
  next
    case False
    then show ?thesis using inside_covered [OF m, of p] assms(3) by auto
  qed
  ultimately show ?thesis using rs(1) by blast
qed

lemma collect_reparsed_text:
  assumes "parser_ok (tp_tree P)" "nd_from c \<le> nd_to c" "nd_to c \<le> length (ts_source S)" and "child_kind_of P S n c = kind" "kind \<noteq> nested"
    and "parses_again kind c \<Longrightarrow>
      finds_text P search (again_scope (tp_tree P) (ts_source S) kind c) (sourceParser (tp_tree P) (again_text (ts_source S) kind c))"
  shows "\<exists>r. collect_reparsed P search S n c = Some r \<and> good S c r \<and>
    (\<forall>p. ts_from S \<le> p \<and> p < ts_to S \<longrightarrow> (covered r p \<longleftrightarrow> again_at P S n c p))"
proof (cases "parses_again kind c")
  case False
  then have "collect_reparsed P search S n c = Some []" using assms(4,5)
    by (cases kind) (auto simp: parses_again_def collect_reparsed_def collectUnresolvedReferenceLabelRanges_def)
  then show ?thesis using False by (simp add: good_def again_at_def read_again_def assms(4) Let_def)
next
  case True
  have b: "again_from kind c \<le> again_to kind c" "again_to kind c \<le> nd_to c" "nd_from c \<le> again_from kind c"
    using True assms(2) by (auto simp: parses_again_def again_from_def again_to_def)
  let ?moved = "moved (again_from kind c) (again_prefix kind)"
  obtain rs where rs: "reparse (tp_tree P) search (again_prefix kind) (\<lambda>r. kind = reparsed_label \<longrightarrow> fst r \<noteq> length REFERENCE_LABEL_PREFIX)
      (slice (ts_source S) (again_from kind c) (again_to kind c)) = Some rs" "inside (nd_from c) (nd_to c) (?moved rs)"
    and cov: "\<And>p. covered (?moved rs) p \<longleftrightarrow> again_from kind c \<le> p \<and> p < again_to kind c \<and>
       text_at P (again_scope (tp_tree P) (ts_source S) kind c) (sourceParser (tp_tree P) (again_text (ts_source S) kind c))
         (p - again_from kind c + length (again_prefix kind))"
    using reparse_finds [OF assms(6) [OF True] assms(3) b] by blast
  let ?marks = "if kind = rejected_url then rejected_marks (tp_tree P) (ts_source S) (nd_from n) c else []"
  have "collect_reparsed P search S n c = Some (clamp_all (ts_from S) (ts_to S)
      (if kind = rejected_url then subtractRanges (?moved rs) ?marks else ?moved rs))"
    using rs(1) True assms(4,5)
    by (cases kind) (auto simp: collect_reparsed_def collectUnresolvedReferenceLabelRanges_def collectReparsedLiteralRanges_def
        collectRejectedURLLiteralRanges_def parses_again_def again_prefix_def again_from_def again_to_def)
  moreover have "inside (nd_from c) (nd_to c) (if kind = rejected_url then subtractRanges (?moved rs) ?marks else ?moved rs)"
    using rs(2) inside_subtract by (cases "kind = rejected_url") simp_all
  moreover have "covered (if kind = rejected_url then subtractRanges (?moved rs) ?marks else ?moved rs) p \<longleftrightarrow> again_at P S n c p" for p
    using True covered_subtract [OF marks_sorted [OF assms(1), of "ts_source S" "nd_from n" c]] cov [of p]
    unfolding again_at_def read_again_def assms(4) Let_def by (cases "kind = rejected_url") (simp_all add: conj_ac)
  ultimately show ?thesis using good_clamped covered_clamp_all by auto
qed

section \<open>The search returns\<close>

text \<open>
  What the grammar of the parser promises about the nodes whose text is parsed again: a label starts at its bracket; the code
  of a block quote comes after the mark of the quote and a white space; an address does not follow a letter, a digit or an
  underscore, and one that starts the source is in one of the forms of an extended autolink.
\<close>

definition word_unit :: "nat \<Rightarrow> bool" where "word_unit c \<longleftrightarrow> is_alnum c \<or> c = 0x5f"

definition address_start :: "jsstring \<Rightarrow> bool" where
  "address_start u \<longleftrightarrow>
     (\<exists>w \<in> set [''www.'', ''http://'', ''https://'', ''mailto:'', ''xmpp:'']. starts_with u (js w)) \<or>
     (let n = length (takeWhile (\<lambda>c. word_unit c \<or> c = 0x2e \<or> c = 0x2b \<or> c = 0x2d) u) in
      1 \<le> n \<and> n \<le> 50 \<and> n < length u \<and> u ! n = 0x40)"

definition reparse_laws :: "jsstring \<Rightarrow> MarkdownSourceNode \<Rightarrow> bool" where
  "reparse_laws s root \<longleftrightarrow>
     (\<forall>m \<in> set (subnodes root). \<forall>c \<in> set (nd_children m).
        (nd_name c = ''LinkLabel'' \<longrightarrow> nd_from c < length s \<and> s ! nd_from c = 0x5b) \<and>
        (nd_name m = ''Blockquote'' \<and> nd_name c = ''CodeBlock'' \<longrightarrow>
           nd_from c \<le> length s \<and> (\<exists>k < nd_from c - 1. s ! k = 0x3e)) \<and>
        (nd_name c = ''URL'' \<longrightarrow> nd_from c \<le> length s \<and>
           (if nd_from c = 0 then address_start (slice s 0 (nd_to c)) else \<not> word_unit (s ! (nd_from c - 1)))))"

definition tag_parser_ok :: "md_tree \<Rightarrow> bool" where
  "tag_parser_ok T \<longleftrightarrow> parser_ok T \<and> (\<forall>s. reparse_laws s (sourceParser T s))"

text \<open>The letters x a text starts with: every text parsed again starts with one.\<close>

definition lead :: "jsstring \<Rightarrow> nat" where "lead s = length (takeWhile (\<lambda>c. c = 0x78) s)"

lemma lead_le_at: "j < length s \<Longrightarrow> s ! j \<noteq> 0x78 \<Longrightarrow> lead s \<le> j"
proof (rule ccontr)
  assume j: "s ! j \<noteq> 0x78" "\<not> lead s \<le> j"
  then have l: "j < length (takeWhile (\<lambda>c. c = 0x78) s)" by (simp add: lead_def)
  have "takeWhile (\<lambda>c. c = 0x78) s ! j = 0x78" using set_takeWhileD [OF nth_mem [OF l]] by simp
  then show False using j(1) takeWhile_nth [OF l] by simp
qed

lemma address_lead: "address_start u \<Longrightarrow> \<exists>j \<le> 50. j < length u \<and> u ! j \<noteq> 0x78"
proof -
  assume "address_start u"
  then consider w where "w \<in> {''www.'', ''http://'', ''https://'', ''mailto:'', ''xmpp:''}" "starts_with u (js w)"
    | n where "n \<le> 50" "n < length u" "u ! n = 0x40" by (auto simp: address_start_def Let_def)
  then show ?thesis
  proof cases
    case 1
    have p: "length w \<le> length u \<and> (\<forall>k < length w. u ! k = js w ! k)" if "starts_with u (js w)" for w
    proof -
      have t: "take (length w) u = js w" using that by (simp add: starts_with_def)
      have "length (take (length w) u) = length w" unfolding t by simp
      then have l: "length w \<le> length u" by (metis length_take min.cobounded1)
      have "u ! k = js w ! k" if "k < length w" for k using that t by (metis nth_take)
      with l show ?thesis by blast
    qed
    have "1 < length w" "js w ! 1 \<noteq> 0x78" using 1(1) by (auto simp: js_str)
    then show ?thesis using p [OF 1(2)] by (intro exI [of _ 1]) auto
  qed auto
qed

lemma laws_lead:
  assumes "reparse_laws s root" "nested_in root m c" "nd_to c \<le> length s"
  shows "nd_name c = ''LinkLabel'' \<longrightarrow> lead s \<le> nd_from c"
    "nd_name m = ''Blockquote'' \<and> nd_name c = ''CodeBlock'' \<longrightarrow> lead s + 2 \<le> nd_from c"
    "nd_name c = ''URL'' \<longrightarrow> lead s < nd_from c \<or> nd_from c = 0 \<and> lead s \<le> 50 \<and> lead s < nd_to c"
proof -
  have L: "nd_name c = ''LinkLabel'' \<Longrightarrow> nd_from c < length s \<and> s ! nd_from c = 0x5b"
      "nd_name m = ''Blockquote'' \<and> nd_name c = ''CodeBlock'' \<Longrightarrow> nd_from c \<le> length s \<and> (\<exists>k < nd_from c - 1. s ! k = 0x3e)"
      "nd_name c = ''URL'' \<Longrightarrow> nd_from c \<le> length s \<and>
        (if nd_from c = 0 then address_start (slice s 0 (nd_to c)) else \<not> word_unit (s ! (nd_from c - 1)))"
    using assms(1,2) unfolding reparse_laws_def nested_in_def by blast+
  show "nd_name c = ''LinkLabel'' \<longrightarrow> lead s \<le> nd_from c" using L(1) lead_le_at [of "nd_from c" s] by auto
  show "nd_name m = ''Blockquote'' \<and> nd_name c = ''CodeBlock'' \<longrightarrow> lead s + 2 \<le> nd_from c"
  proof
    assume "nd_name m = ''Blockquote'' \<and> nd_name c = ''CodeBlock''"
    from L(2) [OF this] obtain k where "k < nd_from c - 1" "nd_from c \<le> length s" "s ! k = 0x3e" by blast
    then have "lead s \<le> k" "k + 2 \<le> nd_from c" using lead_le_at [of k s] by simp_all
    then show "lead s + 2 \<le> nd_from c" by simp
  qed
  show "nd_name c = ''URL'' \<longrightarrow> lead s < nd_from c \<or> nd_from c = 0 \<and> lead s \<le> 50 \<and> lead s < nd_to c"
  proof
    assume "nd_name c = ''URL''"
    note u = L(3) [OF this]
    show "lead s < nd_from c \<or> nd_from c = 0 \<and> lead s \<le> 50 \<and> lead s < nd_to c"
    proof (cases "nd_from c = 0")
      case True
      then obtain j where "j \<le> 50" "j < nd_to c" "s ! j \<noteq> 0x78"
        using u address_lead assms(3) by (fastforce simp: slice_def)
      then show ?thesis using True lead_le_at [of j s] assms(3) by simp
    next
      case False
      then have "s ! (nd_from c - 1) \<noteq> 0x78" using u by (auto simp: word_unit_def char_class_defs)
      then have "lead s \<le> nd_from c - 1" using False u by (intro lead_le_at) auto
      then show ?thesis using False by linarith
    qed
  qed
qed

text \<open>A text parsed again is lower: fewer letters after the leading x, or as many and more leading ones.\<close>

definition rank :: "jsstring \<Rightarrow> nat" where
  "rank s = (length s - lead s) * 64 + (64 - min 64 (lead s))"

lemma rank_less: "1 \<le> lead t \<Longrightarrow> length t - lead t < length s - lead s \<Longrightarrow> rank t < rank s"
  by (auto simp: rank_def)

lemma rank_less_lead: "lead t \<le> 64 \<Longrightarrow> lead s < lead t \<Longrightarrow> length t - lead t \<le> length s - lead s \<Longrightarrow> rank t < rank s"
  by (auto simp: rank_def)

lemma rank_fuel: "rank s < search_fuel s"
proof -
  have "(length s - lead s) * 64 \<le> length s * 64" by simp
  then show ?thesis by (simp add: rank_def search_fuel_def)
qed

lemma lead_le: "lead s \<le> length s"
  by (simp add: lead_def length_takeWhile_le)

lemma lead_label: "lead (REFERENCE_LABEL_PREFIX @ s) = 1"
  by (simp add: lead_def REFERENCE_LABEL_PREFIX_def js_str)

lemma length_label_prefix: "length REFERENCE_LABEL_PREFIX = 2"
  by (simp add: REFERENCE_LABEL_PREFIX_def)

lemma lead_rejected: "lead (REJECTED_URL_PREFIX @ s) = Suc (lead s)"
  by (simp add: lead_def REJECTED_URL_PREFIX_def js_str)

lemma takeWhile_take: "takeWhile Q (take n s) = take n (takeWhile Q s)"
  by (induction s arbitrary: n) (auto simp: take_Cons split: nat.splits)

lemma lead_take: "n \<le> length s \<Longrightarrow> lead s < n \<Longrightarrow> lead (take n s) = lead s"
  by (simp add: lead_def takeWhile_take)

lemma child_kind_names:
  "child_kind_of P S n c = reparsed_code \<Longrightarrow> nd_name n = ''Blockquote'' \<and> nd_name c = ''CodeBlock''"
  "child_kind_of P S n c = reparsed_label \<Longrightarrow> nd_name c = ''LinkLabel''"
  "child_kind_of P S n c = rejected_url \<Longrightarrow> nd_name c = ''URL''"
  by (auto simp: child_kind_of_def split: if_splits)

lemma nested_in_range:
  "wf_node root \<Longrightarrow> nested_in root m c \<Longrightarrow> nd_from c \<le> nd_to c \<and> nd_to c \<le> nd_to root"
proof (induction root)
  case (Node name f t cs)
  show ?case
  proof (cases "m = Node name f t cs")
    case True
    with Node.prems show ?thesis by (auto simp: nested_in_def wf_node_range)
  next
    case False
    with Node.prems(2) obtain d where d: "d \<in> set cs" "nested_in d m c" by (auto simp: nested_in_def)
    with Node.IH [OF d(1)] Node.prems(1) show ?thesis by force
  qed
qed

lemma rank_again:
  assumes "wf_node root" "nd_to root \<le> length s" "reparse_laws s root" "nested_in root m c"
    and "child_kind_of P S (bare m) c = kind" "parses_again kind c"
  shows "rank (again_text s kind c) < rank s"
proof -
  have r: "nd_from c \<le> nd_to c" "nd_to c \<le> length s" using nested_in_range [OF assms(1,4)] assms(2) by auto
  note L = laws_lead [OF assms(3,4) r(2)]
  note again = again_text_def again_prefix_def again_from_def again_to_def
  show ?thesis
  proof (cases kind)
    case reparsed_label
    then have "lead s \<le> nd_from c" "nd_from c + 1 < nd_to c - 1"
      using L(1) child_kind_names(2) assms(5,6) by (auto simp: parses_again_def)
    then show ?thesis
      using r by (intro rank_less) (auto simp: again reparsed_label lead_label length_slice length_label_prefix)
  next
    case reparsed_code
    then have "lead s + 2 \<le> nd_from c" using L(2) child_kind_names(1) [of P S "bare m" c] assms(5) by (simp add: bare_def)
    then show ?thesis
      using r by (intro rank_less) (auto simp: again reparsed_code lead_label length_slice length_label_prefix)
  next
    case rejected_url
    let ?v = "slice s (nd_from c) (nd_to c)"
    have a: "again_text s kind c = REJECTED_URL_PREFIX @ ?v" by (simp add: again rejected_url)
    have l: "length (REJECTED_URL_PREFIX @ ?v) = Suc (nd_to c - nd_from c)"
      using r by (simp add: REJECTED_URL_PREFIX_def length_slice)
    have "nd_name c = ''URL''" using assms(5) child_kind_names(3) rejected_url by blast
    with L(3) consider "lead s < nd_from c" | "nd_from c = 0" "lead s \<le> 50" "lead s < nd_to c" by metis
    then have "rank (REJECTED_URL_PREFIX @ ?v) < rank s"
    proof cases
      case 1
      then show ?thesis using r l by (intro rank_less) (auto simp: lead_rejected)
    next
      case 2
      then have "lead ?v = lead s" using r lead_take [of "nd_to c" s] by (simp add: slice_def)
      then show ?thesis using 2 r l by (intro rank_less_lead) (auto simp: lead_rejected)
    qed
    then show ?thesis by (simp only: a)
  qed (use assms(6) in simp_all)
qed

lemma search_covers:
  assumes "tag_parser_ok (tp_tree P)"
  shows "wf_node root \<Longrightarrow> nd_to root \<le> length s \<Longrightarrow> reparse_laws s root \<Longrightarrow> rank s < fuel \<Longrightarrow>
    S = \<lparr>ts_source = s, ts_from = lo, ts_to = hi, ts_resolvedLinks = links, ts_writtenURLs = urls,
         ts_allowUnresolvedLinks = allow\<rparr> \<Longrightarrow>
    \<exists>rs. literal_search P fuel allow s root lo hi links urls = Some rs \<and> good S root rs \<and>
      (\<forall>p. lo \<le> p \<and> p < hi \<longrightarrow> (covered rs p \<longleftrightarrow> text_at P S root p))"
proof (induction fuel arbitrary: s root lo hi links urls allow S)
  case (Suc fuel)
  note S = Suc.prems(5)
  have P: "parser_ok (tp_tree P)" using assms by (simp add: tag_parser_ok_def)
  have "\<exists>r. collect_reparsed P (literal_search P fuel True) S (bare m) c = Some r \<and> good S c r \<and>
      (\<forall>p. ts_from S \<le> p \<and> p < ts_to S \<longrightarrow> (covered r p \<longleftrightarrow> again_at P S (bare m) c p))"
    if n: "nested_in root m c" "child_kind_of P S (bare m) c \<noteq> nested" for m c
  proof (rule collect_reparsed_text [OF P _ _ refl n(2)])
    show "nd_from c \<le> nd_to c" "nd_to c \<le> length (ts_source S)"
      using nested_in_range [OF Suc.prems(1) n(1)] Suc.prems(2) by (auto simp: S)
    let ?kind = "child_kind_of P S (bare m) c"
    let ?t = "again_text (ts_source S) ?kind c"
    assume "parses_again ?kind c"
    from rank_again [OF Suc.prems(1-3) n(1) refl this] have "rank ?t < fuel" using Suc.prems(4) by (simp add: S)
    moreover have "wf_node (sourceParser (tp_tree P) ?t)" "nd_to (sourceParser (tp_tree P) ?t) \<le> length ?t"
        "reparse_laws ?t (sourceParser (tp_tree P) ?t)"
      using assms by (simp_all add: tag_parser_ok_def parser_ok_def Let_def)
    moreover define R where "R = again_scope (tp_tree P) (ts_source S) ?kind c"
    moreover have R: "R = \<lparr>ts_source = ?t, ts_from = ts_from R, ts_to = ts_to R, ts_resolvedLinks = ts_resolvedLinks R,
        ts_writtenURLs = ts_writtenURLs R, ts_allowUnresolvedLinks = True\<rparr>" by (simp add: R_def again_scope_def Let_def)
    moreover have "ts_source R = ?t" by (subst R) simp
    ultimately show "finds_text P (literal_search P fuel True) (again_scope (tp_tree P) (ts_source S) ?kind c)
        (sourceParser (tp_tree P) ?t)"
      using Suc.IH [OF _ _ _ _ R] unfolding finds_text_def good_def R_def [symmetric] by metis
  qed
  from tree_covered [OF Suc.prems(1) this] show ?case by (simp add: S)
qed simp

section \<open>The runs of a state\<close>

definition context_scope :: "ParsedMarkdownContext \<Rightarrow> nat \<Rightarrow> nat \<Rightarrow> tag_scope" where
  "context_scope context lo hi =
     \<lparr>ts_source = pc_source context, ts_from = lo, ts_to = hi, ts_resolvedLinks = pc_resolvedLinks context,
      ts_writtenURLs = pc_writtenURLRanges context, ts_allowUnresolvedLinks = pc_allowUnresolvedLinks context\<rparr>"

text \<open>The character references, e-mail addresses and URLs that are cut out of the exposed text.\<close>

definition references :: "tag_parsers \<Rightarrow> jsstring \<Rightarrow> nat \<Rightarrow> nat \<Rightarrow> (nat \<times> nat) list" where
  "references P source lo hi =
     map (\<lambda>(f, t, _). (f, t)) (findDecodedMarkdownSourceBoundaries (md_text_of (tp_tree P)) source lo hi)"

definition cut_out :: "tag_parsers \<Rightarrow> ParsedMarkdownContext \<Rightarrow> nat \<Rightarrow> nat \<Rightarrow> nat \<Rightarrow> bool" where
  "cut_out P context lo hi p \<longleftrightarrow>
     covered (references P (pc_source context) lo hi) p \<or> covered (pc_emailRanges context) p \<or>
     covered (pc_writtenURLRanges context) p"

definition literal_at :: "tag_parsers \<Rightarrow> ParsedMarkdownContext \<Rightarrow> nat \<Rightarrow> nat \<Rightarrow> nat \<Rightarrow> bool" where
  "literal_at P context lo hi p \<longleftrightarrow>
     text_at P (context_scope context lo hi) (pc_root context) p \<and> \<not> cut_out P context lo hi p"

text \<open>What holds of the trees of a state, and of the context kept for it.\<close>

definition state_ok :: "md_state \<Rightarrow> bool" where
  "state_ok state \<longleftrightarrow> utf16 (ms_doc state) \<and>
     (\<forall>to. let root = ms_root state to in wf_node root \<and> nd_to root \<le> length (ms_doc state) \<and>
       labels_within (length (ms_doc state)) root \<and> reparse_laws (ms_doc state) root)"

definition kept_ok :: "md_tree \<Rightarrow> md_state \<Rightarrow> ParsedMarkdownContext option \<Rightarrow> bool" where
  "kept_ok T state cached \<longleftrightarrow> (\<forall>c. cached = Some c \<longrightarrow> new_context T state (pc_parsedTo c) = Some c)"

lemma new_context_Some:
  assumes "tag_parser_ok T" "state_ok state"
  shows "\<exists>c. new_context T state to = Some c \<and> pc_parsedTo c = to \<and> pc_source c = ms_doc state \<and> pc_root c = ms_root state to"
proof -
  have "utf16 (ms_doc state)" "wf_node (ms_root state to)" "labels_within (length (ms_doc state)) (ms_root state to)"
    using assms(2) by (simp_all add: state_ok_def Let_def)
  moreover have "parser_ok T" using assms(1) by (simp add: tag_parser_ok_def)
  ultimately obtain emails where "findMarkdownGFMEmailRanges T (Suc (length (ms_doc state))) (ms_doc state) (ms_root state to)
      (resolvedMarkdownLinkRanges T (ms_doc state) (ms_root state to)) (ms_treeAvailable state to) = Some emails"
    using email_ranges_found by (blast elim: emails_inE)
  then show ?thesis by (simp add: new_context_def Let_def del: findMarkdownGFMEmailRanges.simps)
qed

lemma new_context_sorted:
  assumes "new_context T state to = Some c"
  shows "sorted_wrt (\<lambda>r r'. fst r \<le> fst r') (pc_emailRanges c)" "sorted_wrt (\<lambda>r r'. fst r \<le> fst r') (pc_writtenURLRanges c)"
proof -
  show "sorted_wrt (\<lambda>r r'. fst r \<le> fst r') (pc_emailRanges c)"
    using assms sorted_sort_key [of "\<lambda>r. (em_from r, em_to r)"] by (intro sorted_fst) (auto simp: new_context_def Let_def)
  show "sorted_wrt (\<lambda>r r'. fst r \<le> fst r') (pc_writtenURLRanges c)"
    using assms by (auto simp: new_context_def Let_def findMarkdownGFMURLRanges_def intro!: sorted_fst)
qed

lemma spaced_sorted: "spaced lo hi rs \<Longrightarrow> sorted_wrt (\<lambda>r r'. fst r \<le> fst r') (map (\<lambda>(f, t, _). (f, t)) rs)"
proof (induction lo hi rs rule: spaced.induct)
  case (2 lo hi a b v rs)
  have "a \<le> f" if "(f, t, w) \<in> set rs" for f t w using spaced_bounds [of b hi rs f t w] 2 that by auto
  with 2 show ?case by auto
qed simp

lemma context_covers:
  assumes "tag_parser_ok (tp_tree P)" "state_ok state" "new_context (tp_tree P) state to = Some context"
  shows "\<exists>runs. context_ranges P context lo hi = Some runs \<and> apart runs \<and> inside lo hi runs \<and>
    inside 0 (length (ms_doc state)) runs \<and>
    (\<forall>p. lo \<le> p \<and> p < hi \<longrightarrow> (covered runs p \<longleftrightarrow> literal_at P context lo hi p))"
proof -
  have c: "pc_source context = ms_doc state" "pc_root context = ms_root state to"
    using new_context_Some [OF assms(1,2), of to] assms(3) by auto
  have root: "wf_node (pc_root context)" "nd_to (pc_root context) \<le> length (pc_source context)"
      "reparse_laws (pc_source context) (pc_root context)"
    using assms(2) by (simp_all add: state_ok_def c Let_def)
  obtain rs where rs: "literal_search P (search_fuel (pc_source context)) (pc_allowUnresolvedLinks context) (pc_source context)
        (pc_root context) lo hi (pc_resolvedLinks context) (pc_writtenURLRanges context) = Some rs"
      "good (context_scope context lo hi) (pc_root context) rs"
    and cov: "\<And>p. lo \<le> p \<and> p < hi \<Longrightarrow> covered rs p \<longleftrightarrow>
      text_at P (context_scope context lo hi) (pc_root context) p"
    using search_covers [OF assms(1) root rank_fuel context_scope_def] by blast
  define cut where "cut = subtractRanges (subtractRanges (subtractRanges rs (references P (pc_source context) lo hi))
    (pc_emailRanges context)) (pc_writtenURLRanges context)"
  have run: "context_ranges P context lo hi = Some (mergeSourceRanges cut)"
    by (simp add: context_ranges_def rs(1) cut_def references_def)
  have "sorted_wrt (\<lambda>r r'. fst r \<le> fst r') (references P (pc_source context) lo hi)"
    using boundaries.find_all_spaced [where s = "(md_text_of (tp_tree P), pc_source context)" and lim = hi and i = lo]
    by (auto simp: references_def intro: spaced_sorted)
  then have keep: "covered cut p \<longleftrightarrow> covered rs p \<and> \<not> cut_out P context lo hi p" for p
    by (auto simp: cut_def covered_subtract new_context_sorted [OF assms(3)] cut_out_def)
  have i: "inside lo hi cut" "inside (nd_from (pc_root context)) (nd_to (pc_root context)) cut"
    using rs(2) by (simp_all add: cut_def inside_subtract good_def context_scope_def)
  then have j: "inside 0 (length (ms_doc state)) cut" using root(2) by (auto simp: c intro: inside_mono)
  have "covered (mergeSourceRanges cut) p \<longleftrightarrow> literal_at P context lo hi p" if "lo \<le> p \<and> p < hi" for p
    using cov [OF that] unfolding mergeSourceRanges_apart(3) [OF i(1)] keep literal_at_def by blast
  then show ?thesis
    using run mergeSourceRanges_apart(1,2) [OF i(1)] mergeSourceRanges_apart(2) [OF j] by blast
qed

lemma state_runs:
  assumes "tag_parser_ok (tp_tree P)" and "state_ok state" and "kept_ok (tp_tree P) state cached"
  shows "\<exists>context runs. literalMarkdownSourceRanges P state lo hi cached = Some (runs, Some context) \<and>
    kept_ok (tp_tree P) state (Some context) \<and> hi \<le> pc_parsedTo context \<and> apart runs \<and> inside lo hi runs \<and> inside 0 (length (ms_doc state)) runs \<and>
    (\<forall>p. lo \<le> p \<and> p < hi \<longrightarrow> (covered runs p \<longleftrightarrow> literal_at P context lo hi p))"
proof -
  obtain ctx where c: "parsedMarkdownContext (tp_tree P) state hi cached = Some (ctx, Some ctx)"
      "new_context (tp_tree P) state (pc_parsedTo ctx) = Some ctx" "hi \<le> pc_parsedTo ctx"
  proof -
    obtain new where new: "new_context (tp_tree P) state hi = Some new" "pc_parsedTo new = hi"
      using new_context_Some [OF assms(1,2)] by blast
    consider c where "cached = Some c" "hi \<le> pc_parsedTo c" | "\<forall>c. cached = Some c \<longrightarrow> \<not> hi \<le> pc_parsedTo c" by blast
    then show ?thesis
    proof cases
      case 1
      then show ?thesis using that [of c] assms(3) by (simp add: parsedMarkdownContext_def kept_ok_def)
    next
      case 2
      then show ?thesis using that [of new] new by (auto simp: parsedMarkdownContext_def split: option.splits)
    qed
  qed
  obtain runs where "context_ranges P ctx lo hi = Some runs" "apart runs" "inside lo hi runs"
      "inside 0 (length (ms_doc state)) runs"
      "\<forall>p. lo \<le> p \<and> p < hi \<longrightarrow> (covered runs p \<longleftrightarrow> literal_at P ctx lo hi p)"
    using context_covers [OF assms(1,2) c(2)] by blast
  with c show ?thesis by (auto simp: literalMarkdownSourceRanges_def kept_ok_def)
qed

text \<open>
  C3. The text runs. The search for the runs of a state returns, whatever it parses again, and keeps the context it
  used for the next call. The runs lie in the requested range, in order, and neither overlap nor touch. They hold exactly
  the offsets that are text of the tree, apart from character references, e-mail addresses and written URLs: what its text
  containers show between their children, and, where the label of a link that does not resolve, a URL that the second
  parser does not take, or the code of a block quote that is none is read again, what the tree of that text
  shows in turn.
\<close>

theorem literal_runs_are_exposed_text:
  assumes "tag_parser_ok (tp_tree P)" and "state_ok state" and "kept_ok (tp_tree P) state cached"
  shows "\<exists>context runs. literalMarkdownSourceRanges P state lo hi cached = Some (runs, Some context) \<and>
    kept_ok (tp_tree P) state (Some context) \<and> hi \<le> pc_parsedTo context \<and> apart runs \<and> inside lo hi runs \<and>
    (\<forall>p. lo \<le> p \<and> p < hi \<longrightarrow> (covered runs p \<longleftrightarrow> literal_at P context lo hi p))"
  using state_runs [OF assms] by blast

section \<open>A sample\<close>

text \<open>The parser of one paragraph, and the state of a short source.\<close>

definition sample_parsers :: tag_parsers where
  "sample_parsers = \<lparr>tp_tree = sample_tree, tp_fromMarkdown = (\<lambda>s. Mdast None None None [])\<rparr>"

definition sample_state :: md_state where
  "sample_state = (let doc = js ''hi #a @b'' in
     \<lparr>ms_doc = doc, ms_root = (\<lambda>to. sourceParser sample_tree doc), ms_treeAvailable = (\<lambda>to. True)\<rparr>)"

lemma sample_laws: "reparse_laws s (Node ''Document'' 0 n [Node ''Paragraph'' 0 m []])"
  by (auto simp: reparse_laws_def)

lemma sample_ok: "tag_parser_ok (tp_tree sample_parsers)" "state_ok sample_state" "kept_ok T sample_state None"
  by (auto simp: sample_laws tag_parser_ok_def parser_ok_def Let_def sample_parsers_def sample_tree_def state_ok_def sample_state_def
      labels_within_def utf16_def js_str kept_ok_def)

theorem literal_runs_are_exposed_text_witness:
  "\<exists>context runs. literalMarkdownSourceRanges sample_parsers sample_state 0 8 None = Some (runs, Some context) \<and>
    apart runs \<and> inside 0 8 runs \<and> (literal_at sample_parsers context 0 8 3 \<longleftrightarrow> covered runs 3)"
proof -
  from literal_runs_are_exposed_text [OF sample_ok, of 0 8] obtain ctx runs where
    "literalMarkdownSourceRanges sample_parsers sample_state 0 8 None = Some (runs, Some ctx)" "apart runs" "inside 0 8 runs"
    "\<forall>p. 0 \<le> p \<and> p < 8 \<longrightarrow> (covered runs p \<longleftrightarrow> literal_at sample_parsers ctx 0 8 p)" by blast
  then show ?thesis by (intro exI [of _ ctx] exI [of _ runs]) auto
qed

section \<open>Tags\<close>

lemma spaced_join: "spaced lo m xs \<Longrightarrow> lo \<le> m \<Longrightarrow> spaced m hi ys \<Longrightarrow> m \<le> hi \<Longrightarrow> spaced lo hi (xs @ ys)"
  by (induction xs arbitrary: lo) (auto intro: spaced_weaken)

lemma spaced_runs:
  assumes "apart runs" "inside lo hi runs" "lo \<le> hi" "\<And>f t. (f, t) \<in> set runs \<Longrightarrow> spaced f t (g (f, t))"
  shows "spaced lo hi (concat (map g runs))"
  using assms
proof (induction runs arbitrary: lo)
  case (Cons r runs)
  obtain f t where r: "r = (f, t)" by (cases r)
  have ft: "lo \<le> f" "f < t" "t \<le> hi" using Cons.prems(2) by (auto simp: r)
  have "t \<le> a" if "(a, b) \<in> set runs" for a b using Cons.prems(1) that by (auto simp: apart_def r)
  then have "inside t hi runs" using Cons.prems(2) by (auto simp: inside_def)
  with Cons have "spaced t hi (concat (map g runs))" using ft by (simp add: apart_def)
  moreover have "spaced lo t (g (f, t))" using Cons.prems(4) [of f t] ft(1) spaced_weaken by (auto simp: r)
  ultimately show ?case using spaced_join [of lo t "g (f, t)" hi] ft by (simp add: r)
qed simp

lemma concat_some_all: "\<forall>x \<in> set xs. f x = Some (g x) \<Longrightarrow> concat_some (map f xs) = Some (concat (map g xs))"
  by (induction xs) auto

lemma spaced_shift: "spaced i n (map (\<lambda>m. (tm_from m, tm_to m, m)) ms) \<Longrightarrow>
    spaced (f + i) (f + n) (map (\<lambda>m. (tm_from m, tm_to m, m)) (map (\<lambda>m. m\<lparr>tm_from := f + tm_from m, tm_to := f + tm_to m\<rparr>) ms))"
  by (induction ms arbitrary: i) auto

lemma spaced_member: "spaced lo hi (map (\<lambda>m. (tm_from m, tm_to m, m)) ms) \<Longrightarrow> m \<in> set ms \<Longrightarrow> lo \<le> tm_from m \<and> tm_from m < tm_to m \<and> tm_to m \<le> hi"
  using spaced_bounds [of lo hi "map (\<lambda>m. (tm_from m, tm_to m, m)) ms" "tm_from m" "tm_to m" m] by auto

text \<open>A tag that is what the grammar reads in the run from \<open>f\<close> to \<open>t\<close>.\<close>

definition read_in :: "tag_tables \<Rightarrow> jsstring \<Rightarrow> nat \<times> nat \<Rightarrow> TagMatch \<Rightarrow> bool" where
  "read_in tables source run m \<longleftrightarrow> (let (f, t) = run in
     f \<le> tm_from m \<and> tm_to m \<le> t \<and>
     scanTagAt tables (slice source f t) (tm_from m - f) (t - f) = Some (m\<lparr>tm_from := tm_from m - f, tm_to := tm_to m - f\<rparr>))"

lemma find_tags_read:
  assumes "valid_units s" "findTagMatches T s 0 (length s) = Some ms" "m \<in> set ms"
  shows "scanTagAt T s (tm_from m) (length s) = Some m"
proof -
  have "tag_ranges (T, s) 0 (length s) = map (\<lambda>m. (tm_from m, tm_to m, m)) ms" using assms(2) by (simp add: tag_ranges_def)
  then have "tag_scan (T, s) (tm_from m) (length s) = Some (tm_to m, m)"
    using assms by (intro tags.find_all_sound [of "(T, s)" _ _ _ _ 0]) (auto simp: tag_ok_def)
  then show ?thesis by (auto simp: tag_scan_def)
qed

lemma range_tags_found:
  assumes "utf16 source" "f < t" "t \<le> length source"
  shows "\<exists>ms. range_tags tables source (f, t) = Some ms \<and> spaced f t (map (\<lambda>m. (tm_from m, tm_to m, m)) ms) \<and>
    (\<forall>m \<in> set ms. read_in tables source (f, t) m \<and> source ! tm_from m = 0x23 \<and> tm_source m = slice source (tm_from m + 1) (tm_to m) \<and> tm_value m \<noteq> []) \<and>
    ((\<forall>w \<in> emoji_spellings tables. 0x23 \<notin> set (tl w)) \<longrightarrow>
     (\<forall>a. f \<le> a \<and> a < t \<and> scanTagAt tables (slice source f t) (a - f) (t - f) \<noteq> None \<longrightarrow>
        (\<exists>m \<in> set ms. tm_from m \<le> a \<and> a < tm_to m)))"
proof -
  let ?run = "slice source f t"
  have len: "length ?run = t - f" using assms by (simp add: length_slice)
  have units: "valid_units ?run"
    using assms(1) by (auto simp: valid_units_def utf16_def slice_def dest!: in_set_takeD in_set_dropD)
  obtain ms where ms: "findTagMatches tables ?run 0 (t - f) = Some ms"
      "spaced 0 (t - f) (map (\<lambda>m. (tm_from m, tm_to m, m)) ms)"
      "\<forall>m \<in> set ms. ?run ! tm_from m = 0x23 \<and> tm_source m = slice ?run (tm_from m + 1) (tm_to m) \<and> tm_value m \<noteq> []"
    using find_tags_spaced [OF units, of tables 0] by (auto simp: len)
  let ?ms = "map (\<lambda>m. m\<lparr>tm_from := f + tm_from m, tm_to := f + tm_to m\<rparr>) ms"
  have "range_tags tables source (f, t) = Some ?ms" by (simp add: range_tags_def len ms(1))
  moreover have "spaced f t (map (\<lambda>m. (tm_from m, tm_to m, m)) ?ms)" using spaced_shift [OF ms(2), of f] assms(2) by simp
  moreover have "read_in tables source (f, t) (m\<lparr>tm_from := f + tm_from m, tm_to := f + tm_to m\<rparr>)" if m: "m \<in> set ms" for m
  proof -
    have "tm_to m \<le> t - f" using spaced_member [OF ms(2) m] by simp
    then show ?thesis using find_tags_read [OF units, of tables ms m] ms(1) m assms(2) by (simp add: read_in_def len)
  qed
  moreover have "source ! (f + tm_from m) = 0x23 \<and> tm_source m = slice source (f + tm_from m + 1) (f + tm_to m) \<and> tm_value m \<noteq> []"
    if m: "m \<in> set ms" for m
  proof -
    have b: "tm_from m < t - f" "tm_to m \<le> t - f" using spaced_member [OF ms(2) m] by auto
    have "?run ! tm_from m = source ! (f + tm_from m)" using b assms by (simp add: slice_def)
    moreover have "slice ?run (tm_from m + 1) (tm_to m) = slice source (f + tm_from m + 1) (f + tm_to m)"
      using slice_slice [of f "tm_to m" t source "tm_from m + 1"] b assms by simp
    ultimately show ?thesis using ms(3) m by simp
  qed
  moreover have "\<exists>m \<in> set ?ms. tm_from m \<le> a \<and> a < tm_to m"
    if q: "\<forall>w \<in> emoji_spellings tables. 0x23 \<notin> set (tl w)" "f \<le> a" "a < t" "scanTagAt tables ?run (a - f) (t - f) \<noteq> None" for a
  proof -
    have "\<exists>m \<in> set ms. tm_from m \<le> a - f \<and> a - f < tm_to m"
      by (rule find_tags_covers [OF units q(1), of 0]) (use ms(1) q in \<open>auto simp: len\<close>)
    then obtain m where "m \<in> set ms" "tm_from m \<le> a - f" "a - f < tm_to m" by blast
    then show ?thesis using q(2) by (auto intro!: bexI [of _ m])
  qed
  ultimately show ?thesis by auto
qed

text \<open>
  C4. Tags of the editor. The search for tags returns. The tags follow one another without overlap inside the requested
  range; each lies in one run and is the tag the grammar reads in it at its place, moved by the start of the run: it
  starts at a \<^verbatim>\<open>#\<close>, carries the source after it and a value. Each offset of it is text of the tree and lies in no character
  reference, e-mail address or written URL. In a run no tag is missed, provided a \<^verbatim>\<open>#\<close> begins the emoji spellings it occurs
  in.
\<close>

theorem tags_stand_in_literal_text:
  assumes "tag_parser_ok (tp_tree P)" and "state_ok state" and "kept_ok (tp_tree P) state cached" and "lo \<le> hi"
  shows "\<exists>context runs tags.
    literalMarkdownSourceRanges P state lo hi cached = Some (runs, Some context) \<and>
    findMarkdownTagMatches tables P state lo hi cached = Some (tags, Some context) \<and>
    spaced lo hi (map (\<lambda>m. (tm_from m, tm_to m, m)) tags) \<and>
    (\<forall>m \<in> set tags. (\<exists>run \<in> set runs. read_in tables (ms_doc state) run m) \<and> ms_doc state ! tm_from m = 0x23 \<and>
       tm_source m = slice (ms_doc state) (tm_from m + 1) (tm_to m) \<and> tm_value m \<noteq> [] \<and>
       (\<forall>p. tm_from m \<le> p \<and> p < tm_to m \<longrightarrow> literal_at P context lo hi p)) \<and>
    ((\<forall>w \<in> emoji_spellings tables. 0x23 \<notin> set (tl w)) \<longrightarrow>
     (\<forall>(f, t) \<in> set runs. \<forall>a. f \<le> a \<and> a < t \<and>
        scanTagAt tables (slice (ms_doc state) f t) (a - f) (t - f) \<noteq> None \<longrightarrow>
        (\<exists>m \<in> set tags. tm_from m \<le> a \<and> a < tm_to m)))"
proof -
  obtain ctx runs where r: "literalMarkdownSourceRanges P state lo hi cached = Some (runs, Some ctx)"
      "apart runs" "inside lo hi runs" "inside 0 (length (ms_doc state)) runs"
    and cov: "\<forall>p. lo \<le> p \<and> p < hi \<longrightarrow> (covered runs p \<longleftrightarrow> literal_at P ctx lo hi p)"
    using state_runs [OF assms(1-3)] by blast
  have units: "utf16 (ms_doc state)" using assms(2) by (simp add: state_ok_def)
  define found where "found = (\<lambda>run. the (range_tags tables (ms_doc state) run))"
  have one: "range_tags tables (ms_doc state) (f, t) = Some (found (f, t)) \<and>
      spaced f t (map (\<lambda>m. (tm_from m, tm_to m, m)) (found (f, t))) \<and>
      (\<forall>m \<in> set (found (f, t)). read_in tables (ms_doc state) (f, t) m \<and> ms_doc state ! tm_from m = 0x23 \<and>
         tm_source m = slice (ms_doc state) (tm_from m + 1) (tm_to m) \<and> tm_value m \<noteq> []) \<and>
      ((\<forall>w \<in> emoji_spellings tables. 0x23 \<notin> set (tl w)) \<longrightarrow>
       (\<forall>a. f \<le> a \<and> a < t \<and> scanTagAt tables (slice (ms_doc state) f t) (a - f) (t - f) \<noteq> None \<longrightarrow>
          (\<exists>m \<in> set (found (f, t)). tm_from m \<le> a \<and> a < tm_to m)))" if "(f, t) \<in> set runs" for f t
  proof -
    have "f < t" "t \<le> length (ms_doc state)" using r(4) that by (auto simp: inside_def)
    from range_tags_found [OF units this, of tables] show ?thesis by (auto simp: found_def)
  qed
  have tags: "findMarkdownTagMatches tables P state lo hi cached = Some (concat (map found runs), Some ctx)"
  proof -
    have "\<forall>run \<in> set runs. range_tags tables (ms_doc state) run = Some (found run)" using one by auto
    from concat_some_all [OF this] show ?thesis by (simp add: findMarkdownTagMatches_def r(1))
  qed
  have sp: "spaced lo hi (map (\<lambda>m. (tm_from m, tm_to m, m)) (concat (map found runs)))"
    using spaced_runs [OF r(2,3) assms(4), of "\<lambda>run. map (\<lambda>m. (tm_from m, tm_to m, m)) (found run)"] one
    by (simp add: map_concat comp_def)
  have inrun: "literal_at P ctx lo hi p"
    if "(f, t) \<in> set runs" "m \<in> set (found (f, t))" "tm_from m \<le> p" "p < tm_to m" for f t m p
  proof -
    have "f \<le> p" "p < t" using one [OF that(1)] spaced_member [of f t "found (f, t)" m] that by auto
    then have "covered runs p" using that(1) by (auto simp: covered_def)
    moreover from this have "lo \<le> p \<and> p < hi" by (rule inside_covered [OF r(3)])
    ultimately show ?thesis using cov by blast
  qed
  show ?thesis
  proof (intro exI conjI)
    show "\<forall>m \<in> set (concat (map found runs)). (\<exists>run \<in> set runs. read_in tables (ms_doc state) run m) \<and> ms_doc state ! tm_from m = 0x23 \<and>
       tm_source m = slice (ms_doc state) (tm_from m + 1) (tm_to m) \<and> tm_value m \<noteq> [] \<and>
       (\<forall>p. tm_from m \<le> p \<and> p < tm_to m \<longrightarrow> literal_at P ctx lo hi p)"
      using one inrun by fastforce
    show "(\<forall>w \<in> emoji_spellings tables. 0x23 \<notin> set (tl w)) \<longrightarrow>
     (\<forall>(f, t) \<in> set runs. \<forall>a. f \<le> a \<and> a < t \<and>
        scanTagAt tables (slice (ms_doc state) f t) (a - f) (t - f) \<noteq> None \<longrightarrow>
        (\<exists>m \<in> set (concat (map found runs)). tm_from m \<le> a \<and> a < tm_to m))"
      using one by fastforce
  qed (rule r(1) tags sp)+
qed

theorem tags_stand_in_literal_text_witness:
  "\<exists>context runs tags.
    literalMarkdownSourceRanges sample_parsers sample_state 0 8 None = Some (runs, Some context) \<and>
    findMarkdownTagMatches sample_tables sample_parsers sample_state 0 8 None = Some (tags, Some context) \<and>
    spaced 0 8 (map (\<lambda>m. (tm_from m, tm_to m, m)) tags)"
  using tags_stand_in_literal_text [OF sample_ok, of 0 8 sample_tables] by blast

section \<open>User names\<close>

definition at_name :: "jsstring \<Rightarrow> bool \<Rightarrow> nat \<Rightarrow> bool" where
  "at_name s b a \<longleftrightarrow> a < length s \<and> s ! a = 0x40 \<and> hasLeftBoundary s a b \<and>
     isValidUsername (takeWhile isUsernameCharacter (drop (a + 1) s))"

definition mention_at :: "jsstring \<Rightarrow> nat \<Rightarrow> MentionMatch" where
  "mention_at s a = (let name = takeWhile isUsernameCharacter (drop (a + 1) s) in
     \<lparr>mm_from = a, mm_to = a + 1 + length name, mm_username = name\<rparr>)"

lemma name_slice: "slice s (a + 1) (username_end s (a + 1)) = takeWhile isUsernameCharacter (drop (a + 1) s)"
  by (simp add: slice_def username_end_def takeWhile_eq_take [symmetric])

lemma mention_loop_from:
  "mention_loop s b i = map (mention_at s) (filter (at_name s b) [i..<length s])"
proof (induction s b i rule: mention_loop.induct)
  case (1 s b i)
  show ?case
  proof (cases "i < length s")
    case False
    then show ?thesis by (simp add: mention_loop.simps)
  next
    case here: True
    then have upt: "[i..<length s] = i # [Suc i..<length s]" by (rule upt_conv_Cons)
    show ?thesis
    proof (cases "s ! i \<noteq> 0x40 \<or> \<not> hasLeftBoundary s i b")
      case True
      then have "\<not> at_name s b i" by (auto simp: at_name_def)
      moreover have "mention_loop s b i = mention_loop s b (i + 1)" using True here by (simp add: mention_loop.simps [of s b i])
      ultimately show ?thesis using "1.IH"(1) [OF here True] by (simp add: upt)
    next
      case False
      let ?name = "takeWhile isUsernameCharacter (drop (i + 1) s)" and ?e = "username_end s (i + 1)"
      have e: "?e = i + 1 + length ?name" by (simp add: username_end_def)
      have le: "?e \<le> length s"
        unfolding e using length_takeWhile_le [of isUsernameCharacter "drop (i + 1) s"] here by simp
      have skip: "\<not> at_name s b k" if "Suc i \<le> k" "k < ?e" for k
      proof
        assume "at_name s b k"
        have k: "k - Suc i < length ?name" using that unfolding e by linarith
        then have "?name ! (k - Suc i) \<in> set ?name" by (rule nth_mem)
        then have "isUsernameCharacter (?name ! (k - Suc i))" by (rule set_takeWhileD [THEN conjunct2])
        moreover have "?name ! (k - Suc i) = drop (i + 1) s ! (k - Suc i)" using k by (rule takeWhile_nth)
        moreover have "drop (i + 1) s ! (k - Suc i) = s ! k" using that here by simp
        ultimately have "isUsernameCharacter (s ! k)" by simp
        moreover have "s ! k = 0x40" using \<open>at_name s b k\<close> by (simp add: at_name_def)
        ultimately show False by (simp add: isUsernameCharacter_def char_class_defs)
      qed
      have split: "[Suc i..<length s] = [Suc i..<?e] @ [?e..<length s]"
      proof -
        have "Suc i \<le> ?e" unfolding e by simp
        from upt_add_eq_append [OF this, of "length s - ?e"] le show ?thesis by simp
      qed
      have "filter (at_name s b) [Suc i..<?e] = []" using skip by (auto simp: filter_empty_conv)
      then have rest: "filter (at_name s b) [Suc i..<length s] = filter (at_name s b) [?e..<length s]" by (simp add: split)
      have next_at: "(if ?e = i + 1 then i + 1 else ?e) = ?e" by simp
      have "at_name s b i \<longleftrightarrow> isValidUsername ?name" using False here by (auto simp: at_name_def)
      then have "mention_loop s b i = (if at_name s b i then [mention_at s i] else []) @ mention_loop s b ?e"
        using False here by (simp add: mention_loop.simps [of s b i] Let_def name_slice [of s i, unfolded e, simplified] e [simplified] mention_at_def)
      moreover have "mention_loop s b ?e = map (mention_at s) (filter (at_name s b) [?e..<length s])"
        using "1.IH"(2) [OF here False refl refl refl] by (simp only: next_at)
      ultimately show ?thesis by (simp add: upt rest)
    qed
  qed
qed

text \<open>The user names of a run, at their places in the source.\<close>

definition name_start :: "jsstring \<Rightarrow> nat \<Rightarrow> nat \<Rightarrow> bool" where
  "name_start source t a \<longleftrightarrow>
     source ! a = 0x40 \<and> (a = 0 \<or> \<not> isUsernameCharacter (source ! (a - 1))) \<and>
     isValidUsername (takeWhile isUsernameCharacter (slice source (a + 1) t))"

definition mention_in :: "jsstring \<Rightarrow> nat \<Rightarrow> nat \<Rightarrow> MentionMatch" where
  "mention_in source t a =
     (let name = takeWhile isUsernameCharacter (slice source (a + 1) t)
      in \<lparr>mm_from = a, mm_to = a + 1 + length name, mm_username = name\<rparr>)"

lemma range_mentions_found:
  assumes "f < t" "t \<le> length source"
  shows "range_mentions source (f, t) = map (mention_in source t) (filter (name_start source t) [f..<t])"
proof -
  let ?run = "slice source f t" and ?b = "f = 0 \<or> \<not> isUsernameCharacter (source ! (f - 1))"
  have len: "length ?run = t - f" using assms by (simp add: length_slice)
  have drop: "drop (a + 1) ?run = slice source (f + a + 1) t" for a
    using assms by (simp add: slice_def take_drop [symmetric] drop_take add.commute add.left_commute)
  have unit: "?run ! a = source ! (f + a)" if "a < t - f" for a using that assms by (simp add: slice_def)
  have start: "at_name ?run ?b a \<longleftrightarrow> name_start source t (f + a)" if "a < t - f" for a
    using that unit [of a] unit [of "a - 1"]
    by (cases "a = 0") (auto simp: at_name_def name_start_def hasLeftBoundary_def len drop [simplified])
  have place: "(mention_at ?run a)\<lparr>mm_from := f + a, mm_to := f + mm_to (mention_at ?run a)\<rparr> = mention_in source t (f + a)" for a
    by (simp add: mention_at_def mention_in_def Let_def drop [simplified])
  have "map ((+) f) [0..<t - f] = map (\<lambda>i. i + f) [0..<t - f]" by (simp add: add.commute)
  then have "[f..<t] = map ((+) f) [0..<t - f]" using assms(1) map_add_upt [of f "t - f"] by simp
  then have "filter (name_start source t) [f..<t] = map ((+) f) (filter (at_name ?run ?b) [0..<t - f])"
    using start by (auto simp: filter_map comp_def intro!: arg_cong [where f = "map ((+) f)"] filter_cong)
  moreover have "range_mentions source (f, t) =
      map (\<lambda>a. mention_in source t (f + a)) (filter (at_name ?run ?b) [0..<t - f])"
    unfolding range_mentions_def findMentionMatches_def mention_loop_from Let_def fst_conv snd_conv len
    using place by (simp add: mention_at_def Let_def)
  ultimately show ?thesis by simp
qed

lemma mentions_of_run:
  assumes "t \<le> length source"
  shows "sorted_wrt (\<lambda>m m'. mm_to m \<le> mm_from m') (map (mention_in source t) (filter (name_start source t) [f..<t])) \<and>
    (\<forall>m \<in> set (map (mention_in source t) (filter (name_start source t) [f..<t])).
       f \<le> mm_from m \<and> mm_to m \<le> t \<and> isValidUsername (mm_username m) \<and> mm_username m = slice source (mm_from m + 1) (mm_to m))"
proof -
  let ?name = "\<lambda>a. takeWhile isUsernameCharacter (slice source (a + 1) t)"
  have le: "a + 1 + length (?name a) \<le> t" if "a < t" for a
    using length_takeWhile_le [of isUsernameCharacter "slice source (a + 1) t"] that assms by (simp add: length_slice)
  have written: "?name a = slice source (a + 1) (a + 1 + length (?name a))" if "a < t" for a
  proof -
    have "?name a = take (length (?name a)) (slice source (a + 1) t)" by (rule takeWhile_eq_take)
    also have "\<dots> = slice source (a + 1) (a + 1 + length (?name a))" using le [OF that] by (simp add: slice_def)
    finally show ?thesis .
  qed
  have apart: "a + 1 + length (?name a) \<le> b" if "a < b" "b < t" "source ! b = 0x40" for a b
  proof (rule ccontr)
    assume n: "\<not> a + 1 + length (?name a) \<le> b"
    then have k: "b - (a + 1) < length (?name a)" using that(1) by linarith
    have "isUsernameCharacter (?name a ! (b - (a + 1)))" using nth_mem [OF k] set_takeWhileD by metis
    moreover have "?name a ! (b - (a + 1)) = source ! b"
      using takeWhile_nth [OF k] that assms by (simp add: slice_def)
    ultimately show False using that(3) by (simp add: isUsernameCharacter_def char_class_defs)
  qed
  have "sorted_wrt (\<lambda>a b. a + 1 + length (?name a) \<le> b) (filter (name_start source t) [f..<t])"
    by (rule sorted_wrt_mono_rel [of _ "(<)"]) (auto simp: name_start_def intro!: apart [simplified] sorted_wrt_filter)
  then show ?thesis
    using le written by (auto simp: sorted_wrt_map mention_in_def Let_def name_start_def)
qed

lemma sorted_runs:
  assumes "apart runs"
    and "\<And>f t. (f, t) \<in> set runs \<Longrightarrow> sorted_wrt (\<lambda>m m'. mm_to m \<le> mm_from m') (g (f, t)) \<and>
      (\<forall>m \<in> set (g (f, t)). f \<le> mm_from m \<and> mm_to m \<le> t)"
  shows "sorted_wrt (\<lambda>m m'. mm_to m \<le> mm_from m') (concat (map g runs))"
  using assms
proof (induction runs)
  case (Cons r runs)
  obtain f t where r: "r = (f, t)" by (cases r)
  have "mm_to m \<le> mm_from m'" if "m \<in> set (g (f, t))" "(f', t') \<in> set runs" "m' \<in> set (g (f', t'))" for m m' f' t'
  proof -
    have "t < f'" using Cons.prems(1) that(2) by (auto simp: apart_def r)
    moreover have "mm_to m \<le> t" "f' \<le> mm_from m'" using Cons.prems(2) [of f t] Cons.prems(2) [of f' t'] that by (auto simp: r)
    ultimately show ?thesis by simp
  qed
  moreover have "sorted_wrt (\<lambda>m m'. mm_to m \<le> mm_from m') (concat (map g runs))"
    using Cons by (auto simp: apart_def)
  ultimately show ?case using Cons.prems(2) [of f t] by (auto simp: r sorted_wrt_append)
qed simp

text \<open>
  User names of the editor. The search for user names returns, for each run in order, exactly the places of an at sign
  that does not follow a letter of a user name (in the source, also where the run begins), and before a well-formed
  name: the longest run of its letters. The matches are in order and disjoint, and no part of one is cut out or opaque.
\<close>

lemma mentions_stand_in_literal_text:
  assumes "tag_parser_ok (tp_tree P)" and "state_ok state" and "kept_ok (tp_tree P) state cached"
  shows "\<exists>context runs names.
    literalMarkdownSourceRanges P state lo hi cached = Some (runs, Some context) \<and>
    findMarkdownMentionMatches P state lo hi cached = Some (names, Some context) \<and>
    names = concat (map (\<lambda>(f, t). map (mention_in (ms_doc state) t) (filter (name_start (ms_doc state) t) [f..<t])) runs) \<and>
    sorted_wrt (\<lambda>m m'. mm_to m \<le> mm_from m') names \<and>
    (\<forall>m \<in> set names. isValidUsername (mm_username m) \<and> length (mm_username m) \<le> 36 \<and>
       mm_username m = slice (ms_doc state) (mm_from m + 1) (mm_to m) \<and>
       (\<forall>p. mm_from m \<le> p \<and> p < mm_to m \<longrightarrow> literal_at P context lo hi p))"
proof -
  obtain ctx runs where r: "literalMarkdownSourceRanges P state lo hi cached = Some (runs, Some ctx)"
      "apart runs" "inside lo hi runs" "inside 0 (length (ms_doc state)) runs"
    and cov: "\<forall>p. lo \<le> p \<and> p < hi \<longrightarrow> (covered runs p \<longleftrightarrow> literal_at P ctx lo hi p)"
    using state_runs [OF assms] by blast
  let ?doc = "ms_doc state"
  let ?in = "\<lambda>(f, t). map (mention_in ?doc t) (filter (name_start ?doc t) [f..<t])"
  have ft: "f < t" "t \<le> length ?doc" if "(f, t) \<in> set runs" for f t using r(4) that by (auto simp: inside_def)
  have "map (range_mentions ?doc) runs = map ?in runs"
    using ft range_mentions_found by auto
  then have "concat (map (range_mentions ?doc) runs) = concat (map ?in runs)" by (rule arg_cong)
  then have names: "findMarkdownMentionMatches P state lo hi cached = Some (concat (map ?in runs), Some ctx)"
    by (simp only: findMarkdownMentionMatches_def r(1) option.map prod.case)
  have one: "sorted_wrt (\<lambda>m m'. mm_to m \<le> mm_from m') (?in (f, t)) \<and>
      (\<forall>m \<in> set (?in (f, t)). f \<le> mm_from m \<and> mm_to m \<le> t \<and> isValidUsername (mm_username m) \<and>
         mm_username m = slice ?doc (mm_from m + 1) (mm_to m))" if "(f, t) \<in> set runs" for f t
    unfolding prod.case using mentions_of_run [OF ft(2) [OF that], of f] by blast
  have "literal_at P ctx lo hi p"
    if "(f, t) \<in> set runs" "m \<in> set (?in (f, t))" "mm_from m \<le> p" "p < mm_to m" for f t m p
  proof -
    have "f \<le> p" "p < t" using one [OF that(1)] that(2-4) by auto
    then have "covered runs p" using that(1) by (auto simp: covered_def)
    moreover from this have "lo \<le> p \<and> p < hi" by (rule inside_covered [OF r(3)])
    ultimately show ?thesis using cov by blast
  qed
  then have "\<forall>m \<in> set (concat (map ?in runs)). isValidUsername (mm_username m) \<and>
      mm_username m = slice ?doc (mm_from m + 1) (mm_to m) \<and>
      (\<forall>p. mm_from m \<le> p \<and> p < mm_to m \<longrightarrow> literal_at P ctx lo hi p)"
    using one by fastforce
  moreover have "length w \<le> 36" if "isValidUsername w" for w using that by (simp add: isValidUsername_def MAX_USERNAME_LENGTH_def)
  moreover have "sorted_wrt (\<lambda>m m'. mm_to m \<le> mm_from m') (concat (map ?in runs))"
    using one by (intro sorted_runs [OF r(2)]) blast
  ultimately show ?thesis using r(1) names by blast
qed

lemma mentions_stand_in_literal_text_witness:
  "\<exists>context runs names.
    literalMarkdownSourceRanges sample_parsers sample_state 0 8 None = Some (runs, Some context) \<and>
    findMarkdownMentionMatches sample_parsers sample_state 0 8 None = Some (names, Some context) \<and>
    sorted_wrt (\<lambda>m m'. mm_to m \<le> mm_from m') names"
  using mentions_stand_in_literal_text [OF sample_ok, of 0 8] by blast

end
