(* ===== verification/MediaExtraction.thy ===== *)
theory MediaExtraction
  imports Attachments DailyQuestion "HOL-Library.Log_Nat"
begin

text \<open>
  The metadata of an image or a video, read before its upload
  (\<^verbatim>\<open>components/MemoEditor/services/mediaMetadataService.ts\<close>), and the check the server makes of it
  (\<^verbatim>\<open>server/router/api/v1/attachment_media_metadata.go\<close>). What the EXIF reader, the image decoder and the video element
  give is an argument; so is the parsing of a \<^verbatim>\<open>Date\<close>. Numbers are exact up to the rounding of each operation.
\<close>

section \<open>Values\<close>

datatype js_value = JS_Undefined | JS_Null | JS_Number double | JS_String jsstring | JS_Array "js_value list"
  | JS_Bytes "nat list" | JS_Object "(string \<times> js_value) list" | JS_Other

text \<open>The exponent of the last place of a positive double, and the rounding of an exact result to a double.\<close>

definition last_place :: "rat \<Rightarrow> int" where
  "last_place q =
     (case quotient_of q of (n, d) \<Rightarrow>
        let e = int (floorlog 2 (nat n)) - int (floorlog 2 (nat d));
            k = (if q < 2 powi e then e - 1 else e)
        in max (k - 52) (- 1074))"

definition round_even :: "rat \<Rightarrow> int" where
  "round_even q = (let f = \<lfloor>q\<rfloor>; r = q - of_int f in if r < 1 / 2 then f else if r > 1 / 2 then f + 1 else if even f then f else f + 1)"

definition fl :: "rat \<Rightarrow> rat" where
  "fl q = (if q = 0 then 0 else let u = 2 powi (last_place \<bar>q\<bar>) in sgn q * (of_int (round_even (\<bar>q\<bar> / u)) * u))"

definition MAX_SAFE_INTEGER :: int where "MAX_SAFE_INTEGER = 9007199254740991"

definition EXTRACTION_TIMEOUT_MS :: nat where "EXTRACTION_TIMEOUT_MS = 5000"

definition MAX_METADATA_STRING_BYTES :: nat where "MAX_METADATA_STRING_BYTES = 256"

text \<open>\<^verbatim>\<open>\p{Cc}\<close>\<close>

definition is_control :: "nat \<Rightarrow> bool" where
  "is_control c \<longleftrightarrow> c < 0x20 \<or> 0x7f \<le> c \<and> c < 0xa0"

definition normalizeMetadataString :: "js_value \<Rightarrow> jsstring option" where
  "normalizeMetadataString v =
     (case v of
        JS_String s \<Rightarrow>
          let normalized = trim (filter (\<lambda>c. \<not> is_control c) s) in
          if normalized = [] \<or> length normalized > MAX_METADATA_STRING_BYTES then None
          else if length (text_encode normalized) > MAX_METADATA_STRING_BYTES then None else Some normalized
      | _ \<Rightarrow> None)"

definition cleanExifString :: "jsstring \<Rightarrow> jsstring" where
  "cleanExifString s = trim_start (rev (dropWhile (\<lambda>c. c = 0 \<or> is_js_space c) (rev s)))"

fun normalizeFiniteNumber :: "js_value \<Rightarrow> rat option" where
  "normalizeFiniteNumber (JS_Number (Finite x)) = Some x"
| "normalizeFiniteNumber (JS_Array (v # vs)) = normalizeFiniteNumber v"
| "normalizeFiniteNumber (JS_Bytes (b # bs)) = Some (of_nat b)"
| "normalizeFiniteNumber _ = None"

definition normalizePositiveNumber :: "js_value \<Rightarrow> rat option" where
  "normalizePositiveNumber v = (case normalizeFiniteNumber v of Some x \<Rightarrow> if x > 0 then Some x else None | None \<Rightarrow> None)"

definition normalizeInteger :: "js_value \<Rightarrow> int \<Rightarrow> int \<Rightarrow> int option" where
  "normalizeInteger v minimum maximum =
     (case normalizeFiniteNumber v of
        Some x \<Rightarrow> if of_int \<lfloor>x\<rfloor> = x \<and> \<lfloor>x\<rfloor> \<ge> minimum \<and> \<lfloor>x\<rfloor> \<le> maximum then Some \<lfloor>x\<rfloor> else None
      | None \<Rightarrow> None)"

definition normalizeDimensions :: "double \<Rightarrow> double \<Rightarrow> (int \<times> int) option" where
  "normalizeDimensions width height =
     (case (width, height) of
        (Finite w, Finite h) \<Rightarrow>
          if of_int \<lfloor>w\<rfloor> = w \<and> w > 0 \<and> of_int \<lfloor>h\<rfloor> = h \<and> h > 0 then Some (\<lfloor>w\<rfloor>, \<lfloor>h\<rfloor>) else None
      | _ \<Rightarrow> None)"

section \<open>Promises with a timeout\<close>

text \<open>A promise settles after a number of milliseconds or never. A rejection is \<open>None\<close>.\<close>

datatype 'a promise = Resolves nat 'a | Rejects nat | Pending

definition withTimeout :: "'a promise \<Rightarrow> nat \<Rightarrow> 'a option" where
  "withTimeout p timeoutMs = (case p of Resolves t x \<Rightarrow> if t < timeoutMs then Some x else None | _ \<Rightarrow> None)"

section \<open>EXIF tags\<close>

type_synonym ExifTags = "(string \<times> js_value) list"

definition tag :: "ExifTags \<Rightarrow> string \<Rightarrow> js_value" where
  "tag tags name = (case map_of tags name of Some v \<Rightarrow> v | None \<Rightarrow> JS_Undefined)"

definition or_else :: "js_value \<Rightarrow> js_value \<Rightarrow> js_value" where
  "or_else a b = (if a = JS_Undefined \<or> a = JS_Null then b else a)"

text \<open>The tags, with none when the reader fails; an array has no tag.\<close>

definition readExifTags :: "js_value promise \<Rightarrow> ExifTags option" where
  "readExifTags exif =
     map_option (\<lambda>parsed. case parsed of JS_Object entries \<Rightarrow> entries | _ \<Rightarrow> []) (withTimeout exif EXTRACTION_TIMEOUT_MS)"

definition readExifDimensions :: "ExifTags \<Rightarrow> int option \<Rightarrow> (int \<times> int) option" where
  "readExifDimensions tags orientation =
     (case (normalizeInteger (or_else (tag tags ''ExifImageWidth'') (tag tags ''ImageWidth'')) 1 MAX_SAFE_INTEGER,
            normalizeInteger (or_else (tag tags ''ExifImageHeight'') (tag tags ''ImageHeight'')) 1 MAX_SAFE_INTEGER) of
        (Some width, Some height) \<Rightarrow>
          Some (case orientation of Some o8 \<Rightarrow> if o8 \<ge> 5 then (height, width) else (width, height) | None \<Rightarrow> (width, height))
      | _ \<Rightarrow> None)"

text \<open>The decoder of the platform, when it has one.\<close>

definition readImageDimensions :: "(double \<times> double) promise option \<Rightarrow> (int \<times> int) option" where
  "readImageDimensions createImageBitmap =
     (case createImageBitmap of
        None \<Rightarrow> None
      | Some bitmapPromise \<Rightarrow>
          (case withTimeout bitmapPromise EXTRACTION_TIMEOUT_MS of
             Some (width, height) \<Rightarrow> normalizeDimensions width height
           | None \<Rightarrow> None))"

section \<open>Capture time\<close>

definition normalizeUTCOffset :: "js_value \<Rightarrow> jsstring option" where
  "normalizeUTCOffset v =
     (case v of
        JS_String s \<Rightarrow>
          let offset = cleanExifString s in
          if offset = js ''Z'' then Some offset
          else
            (case offset of
               [sign, h1, h2, colon, m1, m2] \<Rightarrow>
                 if (sign = 0x2b \<or> sign = 0x2d) \<and> colon = 0x3a \<and> (\<forall>c \<in> {h1, h2, m1, m2}. is_digit c) then
                   let hours = digits_value [h1, h2]; minutes = digits_value [m1, m2] in
                   if hours \<le> 14 \<and> minutes \<le> 59 \<and> (hours \<noteq> 14 \<or> minutes = 0) then Some offset else None
                 else None
             | _ \<Rightarrow> None)
      | _ \<Rightarrow> None)"

text \<open>
  \<^verbatim>\<open>/^(\d{4}):(\d{2}):(\d{2})[ T](\d{2}):(\d{2}):(\d{2})$/\<close>: the six texts. \<open>date_iso\<close> is \<^verbatim>\<open>new Date(...)\<close> of a text
  followed by \<^verbatim>\<open>toISOString\<close>; \<open>None\<close> when its time is not a number.
\<close>

definition exif_fields :: "jsstring \<Rightarrow> jsstring list option" where
  "exif_fields t =
     (if length t = 19 \<and> t ! 4 = 0x3a \<and> t ! 7 = 0x3a \<and> (t ! 10 = 0x20 \<or> t ! 10 = 0x54) \<and> t ! 13 = 0x3a \<and> t ! 16 = 0x3a \<and>
         (\<forall>i \<in> set [0, 1, 2, 3, 5, 6, 8, 9, 11, 12, 14, 15, 17, 18]. is_digit (t ! i))
      then Some [Prelude.slice t 0 4, Prelude.slice t 5 7, Prelude.slice t 8 10, Prelude.slice t 11 13, Prelude.slice t 14 16, Prelude.slice t 17 19] else None)"

definition base_text :: "jsstring list \<Rightarrow> jsstring" where
  "base_text parts =
     parts ! 0 @ js ''-'' @ parts ! 1 @ js ''-'' @ parts ! 2 @ js ''T'' @ parts ! 3 @ js '':'' @ parts ! 4 @ js '':'' @ parts ! 5"

definition normalizeCaptureTime ::
    "(jsstring \<Rightarrow> jsstring option) \<Rightarrow> js_value \<Rightarrow> js_value \<Rightarrow> js_value \<Rightarrow> MediaCaptureTime option" where
  "normalizeCaptureTime date_iso dateValue subsecondValue offsetValue =
     (case dateValue of
        JS_String s \<Rightarrow>
          (case exif_fields (cleanExifString s) of
             None \<Rightarrow> None
           | Some parts \<Rightarrow>
               if digits_value (parts ! 0) = 0 then None
               else
                 let base = base_text parts in
                 (case date_iso (base @ js ''Z'') of
                    None \<Rightarrow> None
                  | Some shown \<Rightarrow>
                      if \<not> starts_with shown base then None
                      else
                        let cleanedSubseconds = (case subsecondValue of JS_String u \<Rightarrow> cleanExifString u | _ \<Rightarrow> []);
                            subseconds = (if 1 \<le> length cleanedSubseconds \<and> length cleanedSubseconds \<le> 9 \<and>
                                (\<forall>c \<in> set cleanedSubseconds. is_digit c) then Some cleanedSubseconds else None)
                        in Some \<lparr>ct_localDateTime = (case subseconds of Some u \<Rightarrow> base @ js ''.'' @ u | None \<Rightarrow> base),
                             ct_utcOffset = normalizeUTCOffset offsetValue\<rparr>))
      | _ \<Rightarrow> None)"

definition readCaptureTime :: "(jsstring \<Rightarrow> jsstring option) \<Rightarrow> ExifTags \<Rightarrow> MediaCaptureTime option" where
  "readCaptureTime date_iso tags =
     (case normalizeCaptureTime date_iso (tag tags ''DateTimeOriginal'') (tag tags ''SubSecTimeOriginal'') (tag tags ''OffsetTimeOriginal'') of
        Some c \<Rightarrow> Some c
      | None \<Rightarrow> normalizeCaptureTime date_iso (tag tags ''CreateDate'') (tag tags ''SubSecTimeDigitized'') (tag tags ''OffsetTimeDigitized''))"

section \<open>Location\<close>

text \<open>\<^verbatim>\<open>toUpperCase\<close> of one unit, where its result can be a letter of a direction: the long s becomes S.\<close>

definition upper_unit :: "nat \<Rightarrow> nat" where
  "upper_unit c = (if is_lower c then c - 32 else if c = 0x17f then 0x53 else c)"

definition normalizeCoordinate :: "js_value \<Rightarrow> js_value \<Rightarrow> js_value \<Rightarrow> rat \<Rightarrow> nat \<Rightarrow> nat \<Rightarrow> rat option" where
  "normalizeCoordinate computed dms ref maximum positiveRef negativeRef =
     (let from_dms =
        (let direction = (case ref of JS_String s \<Rightarrow> map upper_unit (cleanExifString s) | _ \<Rightarrow> []) in
         case dms of
           JS_Array (d # m # s # _) \<Rightarrow>
             if direction \<noteq> [positiveRef] \<and> direction \<noteq> [negativeRef] then None
             else
               (case (normalizeFiniteNumber d, normalizeFiniteNumber m, normalizeFiniteNumber s) of
                  (Some degrees, Some minutes, Some seconds) \<Rightarrow>
                    if degrees < 0 \<or> minutes < 0 \<or> minutes \<ge> 60 \<or> seconds < 0 \<or> seconds \<ge> 60 then None
                    else
                      let sign = (if direction = [negativeRef] then - 1 else 1);
                          result = sign * fl (fl (degrees + fl (minutes / 60)) + fl (seconds / 3600))
                      in if result \<ge> - maximum \<and> result \<le> maximum then Some result else None
                | _ \<Rightarrow> None)
         | _ \<Rightarrow> None)
      in case normalizeFiniteNumber computed of
           Some x \<Rightarrow> if x \<ge> - maximum \<and> x \<le> maximum then Some x else from_dms
         | None \<Rightarrow> from_dms)"

definition readLocation :: "ExifTags \<Rightarrow> MediaLocation option" where
  "readLocation tags =
     (case (normalizeCoordinate (tag tags ''latitude'') (tag tags ''GPSLatitude'') (tag tags ''GPSLatitudeRef'') 90 0x4e 0x53,
            normalizeCoordinate (tag tags ''longitude'') (tag tags ''GPSLongitude'') (tag tags ''GPSLongitudeRef'') 180 0x45 0x57) of
        (Some latitude, Some longitude) \<Rightarrow>
          let rawAltitude = normalizeFiniteNumber (tag tags ''GPSAltitude'');
              altitudeRef = normalizeFiniteNumber (tag tags ''GPSAltitudeRef'');
              altitudeMeters = map_option (\<lambda>a. if altitudeRef = Some 1 then - a else a) rawAltitude
          in Some \<lparr>ml_latitude = Some (Finite latitude), ml_longitude = Some (Finite longitude),
               ml_altitudeMeters = map_option Finite altitudeMeters\<rparr>
      | _ \<Rightarrow> None)"

section \<open>Images and videos\<close>

definition or_empty_text :: "jsstring option \<Rightarrow> jsstring" where
  "or_empty_text t = (case t of Some s \<Rightarrow> s | None \<Rightarrow> [])"

definition extractImageMetadata ::
    "(jsstring \<Rightarrow> jsstring option) \<Rightarrow> js_value promise \<Rightarrow> (double \<times> double) promise option \<Rightarrow> MediaMetadata option" where
  "extractImageMetadata date_iso exif createImageBitmap =
     (let tags = (case readExifTags exif of Some t \<Rightarrow> t | None \<Rightarrow> []);
          sourceExifOrientation = normalizeInteger (tag tags ''Orientation'') 1 8;
          dimensions = (case readExifDimensions tags sourceExifOrientation of
              Some d \<Rightarrow> Some d | None \<Rightarrow> readImageDimensions createImageBitmap);
          captureTime = readCaptureTime date_iso tags;
          location = readLocation tags;
          cameraMake = normalizeMetadataString (tag tags ''Make'');
          cameraModel = normalizeMetadataString (tag tags ''Model'');
          lensModel = normalizeMetadataString (tag tags ''LensModel'');
          fNumber = normalizePositiveNumber (tag tags ''FNumber'');
          exposureTimeSeconds = normalizePositiveNumber (tag tags ''ExposureTime'');
          isoSpeed = normalizeInteger (tag tags ''ISO'') 1 MAX_SAFE_INTEGER;
          focalLengthMm = normalizePositiveNumber (tag tags ''FocalLength'');
          hasPhotoDetails = (captureTime \<noteq> None \<or> location \<noteq> None \<or> sourceExifOrientation \<noteq> None \<or> cameraMake \<noteq> None \<or>
            cameraModel \<noteq> None \<or> lensModel \<noteq> None \<or> fNumber \<noteq> None \<or> exposureTimeSeconds \<noteq> None \<or> isoSpeed \<noteq> None \<or>
            focalLengthMm \<noteq> None)
      in if dimensions = None \<and> \<not> hasPhotoDetails then None
         else Some \<lparr>meta_width = map_option fst dimensions, meta_height = map_option snd dimensions,
           meta_details = (if hasPhotoDetails
             then photo_details \<lparr>ph_captureTime = captureTime, ph_location = location,
               ph_sourceExifOrientation = sourceExifOrientation, ph_cameraMake = or_empty_text cameraMake,
               ph_cameraModel = or_empty_text cameraModel, ph_lensModel = or_empty_text lensModel,
               ph_fNumber = map_option Finite fNumber, ph_exposureTimeSeconds = map_option Finite exposureTimeSeconds,
               ph_iso = isoSpeed, ph_focalLengthMm = map_option Finite focalLengthMm\<rparr>
             else no_details)\<rparr>)"

text \<open>
  The video element tells of its metadata or of an error, and the timeout may pass, in some order. The first of
  them settles the promise and takes the listeners, the timeout and the object URL away.
\<close>

datatype video_event = loaded_metadata double double double | video_error | video_timeout

record video_reader =
  vr_listening :: bool
  vr_timer :: bool
  vr_objectURL :: bool
  vr_settled :: "((int \<times> int) option \<times> rat option) option option"

definition video_start :: video_reader where
  "video_start = \<lparr>vr_listening = True, vr_timer = True, vr_objectURL = True, vr_settled = None\<rparr>"

definition video_cleanup :: "video_reader \<Rightarrow> video_reader" where
  "video_cleanup v = v\<lparr>vr_timer := False, vr_listening := False, vr_objectURL := False\<rparr>"

text \<open>A promise keeps the value it settled with; \<open>Some None\<close> is a rejection.\<close>

definition settle :: "((int \<times> int) option \<times> rat option) option \<Rightarrow> video_reader \<Rightarrow> video_reader" where
  "settle r v = v\<lparr>vr_settled := (case vr_settled v of None \<Rightarrow> Some r | Some x \<Rightarrow> Some x)\<rparr>"

definition video_step :: "video_reader \<Rightarrow> video_event \<Rightarrow> video_reader" where
  "video_step v e =
     (case e of
        loaded_metadata videoWidth videoHeight duration \<Rightarrow>
          if vr_listening v then
            let dimensions = normalizeDimensions videoWidth videoHeight;
                durationSeconds = (case duration of Finite d \<Rightarrow> if d \<ge> 0 then Some d else None | Not_Finite \<Rightarrow> None)
            in settle (Some (dimensions, durationSeconds)) (video_cleanup v)
          else v
      | video_error \<Rightarrow> if vr_listening v then settle None (video_cleanup v) else v
      | video_timeout \<Rightarrow> if vr_timer v then settle None (video_cleanup v) else v)"

definition readVideoMetadata :: "video_event list \<Rightarrow> ((int \<times> int) option \<times> rat option) option option" where
  "readVideoMetadata events = vr_settled (foldl video_step video_start events)"

text \<open>\<open>Some None\<close> is no metadata; the outer \<open>None\<close> a failure, which \<open>extract_metadata\<close> catches.\<close>

definition extractVideoMetadata :: "video_event list \<Rightarrow> MediaMetadata option option" where
  "extractVideoMetadata events =
     (case readVideoMetadata events of
        Some (Some (dimensions, durationSeconds)) \<Rightarrow>
          if dimensions = None \<and> durationSeconds = None then Some None
          else Some (Some \<lparr>meta_width = map_option fst dimensions, meta_height = map_option snd dimensions,
            meta_details = (case durationSeconds of
                None \<Rightarrow> no_details | Some d \<Rightarrow> video_details \<lparr>vi_durationSeconds = Some (Finite d)\<rparr>)\<rparr>)
      | _ \<Rightarrow> None)"

record media_file =
  mf_type :: jsstring
  mf_exif :: "js_value promise"
  mf_bitmap :: "(double \<times> double) promise option"
  mf_video :: "video_event list"

definition extract_metadata :: "(jsstring \<Rightarrow> jsstring option) \<Rightarrow> media_file \<Rightarrow> MediaMetadata option" where
  "extract_metadata date_iso file =
     (if isImage (mf_type file) then extractImageMetadata date_iso (mf_exif file) (mf_bitmap file)
      else if starts_with (mf_type file) (js ''video/'')
        then (case extractVideoMetadata (mf_video file) of Some found \<Rightarrow> found | None \<Rightarrow> None)
      else None)"

end
