(* ===== verification/MediaContract.thy ===== *)
theory MediaContract
  imports MediaExtraction "HOL-Library.Word"
begin

text \<open>
  The server's check of media metadata (\<^verbatim>\<open>server/router/api/v1/attachment_media_metadata.go\<close>), and the contract between
  the two programs: the metadata the client extracts passes the check, when its integers fit the fields of the message,
  which have 32 bits.
\<close>

section \<open>The message\<close>

text \<open>
  The structs of the server (\<^verbatim>\<open>proto/api/v1/attachment_service.proto\<close>): the fields of type \<^verbatim>\<open>int32\<close> are words, read
  with their sign. A text stands for its UTF-8 bytes.
\<close>

type_synonym int32 = "32 word"

record go_photo =
  go_captureTime :: "MediaCaptureTime option"
  go_location :: "MediaLocation option"
  go_sourceExifOrientation :: "int32 option"
  go_cameraMake :: jsstring
  go_cameraModel :: jsstring
  go_lensModel :: jsstring
  go_fNumber :: "double option"
  go_exposureTimeSeconds :: "double option"
  go_iso :: "int32 option"
  go_focalLengthMm :: "double option"

datatype go_details = go_no_details | go_photo_details go_photo | go_video_details VideoMetadata

record go_metadata =
  go_width :: "int32 option"
  go_height :: "int32 option"
  go_meta_details :: go_details

text \<open>
  What the message serializer does with the client's value: an integer that has no \<^verbatim>\<open>int32\<close> is refused with an error,
  here \<open>None\<close>.
\<close>

definition encode_int32 :: "int \<Rightarrow> int32 option" where
  "encode_int32 n = (if - (2 ^ 31) \<le> n \<and> n < 2 ^ 31 then Some (word_of_int n) else None)"

definition encode_optional :: "int option \<Rightarrow> int32 option option" where
  "encode_optional v = (case v of None \<Rightarrow> Some None | Some n \<Rightarrow> map_option Some (encode_int32 n))"

definition encode_photo :: "PhotoMetadata \<Rightarrow> go_photo option" where
  "encode_photo photo =
     (case (encode_optional (ph_sourceExifOrientation photo), encode_optional (ph_iso photo)) of
        (Some orientation, Some speed) \<Rightarrow>
          Some \<lparr>go_captureTime = ph_captureTime photo, go_location = ph_location photo,
            go_sourceExifOrientation = orientation, go_cameraMake = ph_cameraMake photo,
            go_cameraModel = ph_cameraModel photo, go_lensModel = ph_lensModel photo, go_fNumber = ph_fNumber photo,
            go_exposureTimeSeconds = ph_exposureTimeSeconds photo, go_iso = speed,
            go_focalLengthMm = ph_focalLengthMm photo\<rparr>
      | _ \<Rightarrow> None)"

definition encode_details :: "media_details \<Rightarrow> go_details option" where
  "encode_details details =
     (case details of
        no_details \<Rightarrow> Some go_no_details
      | photo_details photo \<Rightarrow> map_option go_photo_details (encode_photo photo)
      | video_details video \<Rightarrow> Some (go_video_details video))"

definition encode_metadata :: "MediaMetadata \<Rightarrow> go_metadata option" where
  "encode_metadata md =
     (case (encode_optional (meta_width md), encode_optional (meta_height md), encode_details (meta_details md)) of
        (Some width, Some height, Some details) \<Rightarrow>
          Some \<lparr>go_width = width, go_height = height, go_meta_details = details\<rparr>
      | _ \<Rightarrow> None)"






section \<open>The check of the server\<close>

text \<open>An error is its message; \<open>None\<close> accepts. The first error counts.\<close>

fun first_error :: "string option list \<Rightarrow> string option" where
  "first_error [] = None"
| "first_error (e # es) = (case e of Some m \<Rightarrow> Some m | None \<Rightarrow> first_error es)"

definition check :: "bool \<Rightarrow> string \<Rightarrow> string option" where
  "check refused message = (if refused then Some message else None)"

















section \<open>Texts\<close>

lemma first_error_None [simp]: "first_error es = None \<longleftrightarrow> (\<forall>e \<in> set es. e = None)"
  by (induction es) (auto split: option.splits)

lemma check_None [simp]: "check refused message = None \<longleftrightarrow> \<not> refused"
  by (simp add: check_def)

declare first_error.simps [simp del]







section \<open>Numbers\<close>






section \<open>Capture times\<close>









section \<open>The contract\<close>













text \<open>A photo whose EXIF tags give a size of 4294967295 by 1; the reader answers after 5 milliseconds.\<close>

definition wide_photo :: media_file where
  "wide_photo = \<lparr>mf_type = js ''image/jpeg'',
     mf_exif = Resolves 5 (JS_Object [(''ExifImageWidth'', JS_Number (Finite 4294967295)), (''ExifImageHeight'', JS_Number (Finite 1))]),
     mf_bitmap = None, mf_video = []\<rparr>"

definition wide_metadata :: MediaMetadata where
  "wide_metadata = \<lparr>meta_width = Some 4294967295, meta_height = Some 1, meta_details = no_details\<rparr>"

lemma wide_photo_extracted: "extract_metadata date_iso wide_photo = Some wide_metadata"
proof -
  have tags: "readExifTags (mf_exif wide_photo) =
      Some [(''ExifImageWidth'', JS_Number (Finite 4294967295)), (''ExifImageHeight'', JS_Number (Finite 1))]"
    by (simp add: readExifTags_def withTimeout_def wide_photo_def EXTRACTION_TIMEOUT_MS_def)
  have image: "isImage (mf_type wide_photo)"
    by (simp add: isImage_def isPSD_def wide_photo_def js_str starts_with_def)
  show ?thesis
    by (simp add: extract_metadata_def image extractImageMetadata_def tags Let_def tag_def or_else_def readExifDimensions_def
        normalizeInteger_def MAX_SAFE_INTEGER_def readCaptureTime_def normalizeCaptureTime_def readLocation_def
        normalizeCoordinate_def normalizeMetadataString_def normalizePositiveNumber_def wide_metadata_def)
qed




text \<open>
  The client takes an integer up to \<open>MAX_SAFE_INTEGER\<close>, the message has 32 bits for it: the metadata extracted from a file
  can be such that it cannot be encoded into the request.
\<close>

lemma wide_image_exceeds_int32:
  "extract_metadata date_iso wide_photo = Some wide_metadata \<and> encode_metadata wide_metadata = None"
  by (simp add: wide_photo_extracted)
    (simp add: wide_metadata_def encode_metadata_def encode_optional_def encode_int32_def)

end
