(* ===== verification/InlineFiles.thy ===== *)
theory InlineFiles
  imports MediaItems "HOL-Library.Multiset"
begin

text \<open>
  Which picked files become references in the text: \<^verbatim>\<open>splitInlineLocalFiles\<close> of
  \<^verbatim>\<open>components/MemoEditor/hooks/useInlineImageUpload.ts\<close>.
\<close>

section \<open>Images in the text\<close>

record InlineLocalFileSplit =
  sp_inline :: "LocalFile list"
  sp_representativeIndexes :: "nat list"
  sp_attachments :: "LocalFile list"

definition image_file :: "LocalFile \<Rightarrow> bool" where
  "image_file f \<longleftrightarrow> isImage (file_type (lf_file f))"

definition video_file :: "LocalFile \<Rightarrow> bool" where
  "video_file f \<longleftrightarrow> starts_with (file_type (lf_file f)) (js ''video/'')"

definition group_files :: "LocalFile list \<Rightarrow> jsstring \<Rightarrow> LocalFile list" where
  "group_files files g = filter (\<lambda>c. local_group c = Some g) files"

text \<open>The index of the first image of a group.\<close>

definition representative :: "LocalFile list \<Rightarrow> nat option" where
  "representative grp =
     (let k = length (takeWhile (\<lambda>f. \<not> image_file f) grp) in if k < length grp then Some k else None)"

fun split_loop :: "LocalFile list \<Rightarrow> jsstring list \<Rightarrow> InlineLocalFileSplit \<Rightarrow> LocalFile list \<Rightarrow> InlineLocalFileSplit" where
  "split_loop files consumed s [] = s"
| "split_loop files consumed s (f # fs) =
     (case local_group f of
        None \<Rightarrow>
          if image_file f
          then split_loop files consumed
            (s\<lparr>sp_representativeIndexes := sp_representativeIndexes s @ [length (sp_inline s)], sp_inline := sp_inline s @ [f]\<rparr>) fs
          else split_loop files consumed (s\<lparr>sp_attachments := sp_attachments s @ [f]\<rparr>) fs
      | Some g \<Rightarrow>
          if g \<in> set consumed then split_loop files consumed s fs
          else
            let grp = group_files files g in
            (case representative grp of
               None \<Rightarrow> split_loop files (set_add g consumed) (s\<lparr>sp_attachments := sp_attachments s @ grp\<rparr>) fs
             | Some k \<Rightarrow>
                 split_loop files (set_add g consumed)
                   (s\<lparr>sp_representativeIndexes := sp_representativeIndexes s @ [length (sp_inline s) + k],
                      sp_inline := sp_inline s @ grp\<rparr>) fs))"

definition splitInlineLocalFiles :: "LocalFile list \<Rightarrow> InlineLocalFileSplit" where
  "splitInlineLocalFiles files =
     split_loop files [] \<lparr>sp_inline = [], sp_representativeIndexes = [], sp_attachments = []\<rparr> files"

section \<open>Blocks\<close>

text \<open>What is kept together: a file of no group, or all files of one.\<close>

fun blocks_of :: "LocalFile list \<Rightarrow> jsstring list \<Rightarrow> LocalFile list \<Rightarrow> LocalFile list list" where
  "blocks_of files consumed [] = []"
| "blocks_of files consumed (f # fs) =
     (case local_group f of
        None \<Rightarrow> [f] # blocks_of files consumed fs
      | Some g \<Rightarrow>
          if g \<in> set consumed then blocks_of files consumed fs
          else group_files files g # blocks_of files (g # consumed) fs)"

fun representatives :: "nat \<Rightarrow> LocalFile list list \<Rightarrow> nat list" where
  "representatives i [] = []"
| "representatives i (b # bs) = (i + the (representative b)) # representatives (i + length b) bs"

abbreviation shown_block :: "LocalFile list \<Rightarrow> bool" where "shown_block b \<equiv> representative b \<noteq> None"

lemma representative_single: "representative [f] = (if image_file f then Some 0 else None)"
  by (simp add: representative_def)

lemma split_loop_blocks:
  assumes "set consumed = set consumed'"
  shows "split_loop files consumed s fs =
    (let bs = blocks_of files consumed' fs; shown = filter shown_block bs in
     \<lparr>sp_inline = sp_inline s @ concat shown,
      sp_representativeIndexes = sp_representativeIndexes s @ representatives (length (sp_inline s)) shown,
      sp_attachments = sp_attachments s @ concat (filter (\<lambda>b. \<not> shown_block b) bs)\<rparr>)"
  using assms
proof (induction fs arbitrary: consumed consumed' s)
  case (Cons f fs)
  show ?case
  proof (cases "local_group f")
    case None
    then show ?thesis using Cons.IH [OF Cons.prems] by (simp add: Let_def representative_single)
  next
    case (Some g)
    have c: "set (set_add g consumed) = set (g # consumed')" using Cons.prems by auto
    show ?thesis
    proof (cases "g \<in> set consumed")
      case True
      then show ?thesis using Cons.IH [OF Cons.prems] Cons.prems by (simp add: Some Let_def)
    next
      case False
      then show ?thesis using Cons.IH [OF c] Cons.prems by (cases "representative (group_files files g)") (simp_all add: Some Let_def)
    qed
  qed
qed simp

lemma split_blocks:
  "splitInlineLocalFiles files =
    (let bs = blocks_of files [] files; shown = filter shown_block bs in
     \<lparr>sp_inline = concat shown, sp_representativeIndexes = representatives 0 shown,
      sp_attachments = concat (filter (\<lambda>b. \<not> shown_block b) bs)\<rparr>)"
  by (simp add: splitInlineLocalFiles_def split_loop_blocks [of "[]" "[]"] Let_def)

text \<open>Every file is in one block.\<close>

lemma mset_filter_or:
  "\<forall>x \<in> set xs. \<not> (P x \<and> Q x) \<Longrightarrow> mset (filter (\<lambda>x. P x \<or> Q x) xs) = mset (filter P xs) + mset (filter Q xs)"
  by (induction xs) auto

lemma blocks_files:
  "mset (concat (blocks_of files consumed fs)) =
   mset (filter (\<lambda>f. local_group f = None) fs) +
   mset (filter (\<lambda>f. \<exists>h \<in> set fs. local_group f \<noteq> None \<and> local_group h = local_group f \<and> the (local_group f) \<notin> set consumed) files)"
proof (induction fs arbitrary: consumed)
  case (Cons f fs)
  show ?case
  proof (cases "local_group f")
    case None
    then have "(\<lambda>x. \<exists>h \<in> set (f # fs). local_group x \<noteq> None \<and> local_group h = local_group x \<and> the (local_group x) \<notin> set consumed) =
        (\<lambda>x. \<exists>h \<in> set fs. local_group x \<noteq> None \<and> local_group h = local_group x \<and> the (local_group x) \<notin> set consumed)"
      by auto
    with Cons.IH [of consumed] None show ?thesis by simp
  next
    case (Some g)
    show ?thesis
    proof (cases "g \<in> set consumed")
      case True
      then have "(\<lambda>x. \<exists>h \<in> set (f # fs). local_group x \<noteq> None \<and> local_group h = local_group x \<and> the (local_group x) \<notin> set consumed) =
          (\<lambda>x. \<exists>h \<in> set fs. local_group x \<noteq> None \<and> local_group h = local_group x \<and> the (local_group x) \<notin> set consumed)"
        using Some by auto
      with Cons.IH [of consumed] True Some show ?thesis by simp
    next
      case False
      have "(\<lambda>x. \<exists>h \<in> set (f # fs). local_group x \<noteq> None \<and> local_group h = local_group x \<and> the (local_group x) \<notin> set consumed) =
          (\<lambda>x. local_group x = Some g \<or>
            (\<exists>h \<in> set fs. local_group x \<noteq> None \<and> local_group h = local_group x \<and> the (local_group x) \<notin> set (g # consumed)))"
        using Some False by auto
      moreover have "mset (filter (\<lambda>x. local_group x = Some g \<or>
          (\<exists>h \<in> set fs. local_group x \<noteq> None \<and> local_group h = local_group x \<and> the (local_group x) \<notin> set (g # consumed))) files) =
        mset (group_files files g) + mset (filter (\<lambda>x.
          \<exists>h \<in> set fs. local_group x \<noteq> None \<and> local_group h = local_group x \<and> the (local_group x) \<notin> set (g # consumed)) files)"
        unfolding group_files_def by (rule mset_filter_or) auto
      ultimately show ?thesis using Cons.IH [of "g # consumed"] Some False by (simp add: ac_simps)
    qed
  qed
qed simp

lemma blocks_partition: "mset (concat (blocks_of files [] files)) = mset files"
proof -
  have "mset files = mset (filter (\<lambda>f. local_group f = None) files) + mset (filter (\<lambda>f. local_group f \<noteq> None) files)"
    by (induction files) auto
  moreover have "filter (\<lambda>f. \<exists>h \<in> set files. local_group f \<noteq> None \<and> local_group h = local_group f \<and> the (local_group f) \<notin> set []) files =
      filter (\<lambda>f. local_group f \<noteq> None) files"
    by (rule filter_cong) auto
  ultimately show ?thesis by (simp add: blocks_files)
qed

text \<open>Blocks of different groups: cut into blocks again, they are the same.\<close>

fun apart_blocks :: "jsstring set \<Rightarrow> LocalFile list list \<Rightarrow> bool" where
  "apart_blocks C [] = True"
| "apart_blocks C (b # bs) \<longleftrightarrow> b \<noteq> [] \<and>
     (case local_group (hd b) of
        None \<Rightarrow> length b = 1 \<and> apart_blocks C bs
      | Some g \<Rightarrow> (\<forall>f \<in> set b. local_group f = Some g) \<and> g \<notin> C \<and> apart_blocks (insert g C) bs)"

lemma apart_mono: "apart_blocks C bs \<Longrightarrow> C' \<subseteq> C \<Longrightarrow> apart_blocks C' bs"
proof (induction bs arbitrary: C C')
  case (Cons b bs)
  from Cons.prems show ?case
    by (auto split: option.splits intro: Cons.IH [of C C'] Cons.IH [of "insert x C" "insert x C'" for x])
qed simp

lemma apart_filter: "apart_blocks C bs \<Longrightarrow> apart_blocks C (filter P bs)"
proof (induction bs arbitrary: C)
  case (Cons b bs)
  then show ?case by (auto split: option.splits intro: apart_mono [of "insert x C" for x])
qed simp

lemma apart_groups: "apart_blocks C bs \<Longrightarrow> f \<in> set (concat bs) \<Longrightarrow> local_group f = Some g \<Longrightarrow> g \<notin> C"
proof (induction bs arbitrary: C)
  case (Cons b bs)
  show ?case
  proof (cases "f \<in> set b")
    case True
    then show ?thesis using Cons.prems by (cases b) (auto split: option.splits)
  next
    case False
    then show ?thesis using Cons.prems Cons.IH by (fastforce split: option.splits)
  qed
qed simp

lemma blocks_of_apart:
  "set fs \<subseteq> set files \<Longrightarrow> apart_blocks (set consumed) (blocks_of files consumed fs)"
proof (induction fs arbitrary: consumed)
  case (Cons f fs)
  show ?case
  proof (cases "local_group f")
    case None
    then show ?thesis using Cons by simp
  next
    case (Some g)
    have "f \<in> set (group_files files g)" using Cons.prems Some by (simp add: group_files_def)
    then have "group_files files g \<noteq> []" by auto
    moreover have "\<forall>x \<in> set (group_files files g). local_group x = Some g" by (simp add: group_files_def)
    ultimately show ?thesis using Cons.IH [of consumed] Cons.IH [of "g # consumed"] Cons.prems Some by simp
  qed
qed simp

lemma blocks_of_skip:
  "\<forall>f \<in> set xs. local_group f = Some g \<Longrightarrow> g \<in> set consumed \<Longrightarrow> blocks_of files consumed (xs @ rest) = blocks_of files consumed rest"
  by (induction xs) auto

lemma blocks_again:
  assumes "apart_blocks (set consumed) bs" "\<forall>f \<in> set pre. \<forall>g. local_group f = Some g \<longrightarrow> g \<in> set consumed"
  shows "blocks_of (pre @ concat bs) consumed (concat bs) = bs"
  using assms
proof (induction bs arbitrary: pre consumed)
  case (Cons b bs)
  show ?case
  proof (cases "local_group (hd b)")
    case None
    then obtain f where b: "b = [f]" "local_group f = None" using Cons.prems(1) by (cases b) auto
    then show ?thesis using Cons.IH [of consumed "pre @ [f]"] Cons.prems by simp
  next
    case (Some g)
    then have g: "b \<noteq> []" "\<forall>f \<in> set b. local_group f = Some g" "g \<notin> set consumed" "apart_blocks (insert g (set consumed)) bs"
      using Cons.prems(1) by auto
    obtain x xs where b: "b = x # xs" using g(1) by (cases b) auto
    have "filter (\<lambda>c. local_group c = Some g) pre = []" using Cons.prems(2) g(3) by (auto simp: filter_empty_conv)
    moreover have "filter (\<lambda>c. local_group c = Some g) (concat bs) = []"
      using apart_groups [OF g(4)] by (auto simp: filter_empty_conv)
    moreover have "filter (\<lambda>c. local_group c = Some g) b = b" using g(2) by (rule filter_True)
    ultimately have "group_files (pre @ concat (b # bs)) g = b" by (simp add: group_files_def)
    moreover have "blocks_of (pre @ concat (b # bs)) (g # consumed) (xs @ concat bs) = bs"
    proof -
      have pr: "\<forall>f \<in> set (pre @ b). \<forall>h. local_group f = Some h \<longrightarrow> h \<in> set (g # consumed)"
        using g(2) Cons.prems(2) by auto
      have "blocks_of ((pre @ b) @ concat bs) (g # consumed) (concat bs) = bs"
        by (rule Cons.IH [OF _ pr]) (use g(4) in simp)
      moreover have "blocks_of files (g # consumed) (xs @ concat bs) = blocks_of files (g # consumed) (concat bs)" for files
        by (rule blocks_of_skip [of xs g]) (use g(2) b in auto)
      ultimately show ?thesis by simp
    qed
    ultimately show ?thesis using g by (simp add: b)
  qed
qed simp

lemma representatives_nth:
  "i < length bs \<Longrightarrow> representatives j bs ! i = j + length (concat (take i bs)) + the (representative (bs ! i))"
  by (induction bs arbitrary: i j) (auto simp: nth_Cons' take_Cons')

lemma length_representatives [simp]: "length (representatives j bs) = length bs"
  by (induction bs arbitrary: j) auto

lemma representative_Some:
  "representative b = Some k \<Longrightarrow> k < length b \<and> image_file (b ! k) \<and> (\<forall>j < k. \<not> image_file (b ! j))"
  using nth_length_takeWhile [of "\<lambda>f. \<not> image_file f" b] takeWhile_nth [of _ "\<lambda>f. \<not> image_file f" b] set_takeWhileD nth_mem
  by (fastforce simp: representative_def Let_def split: if_splits)

lemma representative_None: "representative b = None \<Longrightarrow> f \<in> set b \<Longrightarrow> \<not> image_file f"
proof -
  assume "representative b = None" and f: "f \<in> set b"
  then have "length (takeWhile (\<lambda>f. \<not> image_file f) b) = length b"
    using length_takeWhile_le [of "\<lambda>f. \<not> image_file f" b] by (auto simp: representative_def Let_def split: if_splits)
  then have "takeWhile (\<lambda>f. \<not> image_file f) b = b" by (metis append_Nil2 length_0_conv length_append add_cancel_right_right takeWhile_dropWhile_id)
  then show ?thesis using f by (metis takeWhile_eq_all_conv)
qed

lemma block_kinds: "b \<in> set (blocks_of files consumed fs) \<Longrightarrow> (\<exists>f. b = [f] \<and> local_group f = None) \<or> (\<exists>g. b = group_files files g)"
  by (induction fs arbitrary: consumed) (auto split: option.splits if_splits)

text \<open>
  C34. Picked files are split. Every picked file is kept: those that become references in the text and those that stay
  attachments are together the picked files. No image stays an attachment. The text part is a row of blocks, each a file of
  no group or all files of one motion group, with one representative for each block in their order: its first
  image. Splitting the text part again, as an upload job does, gives it back whole.
\<close>

theorem picked_files_are_split:
  fixes files defines "s \<equiv> splitInlineLocalFiles files"
  shows "mset (sp_inline s) + mset (sp_attachments s) = mset files \<and> (\<forall>f \<in> set (sp_attachments s). \<not> image_file f) \<and>
    (\<exists>bs. sp_inline s = concat bs \<and> length (sp_representativeIndexes s) = length bs \<and>
       (\<forall>i < length bs. (\<exists>f. bs ! i = [f] \<and> local_group f = None) \<or> (\<exists>g. bs ! i = group_files files g)) \<and>
       (\<forall>i < length bs. \<exists>k < length (bs ! i). sp_representativeIndexes s ! i = length (concat (take i bs)) + k \<and>
          image_file (bs ! i ! k) \<and> (\<forall>j < k. \<not> image_file (bs ! i ! j)))) \<and>
    splitInlineLocalFiles (sp_inline s) = s\<lparr>sp_attachments := []\<rparr>"
proof -
  define bs where "bs = blocks_of files [] files"
  define shown where "shown = filter shown_block bs"
  have s: "s = \<lparr>sp_inline = concat shown, sp_representativeIndexes = representatives 0 shown,
      sp_attachments = concat (filter (\<lambda>b. \<not> shown_block b) bs)\<rparr>"
    by (simp add: s_def split_blocks Let_def bs_def shown_def)
  have "mset (concat (filter P xs)) + mset (concat (filter (\<lambda>x. \<not> P x) xs)) = mset (concat xs)" for P and xs :: "LocalFile list list"
    by (induction xs) (auto simp: ac_simps)
  from this [of shown_block bs] have parts: "mset (concat shown) + mset (concat (filter (\<lambda>b. \<not> shown_block b) bs)) = mset files"
    using blocks_partition [of files] by (simp add: shown_def bs_def)
  have kept: "\<forall>f \<in> set (concat (filter (\<lambda>b. \<not> shown_block b) bs)). \<not> image_file f"
    using representative_None by auto
  have kinds: "(\<exists>f. shown ! i = [f] \<and> local_group f = None) \<or> (\<exists>g. shown ! i = group_files files g)" if "i < length shown" for i
    using nth_mem [OF that] block_kinds [of "shown ! i" files "[]" files] by (auto simp: shown_def bs_def)
  have reps: "\<exists>k < length (shown ! i). representatives 0 shown ! i = length (concat (take i shown)) + k \<and>
      image_file (shown ! i ! k) \<and> (\<forall>j < k. \<not> image_file (shown ! i ! j))" if i: "i < length shown" for i
  proof -
    obtain k where k: "representative (shown ! i) = Some k" using nth_mem [OF i] by (auto simp: shown_def)
    show ?thesis using representative_Some [OF k] representatives_nth [OF i, of 0] k by (intro exI [of _ k]) simp
  qed
  have "apart_blocks (set []) shown" unfolding shown_def bs_def by (intro apart_filter blocks_of_apart subset_refl)
  then have "blocks_of (concat shown) [] (concat shown) = shown" using blocks_again [of "[]" shown "[]"] by simp
  moreover have "filter shown_block shown = shown" "filter (\<lambda>b. \<not> shown_block b) shown = []" by (auto simp: shown_def filter_empty_conv)
  ultimately have again: "splitInlineLocalFiles (concat shown) =
      \<lparr>sp_inline = concat shown, sp_representativeIndexes = representatives 0 shown, sp_attachments = []\<rparr>"
    by (simp add: split_blocks Let_def)
  show ?thesis using parts kept kinds reps again unfolding s by (intro conjI exI [of _ shown]) simp_all
qed

text \<open>A photo, a document and both halves of a Live Photo, its clip first.\<close>

definition picked :: "string \<Rightarrow> string \<Rightarrow> string \<Rightarrow> LocalFile" where
  "picked url type g =
     \<lparr>lf_file = \<lparr>file_name = js url, file_type = js type, file_bytes = [1]\<rparr>, lf_previewUrl = js url, lf_origin = Some upload,
      lf_audioMeta = None,
      lf_motionMedia = (if g = [] then None else Some \<lparr>mm_family = APPLE_LIVE_PHOTO, mm_role = STILL, mm_groupId = js g,
        mm_presentationTimestampUs = 0, mm_hasEmbeddedVideo = False\<rparr>),
      lf_mediaMetadata = None\<rparr>"

lemma picked_files_are_split_witness:
  "\<not> image_file (picked ''b'' ''text/plain'' []) \<and>
   sp_attachments (splitInlineLocalFiles [picked ''a'' ''image/png'' [], picked ''b'' ''text/plain'' []]) = [picked ''b'' ''text/plain'' []]"
proof -
  have a: "local_group (picked ''a'' ''image/png'' []) = None" "image_file (picked ''a'' ''image/png'' [])"
    "local_group (picked ''b'' ''text/plain'' []) = None" "\<not> image_file (picked ''b'' ''text/plain'' [])"
    by (simp_all add: picked_def local_group_def or_undefined_def image_file_def isImage_def isPSD_def js_str starts_with_def)
  then have r: "sp_attachments (splitInlineLocalFiles [picked ''a'' ''image/png'' [], picked ''b'' ''text/plain'' []]) = [picked ''b'' ''text/plain'' []]"
    by (simp add: splitInlineLocalFiles_def)
  then show ?thesis
    using picked_files_are_split [of "[picked ''a'' ''image/png'' [], picked ''b'' ''text/plain'' []]"] by simp
qed

end
