(* ===== verification/UploadAnchors.thy ===== *)
theory UploadAnchors
  imports Formatting "HOL-Library.Multiset"
begin

text \<open>
  Upload anchors (\<^verbatim>\<open>components/MemoEditor/Editor/uploadAnchors.ts\<close>) and the editor controller
  (\<^verbatim>\<open>components/MemoEditor/Editor/controller.ts\<close>): a widget stands where the reference of an upload will be written, and
  moves with the text while it runs. How CodeMirror moves a position through changes is an argument; what its text keeps
  of an insertion is \<open>plain_newlines\<close>, as it splits lines at a carriage return too.
\<close>

section \<open>Anchors\<close>

datatype UploadAnchorStatus = status_uploading | status_failed

text \<open>A callback is the upload job it is about.\<close>

record UploadAnchorDescriptor =
  ud_id :: jsstring
  ud_status :: UploadAnchorStatus
  ud_completed :: nat
  ud_total :: nat
  ud_message :: jsstring
  ud_retryLabel :: jsstring
  ud_keepLabel :: jsstring
  ud_onRetry :: "jsstring option"
  ud_onKeepAttachments :: "jsstring option"

datatype anchor_effect =
    addUploadAnchor int UploadAnchorDescriptor
  | updateUploadAnchor UploadAnchorDescriptor
  | removeUploadAnchor jsstring

definition widget_eq :: "UploadAnchorDescriptor \<Rightarrow> UploadAnchorDescriptor \<Rightarrow> bool" where
  "widget_eq a b \<longleftrightarrow>
     ud_id a = ud_id b \<and> ud_status a = ud_status b \<and> ud_completed a = ud_completed b \<and> ud_total a = ud_total b \<and>
     ud_message a = ud_message b \<and> ud_retryLabel a = ud_retryLabel b \<and> ud_keepLabel a = ud_keepLabel b \<and>
     ud_onRetry a = ud_onRetry b \<and> ud_onKeepAttachments a = ud_onKeepAttachments b"

text \<open>The elements a widget is drawn as: tag, attributes, the callback of a click, children.\<close>

datatype dom_node = dom_text jsstring | dom_element string "(string \<times> jsstring) list" "jsstring option" "dom_node list"

definition anchor_button :: "jsstring \<Rightarrow> jsstring \<Rightarrow> dom_node" where
  "anchor_button label on_click =
     dom_element ''button'' [(''type'', js ''button''), (''class'', js ''cm-upload-anchor-action'')] (Some on_click) [dom_text label]"

definition status_text :: "UploadAnchorStatus \<Rightarrow> jsstring" where
  "status_text s = (case s of status_uploading \<Rightarrow> js ''uploading'' | status_failed \<Rightarrow> js ''failed'')"

definition toDOM :: "UploadAnchorDescriptor \<Rightarrow> dom_node" where
  "toDOM d =
     (let rail = dom_element ''span'' [(''class'', js ''cm-upload-anchor-rail'')] None [];
          spinner = dom_element ''span'' [(''class'', js ''cm-upload-anchor-spinner''), (''aria-hidden'', js ''true'')] None [];
          badge = dom_element ''span'' [(''class'', js ''cm-upload-anchor-badge'')] None
            (if ud_status d = status_uploading then [spinner, dom_text (ud_message d)] else [dom_text (ud_message d)]);
          actions = dom_element ''span'' [(''class'', js ''cm-upload-anchor-actions'')] None
            ((case ud_onRetry d of Some f \<Rightarrow> [anchor_button (ud_retryLabel d) f] | None \<Rightarrow> []) @
             (case ud_onKeepAttachments d of Some f \<Rightarrow> [anchor_button (ud_keepLabel d) f] | None \<Rightarrow> []))
      in dom_element ''div''
           [(''class'', js ''cm-upload-anchor''), (''data-status'', status_text (ud_status d)), (''role'', js ''status''),
            (''aria-live'', js ''polite'')] None
           ([rail, badge] @ (if ud_status d = status_failed then [actions] else [])))"

text \<open>The decoration set holds the anchors in the order of their positions.\<close>

type_synonym anchor_set = "(nat \<times> UploadAnchorDescriptor) list"

definition findAnchorPosition :: "anchor_set \<Rightarrow> jsstring \<Rightarrow> nat option" where
  "findAnchorPosition decorations target =
     foldl (\<lambda>position (p, d). if ud_id d = target then Some p else position) None decorations"

definition without_anchor :: "jsstring \<Rightarrow> anchor_set \<Rightarrow> anchor_set" where
  "without_anchor target anchors = filter (\<lambda>(_, d). ud_id d \<noteq> target) anchors"

definition apply_effect :: "nat \<Rightarrow> anchor_set \<Rightarrow> anchor_effect \<Rightarrow> anchor_set" where
  "apply_effect docLength next e =
     (case e of
        addUploadAnchor position descriptor \<Rightarrow>
          insort_key fst (nat (min (max position 0) (int docLength)), descriptor) next
      | updateUploadAnchor descriptor \<Rightarrow>
          (case findAnchorPosition next (ud_id descriptor) of
             None \<Rightarrow> next
           | Some position \<Rightarrow> insort_key fst (position, descriptor) (without_anchor (ud_id descriptor) next))
      | removeUploadAnchor target \<Rightarrow> without_anchor target next)"

text \<open>
  \<open>map_point\<close> moves the position of a block widget of side 1 through changes of a text; \<open>None\<close> when it goes with the
  text after it. \<open>map_selection\<close> moves the ends of the selection.
\<close>

record position_mapping =
  map_point :: "jsstring \<Rightarrow> line_change list \<Rightarrow> nat \<Rightarrow> nat option"
  map_selection :: "jsstring \<Rightarrow> line_change list \<Rightarrow> nat \<times> nat \<Rightarrow> nat \<times> nat"

definition map_anchors :: "(nat \<Rightarrow> nat option) \<Rightarrow> anchor_set \<Rightarrow> anchor_set" where
  "map_anchors f anchors = concat (map (\<lambda>(p, d). case f p of Some q \<Rightarrow> [(q, d)] | None \<Rightarrow> []) anchors)"

definition uploadAnchorField :: "position_mapping \<Rightarrow> jsstring \<Rightarrow> line_change list \<Rightarrow> anchor_effect list \<Rightarrow> anchor_set \<Rightarrow> anchor_set" where
  "uploadAnchorField M doc changes effects anchors =
     foldl (apply_effect (length (apply_changes doc changes))) (map_anchors (map_point M doc changes) anchors) effects"

section \<open>The view\<close>

text \<open>The selection is its anchor and its head.\<close>

record anchored_view =
  av_doc :: jsstring
  av_selection :: "nat \<times> nat"
  av_anchors :: anchor_set

record view_transaction =
  vt_changes :: "line_change list"
  vt_effects :: "anchor_effect list"
  vt_selection :: "(nat \<times> nat) option"

definition written :: "line_change \<Rightarrow> line_change" where
  "written c = c\<lparr>lc_insert := plain_newlines (lc_insert c)\<rparr>"

text \<open>\<open>None\<close> is the \<^verbatim>\<open>RangeError\<close> for a selection outside the text.\<close>

definition dispatch :: "position_mapping \<Rightarrow> view_transaction \<Rightarrow> anchored_view \<Rightarrow> anchored_view option" where
  "dispatch M t view =
     (let changes = map written (vt_changes t); doc = apply_changes (av_doc view) changes;
          selection = (case vt_selection t of Some s \<Rightarrow> s | None \<Rightarrow> map_selection M (av_doc view) changes (av_selection view))
      in if fst selection > length doc \<or> snd selection > length doc then None
         else Some \<lparr>av_doc = doc, av_selection = selection,
           av_anchors = uploadAnchorField M (av_doc view) changes (vt_effects t) (av_anchors view)\<rparr>)"

definition effects_only :: "anchor_effect \<Rightarrow> view_transaction" where
  "effects_only e = \<lparr>vt_changes = [], vt_effects = [e], vt_selection = None\<rparr>"

definition createUploadAnchor ::
    "position_mapping \<Rightarrow> UploadAnchorDescriptor \<Rightarrow> int option \<Rightarrow> anchored_view \<Rightarrow> anchored_view option" where
  "createUploadAnchor M descriptor position view =
     dispatch M (effects_only (addUploadAnchor
       (case position of Some p \<Rightarrow> p | None \<Rightarrow> int (snd (av_selection view))) descriptor)) view"

definition setUploadAnchor :: "position_mapping \<Rightarrow> UploadAnchorDescriptor \<Rightarrow> anchored_view \<Rightarrow> anchored_view option" where
  "setUploadAnchor M descriptor view = dispatch M (effects_only (updateUploadAnchor descriptor)) view"

definition cancelUploadAnchor :: "position_mapping \<Rightarrow> jsstring \<Rightarrow> anchored_view \<Rightarrow> anchored_view option" where
  "cancelUploadAnchor M target view = dispatch M (effects_only (removeUploadAnchor target)) view"

definition getUploadAnchorPosition :: "anchored_view \<Rightarrow> jsstring \<Rightarrow> nat option" where
  "getUploadAnchorPosition view target = findAnchorPosition (av_anchors view) target"

section \<open>The controller\<close>

definition isEmptyDoc :: "anchored_view \<Rightarrow> bool" where "isEmptyDoc view \<longleftrightarrow> trim (av_doc view) = []"

definition blockPad :: "jsstring \<Rightarrow> jsstring \<Rightarrow> jsstring \<times> jsstring" where
  "blockPad before after =
     (if length before = 0 \<or> ends_with before [0x0a, 0x0a] then []
      else if ends_with before [0x0a] then [0x0a] else [0x0a, 0x0a],
      if length after = 0 \<or> starts_with after [0x0a, 0x0a] then []
      else if starts_with after [0x0a] then [0x0a] else [0x0a, 0x0a])"

definition padded :: "jsstring \<Rightarrow> jsstring \<Rightarrow> nat \<Rightarrow> jsstring" where
  "padded markdown doc position =
     (case blockPad (take position doc) (drop position doc) of (before, after) \<Rightarrow> before @ markdown @ after)"

definition caret_insert :: "nat \<Rightarrow> jsstring \<Rightarrow> anchor_effect list \<Rightarrow> view_transaction" where
  "caret_insert position content effects =
     \<lparr>vt_changes = [\<lparr>lc_from = position, lc_to = position, lc_insert = content\<rparr>], vt_effects = effects,
      vt_selection = Some (position + length content, position + length content)\<rparr>"

definition getMarkdown :: "anchored_view \<Rightarrow> jsstring" where "getMarkdown view = av_doc view"

definition setMarkdown :: "position_mapping \<Rightarrow> jsstring \<Rightarrow> anchored_view \<Rightarrow> anchored_view option" where
  "setMarkdown M markdown view =
     dispatch M \<lparr>vt_changes = [\<lparr>lc_from = 0, lc_to = length (av_doc view), lc_insert = markdown\<rparr>], vt_effects = [],
       vt_selection = None\<rparr> view"

definition insertMarkdown :: "position_mapping \<Rightarrow> jsstring \<Rightarrow> anchored_view \<Rightarrow> anchored_view option" where
  "insertMarkdown M markdown view =
     (if markdown = [] then Some view
      else
        let head = snd (av_selection view)
        in dispatch M (caret_insert head (padded markdown (av_doc view) head) []) view)"

definition insertInlineMarkdown :: "position_mapping \<Rightarrow> jsstring \<Rightarrow> anchored_view \<Rightarrow> anchored_view option" where
  "insertInlineMarkdown M markdown view =
     (if markdown = [] then Some view else dispatch M (caret_insert (snd (av_selection view)) markdown []) view)"

definition resolveUploadAnchor :: "position_mapping \<Rightarrow> jsstring \<Rightarrow> jsstring \<Rightarrow> anchored_view \<Rightarrow> anchored_view option" where
  "resolveUploadAnchor M target markdown view =
     (case getUploadAnchorPosition view target of
        None \<Rightarrow> Some view
      | Some position \<Rightarrow>
          if markdown = [] then cancelUploadAnchor M target view
          else dispatch M (caret_insert position (padded markdown (av_doc view) position) [removeUploadAnchor target]) view)"

definition getCursor :: "anchored_view \<Rightarrow> nat" where "getCursor view = snd (av_selection view)"

definition setCursor :: "position_mapping \<Rightarrow> int \<Rightarrow> anchored_view \<Rightarrow> anchored_view option" where
  "setCursor M position view =
     (let cursor = nat (min (max position 0) (int (length (av_doc view))))
      in dispatch M \<lparr>vt_changes = [], vt_effects = [], vt_selection = Some (cursor, cursor)\<rparr> view)"

definition selectAll :: "position_mapping \<Rightarrow> anchored_view \<Rightarrow> anchored_view option" where
  "selectAll M view =
     dispatch M \<lparr>vt_changes = [], vt_effects = [], vt_selection = Some (0, length (av_doc view))\<rparr> view"

section \<open>The anchors are a map\<close>

definition distinct_ids :: "anchor_set \<Rightarrow> bool" where
  "distinct_ids anchors \<longleftrightarrow> distinct (map (ud_id \<circ> snd) anchors)"

text \<open>What a set of anchors stands for: a job has a position and a descriptor.\<close>

definition keyed :: "nat \<times> UploadAnchorDescriptor \<Rightarrow> jsstring \<times> nat \<times> UploadAnchorDescriptor" where
  "keyed a = (ud_id (snd a), a)"

definition shown :: "anchor_set \<Rightarrow> jsstring \<rightharpoonup> nat \<times> UploadAnchorDescriptor" where
  "shown anchors = map_of (map keyed anchors)"

lemma keyed_ids [simp]: "map fst (map keyed A) = map (ud_id \<circ> snd) A" by (simp add: keyed_def comp_def)

lemma find_fold:
  "distinct_ids A \<Longrightarrow>
   foldl (\<lambda>position (p, d). if ud_id d = t then Some p else position) acc A = (case shown A t of None \<Rightarrow> acc | Some (p, _) \<Rightarrow> Some p)"
proof (induction A arbitrary: acc)
  case (Cons a A)
  obtain p d where a: "a = (p, d)" by (cases a)
  have d: "distinct_ids A" "ud_id d \<notin> set (map (ud_id \<circ> snd) A)" using Cons.prems by (simp_all add: distinct_ids_def a)
  have "shown A (ud_id d) = None" using d(2) unfolding shown_def by (simp add: map_of_eq_None_iff keyed_def image_comp comp_def)
  then show ?case using Cons.IH [OF d(1)] by (auto simp: shown_def a keyed_def split: option.split)
qed (simp add: shown_def)

lemma find_shown: "distinct_ids A \<Longrightarrow> findAnchorPosition A t = map_option fst (shown A t)"
  unfolding findAnchorPosition_def by (subst find_fold) (auto split: option.split)

lemma shown_same_set: "distinct_ids A \<Longrightarrow> distinct_ids B \<Longrightarrow> set A = set B \<Longrightarrow> shown A = shown B"
  unfolding shown_def distinct_ids_def by (subst map_of_inject_set) (simp_all flip: keyed_ids)

lemma distinct_ids_insert: "distinct_ids (insort_key fst a A) \<longleftrightarrow> distinct_ids (a # A)"
proof -
  have "mset (map (ud_id \<circ> snd) (insort_key fst a A)) = mset (map (ud_id \<circ> snd) (a # A))" by simp
  then show ?thesis unfolding distinct_ids_def by (metis distinct_count_atmost_1 mset_eq_setD)
qed

lemma shown_insert:
  assumes "distinct_ids A" "shown A (ud_id d) = None"
  shows "distinct_ids (insort_key fst (p, d) A)" "shown (insort_key fst (p, d) A) = (shown A)(ud_id d \<mapsto> (p, d))"
proof -
  have "ud_id d \<notin> set (map (ud_id \<circ> snd) A)"
    using assms(2) unfolding shown_def by (simp add: map_of_eq_None_iff keyed_def image_comp comp_def)
  then have c: "distinct_ids ((p, d) # A)" using assms(1) by (simp add: distinct_ids_def)
  then show i: "distinct_ids (insort_key fst (p, d) A)" by (simp add: distinct_ids_insert)
  have "shown (insort_key fst (p, d) A) = shown ((p, d) # A)" by (rule shown_same_set [OF i c]) (simp add: set_insort_key)
  then show "shown (insort_key fst (p, d) A) = (shown A)(ud_id d \<mapsto> (p, d))" by (simp add: shown_def keyed_def)
qed

lemma shown_without: "shown (without_anchor t A) = (shown A)(t := None)"
  by (induction A) (auto simp: shown_def without_anchor_def keyed_def)

lemma distinct_without: "distinct_ids A \<Longrightarrow> distinct_ids (without_anchor t A)"
  unfolding distinct_ids_def without_anchor_def by (rule distinct_map_filter_other)

lemma map_anchors_simps [simp]:
  "map_anchors f [] = []"
  "map_anchors f ((p, d) # A) = (case f p of Some q \<Rightarrow> (q, d) # map_anchors f A | None \<Rightarrow> map_anchors f A)"
  by (simp_all add: map_anchors_def split: option.split)

lemma map_anchors_ids: "ud_id ` snd ` set (map_anchors f A) \<subseteq> ud_id ` snd ` set A"
proof -
  have "\<exists>b \<in> set A. snd b = snd a" if "a \<in> set (map_anchors f A)" for a
    using that by (induction A) (auto split: option.splits)
  then have "x \<in> snd ` set A" if "x \<in> snd ` set (map_anchors f A)" for x using that by fastforce
  then show ?thesis by blast
qed

lemma shown_map_anchors:
  assumes "distinct_ids A"
  shows "distinct_ids (map_anchors f A)"
    "shown (map_anchors f A) t = (case shown A t of None \<Rightarrow> None | Some (p, d) \<Rightarrow> map_option (\<lambda>q. (q, d)) (f p))"
proof -
  show "distinct_ids (map_anchors f A)"
    using assms
  proof (induction A)
    case (Cons a A)
    obtain p d where a: "a = (p, d)" by (cases a)
    have "ud_id d \<notin> ud_id ` snd ` set (map_anchors f A)"
      using Cons.prems map_anchors_ids [of f A] by (auto simp: distinct_ids_def a image_comp)
    then show ?case using Cons by (simp add: a distinct_ids_def image_comp split: option.split)
  qed (simp add: distinct_ids_def)
  show "shown (map_anchors f A) t = (case shown A t of None \<Rightarrow> None | Some (p, d) \<Rightarrow> map_option (\<lambda>q. (q, d)) (f p))"
    using assms
  proof (induction A)
    case (Cons a A)
    obtain p d where a: "a = (p, d)" by (cases a)
    have d: "distinct_ids A" "ud_id d \<notin> ud_id ` snd ` set A" using Cons.prems by (auto simp: distinct_ids_def a image_comp)
    have "ud_id d \<notin> ud_id ` snd ` set (map_anchors f A)" using d(2) map_anchors_ids by blast
    then have "shown (map_anchors f A) (ud_id d) = None"
      unfolding shown_def by (simp add: map_of_eq_None_iff keyed_def image_comp comp_def)
    then show ?case using Cons.IH [OF d(1)]
      by (cases "f p"; cases "t = ud_id d") (simp_all add: a shown_def keyed_def)
  qed (simp add: shown_def)
qed

text \<open>
  The anchors are a map. A set of anchors with one for each job behaves as a map from jobs to a position and a
  descriptor: adding an anchor puts it at the given position, held inside the text; an update keeps the position and
  draws nothing for a job without an anchor; a removal takes that anchor only; a change of the text moves each anchor by the
  mapping of positions and drops those whose position goes; and two descriptors are drawn the same only when they are equal.
\<close>

lemma anchors_are_a_map:
  assumes "distinct_ids A"
  shows "findAnchorPosition A t = map_option fst (shown A t) \<and>
    (shown A (ud_id d) = None \<longrightarrow>
       distinct_ids (apply_effect n A (addUploadAnchor p d)) \<and>
       shown (apply_effect n A (addUploadAnchor p d)) = (shown A)(ud_id d \<mapsto> (if p < 0 then 0 else min (nat p) n, d))) \<and>
    distinct_ids (apply_effect n A (updateUploadAnchor d)) \<and>
    shown (apply_effect n A (updateUploadAnchor d)) =
      (case shown A (ud_id d) of None \<Rightarrow> shown A | Some (q, _) \<Rightarrow> (shown A)(ud_id d \<mapsto> (q, d))) \<and>
    distinct_ids (apply_effect n A (removeUploadAnchor t)) \<and>
    shown (apply_effect n A (removeUploadAnchor t)) = (shown A)(t := None) \<and>
    distinct_ids (map_anchors f A) \<and>
    shown (map_anchors f A) t = (case shown A t of None \<Rightarrow> None | Some (q, e) \<Rightarrow> map_option (\<lambda>r. (r, e)) (f q)) \<and>
    (widget_eq d d' \<longleftrightarrow> d = d')"
proof -
  have update: "distinct_ids (apply_effect n A (updateUploadAnchor d)) \<and> shown (apply_effect n A (updateUploadAnchor d)) =
      (case shown A (ud_id d) of None \<Rightarrow> shown A | Some (q, _) \<Rightarrow> (shown A)(ud_id d \<mapsto> (q, d)))"
    using assms shown_insert [OF distinct_without [OF assms, of "ud_id d"], of d]
    by (auto simp: apply_effect_def find_shown shown_without split: option.split)
  have add: "nat (min (max p 0) (int n)) = (if p < 0 then 0 else min (nat p) n)" by (auto simp: min_def max_def)
  have widget: "widget_eq d d' \<longleftrightarrow> d = d'" by (auto simp: widget_eq_def intro: UploadAnchorDescriptor.equality)
  show ?thesis
    using assms update add widget shown_insert [OF assms] shown_map_anchors [OF assms] find_shown [OF assms]
    by (simp add: apply_effect_def shown_without distinct_without)
qed

section \<open>An anchor keeps its place\<close>

text \<open>
  What CodeMirror promises of a block widget of side 1: without changes it stays; one change after it leaves it where it
  is, one change that ends at it or before moves it by the difference in length.
\<close>

definition mapping_ok :: "position_mapping \<Rightarrow> bool" where
  "mapping_ok M \<longleftrightarrow> (\<forall>doc q. map_point M doc [] q = Some q) \<and>
     (\<forall>doc c q. lc_from c \<le> lc_to c \<and> lc_to c \<le> length doc \<longrightarrow>
        (q < lc_from c \<longrightarrow> map_point M doc [c] q = Some q) \<and>
        (lc_to c \<le> q \<longrightarrow> map_point M doc [c] q = Some (lc_from c + length (lc_insert c) + (q - lc_to c))))"

text \<open>
  A transaction that changes the text on one side of an anchor, as the pair of the text before the anchor and the text
  after it; \<open>None\<close> for one that changes both.
\<close>

fun edit_parts :: "line_change list \<Rightarrow> jsstring \<times> jsstring \<Rightarrow> (jsstring \<times> jsstring) option" where
  "edit_parts [] (u, v) = Some (u, v)"
| "edit_parts [c] (u, v) =
     (let i = lc_from c; j = lc_to c; n = length u; content = plain_newlines (lc_insert c) in
      if i \<le> j \<and> j \<le> n then Some (take i u @ content @ drop j u, v)
      else if n < i \<and> i \<le> j \<and> j \<le> n + length v then Some (u, take (i - n) v @ content @ drop (j - n) v)
      else None)"
| "edit_parts _ _ = None"

fun keeps_anchor :: "jsstring \<Rightarrow> anchor_effect \<Rightarrow> bool" where
  "keeps_anchor t (addUploadAnchor _ d) = (ud_id d \<noteq> t)"
| "keeps_anchor t (updateUploadAnchor _) = True"
| "keeps_anchor t (removeUploadAnchor other) = (other \<noteq> t)"

text \<open>The transactions from the start of an upload to its end, and what they make of the two parts.\<close>

fun dispatched :: "position_mapping \<Rightarrow> view_transaction list \<Rightarrow> anchored_view \<Rightarrow> anchored_view option" where
  "dispatched M [] view = Some view"
| "dispatched M (t # ts) view = Option.bind (dispatch M t view) (dispatched M ts)"

fun parts_after :: "view_transaction list \<Rightarrow> jsstring \<times> jsstring \<Rightarrow> (jsstring \<times> jsstring) option" where
  "parts_after [] parts = Some parts"
| "parts_after (t # ts) parts = Option.bind (edit_parts (vt_changes t) parts) (parts_after ts)"

definition anchored :: "jsstring \<Rightarrow> nat \<Rightarrow> anchor_set \<Rightarrow> bool" where
  "anchored t p A \<longleftrightarrow> (\<exists>d. (p, d) \<in> set A \<and> ud_id d = t) \<and> (\<forall>(q, d) \<in> set A. ud_id d = t \<longrightarrow> q = p)"

lemma anchored_find: "anchored t p A \<Longrightarrow> findAnchorPosition A t = Some p"
proof -
  assume a: "anchored t p A"
  have "foldl (\<lambda>position (p, d). if ud_id d = t then Some p else position) acc B =
      (if \<exists>d \<in> set B. ud_id (snd d) = t then Some p else acc)" if "\<forall>(q, d) \<in> set B. ud_id d = t \<longrightarrow> q = p" for B acc
    using that by (induction B arbitrary: acc) auto
  from this [of A None] a show ?thesis by (force simp: findAnchorPosition_def anchored_def)
qed

lemma anchored_distinct: "distinct_ids A \<Longrightarrow> findAnchorPosition A t = Some p \<Longrightarrow> anchored t p A"
proof -
  assume d: "distinct_ids A" and f: "findAnchorPosition A t = Some p"
  have dm: "distinct (map fst (map keyed A))" using d by (simp add: distinct_ids_def keyed_def comp_def)
  obtain e where e: "shown A t = Some (p, e)" using f find_shown [OF d] by (auto simp: map_option_case split: option.splits)
  have "(t, p, e) \<in> set (map keyed A)" using e unfolding shown_def by (rule map_of_SomeD)
  then have m: "(p, e) \<in> set A" "ud_id e = t" by (auto simp: keyed_def)
  have only: "q = p" if "(q, d') \<in> set A" "ud_id d' = t" for q d'
  proof -
    have "(t, q, d') \<in> set (map keyed A)" using that by (force simp: keyed_def)
    then have "shown A t = Some (q, d')" unfolding shown_def using dm by (simp add: map_of_is_SomeI del: keyed_ids map_map)
    with e show ?thesis by simp
  qed
  show ?thesis unfolding anchored_def using m by (intro conjI) (blast, auto dest: only)
qed

lemma anchored_effect: "anchored t p A \<Longrightarrow> keeps_anchor t e \<Longrightarrow> anchored t p (apply_effect n A e)"
proof (cases e)
  case (updateUploadAnchor d)
  assume a: "anchored t p A"
  show ?thesis
  proof (cases "ud_id d = t")
    case True
    then show ?thesis using anchored_find [OF a]
      by (auto simp: updateUploadAnchor apply_effect_def anchored_def set_insort_key without_anchor_def)
  next
    case False
    then show ?thesis using a
      by (auto simp: updateUploadAnchor apply_effect_def anchored_def set_insort_key without_anchor_def split: option.split)
  qed
qed (auto simp: apply_effect_def anchored_def set_insort_key without_anchor_def)

lemma anchored_effects: "anchored t p A \<Longrightarrow> \<forall>e \<in> set es. keeps_anchor t e \<Longrightarrow> anchored t p (foldl (apply_effect n) A es)"
  by (induction es arbitrary: A) (simp_all add: anchored_effect)

lemma anchored_map: "anchored t p A \<Longrightarrow> f p = Some q \<Longrightarrow> anchored t q (map_anchors f A)"
proof -
  assume a: "anchored t p A" and f: "f p = Some q"
  have "x \<in> set (map_anchors f A) \<longleftrightarrow> (\<exists>y \<in> set A. f (fst y) = Some (fst x) \<and> snd y = snd x)" for x
    by (induction A) (auto split: option.splits)
  then show ?thesis using a f by (fastforce simp: anchored_def)
qed

lemma apply_one_change: "apply_changes t [c] = take (lc_from c) t @ lc_insert c @ drop (lc_to c) t"
  by (simp add: apply_changes_def Prelude.slice_def)

lemma edit_moves:
  assumes "mapping_ok M" "edit_parts cs (u, v) = Some (u', v')"
  shows "apply_changes (u @ v) (map written cs) = u' @ v'" "map_point M (u @ v) (map written cs) (length u) = Some (length u')"
proof -
  consider (none) "cs = []" "u' = u" "v' = v" | (before) c where "cs = [c]" "lc_from c \<le> lc_to c" "lc_to c \<le> length u"
      "u' = take (lc_from c) u @ plain_newlines (lc_insert c) @ drop (lc_to c) u" "v' = v"
    | (after) c where "cs = [c]" "lc_from c \<le> lc_to c" "length u < lc_from c" "lc_to c \<le> length u + length v" "u' = u"
      "v' = take (lc_from c - length u) v @ plain_newlines (lc_insert c) @ drop (lc_to c - length u) v"
    using assms(2) by (cases "(cs, u, v)" rule: edit_parts.cases) (auto simp: Let_def split: if_splits)
  then have "apply_changes (u @ v) (map written cs) = u' @ v' \<and> map_point M (u @ v) (map written cs) (length u) = Some (length u')"
  proof cases
    case none
    then show ?thesis using assms(1) by (simp add: apply_changes_def mapping_ok_def)
  next
    case before
    moreover have "map_point M (u @ v) [written c] (length u) =
        Some (lc_from c + length (plain_newlines (lc_insert c)) + (length u - lc_to c))"
      using assms(1) before(2,3) by (simp add: mapping_ok_def written_def)
    ultimately show ?thesis by (simp add: apply_one_change written_def)
  next
    case after
    moreover have "map_point M (u @ v) [written c] (length u) = Some (length u)"
      using assms(1) after(2-4) by (simp add: mapping_ok_def written_def)
    ultimately show ?thesis by (simp add: apply_one_change written_def)
  qed
  then show "apply_changes (u @ v) (map written cs) = u' @ v'" "map_point M (u @ v) (map written cs) (length u) = Some (length u')"
    by blast+
qed

lemma dispatch_moves:
  assumes "mapping_ok M" "dispatch M t view = Some view'" "av_doc view = u @ v" "anchored a (length u) (av_anchors view)"
    "edit_parts (vt_changes t) (u, v) = Some (u', v')" "\<forall>e \<in> set (vt_effects t). keeps_anchor a e"
  shows "av_doc view' = u' @ v'" "anchored a (length u') (av_anchors view')"
proof -
  note m = edit_moves [OF assms(1,5)]
  have v': "av_doc view' = apply_changes (av_doc view) (map written (vt_changes t))"
      "av_anchors view' = uploadAnchorField M (av_doc view) (map written (vt_changes t)) (vt_effects t) (av_anchors view)"
    using assms(2) by (auto simp: dispatch_def Let_def split: if_splits)
  show "av_doc view' = u' @ v'" using v'(1) m(1) assms(3) by simp
  show "anchored a (length u') (av_anchors view')"
    unfolding v'(2) uploadAnchorField_def assms(3) using assms(4,6) m(2) by (intro anchored_effects anchored_map)
qed

lemma dispatched_moves:
  assumes "mapping_ok M" "dispatched M ts view = Some view'" "av_doc view = u @ v" "anchored a (length u) (av_anchors view)"
    "parts_after ts (u, v) = Some (u', v')" "\<forall>t \<in> set ts. \<forall>e \<in> set (vt_effects t). keeps_anchor a e"
  shows "av_doc view' = u' @ v' \<and> anchored a (length u') (av_anchors view')"
  using assms(2-6)
proof (induction ts arbitrary: view u v)
  case (Cons t ts)
  obtain view1 where d: "dispatch M t view = Some view1" "dispatched M ts view1 = Some view'"
    using Cons.prems(1) by (auto simp: bind_eq_Some_conv)
  obtain u1 v1 where p: "edit_parts (vt_changes t) (u, v) = Some (u1, v1)" "parts_after ts (u1, v1) = Some (u', v')"
    using Cons.prems(4) by (auto simp: bind_eq_Some_conv)
  have k: "\<forall>e \<in> set (vt_effects t). keeps_anchor a e" "\<forall>t \<in> set ts. \<forall>e \<in> set (vt_effects t). keeps_anchor a e"
    using Cons.prems(5) by simp_all
  note m = dispatch_moves [OF assms(1) d(1) Cons.prems(2,3) p(1) k(1)]
  show ?case by (rule Cons.IH [OF d(2) m p(2) k(2)])
qed simp

lemma plain_newlines_id: "0x0d \<notin> set s \<Longrightarrow> plain_newlines s = s"
  by (induction s rule: plain_newlines.induct) auto

text \<open>A blank line, or the edge of the text, on both sides of a block.\<close>

definition stands_alone :: "jsstring \<Rightarrow> jsstring \<Rightarrow> bool" where
  "stands_alone before after \<longleftrightarrow>
     (before = [] \<or> ends_with before [0x0a, 0x0a]) \<and> (after = [] \<or> starts_with after [0x0a, 0x0a])"

lemma blockPad_alone:
  assumes "blockPad u v = (b, a)"
  shows "stands_alone (u @ b) (a @ v)" "0x0d \<notin> set b" "0x0d \<notin> set a" "b @ a = replicate (length (b @ a)) 0x0a"
proof -
  have u: "u = [] \<or> ends_with (u @ b) [0x0a, 0x0a]" and b: "b \<in> {[], [0x0a], [0x0a, 0x0a]}" "u = [] \<Longrightarrow> b = []"
    using assms by (auto simp: blockPad_def ends_with_def Suc_diff_le split: if_splits)
  have v: "v = [] \<or> starts_with (a @ v) [0x0a, 0x0a]" and a: "a \<in> {[], [0x0a], [0x0a, 0x0a]}" "v = [] \<Longrightarrow> a = []"
    using assms by (auto simp: blockPad_def starts_with_def take_Suc_conv_app_nth split: if_splits)
  show "stands_alone (u @ b) (a @ v)" using u v a b by (auto simp: stands_alone_def)
  show "0x0d \<notin> set b" "0x0d \<notin> set a" "b @ a = replicate (length (b @ a)) 0x0a" using a(1) b(1) by auto
qed

lemma resolve_in_place:
  assumes "mapping_ok M" "av_doc view = u @ v" "anchored t (length u) (av_anchors view)" "markdown \<noteq> []" "0x0d \<notin> set markdown"
  shows "\<exists>before after view'. resolveUploadAnchor M t markdown view = Some view' \<and>
    av_doc view' = (u @ before) @ markdown @ (after @ v) \<and> stands_alone (u @ before) (after @ v) \<and>
    set (before @ after) \<subseteq> {0x0a} \<and> getUploadAnchorPosition view' t = None \<and>
    getCursor view' = length (u @ before @ markdown @ after)"
proof -
  obtain b a where p: "blockPad u v = (b, a)" by (cases "blockPad u v")
  note alone = blockPad_alone [OF p]
  let ?t = "caret_insert (length u) (b @ markdown @ a) [removeUploadAnchor t]"
  have found: "getUploadAnchorPosition view t = Some (length u)"
    using anchored_find [OF assms(3)] by (simp add: getUploadAnchorPosition_def)
  have plain: "plain_newlines (b @ markdown @ a) = b @ markdown @ a"
    using alone(2,3) assms(5) by (intro plain_newlines_id) simp
  have doc: "apply_changes (u @ v) (map written (vt_changes ?t)) = u @ b @ markdown @ a @ v"
    by (simp add: caret_insert_def written_def apply_one_change plain)
  define view' where "view' = \<lparr>av_doc = u @ b @ markdown @ a @ v,
    av_selection = (length u + length (b @ markdown @ a), length u + length (b @ markdown @ a)),
    av_anchors = uploadAnchorField M (u @ v) (map written (vt_changes ?t)) [removeUploadAnchor t] (av_anchors view)\<rparr>"
  have "dispatch M ?t view = Some view'"
    unfolding dispatch_def Let_def assms(2) doc by (simp add: caret_insert_def view'_def)
  then have r: "resolveUploadAnchor M t markdown view = Some view'"
    using assms(2,4) by (simp add: resolveUploadAnchor_def found padded_def p)
  have gone: "foldl f None (without_anchor t A) = None" if "f = (\<lambda>position (p, d). if ud_id d = t then Some p else position)" for f A
    unfolding that without_anchor_def by (induction A) auto
  have "findAnchorPosition (av_anchors view') t = None"
    by (simp add: view'_def uploadAnchorField_def apply_effect_def findAnchorPosition_def gone)
  moreover have "set (b @ a) \<subseteq> {0x0a}" using alone(4) by (metis set_replicate_conv_if empty_subsetI subset_refl)
  ultimately show ?thesis using r alone(1)
    by (intro exI [of _ b] exI [of _ a] exI [of _ view']) (simp add: view'_def getUploadAnchorPosition_def getCursor_def)
qed

text \<open>
  C33. An upload lands in its place. While an upload runs, the user edits the text, each time on one side of its anchor, and
  other anchors come, change and go. The anchor stays between the text that was before it and the text that was after it,
  and the reference is written there as a block of its own: nothing but line feeds is added around it, and blank lines or the
  edges of the text surround it. Its anchor is gone then, and the cursor stands behind the block.
\<close>

theorem upload_lands_in_its_place:
  assumes "mapping_ok M" "distinct_ids (av_anchors view)" "getUploadAnchorPosition view t = Some (length u)" "av_doc view = u @ v"
    and "dispatched M ts view = Some view1" "parts_after ts (u, v) = Some (u', v')"
    and "\<forall>tr \<in> set ts. \<forall>e \<in> set (vt_effects tr). keeps_anchor t e" "markdown \<noteq> []" "0x0d \<notin> set markdown"
  shows "av_doc view1 = u' @ v' \<and> getUploadAnchorPosition view1 t = Some (length u') \<and>
    (\<exists>before after view2. resolveUploadAnchor M t markdown view1 = Some view2 \<and>
       av_doc view2 = (u' @ before) @ markdown @ (after @ v') \<and> stands_alone (u' @ before) (after @ v') \<and>
       set (before @ after) \<subseteq> {0x0a} \<and> getUploadAnchorPosition view2 t = None \<and>
       getCursor view2 = length (u' @ before @ markdown @ after))"
proof -
  have a: "anchored t (length u) (av_anchors view)"
    using assms(2,3) by (simp add: getUploadAnchorPosition_def anchored_distinct)
  have d: "av_doc view1 = u' @ v' \<and> anchored t (length u') (av_anchors view1)"
    by (rule dispatched_moves [OF assms(1,5,4) a assms(6,7)])
  then have "getUploadAnchorPosition view1 t = Some (length u')"
    using anchored_find by (simp add: getUploadAnchorPosition_def)
  with d show ?thesis using resolve_in_place [OF assms(1) _ _ assms(8,9), of view1 u' v' t] by simp
qed

section \<open>An example\<close>

definition plain_mapping :: position_mapping where
  "plain_mapping =
     \<lparr>map_point = (\<lambda>doc cs q.
        (case cs of
           [] \<Rightarrow> Some q
         | [c] \<Rightarrow> if q < lc_from c then Some q
             else if lc_to c \<le> q then Some (lc_from c + length (lc_insert c) + (q - lc_to c)) else None
         | _ \<Rightarrow> None)),
      map_selection = (\<lambda>doc cs s. (0, 0))\<rparr>"

lemma plain_mapping_ok: "mapping_ok plain_mapping"
  by (simp add: mapping_ok_def plain_mapping_def)

definition sample_descriptor :: "string \<Rightarrow> UploadAnchorDescriptor" where
  "sample_descriptor t = \<lparr>ud_id = js t, ud_status = status_uploading, ud_completed = 0, ud_total = 1, ud_message = js ''Uploading'',
     ud_retryLabel = js ''Retry'', ud_keepLabel = js ''Cancel'', ud_onRetry = None, ud_onKeepAttachments = None\<rparr>"

definition waiting_view :: anchored_view where
  "waiting_view = \<lparr>av_doc = js ''alpha'', av_selection = (0, 0), av_anchors = [(5, sample_descriptor ''one'')]\<rparr>"

definition typed_x :: view_transaction where
  "typed_x = \<lparr>vt_changes = [\<lparr>lc_from = 0, lc_to = 0, lc_insert = js ''X''\<rparr>],
     vt_effects = [updateUploadAnchor (sample_descriptor ''one'')], vt_selection = None\<rparr>"

lemma upload_lands_in_its_place_witness:
  "\<exists>view1 before after view2. dispatched plain_mapping [typed_x] waiting_view = Some view1 \<and>
     resolveUploadAnchor plain_mapping (js ''one'') (js ''![photo](/p)'') view1 = Some view2 \<and>
     av_doc view2 = (js ''Xalpha'' @ before) @ js ''![photo](/p)'' @ after \<and> stands_alone (js ''Xalpha'' @ before) after"
proof -
  have ids: "distinct_ids (av_anchors waiting_view)"
    and found: "getUploadAnchorPosition waiting_view (js ''one'') = Some (length (js ''alpha''))"
    and doc: "av_doc waiting_view = js ''alpha'' @ []"
    by (simp_all add: waiting_view_def distinct_ids_def getUploadAnchorPosition_def findAnchorPosition_def sample_descriptor_def)
  obtain view1 where d: "dispatched plain_mapping [typed_x] waiting_view = Some view1"
    by (simp add: dispatch_def typed_x_def waiting_view_def plain_mapping_def Let_def)
  have parts: "parts_after [typed_x] (js ''alpha'', []) = Some (js ''Xalpha'', [])"
    by (simp add: typed_x_def js_str)
  have k: "\<forall>tr \<in> set [typed_x]. \<forall>e \<in> set (vt_effects tr). keeps_anchor (js ''one'') e"
    by (simp add: typed_x_def)
  have m: "js ''![photo](/p)'' \<noteq> []" "0x0d \<notin> set (js ''![photo](/p)'')" by (simp_all add: js_str)
  show ?thesis
    using upload_lands_in_its_place [OF plain_mapping_ok ids found doc d parts k m] d by simp blast
qed

end
