(* ===== verification/InlineUpload.thy ===== *)
theory InlineUpload
  imports InlineFiles UploadAnchors ManagedAttachment
begin

text \<open>
  Uploads that write references into the text (\<^verbatim>\<open>components/MemoEditor/hooks/useInlineImageUpload.ts\<close>), together with the
  save of the memo (\<^verbatim>\<open>components/MemoEditor/hooks/useMemoSave.ts\<close>) and the store both work on
  (\<^verbatim>\<open>components/MemoEditor/state/context.tsx\<close>). Everything between two awaits is one step; what an upload or a save comes
  back with is the argument of the step that resumes it.
\<close>

section \<open>Jobs\<close>

datatype upload_kind = kind_image | kind_video

record UploadEntry =
  ue_localFile :: LocalFile
  ue_attachment :: "Attachment option"

record UploadJob =
  uj_id :: jsstring
  uj_kind :: upload_kind
  uj_entries :: "UploadEntry list"
  uj_representativeIndexes :: "nat list"
  uj_active :: bool

text \<open>The identifier is a fresh one.\<close>

definition createJob :: "jsstring \<Rightarrow> LocalFile list \<Rightarrow> upload_kind \<Rightarrow> UploadJob option" where
  "createJob uuid localFiles kind =
     (let videos = filter video_file localFiles;
          (inline, representativeIndexes) =
            (if kind = kind_image
             then (sp_inline (splitInlineLocalFiles localFiles), sp_representativeIndexes (splitInlineLocalFiles localFiles))
             else (videos, [0..<length videos]))
      in if inline = [] then None
         else Some \<lparr>uj_id = uuid, uj_kind = kind,
           uj_entries = map (\<lambda>f. \<lparr>ue_localFile = f, ue_attachment = None\<rparr>) inline,
           uj_representativeIndexes = representativeIndexes, uj_active = False\<rparr>)"

text \<open>The position of the next file to upload, from one on.\<close>

definition next_entry :: "nat \<Rightarrow> UploadJob \<Rightarrow> nat option" where
  "next_entry i job = find (\<lambda>k. ue_attachment (uj_entries job ! k) = None) [i..<length (uj_entries job)]"

definition all_uploaded :: "UploadJob \<Rightarrow> bool" where
  "all_uploaded job \<longleftrightarrow> (\<forall>e \<in> set (uj_entries job). ue_attachment e \<noteq> None)"

definition set_entry :: "nat \<Rightarrow> Attachment \<Rightarrow> UploadJob \<Rightarrow> UploadJob" where
  "set_entry i a job = job\<lparr>uj_entries := (uj_entries job)[i := (uj_entries job ! i)\<lparr>ue_attachment := Some a\<rparr>]\<rparr>"

text \<open>The reference of an attachment; \<open>None\<close> is the error for a name that is none.\<close>

definition media_reference :: "Attachment \<Rightarrow> jsstring option" where
  "media_reference a =
     (if getAttachmentType a = js ''video/*'' then buildManagedVideoMarkdown a else buildManagedAttachmentMarkdown a)"

fun all_some :: "'a option list \<Rightarrow> 'a list option" where
  "all_some [] = Some []"
| "all_some (x # xs) = (case x of None \<Rightarrow> None | Some a \<Rightarrow> map_option ((#) a) (all_some xs))"

definition media_markdown :: "Attachment list \<Rightarrow> jsstring option" where
  "media_markdown attachments = map_option (join_with [0x0a, 0x0a]) (all_some (map media_reference attachments))"

definition job_markdown :: "UploadJob \<Rightarrow> jsstring option" where
  "job_markdown job =
     media_markdown (map (\<lambda>i. the (ue_attachment (uj_entries job ! i))) (uj_representativeIndexes job))"

section \<open>State\<close>

text \<open>
  The jobs of the map by their identifiers in order; a job itself is shared with the run that uploads it, and outlives
  the map in it. \<open>up_waiting\<close> is the entry each suspended run waits for. \<open>up_saving\<close> is the state a save under way sends.
\<close>

record uploads =
  up_editor :: EditorState
  up_view :: "anchored_view option"
  up_jobs :: "jsstring list"
  up_job :: "jsstring \<Rightarrow> UploadJob option"
  up_waiting :: "jsstring \<Rightarrow> nat option"
  up_urls :: "jsstring list"
  up_disposed :: bool
  up_saving :: "EditorState option"

text \<open>The text of the buttons and the state of an upload, by the translations of the client.\<close>

record upload_env =
  un_mapping :: position_mapping
  un_message :: "upload_kind \<Rightarrow> UploadAnchorStatus \<Rightarrow> nat \<Rightarrow> nat \<Rightarrow> jsstring"
  un_retry :: "upload_kind \<Rightarrow> jsstring"
  un_keep :: jsstring
  un_cancel :: jsstring
  un_invalid :: "jsstring \<Rightarrow> jsstring list"

definition dispatch_action :: "EditorAction \<Rightarrow> uploads \<Rightarrow> uploads" where
  "dispatch_action a s = s\<lparr>up_editor := editorReducer (up_editor s) a\<rparr>"

definition live_jobs :: "uploads \<Rightarrow> UploadJob list" where
  "live_jobs s = map (\<lambda>i. the (up_job s i)) (up_jobs s)"

definition uploading_urls :: "UploadJob list \<Rightarrow> jsstring list" where
  "uploading_urls jobs =
     fold set_add (concat (map (\<lambda>job. if uj_active job
        then map (\<lambda>e. lf_previewUrl (ue_localFile e)) (filter (\<lambda>e. ue_attachment e = None) (uj_entries job)) else []) jobs)) []"

definition syncJobState :: "uploads \<Rightarrow> uploads" where
  "syncJobState s =
     (let jobs = live_jobs s; ui = es_ui (up_editor s);
          s = (if ui_pendingInlineImageInsertions ui \<noteq> int (length jobs)
               then dispatch_action (SET_PENDING_INLINE_IMAGE_INSERTIONS (int (length jobs))) s else s);
          isUploading = (\<exists>job \<in> set jobs. uj_active job);
          s = (if is_uploading (ui_isLoading ui) \<noteq> isUploading then dispatch_action (SET_LOADING key_uploading isUploading) s else s);
          urls = uploading_urls jobs
      in s\<lparr>up_urls := (if length (up_urls s) = length urls \<and> set urls \<subseteq> set (up_urls s) then up_urls s else urls)\<rparr>)"

definition metadata_attachments :: "Attachment list \<Rightarrow> metadata_patch" where
  "metadata_attachments as =
     \<lparr>mp_visibility = None, mp_attachments = Some as, mp_relations = None, mp_location = None, mp_category = None,
      mp_hidden = None, mp_anonymous = None, mp_adminScript = None, mp_poll = None, mp_pollImageLocalFileURL = None,
      mp_pollOptionImageLocalFileURLs = None, mp_draft = None, mp_publishTime = None\<rparr>"

definition appendAttachment :: "Attachment \<Rightarrow> jsstring \<Rightarrow> uploads \<Rightarrow> uploads" where
  "appendAttachment attachment localPreviewURL s =
     (let state = up_editor s;
          s = dispatch_action (SET_METADATA (metadata_attachments
            (dedupe_by att_name [] (md_attachments (es_metadata state) @ [attachment])))) s
      in if \<exists>f \<in> set (es_localFiles state). lf_previewUrl f = localPreviewURL
         then dispatch_action (REMOVE_LOCAL_FILE localPreviewURL) s else s)"

definition finishJob :: "jsstring \<Rightarrow> uploads \<Rightarrow> uploads" where
  "finishJob i s = syncJobState (s\<lparr>up_jobs := removeAll i (up_jobs s)\<rparr>)"

text \<open>
  A call of the editor controller and what follows it: without an editor the call does nothing; when it throws, what
  follows is left out.
\<close>

definition with_view :: "(anchored_view \<Rightarrow> anchored_view option) \<Rightarrow> uploads \<Rightarrow> (uploads \<Rightarrow> uploads) \<Rightarrow> uploads" where
  "with_view f s continue =
     (case up_view s of
        None \<Rightarrow> continue s
      | Some v \<Rightarrow> (case f v of None \<Rightarrow> s | Some v' \<Rightarrow> continue (s\<lparr>up_view := Some v'\<rparr>)))"

definition dismissJob :: "upload_env \<Rightarrow> jsstring \<Rightarrow> uploads \<Rightarrow> uploads" where
  "dismissJob env i s =
     (if i \<notin> set (up_jobs s) \<or> uj_active (the (up_job s i)) then s
      else with_view (cancelUploadAnchor (un_mapping env) i) s (finishJob i))"

definition descriptorFor :: "upload_env \<Rightarrow> UploadJob \<Rightarrow> UploadAnchorStatus \<Rightarrow> UploadAnchorDescriptor" where
  "descriptorFor env job status =
     (let completed = length (filter (\<lambda>e. ue_attachment e \<noteq> None) (uj_entries job)); total = length (uj_entries job) in
      \<lparr>ud_id = uj_id job, ud_status = status, ud_completed = completed, ud_total = total,
       ud_message = un_message env (uj_kind job) status completed total, ud_retryLabel = un_retry env (uj_kind job),
       ud_keepLabel = (if completed > 0 then un_keep env else un_cancel env),
       ud_onRetry = (if status = status_failed then Some (uj_id job) else None),
       ud_onKeepAttachments = (if status = status_failed then Some (uj_id job) else None)\<rparr>)"

definition show_status :: "upload_env \<Rightarrow> jsstring \<Rightarrow> UploadAnchorStatus \<Rightarrow> uploads \<Rightarrow> anchored_view \<Rightarrow> anchored_view option" where
  "show_status env i status s = setUploadAnchor (un_mapping env) (descriptorFor env (the (up_job s i)) status)"

definition update_job :: "jsstring \<Rightarrow> (UploadJob \<Rightarrow> UploadJob) \<Rightarrow> uploads \<Rightarrow> uploads" where
  "update_job i f s = s\<lparr>up_job := (up_job s)(i := map_option f (up_job s i))\<rparr>"

section \<open>Running a job\<close>

text \<open>After the loop over the entries.\<close>

definition end_run :: "upload_env \<Rightarrow> jsstring \<Rightarrow> uploads \<Rightarrow> uploads" where
  "end_run env i s =
     (let s = update_job i (\<lambda>job. job\<lparr>uj_active := False\<rparr>) (s\<lparr>up_waiting := (up_waiting s)(i := None)\<rparr>) in
      if up_disposed s then s
      else
        let s = syncJobState s; job = the (up_job s i) in
        if \<not> all_uploaded job then with_view (show_status env i status_failed s) s (\<lambda>s. s)
        else
          (case job_markdown job of
             None \<Rightarrow> s
           | Some markdown \<Rightarrow> with_view (resolveUploadAnchor (un_mapping env) i markdown) s (finishJob i)))"

text \<open>The loop goes on at an entry: it waits for the next file to upload, or ends.\<close>

definition continue_run :: "upload_env \<Rightarrow> jsstring \<Rightarrow> nat \<Rightarrow> uploads \<Rightarrow> uploads" where
  "continue_run env i k s =
     (case next_entry k (the (up_job s i)) of
        Some k' \<Rightarrow> s\<lparr>up_waiting := (up_waiting s)(i := Some k')\<rparr>
      | None \<Rightarrow> end_run env i s)"

definition runJob :: "upload_env \<Rightarrow> jsstring \<Rightarrow> uploads \<Rightarrow> uploads" where
  "runJob env i s =
     (if i \<notin> set (up_jobs s) \<or> uj_active (the (up_job s i)) \<or> up_disposed s then s
      else
        let s = syncJobState (update_job i (\<lambda>job. job\<lparr>uj_active := True\<rparr>) s)
        in with_view (show_status env i status_uploading s) s (continue_run env i 0))"

text \<open>
  The upload a run waits for comes back, with an error or the attachment. The loop catches what a call of the
  editor throws, too.
\<close>

definition upload_settles :: "upload_env \<Rightarrow> jsstring \<Rightarrow> Attachment option \<Rightarrow> uploads \<Rightarrow> uploads" where
  "upload_settles env i result s =
     (case up_waiting s i of
        None \<Rightarrow> s
      | Some k \<Rightarrow>
          (case result of
             None \<Rightarrow> continue_run env i (k + 1) s
           | Some a \<Rightarrow>
               let url = lf_previewUrl (ue_localFile (uj_entries (the (up_job s i)) ! k));
                   s = update_job i (set_entry k a) s
               in if up_disposed s then s\<lparr>up_waiting := (up_waiting s)(i := None)\<rparr>
                  else
                    let s = appendAttachment a url s;
                        s = (case up_view s of
                            None \<Rightarrow> s
                          | Some v \<Rightarrow> (case show_status env i status_uploading s v of None \<Rightarrow> s | Some v' \<Rightarrow> s\<lparr>up_view := Some v'\<rparr>))
                    in continue_run env i (k + 1) s))"

definition insertLocal :: "upload_env \<Rightarrow> upload_kind \<Rightarrow> jsstring \<Rightarrow> LocalFile list \<Rightarrow> int option \<Rightarrow> uploads \<Rightarrow> uploads" where
  "insertLocal env kind uuid localFiles position s =
     (if is_saving (ui_isLoading (es_ui (up_editor s))) then s
      else
        (case (up_view s, createJob uuid localFiles kind) of
           (Some _, Some job) \<Rightarrow>
             let s = syncJobState (s\<lparr>up_job := (up_job s)(uuid \<mapsto> job), up_jobs := set_add uuid (up_jobs s)\<rparr>)
             in with_view (createUploadAnchor (un_mapping env) (descriptorFor env job status_uploading) position) s (runJob env uuid)
         | _ \<Rightarrow> s))"

abbreviation insertLocalImages where "insertLocalImages env \<equiv> insertLocal env kind_image"
abbreviation insertLocalVideos where "insertLocalVideos env \<equiv> insertLocal env kind_video"

definition insertRemoteMedia :: "upload_env \<Rightarrow> Attachment list \<Rightarrow> uploads \<Rightarrow> uploads" where
  "insertRemoteMedia env attachments s =
     (if is_saving (ui_isLoading (es_ui (up_editor s))) then s
      else
        (case media_markdown (filter canInlineMediaAttachment attachments) of
           None \<Rightarrow> s
         | Some markdown \<Rightarrow> with_view (insertMarkdown (un_mapping env) markdown) s (\<lambda>s. s)))"

definition dispose :: "uploads \<Rightarrow> uploads" where
  "dispose s = s\<lparr>up_disposed := True, up_jobs := []\<rparr>"

section \<open>Saving\<close>

text \<open>\<^verbatim>\<open>defaultVisibility &&\<close> is false for the unspecified visibility, which is 0.\<close>

record composer_options =
  co_memoName :: "jsstring option"
  co_defaultVisibility :: "Visibility option"
  co_defaultCreateTime :: "date option"

datatype save_result = save_failed | save_unchanged | save_stored

definition click_save :: "upload_env \<Rightarrow> uploads \<Rightarrow> uploads" where
  "click_save env s =
     (case canSave (un_invalid env) (up_editor s) of
        Some reason \<Rightarrow> s
      | None \<Rightarrow> dispatch_action (SET_LOADING key_saving True) (s\<lparr>up_saving := Some (up_editor s)\<rparr>))"

definition metadata_visibility :: "Visibility \<Rightarrow> metadata_patch" where
  "metadata_visibility v = (metadata_attachments [])\<lparr>mp_attachments := None, mp_visibility := Some v\<rparr>"

text \<open>The state of the composer after its memo is stored.\<close>

definition after_reset :: "composer_options \<Rightarrow> uploads \<Rightarrow> uploads" where
  "after_reset opts s =
     (let s = dispatch_action RESET s;
          s = (case co_defaultVisibility opts of
              Some v \<Rightarrow> if or_undefined (co_memoName opts) = None \<and> v \<noteq> VISIBILITY_UNSPECIFIED
                then dispatch_action (SET_METADATA (metadata_visibility v)) s else s
            | None \<Rightarrow> s)
      in case co_defaultCreateTime opts of
           Some t \<Rightarrow> if or_undefined (co_memoName opts) = None
             then dispatch_action (SET_TIMESTAMPS \<lparr>tp_createTime = Some (Some t), tp_updateTime = Some (Some t), tp_hideTime = None\<rparr>) s
             else s
         | None \<Rightarrow> s)"

definition save_settles :: "composer_options \<Rightarrow> save_result \<Rightarrow> uploads \<Rightarrow> uploads" where
  "save_settles opts result s =
     (case up_saving s of
        None \<Rightarrow> s
      | Some _ \<Rightarrow>
          dispatch_action (SET_LOADING key_saving False)
            ((if result = save_stored then after_reset opts s else s)\<lparr>up_saving := None\<rparr>))"

section \<open>Steps\<close>

text \<open>
  What can happen: the user inserts media, retries or dismisses a stopped upload, saves, edits the text; an
  upload or a save comes back; another part of the editor dispatches an action; the editor goes.
\<close>

datatype upload_step =
    insert_local upload_kind jsstring "LocalFile list" "int option"
  | insert_remote "Attachment list"
  | upload_back jsstring "Attachment option"
  | retry_click jsstring
  | dismiss_click jsstring
  | save_click
  | save_back save_result
  | other_action EditorAction
  | text_edit view_transaction
  | editor_gone

definition upload_step :: "upload_env \<Rightarrow> composer_options \<Rightarrow> uploads \<Rightarrow> upload_step \<Rightarrow> uploads" where
  "upload_step env opts s e =
     (case e of
        insert_local kind uuid files position \<Rightarrow> insertLocal env kind uuid files position s
      | insert_remote attachments \<Rightarrow> insertRemoteMedia env attachments s
      | upload_back i result \<Rightarrow> upload_settles env i result s
      | retry_click i \<Rightarrow> runJob env i s
      | dismiss_click i \<Rightarrow> dismissJob env i s
      | save_click \<Rightarrow> click_save env s
      | save_back result \<Rightarrow> save_settles opts result s
      | other_action a \<Rightarrow> dispatch_action a s
      | text_edit t \<Rightarrow> with_view (dispatch (un_mapping env) t) s (\<lambda>s. s)
      | editor_gone \<Rightarrow> dispose s)"

text \<open>
  The rest of the editor leaves the flags of uploads and saves alone. A new job has a fresh identifier; an edit
  of the text names positions of it and touches no anchor.
\<close>

fun leaves_flags :: "EditorAction \<Rightarrow> bool" where
  "leaves_flags (SET_LOADING k _) = (k = key_loading)"
| "leaves_flags (SET_PENDING_INLINE_IMAGE_INSERTIONS _) = False"
| "leaves_flags RESET = False"
| "leaves_flags _ = True"

fun upload_step_ok :: "uploads \<Rightarrow> upload_step \<Rightarrow> bool" where
  "upload_step_ok s (insert_local _ uuid _ _) = (\<not> up_disposed s \<and> up_job s uuid = None)"
| "upload_step_ok s (other_action a) = leaves_flags a"
| "upload_step_ok s (text_edit t) = (vt_effects t = [] \<and>
     (\<forall>v. up_view s = Some v \<longrightarrow> (\<forall>c \<in> set (vt_changes t). lc_from c \<le> lc_to c \<and> lc_to c \<le> length (av_doc v))))"
| "upload_step_ok s _ = True"

definition start_uploads :: "EditorState \<Rightarrow> anchored_view option \<Rightarrow> uploads" where
  "start_uploads editor view =
     \<lparr>up_editor = editor, up_view = view, up_jobs = [], up_job = (\<lambda>_. None), up_waiting = (\<lambda>_. None), up_urls = [],
      up_disposed = False, up_saving = None\<rparr>"

end
