(* ===== verification/UploadInvariant.thy ===== *)
theory UploadInvariant
  imports InlineUpload
begin

text \<open>
  The invariant of uploads and saves (\<open>InlineUpload\<close>): the jobs, the runs that wait, the anchors in the text and the flags of
  the editor fit together, and every step keeps it.
\<close>

section \<open>References have no carriage return\<close>

lemma collapse_no_return: "0x0d \<notin> set (collapse_newlines s)"
  by (induction s rule: collapse_newlines.induct) (auto split: list.split)

lemma trim_set: "set (trim s) \<subseteq> set s"
  by (auto simp: trim_def trim_start_def trim_end_def dest!: set_dropWhileD)

lemma stem_no_return: "0x0d \<notin> set (filenameStem s)"
proof -
  have "0x0d \<notin> set (trim (collapse_newlines s))" using collapse_no_return trim_set by blast
  then show ?thesis
    by (auto simp: filenameStem_def Let_def js_str dest: in_set_takeD split: option.splits if_splits)
qed

lemma reference_no_return: "media_reference a = Some t \<Longrightarrow> t \<noteq> [] \<and> 0x0d \<notin> set t"
proof -
  assume t: "media_reference a = Some t"
  then obtain uid where u: "extractAttachmentUIDFromName (att_name a) = Some uid"
    by (auto simp: media_reference_def buildManagedVideoMarkdown_def buildManagedAttachmentMarkdown_def split: if_splits)
  then have "UID_PATTERN uid" by (auto simp: extractAttachmentUIDFromName_def Let_def split: if_splits)
  then have "0x0d \<notin> set uid" by (auto simp: UID_PATTERN_def char_class_defs)
  then show ?thesis
    using t u stem_no_return [of "att_filename a"]
    by (auto simp: media_reference_def buildManagedVideoMarkdown_def buildManagedAttachmentMarkdown_def
        escapeMarkdownAlt_def MANAGED_ATTACHMENT_PATH_PREFIX_def js_str split: if_splits)
qed

lemma all_some_Some: "all_some xs = Some ys \<Longrightarrow> xs = map Some ys"
  by (induction xs arbitrary: ys) (auto split: option.splits)

lemma join_no_return: "\<forall>p \<in> set ps. 0x0d \<notin> set p \<Longrightarrow> 0x0d \<notin> set (join_with [0x0a, 0x0a] ps)"
proof (induction ps)
  case (Cons p ps)
  then show ?case by (cases ps) auto
qed simp

lemma markdown_no_return: "media_markdown as = Some t \<Longrightarrow> 0x0d \<notin> set t"
proof -
  assume "media_markdown as = Some t"
  then obtain ps where p: "all_some (map media_reference as) = Some ps" "t = join_with [0x0a, 0x0a] ps"
    by (auto simp: media_markdown_def)
  have "0x0d \<notin> set q" if "q \<in> set ps" for q
  proof -
    have "Some q \<in> set (map media_reference as)" using all_some_Some [OF p(1)] that by auto
    then show ?thesis using reference_no_return by auto
  qed
  then show ?thesis unfolding p(2) by (intro join_no_return) blast
qed

section \<open>The view\<close>

definition in_range :: "anchored_view \<Rightarrow> bool" where
  "in_range v \<longleftrightarrow> fst (av_selection v) \<le> length (av_doc v) \<and> snd (av_selection v) \<le> length (av_doc v)"

definition valid_changes :: "line_change list \<Rightarrow> jsstring \<Rightarrow> bool" where
  "valid_changes cs doc \<longleftrightarrow> (\<forall>c \<in> set cs. lc_from c \<le> lc_to c \<and> lc_to c \<le> length doc)"

text \<open>Positions of a text are moved to positions of the changed text.\<close>

definition maps_inside :: "position_mapping \<Rightarrow> bool" where
  "maps_inside M \<longleftrightarrow> (\<forall>doc cs. valid_changes cs doc \<longrightarrow>
     (\<forall>s. fst s \<le> length doc \<and> snd s \<le> length doc \<longrightarrow>
        fst (map_selection M doc cs s) \<le> length (apply_changes doc cs) \<and> snd (map_selection M doc cs s) \<le> length (apply_changes doc cs)) \<and>
     (\<forall>p q. p \<le> length doc \<and> map_point M doc cs p = Some q \<longrightarrow> q \<le> length (apply_changes doc cs)))"

definition anchor_ids :: "anchor_set \<Rightarrow> jsstring set" where "anchor_ids A = ud_id ` snd ` set A"

definition anchors_good :: "nat \<Rightarrow> jsstring set \<Rightarrow> anchor_set \<Rightarrow> bool" where
  "anchors_good n jobs A \<longleftrightarrow> distinct_ids A \<and> anchor_ids A \<subseteq> jobs \<and> (\<forall>a \<in> set A. fst a \<le> n)"

text \<open>What the jobs rely on of the editor: its selection and its anchors are in the text, and each anchor belongs to a job.\<close>

definition view_good :: "jsstring set \<Rightarrow> anchored_view \<Rightarrow> bool" where
  "view_good jobs v \<longleftrightarrow> in_range v \<and> anchors_good (length (av_doc v)) jobs (av_anchors v)"

lemma apply_no_changes: "apply_changes doc [] = doc" by (simp add: apply_changes_def)

lemma anchor_ids_shown: "distinct_ids A \<Longrightarrow> anchor_ids A = dom (shown A)"
  unfolding shown_def by (simp add: dom_map_of_conv_image_fst anchor_ids_def keyed_def image_image)

text \<open>The jobs an anchor may belong to after an effect.\<close>

fun jobs_after :: "anchor_effect \<Rightarrow> jsstring set \<Rightarrow> jsstring set" where
  "jobs_after (addUploadAnchor _ d) J = insert (ud_id d) J"
| "jobs_after (updateUploadAnchor _) J = J"
| "jobs_after (removeUploadAnchor t) J = J - {t}"

lemma found_position: "findAnchorPosition A t = Some p \<Longrightarrow> distinct_ids A \<Longrightarrow> \<exists>d. (p, d) \<in> set A"
  using anchored_distinct by (fastforce simp: anchored_def)

lemma effect_good:
  assumes "anchors_good n J A" "case e of addUploadAnchor p d \<Rightarrow> ud_id d \<notin> J | _ \<Rightarrow> True"
  shows "anchors_good n (jobs_after e J) (apply_effect n A e)"
proof -
  have d: "distinct_ids A" and ids: "dom (shown A) \<subseteq> J" and pos: "\<forall>a \<in> set A. fst a \<le> n"
    using assms(1) anchor_ids_shown [of A] by (auto simp: anchors_good_def)
  note m = anchors_are_a_map [OF d, where n = n]
  have "distinct_ids (apply_effect n A e) \<and> dom (shown (apply_effect n A e)) \<subseteq> jobs_after e J"
  proof (cases e)
    case (addUploadAnchor p x)
    then have "shown A (ud_id x) = None" using assms(2) ids by (auto simp: domIff)
    then show ?thesis using m [of _ x p] ids by (auto simp: addUploadAnchor)
  next
    case (updateUploadAnchor x)
    then show ?thesis using m [of _ x] ids by (auto split: option.splits)
  next
    case (removeUploadAnchor t)
    then show ?thesis using m [of t] ids by auto
  qed
  moreover have "\<forall>a \<in> set (apply_effect n A e). fst a \<le> n"
    using pos found_position [OF _ d]
    by (cases e) (fastforce simp: apply_effect_def set_insort_key without_anchor_def split: option.splits)+
  ultimately show ?thesis by (simp add: anchors_good_def anchor_ids_shown)
qed

lemma map_anchors_good:
  assumes "anchors_good n J A" "\<And>p q. p \<le> n \<Longrightarrow> f p = Some q \<Longrightarrow> q \<le> m"
  shows "anchors_good m J (map_anchors f A)"
proof -
  have "\<forall>a \<in> set (map_anchors f A). fst a \<le> m" if "\<forall>a \<in> set A. fst a \<le> n"
    using that assms(2) by (induction A) (auto split: option.splits)
  moreover have "distinct_ids (map_anchors f A)" using assms(1) shown_map_anchors(1) by (simp add: anchors_good_def)
  moreover have "anchor_ids (map_anchors f A) \<subseteq> J"
    using assms(1) map_anchors_ids [of f A] unfolding anchors_good_def anchor_ids_def by (meson subset_trans)
  ultimately show ?thesis using assms(1) by (simp add: anchors_good_def)
qed

lemma dispatch_good:
  assumes "maps_inside M" "view_good J v" "valid_changes (vt_changes t) (av_doc v)" "dispatch M t v = Some v'"
  shows "vt_effects t = [] \<Longrightarrow> view_good J v'"
    "vt_effects t = [e] \<Longrightarrow> (case e of addUploadAnchor p d \<Rightarrow> ud_id d \<notin> J | _ \<Rightarrow> True) \<Longrightarrow> view_good (jobs_after e J) v'"
proof -
  have valid: "valid_changes (map written (vt_changes t)) (av_doc v)"
    using assms(3) by (simp add: valid_changes_def written_def)
  have v': "in_range v'" "av_doc v' = apply_changes (av_doc v) (map written (vt_changes t))"
      "av_anchors v' = uploadAnchorField M (av_doc v) (map written (vt_changes t)) (vt_effects t) (av_anchors v)"
    using assms(4) by (auto simp: dispatch_def Let_def in_range_def split: if_splits)
  have "anchors_good (length (av_doc v')) J
      (map_anchors (map_point M (av_doc v) (map written (vt_changes t))) (av_anchors v))"
    using assms(1,2) valid unfolding v'(2) view_good_def maps_inside_def by (intro map_anchors_good) auto
  then show "vt_effects t = [] \<Longrightarrow> view_good J v'"
    "vt_effects t = [e] \<Longrightarrow> (case e of addUploadAnchor p d \<Rightarrow> ud_id d \<notin> J | _ \<Rightarrow> True) \<Longrightarrow> view_good (jobs_after e J) v'"
    using v'(1,3) effect_good by (simp_all add: view_good_def uploadAnchorField_def v'(2))
qed

lemma effects_dispatch:
  assumes "maps_inside M" "view_good J v" "case e of addUploadAnchor p d \<Rightarrow> ud_id d \<notin> J | _ \<Rightarrow> True"
  shows "\<exists>v'. dispatch M (effects_only e) v = Some v' \<and> view_good (jobs_after e J) v'"
proof -
  have "valid_changes [] (av_doc v)" by (simp add: valid_changes_def)
  then have "fst (map_selection M (av_doc v) [] (av_selection v)) \<le> length (apply_changes (av_doc v) []) \<and>
      snd (map_selection M (av_doc v) [] (av_selection v)) \<le> length (apply_changes (av_doc v) [])"
    using assms(1,2) unfolding maps_inside_def view_good_def in_range_def by blast
  then have "\<exists>v'. dispatch M (effects_only e) v = Some v'"
    by (simp add: dispatch_def effects_only_def Let_def not_less)
  then show ?thesis
    using dispatch_good(2) [OF assms(1,2) _ _ _ assms(3)] by (force simp: effects_only_def valid_changes_def)
qed

lemma status_good:
  "maps_inside M \<Longrightarrow> view_good J v \<Longrightarrow> \<exists>v'. setUploadAnchor M d v = Some v' \<and> view_good J v'"
  using effects_dispatch [of M J v "updateUploadAnchor d"] by (simp add: setUploadAnchor_def)

lemma create_good:
  "maps_inside M \<Longrightarrow> view_good J v \<Longrightarrow> ud_id d \<notin> J \<Longrightarrow>
   \<exists>v'. createUploadAnchor M d position v = Some v' \<and> view_good (insert (ud_id d) J) v'"
  unfolding createUploadAnchor_def
  using effects_dispatch [of M J v "addUploadAnchor (case position of Some p \<Rightarrow> p | None \<Rightarrow> int (snd (av_selection v))) d"] by simp

lemma cancel_good:
  "maps_inside M \<Longrightarrow> view_good J v \<Longrightarrow> \<exists>v'. cancelUploadAnchor M t v = Some v' \<and> view_good (J - {t}) v'"
  using effects_dispatch [of M J v "removeUploadAnchor t"] by (simp add: cancelUploadAnchor_def)

lemma resolve_good:
  assumes "maps_inside M" "view_good J v" "0x0d \<notin> set markdown"
  shows "\<exists>v'. resolveUploadAnchor M t markdown v = Some v' \<and> view_good (J - {t}) v'"
proof (cases "getUploadAnchorPosition v t")
  case None
  have d: "distinct_ids (av_anchors v)" "anchor_ids (av_anchors v) \<subseteq> J" using assms(2) by (simp_all add: view_good_def anchors_good_def)
  have "t \<notin> anchor_ids (av_anchors v)"
    using None d(1) by (simp add: getUploadAnchorPosition_def find_shown anchor_ids_shown domIff)
  then show ?thesis using None assms(2) by (auto simp: resolveUploadAnchor_def view_good_def anchors_good_def)
next
  case (Some p)
  show ?thesis
  proof (cases "markdown = []")
    case True
    then show ?thesis using cancel_good [OF assms(1,2)] Some by (simp add: resolveUploadAnchor_def)
  next
    case False
    let ?t = "caret_insert p (padded markdown (av_doc v) p) [removeUploadAnchor t]"
    have p: "p \<le> length (av_doc v)"
      using Some found_position assms(2) by (fastforce simp: getUploadAnchorPosition_def view_good_def anchors_good_def)
    have "0x0d \<notin> set (padded markdown (av_doc v) p)"
      using assms(3) blockPad_alone(2,3) [of "take p (av_doc v)" "drop p (av_doc v)"]
      by (cases "blockPad (take p (av_doc v)) (drop p (av_doc v))") (simp add: padded_def)
    then have "apply_changes (av_doc v) (map written (vt_changes ?t)) =
        take p (av_doc v) @ padded markdown (av_doc v) p @ drop p (av_doc v)"
      by (simp add: caret_insert_def written_def apply_one_change plain_newlines_id)
    then have "\<exists>v'. dispatch M ?t v = Some v'" using p by (simp add: dispatch_def Let_def caret_insert_def)
    moreover have "valid_changes (vt_changes ?t) (av_doc v)" using p by (simp add: valid_changes_def caret_insert_def)
    ultimately show ?thesis
      using dispatch_good(2) [OF assms(1,2), of ?t _ "removeUploadAnchor t"] Some False
      by (force simp: resolveUploadAnchor_def caret_insert_def)
  qed
qed

lemma insert_good:
  assumes "maps_inside M" "view_good J v" "insertMarkdown M markdown v = Some v'"
  shows "view_good J v'"
proof (cases "markdown = []")
  case False
  let ?t = "caret_insert (snd (av_selection v)) (padded markdown (av_doc v) (snd (av_selection v))) []"
  have "valid_changes (vt_changes ?t) (av_doc v)"
    using assms(2) by (simp add: valid_changes_def caret_insert_def view_good_def in_range_def)
  then show ?thesis
    using dispatch_good(1) [OF assms(1,2), of ?t v'] assms(3) False by (simp add: insertMarkdown_def Let_def) (simp add: caret_insert_def)
qed (use assms in \<open>simp add: insertMarkdown_def\<close>)

section \<open>The invariant\<close>

definition flags_synced :: "uploads \<Rightarrow> bool" where
  "flags_synced s \<longleftrightarrow> ui_pendingInlineImageInsertions (es_ui (up_editor s)) = int (length (up_jobs s)) \<and>
     (is_uploading (ui_isLoading (es_ui (up_editor s))) \<longleftrightarrow> (\<exists>i \<in> set (up_jobs s). uj_active (the (up_job s i))))"

text \<open>A run waits for a file that is not uploaded; a job without a run can be tried again, or its names are no references.\<close>

definition run_good :: "uploads \<Rightarrow> jsstring \<Rightarrow> nat \<Rightarrow> bool" where
  "run_good s i k \<longleftrightarrow> (\<exists>job. up_job s i = Some job \<and> k < length (uj_entries job) \<and> ue_attachment (uj_entries job ! k) = None \<and>
     uj_active job) \<and> (up_disposed s \<or> i \<in> set (up_jobs s))"

definition rest_good :: "uploads \<Rightarrow> jsstring \<Rightarrow> bool" where
  "rest_good s i \<longleftrightarrow> (\<exists>job. up_job s i = Some job \<and> \<not> uj_active job \<and> (\<not> all_uploaded job \<or> job_markdown job = None))"

text \<open>The jobs in \<open>X\<close> are left out: the one a step is about.\<close>

definition jobs_good :: "jsstring set \<Rightarrow> uploads \<Rightarrow> bool" where
  "jobs_good X s \<longleftrightarrow> (up_disposed s \<longrightarrow> up_jobs s = []) \<and> distinct (up_jobs s) \<and>
     (\<forall>i \<in> set (up_jobs s). \<exists>job. up_job s i = Some job \<and> uj_id job = i) \<and>
     (\<forall>i k. i \<notin> X \<longrightarrow> up_waiting s i = Some k \<longrightarrow> run_good s i k) \<and>
     (\<forall>i \<in> set (up_jobs s). i \<notin> X \<longrightarrow> up_waiting s i = None \<longrightarrow> rest_good s i)"

definition save_good :: "uploads \<Rightarrow> bool" where
  "save_good s \<longleftrightarrow> (is_saving (ui_isLoading (es_ui (up_editor s))) \<longleftrightarrow> up_saving s \<noteq> None) \<and>
     (up_saving s \<noteq> None \<longrightarrow> up_jobs s = [])"

definition editor_good :: "uploads \<Rightarrow> bool" where
  "editor_good s \<longleftrightarrow> (\<not> up_disposed s \<longrightarrow> (\<forall>v. up_view s = Some v \<longrightarrow> view_good (set (up_jobs s)) v))"

definition uploads_but :: "jsstring set \<Rightarrow> uploads \<Rightarrow> bool" where
  "uploads_but X s \<longleftrightarrow> jobs_good X s \<and> save_good s \<and> editor_good s"

definition uploads_inv :: "upload_env \<Rightarrow> uploads \<Rightarrow> bool" where
  "uploads_inv env s \<longleftrightarrow> maps_inside (un_mapping env) \<and> uploads_but {} s \<and> (\<not> up_disposed s \<longrightarrow> flags_synced s)"

lemmas inv_defs = uploads_but_def jobs_good_def save_good_def editor_good_def run_good_def rest_good_def

lemma sync_simps [simp]:
  "up_view (syncJobState s) = up_view s" "up_jobs (syncJobState s) = up_jobs s" "up_job (syncJobState s) = up_job s"
  "up_waiting (syncJobState s) = up_waiting s" "up_disposed (syncJobState s) = up_disposed s" "up_saving (syncJobState s) = up_saving s"
  "is_saving (ui_isLoading (es_ui (up_editor (syncJobState s)))) = is_saving (ui_isLoading (es_ui (up_editor s)))"
  "es_metadata (up_editor (syncJobState s)) = es_metadata (up_editor s)"
  by (simp_all add: syncJobState_def Let_def dispatch_action_def)

lemma sync_flags: "flags_synced (syncJobState s)"
  by (auto simp: flags_synced_def syncJobState_def Let_def dispatch_action_def live_jobs_def)

lemma sync_but [simp]: "uploads_but X (syncJobState s) = uploads_but X s"
  by (simp add: inv_defs)

lemma sync_inv: "maps_inside (un_mapping env) \<Longrightarrow> uploads_but {} s \<Longrightarrow> uploads_inv env (syncJobState s)"
  by (simp add: uploads_inv_def sync_flags)

lemma update_job_simps [simp]:
  "up_view (update_job i f s) = up_view s" "up_jobs (update_job i f s) = up_jobs s" "up_waiting (update_job i f s) = up_waiting s"
  "up_disposed (update_job i f s) = up_disposed s" "up_saving (update_job i f s) = up_saving s" "up_editor (update_job i f s) = up_editor s"
  "up_job (update_job i f s) = (up_job s)(i := map_option f (up_job s i))"
  by (simp_all add: update_job_def)

lemma but_mono: "uploads_but X s \<Longrightarrow> X \<subseteq> Y \<Longrightarrow> uploads_but Y s"
  unfolding uploads_but_def jobs_good_def by blast

text \<open>A step that changes the job it is about and its waiting leaves the other jobs as they are.\<close>

lemma but_update:
  assumes "uploads_but {i} s" "\<And>job. uj_id (f job) = uj_id job"
  shows "uploads_but {i} (update_job i f s)" "uploads_but {i} (s\<lparr>up_waiting := (up_waiting s)(i := w)\<rparr>)"
  using assms by (auto simp: inv_defs)

lemma but_run:
  assumes "uploads_but {i} s" "\<And>k. up_waiting s i = Some k \<Longrightarrow> run_good s i k" "up_waiting s i = None \<Longrightarrow> i \<in> set (up_jobs s) \<Longrightarrow> rest_good s i"
  shows "uploads_but {} s"
proof -
  have "run_good s j k'" if "up_waiting s j = Some k'" for j k'
  proof (cases "j = i")
    case True
    then show ?thesis using assms(2) that by simp
  next
    case False
    then show ?thesis using assms(1) that by (simp add: uploads_but_def jobs_good_def)
  qed
  moreover have "rest_good s j" if "j \<in> set (up_jobs s)" "up_waiting s j = None" for j
    using assms that by (cases "j = i") (auto simp: uploads_but_def jobs_good_def)
  ultimately show ?thesis using assms(1) by (simp add: uploads_but_def jobs_good_def)
qed

lemma with_view_rule:
  assumes "up_view s = None \<Longrightarrow> P (continue s)"
    "\<And>v. up_view s = Some v \<Longrightarrow> \<exists>v'. f v = Some v' \<and> P (continue (s\<lparr>up_view := Some v'\<rparr>))"
  shows "P (with_view f s continue)"
  using assms by (cases "up_view s") (force simp: with_view_def)+

lemma but_view:
  "uploads_but X s \<Longrightarrow> view_good (set (up_jobs s)) v \<Longrightarrow> uploads_but X (s\<lparr>up_view := Some v\<rparr>)"
  by (simp add: inv_defs)

lemma good_view: "uploads_but X s \<Longrightarrow> \<not> up_disposed s \<Longrightarrow> up_view s = Some v \<Longrightarrow> view_good (set (up_jobs s)) v"
  by (simp add: uploads_but_def editor_good_def)

lemma inv_view: "uploads_inv env s \<Longrightarrow> view_good (set (up_jobs s)) v \<Longrightarrow> uploads_inv env (s\<lparr>up_view := Some v\<rparr>)"
  by (simp add: uploads_inv_def but_view flags_synced_def)

section \<open>Every step keeps it\<close>

text \<open>A job leaves the map with its anchor.\<close>

lemma finish_good:
  assumes "maps_inside (un_mapping env)" "uploads_but {i} s" "up_waiting s i = None"
    "\<forall>v. up_view s = Some v \<longrightarrow> view_good (set (up_jobs s) - {i}) v"
  shows "uploads_inv env (finishJob i s)"
proof -
  let ?s = "s\<lparr>up_jobs := removeAll i (up_jobs s)\<rparr>"
  have "run_good ?s j k" if "up_waiting s j = Some k" for j k
  proof -
    have "j \<noteq> i" using assms(3) that by auto
    then show ?thesis using assms(2) that by (auto simp: inv_defs)
  qed
  then have "uploads_but {} ?s"
    using assms(2,4) by (auto simp: uploads_but_def jobs_good_def save_good_def editor_good_def rest_good_def distinct_removeAll)
  then show ?thesis unfolding finishJob_def by (rule sync_inv [OF assms(1)])
qed

lemma end_run_good:
  assumes M: "maps_inside (un_mapping env)" and s: "uploads_but {i} s" and job: "up_job s i = Some job" "up_disposed s \<or> i \<in> set (up_jobs s)"
  shows "uploads_inv env (end_run env i s)"
proof -
  define s1 where "s1 = update_job i (\<lambda>job. job\<lparr>uj_active := False\<rparr>) (s\<lparr>up_waiting := (up_waiting s)(i := None)\<rparr>)"
  define job1 where "job1 = job\<lparr>uj_active := False\<rparr>"
  have s1: "uploads_but {i} s1" unfolding s1_def by (intro but_update s) simp_all
  have job1: "up_job s1 i = Some job1" "up_waiting s1 i = None" "\<not> uj_active job1" by (simp_all add: s1_def job job1_def)
  show ?thesis
  proof (cases "up_disposed s")
    case True
    have "uploads_but {} s1" by (rule but_run [OF s1]) (use job1 s1 True in \<open>auto simp: s1_def uploads_but_def jobs_good_def\<close>)
    then show ?thesis using True M by (simp add: end_run_def s1_def [symmetric] uploads_inv_def Let_def) (simp add: s1_def)
  next
    case False
    define s2 where "s2 = syncJobState s1"
    have s2: "uploads_but {i} s2" "up_job s2 i = Some job1" "up_waiting s2 i = None" "\<not> up_disposed s2"
      using s1 job1 False by (simp_all add: s2_def) (simp add: s1_def)
    have run: "end_run env i s =
        (if \<not> all_uploaded job1 then with_view (show_status env i status_failed s2) s2 (\<lambda>s. s)
         else (case job_markdown job1 of None \<Rightarrow> s2
           | Some markdown \<Rightarrow> with_view (resolveUploadAnchor (un_mapping env) i markdown) s2 (finishJob i)))"
      using s2(2,4) unfolding end_run_def s1_def [symmetric] Let_def s2_def [symmetric] by (simp add: s2_def)
    have stays: "uploads_inv env s2" if "\<not> all_uploaded job1 \<or> job_markdown job1 = None"
    proof -
      have "rest_good s2 i" using that s2(2) job1(3) by (simp add: rest_good_def)
      then have "uploads_but {} s2" by (intro but_run [OF s2(1)]) (use s2(3) in auto)
      then show ?thesis using M sync_flags by (simp add: uploads_inv_def s2_def)
    qed
    consider (failed) "\<not> all_uploaded job1" | (invalid) "all_uploaded job1" "job_markdown job1 = None"
      | (complete) markdown where "all_uploaded job1" "job_markdown job1 = Some markdown" by (cases "job_markdown job1") auto
    then show ?thesis
    proof cases
      case failed
      then have "end_run env i s = with_view (show_status env i status_failed s2) s2 (\<lambda>s. s)" by (simp add: run)
      moreover have "uploads_inv env (with_view (show_status env i status_failed s2) s2 (\<lambda>s. s))"
      proof (rule with_view_rule)
        show "uploads_inv env s2" using stays failed by simp
        fix v assume "up_view s2 = Some v"
        then show "\<exists>v'. show_status env i status_failed s2 v = Some v' \<and> uploads_inv env (s2\<lparr>up_view := Some v'\<rparr>)"
          using status_good [OF M good_view [OF s2(1,4)]] inv_view stays failed unfolding show_status_def by blast
      qed
      ultimately show ?thesis by simp
    next
      case invalid
      then show ?thesis using stays by (simp add: run)
    next
      case complete
      have plain: "0x0d \<notin> set markdown" using complete(2) markdown_no_return by (simp add: job_markdown_def)
      have "end_run env i s = with_view (resolveUploadAnchor (un_mapping env) i markdown) s2 (finishJob i)"
        using complete by (simp add: run)
      moreover have "uploads_inv env (with_view (resolveUploadAnchor (un_mapping env) i markdown) s2 (finishJob i))"
      proof (rule with_view_rule)
        show "up_view s2 = None \<Longrightarrow> uploads_inv env (finishJob i s2)" by (rule finish_good [OF M s2(1,3)]) simp
        fix v assume v: "up_view s2 = Some v"
        obtain v' where v': "resolveUploadAnchor (un_mapping env) i markdown v = Some v'" "view_good (set (up_jobs s2) - {i}) v'"
          using resolve_good [OF M good_view [OF s2(1,4) v] plain] by blast
        have "uploads_but {i} (s2\<lparr>up_view := Some v'\<rparr>)"
          using s2(1) v'(2) by (intro but_view) (auto simp: view_good_def anchors_good_def)
        then have "uploads_inv env (finishJob i (s2\<lparr>up_view := Some v'\<rparr>))"
          by (rule finish_good [OF M]) (use s2(3) v'(2) in simp_all)
        with v'(1) show "\<exists>v'. resolveUploadAnchor (un_mapping env) i markdown v = Some v' \<and>
          uploads_inv env (finishJob i (s2\<lparr>up_view := Some v'\<rparr>))" by blast
      qed
      ultimately show ?thesis by simp
    qed
  qed
qed

lemma next_entry_Some: "next_entry k job = Some j \<Longrightarrow> k \<le> j \<and> j < length (uj_entries job) \<and> ue_attachment (uj_entries job ! j) = None"
  by (auto simp: next_entry_def find_Some_iff)

lemma continue_good:
  assumes M: "maps_inside (un_mapping env)" and s: "uploads_but {i} s" "\<not> up_disposed s \<longrightarrow> flags_synced s"
    and job: "up_job s i = Some job" "uj_active job" "up_disposed s \<or> i \<in> set (up_jobs s)"
  shows "uploads_inv env (continue_run env i k s)"
proof (cases "next_entry k job")
  case None
  then show ?thesis using end_run_good [OF M s(1) job(1,3)] job(1) by (simp add: continue_run_def)
next
  case (Some j)
  let ?s = "s\<lparr>up_waiting := (up_waiting s)(i := Some j)\<rparr>"
  have "uploads_but {i} ?s" using but_update(2) [OF s(1), of "\<lambda>j. j"] by simp
  then have "uploads_but {} ?s"
    by (rule but_run) (use job next_entry_Some [OF Some] in \<open>auto simp: run_good_def\<close>)
  then show ?thesis using Some M s(2) job(1) by (simp add: continue_run_def uploads_inv_def flags_synced_def)
qed

lemma inv_parts:
  "uploads_inv env s \<Longrightarrow> maps_inside (un_mapping env)" "uploads_inv env s \<Longrightarrow> uploads_but X s"
  "uploads_inv env s \<Longrightarrow> \<not> up_disposed s \<Longrightarrow> flags_synced s"
  "uploads_inv env s \<Longrightarrow> i \<in> set (up_jobs s) \<Longrightarrow> \<exists>job. up_job s i = Some job \<and> uj_id job = i"
  "uploads_inv env s \<Longrightarrow> up_waiting s i = Some k \<Longrightarrow> run_good s i k"
  "uploads_inv env s \<Longrightarrow> i \<in> set (up_jobs s) \<Longrightarrow> up_waiting s i = None \<Longrightarrow> rest_good s i"
  "uploads_inv env s \<Longrightarrow> up_disposed s \<Longrightarrow> up_jobs s = []"
  using but_mono [of "{}" s X] by (simp_all add: uploads_inv_def uploads_but_def jobs_good_def)

lemma run_job_good:
  assumes inv: "uploads_inv env s"
  shows "uploads_inv env (runJob env i s)"
proof (cases "i \<notin> set (up_jobs s) \<or> uj_active (the (up_job s i)) \<or> up_disposed s")
  case False
  obtain job where job: "up_job s i = Some job" using inv_parts(4) [OF inv] False by blast
  define s1 where "s1 = syncJobState (update_job i (\<lambda>job. job\<lparr>uj_active := True\<rparr>) s)"
  have s1: "uploads_but {i} s1" "\<not> up_disposed s1" "up_job s1 i = Some (job\<lparr>uj_active := True\<rparr>)" "i \<in> set (up_jobs s1)" "flags_synced s1"
    using but_update(1) [OF inv_parts(2) [OF inv]] False job by (simp_all add: s1_def sync_flags)
  have "runJob env i s = with_view (show_status env i status_uploading s1) s1 (continue_run env i 0)"
    using False by (simp add: runJob_def s1_def Let_def)
  moreover have "uploads_inv env (with_view (show_status env i status_uploading s1) s1 (continue_run env i 0))"
  proof (rule with_view_rule)
    note M = inv_parts(1) [OF inv]
    show "uploads_inv env (continue_run env i 0 s1)" by (rule continue_good [OF M s1(1) _ s1(3)]) (use s1 in simp_all)
    fix v assume "up_view s1 = Some v"
    then obtain v' where v': "show_status env i status_uploading s1 v = Some v'" "view_good (set (up_jobs s1)) v'"
      using status_good [OF M good_view [OF s1(1,2)]] unfolding show_status_def by blast
    have "uploads_inv env (continue_run env i 0 (s1\<lparr>up_view := Some v'\<rparr>))"
      by (rule continue_good [OF M but_view [OF s1(1) v'(2)], where job = "job\<lparr>uj_active := True\<rparr>"]) (use s1 in \<open>simp_all add: flags_synced_def\<close>)
    with v'(1) show "\<exists>v'. show_status env i status_uploading s1 v = Some v' \<and>
      uploads_inv env (continue_run env i 0 (s1\<lparr>up_view := Some v'\<rparr>))" by blast
  qed
  ultimately show ?thesis by simp
qed (use inv in \<open>auto simp: runJob_def\<close>)

lemma append_simps [simp]:
  "up_view (appendAttachment a u s) = up_view s" "up_jobs (appendAttachment a u s) = up_jobs s" "up_job (appendAttachment a u s) = up_job s"
  "up_waiting (appendAttachment a u s) = up_waiting s" "up_disposed (appendAttachment a u s) = up_disposed s"
  "up_saving (appendAttachment a u s) = up_saving s" "es_ui (up_editor (appendAttachment a u s)) = es_ui (up_editor s)"
  by (simp_all add: appendAttachment_def Let_def dispatch_action_def)

lemma set_entry_simps [simp]:
  "uj_id (set_entry k a job) = uj_id job" "uj_active (set_entry k a job) = uj_active job"
  "length (uj_entries (set_entry k a job)) = length (uj_entries job)"
  by (simp_all add: set_entry_def)

text \<open>An attachment that arrives is put into its entry and into the memo, and the anchor tells of it.\<close>

definition arrived :: "upload_env \<Rightarrow> jsstring \<Rightarrow> nat \<Rightarrow> Attachment \<Rightarrow> uploads \<Rightarrow> uploads" where
  "arrived env i k a s =
     (let url = lf_previewUrl (ue_localFile (uj_entries (the (up_job s i)) ! k)); s = appendAttachment a url (update_job i (set_entry k a) s)
      in case up_view s of
           None \<Rightarrow> s
         | Some v \<Rightarrow> (case show_status env i status_uploading s v of None \<Rightarrow> s | Some v' \<Rightarrow> s\<lparr>up_view := Some v'\<rparr>))"

lemma settles_arrived:
  assumes "up_waiting s i = Some k"
  shows "upload_settles env i (Some a) s =
    (if up_disposed s then (update_job i (set_entry k a) s)\<lparr>up_waiting := (up_waiting s)(i := None)\<rparr>
     else continue_run env i (k + 1) (arrived env i k a s))"
  using assms by (simp add: upload_settles_def arrived_def Let_def)

lemma arrived_good:
  assumes inv: "uploads_inv env s" and w: "up_waiting s i = Some k" and live: "\<not> up_disposed s" and job: "up_job s i = Some job"
  shows "uploads_but {i} (arrived env i k a s)" "flags_synced (arrived env i k a s)" "\<not> up_disposed (arrived env i k a s)"
    "up_jobs (arrived env i k a s) = up_jobs s" "up_job (arrived env i k a s) i = Some (set_entry k a job)"
    "\<And>v. up_view s = Some v \<Longrightarrow> \<exists>v'. setUploadAnchor (un_mapping env) (descriptorFor env (set_entry k a job) status_uploading) v = Some v' \<and>
      up_view (arrived env i k a s) = Some v'"
proof -
  define s1 where "s1 = appendAttachment a (lf_previewUrl (ue_localFile (uj_entries job ! k))) (update_job i (set_entry k a) s)"
  have "uploads_but {i} (update_job i (set_entry k a) s)" by (rule but_update [OF inv_parts(2) [OF inv]]) simp
  then have s1: "uploads_but {i} s1" unfolding s1_def by (simp add: inv_defs)
  have more: "\<not> up_disposed s1" "up_jobs s1 = up_jobs s" "up_job s1 i = Some (set_entry k a job)" "up_view s1 = up_view s"
    using live job by (simp_all add: s1_def)
  have flags: "flags_synced s1"
  proof -
    have "uj_active (the (up_job s1 j)) = uj_active (the (up_job s j))" for j by (simp add: s1_def job)
    then show ?thesis using inv_parts(3) [OF inv live] by (simp add: flags_synced_def) (simp add: s1_def)
  qed
  have arr: "arrived env i k a s = (case up_view s of None \<Rightarrow> s1
    | Some v \<Rightarrow> (case setUploadAnchor (un_mapping env) (descriptorFor env (set_entry k a job) status_uploading) v of
        None \<Rightarrow> s1 | Some v' \<Rightarrow> s1\<lparr>up_view := Some v'\<rparr>))"
    using job more(3,4) by (simp add: arrived_def s1_def [symmetric] Let_def show_status_def split: option.split)
  have shown: "\<exists>v'. setUploadAnchor (un_mapping env) (descriptorFor env (set_entry k a job) status_uploading) v = Some v' \<and>
      view_good (set (up_jobs s1)) v'" if "up_view s = Some v" for v
    using status_good [OF inv_parts(1) [OF inv] good_view [OF s1 more(1)]] more(4) that by simp
  show "uploads_but {i} (arrived env i k a s)" "flags_synced (arrived env i k a s)" "\<not> up_disposed (arrived env i k a s)"
    "up_jobs (arrived env i k a s) = up_jobs s" "up_job (arrived env i k a s) i = Some (set_entry k a job)"
    "\<And>v. up_view s = Some v \<Longrightarrow> \<exists>v'. setUploadAnchor (un_mapping env) (descriptorFor env (set_entry k a job) status_uploading) v = Some v' \<and>
      up_view (arrived env i k a s) = Some v'"
    using s1 more flags shown but_view [OF s1] by (auto simp: arr flags_synced_def split: option.split)
qed

lemma settles_good:
  assumes inv: "uploads_inv env s"
  shows "uploads_inv env (upload_settles env i result s)"
proof (cases "up_waiting s i")
  case None
  then show ?thesis using inv by (simp add: upload_settles_def)
next
  case (Some k)
  then obtain job where job: "up_job s i = Some job" "uj_active job" "up_disposed s \<or> i \<in> set (up_jobs s)"
    using inv_parts(5) [OF inv] by (fastforce simp: run_good_def)
  note M = inv_parts(1) [OF inv]
  show ?thesis
  proof (cases result)
    case None
    then show ?thesis
      using continue_good [OF M inv_parts(2) [OF inv], of i job] inv_parts(3) [OF inv] job Some by (simp add: upload_settles_def)
  next
    case (Some a)
    show ?thesis
    proof (cases "up_disposed s")
      case True
      let ?s = "(update_job i (set_entry k a) s)\<lparr>up_waiting := (up_waiting s)(i := None)\<rparr>"
      have "uploads_but {i} (update_job i (set_entry k a) s)" by (rule but_update [OF inv_parts(2) [OF inv]]) simp
      then have "uploads_but {i} ?s" using but_update(2) [of i "update_job i (set_entry k a) s" "\<lambda>j. j" None] by simp
      then have "uploads_but {} ?s" by (rule but_run) (use inv_parts(7) [OF inv True] in auto)
      then show ?thesis using True M Some \<open>up_waiting s i = Some k\<close> by (simp add: settles_arrived uploads_inv_def)
    next
      case False
      note g = arrived_good [OF inv \<open>up_waiting s i = Some k\<close> False job(1), where a = a]
      have "uploads_inv env (continue_run env i (k + 1) (arrived env i k a s))"
        by (rule continue_good [OF M g(1) _ g(5)]) (use g job False in simp_all)
      then show ?thesis using False Some \<open>up_waiting s i = Some k\<close> by (simp add: settles_arrived)
    qed
  qed
qed

lemma createJob_Some:
  "createJob uuid files kind = Some job \<Longrightarrow> uj_id job = uuid \<and> \<not> uj_active job \<and> uj_entries job \<noteq> [] \<and>
   (\<forall>e \<in> set (uj_entries job). ue_attachment e = None)"
  by (auto simp: createJob_def Let_def split: if_splits)

lemma insert_local_good:
  assumes inv: "uploads_inv env s" and fresh: "up_job s uuid = None" "\<not> up_disposed s"
  shows "uploads_inv env (insertLocal env kind uuid files position s)"
proof (cases "is_saving (ui_isLoading (es_ui (up_editor s))) \<or> up_view s = None \<or> createJob uuid files kind = None")
  case True
  then show ?thesis using inv by (auto simp: insertLocal_def split: option.split)
next
  case False
  then obtain v job where v: "up_view s = Some v" and job: "createJob uuid files kind = Some job" by auto
  note c = createJob_Some [OF job] and M = inv_parts(1) [OF inv]
  have uuid: "uuid \<notin> set (up_jobs s)" "up_waiting s uuid = None"
    using inv_parts(4) [OF inv] fresh(1)
    by (fastforce, cases "up_waiting s uuid") (auto simp: run_good_def dest!: inv_parts(5) [OF inv])
  define s1 where "s1 = s\<lparr>up_job := (up_job s)(uuid \<mapsto> job), up_jobs := set_add uuid (up_jobs s)\<rparr>"
  obtain v' where v': "createUploadAnchor (un_mapping env) (descriptorFor env job status_uploading) position v = Some v'"
      "view_good (insert uuid (set (up_jobs s))) v'"
    using create_good [OF M good_view [OF inv_parts(2) [OF inv] fresh(2) v], of "descriptorFor env job status_uploading"] uuid c
    by (auto simp: descriptorFor_def Let_def)
  have not_all: "\<not> all_uploaded job"
    using c by (cases "uj_entries job") (auto simp: all_uploaded_def)
  have but: "jobs_good {} s" "save_good s" "up_saving s = None"
    using inv_parts(2) [OF inv, of "{}"] False by (auto simp: uploads_but_def save_good_def)
  have "run_good s1 j k" if "up_waiting s1 j = Some k" for j k
    using but(1) that uuid fresh by (auto simp: s1_def jobs_good_def run_good_def)
  moreover have "rest_good s1 j" if "j \<in> set (up_jobs s1)" "up_waiting s1 j = None" for j
    using but(1) that uuid not_all c by (cases "j = uuid") (auto simp: s1_def jobs_good_def rest_good_def)
  moreover have "distinct (up_jobs s1) \<and> (\<forall>j \<in> set (up_jobs s1). \<exists>job. up_job s1 j = Some job \<and> uj_id job = j)"
    using but(1) uuid c by (auto simp: s1_def jobs_good_def set_add_def)
  ultimately have "uploads_but {} (s1\<lparr>up_view := Some v'\<rparr>)"
    using but(2,3) fresh(2) v'(2) by (auto simp: uploads_but_def jobs_good_def save_good_def editor_good_def run_good_def rest_good_def s1_def)
  then have "uploads_inv env (syncJobState (s1\<lparr>up_view := Some v'\<rparr>))" by (rule sync_inv [OF M])
  moreover have "(syncJobState s1)\<lparr>up_view := Some v'\<rparr> = syncJobState (s1\<lparr>up_view := Some v'\<rparr>)"
    by (simp add: syncJobState_def Let_def dispatch_action_def live_jobs_def)
  moreover have "insertLocal env kind uuid files position s = runJob env uuid ((syncJobState s1)\<lparr>up_view := Some v'\<rparr>)"
    using False v v'(1) job by (simp add: insertLocal_def s1_def [symmetric] Let_def with_view_def) (simp add: s1_def)
  ultimately show ?thesis by (simp add: run_job_good)
qed

lemma dismiss_good:
  assumes inv: "uploads_inv env s"
  shows "uploads_inv env (dismissJob env i s)"
proof (cases "i \<notin> set (up_jobs s) \<or> uj_active (the (up_job s i))")
  case False
  note M = inv_parts(1) [OF inv] and but = inv_parts(2) [OF inv, of "{i}"]
  have live: "\<not> up_disposed s" using False inv_parts(7) [OF inv] by auto
  have waits: "up_waiting s i = None"
    using inv_parts(5) [OF inv] False by (cases "up_waiting s i") (fastforce simp: run_good_def)+
  have "uploads_inv env (with_view (cancelUploadAnchor (un_mapping env) i) s (finishJob i))"
  proof (rule with_view_rule)
    show "up_view s = None \<Longrightarrow> uploads_inv env (finishJob i s)" by (rule finish_good [OF M but waits]) simp
    fix v assume v: "up_view s = Some v"
    obtain v' where v': "cancelUploadAnchor (un_mapping env) i v = Some v'" "view_good (set (up_jobs s) - {i}) v'"
      using cancel_good [OF M good_view [OF but live v]] by blast
    have "uploads_but {i} (s\<lparr>up_view := Some v'\<rparr>)"
      using but v'(2) by (intro but_view) (auto simp: view_good_def anchors_good_def)
    then have "uploads_inv env (finishJob i (s\<lparr>up_view := Some v'\<rparr>))"
      by (rule finish_good [OF M]) (use waits v'(2) in simp_all)
    with v'(1) show "\<exists>v'. cancelUploadAnchor (un_mapping env) i v = Some v' \<and> uploads_inv env (finishJob i (s\<lparr>up_view := Some v'\<rparr>))"
      by blast
  qed
  then show ?thesis using False by (simp add: dismissJob_def)
qed (use inv in \<open>auto simp: dismissJob_def\<close>)

lemma click_save_good:
  assumes inv: "uploads_inv env s"
  shows "uploads_inv env (click_save env s)" "canSave (un_invalid env) (up_editor s) = None \<Longrightarrow> up_jobs s = []"
proof -
  show none: "up_jobs s = []" if "canSave (un_invalid env) (up_editor s) = None"
  proof (cases "up_disposed s")
    case False
    have "\<not> ui_pendingInlineImageInsertions (es_ui (up_editor s)) > 0"
      using that by (auto simp: canSave_def Let_def split: if_splits list.splits)
    then show ?thesis using inv_parts(3) [OF inv False] by (simp add: flags_synced_def)
  qed (simp add: inv_parts(7) [OF inv])
  show "uploads_inv env (click_save env s)"
  proof (cases "canSave (un_invalid env) (up_editor s)")
    case None
    then show ?thesis using none inv
      by (auto simp: click_save_def dispatch_action_def uploads_inv_def inv_defs flags_synced_def)
  qed (use inv in \<open>simp add: click_save_def\<close>)
qed

lemma after_reset_simps [simp]:
  "up_view (after_reset opts s) = up_view s" "up_jobs (after_reset opts s) = up_jobs s" "up_job (after_reset opts s) = up_job s"
  "up_waiting (after_reset opts s) = up_waiting s" "up_disposed (after_reset opts s) = up_disposed s"
  "es_ui (up_editor (after_reset opts s)) = es_ui (createInitialState False)"
  by (simp_all add: after_reset_def Let_def dispatch_action_def split: option.split)

lemma save_settles_good:
  assumes inv: "uploads_inv env s"
  shows "uploads_inv env (save_settles opts result s)"
proof (cases "up_saving s")
  case (Some snapshot)
  then have "up_jobs s = []" using inv_parts(2) [OF inv, of "{}"] by (simp add: uploads_but_def save_good_def)
  then show ?thesis using inv Some
    by (auto simp: save_settles_def dispatch_action_def uploads_inv_def inv_defs flags_synced_def createInitialState_def defaultState_def)
qed (use inv in \<open>simp add: save_settles_def\<close>)

lemma view_step_good:
  assumes inv: "uploads_inv env s" and f: "\<And>v v'. up_view s = Some v \<Longrightarrow> view_good (set (up_jobs s)) v \<Longrightarrow> f v = Some v' \<Longrightarrow> view_good (set (up_jobs s)) v'"
  shows "uploads_inv env (with_view f s (\<lambda>s. s))"
proof (cases "up_view s")
  case (Some v)
  show ?thesis
  proof (cases "f v")
    case [simp]: (Some v')
    have "editor_good (s\<lparr>up_view := Some v'\<rparr>)"
      using f [OF \<open>up_view s = Some v\<close>] good_view [OF inv_parts(2) [OF inv]] \<open>up_view s = Some v\<close> by (auto simp: editor_good_def)
    then show ?thesis using inv \<open>up_view s = Some v\<close>
      by (simp add: with_view_def uploads_inv_def uploads_but_def jobs_good_def save_good_def run_good_def rest_good_def flags_synced_def)
  qed (use inv Some in \<open>simp add: with_view_def\<close>)
qed (use inv in \<open>simp add: with_view_def\<close>)

lemma action_flags: "leaves_flags a \<Longrightarrow> ui_pendingInlineImageInsertions (es_ui (editorReducer e a)) = ui_pendingInlineImageInsertions (es_ui e) \<and>
    is_uploading (ui_isLoading (es_ui (editorReducer e a))) = is_uploading (ui_isLoading (es_ui e)) \<and>
    is_saving (ui_isLoading (es_ui (editorReducer e a))) = is_saving (ui_isLoading (es_ui e))"
  by (cases a) auto

lemma upload_step_good: "uploads_inv env s \<Longrightarrow> upload_step_ok s e \<Longrightarrow> uploads_inv env (upload_step env opts s e)"
proof (cases e)
  case (insert_remote attachments)
  assume inv: "uploads_inv env s"
  then show ?thesis
    using view_step_good [OF inv] insert_good [OF inv_parts(1) [OF inv]]
    by (auto simp: insert_remote upload_step_def insertRemoteMedia_def split: option.split)
next
  case (other_action a)
  assume inv: "uploads_inv env s" and ok: "upload_step_ok s e"
  then show ?thesis using action_flags [of a "up_editor s"]
    by (simp add: other_action upload_step_def dispatch_action_def uploads_inv_def uploads_but_def jobs_good_def save_good_def editor_good_def
        run_good_def rest_good_def flags_synced_def)
next
  case (text_edit t)
  assume inv: "uploads_inv env s" and ok: "upload_step_ok s e"
  have "view_good (set (up_jobs s)) v'"
    if "up_view s = Some v" "view_good (set (up_jobs s)) v" "dispatch (un_mapping env) t v = Some v'" for v v'
    using dispatch_good(1) [OF inv_parts(1) [OF inv] that(2) _ that(3)] ok that(1) by (simp add: text_edit valid_changes_def)
  then show ?thesis using view_step_good [OF inv] by (simp add: text_edit upload_step_def)
next
  case editor_gone
  assume inv: "uploads_inv env s"
  then show ?thesis
    by (simp add: editor_gone upload_step_def dispose_def uploads_inv_def uploads_but_def jobs_good_def save_good_def editor_good_def run_good_def)
qed (simp_all add: upload_step_def insert_local_good settles_good run_job_good dismiss_good click_save_good(1) save_settles_good)

interpretation upload_runs: reducer "upload_step env opts" upload_step_ok "uploads_inv env" for env opts
  by unfold_locales (rule upload_step_good)

text \<open>Where an editor starts: nothing is pending, and the text has no anchors.\<close>

definition start_ok :: "EditorState \<Rightarrow> anchored_view option \<Rightarrow> bool" where
  "start_ok editor view \<longleftrightarrow> ui_pendingInlineImageInsertions (es_ui editor) = 0 \<and>
     \<not> is_uploading (ui_isLoading (es_ui editor)) \<and> \<not> is_saving (ui_isLoading (es_ui editor)) \<and>
     (\<forall>v. view = Some v \<longrightarrow> in_range v \<and> av_anchors v = [])"

lemma start_inv: "maps_inside (un_mapping env) \<Longrightarrow> start_ok editor view \<Longrightarrow> uploads_inv env (start_uploads editor view)"
  by (simp add: start_uploads_def start_ok_def uploads_inv_def inv_defs flags_synced_def view_good_def anchors_good_def distinct_ids_def anchor_ids_def)

lemma reached_inv:
  "maps_inside (un_mapping env) \<Longrightarrow> start_ok editor view \<Longrightarrow>
   legal_run (upload_step env opts) upload_step_ok (start_uploads editor view) es \<Longrightarrow>
   uploads_inv env (foldl (upload_step env opts) (start_uploads editor view) es)"
  by (rule upload_runs.run_inv [OF start_inv])

lemma no_jobs_quiet:
  assumes "uploads_inv env s" "\<not> up_disposed s" "up_jobs s = []"
  shows "up_waiting s i = None" "up_view s = Some v \<Longrightarrow> av_anchors v = []"
proof -
  show "up_waiting s i = None"
    using inv_parts(5) [OF assms(1), of i] assms(2,3) by (cases "up_waiting s i") (auto simp: run_good_def)
  show "av_anchors v = []" if "up_view s = Some v"
    using good_view [OF inv_parts(2) [OF assms(1)] assms(2) that] assms(3) by (auto simp: view_good_def anchors_good_def anchor_ids_def)
qed

end
