(* ===== verification/AutoSave.thy ===== *)
theory AutoSave
  imports Drafts MemoService InlineUpload
begin

text \<open>
  The life of an editor's draft (\<^verbatim>\<open>components/MemoEditor/hooks/useAutoSave.ts\<close> and
  \<^verbatim>\<open>useMemoInit.ts\<close>): what an editor opens with, how its store's listener keeps the draft cache up to date, what the
  page's and the editor's end write, and when a discarded draft is forgotten. The comparison of two attachments is
  the protobuf library's.
\<close>

section \<open>State and operations\<close>

record draft_env =
  de_codec :: att_codec
  de_equals :: "Attachment \<Rightarrow> Attachment \<Rightarrow> bool"

definition editor_draft :: "EditorState \<Rightarrow> EditorDraft" where
  "editor_draft state = \<lparr>dr_content = es_content state, dr_attachments = md_attachments (es_metadata state)\<rparr>"

definition sameDraft :: "draft_env \<Rightarrow> EditorDraft \<Rightarrow> EditorDraft \<Rightarrow> bool" where
  "sameDraft env left right \<longleftrightarrow>
     dr_content left = dr_content right \<and>
     length (dr_attachments left) = length (dr_attachments right) \<and>
     (\<forall>(attachment, other) \<in> set (zip (dr_attachments left) (dr_attachments right)). de_equals env attachment other)"

text \<open>
  \<open>as_latest\<close> and \<open>as_discarded\<close> are the two references of the hook; \<open>as_key\<close> is the key its effects run for,
  \<open>None\<close> while they are not mounted.
\<close>

record autosave =
  as_editor :: EditorState
  as_cache :: draft_cache
  as_latest :: EditorDraft
  as_discarded :: "EditorDraft option"
  as_key :: "jsstring option"

definition first_render :: "EditorState \<Rightarrow> draft_cache \<Rightarrow> autosave" where
  "first_render initialState dc =
     \<lparr>as_editor = initialState, as_cache = dc, as_latest = editor_draft initialState, as_discarded = None, as_key = None\<rparr>"

definition persist :: "draft_env \<Rightarrow> jsstring \<Rightarrow> EditorDraft \<Rightarrow> autosave \<Rightarrow> autosave" where
  "persist env key draft s =
     (let s = s\<lparr>as_latest := draft\<rparr>;
          s = (case as_discarded s of
                 Some discarded \<Rightarrow> if \<not> sameDraft env discarded draft then s\<lparr>as_discarded := None\<rparr> else s
               | None \<Rightarrow> s)
      in s\<lparr>as_cache := cache_save key (dr_content draft) (dr_attachments draft) (as_cache s)\<rparr>)"

definition store_listener :: "draft_env \<Rightarrow> autosave \<Rightarrow> autosave" where
  "store_listener env s =
     (case as_key s of
        None \<Rightarrow> s
      | Some key \<Rightarrow>
          let draft = editor_draft (as_editor s)
          in if \<not> sameDraft env draft (as_latest s) then persist env key draft s else s)"

text \<open>The reducer returns the state itself for a content that is there already: no listener runs.\<close>

fun same_state :: "EditorState \<Rightarrow> EditorAction \<Rightarrow> bool" where
  "same_state state (UPDATE_CONTENT content source) = (es_content state = content \<and> es_contentSource state = source)"
| "same_state state _ = False"

definition store_dispatch :: "draft_env \<Rightarrow> EditorAction \<Rightarrow> autosave \<Rightarrow> autosave" where
  "store_dispatch env action s =
     (if same_state (as_editor s) action then s
      else store_listener env (s\<lparr>as_editor := editorReducer (as_editor s) action\<rparr>))"

definition enable_autosave :: "draft_env \<Rightarrow> jsstring \<Rightarrow> autosave \<Rightarrow> autosave" where
  "enable_autosave env key s = persist env key (editor_draft (as_editor s)) (s\<lparr>as_key := Some key\<rparr>)"

definition flushDraft :: "draft_env \<Rightarrow> jsstring \<Rightarrow> autosave \<Rightarrow> autosave" where
  "flushDraft env key s =
     (if (case as_discarded s of Some discarded \<Rightarrow> sameDraft env discarded (as_latest s) | None \<Rightarrow> False) then s
      else s\<lparr>as_cache :=
        saveNow (de_codec env) key (dr_content (as_latest s)) (dr_attachments (as_latest s)) (as_cache s)\<rparr>)"

text \<open>The page is hidden, and the editor goes: its listener is taken from the store before the last flush.\<close>

definition page_hide :: "draft_env \<Rightarrow> autosave \<Rightarrow> autosave" where
  "page_hide env s = (case as_key s of None \<Rightarrow> s | Some key \<Rightarrow> flushDraft env key s)"

definition disable_autosave :: "draft_env \<Rightarrow> autosave \<Rightarrow> autosave" where
  "disable_autosave env s = (case as_key s of None \<Rightarrow> s | Some key \<Rightarrow> flushDraft env key (s\<lparr>as_key := None\<rparr>))"

definition discardDraft :: "jsstring \<Rightarrow> autosave \<Rightarrow> autosave" where
  "discardDraft key s = s\<lparr>as_discarded := Some (as_latest s), as_cache := cache_clear key (as_cache s)\<rparr>"

text \<open>What an editor opens with.\<close>

record init_options =
  in_memo :: "Memo option"
  in_defaultVisibility :: "Visibility option"
  in_defaultCreateTime :: "date option"
  in_initialContent :: "jsstring option"

definition when_some :: "'a option \<Rightarrow> ('a \<Rightarrow> 's \<Rightarrow> 's) \<Rightarrow> 's \<Rightarrow> 's" where
  "when_some x f s = (case x of None \<Rightarrow> s | Some v \<Rightarrow> f v s)"

definition init_content :: "EditorDraft \<Rightarrow> jsstring option \<Rightarrow> jsstring option" where
  "init_content cachedDraft initialContent =
     (if dr_content cachedDraft \<noteq> [] then Some (dr_content cachedDraft) else or_undefined initialContent)"

definition useMemoInit ::
    "draft_env \<Rightarrow> wkt \<Rightarrow> (jsstring \<Rightarrow> (nat \<times> nat) list) \<Rightarrow> jsstring \<Rightarrow> init_options \<Rightarrow> autosave \<Rightarrow> autosave" where
  "useMemoInit env w text_ranges key opts s =
     (case in_memo opts of
        Some memo \<Rightarrow>
          let (content, metadata, timestamps) = fromMemo w text_ranges memo;
              s = s\<lparr>as_cache := cache_clear key (as_cache s)\<rparr>
          in store_dispatch env (INIT_MEMO content metadata timestamps) s
      | None \<Rightarrow>
          let cachedDraft = loadDraft (de_codec env) key (as_cache s);
              s = when_some (init_content cachedDraft (in_initialContent opts)) (store_dispatch env \<circ> setContent) s;
              s = (if dr_attachments cachedDraft \<noteq> []
                   then store_dispatch env (SET_METADATA (metadata_attachments (dr_attachments cachedDraft))) s else s);
              s = when_some (in_defaultVisibility opts) (store_dispatch env \<circ> (SET_METADATA \<circ> metadata_visibility)) s
          in when_some (in_defaultCreateTime opts)
               (\<lambda>t. store_dispatch env (SET_TIMESTAMPS \<lparr>tp_createTime = Some (Some t), tp_updateTime = Some (Some t), tp_hideTime = None\<rparr>)) s)"

definition initial_cursor :: "jsstring \<Rightarrow> init_options \<Rightarrow> draft_cache \<Rightarrow> int option" where
  "initial_cursor key opts dc =
     (case loadCursor key dc of
        Some cachedCursor \<Rightarrow> Some cachedCursor
      | None \<Rightarrow> map_option (\<lambda>c. int (length c)) (or_undefined (in_initialContent opts)))"

text \<open>An editor for a new memo or comment: the first render, its first effects, and the draft cache switched on.\<close>

definition open_editor ::
    "draft_env \<Rightarrow> wkt \<Rightarrow> (jsstring \<Rightarrow> (nat \<times> nat) list) \<Rightarrow> jsstring \<Rightarrow> init_options \<Rightarrow> EditorState \<Rightarrow> draft_cache \<Rightarrow> autosave" where
  "open_editor env w text_ranges key opts initialState dc =
     (let s = useMemoInit env w text_ranges key opts (first_render initialState dc)
      in if in_memo opts = None then enable_autosave env key s else s)"

section \<open>The session of an editor\<close>

text \<open>
  What happens while an editor for a new memo is open: an action of its store, the page going to the background, the
  discard after a save, and whatever the draft cache does elsewhere, its timeouts included.
\<close>

datatype session_event =
    edited EditorAction
  | hidden_page
  | discarded_draft
  | elsewhere cache_action

fun session_step :: "draft_env \<Rightarrow> jsstring \<Rightarrow> autosave \<Rightarrow> session_event \<Rightarrow> autosave" where
  "session_step env key s (edited a) = store_dispatch env a s"
| "session_step env key s hidden_page = page_hide env s"
| "session_step env key s discarded_draft = discardDraft key s"
| "session_step env key s (elsewhere a) = s\<lparr>as_cache := cache_step (de_codec env) (as_cache s) a\<rparr>"

text \<open>Other editors use other keys.\<close>

fun event_ok :: "jsstring \<Rightarrow> session_event \<Rightarrow> bool" where
  "event_ok key (elsewhere a) = (\<not> touches key a)"
| "event_ok key _ = True"

text \<open>
  The specification knows neither timeouts nor references: the state of the editor, and whether its draft is to be
  forgotten, which it is from a discard until the draft changes.
\<close>

fun life_step :: "EditorState \<times> bool \<Rightarrow> session_event \<Rightarrow> EditorState \<times> bool" where
  "life_step (state, forgotten) (edited a) =
     (editorReducer state a, forgotten \<and> editor_draft (editorReducer state a) = editor_draft state)"
| "life_step (state, forgotten) discarded_draft = (state, True)"
| "life_step (state, forgotten) _ = (state, forgotten)"

text \<open>What the protobuf library promises of its comparison.\<close>

definition equals_ok :: "draft_env \<Rightarrow> bool" where
  "equals_ok env \<longleftrightarrow> (\<forall>a b. de_equals env a b \<longleftrightarrow> a = b)"

lemma sameDraft_eq:
  assumes "equals_ok env"
  shows "sameDraft env l r \<longleftrightarrow> l = r"
proof -
  have zips: "(\<forall>(a, b) \<in> set (zip xs ys). a = b) \<longleftrightarrow> xs = ys" if "length xs = length ys" for xs ys :: "Attachment list"
    using that by (induction xs ys rule: list_induct2) auto
  have "de_equals env = (=)" using assms by (simp add: fun_eq_iff equals_ok_def)
  then show ?thesis
    using zips [of "dr_attachments l" "dr_attachments r"]
    by (cases "length (dr_attachments l) = length (dr_attachments r)") (auto simp: sameDraft_def)
qed

text \<open>A draft is kept for a key when it is stored, or waits for its timeout; it is settled when no timeout waits.\<close>

definition draft_kept :: "att_codec \<Rightarrow> jsstring \<Rightarrow> EditorDraft \<Rightarrow> draft_cache \<Rightarrow> bool" where
  "draft_kept cd key d dc \<longleftrightarrow>
     unsaved_of dc key = Some (dr_content d, dr_attachments d) \<or>
     (unsaved_of dc key = None \<and> dc_storage dc key = entry_text cd (dr_content d) (dr_attachments d))"

definition settled :: "jsstring \<Rightarrow> jsstring option \<Rightarrow> draft_cache \<Rightarrow> bool" where
  "settled key entry dc \<longleftrightarrow> unsaved_of dc key = None \<and> dc_storage dc key = entry"

lemma kept_by_save: "cache_inv dc \<Longrightarrow> draft_kept cd key d (cache_save key (dr_content d) (dr_attachments d) dc)"
  and inv_by_save: "cache_inv dc \<Longrightarrow> cache_inv (cache_save key c as dc)"
  using cache_step_sel [of dc cd "Save key (dr_content d) (dr_attachments d)"] cache_step_sel(1) [of dc cd "Save key c as"]
  by (simp_all add: draft_kept_def)

lemma settled_by_write:
  "cache_inv dc \<Longrightarrow> settled key (entry_text cd c as) (saveNow cd key c as dc) \<and> cache_inv (saveNow cd key c as dc)"
  using cache_step_sel [of dc cd "Save_now key c as"] by (simp add: settled_def)

lemma settled_by_clear: "cache_inv dc \<Longrightarrow> settled key None (cache_clear key dc) \<and> cache_inv (cache_clear key dc)"
  using cache_step_sel [of dc _ "Clear key"] by (simp add: settled_def)

lemma kept_elsewhere:
  assumes "cache_inv dc" "\<not> touches key a"
  shows "draft_kept cd key d dc \<Longrightarrow> draft_kept cd key d (cache_step cd dc a)"
    and "settled key entry dc \<Longrightarrow> settled key entry (cache_step cd dc a)"
  using spec_untouched [OF assms(2), of cd "abs_cache dc" dc] cache_step_sel [OF assms(1), of cd a]
  by (auto simp: draft_kept_def settled_def)

lemma settled_run:
  assumes "cache_inv dc" "settled key entry dc" "\<forall>a \<in> set later. \<not> touches key a"
  shows "settled key entry (foldl (cache_step cd) dc later)"
  using assms
proof (induction later arbitrary: dc)
  case (Cons a later)
  then show ?case using Cons.IH [of "cache_step cd dc a"] kept_elsewhere(2) cache_step_sel(1) by simp
qed simp

section \<open>The session keeps in step with its specification\<close>

fun in_step :: "draft_env \<Rightarrow> jsstring \<Rightarrow> autosave \<times> EditorState \<times> bool \<Rightarrow> bool" where
  "in_step env key (s, state, forgotten) \<longleftrightarrow>
     equals_ok env \<and> cache_inv (as_cache s) \<and> as_key s = Some key \<and> as_editor s = state \<and>
     as_latest s = editor_draft state \<and> as_discarded s = (if forgotten then Some (editor_draft state) else None) \<and>
     (if forgotten then settled key None (as_cache s)
      else draft_kept (de_codec env) key (editor_draft state) (as_cache s))"

lemma same_state_reducer: "same_state state a \<Longrightarrow> editorReducer state a = state"
  by (cases "(state, a)" rule: same_state.cases) auto

lemma dispatch_in_step:
  assumes "in_step env key (s, state, forgotten)"
  shows "in_step env key (store_dispatch env a s, life_step (state, forgotten) (edited a))"
proof (cases "same_state state a")
  case True
  then show ?thesis using assms same_state_reducer by (auto simp: store_dispatch_def)
next
  case False
  let ?d = "editor_draft (editorReducer state a)"
  have eq: "sameDraft env l r \<longleftrightarrow> l = r" for l r using assms sameDraft_eq by simp
  show ?thesis
  proof (cases "?d = editor_draft state")
    case True
    then show ?thesis using assms False by (simp add: store_dispatch_def store_listener_def eq Let_def)
  next
    case changed: False
    then show ?thesis
      using assms False kept_by_save [of "as_cache s" "de_codec env" key ?d] inv_by_save
      by (auto simp: store_dispatch_def store_listener_def persist_def eq Let_def)
  qed
qed

lemma flush_cache_only:
  "\<exists>dc. flushDraft env key s = s\<lparr>as_cache := dc\<rparr>"
  unfolding flushDraft_def by (cases "as_discarded s") (auto intro: exI [of _ "as_cache s"])

lemma flush_settles:
  assumes "in_step env key (s, state, forgotten)"
  shows "settled key (if forgotten then None else
      entry_text (de_codec env) (es_content state) (md_attachments (es_metadata state))) (as_cache (flushDraft env key s))"
    and "cache_inv (as_cache (flushDraft env key s))"
proof -
  have eq: "sameDraft env l r \<longleftrightarrow> l = r" for l r using assms sameDraft_eq by simp
  note w = settled_by_write [of "as_cache s" key "de_codec env" "es_content state" "md_attachments (es_metadata state)"]
  show "settled key (if forgotten then None else
      entry_text (de_codec env) (es_content state) (md_attachments (es_metadata state))) (as_cache (flushDraft env key s))"
    using assms w by (simp add: flushDraft_def eq) (simp add: editor_draft_def)
  show "cache_inv (as_cache (flushDraft env key s))"
    using assms w by (simp add: flushDraft_def eq) (simp add: editor_draft_def)
qed

lemma session_in_step:
  assumes "in_step env key (s, state, forgotten)" "event_ok key e"
  shows "in_step env key (session_step env key s e, life_step (state, forgotten) e)"
proof (cases e)
  case (edited a)
  with dispatch_in_step [OF assms(1)] show ?thesis by simp
next
  case hidden_page
  obtain dc where dc: "flushDraft env key s = s\<lparr>as_cache := dc\<rparr>" using flush_cache_only by blast
  then have page: "page_hide env s = s\<lparr>as_cache := dc\<rparr>" using assms(1) by (simp add: page_hide_def)
  have "settled key (if forgotten then None else
      entry_text (de_codec env) (es_content state) (md_attachments (es_metadata state))) dc" "cache_inv dc"
    using flush_settles [OF assms(1)] dc by simp_all
  then show ?thesis
    using hidden_page assms(1) page by (auto simp: draft_kept_def settled_def editor_draft_def)
next
  case discarded_draft
  then show ?thesis using assms(1) settled_by_clear [of "as_cache s" key] by (simp add: discardDraft_def)
next
  case (elsewhere a)
  then show ?thesis
    using assms kept_elsewhere [of "as_cache s" key a] cache_step_sel(1) [of "as_cache s"] by auto
qed

definition both_step :: "draft_env \<Rightarrow> jsstring \<Rightarrow> autosave \<times> EditorState \<times> bool \<Rightarrow> session_event \<Rightarrow> autosave \<times> EditorState \<times> bool" where
  "both_step env key p e = (session_step env key (fst p) e, life_step (snd p) e)"

interpretation session_runs: reducer "both_step env key" "\<lambda>_. event_ok key" "in_step env key"
  by unfold_locales (auto simp: both_step_def simp del: in_step.simps intro: session_in_step)

lemma both_run:
  "foldl (both_step env key) (s, l) es = (foldl (session_step env key) s es, foldl life_step l es)"
  by (induction es arbitrary: s l) (simp_all add: both_step_def)

lemma session_run:
  assumes "in_step env key (s, l)" "\<forall>e \<in> set events. event_ok key e"
  shows "in_step env key (foldl (session_step env key) s events, foldl life_step l events)"
proof -
  have "legal_run (both_step env key) (\<lambda>_. event_ok key) p events" for p
    using assms(2) by (induction events arbitrary: p) simp_all
  then show ?thesis using session_runs.run_inv [OF assms(1)] both_run by metis
qed

section \<open>What an editor leaves behind\<close>

text \<open>The first effects of an editor keep the cache's invariant and mount nothing.\<close>

lemma quiet_dispatch:
  assumes "as_key s = None"
  shows "as_editor (store_dispatch env a s) = editorReducer (as_editor s) a" "as_key (store_dispatch env a s) = None"
    "as_cache (store_dispatch env a s) = as_cache s" "as_discarded (store_dispatch env a s) = as_discarded s"
  using assms same_state_reducer by (auto simp: store_dispatch_def store_listener_def)

lemma init_new_editor:
  assumes "in_memo opts = None" "as_key s = None"
  shows "as_key (useMemoInit env w text_ranges key opts s) = None"
    "as_cache (useMemoInit env w text_ranges key opts s) = as_cache s"
    "as_discarded (useMemoInit env w text_ranges key opts s) = as_discarded s"
  using assms
  by (simp_all add: useMemoInit_def Let_def when_some_def quiet_dispatch split: option.split)


lemma open_editor_in_step:
  assumes "equals_ok env" "cache_inv dc" "in_memo opts = None"
    and s: "s = open_editor env w text_ranges key opts initialState dc"
  shows "in_step env key (s, as_editor s, False)"
proof -
  let ?s = "useMemoInit env w text_ranges key opts (first_render initialState dc)"
  note i = init_new_editor [OF assms(3), of "first_render initialState dc" env w text_ranges key]
  have "as_cache ?s = dc" "as_discarded ?s = None" using i by (simp_all add: first_render_def)
  then show ?thesis
    using assms(1-3) kept_by_save [OF assms(2), of "de_codec env" key "editor_draft (as_editor ?s)"]
    by (simp add: s open_editor_def enable_autosave_def persist_def Let_def inv_by_save)
qed

lemma cache_run_inv: "cache_inv dc \<Longrightarrow> cache_inv (foldl (cache_step cd) dc actions)"
  by (induction actions arbitrary: dc) (simp_all add: cache_step_sel(1))

lemma closed_editor:
  assumes "in_step env key (s, state, forgotten)" "\<forall>a \<in> set later. \<not> touches key a"
  defines "dc \<equiv> foldl (cache_step (de_codec env)) (as_cache (disable_autosave env s)) later"
  shows "dc_storage dc key = (if forgotten then None
      else entry_text (de_codec env) (es_content state) (md_attachments (es_metadata state)))"
    and "cache_inv dc"
proof -
  let ?s = "s\<lparr>as_key := None\<rparr>"
  let ?c = "as_cache (disable_autosave env s)"
  have "?c = as_cache (flushDraft env key s)" using assms(1) by (simp add: disable_autosave_def flushDraft_def split: option.split)
  then have c: "settled key (if forgotten then None
      else entry_text (de_codec env) (es_content state) (md_attachments (es_metadata state))) ?c" "cache_inv ?c"
    using flush_settles(1,2) [OF assms(1)] by simp_all
  show "dc_storage dc key = (if forgotten then None
      else entry_text (de_codec env) (es_content state) (md_attachments (es_metadata state)))"
    using settled_run [OF c(2,1) assms(2), of "de_codec env"] unfolding dc_def settled_def by simp
  show "cache_inv dc"
    unfolding dc_def using c(2) by (rule cache_run_inv)
qed

text \<open>An editor that opens with any drafts in the cache, and what follows, keep in step with the specification.\<close>

lemma session_reached:
  assumes "equals_ok env" "in_memo opts = None" "\<forall>e \<in> set events. event_ok key e"
    and s0: "s0 = open_editor env w text_ranges key opts initialState (foldl (cache_step (de_codec env)) (cache_start storage) earlier)"
    and s: "s = foldl (session_step env key) s0 events"
    and life: "(state, forgotten) = foldl life_step (as_editor s0, False) events"
  shows "in_step env key (s, state, forgotten)"
proof -
  have "in_step env key (s0, as_editor s0, False)"
    by (rule open_editor_in_step [OF assms(1) reachable_inv assms(2) s0])
  from session_run [OF this assms(3)] show ?thesis by (simp only: s life)
qed

section \<open>Properties of the session\<close>

text \<open>
  C20. When an editor goes, the stored draft is the text and the attachments it showed last, whatever was typed, whichever
  timeouts fired and whenever the page was hidden; after a discard with no change of the draft since, nothing is stored. No
  timeout set before changes this later: it stays until the key is written again.
\<close>

theorem closed_editor_leaves_its_draft:
  assumes "equals_ok env" "in_memo opts = None" "\<forall>e \<in> set events. event_ok key e" "\<forall>a \<in> set later. \<not> touches key a"
    and "s0 = open_editor env w text_ranges key opts initialState (foldl (cache_step (de_codec env)) (cache_start storage) earlier)"
    and "s = foldl (session_step env key) s0 events"
    and "(state, forgotten) = foldl life_step (as_editor s0, False) events"
    and "dc = foldl (cache_step (de_codec env)) (as_cache (disable_autosave env s)) later"
  shows "as_editor s = state \<and>
    dc_storage dc key = (if forgotten then None
      else entry_text (de_codec env) (es_content state) (md_attachments (es_metadata state)))"
proof -
  have run: "in_step env key (s, state, forgotten)" by (rule session_reached [OF assms(1-3,5-7)])
  then have "as_editor s = state" by simp
  moreover have "dc_storage dc key = (if forgotten then None
      else entry_text (de_codec env) (es_content state) (md_attachments (es_metadata state)))"
    unfolding assms(8) by (rule closed_editor(1) [OF run assms(4)])
  ultimately show ?thesis ..
qed






section \<open>An example\<close>

definition sample_draft_env :: draft_env where
  "sample_draft_env = \<lparr>de_codec = sample_codec, de_equals = (=)\<rparr>"

definition no_options :: init_options where
  "no_options = \<lparr>in_memo = None, in_defaultVisibility = None, in_defaultCreateTime = None, in_initialContent = None\<rparr>"

text \<open>The user types, the page is hidden, the user saves and the draft is discarded, types again, and another editor writes.\<close>

definition sample_session :: "session_event list" where
  "sample_session =
     [edited (updateContent (js ''a'')), hidden_page, discarded_draft, edited (updateContent (js ''ab'')),
      elsewhere (Fire 2), elsewhere (Save_now (js ''l'') (js ''x'') [])]"

definition sample_opened :: autosave where
  "sample_opened = open_editor sample_draft_env sample_wkt (\<lambda>_. []) (js ''u-'') no_options (createInitialState False)
     (foldl (cache_step sample_codec) (cache_start Map.empty) [Save (js ''u-'') (js ''old'') []])"

lemma sample_env_ok: "equals_ok sample_draft_env" "in_memo no_options = None" "de_codec sample_draft_env = sample_codec"
  by (simp_all add: equals_ok_def sample_draft_env_def no_options_def)

lemma sample_editor: "as_editor sample_opened = createInitialState False"
  by (simp add: sample_opened_def open_editor_def enable_autosave_def persist_def useMemoInit_def first_render_def loadDraft_def
      when_some_def init_content_def cache_save_cancel no_options_def cache_start_def or_undefined_def Let_def)

definition sample_state :: EditorState where
  "sample_state = editorReducer (editorReducer (createInitialState False) (updateContent (js ''a''))) (updateContent (js ''ab''))"

lemma sample_draft: "es_content sample_state = js ''ab''" "md_attachments (es_metadata sample_state) = []"
  by (simp_all add: sample_state_def updateContent_def createInitialState_def defaultState_def js_str)

lemma sample_life: "(sample_state, False) = foldl life_step (as_editor sample_opened, False) sample_session"
  by (simp add: sample_editor sample_session_def sample_state_def)
    (simp add: editor_draft_def updateContent_def createInitialState_def defaultState_def js_str)

lemma sample_events: "\<forall>e \<in> set sample_session. event_ok (js ''u-'') e" "\<forall>a \<in> set [Fire 3]. \<not> touches (js ''u-'') a"
  by (simp_all add: sample_session_def js_str)

definition sample_closed :: draft_cache where
  "sample_closed = foldl (cache_step sample_codec)
     (as_cache (disable_autosave sample_draft_env (foldl (session_step sample_draft_env (js ''u-'')) sample_opened sample_session))) [Fire 3]"

lemma sample_opened_env:
  "sample_opened = open_editor sample_draft_env sample_wkt (\<lambda>_. []) (js ''u-'') no_options (createInitialState False)
     (foldl (cache_step (de_codec sample_draft_env)) (cache_start Map.empty) [Save (js ''u-'') (js ''old'') []])"
  by (simp only: sample_opened_def sample_env_ok)

lemma sample_closed_env:
  "sample_closed = foldl (cache_step (de_codec sample_draft_env))
     (as_cache (disable_autosave sample_draft_env (foldl (session_step sample_draft_env (js ''u-'')) sample_opened sample_session))) [Fire 3]"
  by (simp only: sample_closed_def sample_env_ok)

lemma sample_text: "entry_text sample_codec (js ''ab'') [] = Some (js ''ab'')"
  by (simp add: entry_text_def serializeDraft_def trim_eq_Nil is_js_space_def js_str)

theorem closed_editor_leaves_its_draft_witness:
  "dc_storage sample_closed (js ''u-'') = Some (js ''ab'')"
  using closed_editor_leaves_its_draft [OF sample_env_ok(1,2) sample_events sample_opened_env refl sample_life sample_closed_env]
  by (simp add: sample_draft sample_env_ok(3) sample_text)


end
