(* ===== verification/TagRender.thy ===== *)
theory TagRender
  imports TagRanges "HOL-Library.Product_Lexorder"
begin

text \<open>
  Tags and user names in a rendered memo (\<^verbatim>\<open>utils/remark-plugins/remark-tag.ts\<close>): how the decoded value of a text
  node is laid back over the source, which runs of it are searched, and how the node is split. The boundaries of the
  source, the spans of the nodes and \<^verbatim>\<open>decodeString\<close> are arguments.
\<close>

section \<open>Literal runs of a text node\<close>

datatype range_type = range_Entity | range_Escape | range_LineEnding | range_Opaque

record SourceRange =
  sr_from :: nat
  sr_to :: nat
  sr_type :: range_type

record LiteralRun =
  lr_source :: jsstring
  lr_sourceFrom :: nat
  lr_valueFrom :: nat

definition replace_nul :: "jsstring \<Rightarrow> jsstring" where
  "replace_nul s = map (\<lambda>c. if c = 0 then 0xfffd else c) s"

text \<open>What \<^verbatim>\<open>/^(?:\r\n?|\n)/\<close> matches; the empty text when it does not.\<close>

definition line_ending :: "jsstring \<Rightarrow> jsstring" where
  "line_ending s =
     (if starts_with s [0x0d, 0x0a] then [0x0d, 0x0a] else if starts_with s [0x0d] then [0x0d]
      else if starts_with s [0x0a] then [0x0a] else [])"

definition decodeBoundary :: "md_text \<Rightarrow> jsstring \<Rightarrow> range_type \<Rightarrow> jsstring" where
  "decodeBoundary md spelling t =
     (if t \<noteq> range_LineEnding then replace_nul (decodeString md spelling)
      else if line_ending spelling \<noteq> [] then [0x0a] else [])"

record run_state =
  rs_runs :: "LiteralRun list"
  rs_sourceCursor :: nat
  rs_valueCursor :: nat
  rs_maySkip :: bool

function trimmedRunEnd :: "jsstring \<Rightarrow> nat \<Rightarrow> nat \<Rightarrow> nat" where
  "trimmedRunEnd source runStart trimmedEnd =
     (if trimmedEnd > runStart \<and> (source ! (trimmedEnd - 1) = 0x20 \<or> source ! (trimmedEnd - 1) = 0x09)
      then trimmedRunEnd source runStart (trimmedEnd - 1) else trimmedEnd)"
  by pat_completeness auto
termination by (relation "measure (\<lambda>(_, _, trimmedEnd). trimmedEnd)") auto

declare trimmedRunEnd.simps [simp del]

text \<open>The prefix of a container before a continued line is skipped a character at a time.\<close>

function skip_prefix :: "jsstring \<Rightarrow> jsstring \<Rightarrow> nat \<Rightarrow> nat \<Rightarrow> nat \<Rightarrow> nat option" where
  "skip_prefix v source valueCursor runEnd runStart =
     (if runStart < runEnd \<and> source ! runStart \<in> {0x20, 0x09, 0x3e} then
        if starts_with_at v (replace_nul (slice source (runStart + 1) runEnd)) valueCursor then Some (runStart + 1)
        else skip_prefix v source valueCursor runEnd (runStart + 1)
      else None)"
  by pat_completeness auto
termination by (relation "measure (\<lambda>(_, _, _, runEnd, runStart). runEnd - runStart)") auto

declare skip_prefix.simps [simp del]

definition push_run :: "nat \<Rightarrow> jsstring \<Rightarrow> run_state \<Rightarrow> run_state" where
  "push_run runStart runSource s =
     s\<lparr>rs_runs := rs_runs s @ (if runSource = [] then []
         else [\<lparr>lr_source = runSource, lr_sourceFrom = runStart, lr_valueFrom = rs_valueCursor s\<rparr>]),
       rs_valueCursor := rs_valueCursor s + length (replace_nul runSource), rs_maySkip := False\<rparr>"

definition addRun :: "jsstring \<Rightarrow> jsstring \<Rightarrow> nat \<Rightarrow> bool \<Rightarrow> run_state \<Rightarrow> run_state option" where
  "addRun v source runEnd mayOmitTrailingWhitespace s =
     (let runStart = rs_sourceCursor s; runSource = slice source runStart runEnd;
          trimmed = slice source runStart (trimmedRunEnd source runStart runEnd) in
      if runSource = [] then Some s
      else if starts_with_at v (replace_nul runSource) (rs_valueCursor s) then Some (push_run runStart runSource s)
      else if mayOmitTrailingWhitespace \<and> starts_with_at v (replace_nul trimmed) (rs_valueCursor s)
        then Some (push_run runStart trimmed s)
      else if \<not> rs_maySkip s then None
      else map_option (\<lambda>from. push_run from (slice source from runEnd) s)
        (skip_prefix v source (rs_valueCursor s) runEnd runStart))"

definition skip_value :: "jsstring \<Rightarrow> jsstring \<Rightarrow> run_state \<Rightarrow> run_state option" where
  "skip_value v p s =
     (if starts_with_at v p (rs_valueCursor s) then Some (s\<lparr>rs_valueCursor := rs_valueCursor s + length p\<rparr>) else None)"

definition or_try :: "'a option \<Rightarrow> 'a option \<Rightarrow> 'a option" where
  "or_try x y = (case x of None \<Rightarrow> y | Some a \<Rightarrow> Some a)"

text \<open>The decoded or the raw spelling of a boundary is passed over in the value.\<close>

definition pass_boundary :: "md_text \<Rightarrow> jsstring \<Rightarrow> range_type \<Rightarrow> jsstring \<Rightarrow> run_state \<Rightarrow> run_state option" where
  "pass_boundary md v t boundarySource s =
     (if t = range_LineEnding then
        (let rawLineEnding = line_ending boundarySource in
         map_option (rs_maySkip_update (\<lambda>_. True))
           (if rawLineEnding = [] then Some s else or_try (skip_value v rawLineEnding s) (skip_value v [0x0a] s)))
      else or_try (skip_value v (replace_nul boundarySource) s) (skip_value v (decodeBoundary md boundarySource t) s))"

definition unknown_reference :: "md_text \<Rightarrow> jsstring \<Rightarrow> SourceRange \<Rightarrow> bool" where
  "unknown_reference md source b \<longleftrightarrow>
     (let spelling = slice source (sr_from b) (sr_to b)
      in sr_type b = range_Entity \<and> decodeBoundary md spelling (sr_type b) = spelling)"

definition boundary_step ::
    "md_text \<Rightarrow> jsstring \<Rightarrow> jsstring \<Rightarrow> nat \<Rightarrow> nat \<Rightarrow> SourceRange \<Rightarrow> run_state \<Rightarrow> run_state option" where
  "boundary_step md v source span_from span_to b s =
     (let boundaryFrom = max (sr_from b) span_from; boundaryTo = min (sr_to b) span_to in
      if boundaryFrom \<ge> boundaryTo \<or> unknown_reference md source b then Some s
      else do {
        s1 \<leftarrow> addRun v source boundaryFrom (sr_type b = range_LineEnding) s;
        pass_boundary md v (sr_type b) (slice source boundaryFrom boundaryTo) (s1\<lparr>rs_sourceCursor := boundaryTo\<rparr>)
      })"

fun boundary_loop ::
    "md_text \<Rightarrow> jsstring \<Rightarrow> jsstring \<Rightarrow> nat \<Rightarrow> nat \<Rightarrow> SourceRange list \<Rightarrow> run_state \<Rightarrow> run_state option" where
  "boundary_loop md v source span_from span_to [] s = Some s"
| "boundary_loop md v source span_from span_to (b # bs) s =
     do { s1 \<leftarrow> boundary_step md v source span_from span_to b s; boundary_loop md v source span_from span_to bs s1 }"

definition literalRunsForTextNode ::
    "md_text \<Rightarrow> jsstring \<Rightarrow> (nat \<times> nat) option \<Rightarrow> jsstring \<Rightarrow> SourceRange list \<Rightarrow> LiteralRun list option" where
  "literalRunsForTextNode md v span source boundaries =
     do {
       (span_from, span_to) \<leftarrow> span;
       s \<leftarrow> boundary_loop md v source span_from span_to boundaries
         \<lparr>rs_runs = [], rs_sourceCursor = span_from, rs_valueCursor = 0, rs_maySkip = False\<rparr>;
       s1 \<leftarrow> addRun v source span_to False s;
       Some (rs_runs s1)
     }"

section \<open>Segments\<close>

datatype Segment = segment_text jsstring | segment_tag jsstring jsstring | segment_mention jsstring jsstring

record inline_match =
  im_mention :: bool
  im_from :: nat
  im_to :: nat
  im_source :: jsstring
  im_value :: jsstring

definition run_tags :: "LiteralRun \<Rightarrow> TagMatch list \<Rightarrow> inline_match list" where
  "run_tags run ms = map (\<lambda>m. \<lparr>im_mention = False, im_from = lr_valueFrom run + tm_from m, im_to = lr_valueFrom run + tm_to m,
     im_source = slice (lr_source run) (tm_from m) (tm_to m), im_value = tm_value m\<rparr>) ms"

definition run_mentions :: "LiteralRun \<Rightarrow> MentionMatch list \<Rightarrow> inline_match list" where
  "run_mentions run ms = map (\<lambda>m. \<lparr>im_mention = True, im_from = lr_valueFrom run + mm_from m, im_to = lr_valueFrom run + mm_to m,
     im_source = slice (lr_source run) (mm_from m) (mm_to m), im_value = mm_username m\<rparr>) ms"

text \<open>The matches of a run; \<open>None\<close> when the search for tags does not return.\<close>

definition run_matches :: "tag_tables \<Rightarrow> jsstring \<Rightarrow> LiteralRun \<Rightarrow> inline_match list option" where
  "run_matches tables source run =
     map_option (\<lambda>tags. run_tags run tags @
         run_mentions run (findMentionMatches (lr_source run)
           (lr_sourceFrom run = 0 \<or> \<not> isUsernameCharacter (source ! (lr_sourceFrom run - 1)))))
       (findTagMatches tables (lr_source run) 0 (length (lr_source run)))"

definition match_segment :: "inline_match \<Rightarrow> Segment" where
  "match_segment m = (if im_mention m then segment_mention (im_source m) (im_value m) else segment_tag (im_source m) (im_value m))"

fun segment_walk :: "jsstring \<Rightarrow> nat \<Rightarrow> inline_match list \<Rightarrow> Segment list" where
  "segment_walk v cursor [] = (if cursor < length v then [segment_text (drop cursor v)] else [])"
| "segment_walk v cursor (m # ms) =
     (if im_from m < cursor then segment_walk v cursor ms
      else (if cursor < im_from m then [segment_text (slice v cursor (im_from m))] else []) @
        match_segment m # segment_walk v (im_to m) ms)"

definition segmentsForTextNode ::
    "tag_tables \<Rightarrow> md_text \<Rightarrow> jsstring \<Rightarrow> (nat \<times> nat) option \<Rightarrow> jsstring \<Rightarrow> SourceRange list \<Rightarrow> Segment list option option" where
  "segmentsForTextNode tables md v span source boundaries =
     (case literalRunsForTextNode md v span source boundaries of
        None \<Rightarrow> Some None
      | Some runs \<Rightarrow>
          map_option (\<lambda>found. let matches = sort_key (\<lambda>m. (im_from m, im_to m)) found
            in Some (if matches = [] then [segment_text v] else segment_walk v 0 matches))
            (concat_some (map (run_matches tables source) runs)))"

section \<open>The tree\<close>

text \<open>A node with its span, by its position or recovered; other nodes have neither children nor text.\<close>

datatype mdast =
    mdast_text jsstring "(nat \<times> nat) option"
  | mdast_parent jsstring "(nat \<times> nat) option" "mdast list"
  | mdast_other jsstring "(nat \<times> nat) option"
  | mdast_tag jsstring jsstring
  | mdast_mention jsstring jsstring

definition TRANSPARENT_PARENT_TYPES :: "jsstring set" where
  "TRANSPARENT_PARENT_TYPES = js ` {''blockquote'', ''delete'', ''emphasis'', ''heading'', ''list'', ''listItem'',
     ''paragraph'', ''root'', ''strong'', ''table'', ''tableCell'', ''tableRow''}"

fun segment_node :: "Segment \<Rightarrow> mdast" where
  "segment_node (segment_text v) = mdast_text v None"
| "segment_node (segment_tag src v) = mdast_tag v src"
| "segment_node (segment_mention src v) = mdast_mention v src"

fun is_text_segment :: "Segment \<Rightarrow> bool" where
  "is_text_segment (segment_text _) = True"
| "is_text_segment _ = False"

fun transformMemoTextNodes ::
    "tag_tables \<Rightarrow> md_text \<Rightarrow> jsstring \<Rightarrow> SourceRange list \<Rightarrow> mdast \<Rightarrow> mdast list option" where
  "transformMemoTextNodes tables md source boundaries (mdast_text v span) =
     map_option (\<lambda>found. case found of
         None \<Rightarrow> [mdast_text v span]
       | Some segments \<Rightarrow>
           if \<forall>segment \<in> set segments. is_text_segment segment then [mdast_text v span] else map segment_node segments)
       (segmentsForTextNode tables md v span source boundaries)"
| "transformMemoTextNodes tables md source boundaries (mdast_parent t span kids) =
     (if t \<in> TRANSPARENT_PARENT_TYPES
      then map_option (\<lambda>nodes. [mdast_parent t span nodes])
        (concat_some (map (transformMemoTextNodes tables md source boundaries) kids))
      else Some [mdast_parent t span kids])"
| "transformMemoTextNodes tables md source boundaries node = Some [node]"

text \<open>The text a reader sees.\<close>

fun shown :: "mdast \<Rightarrow> jsstring" where
  "shown (mdast_text v _) = v"
| "shown (mdast_parent _ _ kids) = concat (map shown kids)"
| "shown (mdast_other _ _) = []"
| "shown (mdast_tag _ source) = source"
| "shown (mdast_mention _ source) = source"

section \<open>Runs and the value\<close>

lemma length_replace_nul [simp]: "length (replace_nul s) = length s"
  by (simp add: replace_nul_def)

lemma replace_nul_append [simp]: "replace_nul (s @ t) = replace_nul s @ replace_nul t"
  by (simp add: replace_nul_def)

lemma replace_nul_idem [simp]: "replace_nul (replace_nul s) = replace_nul s"
  by (simp add: replace_nul_def)

lemma replace_nul_slice: "replace_nul (slice s i j) = slice (replace_nul s) i j"
  by (simp add: replace_nul_def slice_def take_map drop_map)

lemma starts_at_slice:
  assumes "starts_with_at v p i" "p \<noteq> [] \<or> i \<le> length v"
  shows "slice v i (i + length p) = p" "i + length p \<le> length v"
proof -
  obtain t where t: "drop i v = p @ t" using assms(1) by (auto simp: starts_with_at_def starts_with_prefix prefix_def)
  then show "slice v i (i + length p) = p" by (simp add: slice_def)
  have "length v - i = length p + length t" using arg_cong [OF t, of length] by simp
  then show "i + length p \<le> length v" using assms(2) by (cases p) auto
qed

abbreviation run_end :: "LiteralRun \<Rightarrow> nat" where "run_end r \<equiv> lr_sourceFrom r + length (lr_source r)"
abbreviation run_valueEnd :: "LiteralRun \<Rightarrow> nat" where "run_valueEnd r \<equiv> lr_valueFrom r + length (lr_source r)"

text \<open>A run is a piece of the source that the value shows from its place on.\<close>

definition run_ok :: "jsstring \<Rightarrow> jsstring \<Rightarrow> LiteralRun \<Rightarrow> bool" where
  "run_ok v source r \<longleftrightarrow> lr_source r \<noteq> [] \<and> slice source (lr_sourceFrom r) (run_end r) = lr_source r \<and>
     run_valueEnd r \<le> length v \<and> slice v (lr_valueFrom r) (run_valueEnd r) = replace_nul (lr_source r)"

lemma slice_fits: "slice s i (i + length (slice s i j)) = slice s i j" "i + length (slice s i j) \<le> max i j"
proof -
  have "take (length (take n xs)) xs = take n xs" for n and xs :: jsstring
    by (metis append_eq_conv_conj append_take_drop_id)
  then show "slice s i (i + length (slice s i j)) = slice s i j" by (simp only: slice_def add_diff_cancel_left')
  show "i + length (slice s i j) \<le> max i j" by (auto simp: slice_def)
qed

text \<open>What adding a run does: nothing, or one run between the cursor and the end given, at the cursor of the value.\<close>

definition added :: "jsstring \<Rightarrow> jsstring \<Rightarrow> nat \<Rightarrow> run_state \<Rightarrow> run_state \<Rightarrow> bool" where
  "added v source runEnd s s' \<longleftrightarrow> rs_sourceCursor s' = rs_sourceCursor s \<and>
     (rs_runs s' = rs_runs s \<and> rs_valueCursor s' = rs_valueCursor s \<or>
      (\<exists>r. rs_runs s' = rs_runs s @ [r] \<and> run_ok v source r \<and> lr_valueFrom r = rs_valueCursor s \<and>
         rs_valueCursor s' = run_valueEnd r \<and> rs_sourceCursor s \<le> lr_sourceFrom r \<and> run_end r \<le> runEnd))"

lemma added_refl: "added v source runEnd s s"
  by (simp add: added_def)

lemma push_added:
  assumes "starts_with_at v (replace_nul (slice source from to)) (rs_valueCursor s)" "rs_sourceCursor s \<le> from" "to \<le> runEnd"
  shows "added v source runEnd s (push_run from (slice source from to) s)"
proof (cases "slice source from to = []")
  case True
  then show ?thesis by (simp add: added_def push_run_def)
next
  case False
  then have "from < to" by (auto simp: slice_def)
  then have "from + length (slice source from to) \<le> runEnd" using slice_fits(2) [of "from" source to] assms(3) by simp
  moreover have "replace_nul (slice source from to) \<noteq> []" using False by (simp add: replace_nul_def)
  ultimately show ?thesis
    using False assms(2) starts_at_slice [OF assms(1)] slice_fits(1) [of source "from" to]
    by (simp add: added_def push_run_def run_ok_def)
qed

lemma trimmedRunEnd_le: "trimmedRunEnd source lo hi \<le> hi"
  by (induction source lo hi rule: trimmedRunEnd.induct) (subst trimmedRunEnd.simps, auto)

lemma skip_prefix_Some:
  "skip_prefix v source vc hi lo = Some p \<Longrightarrow> lo < p \<and> p \<le> hi \<and> starts_with_at v (replace_nul (slice source p hi)) vc"
proof (induction v source vc hi lo rule: skip_prefix.induct)
  case step: (1 v source vc hi lo)
  show ?case
  proof (cases "starts_with_at v (replace_nul (slice source (lo + 1) hi)) vc")
    case True
    then show ?thesis using step.prems by (subst (asm) skip_prefix.simps) (auto split: if_splits)
  next
    case False
    then have "lo < hi" "source ! lo \<in> {0x20, 0x09, 0x3e}" "skip_prefix v source vc hi (lo + 1) = Some p"
      using step.prems skip_prefix.simps [of v source vc hi lo] by (auto split: if_splits)
    with step.IH False show ?thesis by fastforce
  qed
qed

lemma addRun_added:
  assumes "addRun v source runEnd may s = Some s'"
  shows "added v source runEnd s s'"
  using assms push_added [of v source "rs_sourceCursor s" _ s runEnd]
    push_added [of v source _ runEnd s runEnd] trimmedRunEnd_le [of source "rs_sourceCursor s" runEnd]
  by (auto simp: addRun_def Let_def added_refl split: if_splits dest!: skip_prefix_Some)

lemma pass_boundary_runs:
  assumes "pass_boundary md v t b s = Some s'" "rs_valueCursor s \<le> length v"
  shows "rs_runs s' = rs_runs s \<and> rs_sourceCursor s' = rs_sourceCursor s \<and> rs_valueCursor s \<le> rs_valueCursor s' \<and>
    rs_valueCursor s' \<le> length v"
  using assms starts_at_slice(2) [of v _ "rs_valueCursor s"]
  by (fastforce simp: pass_boundary_def skip_value_def or_try_def Let_def split: if_splits option.splits)

text \<open>The runs lie one after another in the value.\<close>

definition value_good :: "jsstring \<Rightarrow> jsstring \<Rightarrow> run_state \<Rightarrow> bool" where
  "value_good v source s \<longleftrightarrow> rs_valueCursor s \<le> length v \<and>
     (\<forall>r \<in> set (rs_runs s). run_ok v source r \<and> run_valueEnd r \<le> rs_valueCursor s) \<and>
     sorted_wrt (\<lambda>r r'. run_valueEnd r \<le> lr_valueFrom r') (rs_runs s)"

lemma added_cases:
  assumes "added v source runEnd s s'"
  obtains (same) "rs_runs s' = rs_runs s" "rs_valueCursor s' = rs_valueCursor s" "rs_sourceCursor s' = rs_sourceCursor s"
  | (run) r where "rs_runs s' = rs_runs s @ [r]" "run_ok v source r" "lr_valueFrom r = rs_valueCursor s"
      "rs_valueCursor s' = run_valueEnd r" "rs_sourceCursor s' = rs_sourceCursor s" "rs_sourceCursor s \<le> lr_sourceFrom r"
      "run_end r \<le> runEnd"
  using assms unfolding added_def by blast

lemma added_value_good:
  assumes "added v source e s s'" "value_good v source s"
  shows "value_good v source s'"
  using assms(1)
proof (cases rule: added_cases)
  case (run r)
  then show ?thesis using assms(2) by (fastforce simp: value_good_def sorted_wrt_append run_ok_def)
qed (use assms(2) in \<open>simp add: value_good_def\<close>)

lemma boundary_step_good:
  assumes "boundary_step md v source lo hi b s = Some s'" "value_good v source s"
  shows "value_good v source s'"
proof (cases "max (sr_from b) lo \<ge> min (sr_to b) hi \<or> unknown_reference md source b")
  case True
  then show ?thesis using assms by (simp add: boundary_step_def)
next
  case False
  then obtain s1 where s1: "addRun v source (max (sr_from b) lo) (sr_type b = range_LineEnding) s = Some s1"
      "pass_boundary md v (sr_type b) (slice source (max (sr_from b) lo) (min (sr_to b) hi))
         (s1\<lparr>rs_sourceCursor := min (sr_to b) hi\<rparr>) = Some s'"
    using assms(1) by (auto simp: boundary_step_def Let_def bind_eq_Some_conv)
  have "value_good v source s1" using addRun_added [OF s1(1)] assms(2) added_value_good by blast
  then show ?thesis using pass_boundary_runs [OF s1(2)] by (fastforce simp: value_good_def)
qed

lemma boundary_loop_good:
  "boundary_loop md v source lo hi bs s = Some s' \<Longrightarrow> value_good v source s \<Longrightarrow> value_good v source s'"
  by (induction bs arbitrary: s) (auto simp: bind_eq_Some_conv dest: boundary_step_good)

lemma literal_runs_good:
  assumes "literalRunsForTextNode md v span source boundaries = Some runs"
  shows "\<forall>r \<in> set runs. run_ok v source r" "sorted_wrt (\<lambda>r r'. run_valueEnd r \<le> lr_valueFrom r') runs"
proof -
  obtain lo hi s s1 where s: "boundary_loop md v source lo hi boundaries
         \<lparr>rs_runs = [], rs_sourceCursor = lo, rs_valueCursor = 0, rs_maySkip = False\<rparr> = Some s"
      "addRun v source hi False s = Some s1" "runs = rs_runs s1"
    using assms by (auto simp: literalRunsForTextNode_def bind_eq_Some_conv)
  have "value_good v source s" by (rule boundary_loop_good [OF s(1)]) (simp add: value_good_def)
  then have "value_good v source s1" using addRun_added [OF s(2)] added_value_good by blast
  then show "\<forall>r \<in> set runs. run_ok v source r" "sorted_wrt (\<lambda>r r'. run_valueEnd r \<le> lr_valueFrom r') runs"
    using s(3) by (simp_all add: value_good_def)
qed

section \<open>Runs and the source\<close>










section \<open>Matches and segments\<close>

lemma mention_loop_bounds:
  "m \<in> set (mention_loop s b i) \<Longrightarrow> i \<le> mm_from m \<and> mm_from m < mm_to m \<and> mm_to m \<le> length s \<and>
     mm_username m = slice s (mm_from m + 1) (mm_to m) \<and> s ! mm_from m = 0x40 \<and> isValidUsername (mm_username m)"
proof (induction s b i rule: mention_loop.induct)
  case step: (1 s b i)
  show ?case
  proof (cases "i < length s \<and> s ! i = 0x40 \<and> hasLeftBoundary s i b")
    case False
    then have "i < length s" "m \<in> set (mention_loop s b (i + 1))"
      using step.prems mention_loop.simps [of s b i] by (auto split: if_splits)
    with step.IH(1) False show ?thesis by fastforce
  next
    case True
    let ?e = "username_end s (i + 1)"
    have "length (takeWhile isUsernameCharacter (drop (i + 1) s)) \<le> length (drop (i + 1) s)" by (rule length_takeWhile_le)
    then have e: "i + 1 \<le> ?e" "?e \<le> length s" using True unfolding username_end_def length_drop by linarith+
    from True step.prems have "(isValidUsername (slice s (i + 1) ?e) \<and> m = \<lparr>mm_from = i, mm_to = ?e, mm_username = slice s (i + 1) ?e\<rparr>) \<or>
        m \<in> set (mention_loop s b (if ?e = i + 1 then i + 1 else ?e))"
      using mention_loop.simps [of s b i] by (auto simp: Let_def split: if_splits)
    then show ?thesis
    proof
      assume m: "m \<in> set (mention_loop s b (if ?e = i + 1 then i + 1 else ?e))"
      have "(if ?e = i + 1 then i + 1 else ?e) \<le> mm_from m \<and> mm_from m < mm_to m \<and> mm_to m \<le> length s \<and>
         mm_username m = slice s (mm_from m + 1) (mm_to m) \<and> s ! mm_from m = 0x40 \<and> isValidUsername (mm_username m)"
        by (rule step.IH(2) [OF _ _ refl refl refl m]) (use True in auto)
      then show ?thesis using e by (auto split: if_splits)
    qed (use e True in auto)
  qed
qed

lemma valid_units_slice: "valid_units s \<Longrightarrow> valid_units (slice s i j)"
  by (auto simp: valid_units_def slice_def dest!: in_set_takeD in_set_dropD)

text \<open>The matches of a run, each a piece of it and what its grammar reads there.\<close>

definition match_in_run :: "tag_tables \<Rightarrow> LiteralRun \<Rightarrow> inline_match \<Rightarrow> bool" where
  "match_in_run tables r m \<longleftrightarrow>
     (\<exists>a b. im_from m = lr_valueFrom r + a \<and> im_to m = lr_valueFrom r + b \<and> a < b \<and> b \<le> length (lr_source r) \<and>
       im_source m = slice (lr_source r) a b \<and>
       (if im_mention m then im_source m = 0x40 # im_value m \<and> isValidUsername (im_value m)
        else \<exists>ms t. findTagMatches tables (lr_source r) 0 (length (lr_source r)) = Some ms \<and> t \<in> set ms \<and>
          tm_from t = a \<and> tm_to t = b \<and> tm_value t = im_value m))"

lemma run_matches_ok:
  assumes "valid_units (lr_source r)"
  shows "\<exists>ms. run_matches tables source r = Some ms \<and> (\<forall>m \<in> set ms. match_in_run tables r m)"
proof -
  obtain ts where ts: "findTagMatches tables (lr_source r) 0 (length (lr_source r)) = Some ts"
      "spaced 0 (length (lr_source r)) (map (\<lambda>m. (tm_from m, tm_to m, m)) ts)"
    using find_tags_spaced [OF assms, of tables 0] by blast
  have "match_in_run tables r m" if "m \<in> set (run_tags r ts)" for m
  proof -
    obtain t where t: "t \<in> set ts" and m: "m = \<lparr>im_mention = False, im_from = lr_valueFrom r + tm_from t, im_to = lr_valueFrom r + tm_to t,
        im_source = slice (lr_source r) (tm_from t) (tm_to t), im_value = tm_value t\<rparr>"
      using \<open>m \<in> set (run_tags r ts)\<close> by (auto simp: run_tags_def)
    have "tm_from t < tm_to t \<and> tm_to t \<le> length (lr_source r)"
      using spaced_bounds [OF ts(2), of "tm_from t" "tm_to t" t] t by force
    then show ?thesis unfolding match_in_run_def using m t ts(1)
      by (intro exI [of _ "tm_from t"] exI [of _ "tm_to t"]) auto
  qed
  moreover have "match_in_run tables r m" if m_in: "m \<in> set (run_mentions r (findMentionMatches (lr_source r) left))" for m left
  proof -
    obtain u where u: "u \<in> set (mention_loop (lr_source r) left 0)" and m: "m = \<lparr>im_mention = True, im_from = lr_valueFrom r + mm_from u,
        im_to = lr_valueFrom r + mm_to u, im_source = slice (lr_source r) (mm_from u) (mm_to u), im_value = mm_username u\<rparr>"
      using m_in by (auto simp: run_mentions_def findMentionMatches_def)
    note b = mention_loop_bounds [OF u]
    have "slice (lr_source r) (mm_from u) (mm_to u) = 0x40 # slice (lr_source r) (mm_from u + 1) (mm_to u)"
      using b by (simp add: slice_def Cons_nth_drop_Suc [symmetric] take_Cons' Suc_diff_Suc)
    then show ?thesis unfolding match_in_run_def using m b
      by (intro exI [of _ "mm_from u"] exI [of _ "mm_to u"]) auto
  qed
  ultimately show ?thesis using ts(1) by (auto simp: run_matches_def)
qed

lemma match_in_value:
  assumes "run_ok v source r" "match_in_run tables r m"
  shows "im_from m < im_to m" "im_to m \<le> length v" "replace_nul (im_source m) = replace_nul (slice v (im_from m) (im_to m))"
proof -
  obtain a b where ab: "im_from m = lr_valueFrom r + a" "im_to m = lr_valueFrom r + b" "a < b" "b \<le> length (lr_source r)"
      "im_source m = slice (lr_source r) a b"
    using assms(2) unfolding match_in_run_def by blast
  show "im_from m < im_to m" "im_to m \<le> length v" using ab assms(1) by (auto simp: run_ok_def)
  have "slice v (lr_valueFrom r + a) (lr_valueFrom r + b) = slice (slice v (lr_valueFrom r) (run_valueEnd r)) a b"
    using ab(3,4) by (simp add: slice_def drop_take add.commute min_def)
  also have "\<dots> = slice (replace_nul (lr_source r)) a b" using assms(1) by (simp add: run_ok_def)
  finally show "replace_nul (im_source m) = replace_nul (slice v (im_from m) (im_to m))"
    using ab by (simp add: replace_nul_slice)
qed

fun segment_shown :: "Segment \<Rightarrow> jsstring" where
  "segment_shown (segment_text v) = v"
| "segment_shown (segment_tag src _) = src"
| "segment_shown (segment_mention src _) = src"

lemma slice_then_drop: "i \<le> j \<Longrightarrow> j \<le> length v \<Longrightarrow> slice v i j @ drop j v = drop i v"
  by (metis drop_drop le_add_diff_inverse2 slice_def append_take_drop_id)

lemma segment_walk_shows:
  assumes "\<forall>m \<in> set ms. im_from m < im_to m \<and> im_to m \<le> length v \<and>
      replace_nul (im_source m) = replace_nul (slice v (im_from m) (im_to m))"
    and "cursor \<le> length v"
  shows "replace_nul (concat (map segment_shown (segment_walk v cursor ms))) = replace_nul (drop cursor v)"
  using assms
proof (induction v cursor ms rule: segment_walk.induct)
  case step: (2 v cursor m ms)
  show ?case
  proof (cases "im_from m < cursor")
    case False
    have m: "im_from m < im_to m" "im_to m \<le> length v" "replace_nul (im_source m) = replace_nul (slice v (im_from m) (im_to m))"
      using step.prems(1) by auto
    have "replace_nul (concat (map segment_shown (segment_walk v (im_to m) ms))) = replace_nul (drop (im_to m) v)"
      using step.IH(2) [OF False] step.prems(1) m(2) by simp
    moreover have "segment_shown (match_segment m) = im_source m" by (simp add: match_segment_def)
    moreover have "slice v cursor (im_from m) @ slice v (im_from m) (im_to m) @ drop (im_to m) v = drop cursor v"
      using slice_then_drop [of cursor "im_from m" v] slice_then_drop [of "im_from m" "im_to m" v] m False by simp
    then have "replace_nul (slice v cursor (im_from m)) @ replace_nul (slice v (im_from m) (im_to m)) @ replace_nul (drop (im_to m) v) =
        replace_nul (drop cursor v)" by (metis replace_nul_append)
    ultimately show ?thesis using False m(3) by (auto simp: slice_def replace_nul_def)
  qed (use step in simp)
qed simp

lemma segment_walk_matches:
  "sg \<in> set (segment_walk v cursor ms) \<Longrightarrow> is_text_segment sg \<or> (\<exists>m \<in> set ms. sg = match_segment m)"
  by (induction v cursor ms rule: segment_walk.induct) (auto split: if_splits)

lemma concat_some_Some:
  "\<forall>x \<in> set xs. \<exists>y. f x = Some y \<and> (\<forall>z \<in> set y. P x z) \<Longrightarrow>
   \<exists>zs. concat_some (map f xs) = Some zs \<and> (\<forall>z \<in> set zs. \<exists>x \<in> set xs. P x z)"
proof (induction xs)
  case (Cons x xs)
  then obtain y zs where "f x = Some y" "\<forall>z \<in> set y. P x z" "concat_some (map f xs) = Some zs"
      "\<forall>z \<in> set zs. \<exists>x \<in> set xs. P x z" by auto
  then show ?case by auto
qed simp

text \<open>The search returns; each segment that is no text is a match of a run, and together they show the value.\<close>

lemma segments_ok:
  assumes "valid_units source" "literalRunsForTextNode md v span source boundaries = Some runs"
  shows "\<exists>segments. segmentsForTextNode tables md v span source boundaries = Some (Some segments) \<and>
    replace_nul (concat (map segment_shown segments)) = replace_nul v \<and>
    (\<forall>sg \<in> set segments. is_text_segment sg \<or>
      (\<exists>r \<in> set runs. \<exists>m. run_ok v source r \<and> match_in_run tables r m \<and> sg = match_segment m))"
proof -
  note good = literal_runs_good(1) [OF assms(2)]
  have "valid_units (lr_source r)" if "r \<in> set runs" for r
    using valid_units_slice [OF assms(1)] good that unfolding run_ok_def by metis
  then have "\<forall>r \<in> set runs. \<exists>ms. run_matches tables source r = Some ms \<and>
      (\<forall>m \<in> set ms. run_ok v source r \<and> match_in_run tables r m)"
    using run_matches_ok good by blast
  from concat_some_Some [OF this] obtain found where found: "concat_some (map (run_matches tables source) runs) = Some found"
      "\<forall>m \<in> set found. \<exists>r \<in> set runs. run_ok v source r \<and> match_in_run tables r m" by blast
  define matches where "matches = sort_key (\<lambda>m. (im_from m, im_to m)) found"
  have in_runs: "\<exists>r \<in> set runs. run_ok v source r \<and> match_in_run tables r m" if "m \<in> set matches" for m
    using that found(2) by (simp add: matches_def)
  then have "\<forall>m \<in> set matches. im_from m < im_to m \<and> im_to m \<le> length v \<and>
      replace_nul (im_source m) = replace_nul (slice v (im_from m) (im_to m))"
    using match_in_value by blast
  from segment_walk_shows [OF this, of 0]
  have "replace_nul (concat (map segment_shown (segment_walk v 0 matches))) = replace_nul v" by simp
  moreover have "segmentsForTextNode tables md v span source boundaries =
      Some (Some (if matches = [] then [segment_text v] else segment_walk v 0 matches))"
    using assms(2) found(1) by (simp add: segmentsForTextNode_def matches_def Let_def)
  ultimately show ?thesis using in_runs segment_walk_matches [of _ v 0 matches] by fastforce
qed

section \<open>Properties of a rendered memo\<close>

lemma concat_some_shown:
  assumes "\<forall>x \<in> set xs. \<exists>nodes. f x = Some nodes \<and> replace_nul (concat (map shown nodes)) = replace_nul (shown x)"
  shows "\<exists>nodes. concat_some (map f xs) = Some nodes \<and>
    replace_nul (concat (map shown nodes)) = replace_nul (concat (map shown xs))"
  using assms
proof (induction xs)
  case (Cons x xs)
  then obtain a b where "f x = Some a" "replace_nul (concat (map shown a)) = replace_nul (shown x)"
      "concat_some (map f xs) = Some b" "replace_nul (concat (map shown b)) = replace_nul (concat (map shown xs))"
    by auto
  then show ?case by simp
qed simp

lemma shown_segment_node: "shown (segment_node sg) = segment_shown sg"
  by (cases sg) simp_all

text \<open>
  C6. Rendering keeps the text: the search for tags and user names returns for every tree, and the nodes it leaves show
  the same characters in the same order, a null character apart, which is shown as its replacement.
\<close>

theorem rendering_keeps_text:
  assumes "valid_units source"
  shows "\<exists>nodes. transformMemoTextNodes tables md source boundaries node = Some nodes \<and>
    replace_nul (concat (map shown nodes)) = replace_nul (shown node)"
proof (induction node)
  case (mdast_text v span)
  show ?case
  proof (cases "literalRunsForTextNode md v span source boundaries")
    case None
    then show ?thesis by (simp add: segmentsForTextNode_def)
  next
    case (Some runs)
    obtain segments where segments: "segmentsForTextNode tables md v span source boundaries = Some (Some segments)"
        "replace_nul (concat (map segment_shown segments)) = replace_nul v"
      using segments_ok [OF assms Some, of tables] by blast
    have "shown \<circ> segment_node = segment_shown" by (rule ext) (simp add: shown_segment_node)
    then show ?thesis using segments by simp
  qed
next
  case (mdast_parent t span kids)
  obtain nodes where "concat_some (map (transformMemoTextNodes tables md source boundaries) kids) = Some nodes"
      "replace_nul (concat (map shown nodes)) = replace_nul (concat (map shown kids))"
    using concat_some_shown [of kids "transformMemoTextNodes tables md source boundaries"] mdast_parent by blast
  then show ?case by auto
qed simp_all






section \<open>An example\<close>

text \<open>A paragraph with a tag, and a code span that shows a second one.\<close>

definition sample_source :: jsstring where
  "sample_source = js ''b #a `#c`''"

definition sample_boundaries :: "SourceRange list" where
  "sample_boundaries = [\<lparr>sr_from = 5, sr_to = 9, sr_type = range_Opaque\<rparr>]"

lemma sample_units: "valid_units sample_source"
  by (simp add: sample_source_def valid_units_def js_str)



theorem rendering_keeps_text_witness:
  "\<exists>nodes. transformMemoTextNodes sample_tables sample_md_text sample_source sample_boundaries
      (mdast_parent (js ''paragraph'') None [mdast_text (js ''b #a '') (Some (0, 5)), mdast_other (js ''inlineCode'') (Some (5, 9))]) = Some nodes \<and>
    replace_nul (concat (map shown nodes)) = js ''b #a ''"
  using rendering_keeps_text [OF sample_units, of sample_tables sample_md_text sample_boundaries
      "mdast_parent (js ''paragraph'') None [mdast_text (js ''b #a '') (Some (0, 5)), mdast_other (js ''inlineCode'') (Some (5, 9))]"]
  by (simp add: replace_nul_def js_str)


end
