(* ===== verification/FilePairing.thy ===== *)
theory FilePairing
  imports InlineFiles
begin

text \<open>
  The pairing of Live Photos among picked files (\<^verbatim>\<open>components/MemoEditor/hooks/useFileUpload.ts\<close>): a picture and a video
  of the same name become one motion group. The lower case of a text and the identifiers of the uuid library are
  arguments.
\<close>

section \<open>Pairs\<close>

definition normalizeFilenameStem :: "(jsstring \<Rightarrow> jsstring) \<Rightarrow> jsstring \<Rightarrow> jsstring" where
  "normalizeFilenameStem toLowerCase filename =
     (let parts = split_on 0x2e filename in
      if length parts \<le> 1 then toLowerCase filename else toLowerCase (join_with [0x2e] (butlast parts)))"

definition buildLocalMotionMedia :: "jsstring \<Rightarrow> MotionMediaRole \<Rightarrow> MotionMedia" where
  "buildLocalMotionMedia groupId role =
     \<lparr>mm_family = APPLE_LIVE_PHOTO, mm_role = role, mm_groupId = groupId, mm_presentationTimestampUs = 0, mm_hasEmbeddedVideo = False\<rparr>"

definition file_stem :: "(jsstring \<Rightarrow> jsstring) \<Rightarrow> LocalFile \<Rightarrow> jsstring" where
  "file_stem toLowerCase f = normalizeFilenameStem toLowerCase (file_name (lf_file f))"

definition stem_group :: "(jsstring \<Rightarrow> jsstring) \<Rightarrow> LocalFile list \<Rightarrow> jsstring \<Rightarrow> LocalFile list" where
  "stem_group toLowerCase files stem = filter (\<lambda>f. file_stem toLowerCase f = stem) files"

text \<open>The picture and the video of a stem that has one of each.\<close>

definition stem_pair :: "(jsstring \<Rightarrow> jsstring) \<Rightarrow> LocalFile list \<Rightarrow> jsstring \<Rightarrow> (LocalFile \<times> LocalFile) option" where
  "stem_pair toLowerCase files stem =
     (let grp = stem_group toLowerCase files stem;
          images = filter (\<lambda>f. starts_with (file_type (lf_file f)) (js ''image/'')) grp;
          videos = filter (\<lambda>f. starts_with (file_type (lf_file f)) (js ''video/'')) grp
      in if length images \<noteq> 1 \<or> length videos \<noteq> 1 then None else Some (hd images, hd videos))"

definition with_motion :: "jsstring \<Rightarrow> LocalFile \<Rightarrow> LocalFile \<Rightarrow> LocalFile \<Rightarrow> LocalFile" where
  "with_motion groupId picture video f =
     (if lf_previewUrl f = lf_previewUrl picture then f\<lparr>lf_motionMedia := Some (buildLocalMotionMedia groupId STILL)\<rparr>
      else if lf_previewUrl f = lf_previewUrl video then f\<lparr>lf_motionMedia := Some (buildLocalMotionMedia groupId VIDEO)\<rparr>
      else f)"

text \<open>\<open>uuid n\<close> is the identifier the \<open>n\<close>-th call of the uuid library gives.\<close>

fun pair_loop ::
    "(jsstring \<Rightarrow> jsstring) \<Rightarrow> (nat \<Rightarrow> jsstring) \<Rightarrow> LocalFile list \<Rightarrow> (jsstring \<times> jsstring) list \<Rightarrow> LocalFile list \<Rightarrow> LocalFile list" where
  "pair_loop toLowerCase uuid files groupIds [] = []"
| "pair_loop toLowerCase uuid files groupIds (f # fs) =
     (let stem = file_stem toLowerCase f in
      case stem_pair toLowerCase files stem of
        None \<Rightarrow> f # pair_loop toLowerCase uuid files groupIds fs
      | Some (picture, video) \<Rightarrow>
          let groupId = (case map_of groupIds stem of
              Some g \<Rightarrow> g | None \<Rightarrow> stem @ js ''-'' @ uuid (length groupIds))
          in with_motion groupId picture video f # pair_loop toLowerCase uuid files (AList.update stem groupId groupIds) fs)"

definition pairAppleLivePhotoFiles :: "(jsstring \<Rightarrow> jsstring) \<Rightarrow> (nat \<Rightarrow> jsstring) \<Rightarrow> LocalFile list \<Rightarrow> LocalFile list" where
  "pairAppleLivePhotoFiles toLowerCase uuid localFiles = pair_loop toLowerCase uuid localFiles [] localFiles"

definition toLocalFiles ::
    "(jsstring \<Rightarrow> jsstring) \<Rightarrow> (nat \<Rightarrow> jsstring) \<Rightarrow> (nat \<Rightarrow> jsstring) \<Rightarrow> bool \<Rightarrow> (js_file \<Rightarrow> MediaMetadata option) \<Rightarrow>
     js_file list \<Rightarrow> LocalFile list" where
  "toLocalFiles toLowerCase uuid createBlobUrl saveMediaMetadata extract files =
     pairAppleLivePhotoFiles toLowerCase uuid
       (map (\<lambda>(i, file). \<lparr>lf_file = file, lf_previewUrl = createBlobUrl i, lf_origin = Some upload, lf_audioMeta = None,
           lf_motionMedia = None, lf_mediaMetadata = (if saveMediaMetadata then extract file else None)\<rparr>)
         (enumerate 0 files))"

section \<open>A pair is a motion group\<close>

text \<open>The loop marks every file by the identifiers it ends with.\<close>

definition marked :: "(jsstring \<Rightarrow> jsstring) \<Rightarrow> LocalFile list \<Rightarrow> (jsstring \<Rightarrow> jsstring) \<Rightarrow> LocalFile \<Rightarrow> LocalFile" where
  "marked toLowerCase files ids f =
     (case stem_pair toLowerCase files (file_stem toLowerCase f) of
        None \<Rightarrow> f
      | Some (picture, video) \<Rightarrow> with_motion (ids (file_stem toLowerCase f)) picture video f)"

definition uuid_ids :: "(nat \<Rightarrow> jsstring) \<Rightarrow> (jsstring \<Rightarrow> jsstring) \<Rightarrow> bool" where
  "uuid_ids uuid ids \<longleftrightarrow> (\<forall>stem. \<exists>n. ids stem = stem @ js ''-'' @ uuid n)"

lemma pair_loop_marks:
  assumes "\<forall>s g. map_of groupIds s = Some g \<longrightarrow> (\<exists>n. g = s @ js ''-'' @ uuid n)"
  shows "\<exists>ids. uuid_ids uuid ids \<and> (\<forall>s g. map_of groupIds s = Some g \<longrightarrow> ids s = g) \<and>
    pair_loop low uuid files groupIds fs = map (marked low files ids) fs"
  using assms
proof (induction fs arbitrary: groupIds)
  case Nil
  define ids where "ids s = (case map_of groupIds s of Some g \<Rightarrow> g | None \<Rightarrow> s @ js ''-'' @ uuid 0)" for s
  have "uuid_ids uuid ids" using Nil by (auto simp: uuid_ids_def ids_def split: option.split)
  moreover have "\<forall>s g. map_of groupIds s = Some g \<longrightarrow> ids s = g" by (simp add: ids_def)
  ultimately show ?case by (intro exI [of _ ids]) simp
next
  case (Cons f fs)
  let ?s = "file_stem low f"
  show ?case
  proof (cases "stem_pair low files ?s")
    case None
    then show ?thesis using Cons.IH [OF Cons.prems] by (auto simp: marked_def)
  next
    case (Some p)
    obtain picture video where p: "p = (picture, video)" by (cases p)
    define g where "g = (case map_of groupIds ?s of Some g \<Rightarrow> g | None \<Rightarrow> ?s @ js ''-'' @ uuid (length groupIds))"
    have g: "\<exists>n. g = ?s @ js ''-'' @ uuid n" using Cons.prems by (auto simp: g_def split: option.split)
    then have "\<forall>s h. map_of (AList.update ?s g groupIds) s = Some h \<longrightarrow> (\<exists>n. h = s @ js ''-'' @ uuid n)"
      using Cons.prems by (auto simp: update_conv')
    from Cons.IH [OF this] obtain ids where ids: "uuid_ids uuid ids"
        "\<forall>s h. map_of (AList.update ?s g groupIds) s = Some h \<longrightarrow> ids s = h"
        "pair_loop low uuid files (AList.update ?s g groupIds) fs = map (marked low files ids) fs" by blast
    have "ids ?s = g" using ids(2) by (simp add: update_conv')
    moreover have "ids s = h" if "map_of groupIds s = Some h" for s h
      using ids(2) that \<open>ids ?s = g\<close> by (cases "s = ?s") (simp_all add: update_conv' g_def)
    moreover have "pair_loop low uuid files groupIds (f # fs) =
        with_motion g picture video f # map (marked low files ids) fs"
      using Some p ids(3) by (simp add: Let_def g_def)
    ultimately show ?thesis using ids(1) Some p by (intro exI [of _ ids]) (simp add: marked_def)
  qed
qed

lemma uuid_ids_inj:
  assumes "uuid_ids uuid ids" "\<forall>n. length (uuid n) = 36" "ids s = ids t"
  shows "s = t"
proof -
  obtain n m where "s @ js ''-'' @ uuid n = t @ js ''-'' @ uuid m" using assms(1,3) unfolding uuid_ids_def by metis
  moreover have "length (js ''-'' @ uuid n) = length (js ''-'' @ uuid m)" using assms(2) by simp
  ultimately show ?thesis by (metis append_eq_append_conv)
qed

lemma stem_pair_Some:
  assumes "stem_pair low files s = Some (picture, video)"
  shows "picture \<in> set files" "video \<in> set files" "file_stem low picture = s" "file_stem low video = s"
    "starts_with (file_type (lf_file picture)) (js ''image/'')" "starts_with (file_type (lf_file video)) (js ''video/'')"
    "picture \<noteq> video"
proof -
  let ?I = "filter (\<lambda>f. starts_with (file_type (lf_file f)) (js ''image/'')) (stem_group low files s)"
  let ?V = "filter (\<lambda>f. starts_with (file_type (lf_file f)) (js ''video/'')) (stem_group low files s)"
  have l: "length ?I = 1" "length ?V = 1" "picture = hd ?I" "video = hd ?V"
    using assms by (auto simp: stem_pair_def Let_def split: if_splits)
  then have "picture \<in> set ?I" "video \<in> set ?V" by (metis One_nat_def length_0_conv nat.distinct(1) hd_in_set)+
  then have m: "picture \<in> set (stem_group low files s)" "starts_with (file_type (lf_file picture)) (js ''image/'')"
      "video \<in> set (stem_group low files s)" "starts_with (file_type (lf_file video)) (js ''video/'')" by auto
  then show "picture \<in> set files" "video \<in> set files" "file_stem low picture = s" "file_stem low video = s"
    by (auto simp: stem_group_def)
  show "starts_with (file_type (lf_file picture)) (js ''image/'')" "starts_with (file_type (lf_file video)) (js ''video/'')"
    using m by auto
  have "js ''image/'' \<noteq> js ''video/''" by simp
  with m(2,4) show "picture \<noteq> video" by (auto simp: starts_with_def)
qed

text \<open>
  Among picked files, of which none has motion data and each its own address, every motion group the pairing makes is
  one picture and one video of the same name; they are told apart from every other pair.
\<close>

lemma pairs_are_groups:
  assumes "\<forall>f \<in> set files. lf_motionMedia f = None" "distinct (map lf_previewUrl files)" "\<forall>n. length (uuid n) = 36"
    and paired: "paired = pairAppleLivePhotoFiles low uuid files"
  shows "group_files paired g = [] \<or>
    (\<exists>picture video. stem_pair low files (file_stem low picture) = Some (picture, video) \<and>
       mset (group_files paired g) =
         {#picture\<lparr>lf_motionMedia := Some (buildLocalMotionMedia g STILL)\<rparr>, video\<lparr>lf_motionMedia := Some (buildLocalMotionMedia g VIDEO)\<rparr>#})"
proof -
  obtain ids where ids: "uuid_ids uuid ids" "paired = map (marked low files ids) files"
    using pair_loop_marks [of "[]" uuid low files files] by (auto simp: paired pairAppleLivePhotoFiles_def)
  have inj: "f = h" if "f \<in> set files" "h \<in> set files" "lf_previewUrl f = lf_previewUrl h" for f h
    using assms(2) that by (auto simp: distinct_map dest: inj_onD)
  have group: "local_group (marked low files ids f) = Some g \<longleftrightarrow>
      (\<exists>picture video. stem_pair low files (file_stem low f) = Some (picture, video) \<and> (f = picture \<or> f = video) \<and> ids (file_stem low f) = g)"
    if f: "f \<in> set files" for f
  proof (cases "stem_pair low files (file_stem low f)")
    case None
    then show ?thesis using assms(1) f by (simp add: marked_def local_group_def or_undefined_def)
  next
    case (Some p)
    obtain picture video where p: "p = (picture, video)" by (cases p)
    note pair = stem_pair_Some [OF Some [unfolded p]]
    have "ids (file_stem low f) \<noteq> []" using ids(1) unfolding uuid_ids_def by (metis append_is_Nil_conv js_eq_Nil list.distinct(1))
    then show ?thesis
      using Some p assms(1) f pair inj [OF f pair(1)] inj [OF f pair(2)]
      by (auto simp: marked_def with_motion_def local_group_def or_undefined_def buildLocalMotionMedia_def)
  qed
  show ?thesis
  proof (cases "group_files paired g = []")
    case False
    then obtain f where "f \<in> set files" "local_group (marked low files ids f) = Some g"
      by (auto simp: group_files_def ids(2) filter_empty_conv)
    then obtain picture video where f: "f \<in> set files" "stem_pair low files (file_stem low f) = Some (picture, video)" "ids (file_stem low f) = g"
      using group by blast
    note pair = stem_pair_Some [OF f(2)]
    have only: "local_group (marked low files ids h) = Some g \<longleftrightarrow> h = picture \<or> h = video" if h: "h \<in> set files" for h
    proof
      assume "local_group (marked low files ids h) = Some g"
      then obtain i v where hv: "stem_pair low files (file_stem low h) = Some (i, v)" "h = i \<or> h = v" "ids (file_stem low h) = g"
        using group [OF h] by blast
      then have "file_stem low h = file_stem low f" using uuid_ids_inj [OF ids(1) assms(3)] f(3) by simp
      then show "h = picture \<or> h = video" using hv f(2) by simp
    next
      assume "h = picture \<or> h = video"
      then have "file_stem low h = file_stem low f" using pair(3,4) by auto
      then show "local_group (marked low files ids h) = Some g" using group [OF h] f(2,3) \<open>h = picture \<or> h = video\<close> by auto
    qed
    have "group_files paired g = map (marked low files ids) (filter (\<lambda>h. local_group (marked low files ids h) = Some g) files)"
      by (simp add: group_files_def ids(2) filter_map comp_def)
    also have "filter (\<lambda>h. local_group (marked low files ids h) = Some g) files = filter (\<lambda>h. h = picture \<or> h = video) files"
      by (rule filter_cong) (use only in auto)
    finally have "mset (group_files paired g) = image_mset (marked low files ids) (filter_mset (\<lambda>h. h = picture \<or> h = video) (mset files))"
      by simp
    moreover have "filter_mset (\<lambda>h. h = picture \<or> h = video) (mset files) = {#picture, video#}"
    proof -
      have "distinct files" using assms(2) by (simp add: distinct_map)
      then have "mset (filter (\<lambda>h. h = picture \<or> h = video) files) = mset_set {picture, video}"
        using pair(1,2) by (subst mset_set_set [symmetric]) (auto intro!: arg_cong [where f = mset_set])
      then show ?thesis using pair(7) by simp
    qed
    moreover have "marked low files ids picture = picture\<lparr>lf_motionMedia := Some (buildLocalMotionMedia g STILL)\<rparr>"
      using f(2,3) pair(3) by (simp add: marked_def with_motion_def)
    moreover have "marked low files ids video = video\<lparr>lf_motionMedia := Some (buildLocalMotionMedia g VIDEO)\<rparr>"
      using f(2,3) pair(1,2,4,7) inj [OF pair(2,1)] by (auto simp: marked_def with_motion_def)
    ultimately have "mset (group_files paired g) = {#picture\<lparr>lf_motionMedia := Some (buildLocalMotionMedia g STILL)\<rparr>,
        video\<lparr>lf_motionMedia := Some (buildLocalMotionMedia g VIDEO)\<rparr>#}" by simp
    moreover have "stem_pair low files (file_stem low picture) = Some (picture, video)" using f(2) pair(3) by simp
    ultimately show ?thesis by blast
  qed simp
qed

end
