(* ===== verification/AudioRecorder.thy ===== *)
theory AudioRecorder
  imports EditorState
begin

text \<open>
  The audio recorder of the editor (\<^verbatim>\<open>components/MemoEditor/hooks/useAudioRecorder.ts\<close>): the request for the
  microphone, the recording, its end and its delivery as a file. The streams and the recorders of the platform are part of the
  state; what the platform does, and the clicks of the user, are steps. The local time is an argument.
\<close>

section \<open>Files\<close>

datatype AudioRecordingCompleteMode = mode_attach | mode_transcribe

datatype AudioRecorderStatus = rec_idle | rec_requesting_permission | rec_recording | rec_error | rec_unsupported

definition FALLBACK_AUDIO_MIME_TYPE :: jsstring where
  "FALLBACK_AUDIO_MIME_TYPE = js ''audio/webm''"

definition AUDIO_MIME_TYPE_CANDIDATES :: "jsstring list" where
  "AUDIO_MIME_TYPE_CANDIDATES =
     [js ''audio/webm;codecs=opus'', js ''audio/webm'', js ''audio/mp4'', js ''audio/ogg;codecs=opus'']"

text \<open>
  The platform: whether it records at all, the types it records, the local time (year, month, day, hour, minute, second) of a
  time stamp, and the address of the blob it makes next.
\<close>

record audio_platform =
  ap_supported :: bool
  ap_isTypeSupported :: "jsstring \<Rightarrow> bool"
  ap_local :: "int \<Rightarrow> nat \<times> nat \<times> nat \<times> nat \<times> nat \<times> nat"
  ap_blobUrl :: "nat \<Rightarrow> jsstring"

definition getSupportedAudioMimeType :: "audio_platform \<Rightarrow> jsstring option" where
  "getSupportedAudioMimeType p =
     (if ap_supported p then find (ap_isTypeSupported p) AUDIO_MIME_TYPE_CANDIDATES else None)"

definition getFileExtension :: "jsstring \<Rightarrow> jsstring" where
  "getFileExtension mimeType =
     (if js_includes mimeType (js ''ogg'') then js ''ogg'' else if js_includes mimeType (js ''mp4'') then js ''m4a'' else js ''webm'')"

definition pad2 :: "nat \<Rightarrow> jsstring" where
  "pad2 n = (let t = nat_digits n in replicate (2 - length t) 0x30 @ t)"

definition createRecordedFile :: "audio_platform \<Rightarrow> nat list \<Rightarrow> jsstring \<Rightarrow> int \<Rightarrow> js_file" where
  "createRecordedFile p blob mimeType now =
     (let (year, month, day, hour, minute, second) = ap_local p now in
      \<lparr>file_name = js ''voice-note-'' @ nat_digits year @ pad2 month @ pad2 day @ js ''-'' @ pad2 hour @ pad2 minute @ pad2 second @
         js ''.'' @ getFileExtension mimeType,
       file_type = mimeType, file_bytes = blob\<rparr>)"

section \<open>State\<close>

text \<open>
  The first part is the state and the references of the hook; a recorder is named by the request it was made for. Then the
  platform: the streams whose tracks run, the requests it has not answered, the recorders that have not stopped and those
  of them that are active; and what the hook has handed to its callbacks.
\<close>

record audio =
  au_status :: AudioRecorderStatus
  au_elapsedSeconds :: int
  au_error :: "jsstring option"
  au_recordingStream :: "nat option"
  au_recorder :: "nat option"
  au_stream :: "nat option"
  au_chunks :: "nat list list"
  au_startedAt :: "int option"
  au_timer :: bool
  au_mimeType :: jsstring
  au_mode :: AudioRecordingCompleteMode
  au_requestId :: nat
  au_mounted :: bool
  au_live :: "nat list"
  au_pending :: "nat list"
  au_recorders :: "nat list"
  au_active :: "nat list"
  au_complete :: "(LocalFile \<times> AudioRecordingCompleteMode) list"
  au_empty :: "AudioRecordingCompleteMode list"

definition stop_tracks :: "nat \<Rightarrow> audio \<Rightarrow> audio" where
  "stop_tracks i s = s\<lparr>au_live := removeAll i (au_live s)\<rparr>"

definition cleanupTimer :: "audio \<Rightarrow> audio" where
  "cleanupTimer s = s\<lparr>au_timer := False\<rparr>"

definition cleanupStream :: "audio \<Rightarrow> audio" where
  "cleanupStream s =
     (case au_stream s of None \<Rightarrow> s | Some i \<Rightarrow> stop_tracks i s)\<lparr>au_stream := None, au_recordingStream := None\<rparr>"

definition resetRecorderRefs :: "audio \<Rightarrow> audio" where
  "resetRecorderRefs s = (cleanupStream (cleanupTimer s))\<lparr>au_recorder := None, au_chunks := [], au_startedAt := None\<rparr>"

definition unsupported_text :: jsstring where
  "unsupported_text = js ''Audio recording is not supported in this browser.''"

definition first_mount :: "audio_platform \<Rightarrow> audio" where
  "first_mount p =
     \<lparr>au_status = (if ap_supported p then rec_idle else rec_unsupported), au_elapsedSeconds = 0,
      au_error = (if ap_supported p then None else Some unsupported_text), au_recordingStream = None, au_recorder = None,
      au_stream = None, au_chunks = [], au_startedAt = None, au_timer = False, au_mimeType = FALLBACK_AUDIO_MIME_TYPE,
      au_mode = mode_attach, au_requestId = 0, au_mounted = True, au_live = [], au_pending = [], au_recorders = [],
      au_active = [], au_complete = [], au_empty = []\<rparr>"

definition unmount :: "audio_platform \<Rightarrow> audio \<Rightarrow> audio" where
  "unmount p s = (if ap_supported p then resetRecorderRefs s else s)\<lparr>au_mounted := False\<rparr>"

section \<open>Operations\<close>

text \<open>\<^verbatim>\<open>startRecording\<close> up to the answer of the platform.\<close>

definition startRecording :: "audio_platform \<Rightarrow> audio \<Rightarrow> audio" where
  "startRecording p s =
     (let requestId = au_requestId s + 1; s = s\<lparr>au_requestId := requestId\<rparr> in
      if \<not> ap_supported p then s\<lparr>au_status := rec_unsupported, au_error := Some unsupported_text\<rparr>
      else s\<lparr>au_error := None, au_status := rec_requesting_permission, au_elapsedSeconds := 0,
             au_pending := au_pending s @ [requestId]\<rparr>)"

text \<open>What is caught after the request, or anything after it, throws.\<close>

definition start_failed :: "nat \<Rightarrow> bool \<Rightarrow> audio \<Rightarrow> audio" where
  "start_failed requestId permissionDenied s =
     (if au_requestId s \<noteq> requestId then s
      else resetRecorderRefs (s\<lparr>au_status := rec_error,
        au_error := Some (js (if permissionDenied then ''Microphone permission was denied.'' else ''Failed to start audio recording.''))\<rparr>))"

text \<open>
  The platform grants a stream; making the recorder and starting it may each throw.
\<close>

definition media_granted :: "audio_platform \<Rightarrow> nat \<Rightarrow> nat \<Rightarrow> bool \<Rightarrow> bool \<Rightarrow> int \<Rightarrow> audio \<Rightarrow> audio" where
  "media_granted p requestId stream makes starts now s =
     (let s = s\<lparr>au_pending := removeAll requestId (au_pending s), au_live := au_live s @ [stream]\<rparr> in
      if au_requestId s \<noteq> requestId then stop_tracks stream s
      else if \<not> makes then start_failed requestId False s
      else
        let mimeType = (case getSupportedAudioMimeType p of Some t \<Rightarrow> t | None \<Rightarrow> FALLBACK_AUDIO_MIME_TYPE);
            s = s\<lparr>au_mimeType := mimeType, au_stream := Some stream, au_recordingStream := Some stream,
                  au_recorder := Some requestId, au_chunks := []\<rparr>
        in if \<not> starts then start_failed requestId False s
           else s\<lparr>au_recorders := au_recorders s @ [requestId], au_active := au_active s @ [requestId],
                  au_startedAt := Some now, au_status := rec_recording, au_timer := True\<rparr>)"

definition media_refused :: "nat \<Rightarrow> bool \<Rightarrow> audio \<Rightarrow> audio" where
  "media_refused requestId permissionDenied s =
     start_failed requestId permissionDenied (s\<lparr>au_pending := removeAll requestId (au_pending s)\<rparr>)"

text \<open>The listeners of a recorder.\<close>

definition data_available :: "nat \<Rightarrow> nat list \<Rightarrow> audio \<Rightarrow> audio" where
  "data_available requestId chunk s =
     (if au_requestId s \<noteq> requestId then s
      else if length chunk > 0 then s\<lparr>au_chunks := au_chunks s @ [chunk]\<rparr> else s)"

definition duration_of :: "int option \<Rightarrow> int \<Rightarrow> int" where
  "duration_of startedAt now =
     (case startedAt of None \<Rightarrow> 0 | Some t \<Rightarrow> if t = 0 then 0 else max 0 ((now - t + 500) div 1000))"

definition recorder_stopped :: "audio_platform \<Rightarrow> nat \<Rightarrow> int \<Rightarrow> audio \<Rightarrow> audio" where
  "recorder_stopped p requestId now s =
     (let s = s\<lparr>au_recorders := removeAll requestId (au_recorders s), au_active := removeAll requestId (au_active s)\<rparr> in
      if au_requestId s \<noteq> requestId then s
      else
        let durationSeconds = duration_of (au_startedAt s) now; blob = concat (au_chunks s); completionMode = au_mode s;
            s = s\<lparr>au_mode := mode_attach\<rparr>
        in if blob = [] then
             resetRecorderRefs (s\<lparr>au_elapsedSeconds := 0, au_error := None, au_status := rec_idle,
               au_empty := au_empty s @ [completionMode]\<rparr>)
           else
             let localFile = \<lparr>lf_file = createRecordedFile p blob (au_mimeType s) now, lf_previewUrl = ap_blobUrl p (length (au_complete s)),
                   lf_origin = Some audio_recording, lf_audioMeta = Some (of_int durationSeconds), lf_motionMedia = None,
                   lf_mediaMetadata = None\<rparr>
             in resetRecorderRefs (s\<lparr>au_complete := au_complete s @ [(localFile, completionMode)], au_elapsedSeconds := 0,
               au_error := None, au_status := rec_idle\<rparr>))"

definition interval_tick :: "int \<Rightarrow> audio \<Rightarrow> audio" where
  "interval_tick now s =
     (case au_startedAt s of
        Some t \<Rightarrow> if au_timer s \<and> t \<noteq> 0 then s\<lparr>au_elapsedSeconds := max 0 ((now - t) div 1000)\<rparr> else s
      | None \<Rightarrow> s)"

definition stopRecording :: "AudioRecordingCompleteMode \<Rightarrow> audio \<Rightarrow> audio \<times> bool" where
  "stopRecording mode s =
     (case au_recorder s of
        None \<Rightarrow> (s, False)
      | Some r \<Rightarrow>
          if r \<notin> set (au_active s) then (s, False)
          else ((cleanupTimer (s\<lparr>au_mode := mode\<rparr>))\<lparr>au_active := removeAll r (au_active s)\<rparr>, True))"

definition resetRecording :: "audio \<Rightarrow> audio" where
  "resetRecording s =
     (resetRecorderRefs (s\<lparr>au_requestId := au_requestId s + 1, au_mode := mode_attach\<rparr>))
       \<lparr>au_elapsedSeconds := 0, au_error := None, au_status := rec_idle\<rparr>"

definition isBusy :: "audio \<Rightarrow> bool" where
  "isBusy s \<longleftrightarrow> au_status s = rec_recording \<or> au_status s = rec_requesting_permission"

section \<open>Steps\<close>

datatype audio_event =
    click_start
  | click_stop AudioRecordingCompleteMode
  | click_cancel
  | granted nat nat bool bool int
  | refused nat bool
  | chunk_ready nat "nat list"
  | stopped nat int
  | ticked int
  | unmounted

text \<open>The microphone button does nothing while the recorder is busy.\<close>

fun audio_step :: "audio_platform \<Rightarrow> audio \<Rightarrow> audio_event \<Rightarrow> audio" where
  "audio_step p s click_start = (if isBusy s then s else startRecording p s)"
| "audio_step p s (click_stop mode) = fst (stopRecording mode s)"
| "audio_step p s click_cancel = resetRecording s"
| "audio_step p s (granted r i makes starts now) = media_granted p r i makes starts now s"
| "audio_step p s (refused r denied) = media_refused r denied s"
| "audio_step p s (chunk_ready r chunk) = data_available r chunk s"
| "audio_step p s (stopped r now) = recorder_stopped p r now s"
| "audio_step p s (ticked now) = interval_tick now s"
| "audio_step p s unmounted = unmount p s"

text \<open>
  What the platform keeps to: it answers a request once, with a stream that does not run yet, and a recorder it has made stops
  once. Clicks come from an open editor, and an editor goes once.
\<close>

fun audio_ok :: "audio \<Rightarrow> audio_event \<Rightarrow> bool" where
  "audio_ok s (granted r i makes starts now) = (r \<in> set (au_pending s) \<and> i \<notin> set (au_live s))"
| "audio_ok s (refused r denied) = (r \<in> set (au_pending s))"
| "audio_ok s (chunk_ready r chunk) = (r \<in> set (au_recorders s))"
| "audio_ok s (stopped r now) = (r \<in> set (au_recorders s))"
| "audio_ok s (ticked now) = True"
| "audio_ok s unmounted = au_mounted s"
| "audio_ok s _ = au_mounted s"

section \<open>The microphone\<close>

text \<open>
  The streams no recorder could be made for when they were granted last, and the streams granted after the editor has gone.
\<close>

fun unmade_after :: "nat set \<Rightarrow> audio_event \<Rightarrow> nat set" where
  "unmade_after U (granted r i makes starts now) = (if makes then U - {i} else Set.insert i U)"
| "unmade_after U e = U"


fun granted_stream :: "audio_event \<Rightarrow> nat set" where
  "granted_stream (granted r i makes starts now) = {i}"
| "granted_stream e = {}"


text \<open>
  Apart from the streams \<open>U\<close>, the tracks that run are those of the stream in the reference of the hook; while there is one the
  recorder records, in an open editor unless the stream is one of \<open>L\<close>.
\<close>

definition mic_inv :: "audio_platform \<Rightarrow> nat set \<Rightarrow> nat set \<Rightarrow> audio \<Rightarrow> bool" where
  "mic_inv p U L s \<longleftrightarrow> distinct (au_live s) \<and> set (au_live s) - U \<subseteq> set_option (au_stream s) \<and>
     (au_recorder s = None \<longleftrightarrow> au_stream s = None) \<and>
     (\<forall>i. au_stream s = Some i \<longrightarrow> au_status s = rec_recording \<and> au_requestId s \<notin> set (au_pending s) \<and> (au_mounted s \<or> i \<in> L)) \<and>
     (\<forall>r \<in> set (au_pending s). r \<le> au_requestId s \<and> r \<notin> set (au_recorders s)) \<and>
     (\<forall>r \<in> set (au_recorders s). r \<le> au_requestId s) \<and>
     (au_requestId s \<in> set (au_pending s) \<longrightarrow> au_status s = rec_requesting_permission) \<and>
     ((au_mounted s \<or> au_requestId s \<in> set (au_pending s)) \<and> au_recorder s = None \<longrightarrow> au_mode s = mode_attach) \<and>
     (\<not> ap_supported p \<longrightarrow> au_pending s = [] \<and> au_stream s = None)"

lemma reset_simps [simp]:
  "au_stream (resetRecorderRefs s) = None" "au_recorder (resetRecorderRefs s) = None" "au_chunks (resetRecorderRefs s) = []"
  "au_status (resetRecorderRefs s) = au_status s" "au_mounted (resetRecorderRefs s) = au_mounted s"
  "au_requestId (resetRecorderRefs s) = au_requestId s" "au_pending (resetRecorderRefs s) = au_pending s"
  "au_recorders (resetRecorderRefs s) = au_recorders s" "au_mode (resetRecorderRefs s) = au_mode s"
  "au_active (resetRecorderRefs s) = au_active s" "au_complete (resetRecorderRefs s) = au_complete s"
  "au_empty (resetRecorderRefs s) = au_empty s"
  "au_live (resetRecorderRefs s) = (case au_stream s of None \<Rightarrow> au_live s | Some i \<Rightarrow> removeAll i (au_live s))"
  by (simp_all add: resetRecorderRefs_def cleanupStream_def cleanupTimer_def stop_tracks_def split: option.split)

lemma first_mount_inv: "mic_inv p {} {} (first_mount p)"
  by (simp add: mic_inv_def first_mount_def)

lemma request_inv: "mic_inv p U L s \<Longrightarrow> au_mounted s \<Longrightarrow> \<not> isBusy s \<Longrightarrow> mic_inv p U L (startRecording p s)"
  by (auto simp: mic_inv_def isBusy_def startRecording_def Let_def)

lemma stop_inv: "mic_inv p U L s \<Longrightarrow> mic_inv p U L (fst (stopRecording mode s))"
  by (auto simp: mic_inv_def stopRecording_def cleanupTimer_def split: option.splits)

lemma cancel_inv: "mic_inv p U L s \<Longrightarrow> mic_inv p U L (resetRecording s)"
  by (auto simp: mic_inv_def resetRecording_def distinct_removeAll split: option.splits)

lemma granted_inv:
  assumes "mic_inv p U L s" "r \<in> set (au_pending s)" "i \<notin> set (au_live s)"
  shows "mic_inv p (if makes then U - {i} else Set.insert i U) (if au_mounted s then L else Set.insert i L)
    (media_granted p r i makes starts now s)"
proof (cases "au_requestId s = r")
  case True
  then have "set (au_live s) \<subseteq> U" "au_stream s = None" "au_recorder s = None" "ap_supported p" "au_mode s = mode_attach"
    using assms(1,2) by (auto simp: mic_inv_def)
  then show ?thesis
    using assms True by (auto simp: mic_inv_def media_granted_def start_failed_def distinct_removeAll Let_def)
next
  case False
  have "removeAll i (au_live s) = au_live s" using assms(3) by (rule removeAll_id)
  then show ?thesis
    using assms False by (auto simp: mic_inv_def media_granted_def stop_tracks_def Let_def)
qed

lemma refused_inv: "mic_inv p U L s \<Longrightarrow> r \<in> set (au_pending s) \<Longrightarrow> mic_inv p U L (media_refused r denied s)"
  by (auto simp: mic_inv_def media_refused_def start_failed_def distinct_removeAll split: option.splits)

lemma stopped_inv: "mic_inv p U L s \<Longrightarrow> r \<in> set (au_recorders s) \<Longrightarrow> mic_inv p U L (recorder_stopped p r now s)"
  by (auto simp: mic_inv_def recorder_stopped_def distinct_removeAll Let_def split: option.splits)

lemma unmount_inv: "mic_inv p U L s \<Longrightarrow> mic_inv p U L (unmount p s)"
  by (auto simp: mic_inv_def unmount_def distinct_removeAll split: option.splits)

lemma audio_step_inv:
  "mic_inv p U L s \<Longrightarrow> audio_ok s e \<Longrightarrow>
   mic_inv p (unmade_after U e) (if au_mounted s then L else L \<union> granted_stream e) (audio_step p s e)"
proof (induction p s e rule: audio_step.induct)
  case start: (1 p s)
  then show ?case by (simp add: request_inv)
next
  case chunk: (6 p s r chunk)
  then show ?case by (auto simp: data_available_def mic_inv_def)
next
  case tick: (8 p s now)
  then show ?case by (auto simp: interval_tick_def mic_inv_def split: option.split)
next
  case grant: (4 p s r i makes starts now)
  then show ?case using granted_inv [of p U L s r i makes starts now] by (cases makes; cases "au_mounted s") simp_all
qed (simp_all add: stop_inv cancel_inv refused_inv stopped_inv unmount_inv)

interpretation recorder_runs: reducer "audio_step p" audio_ok "\<lambda>s. \<exists>U L. mic_inv p U L s"
  by unfold_locales (blast intro: audio_step_inv)








section \<open>The recording\<close>

text \<open>What happens while a recording lasts; other requests and recorders are of no account.\<close>

fun during :: "nat \<Rightarrow> audio_event \<Rightarrow> bool" where
  "during r click_cancel = False"
| "during r unmounted = False"
| "during r (granted q i makes starts now) = (q \<noteq> r)"
| "during r (refused q denied) = (q \<noteq> r)"
| "during r (stopped q now) = (q \<noteq> r)"
| "during r _ = True"

fun recorded :: "nat \<Rightarrow> audio_event list \<Rightarrow> nat list" where
  "recorded r [] = []"
| "recorded r (chunk_ready q chunk # es) = (if q = r then chunk @ recorded r es else recorded r es)"
| "recorded r (e # es) = recorded r es"

text \<open>The first click that stops it says what the recording is for.\<close>

fun chosen_mode :: "audio_event list \<Rightarrow> AudioRecordingCompleteMode" where
  "chosen_mode [] = mode_attach"
| "chosen_mode (click_stop mode # es) = mode"
| "chosen_mode (e # es) = chosen_mode es"

definition recording_of :: "nat \<Rightarrow> audio \<Rightarrow> bool" where
  "recording_of r s \<longleftrightarrow> au_requestId s = r \<and> au_status s = rec_recording \<and> au_recorder s = Some r"

lemma recording_step:
  assumes "recording_of r s" "during r e"
  shows "recording_of r (audio_step p s e) \<and> concat (au_chunks (audio_step p s e)) = concat (au_chunks s) @ recorded r [e] \<and>
    au_complete (audio_step p s e) = au_complete s \<and> au_empty (audio_step p s e) = au_empty s \<and>
    au_mimeType (audio_step p s e) = au_mimeType s \<and> au_startedAt (audio_step p s e) = au_startedAt s \<and>
    (r \<in> set (au_active s) \<longrightarrow> r \<in> set (au_active (audio_step p s e)) \<and> au_mode (audio_step p s e) = au_mode s \<or>
       r \<notin> set (au_active (audio_step p s e)) \<and> e = click_stop (au_mode (audio_step p s e))) \<and>
    (r \<notin> set (au_active s) \<longrightarrow> r \<notin> set (au_active (audio_step p s e)) \<and> au_mode (audio_step p s e) = au_mode s) \<and>
    (r \<in> set (au_active (audio_step p s e)) \<longrightarrow> (\<forall>mode. e \<noteq> click_stop mode))"
  using assms
  by (cases e) (auto simp: recording_of_def isBusy_def stopRecording_def cleanupTimer_def media_granted_def media_refused_def
      start_failed_def stop_tracks_def data_available_def recorder_stopped_def interval_tick_def Let_def split: option.splits)

lemma recorded_Cons: "recorded r (e # es) = recorded r [e] @ recorded r es"
  by (cases e) simp_all

lemma chosen_Cons: "\<forall>mode. e \<noteq> click_stop mode \<Longrightarrow> chosen_mode (e # es) = chosen_mode es"
  by (cases e) auto

lemma recording_run:
  assumes "recording_of r s" "\<forall>e \<in> set es. during r e" "s' = foldl (audio_step p) s es"
  shows "recording_of r s' \<and> concat (au_chunks s') = concat (au_chunks s) @ recorded r es \<and>
    au_complete s' = au_complete s \<and> au_empty s' = au_empty s \<and> au_mimeType s' = au_mimeType s \<and> au_startedAt s' = au_startedAt s \<and>
    (r \<notin> set (au_active s) \<longrightarrow> au_mode s' = au_mode s) \<and>
    (r \<in> set (au_active s) \<and> au_mode s = mode_attach \<longrightarrow> au_mode s' = chosen_mode es)"
  using assms
proof (induction es arbitrary: s)
  case (Cons e es)
  let ?t = "audio_step p s e"
  have step: "recording_of r ?t" "concat (au_chunks ?t) = concat (au_chunks s) @ recorded r [e]" "au_complete ?t = au_complete s"
      "au_empty ?t = au_empty s" "au_mimeType ?t = au_mimeType s" "au_startedAt ?t = au_startedAt s"
      "r \<in> set (au_active s) \<longrightarrow> r \<in> set (au_active ?t) \<and> au_mode ?t = au_mode s \<or>
         r \<notin> set (au_active ?t) \<and> e = click_stop (au_mode ?t)"
      "r \<notin> set (au_active s) \<longrightarrow> r \<notin> set (au_active ?t) \<and> au_mode ?t = au_mode s"
      "r \<in> set (au_active ?t) \<longrightarrow> (\<forall>mode. e \<noteq> click_stop mode)"
    using recording_step [OF Cons.prems(1), of e p] Cons.prems(2) by simp_all
  have "s' = foldl (audio_step p) ?t es" using Cons.prems(3) by simp
  note run = Cons.IH [OF step(1) _ this]
  have rest: "recording_of r s'" "concat (au_chunks s') = concat (au_chunks s) @ recorded r (e # es)" "au_complete s' = au_complete s"
      "au_empty s' = au_empty s" "au_mimeType s' = au_mimeType s" "au_startedAt s' = au_startedAt s"
      "r \<notin> set (au_active s) \<longrightarrow> au_mode s' = au_mode s"
    using run Cons.prems(2) step recorded_Cons [of r e es] by simp_all
  have "au_mode s' = chosen_mode (e # es)" if a: "r \<in> set (au_active s)" "au_mode s = mode_attach"
  proof (cases "r \<in> set (au_active ?t)")
    case True
    then have "au_mode ?t = mode_attach" "\<forall>mode. e \<noteq> click_stop mode" using step(7,9) a by auto
    then show ?thesis using run Cons.prems(2) True chosen_Cons by simp
  next
    case False
    then have "e = click_stop (au_mode ?t)" using step(7) a(1) by blast
    then have "chosen_mode (e # es) = au_mode ?t" by (metis chosen_mode.simps(2))
    then show ?thesis using run Cons.prems(2) False by simp
  qed
  then show ?case using rest by blast
qed simp

text \<open>
  C11. A recording is delivered once and whole. When the platform grants the stream of the latest request, then whatever
  happens until its recorder stops, short of a cancel or the end of the editor, nothing is delivered before; at the
  stop the data of that recorder, in the order it came, is delivered as one file, for the purpose of the first click that
  stopped it, or the recording is reported as empty when there was no data. The recorder is idle then.
\<close>

theorem recording_is_delivered_once:
  assumes "legal_run (audio_step p) audio_ok (first_mount p) before" "s0 = foldl (audio_step p) (first_mount p) before"
    and "r = au_requestId s0" "r \<in> set (au_pending s0)" "i \<notin> set (au_live s0)"
    and "\<forall>e \<in> set es. during r e"
    and "s1 = foldl (audio_step p) s0 (granted r i True True t0 # es)" "s2 = audio_step p s1 (stopped r now)"
  shows "au_complete s1 = au_complete s0 \<and> au_empty s1 = au_empty s0 \<and> au_status s2 = rec_idle \<and>
    (if recorded r es = [] then au_complete s2 = au_complete s0 \<and> au_empty s2 = au_empty s0 @ [chosen_mode es]
     else \<exists>file. au_complete s2 = au_complete s0 @ [(file, chosen_mode es)] \<and> au_empty s2 = au_empty s0 \<and>
       file_bytes (lf_file file) = recorded r es \<and> file_type (lf_file file) = au_mimeType s1 \<and> lf_origin file = Some audio_recording \<and>
       lf_audioMeta file = Some (of_int (duration_of (Some t0) now)))"
proof -
  let ?g = "audio_step p s0 (granted r i True True t0)"
  have "\<exists>U L. mic_inv p U L (first_mount p)" using first_mount_inv by blast
  then have "\<exists>U L. mic_inv p U L s0" unfolding assms(2) by (rule recorder_runs.run_inv [OF _ assms(1)])
  then have mode: "au_mode s0 = mode_attach"
    using assms(3,4) by (auto simp: mic_inv_def)
  have g: "recording_of r ?g" "au_chunks ?g = []" "au_complete ?g = au_complete s0" "au_empty ?g = au_empty s0" "au_startedAt ?g = Some t0"
      "r \<in> set (au_active ?g)" "au_mode ?g = mode_attach"
    using assms(3) mode by (simp_all add: recording_of_def media_granted_def Let_def)
  have "s1 = foldl (audio_step p) ?g es" using assms(7) by simp
  note run = recording_run [OF g(1) assms(6) this]
  have s1: "recording_of r s1" "concat (au_chunks s1) = recorded r es" "au_complete s1 = au_complete s0" "au_empty s1 = au_empty s0"
      "au_startedAt s1 = Some t0" "au_mode s1 = chosen_mode es"
    using run g by simp_all
  then show ?thesis
    unfolding assms(8) by (simp add: recording_of_def recorder_stopped_def createRecordedFile_def Let_def split: prod.split)
qed

section \<open>Where a stream is left running\<close>

text \<open>
  An editor that goes while the user is still asked for the microphone: its request number stays the latest, so the grant
  starts a recording no one sees, and the microphone stays on.
\<close>

lemma unmounted_editor_keeps_microphone:
  assumes "ap_supported p"
  shows "let s = foldl (audio_step p) (first_mount p) [click_start, unmounted, granted 1 i True True now]
    in \<not> au_mounted s \<and> au_live s = [i] \<and> au_status s = rec_recording"
  using assms
  by (simp add: first_mount_def isBusy_def startRecording_def unmount_def media_granted_def resetRecorderRefs_def cleanupStream_def
      cleanupTimer_def Let_def)

lemma unmounted_editor_keeps_microphone_witness:
  "au_live (foldl (audio_step \<lparr>ap_supported = True, ap_isTypeSupported = (\<lambda>_. True), ap_local = (\<lambda>_. (2026, 1, 1, 0, 0, 0)), ap_blobUrl = (\<lambda>_. [])\<rparr>)
     (first_mount \<lparr>ap_supported = True, ap_isTypeSupported = (\<lambda>_. True), ap_local = (\<lambda>_. (2026, 1, 1, 0, 0, 0)), ap_blobUrl = (\<lambda>_. [])\<rparr>)
     [click_start, unmounted, granted 1 7 True True 0]) = [7]"
  using unmounted_editor_keeps_microphone [of "\<lparr>ap_supported = True, ap_isTypeSupported = (\<lambda>_. True),
      ap_local = (\<lambda>_. (2026, 1, 1, 0, 0, 0)), ap_blobUrl = (\<lambda>_. [])\<rparr>" 7 0] by (simp add: Let_def)

text \<open>A recorder that cannot be made: the stream is in no reference yet, so the error leaves it running.\<close>

lemma failed_recorder_keeps_microphone:
  assumes "ap_supported p"
  shows "let s = foldl (audio_step p) (first_mount p) [click_start, granted 1 i False True now]
    in au_live s = [i] \<and> au_status s = rec_error"
  using assms
  by (simp add: first_mount_def isBusy_def startRecording_def media_granted_def start_failed_def resetRecorderRefs_def
      cleanupStream_def cleanupTimer_def Let_def)

section \<open>An example\<close>

definition sample_platform :: audio_platform where
  "sample_platform = \<lparr>ap_supported = True, ap_isTypeSupported = (\<lambda>t. t = js ''audio/mp4''),
     ap_local = (\<lambda>_. (2026, 3, 4, 5, 6, 7)), ap_blobUrl = (\<lambda>_. js ''blob:0'')\<rparr>"

definition sample_open :: audio where
  "sample_open = foldl (audio_step sample_platform) (first_mount sample_platform) [click_start]"

lemma sample_asked:
  "legal_run (audio_step sample_platform) audio_ok (first_mount sample_platform) [click_start]"
  "au_requestId sample_open = 1" "au_pending sample_open = [1]" "au_live sample_open = []" "au_complete sample_open = []"
  by (simp_all add: sample_open_def first_mount_def sample_platform_def isBusy_def startRecording_def Let_def)






theorem recording_is_delivered_once_witness:
  "\<exists>file. au_complete (audio_step sample_platform (foldl (audio_step sample_platform) sample_open
      [granted 1 9 True True 1000, chunk_ready 1 [5, 6], click_stop mode_transcribe, chunk_ready 1 [7]]) (stopped 1 2400)) =
      [(file, mode_transcribe)] \<and> file_bytes (lf_file file) = [5, 6, 7] \<and> lf_audioMeta file = Some 1"
proof -
  have data: "recorded 1 [chunk_ready 1 [5, 6], click_stop mode_transcribe, chunk_ready 1 [7]] = [5, 6, 7]"
      "chosen_mode [chunk_ready 1 [5, 6], click_stop mode_transcribe, chunk_ready 1 [7]] = mode_transcribe"
      "duration_of (Some 1000) 2400 = 1" "\<forall>e \<in> set [chunk_ready 1 [5, 6], click_stop mode_transcribe, chunk_ready 1 [7]]. during 1 e"
    by (simp_all add: duration_of_def)
  have asked: "1 = au_requestId sample_open" "1 \<in> set (au_pending sample_open)" "9 \<notin> set (au_live sample_open)"
    using sample_asked by simp_all
  show ?thesis
    using recording_is_delivered_once [OF sample_asked(1) sample_open_def asked data(4) refl refl, of 1000 2400]
    unfolding data(1-3) sample_asked(5) by auto
qed

end
