(* ===== verification/SpaceDirectory.thy ===== *)
theory SpaceDirectory
  imports Json Messages "HOL-Library.Multiset"
begin

text \<open>
  The directory of spaces (\<^verbatim>\<open>utils/space-directory.ts\<close>): the recently opened spaces in the browser's storage, the spaces the
  switcher lists, the search and the sample. The lower case of a text and the random numbers are arguments.
\<close>

section \<open>Spaces\<close>

datatype SpaceMember_Role = member_ROLE_UNSPECIFIED | member_ADMIN | member_USER

datatype Space_AccessMode = ACCESS_MODE_UNSPECIFIED | INVITE_ONLY | access_AUTHENTICATED | access_PUBLIC

record Space =
  sp_name :: jsstring
  sp_title :: jsstring
  sp_description :: jsstring
  sp_currentUserRole :: SpaceMember_Role
  sp_memberCount :: int
  sp_avatarUrl :: jsstring
  sp_accessMode :: Space_AccessMode
  sp_syncToMainFeed :: "bool option"
  sp_urlSlug :: jsstring
  sp_memoCount :: int
  sp_lastActivityTime :: "Timestamp option"

definition SWITCHER_RECENT_LIMIT :: nat where "SWITCHER_RECENT_LIMIT = 6"

definition recentKey :: "jsstring \<Rightarrow> jsstring" where
  "recentKey viewer = js ''memos-recent-spaces:'' @ (if viewer \<noteq> [] then viewer else js ''guest'')"

section \<open>Recent spaces\<close>

definition only_strings :: "json list \<Rightarrow> jsstring list" where
  "only_strings vs = List.map_filter (\<lambda>v. case v of JStr s \<Rightarrow> Some s | _ \<Rightarrow> None) vs"

definition readRecentSpaces :: "(jsstring \<rightharpoonup> jsstring) \<Rightarrow> jsstring \<Rightarrow> jsstring list" where
  "readRecentSpaces storage viewer =
     (case parse_json (case storage (recentKey viewer) of Some raw \<Rightarrow> raw | None \<Rightarrow> js ''[]'') of
        Some (JArr parsed) \<Rightarrow> only_strings parsed
      | _ \<Rightarrow> [])"

text \<open>A storage that accepts no more entries throws, and nothing changes.\<close>

definition recordRecentSpace ::
    "(rat \<Rightarrow> jsstring) \<Rightarrow> bool \<Rightarrow> jsstring \<Rightarrow> jsstring \<Rightarrow> (jsstring \<rightharpoonup> jsstring) \<Rightarrow> (jsstring \<rightharpoonup> jsstring)" where
  "recordRecentSpace number_text accepts viewer spaceName storage =
     (let names = take SWITCHER_RECENT_LIMIT
            (spaceName # filter (\<lambda>name. name \<noteq> spaceName) (readRecentSpaces storage viewer))
      in if accepts then storage(recentKey viewer \<mapsto> stringify number_text (JArr (map JStr names))) else storage)"

section \<open>The switcher\<close>

fun pick_loop :: "(jsstring \<rightharpoonup> Space) \<Rightarrow> Space list \<Rightarrow> jsstring list \<Rightarrow> Space list" where
  "pick_loop spaceByName picked [] = picked"
| "pick_loop spaceByName picked (name # names) =
     (let picked' = (case spaceByName name of
            Some space \<Rightarrow> if space \<notin> set picked then picked @ [space] else picked
          | None \<Rightarrow> picked)
      in if length picked' = SWITCHER_RECENT_LIMIT then picked' else pick_loop spaceByName picked' names)"

definition pickSwitcherSpaces :: "(jsstring \<rightharpoonup> Space) \<Rightarrow> jsstring list \<Rightarrow> jsstring option \<Rightarrow> Space list" where
  "pickSwitcherSpaces spaceByName recent current =
     pick_loop spaceByName [] (case or_undefined current of Some name \<Rightarrow> name # recent | None \<Rightarrow> recent)"

definition isJoinedSpace :: "Space \<Rightarrow> bool" where
  "isJoinedSpace space \<longleftrightarrow> sp_currentUserRole space \<noteq> member_ROLE_UNSPECIFIED"

definition matchesSpace :: "(jsstring \<Rightarrow> jsstring) \<Rightarrow> Space \<Rightarrow> jsstring \<Rightarrow> bool" where
  "matchesSpace toLowerCase space query \<longleftrightarrow>
     (let needle = toLowerCase (trim query) in
      needle = [] \<or> (\<exists>t \<in> set [sp_title space, sp_description space, sp_name space, sp_urlSlug space].
        js_includes (toLowerCase t) needle))"

text \<open>\<open>random n\<close> is the \<open>n\<close>-th random number, at least 0 and below 1.\<close>

function sample_loop :: "(nat \<Rightarrow> rat) \<Rightarrow> nat \<Rightarrow> Space list \<Rightarrow> Space list \<Rightarrow> Space list" where
  "sample_loop random wanted pool picked =
     (if pool \<noteq> [] \<and> length picked < wanted then
        let i = nat \<lfloor>random (length picked) * of_nat (length pool)\<rfloor>
        in sample_loop random wanted (take i pool @ drop (i + 1) pool) (picked @ [pool ! i])
      else picked)"
  by pat_completeness auto
termination by (relation "measure (\<lambda>(_, wanted, _, picked). wanted - length picked)") auto

declare sample_loop.simps [simp del]

definition sampleSpaces :: "(nat \<Rightarrow> rat) \<Rightarrow> Space list \<Rightarrow> nat \<Rightarrow> Space list" where
  "sampleSpaces random spaces wanted = sample_loop random wanted spaces []"

section \<open>What is listed\<close>

text \<open>The opened space comes first, the others keep their order, no name comes twice, and there are at most six.\<close>

lemma only_strings_JStr: "only_strings (map JStr names) = names"
  by (induction names) (auto simp: only_strings_def List.map_filter_def)

lemma recent_is_recorded:
  assumes "code_units spaceName" "\<forall>name \<in> set (readRecentSpaces storage viewer). code_units name"
  shows "readRecentSpaces (recordRecentSpace number_text True viewer spaceName storage) viewer =
    take SWITCHER_RECENT_LIMIT (spaceName # filter (\<lambda>name. name \<noteq> spaceName) (readRecentSpaces storage viewer))"
proof -
  let ?names = "take SWITCHER_RECENT_LIMIT (spaceName # filter (\<lambda>name. name \<noteq> spaceName) (readRecentSpaces storage viewer))"
  have "\<forall>name \<in> set ?names. code_units name" proof
    fix name assume "name \<in> set ?names"
    then have "name \<in> set (spaceName # filter (\<lambda>name. name \<noteq> spaceName) (readRecentSpaces storage viewer))"
      by (rule in_set_takeD)
    then show "code_units name" using assms by auto
  qed
  then have "json_ok number_text (JArr (map JStr ?names))" by simp
  from parse_stringify [OF this] have "parse_json (stringify number_text (JArr (map JStr ?names))) = Some (JArr (map JStr ?names))" .
  then show ?thesis
    unfolding readRecentSpaces_def [of "recordRecentSpace number_text True viewer spaceName storage"]
    by (simp add: recordRecentSpace_def Let_def only_strings_JStr del: stringify.simps)
qed

lemma recent_distinct:
  "distinct names \<Longrightarrow> distinct (take SWITCHER_RECENT_LIMIT (spaceName # filter (\<lambda>name. name \<noteq> spaceName) names))"
  by (simp add: distinct_take)

lemma other_viewer_untouched:
  "recentKey viewer \<noteq> recentKey other \<Longrightarrow>
   readRecentSpaces (recordRecentSpace number_text accepts viewer spaceName storage) other = readRecentSpaces storage other"
  by (simp add: recordRecentSpace_def readRecentSpaces_def Let_def)

text \<open>
  The map is keyed by the names of its spaces, so equal spaces are one object and membership is the source's \<^verbatim>\<open>includes\<close>.
  What is picked is listed, in the order of the names, once each, and at most six.
\<close>

lemma pick_loop_ok:
  assumes "distinct picked" "length picked < SWITCHER_RECENT_LIMIT"
  shows "distinct (pick_loop m picked names) \<and> length (pick_loop m picked names) \<le> SWITCHER_RECENT_LIMIT \<and>
    (\<exists>rest. pick_loop m picked names = picked @ rest \<and> set rest \<subseteq> {s. \<exists>name \<in> set names. m name = Some s})"
  using assms
proof (induction m picked names rule: pick_loop.induct)
  case step: (2 m picked name names)
  define next_picked where "next_picked = (case m name of
      Some space \<Rightarrow> if space \<notin> set picked then picked @ [space] else picked | None \<Rightarrow> picked)"
  have n: "distinct next_picked" "length next_picked \<le> SWITCHER_RECENT_LIMIT"
      "\<exists>rest. next_picked = picked @ rest \<and> set rest \<subseteq> {s. m name = Some s}"
    using step.prems by (auto simp: next_picked_def split: option.split)
  show ?case
  proof (cases "length next_picked = SWITCHER_RECENT_LIMIT")
    case True
    then show ?thesis using n by (auto simp: next_picked_def [symmetric])
  next
    case False
    then have "length next_picked < SWITCHER_RECENT_LIMIT" using n(2) by simp
    from step.IH [OF next_picked_def _ n(1) this] False
    have ih: "distinct (pick_loop m next_picked names)" "length (pick_loop m next_picked names) \<le> SWITCHER_RECENT_LIMIT"
      "\<exists>rest. pick_loop m next_picked names = next_picked @ rest \<and> set rest \<subseteq> {s. \<exists>name \<in> set names. m name = Some s}"
      by auto
    have "pick_loop m picked (name # names) = pick_loop m next_picked names"
      using False by (simp add: next_picked_def [symmetric])
    then show ?thesis using ih n(3) by auto
  qed
qed simp

lemma current_space_first:
  assumes "spaceByName current = Some space" "current \<noteq> []"
  shows "\<exists>rest. pickSwitcherSpaces spaceByName recent (Some current) = space # rest"
  using assms pick_loop_ok [of "[space]" spaceByName recent]
  by (auto simp: pickSwitcherSpaces_def or_undefined_def SWITCHER_RECENT_LIMIT_def Let_def)

text \<open>A sample is part of the spaces, none twice, and as many as asked for or as there are.\<close>

lemma random_index:
  assumes "0 \<le> x" "x < (1::rat)" "xs \<noteq> []"
  shows "nat \<lfloor>x * of_nat (length xs)\<rfloor> < length xs"
proof -
  have "x * of_nat (length xs) < of_nat (length xs)" using assms by simp
  then have "\<lfloor>x * of_nat (length xs)\<rfloor> < int (length xs)" by (simp add: floor_less_iff)
  moreover have "0 < length xs" using assms(3) by simp
  ultimately show ?thesis by linarith
qed

lemma sample_loop_ok:
  assumes "\<forall>n. 0 \<le> random n \<and> random n < 1"
  shows "mset (sample_loop random wanted pool picked) \<subseteq># mset picked + mset pool \<and>
    length (sample_loop random wanted pool picked) = max (length picked) (min wanted (length picked + length pool))"
  using assms
proof (induction random wanted pool picked rule: sample_loop.induct)
  case step: (1 random wanted pool picked)
  show ?case
  proof (cases "pool \<noteq> [] \<and> length picked < wanted")
    case True
    define i where "i = nat \<lfloor>random (length picked) * of_nat (length pool)\<rfloor>"
    have i: "i < length pool" unfolding i_def by (rule random_index) (use step.prems True in auto)
    have pool: "mset pool = add_mset (pool ! i) (mset (take i pool @ drop (i + 1) pool))"
      using arg_cong [OF id_take_nth_drop [OF i], of mset] by simp
    have "sample_loop random wanted pool picked = sample_loop random wanted (take i pool @ drop (i + 1) pool) (picked @ [pool ! i])"
      using True by (subst sample_loop.simps) (simp add: i_def Let_def)
    moreover have "length (take i pool @ drop (i + 1) pool) = length pool - 1" using i by simp
    moreover obtain m where "length pool = Suc m" using True by (cases pool) auto
    ultimately show ?thesis using step.IH [OF True i_def step.prems] pool True by auto
  qed (auto simp: sample_loop.simps [of random wanted pool picked])
qed

lemma sampled_spaces:
  assumes "\<forall>n. 0 \<le> random n \<and> random n < 1"
  shows "mset (sampleSpaces random spaces wanted) \<subseteq># mset spaces" "length (sampleSpaces random spaces wanted) = min wanted (length spaces)"
  using sample_loop_ok [OF assms, of wanted spaces "[]"] by (simp_all add: sampleSpaces_def)

end
