(* ===== verification/SpaceRoutes.thy ===== *)
theory SpaceRoutes
  imports AuthRoutes
begin

text \<open>
  Where a page stands (\<^verbatim>\<open>lib/space-routes.ts\<close>, \<^verbatim>\<open>lib/memo-views.ts\<close>), the audiences of a memo (\<^verbatim>\<open>utils/memo.ts\<close>) and the
  series of a post (\<^verbatim>\<open>utils/memo-series.ts\<close>; its filter is in \<open>MemoFilters\<close>). Unicode lower case and \<^verbatim>\<open>decodeURIComponent\<close> are arguments; icons and labels
  of the audiences are left out.
\<close>

section \<open>Paths\<close>

text \<open>A regular expression's \<^verbatim>\<open>i\<close> flag relates ASCII letters to ASCII letters only.\<close>

definition ascii_fold :: "nat \<Rightarrow> nat" where
  "ascii_fold c = (if 0x41 \<le> c \<and> c \<le> 0x5a then c + 32 else c)"

definition strip_slashes :: "jsstring \<Rightarrow> jsstring" where
  "strip_slashes s = rev (dropWhile (\<lambda>c. c = 0x2f) (rev s))"

definition line_break :: "nat \<Rightarrow> bool" where
  "line_break c \<longleftrightarrow> c \<in> {0x0a, 0x0d, 0x2028, 0x2029}"

record space_route =
  sr_basePath :: jsstring
  sr_pathname :: jsstring

definition getSpaceRoute :: "jsstring \<Rightarrow> space_route option" where
  "getSpaceRoute pathname =
     (let p = strip_slashes pathname;
          after = drop 7 p;
          space = takeWhile (\<lambda>c. c \<noteq> 0x2f) after;
          rest = dropWhile (\<lambda>c. c \<noteq> 0x2f) after
      in if starts_with (map ascii_fold p) (js ''/space/'') \<and> space \<noteq> [] \<and> (\<forall>c \<in> set rest. \<not> line_break c)
         then Some \<lparr>sr_basePath = js ''/space/'' @ space,
                    sr_pathname = (if rest \<noteq> [] then rest else ROUTES EXPLORE)\<rparr>
         else None)"

definition getUnscopedPath :: "jsstring \<Rightarrow> jsstring" where
  "getUnscopedPath pathname = (case getSpaceRoute pathname of Some r \<Rightarrow> sr_pathname r | None \<Rightarrow> pathname)"

definition category_path :: "jsstring \<Rightarrow> bool" where
  "category_path path \<longleftrightarrow> starts_with path (js ''/categories/'') \<and> drop 12 path \<noteq> [] \<and> 0x2f \<notin> set (drop 12 path)"

definition getSpaceNavigationPath :: "jsstring \<Rightarrow> jsstring \<Rightarrow> jsstring option" where
  "getSpaceNavigationPath basePath pathname =
     (let path = (if length pathname > 1 then strip_slashes pathname else pathname) in
      if path = js ''/'' \<or> path = ROUTES EXPLORE then Some basePath
      else if path = ROUTES HOME \<or> path = ROUTES ATTACHMENTS \<or> path = ROUTES READ_LATER \<or> path = ROUTES ROUTE_ARCHIVED \<or>
              category_path path
      then Some (basePath @ path)
      else None)"

section \<open>The scope of a page\<close>

datatype MemoScope = scope_home | scope_explore | scope_archived

definition getMemoViewId :: "jsstring \<Rightarrow> jsstring" where
  "getMemoViewId name = (let parts = split_on 0x2f name in if length parts = 4 then parts ! 3 else name)"

definition cleanPathname :: "jsstring \<Rightarrow> jsstring" where
  "cleanPathname s =
     (let first = takeWhile (\<lambda>c. c \<noteq> 0x3f \<and> c \<noteq> 0x23) s;
          pathname = (if first \<noteq> [] then first else ROUTES HOME)
      in if length pathname > 1 then strip_slashes pathname else pathname)"

definition isMemoScopeRoute :: "(jsstring \<Rightarrow> jsstring) \<Rightarrow> jsstring \<Rightarrow> bool" where
  "isMemoScopeRoute toLowerCase pathname \<longleftrightarrow>
     (let comparablePath = toLowerCase (getUnscopedPath (cleanPathname pathname))
      in comparablePath = ROUTES HOME \<or> comparablePath = ROUTES EXPLORE \<or> comparablePath = ROUTES ROUTE_ARCHIVED)"

definition getMemoScopePath :: "MemoScope \<Rightarrow> jsstring" where
  "getMemoScopePath scope = (if scope = scope_explore then ROUTES EXPLORE else ROUTES HOME)"

record ResolveMemoScopeOptions =
  rs_currentUsername :: "jsstring option"
  rs_detailFrom :: "jsstring option"
  rs_memoArchived :: "bool option"
  rs_fallback :: "MemoScope option"

definition profile_name :: "jsstring \<Rightarrow> jsstring option" where
  "profile_name path =
     (let name = drop 3 path
      in if starts_with (map ascii_fold path) (js ''/u/'') \<and> name \<noteq> [] \<and> 0x2f \<notin> set name then Some name else None)"

text \<open>
  \<open>None\<close> stands for the exception of \<^verbatim>\<open>decodeURIComponent\<close> on a malformed escape. The call for the page a memo was
  opened from passes no such page on, so one call more is all there can be: \<open>again\<close> is that call.
\<close>

definition scope_step ::
    "(jsstring \<Rightarrow> jsstring) \<Rightarrow> (jsstring \<Rightarrow> jsstring option) \<Rightarrow> (jsstring \<Rightarrow> ResolveMemoScopeOptions \<Rightarrow> MemoScope option) \<Rightarrow>
     jsstring \<Rightarrow> ResolveMemoScopeOptions \<Rightarrow> MemoScope option" where
  "scope_step toLowerCase decode again pathname options =
     (let cleanPath = getUnscopedPath (cleanPathname pathname);
          comparablePath = toLowerCase cleanPath;
          fallback = (case rs_fallback options of Some f \<Rightarrow> f | None \<Rightarrow> scope_explore)
      in if comparablePath = ROUTES EXPLORE then Some scope_explore
         else if comparablePath = ROUTES ROUTE_ARCHIVED then Some scope_archived
         else if comparablePath = ROUTES HOME then Some scope_home
         else (case profile_name cleanPath of
             Some name \<Rightarrow>
               (case or_undefined (rs_currentUsername options) of
                  None \<Rightarrow> Some scope_explore
                | Some user \<Rightarrow> (case decode name of
                      None \<Rightarrow> None
                    | Some decoded \<Rightarrow> Some (if decoded = user then scope_home else scope_explore)))
           | None \<Rightarrow>
               if starts_with comparablePath (js ''/memos/'') then
                 (case or_undefined (rs_detailFrom options) of
                    Some from_page \<Rightarrow> again from_page \<lparr>rs_currentUsername = rs_currentUsername options, rs_detailFrom = None,
                                         rs_memoArchived = None, rs_fallback = rs_fallback options\<rparr>
                  | None \<Rightarrow> Some (if rs_memoArchived options = Some True then scope_archived else fallback))
               else Some fallback))"

definition resolveMemoScope ::
    "(jsstring \<Rightarrow> jsstring) \<Rightarrow> (jsstring \<Rightarrow> jsstring option) \<Rightarrow> jsstring \<Rightarrow> ResolveMemoScopeOptions \<Rightarrow> MemoScope option" where
  "resolveMemoScope toLowerCase decode =
     scope_step toLowerCase decode (scope_step toLowerCase decode (\<lambda>_ _. None))"

section \<open>Audiences\<close>

record VisibilityOption =
  vo_value :: Visibility
  vo_name :: jsstring
  vo_requiresSpace :: bool

definition VISIBILITY_OPTIONS :: "VisibilityOption list" where
  "VISIBILITY_OPTIONS =
     [\<lparr>vo_value = PRIVATE, vo_name = js ''PRIVATE'', vo_requiresSpace = False\<rparr>,
      \<lparr>vo_value = SPACE, vo_name = js ''SPACE'', vo_requiresSpace = True\<rparr>,
      \<lparr>vo_value = PROTECTED, vo_name = js ''PROTECTED'', vo_requiresSpace = False\<rparr>,
      \<lparr>vo_value = PUBLIC, vo_name = js ''PUBLIC'', vo_requiresSpace = False\<rparr>]"

definition getVisibilityOption :: "Visibility \<Rightarrow> VisibilityOption option" where
  "getVisibilityOption visibility = find (\<lambda>opt. vo_value opt = visibility) VISIBILITY_OPTIONS"

definition getAssignableVisibilityOptions :: "bool \<Rightarrow> Visibility option \<Rightarrow> VisibilityOption list" where
  "getAssignableVisibilityOptions hasSpacePlacement current =
     filter (\<lambda>opt. \<not> vo_requiresSpace opt \<or> hasSpacePlacement \<or> Some (vo_value opt) = current) VISIBILITY_OPTIONS"

definition DEFAULT_VISIBILITY_OPTIONS :: "VisibilityOption list" where
  "DEFAULT_VISIBILITY_OPTIONS = filter (\<lambda>opt. \<not> vo_requiresSpace opt) VISIBILITY_OPTIONS"

definition convertVisibilityFromString :: "jsstring \<Rightarrow> Visibility" where
  "convertVisibilityFromString visibility =
     (case find (\<lambda>opt. vo_name opt = visibility) VISIBILITY_OPTIONS of Some opt \<Rightarrow> vo_value opt | None \<Rightarrow> PUBLIC)"

definition convertVisibilityToString :: "Visibility \<Rightarrow> jsstring" where
  "convertVisibilityToString visibility =
     (case getVisibilityOption visibility of Some opt \<Rightarrow> vo_name opt | None \<Rightarrow> js ''PRIVATE'')"

section \<open>Series\<close>

definition SERIES_TAG_PREFIXES :: "jsstring list" where
  "SERIES_TAG_PREFIXES = [[0x7cfb, 0x5217, 0x2f], js ''series/'']"

definition seriesTagOf :: "(jsstring \<Rightarrow> jsstring) \<Rightarrow> jsstring list \<Rightarrow> jsstring option" where
  "seriesTagOf toLowerCase tags =
     find (\<lambda>tag. \<exists>p \<in> set SERIES_TAG_PREFIXES. starts_with (toLowerCase tag) p \<and> length tag > length p) tags"

text \<open>A tag without a slash has index -1, and the slice from 0 is the tag.\<close>

definition seriesNameOf :: "jsstring \<Rightarrow> jsstring" where
  "seriesNameOf tag = (if 0x2f \<in> set tag then tl (dropWhile (\<lambda>c. c \<noteq> 0x2f) tag) else tag)"

definition seriesWindow :: "int \<Rightarrow> int \<Rightarrow> int \<Rightarrow> int \<times> int" where
  "seriesWindow posts current width =
     (if posts \<le> width then (0, posts)
      else let start = min (max 0 (current - width div 2)) (posts - width) in (start, start + width))"

section \<open>Properties\<close>

text \<open>A path inside a space is read back: the space stays the same and so does the page.\<close>

lemma strip_slashes_id: "s = [] \<or> last s \<noteq> 0x2f \<Longrightarrow> strip_slashes s = s"
  by (cases s rule: rev_cases) (auto simp: strip_slashes_def)

lemma strip_slashes_last: "strip_slashes s = [] \<or> last (strip_slashes s) \<noteq> 0x2f"
proof (cases "dropWhile (\<lambda>c. c = 0x2f) (rev s)")
  case rest: (Cons c t)
  then have "c \<noteq> 0x2f" using hd_dropWhile [of "\<lambda>c. c = 0x2f" "rev s"] by simp
  then show ?thesis using rest by (simp add: strip_slashes_def)
qed (simp add: strip_slashes_def)

lemma route_of_space_path:
  assumes "space \<noteq> []" "0x2f \<notin> set space" "page = [] \<or> hd page = 0x2f \<and> last page \<noteq> 0x2f" "\<forall>c \<in> set page. \<not> line_break c"
  shows "getSpaceRoute (js ''/space/'' @ space @ page) =
    Some \<lparr>sr_basePath = js ''/space/'' @ space, sr_pathname = (if page \<noteq> [] then page else ROUTES EXPLORE)\<rparr>"
proof -
  have "last (js ''/space/'' @ space @ page) \<noteq> 0x2f"
    using assms by (cases page rule: rev_cases) (auto dest: last_in_set)
  then have s: "strip_slashes (js ''/space/'' @ space @ page) = js ''/space/'' @ space @ page"
    by (intro strip_slashes_id) simp
  have d: "drop 7 (js ''/space/'' @ space @ page) = space @ page" by (simp add: js_str)
  have a: "\<And>x. x \<in> set space \<Longrightarrow> x \<noteq> 0x2f" using assms(2) by auto
  have t: "takeWhile (\<lambda>c. c \<noteq> 0x2f) (space @ page) = space" "dropWhile (\<lambda>c. c \<noteq> 0x2f) (space @ page) = page"
    using assms(3) a by (cases page; simp add: takeWhile_append2 dropWhile_append2)+
  have f: "starts_with (map ascii_fold (js ''/space/'' @ space @ page)) (js ''/space/'')"
    by (simp add: js_str ascii_fold_def)
  show ?thesis unfolding getSpaceRoute_def Let_def s d t using f assms(1,4) by simp
qed

text \<open>Following a link inside a space keeps the space, and the page is the one the link names.\<close>

definition linked_page :: "jsstring \<Rightarrow> jsstring" where
  "linked_page pathname =
     (let path = (if length pathname > 1 then strip_slashes pathname else pathname)
      in if path = js ''/'' then ROUTES EXPLORE else path)"

lemma strip_slashes_set: "set (strip_slashes s) \<subseteq> set s"
  by (auto simp: strip_slashes_def dest: set_dropWhileD)

lemma category_path_shape: "category_path path \<Longrightarrow> hd path = 0x2f \<and> last path \<noteq> 0x2f \<and> path \<noteq> []"
proof -
  assume c: "category_path path"
  then have "drop 12 path \<noteq> []" "0x2f \<notin> set (drop 12 path)" by (simp_all add: category_path_def)
  then have "last path \<noteq> 0x2f" by (metis last_drop last_in_set length_drop length_greater_0_conv zero_less_diff)
  moreover have "hd path = 0x2f" "path \<noteq> []"
    using c by (cases path; simp add: category_path_def js_str)+
  ultimately show ?thesis by simp
qed

lemma links_stay_in_space:
  assumes "space \<noteq> []" "0x2f \<notin> set space" "\<forall>c \<in> set pathname. \<not> line_break c"
    and link: "getSpaceNavigationPath (js ''/space/'' @ space) pathname = Some target"
  shows "getSpaceRoute target = Some \<lparr>sr_basePath = js ''/space/'' @ space, sr_pathname = linked_page pathname\<rparr>"
proof -
  define path where "path = (if length pathname > 1 then strip_slashes pathname else pathname)"
  have sub: "\<forall>c \<in> set path. \<not> line_break c" using assms(3) strip_slashes_set by (auto simp: path_def)
  have page: "linked_page pathname = (if path = js ''/'' then ROUTES EXPLORE else path)"
    by (simp only: linked_page_def Let_def path_def)
  note nav = link [unfolded getSpaceNavigationPath_def Let_def path_def [symmetric]]
  show ?thesis
  proof (cases "path = js ''/'' \<or> path = ROUTES EXPLORE")
    case True
    then have "target = js ''/space/'' @ space @ []" using nav by simp
    moreover have "linked_page pathname = ROUTES EXPLORE" unfolding page using True by auto
    ultimately show ?thesis using route_of_space_path [of space "[]"] assms(1,2) by simp
  next
    case False
    then have t: "target = js ''/space/'' @ space @ path"
      and p: "path \<in> {ROUTES HOME, ROUTES ATTACHMENTS, ROUTES READ_LATER, ROUTES ROUTE_ARCHIVED} \<or> category_path path"
      using nav by (auto split: if_splits)
    have "hd path = 0x2f \<and> last path \<noteq> 0x2f \<and> path \<noteq> []"
      using p category_path_shape by (auto simp: js_str)
    moreover have "linked_page pathname = path" using False by (simp add: page)
    ultimately show ?thesis using route_of_space_path [of space path] assms(1,2) sub unfolding t by simp
  qed
qed

text \<open>The page a memo was opened from is asked at most once: the innermost call is never made.\<close>

lemma scope_ends: "resolveMemoScope lower decode pathname options = None \<Longrightarrow> \<exists>name. decode name = None"
  unfolding resolveMemoScope_def scope_step_def Let_def
  by (auto simp: or_undefined_def split: if_splits option.splits)

lemma audience_names_read_back:
  "visibility \<noteq> VISIBILITY_UNSPECIFIED \<Longrightarrow> convertVisibilityFromString (convertVisibilityToString visibility) = visibility"
  by (cases visibility)
    (simp_all add: convertVisibilityFromString_def convertVisibilityToString_def getVisibilityOption_def VISIBILITY_OPTIONS_def js_str)

lemma current_audience_is_offered:
  "current \<noteq> VISIBILITY_UNSPECIFIED \<Longrightarrow> current \<in> vo_value ` set (getAssignableVisibilityOptions placed (Some current))"
  by (cases current) (simp_all add: getAssignableVisibilityOptions_def VISIBILITY_OPTIONS_def)

lemma no_space_audience_outside_spaces:
  "SPACE \<notin> vo_value ` set DEFAULT_VISIBILITY_OPTIONS"
  "current \<noteq> Some SPACE \<Longrightarrow> SPACE \<notin> vo_value ` set (getAssignableVisibilityOptions False current)"
  by (auto simp: DEFAULT_VISIBILITY_OPTIONS_def getAssignableVisibilityOptions_def VISIBILITY_OPTIONS_def)

text \<open>The collapsed list stays inside the series, has the asked length, and shows the current post.\<close>

lemma series_window_shows_current:
  assumes "0 \<le> current" "current < posts" "0 < width"
  shows "case seriesWindow posts current width of
    (a, b) \<Rightarrow> 0 \<le> a \<and> b \<le> posts \<and> b - a = min posts width \<and> a \<le> current \<and> current < b"
  using assms by (auto simp: seriesWindow_def Let_def min_def max_def split: if_splits)

end
