(* ===== verification/Spec2Isabelle.thy ===== *)
theory Spec2Isabelle
  imports Prelude TagGrammar DailyQuestion EditorState MediaItems MemoService Session LiveRefresh
    MarkdownTasks Drafts OAuthState MarkdownTree MemoCache PrivacyCheck HomeToday MemoFilters
    FormatUndo ListToggle SharedPages TagRuns MediaContract UploadSafety AutoSave TagRender
    FilePairing AudioRecorder SpaceDirectory SpaceRoutes
begin

text \<open>
  Verification development for the browser client of Memos Plus (\<^verbatim>\<open>web/src\<close>, TypeScript).

  \<^bold>\<open>The program.\<close> The client lets a visitor write memos in Markdown. The editor keeps its content,
  metadata and uploads in one state tree changed by a reducer; saving uploads the local files, computes
  which fields changed and sends an update mask with a patch to the server. Memo bodies carry tags, poll
  markers, task lists and references to managed attachments, each found and rewritten by scanners over
  the source text. Attachments are grouped into the items the viewer shows. Every request goes through an
  interceptor that attaches an access token and refreshes it at most once at a time, and all open tabs of
  the browser share one connection for live updates.

  \<^bold>\<open>The theories\<close>, below \<^verbatim>\<open>web/src\<close>:

  \<^item> \<open>Prelude\<close>: JavaScript strings as lists of UTF-16 code units with the operations the sources call,
    code points, decimal texts, insertion-ordered sets and maps, and the two interfaces below.
  \<^item> \<open>TagGrammar\<close>: \<^verbatim>\<open>utils/tag-grammar.ts\<close>; range tables and their binary search, the emoji trie, the
    segment scanner, \<open>scanTagAt\<close>, \<open>findTagMatches\<close>. The Unicode tables are the argument \<open>tag_tables\<close>.
  \<^item> \<open>DailyQuestion\<close>: \<^verbatim>\<open>utils/daily-question.ts\<close>; the FNV-1a hash and the mulberry32 generator on 32-bit
    words, the yearly shuffle, language selection, the draft of an answer.
  \<^item> \<open>Messages\<close>: the records and enumerations of \<^verbatim>\<open>types/proto/api/v1\<close> the modelled code uses.
  \<^item> \<open>Browser\<close>: the URL API and the page address, as a record of functions.
  \<^item> \<open>EditorState\<close>: \<^verbatim>\<open>components/MemoEditor/state/*.ts\<close>, \<^verbatim>\<open>services/validationService.ts\<close>,
    \<^verbatim>\<open>formatting/commands.ts\<close>; the state tree, the actions, the reducer, the save gate.
  \<^item> \<open>Attachments\<close>, \<open>ManagedAttachment\<close>, \<open>MediaItems\<close>: \<^verbatim>\<open>utils/attachment.ts\<close>,
    \<^verbatim>\<open>utils/managed-attachment.ts\<close>, \<^verbatim>\<open>utils/media-item.ts\<close>, \<^verbatim>\<open>components/MemoEditor/types/attachment.ts\<close>;
    addresses of attachments, references in memo bodies with their cached index and their removal, and the
    grouping into items.
  \<^item> \<open>MemoPoll\<close>: \<^verbatim>\<open>utils/memo-poll.ts\<close>; finding, isolating, adding and removing poll markers.
  \<^item> \<open>MemoService\<close>: \<^verbatim>\<open>components/MemoEditor/services/memoService.ts\<close>, \<^verbatim>\<open>uploadService.ts\<close>,
    \<^verbatim>\<open>components/MemoMetadata/Relation/relationHelpers.ts\<close>; saving, opening, the update mask.
  \<^item> \<open>AuthRoutes\<close>, \<open>Session\<close>: \<^verbatim>\<open>router/routes.ts\<close>, \<^verbatim>\<open>utils/redirect-safety.ts\<close>, \<^verbatim>\<open>auth-state.ts\<close>,
    \<^verbatim>\<open>connect.ts\<close>, \<^verbatim>\<open>utils/auth-redirect.ts\<close>, \<^verbatim>\<open>hooks/useTokenRefreshOnFocus.ts\<close>; redirect targets, the token
    store, the single-flight refresh, the interceptor.
  \<^item> \<open>LiveRefresh\<close>: \<^verbatim>\<open>hooks/useLiveMemoRefresh.ts\<close>; the event stream reader, a round of the connection
    loop with its delay, the election of the leading tab, the messages between tabs.
  \<^item> \<open>MarkdownTasks\<close>: \<^verbatim>\<open>utils/markdown-task-actions.ts\<close>, \<^verbatim>\<open>utils/markdown-manipulation.ts\<close>; task lists and
    unique heading slugs.
  \<^item> \<open>Json\<close>, \<open>Drafts\<close>, \<open>OAuthState\<close>: the JSON texts of the browser storage;
    \<^verbatim>\<open>components/MemoEditor/services/cacheService.ts\<close>, the drafts with their delayed writes, and \<^verbatim>\<open>utils/oauth.ts\<close>,
    the state of a sign-in kept for its return.
  \<^item> \<open>WrittenUrls\<close>, \<open>WrittenEmails\<close>, \<open>MarkdownTree\<close>: \<^verbatim>\<open>utils/markdown-source-boundaries.ts\<close>, \<^verbatim>\<open>utils/gfm-url.ts\<close>,
    \<^verbatim>\<open>utils/gfm-email.ts\<close>, \<^verbatim>\<open>utils/markdown-link.ts\<close>; the addresses written in a run of text, in its decoded
    spelling, and in the nodes of a syntax tree.
  \<^item> \<open>MemoCache\<close>: \<^verbatim>\<open>hooks/useMemoQueries.ts\<close>; the keys of the query cache and its change at every mutation, with
    optimistic updates and their rollback.
  \<^item> \<open>MemoFilters\<close>: \<^verbatim>\<open>hooks/useMemoFilters.ts\<close>, \<^verbatim>\<open>lib/resource-names.ts\<close>; the filter expression of a memo list.
  \<^item> \<open>PrivacyCheck\<close>: \<^verbatim>\<open>utils/privacy-check.ts\<close>; the patterns with backtracking, the check digits, the findings.
  \<^item> \<open>HomeToday\<close>: \<^verbatim>\<open>utils/home-today.ts\<close>; the writing streak and the same day in past years.
  \<^item> \<open>ListIndent\<close>: \<^verbatim>\<open>components/MemoEditor/Editor/listIndent.ts\<close>; Tab and Shift-Tab on list items.
  \<^item> \<open>RichText\<close>: \<^verbatim>\<open>utils/memo-rich-text.ts\<close>; colours, sizes and the markers of rich text.
  \<^item> \<open>Formatting\<close>, with \<open>FormatUndo\<close> and \<open>ListToggle\<close>: \<^verbatim>\<open>components/MemoEditor/Editor/formatting.ts\<close>; every
    formatting command as the transaction it dispatches, the active formats, taking a format back, and the list commands.
  \<^item> \<open>SharedPages\<close>: \<^verbatim>\<open>components/MemoEditor/utils/sharedNote.ts\<close>; a page shared to the site becomes a note in the
    draft of \<open>Drafts\<close>.
  \<^item> \<open>TagRanges\<close>, with \<open>TagRuns\<close>: \<^verbatim>\<open>components/MemoEditor/Editor/markdownTagRanges.ts\<close>, \<^verbatim>\<open>utils/mention-grammar.ts\<close>,
    \<^verbatim>\<open>utils/username.ts\<close>; the runs of the syntax tree that are searched for tags and user names, with the text that is
    parsed again, the kept parse, and what the two searches find.
  \<^item> \<open>TagRender\<close>: \<^verbatim>\<open>utils/remark-plugins/remark-tag.ts\<close>; the runs of the source behind a text node of a rendered memo, the
    tags and user names found in them, and the split of the node.
  \<^item> \<open>MediaExtraction\<close>, with \<open>MediaContract\<close>: \<^verbatim>\<open>components/MemoEditor/services/mediaMetadataService.ts\<close>; the metadata
    read of an image or a video, and the check of the server (\<^verbatim>\<open>server/router/api/v1/attachment_media_metadata.go\<close>) it passes.
  \<^item> \<open>UploadAnchors\<close>: \<^verbatim>\<open>components/MemoEditor/Editor/uploadAnchors.ts\<close>, \<^verbatim>\<open>controller.ts\<close>; the anchors that mark where a
    reference will be written, and the operations of the controller on text, selection and anchors.
  \<^item> \<open>InlineFiles\<close>, \<open>InlineUpload\<close>, with \<open>UploadInvariant\<close> and \<open>UploadSafety\<close>: \<^verbatim>\<open>components/MemoEditor/hooks/useInlineImageUpload.ts\<close>,
    \<^verbatim>\<open>useMemoSave.ts\<close>, \<^verbatim>\<open>state/context.tsx\<close>; the split of picked files, the upload jobs with every step between two awaits,
    the save of the memo, and what holds in every order of their events.
  \<^item> \<open>FilePairing\<close>: \<^verbatim>\<open>components/MemoEditor/hooks/useFileUpload.ts\<close>; picked files become local files, and a picture and
    a video of one name a motion group of \<open>InlineFiles\<close>.
  \<^item> \<open>AudioRecorder\<close>: \<^verbatim>\<open>components/MemoEditor/hooks/useAudioRecorder.ts\<close>; the request for the microphone, the recording and
    its delivery, with the streams and recorders of the platform as part of the state.
  \<^item> \<open>AutoSave\<close>: \<^verbatim>\<open>components/MemoEditor/hooks/useAutoSave.ts\<close>, \<^verbatim>\<open>useMemoInit.ts\<close>; what an editor opens with, how the
    draft of \<open>Drafts\<close> follows its state, and what is stored when it goes or its draft is discarded.
  \<^item> \<open>SpaceDirectory\<close>: \<^verbatim>\<open>utils/space-directory.ts\<close>; the recently opened spaces, the switcher, the search and the sample.
  \<^item> \<open>SpaceRoutes\<close>: \<^verbatim>\<open>lib/space-routes.ts\<close>, \<^verbatim>\<open>lib/memo-views.ts\<close>, \<^verbatim>\<open>utils/memo.ts\<close>, \<^verbatim>\<open>utils/memo-series.ts\<close>; the space and
    the scope of a page, the audiences of a memo and the series of a post.

  A function keeps its source name; a loop of a function is a function of its own (\<open>find_tags_loop\<close>,
  \<open>visual_loop\<close>). Module state (the parse cache, the token, the refresh in flight) is an explicit state
  that the operations take and return; an exception is \<open>None\<close> or \<open>Inl\<close>; an \<^verbatim>\<open>await\<close> whose interleaving
  matters is a step of its own (\<open>refresh_call\<close> and \<open>refresh_settle\<close>, \<open>grant_lock\<close> and \<open>leader_done\<close>).

  \<^bold>\<open>Interfaces.\<close> \<open>range_scanner\<close> (Prelude) is what finding all matches of a scanner relies on: a scan
  stays inside the text, an advance makes progress; it gives ordered, disjoint and complete matches, for
  \<open>TagGrammar\<close> (interpretation \<open>tags\<close>), \<open>MemoPoll\<close> (\<open>markers\<close>) and \<open>WrittenUrls\<close> (\<open>boundaries\<close>). \<open>reducer\<close> (Prelude) is a state that
  changes by guarded steps with an invariant: the editor (\<open>wf_editor\<close>, \<open>save_lock\<close>), the parse cache
  (\<open>index_module\<close>), the tabs (\<open>live\<close>), the drafts (\<open>drafts\<close>), the cached memos (\<open>memo_cache\<close>), the uploads
  (\<open>upload_runs\<close>) an editor with the specification of its draft (\<open>session_runs\<close>)
  and the audio recorder (\<open>recorder_runs\<close>). \<open>bounded_source\<close> (DailyQuestion, \<open>mulberry\<close>) is the random source
  of the shuffle; \<open>token_store\<close> (Session, \<open>memos_token\<close>) is what the interceptor asks of the token.

  \<^bold>\<open>What the lemmas show.\<close> Scanners: the matches lie in the source, in order and disjoint, carry the text
  they stand for, and none is missed; removal and marker edits touch no other text. Editor: the reducer
  keeps the invariant of the state; a save cannot start while one runs; the update patch under its mask
  takes the stored memo to the editor's state; an untouched memo is not sent. Media: every attachment
  appears in exactly one item. Session: one refresh at a time, bounded sends and redirects, the refreshed
  token is the one used. Live updates: one connection for all tabs, events independent of the network's
  chunks, bounded delays. Daily question: a year's order is a permutation and no question repeats within
  a round. Drafts: the delayed writes implement a store written at once, and what is read back is what was
  saved; an editor leaves what it showed last, and the next one shows it. Sign-in: a stored state is accepted once and only for its provider. Cache: all copies of a memo agree
  after an update and a failed one is rolled back. Filters: no typed text changes the structure of the
  expression. Formatting: an item is kept when its indent changes,
  list commands rewrite markers only, a format taken back leaves the text as it was, alignment markers are set apart.
  Shared pages: their text stays in a quote and their title and address in one link, and they join the draft once.
  Tag runs: what is searched is the literal text the tree shows, and tags and user names are found there and nowhere else.
  Rendered memos: every tag shown is written in the source outside code, links and escapes, and no character is lost.
  Uploads: a reference is written where its anchor stands, no save runs while one is pending, no file is uploaded twice.
  Recordings: the microphone is off unless the editor records, a recording is delivered once and whole.
  Spaces: a link followed inside a space keeps the space, the switcher lists at most six spaces once each, a sample repeats none.
  Metadata: what is extracted passes the server's check. Where the code departs from its intent, a lemma exhibits the case.

  \<^bold>\<open>Bounds and fuel.\<close> Most loops recurse structurally or on a measure. \<open>find_tags_loop\<close> and the loop of
  \<open>range_scanner\<close> run on the distance to the limit, which every step lowers; the tag properties say that the
  search returns. \<open>free_suffix\<close> takes as fuel one more than the number of taken slugs, and
  \<open>free_suffix_terminates\<close> shows that it is enough. \<open>parse_value\<close> gets twice the length of its text
  and one, \<open>findMarkdownGFMEmailRanges\<close> more than the length of the source, \<open>streak_loop\<close> one more than the
  number of memos, \<open>repeat_match\<close> one more than the units left and the least count; each is shown to be enough
  where a property rests on it. The search for literal runs gets \<open>search_fuel\<close>, 64 for each unit of the source and 65:
  \<open>rank\<close> bounds how often text can be parsed again under the stated laws of the parser. The parse cache holds 128 sources. The hash and the
  generator wrap at 32 bits.

  \<^bold>\<open>Parameters.\<close> Code outside the repository is an argument: the Markdown parsers (as the nodes or the tree
  they give), the query client of the cache with its documented laws, the local time zone, the URL API and \<^verbatim>\<open>URLSearchParams\<close>, the protobuf conversions, the server's calls, the Unicode
  tables, the lock manager of the platform (a granted lock is exclusive, an aborted request is dropped).
  The syntax tree the formatting commands probe is the chain of nodes at a position; what a dispatched transaction
  does to the text is \<open>apply_changes\<close>. The two Markdown parsers of the tag search are \<open>tag_parsers\<close>, with the laws
  \<open>tag_parser_ok\<close>; the EXIF reader, the image decoder and the events of a video element are arguments, and so is the ISO
  form of a date, with the laws \<open>date_laws\<close>. How the editor library moves positions through changes is \<open>position_mapping\<close>, with
  the laws \<open>mapping_ok\<close> and \<open>maps_inside\<close>; the comparison of two attachments is \<open>de_equals\<close>, with the law \<open>equals_ok\<close>.
  Hypotheses about them are named in the theorems that need them.

  \<^bold>\<open>Not modelled.\<close> React components and hooks that only wire state to the screen, the server (Go) but for its check of
  media metadata, the generated conversions, translations and question banks (data), canvas effects, and requests that are pure
  input and output. Reading positions (entries of arbitrary stored JSON, and
  the scrolled window), the age of posts and the texts for sizes are small helpers without state of their own and are left out.
\<close>

end
